(* ===== verification/Qufox_Prelude.thy ===== *)
theory Qufox_Prelude
  imports Complex_Main "HOL-Library.Word"
begin

text \<open>
  Prelude of the qufox development: the types and lemmas every component shares.

  \<^item> JavaScript strings are lists of UTF-16 code units (\<open>js_string\<close>); \<open>js\<close> turns an
    ASCII literal into one. Identifiers (uuids, cuids, Redis keys) are only compared for
    equality, so they are plain \<open>string\<close>s.
  \<^item> JavaScript numbers used as bit masks are \<open>32 word\<close>s: \<open>|\<close>, \<open>&\<close>, \<open>~\<close> and \<open>>>> 0\<close>
    work on 32 bits. BigInts are \<open>int\<close>s, whose \<open>AND\<close>, \<open>OR\<close>, \<open>NOT\<close> are the unbounded
    two's complement operations of BigInt.
  \<^item> A thrown \<open>DomainError\<close> is the left of a sum, with its \<open>ErrorCode\<close>.
  \<^item> A table of the database is a list of records; \<open>update_where\<close> and \<open>delete_where\<close> are
    Prisma's \<open>updateMany\<close> and \<open>deleteMany\<close>.
\<close>

unbundle bit_operations_syntax

named_theorems mask_simps \<open>bitwise readings of the permission masks\<close>
named_theorems db_simps \<open>facts about table updates\<close>

subsection \<open>Identifiers, time and errors\<close>

type_synonym id = string
type_synonym msec = int  \<comment> \<open>\<open>Date.now()\<close>: milliseconds since the epoch\<close>
type_synonym mask32 = "32 word"

text \<open>The error codes of \<open>common/errors/error-code.enum.ts\<close> that the modelled code raises; a value
  of the enum is a string.\<close>

datatype error_code = Error_Code string

abbreviation WORKSPACE_NOT_MEMBER :: error_code where "WORKSPACE_NOT_MEMBER \<equiv> Error_Code ''WORKSPACE_NOT_MEMBER''"
abbreviation CHANNEL_NOT_VISIBLE :: error_code where "CHANNEL_NOT_VISIBLE \<equiv> Error_Code ''CHANNEL_NOT_VISIBLE''"
abbreviation FORBIDDEN :: error_code where "FORBIDDEN \<equiv> Error_Code ''FORBIDDEN''"
abbreviation CHANNEL_POSTING_RESTRICTED :: error_code where "CHANNEL_POSTING_RESTRICTED \<equiv> Error_Code ''CHANNEL_POSTING_RESTRICTED''"
abbreviation AUTH_INVALID_TOKEN :: error_code where "AUTH_INVALID_TOKEN \<equiv> Error_Code ''AUTH_INVALID_TOKEN''"
abbreviation AUTH_SESSION_COMPROMISED :: error_code where "AUTH_SESSION_COMPROMISED \<equiv> Error_Code ''AUTH_SESSION_COMPROMISED''"
abbreviation SESSION_NOT_FOUND :: error_code where "SESSION_NOT_FOUND \<equiv> Error_Code ''SESSION_NOT_FOUND''"
abbreviation FRIEND_REQUEST_BLOCKED :: error_code where "FRIEND_REQUEST_BLOCKED \<equiv> Error_Code ''FRIEND_REQUEST_BLOCKED''"
abbreviation FRIEND_TARGET_NOT_FOUND :: error_code where "FRIEND_TARGET_NOT_FOUND \<equiv> Error_Code ''FRIEND_TARGET_NOT_FOUND''"
abbreviation FRIEND_CANNOT_SELF :: error_code where "FRIEND_CANNOT_SELF \<equiv> Error_Code ''FRIEND_CANNOT_SELF''"
abbreviation FRIEND_BLOCKED :: error_code where "FRIEND_BLOCKED \<equiv> Error_Code ''FRIEND_BLOCKED''"
abbreviation FRIEND_ALREADY :: error_code where "FRIEND_ALREADY \<equiv> Error_Code ''FRIEND_ALREADY''"
abbreviation FRIEND_REQUEST_DUPLICATE :: error_code where "FRIEND_REQUEST_DUPLICATE \<equiv> Error_Code ''FRIEND_REQUEST_DUPLICATE''"
abbreviation FRIEND_CAP_REACHED :: error_code where "FRIEND_CAP_REACHED \<equiv> Error_Code ''FRIEND_CAP_REACHED''"
abbreviation FRIEND_NOT_FOUND :: error_code where "FRIEND_NOT_FOUND \<equiv> Error_Code ''FRIEND_NOT_FOUND''"
abbreviation FRIEND_INVALID_STATE :: error_code where "FRIEND_INVALID_STATE \<equiv> Error_Code ''FRIEND_INVALID_STATE''"
abbreviation ROLE_NOT_FOUND :: error_code where "ROLE_NOT_FOUND \<equiv> Error_Code ''ROLE_NOT_FOUND''"
abbreviation ROLE_POSITION_TOO_HIGH :: error_code where "ROLE_POSITION_TOO_HIGH \<equiv> Error_Code ''ROLE_POSITION_TOO_HIGH''"
abbreviation ROLE_SYSTEM_IMMUTABLE :: error_code where "ROLE_SYSTEM_IMMUTABLE \<equiv> Error_Code ''ROLE_SYSTEM_IMMUTABLE''"
abbreviation ROLE_PRIVILEGE_ESCALATION :: error_code where "ROLE_PRIVILEGE_ESCALATION \<equiv> Error_Code ''ROLE_PRIVILEGE_ESCALATION''"
abbreviation ROLE_NAME_TAKEN :: error_code where "ROLE_NAME_TAKEN \<equiv> Error_Code ''ROLE_NAME_TAKEN''"
abbreviation WORKSPACE_TARGET_NOT_MEMBER :: error_code where "WORKSPACE_TARGET_NOT_MEMBER \<equiv> Error_Code ''WORKSPACE_TARGET_NOT_MEMBER''"
abbreviation VALIDATION_FAILED :: error_code where "VALIDATION_FAILED \<equiv> Error_Code ''VALIDATION_FAILED''"
abbreviation MESSAGE_NOT_FOUND :: error_code where "MESSAGE_NOT_FOUND \<equiv> Error_Code ''MESSAGE_NOT_FOUND''"
abbreviation MESSAGE_CURSOR_INVALID :: error_code where "MESSAGE_CURSOR_INVALID \<equiv> Error_Code ''MESSAGE_CURSOR_INVALID''"
abbreviation MESSAGE_PARENT_NOT_FOUND :: error_code where "MESSAGE_PARENT_NOT_FOUND \<equiv> Error_Code ''MESSAGE_PARENT_NOT_FOUND''"
abbreviation MESSAGE_THREAD_DEPTH_EXCEEDED :: error_code where "MESSAGE_THREAD_DEPTH_EXCEEDED \<equiv> Error_Code ''MESSAGE_THREAD_DEPTH_EXCEEDED''"
abbreviation MESSAGE_VERSION_CONFLICT :: error_code where "MESSAGE_VERSION_CONFLICT \<equiv> Error_Code ''MESSAGE_VERSION_CONFLICT''"
abbreviation MESSAGE_CONTENT_INVALID :: error_code where "MESSAGE_CONTENT_INVALID \<equiv> Error_Code ''MESSAGE_CONTENT_INVALID''"
abbreviation MESSAGE_PIN_CAP_EXCEEDED :: error_code where "MESSAGE_PIN_CAP_EXCEEDED \<equiv> Error_Code ''MESSAGE_PIN_CAP_EXCEEDED''"
abbreviation IDEMPOTENCY_KEY_REUSE_CONFLICT :: error_code where "IDEMPOTENCY_KEY_REUSE_CONFLICT \<equiv> Error_Code ''IDEMPOTENCY_KEY_REUSE_CONFLICT''"
abbreviation ATTACHMENT_NOT_FOUND :: error_code where "ATTACHMENT_NOT_FOUND \<equiv> Error_Code ''ATTACHMENT_NOT_FOUND''"
abbreviation BULK_MENTION_CONFIRM_REQUIRED :: error_code where "BULK_MENTION_CONFIRM_REQUIRED \<equiv> Error_Code ''BULK_MENTION_CONFIRM_REQUIRED''"
abbreviation BULK_DELETE_LIMIT :: error_code where "BULK_DELETE_LIMIT \<equiv> Error_Code ''BULK_DELETE_LIMIT''"
abbreviation RATE_LIMITED :: error_code where "RATE_LIMITED \<equiv> Error_Code ''RATE_LIMITED''"
abbreviation WORKSPACE_NOT_FOUND :: error_code where "WORKSPACE_NOT_FOUND \<equiv> Error_Code ''WORKSPACE_NOT_FOUND''"
abbreviation WORKSPACE_SLUG_RESERVED :: error_code where "WORKSPACE_SLUG_RESERVED \<equiv> Error_Code ''WORKSPACE_SLUG_RESERVED''"
abbreviation WORKSPACE_SLUG_TAKEN :: error_code where "WORKSPACE_SLUG_TAKEN \<equiv> Error_Code ''WORKSPACE_SLUG_TAKEN''"
abbreviation WORKSPACE_INSUFFICIENT_ROLE :: error_code where "WORKSPACE_INSUFFICIENT_ROLE \<equiv> Error_Code ''WORKSPACE_INSUFFICIENT_ROLE''"
abbreviation WORKSPACE_CANNOT_DEMOTE_OWNER :: error_code where "WORKSPACE_CANNOT_DEMOTE_OWNER \<equiv> Error_Code ''WORKSPACE_CANNOT_DEMOTE_OWNER''"
abbreviation WORKSPACE_CANNOT_REMOVE_OWNER :: error_code where "WORKSPACE_CANNOT_REMOVE_OWNER \<equiv> Error_Code ''WORKSPACE_CANNOT_REMOVE_OWNER''"
abbreviation WORKSPACE_OWNER_MUST_TRANSFER :: error_code where "WORKSPACE_OWNER_MUST_TRANSFER \<equiv> Error_Code ''WORKSPACE_OWNER_MUST_TRANSFER''"
abbreviation WORKSPACE_NOT_PUBLIC :: error_code where "WORKSPACE_NOT_PUBLIC \<equiv> Error_Code ''WORKSPACE_NOT_PUBLIC''"
abbreviation WORKSPACE_APPLY_NOT_SUPPORTED :: error_code where "WORKSPACE_APPLY_NOT_SUPPORTED \<equiv> Error_Code ''WORKSPACE_APPLY_NOT_SUPPORTED''"
abbreviation WORKSPACE_DOMAIN_NOT_ALLOWED :: error_code where "WORKSPACE_DOMAIN_NOT_ALLOWED \<equiv> Error_Code ''WORKSPACE_DOMAIN_NOT_ALLOWED''"
abbreviation WORKSPACE_CONFIRMATION_MISMATCH :: error_code where "WORKSPACE_CONFIRMATION_MISMATCH \<equiv> Error_Code ''WORKSPACE_CONFIRMATION_MISMATCH''"
abbreviation WORKSPACE_PURGED :: error_code where "WORKSPACE_PURGED \<equiv> Error_Code ''WORKSPACE_PURGED''"
abbreviation WORKSPACE_PUBLIC_REQUIRES_METADATA :: error_code where "WORKSPACE_PUBLIC_REQUIRES_METADATA \<equiv> Error_Code ''WORKSPACE_PUBLIC_REQUIRES_METADATA''"
abbreviation WORKSPACE_EMAIL_DOMAINS_FORBIDDEN :: error_code where "WORKSPACE_EMAIL_DOMAINS_FORBIDDEN \<equiv> Error_Code ''WORKSPACE_EMAIL_DOMAINS_FORBIDDEN''"
abbreviation WORKSPACE_DEFAULT_CHANNEL_NOT_PUBLIC :: error_code where "WORKSPACE_DEFAULT_CHANNEL_NOT_PUBLIC \<equiv> Error_Code ''WORKSPACE_DEFAULT_CHANNEL_NOT_PUBLIC''"
abbreviation CHANNEL_NOT_FOUND :: error_code where "CHANNEL_NOT_FOUND \<equiv> Error_Code ''CHANNEL_NOT_FOUND''"
abbreviation EMAIL_NOT_VERIFIED :: error_code where "EMAIL_NOT_VERIFIED \<equiv> Error_Code ''EMAIL_NOT_VERIFIED''"
abbreviation AUTH_INVALID_CREDENTIALS :: error_code where "AUTH_INVALID_CREDENTIALS \<equiv> Error_Code ''AUTH_INVALID_CREDENTIALS''"
abbreviation MODERATION_CANNOT_SELF :: error_code where "MODERATION_CANNOT_SELF \<equiv> Error_Code ''MODERATION_CANNOT_SELF''"
abbreviation MODERATION_TARGET_HIGHER :: error_code where "MODERATION_TARGET_HIGHER \<equiv> Error_Code ''MODERATION_TARGET_HIGHER''"
abbreviation MEMBER_ALREADY_BANNED :: error_code where "MEMBER_ALREADY_BANNED \<equiv> Error_Code ''MEMBER_ALREADY_BANNED''"
abbreviation MEMBER_NOT_BANNED :: error_code where "MEMBER_NOT_BANNED \<equiv> Error_Code ''MEMBER_NOT_BANNED''"
abbreviation KICK_UNDO_INVALID :: error_code where "KICK_UNDO_INVALID \<equiv> Error_Code ''KICK_UNDO_INVALID''"
abbreviation INVITE_NOT_FOUND :: error_code where "INVITE_NOT_FOUND \<equiv> Error_Code ''INVITE_NOT_FOUND''"
abbreviation INVITE_REVOKED :: error_code where "INVITE_REVOKED \<equiv> Error_Code ''INVITE_REVOKED''"
abbreviation INVITE_EXPIRED :: error_code where "INVITE_EXPIRED \<equiv> Error_Code ''INVITE_EXPIRED''"
abbreviation INVITE_EXHAUSTED :: error_code where "INVITE_EXHAUSTED \<equiv> Error_Code ''INVITE_EXHAUSTED''"
abbreviation APPLICATION_NOT_APPLICABLE :: error_code where "APPLICATION_NOT_APPLICABLE \<equiv> Error_Code ''APPLICATION_NOT_APPLICABLE''"
abbreviation APPLICATION_PENDING_EXISTS :: error_code where "APPLICATION_PENDING_EXISTS \<equiv> Error_Code ''APPLICATION_PENDING_EXISTS''"
abbreviation APPLICATION_NOT_FOUND :: error_code where "APPLICATION_NOT_FOUND \<equiv> Error_Code ''APPLICATION_NOT_FOUND''"
abbreviation APPLICATION_INVALID_STATE :: error_code where "APPLICATION_INVALID_STATE \<equiv> Error_Code ''APPLICATION_INVALID_STATE''"
abbreviation APPLICATION_COOLDOWN :: error_code where "APPLICATION_COOLDOWN \<equiv> Error_Code ''APPLICATION_COOLDOWN''"
abbreviation APPLICATION_FORBIDDEN :: error_code where "APPLICATION_FORBIDDEN \<equiv> Error_Code ''APPLICATION_FORBIDDEN''"
abbreviation WORKSPACE_ALREADY_MEMBER :: error_code where "WORKSPACE_ALREADY_MEMBER \<equiv> Error_Code ''WORKSPACE_ALREADY_MEMBER''"
abbreviation EMAIL_INVITE_EXPIRED :: error_code where "EMAIL_INVITE_EXPIRED \<equiv> Error_Code ''EMAIL_INVITE_EXPIRED''"
abbreviation EMAIL_INVITE_TOKEN_INVALID :: error_code where "EMAIL_INVITE_TOKEN_INVALID \<equiv> Error_Code ''EMAIL_INVITE_TOKEN_INVALID''"
abbreviation EMAIL_INVITE_ALREADY_ACCEPTED :: error_code where "EMAIL_INVITE_ALREADY_ACCEPTED \<equiv> Error_Code ''EMAIL_INVITE_ALREADY_ACCEPTED''"
abbreviation EMAIL_INVITE_EMAIL_MISMATCH :: error_code where "EMAIL_INVITE_EMAIL_MISMATCH \<equiv> Error_Code ''EMAIL_INVITE_EMAIL_MISMATCH''"
abbreviation EMAIL_INVITE_ROLE_MISMATCH :: error_code where "EMAIL_INVITE_ROLE_MISMATCH \<equiv> Error_Code ''EMAIL_INVITE_ROLE_MISMATCH''"
abbreviation EMAIL_INVITE_NOT_FOUND :: error_code where "EMAIL_INVITE_NOT_FOUND \<equiv> Error_Code ''EMAIL_INVITE_NOT_FOUND''"
abbreviation NOT_FOUND :: error_code where "NOT_FOUND \<equiv> Error_Code ''NOT_FOUND''"
abbreviation REACTION_LIMIT_REACHED :: error_code where "REACTION_LIMIT_REACHED \<equiv> Error_Code ''REACTION_LIMIT_REACHED''"
abbreviation CUSTOM_EMOJI_NOT_FOUND :: error_code where "CUSTOM_EMOJI_NOT_FOUND \<equiv> Error_Code ''CUSTOM_EMOJI_NOT_FOUND''"
abbreviation MEMBER_TIMED_OUT :: error_code where "MEMBER_TIMED_OUT \<equiv> Error_Code ''MEMBER_TIMED_OUT''"
abbreviation RULES_NOT_ACCEPTED :: error_code where "RULES_NOT_ACCEPTED \<equiv> Error_Code ''RULES_NOT_ACCEPTED''"
abbreviation CHANNEL_ARCHIVED :: error_code where "CHANNEL_ARCHIVED \<equiv> Error_Code ''CHANNEL_ARCHIVED''"
abbreviation CHANNEL_NAME_TAKEN :: error_code where "CHANNEL_NAME_TAKEN \<equiv> Error_Code ''CHANNEL_NAME_TAKEN''"
abbreviation CHANNEL_NAME_INVALID :: error_code where "CHANNEL_NAME_INVALID \<equiv> Error_Code ''CHANNEL_NAME_INVALID''"
abbreviation CATEGORY_NOT_FOUND :: error_code where "CATEGORY_NOT_FOUND \<equiv> Error_Code ''CATEGORY_NOT_FOUND''"
abbreviation CATEGORY_NAME_TAKEN :: error_code where "CATEGORY_NAME_TAKEN \<equiv> Error_Code ''CATEGORY_NAME_TAKEN''"
abbreviation CHANNEL_POSITION_INVALID :: error_code where "CHANNEL_POSITION_INVALID \<equiv> Error_Code ''CHANNEL_POSITION_INVALID''"
abbreviation DEFAULT_CHANNEL_PROTECTED :: error_code where "DEFAULT_CHANNEL_PROTECTED \<equiv> Error_Code ''DEFAULT_CHANNEL_PROTECTED''"
abbreviation CHANNEL_PURGED :: error_code where "CHANNEL_PURGED \<equiv> Error_Code ''CHANNEL_PURGED''"
abbreviation CHANNEL_CONFIRM_REQUIRED :: error_code where "CHANNEL_CONFIRM_REQUIRED \<equiv> Error_Code ''CHANNEL_CONFIRM_REQUIRED''"
abbreviation CHANNEL_TYPE_NOT_IMPLEMENTED :: error_code where "CHANNEL_TYPE_NOT_IMPLEMENTED \<equiv> Error_Code ''CHANNEL_TYPE_NOT_IMPLEMENTED''"
text \<open>The codes of the message parser, which the API passes on.\<close>

abbreviation E_MESSAGE_TOO_LONG :: error_code where "E_MESSAGE_TOO_LONG \<equiv> Error_Code ''E_MESSAGE_TOO_LONG''"
abbreviation E_PARSE_TIMEOUT :: error_code where "E_PARSE_TIMEOUT \<equiv> Error_Code ''E_PARSE_TIMEOUT''"
abbreviation E_PARSE_DEPTH_EXCEEDED :: error_code where "E_PARSE_DEPTH_EXCEEDED \<equiv> Error_Code ''E_PARSE_DEPTH_EXCEEDED''"
abbreviation E_PARSE_NODE_LIMIT :: error_code where "E_PARSE_NODE_LIMIT \<equiv> Error_Code ''E_PARSE_NODE_LIMIT''"
abbreviation E_PARSE_AST_TOO_LARGE :: error_code where "E_PARSE_AST_TOO_LARGE \<equiv> Error_Code ''E_PARSE_AST_TOO_LARGE''"

subsection \<open>Sums as results\<close>

definition bind_res :: "'e + 'a \<Rightarrow> ('a \<Rightarrow> 'e + 'b) \<Rightarrow> 'e + 'b" where
  "bind_res r f = (case r of Inl e \<Rightarrow> Inl e | Inr a \<Rightarrow> f a)"

lemma bind_res_simps [simp]:
  "bind_res (Inl e) f = Inl e"
  "bind_res (Inr a) f = f a"
  by (simp_all add: bind_res_def)

lemma bind_res_Inr_iff: "bind_res r f = Inr b \<longleftrightarrow> (\<exists>a. r = Inr a \<and> f a = Inr b)"
  by (cases r) auto

text \<open>
  An interactive transaction: a handler that throws leaves the state it started from. A
  handler maps a state to a result and a state.
\<close>

definition transaction :: "('s \<Rightarrow> ('e + 'a) \<times> 's) \<Rightarrow> 's \<Rightarrow> ('e + 'a) \<times> 's" where
  "transaction f s = (case f s of (Inl e, _) \<Rightarrow> (Inl e, s) | (Inr a, s') \<Rightarrow> (Inr a, s'))"

lemma transaction_Inl: "transaction f s = (Inl e, s') \<Longrightarrow> s' = s"
  by (auto simp: transaction_def split: prod.splits sum.splits)

lemma transaction_Inr: "transaction f s = (Inr a, s') \<longleftrightarrow> f s = (Inr a, s')"
  by (auto simp: transaction_def split: prod.splits sum.splits)

subsection \<open>JavaScript strings\<close>

type_synonym js_string = "nat list"

definition js :: "string \<Rightarrow> js_string" where
  "js s = map of_char s"

lemma js_simps [simp]: "js [] = []" "js (c # cs) = of_char c # js cs"
  by (simp_all add: js_def)

text \<open>The code units \<open>\<s>\<close> and \<open>trim\<close> treat as white space (ECMAScript WhiteSpace and LineTerminator).\<close>

definition is_js_space :: "nat \<Rightarrow> bool" where
  "is_js_space c \<longleftrightarrow> (9 \<le> c \<and> c \<le> 13) \<or> c = 32 \<or> c = 160 \<or> c = 5760
     \<or> (8192 \<le> c \<and> c \<le> 8202) \<or> c = 8232 \<or> c = 8233 \<or> c = 8239 \<or> c = 8287
     \<or> c = 12288 \<or> c = 65279"

definition is_js_digit :: "nat \<Rightarrow> bool" where
  "is_js_digit c \<longleftrightarrow> 48 \<le> c \<and> c \<le> 57"

definition is_js_lower :: "nat \<Rightarrow> bool" where
  "is_js_lower c \<longleftrightarrow> 97 \<le> c \<and> c \<le> 122"

definition is_js_upper :: "nat \<Rightarrow> bool" where
  "is_js_upper c \<longleftrightarrow> 65 \<le> c \<and> c \<le> 90"

definition js_trim :: "js_string \<Rightarrow> js_string" where
  "js_trim s = rev (dropWhile is_js_space (rev (dropWhile is_js_space s)))"

text \<open>Decimal notation of a non-negative BigInt: \<open>toString\<close> and the value of a digit string.\<close>

fun dec_digits :: "nat \<Rightarrow> js_string" where
  "dec_digits n = (if n < 10 then [48 + n] else dec_digits (n div 10) @ [48 + n mod 10])"

declare dec_digits.simps [simp del]

definition dec_value :: "js_string \<Rightarrow> nat" where
  "dec_value ds = foldl (\<lambda>a d. 10 * a + (d - 48)) 0 ds"

lemma dec_value_snoc: "dec_value (ds @ [d]) = 10 * dec_value ds + (d - 48)"
  by (simp add: dec_value_def)

lemma dec_value_digits [simp]: "dec_value (dec_digits n) = n"
proof (induction n rule: dec_digits.induct)
  case (1 n)
  show ?case
  proof (cases "n < 10")
    case True
    then show ?thesis by (simp add: dec_digits.simps [of n] dec_value_def)
  next
    case False
    with 1 show ?thesis by (simp add: dec_digits.simps [of n] dec_value_snoc)
  qed
qed

lemma dec_digits_all_digits: "list_all is_js_digit (dec_digits n)"
proof (induction n rule: dec_digits.induct)
  case (1 n)
  then show ?case
    by (cases "n < 10") (auto simp: dec_digits.simps [of n] is_js_digit_def)
qed

lemma dec_digits_nonempty [simp]: "dec_digits n \<noteq> []"
  by (subst dec_digits.simps) simp

lemma dec_digits_no_leading_zero: "0 < n \<Longrightarrow> hd (dec_digits n) \<noteq> 48"
proof (induction n rule: dec_digits.induct)
  case (1 n)
  show ?case
  proof (cases "n < 10")
    case True
    with 1 show ?thesis by (simp add: dec_digits.simps [of n])
  next
    case False
    then have "0 < n div 10" by (simp add: div_greater_zero_iff)
    with 1 False show ?thesis by (simp add: dec_digits.simps [of n])
  qed
qed

text \<open>A digit string without a leading zero is the notation of its value.\<close>

lemma dec_value_pos:
  assumes "ds \<noteq> []" and "hd ds \<noteq> 48" and "list_all is_js_digit ds"
  shows "0 < dec_value ds"
  using assms
proof (induction ds rule: rev_induct)
  case Nil
  then show ?case by simp
next
  case (snoc d ds)
  then show ?case
    by (cases ds) (auto simp: dec_value_snoc dec_value_def is_js_digit_def)
qed

lemma dec_digits_step:
  assumes "0 < v" and "e < 10"
  shows "dec_digits (10 * v + e) = dec_digits v @ [48 + e]"
proof -
  from assms have "\<not> 10 * v + e < 10" "(10 * v + e) div 10 = v" "(10 * v + e) mod 10 = e"
    by auto
  then show ?thesis by (simp add: dec_digits.simps [of "10 * v + e"])
qed

lemma dec_digits_value:
  assumes "ds \<noteq> []" and "hd ds \<noteq> 48" and "list_all is_js_digit ds"
  shows "dec_digits (dec_value ds) = ds"
  using assms
proof (induction ds rule: rev_induct)
  case Nil
  then show ?case by simp
next
  case (snoc d ds)
  then have d: "48 \<le> d" "d - 48 < 10" by (auto simp: is_js_digit_def)
  show ?case
  proof (cases "ds = []")
    case True
    with d show ?thesis by (simp add: dec_value_def dec_digits.simps [of "d - 48"])
  next
    case False
    with snoc have ih: "dec_digits (dec_value ds) = ds" and pos: "0 < dec_value ds"
      by (auto intro!: dec_value_pos)
    from d ih pos show ?thesis
      by (simp only: dec_value_snoc dec_digits_step) simp
  qed
qed

subsection \<open>Bit masks\<close>

lemma bit_foldl_or [mask_simps]:
  fixes a :: "'a::semiring_bit_operations"
  shows "bit (foldl (\<lambda>m x. m OR f x) a xs) n \<longleftrightarrow> bit a n \<or> (\<exists>x \<in> set xs. bit (f x) n)"
  by (induction xs arbitrary: a) (auto simp: bit_or_iff)

lemma foldl_or_set_cong:
  fixes a :: "'a::semiring_bit_operations"
  assumes "set xs = set ys"
  shows "foldl (\<lambda>m x. m OR f x) a xs = foldl (\<lambda>m x. m OR f x) a ys"
  by (rule bit_eqI) (simp add: bit_foldl_or assms)

lemma mask_subset_iff:
  fixes m f :: "'a::semiring_bit_operations"
  shows "m AND f = f \<longleftrightarrow> (\<forall>n. possible_bit TYPE('a) n \<longrightarrow> bit f n \<longrightarrow> bit m n)"
  by (auto simp: bit_eq_iff bit_and_iff)

text \<open>
  The contract of a five-stage permission fold (ADR-4): base, role allow, role deny, user
  allow, user deny, each later stage winning over the earlier ones, bit by bit.
\<close>

locale five_stage =
  fixes fold5 :: "'m \<Rightarrow> 'm \<Rightarrow> 'm \<Rightarrow> 'm \<Rightarrow> 'm \<Rightarrow> 'm" and mbit :: "'m \<Rightarrow> nat \<Rightarrow> bool"
  assumes mbit_fold: "mbit (fold5 b ra rd ua ud) n \<longleftrightarrow>
    \<not> mbit ud n \<and> (mbit ua n \<or> \<not> mbit rd n \<and> (mbit ra n \<or> mbit b n))"
begin

lemma user_deny_wins: "mbit ud n \<Longrightarrow> \<not> mbit (fold5 b ra rd ua ud) n"
  by (simp add: mbit_fold)

lemma user_allow_beats_role_deny:
  "mbit ua n \<Longrightarrow> \<not> mbit ud n \<Longrightarrow> mbit (fold5 b ra rd ua ud) n"
  by (simp add: mbit_fold)

lemma role_deny_beats_role_allow:
  "mbit rd n \<Longrightarrow> \<not> mbit ua n \<Longrightarrow> \<not> mbit (fold5 b ra rd ua ud) n"
  by (simp add: mbit_fold)

lemma role_allow_adds:
  "mbit ra n \<Longrightarrow> \<not> mbit rd n \<Longrightarrow> \<not> mbit ud n \<Longrightarrow> mbit (fold5 b ra rd ua ud) n"
  by (simp add: mbit_fold)

lemma base_kept:
  "\<not> mbit ra n \<Longrightarrow> \<not> mbit rd n \<Longrightarrow> \<not> mbit ua n \<Longrightarrow> \<not> mbit ud n \<Longrightarrow>
   mbit (fold5 b ra rd ua ud) n = mbit b n"
  by (simp add: mbit_fold)

lemma granted_from: "mbit (fold5 b ra rd ua ud) n \<Longrightarrow> mbit b n \<or> mbit ra n \<or> mbit ua n"
  by (auto simp: mbit_fold)

end

subsection \<open>Tables\<close>

definition update_where :: "('r \<Rightarrow> bool) \<Rightarrow> ('r \<Rightarrow> 'r) \<Rightarrow> 'r list \<Rightarrow> 'r list" where
  "update_where p f t = map (\<lambda>r. if p r then f r else r) t"

definition delete_where :: "('r \<Rightarrow> bool) \<Rightarrow> 'r list \<Rightarrow> 'r list" where
  "delete_where p t = filter (\<lambda>r. \<not> p r) t"

lemma set_update_where [db_simps]:
  "set (update_where p f t) = (\<lambda>r. if p r then f r else r) ` set t"
  by (simp add: update_where_def)

lemma length_update_where [simp]: "length (update_where p f t) = length t"
  by (simp add: update_where_def)

lemma set_delete_where [db_simps]: "set (delete_where p t) = {r \<in> set t. \<not> p r}"
  by (simp add: delete_where_def)

lemma map_update_where [db_simps]:
  "(\<And>r. g (f r) = g r) \<Longrightarrow> map g (update_where p f t) = map g t"
  by (simp add: update_where_def)

lemma distinct_map_delete_where [db_simps]:
  "distinct (map g t) \<Longrightarrow> distinct (map g (delete_where p t))"
  by (simp add: delete_where_def distinct_map_filter)

lemma update_where_id: "(\<And>r. r \<in> set t \<Longrightarrow> \<not> p r) \<Longrightarrow> update_where p f t = t"
  by (induction t) (auto simp: update_where_def)

lemma find_Some_in: "find p t = Some r \<Longrightarrow> r \<in> set t \<and> p r"
  by (induction t) (auto split: if_splits)

lemma find_None_all: "find p t = None \<longleftrightarrow> (\<forall>r \<in> set t. \<not> p r)"
  by (induction t) auto

lemma distinct_map_unique:
  "distinct (map g t) \<Longrightarrow> r \<in> set t \<Longrightarrow> s \<in> set t \<Longrightarrow> g r = g s \<Longrightarrow> r = s"
  by (auto simp: distinct_map inj_on_def)

lemma find_unique_key:
  assumes "distinct (map g t)" and "r \<in> set t"
  shows "find (\<lambda>x. g x = g r) t = Some r"
proof -
  have "find (\<lambda>x. g x = g r) t \<noteq> None" using assms(2) by (auto simp: find_None_all)
  then obtain s where s: "find (\<lambda>x. g x = g r) t = Some s" by blast
  then have "s \<in> set t" "g s = g r" by (auto dest: find_Some_in)
  with assms s show ?thesis using distinct_map_unique by metis
qed

subsection \<open>Steps and invariants\<close>

text \<open>
  The contract shared by the stateful components: a deterministic step function and an
  invariant every step keeps. What it gives is that every run keeps it.
\<close>

fun run_steps :: "('s \<Rightarrow> 'e \<Rightarrow> 's) \<Rightarrow> 's \<Rightarrow> 'e list \<Rightarrow> 's" where
  "run_steps step s [] = s"
| "run_steps step s (e # es) = run_steps step (step s e) es"

lemma run_steps_append:
  "run_steps step s (es @ fs) = run_steps step (run_steps step s es) fs"
  by (induction es arbitrary: s) auto

locale invariant_machine =
  fixes step :: "'s \<Rightarrow> 'e \<Rightarrow> 's" and inv :: "'s \<Rightarrow> bool" and allowed :: "'e \<Rightarrow> bool"
  assumes inv_step: "inv s \<Longrightarrow> allowed e \<Longrightarrow> inv (step s e)"
begin

lemma inv_run: "inv s \<Longrightarrow> list_all allowed es \<Longrightarrow> inv (run_steps step s es)"
  by (induction es arbitrary: s) (auto intro: inv_step)

lemma inv_prefix:
  "inv s \<Longrightarrow> list_all allowed (fs @ gs) \<Longrightarrow> inv (run_steps step s fs)"
  by (simp add: inv_run)

end

end
