(* ===== verification/Permissions.thy ===== *)
theory Permissions
  imports Qufox_Prelude
begin

text \<open>
  The permission catalogue of \<open>packages/shared-types/src/permissions.ts\<close> (BigInt masks), the
  enforcement masks of \<open>apps/api/src/auth/permissions.ts\<close> (JavaScript numbers), the custom
  role resolver \<open>workspaces/roles/role-permission-resolver.ts\<close>, the system role table of
  \<open>packages/shared-types/src/roles.ts\<close> and the shim from one to the other
  (\<open>channels/permission/bigint-to-enforcement.ts\<close>).
\<close>

section \<open>The catalogue: BigInt masks\<close>

datatype permission_flag =
    VIEW_CHANNEL | SEND_MESSAGES | READ_HISTORY | MANAGE_MESSAGES | ATTACH_FILES
  | ADD_REACTIONS | USE_SLASH_COMMANDS | MENTION_EVERYONE | MANAGE_CHANNEL | MANAGE_WEBHOOKS
  | CREATE_INVITES | USE_EXTERNAL_EMOJI | BYPASS_SLOWMODE | MENTION_CHANNEL
  | KICK_MEMBERS | BAN_MEMBERS | TIMEOUT_MEMBERS | ADMINISTRATOR

fun permission_shift :: "permission_flag \<Rightarrow> nat" where
  "permission_shift VIEW_CHANNEL = 0"
| "permission_shift SEND_MESSAGES = 1"
| "permission_shift READ_HISTORY = 2"
| "permission_shift MANAGE_MESSAGES = 3"
| "permission_shift ATTACH_FILES = 4"
| "permission_shift ADD_REACTIONS = 5"
| "permission_shift USE_SLASH_COMMANDS = 6"
| "permission_shift MENTION_EVERYONE = 7"
| "permission_shift MANAGE_CHANNEL = 8"
| "permission_shift MANAGE_WEBHOOKS = 9"
| "permission_shift CREATE_INVITES = 10"
| "permission_shift USE_EXTERNAL_EMOJI = 11"
| "permission_shift BYPASS_SLOWMODE = 12"
| "permission_shift MENTION_CHANNEL = 13"
| "permission_shift KICK_MEMBERS = 14"
| "permission_shift BAN_MEMBERS = 15"
| "permission_shift TIMEOUT_MEMBERS = 16"
| "permission_shift ADMINISTRATOR = 63"

definition PERMISSIONS :: "permission_flag \<Rightarrow> int" where
  "PERMISSIONS f = push_bit (permission_shift f) 1"

definition CHANNEL_OVERWRITE_FLAGS :: "permission_flag list" where
  "CHANNEL_OVERWRITE_FLAGS =
     [VIEW_CHANNEL, SEND_MESSAGES, READ_HISTORY, MANAGE_MESSAGES, ATTACH_FILES, ADD_REACTIONS,
      USE_SLASH_COMMANDS, MENTION_EVERYONE, MANAGE_CHANNEL, MANAGE_WEBHOOKS, CREATE_INVITES,
      USE_EXTERNAL_EMOJI, BYPASS_SLOWMODE, MENTION_CHANNEL]"

definition permission_flags :: "permission_flag list" where
  "permission_flags =
     CHANNEL_OVERWRITE_FLAGS @ [KICK_MEMBERS, BAN_MEMBERS, TIMEOUT_MEMBERS, ADMINISTRATOR]"

definition combine :: "int list \<Rightarrow> int" where
  "combine flags = foldl (\<lambda>acc flag. acc OR flag) 0 flags"

definition catalog_ALL_PERMISSIONS :: int where
  "catalog_ALL_PERMISSIONS = foldl (\<lambda>acc bit. acc OR bit) 0 (map PERMISSIONS permission_flags)"

definition has_perm :: "int \<Rightarrow> int \<Rightarrow> bool" where
  "has_perm msk flag =
     (if msk AND PERMISSIONS ADMINISTRATOR \<noteq> 0 \<and> flag \<noteq> PERMISSIONS ADMINISTRATOR then True
      else msk AND flag = flag)"

definition hasRaw :: "int \<Rightarrow> int \<Rightarrow> bool" where
  "hasRaw msk flag \<longleftrightarrow> msk AND flag = flag"

record permission_resolution_input =
  base :: int
  roleAllow :: "int option"
  roleDeny :: "int option"
  userAllow :: "int option"
  userDeny :: "int option"

definition or_zero :: "int option \<Rightarrow> int" where
  "or_zero m = (case m of None \<Rightarrow> 0 | Some v \<Rightarrow> v)"

definition resolvePermissions :: "permission_resolution_input \<Rightarrow> int" where
  "resolvePermissions inp =
     (let m = base inp;
          m = m OR or_zero (roleAllow inp);
          m = m AND NOT (or_zero (roleDeny inp));
          m = m OR or_zero (userAllow inp);
          m = m AND NOT (or_zero (userDeny inp))
      in m)"

subsection \<open>Storage and serialisation\<close>

definition serializePermissions :: "int \<Rightarrow> js_string" where
  "serializePermissions msk =
     (if msk < 0 then 45 # dec_digits (nat (- msk)) else dec_digits (nat msk))"

datatype range_error = InvalidBitmaskString | BitmaskOutOfRange | NotNonNegativeInteger

definition is_dec_literal :: "js_string \<Rightarrow> bool" where
  \<comment> \<open>the regular expression \<open>^(0|[1-9]\d*)$\<close>\<close>
  "is_dec_literal s \<longleftrightarrow>
     (case s of [] \<Rightarrow> False
      | c # cs \<Rightarrow> (c = 48 \<and> cs = []) \<or> (is_js_digit c \<and> c \<noteq> 48 \<and> list_all is_js_digit cs))"

definition deserializePermissions :: "js_string \<Rightarrow> range_error + int" where
  "deserializePermissions v =
     (if \<not> is_dec_literal v then Inl InvalidBitmaskString
      else let msk = int (dec_value v)
           in if msk AND NOT catalog_ALL_PERMISSIONS \<noteq> 0 then Inl BitmaskOutOfRange
              else Inr msk)"

definition toStoragePermissions :: "int \<Rightarrow> int" where
  \<comment> \<open>\<open>BigInt.asIntN(64, mask)\<close>\<close>
  "toStoragePermissions msk = signed_take_bit 63 msk"

definition fromStoragePermissions :: "int \<Rightarrow> int" where
  \<comment> \<open>\<open>BigInt.asUintN(64, stored)\<close>\<close>
  "fromStoragePermissions stored = take_bit 64 stored"

text \<open>A JavaScript number: finite doubles are rationals.\<close>

datatype js_number = JNum rat | JInfinite | JNaN

definition number_is_integer :: "js_number \<Rightarrow> bool" where
  "number_is_integer v = (case v of JNum r \<Rightarrow> of_int \<lfloor>r\<rfloor> = r | _ \<Rightarrow> False)"

definition number_to_int :: "js_number \<Rightarrow> int" where
  "number_to_int v = (case v of JNum r \<Rightarrow> \<lfloor>r\<rfloor> | _ \<Rightarrow> 0)"

definition assertValidPermissionMaskNumber :: "js_number \<Rightarrow> range_error + js_number" where
  "assertValidPermissionMaskNumber v =
     (if \<not> number_is_integer v \<or> number_to_int v < 0 then Inl NotNonNegativeInteger
      else if number_to_int v AND NOT catalog_ALL_PERMISSIONS \<noteq> 0 then Inl BitmaskOutOfRange
      else Inr v)"

definition isValidPermissionMaskNumber :: "js_number \<Rightarrow> bool" where
  "isValidPermissionMaskNumber v \<longleftrightarrow>
     number_is_integer v \<and> 0 \<le> number_to_int v
     \<and> number_to_int v AND NOT catalog_ALL_PERMISSIONS = 0"

section \<open>The enforcement masks: JavaScript numbers\<close>

datatype workspace_role = OWNER | ADMIN | MODERATOR | MEMBER | GUEST

abbreviation P_READ :: mask32 where "P_READ \<equiv> 0x0001"
abbreviation P_WRITE_MESSAGE :: mask32 where "P_WRITE_MESSAGE \<equiv> 0x0002"
abbreviation P_DELETE_OWN_MESSAGE :: mask32 where "P_DELETE_OWN_MESSAGE \<equiv> 0x0004"
abbreviation P_DELETE_ANY_MESSAGE :: mask32 where "P_DELETE_ANY_MESSAGE \<equiv> 0x0008"
abbreviation P_MANAGE_MEMBERS :: mask32 where "P_MANAGE_MEMBERS \<equiv> 0x0010"
abbreviation P_MANAGE_CHANNEL :: mask32 where "P_MANAGE_CHANNEL \<equiv> 0x0020"
abbreviation P_UPLOAD_ATTACHMENT :: mask32 where "P_UPLOAD_ATTACHMENT \<equiv> 0x0040"
abbreviation P_BYPASS_SLOWMODE :: mask32 where "P_BYPASS_SLOWMODE \<equiv> 0x0100"

definition enforcement_ALL_PERMISSIONS :: mask32 where
  "enforcement_ALL_PERMISSIONS =
     P_READ OR P_WRITE_MESSAGE OR P_DELETE_OWN_MESSAGE OR P_DELETE_ANY_MESSAGE
     OR P_MANAGE_MEMBERS OR P_MANAGE_CHANNEL OR P_UPLOAD_ATTACHMENT OR P_BYPASS_SLOWMODE"

definition CHANNEL_OVERRIDE_BITS :: int where
  "CHANNEL_OVERRIDE_BITS = uint enforcement_ALL_PERMISSIONS OR 0x0080 OR 0x2000"

definition isWithinChannelOverrideBits :: "int \<Rightarrow> bool" where
  "isWithinChannelOverrideBits msk \<longleftrightarrow> msk AND NOT CHANNEL_OVERRIDE_BITS = 0"

fun ROLE_BASELINE :: "workspace_role \<Rightarrow> mask32" where
  "ROLE_BASELINE OWNER = enforcement_ALL_PERMISSIONS"
| "ROLE_BASELINE ADMIN =
     P_READ OR P_WRITE_MESSAGE OR P_DELETE_OWN_MESSAGE OR P_DELETE_ANY_MESSAGE
     OR P_MANAGE_MEMBERS OR P_MANAGE_CHANNEL OR P_UPLOAD_ATTACHMENT OR P_BYPASS_SLOWMODE"
| "ROLE_BASELINE MODERATOR =
     P_READ OR P_WRITE_MESSAGE OR P_DELETE_OWN_MESSAGE OR P_DELETE_ANY_MESSAGE
     OR P_UPLOAD_ATTACHMENT OR P_BYPASS_SLOWMODE"
| "ROLE_BASELINE MEMBER =
     P_READ OR P_WRITE_MESSAGE OR P_DELETE_OWN_MESSAGE OR P_UPLOAD_ATTACHMENT"
| "ROLE_BASELINE GUEST = P_READ OR P_WRITE_MESSAGE"

text \<open>
  An override's \<open>principalId\<close> is a user id, a custom role's uuid or the literal name of a
  system role; \<open>role_literal\<close> is that name.
\<close>

datatype principal_type = USER | ROLE

record channel_override =
  principalType :: principal_type
  principalId :: id
  allowMask :: int
  denyMask :: int

fun role_literal :: "workspace_role \<Rightarrow> id" where
  "role_literal OWNER = ''OWNER''"
| "role_literal ADMIN = ''ADMIN''"
| "role_literal MODERATOR = ''MODERATOR''"
| "role_literal MEMBER = ''MEMBER''"
| "role_literal GUEST = ''GUEST''"

record effective_input =
  ei_role :: workspace_role
  ei_isPrivate :: bool
  ei_userId :: id
  ei_overrides :: "channel_override list"

definition to_int32 :: "int \<Rightarrow> mask32" where
  \<comment> \<open>the operand conversion of JavaScript's bitwise operators\<close>
  "to_int32 n = word_of_int n"

definition or_masks :: "(channel_override \<Rightarrow> int) \<Rightarrow> channel_override list \<Rightarrow> mask32" where
  "or_masks sel os = foldl (\<lambda>m ov. m OR to_int32 (sel ov)) 0 os"

definition fold_tiers :: "mask32 \<Rightarrow> mask32 \<Rightarrow> mask32 \<Rightarrow> mask32 \<Rightarrow> mask32 \<Rightarrow> mask32" where
  "fold_tiers bas role_allow role_deny user_allow user_deny =
     (let msk = bas;
          msk = msk OR role_allow;
          msk = msk AND NOT role_deny;
          msk = msk OR user_allow;
          msk = msk AND NOT user_deny
      in msk)"

definition matrix_effective :: "effective_input \<Rightarrow> mask32" where
  "matrix_effective inp =
     (let baseline = ROLE_BASELINE (ei_role inp);
          user_overrides = filter (\<lambda>ov. principalType ov = USER \<and> principalId ov = ei_userId inp)
                             (ei_overrides inp);
          role_overrides = filter (\<lambda>ov. principalType ov = ROLE
                                     \<and> principalId ov = role_literal (ei_role inp))
                             (ei_overrides inp);
          role_allow = or_masks allowMask role_overrides;
          role_deny = or_masks denyMask role_overrides;
          user_allow = or_masks allowMask user_overrides;
          user_deny = or_masks denyMask user_overrides
      in if ei_role inp = OWNER
         then fold_tiers (ROLE_BASELINE OWNER) role_allow role_deny user_allow user_deny
         else let has_explicit_read = ((user_allow OR role_allow) AND P_READ = P_READ);
                  channel_ok = (if ei_isPrivate inp then has_explicit_read else True);
                  bas = (if channel_ok then baseline else 0)
              in fold_tiers bas role_allow role_deny user_allow user_deny)"

definition matrix_has :: "mask32 \<Rightarrow> mask32 \<Rightarrow> bool" where
  "matrix_has effective perm \<longleftrightarrow> effective AND perm = perm"

section \<open>Custom roles\<close>

record resolver_role =
  rr_id :: id
  rr_permissions :: int
  rr_position :: int
  rr_isEveryone :: bool

record resolver_overwrite =
  ow_allow :: int
  ow_deny :: int

record resolve_channel_input =
  rc_everyone :: resolver_role
  rc_memberRoles :: "resolver_role list"
  rc_everyoneOverwrite :: "resolver_overwrite option"
  rc_roleOverwrites :: "(id \<times> resolver_overwrite) list option"
  rc_memberOverwrite :: "resolver_overwrite option"

definition applyOverwrite :: "int \<Rightarrow> resolver_overwrite \<Rightarrow> int" where
  "applyOverwrite msk ow = (msk AND NOT (ow_deny ow)) OR ow_allow ow"

definition apply_optional :: "int \<Rightarrow> resolver_overwrite option \<Rightarrow> int" where
  "apply_optional msk ow = (case ow of None \<Rightarrow> msk | Some w \<Rightarrow> applyOverwrite msk w)"

definition role_tier :: "(id \<times> resolver_overwrite) list \<Rightarrow> resolver_role list \<Rightarrow> resolver_overwrite"
where
  "role_tier ows roles =
     foldl (\<lambda>t r. case map_of ows (rr_id r) of
                    None \<Rightarrow> t
                  | Some ow \<Rightarrow> \<lparr>ow_allow = ow_allow t OR ow_allow ow,
                                ow_deny = ow_deny t OR ow_deny ow\<rparr>)
       \<lparr>ow_allow = 0, ow_deny = 0\<rparr> roles"

definition resolveWorkspacePermissions :: "resolver_role \<Rightarrow> resolver_role list \<Rightarrow> int" where
  "resolveWorkspacePermissions everyone roles =
     foldl (\<lambda>m r. m OR rr_permissions r) (rr_permissions everyone) roles"

definition resolveChannelPermissions :: "resolve_channel_input \<Rightarrow> int" where
  "resolveChannelPermissions inp =
     (let bas = foldl (\<lambda>m r. m OR rr_permissions r) (rr_permissions (rc_everyone inp))
                  (rc_memberRoles inp)
      in if has_perm bas (PERMISSIONS ADMINISTRATOR) then bas
         else let msk = apply_optional bas (rc_everyoneOverwrite inp);
                  msk = (case rc_roleOverwrites inp of
                            None \<Rightarrow> msk
                          | Some ows \<Rightarrow>
                              if ows = [] then msk
                              else applyOverwrite msk (role_tier ows (rc_memberRoles inp)))
              in apply_optional msk (rc_memberOverwrite inp))"

fun SYSTEM_ROLE_POSITION :: "workspace_role \<Rightarrow> int" where
  "SYSTEM_ROLE_POSITION OWNER = 500"
| "SYSTEM_ROLE_POSITION ADMIN = 400"
| "SYSTEM_ROLE_POSITION MODERATOR = 300"
| "SYSTEM_ROLE_POSITION MEMBER = 200"
| "SYSTEM_ROLE_POSITION GUEST = 100"

fun SYSTEM_ROLE_HOIST_DEFAULT :: "workspace_role \<Rightarrow> bool" where
  "SYSTEM_ROLE_HOIST_DEFAULT OWNER = True"
| "SYSTEM_ROLE_HOIST_DEFAULT ADMIN = True"
| "SYSTEM_ROLE_HOIST_DEFAULT MODERATOR = False"
| "SYSTEM_ROLE_HOIST_DEFAULT MEMBER = False"
| "SYSTEM_ROLE_HOIST_DEFAULT GUEST = False"

fun SYSTEM_ROLE_PERMISSIONS :: "workspace_role \<Rightarrow> int" where
  "SYSTEM_ROLE_PERMISSIONS OWNER = PERMISSIONS ADMINISTRATOR"
| "SYSTEM_ROLE_PERMISSIONS ADMIN = combine (map PERMISSIONS
     [VIEW_CHANNEL, SEND_MESSAGES, READ_HISTORY, MANAGE_MESSAGES, ATTACH_FILES, ADD_REACTIONS,
      USE_SLASH_COMMANDS, MENTION_EVERYONE, MANAGE_CHANNEL, MANAGE_WEBHOOKS, CREATE_INVITES,
      USE_EXTERNAL_EMOJI, BYPASS_SLOWMODE, KICK_MEMBERS, BAN_MEMBERS, TIMEOUT_MEMBERS])"
| "SYSTEM_ROLE_PERMISSIONS MODERATOR = combine (map PERMISSIONS
     [VIEW_CHANNEL, SEND_MESSAGES, READ_HISTORY, MANAGE_MESSAGES, ATTACH_FILES, ADD_REACTIONS,
      USE_SLASH_COMMANDS, MENTION_EVERYONE, CREATE_INVITES, USE_EXTERNAL_EMOJI,
      BYPASS_SLOWMODE, KICK_MEMBERS, BAN_MEMBERS, TIMEOUT_MEMBERS])"
| "SYSTEM_ROLE_PERMISSIONS MEMBER = combine (map PERMISSIONS
     [VIEW_CHANNEL, SEND_MESSAGES, READ_HISTORY, ATTACH_FILES, ADD_REACTIONS,
      USE_SLASH_COMMANDS, USE_EXTERNAL_EMOJI, CREATE_INVITES])"
| "SYSTEM_ROLE_PERMISSIONS GUEST = combine (map PERMISSIONS
     [VIEW_CHANNEL, SEND_MESSAGES, READ_HISTORY, ADD_REACTIONS])"

definition CATALOG_TO_ENFORCEMENT :: "(int \<times> mask32) list" where
  "CATALOG_TO_ENFORCEMENT =
     [(PERMISSIONS VIEW_CHANNEL, P_READ),
      (PERMISSIONS SEND_MESSAGES, P_WRITE_MESSAGE),
      (PERMISSIONS READ_HISTORY, 0),
      (PERMISSIONS MANAGE_MESSAGES, P_DELETE_ANY_MESSAGE),
      (PERMISSIONS ATTACH_FILES, P_UPLOAD_ATTACHMENT OR P_DELETE_OWN_MESSAGE),
      (PERMISSIONS ADD_REACTIONS, 0),
      (PERMISSIONS USE_SLASH_COMMANDS, 0),
      (PERMISSIONS MENTION_EVERYONE, 0),
      (PERMISSIONS MANAGE_CHANNEL, P_MANAGE_CHANNEL OR P_MANAGE_MEMBERS),
      (PERMISSIONS MANAGE_WEBHOOKS, 0),
      (PERMISSIONS CREATE_INVITES, 0),
      (PERMISSIONS USE_EXTERNAL_EMOJI, 0),
      (PERMISSIONS BYPASS_SLOWMODE, P_BYPASS_SLOWMODE)]"

definition bigintToEnforcementMask :: "int \<Rightarrow> mask32" where
  "bigintToEnforcementMask msk =
     (if msk AND PERMISSIONS ADMINISTRATOR \<noteq> 0 then enforcement_ALL_PERMISSIONS
      else foldl (\<lambda>enforcement (catalog_bit, enforcement_bits).
                    if msk AND catalog_bit \<noteq> 0 then enforcement OR enforcement_bits
                    else enforcement) 0 CATALOG_TO_ENFORCEMENT)"

section \<open>Lemmas: the folds\<close>

definition resolve5 :: "int \<Rightarrow> int \<Rightarrow> int \<Rightarrow> int \<Rightarrow> int \<Rightarrow> int" where
  "resolve5 b ra rd ua ud = resolvePermissions
     \<lparr>base = b, roleAllow = Some ra, roleDeny = Some rd, userAllow = Some ua, userDeny = Some ud\<rparr>"

interpretation enforce: five_stage fold_tiers "bit :: mask32 \<Rightarrow> nat \<Rightarrow> bool"
proof unfold_locales
  fix b ra rd ua ud :: mask32 and n
  show "bit (fold_tiers b ra rd ua ud) n \<longleftrightarrow>
     \<not> bit ud n \<and> (bit ua n \<or> \<not> bit rd n \<and> (bit ra n \<or> bit b n))"
    by (auto simp: fold_tiers_def Let_def bit_and_iff bit_or_iff bit_not_iff
             dest: bit_imp_le_length)
qed

interpretation catalog: five_stage resolve5 "bit :: int \<Rightarrow> nat \<Rightarrow> bool"
  by unfold_locales
    (auto simp: resolve5_def resolvePermissions_def or_zero_def Let_def
       bit_and_iff bit_or_iff bit_not_iff)

lemma bit_or_masks [mask_simps]:
  "bit (or_masks sel os) n \<longleftrightarrow> (\<exists>ov \<in> set os. bit (to_int32 (sel ov)) n)"
  by (simp add: or_masks_def bit_foldl_or)

lemma or_masks_Nil [simp]: "or_masks sel [] = 0"
  by (simp add: or_masks_def)

lemma P_READ_iff: "w AND P_READ = P_READ \<longleftrightarrow> bit w 0" for w :: mask32
  by (simp add: and_one_eq mod_2_eq_odd bit_0)

lemma and_exp_eq: "k < 32 \<Longrightarrow> w AND 2 ^ k = 2 ^ k \<longleftrightarrow> bit w k" for w :: mask32
  by (auto simp: mask_subset_iff bit_exp_iff)

lemma P_WRITE_iff: "w AND P_WRITE_MESSAGE = P_WRITE_MESSAGE \<longleftrightarrow> bit w 1" for w :: mask32
  using and_exp_eq [of 1 w, unfolded power_one_right] by linarith

lemma bit_PERMISSIONS [mask_simps]: "bit (PERMISSIONS f) n \<longleftrightarrow> n = permission_shift f"
  by (auto simp: PERMISSIONS_def bit_exp_iff)

lemma permission_flags_UNIV: "set permission_flags = UNIV"
proof -
  have "f \<in> set permission_flags" for f
    by (cases f) (simp_all add: permission_flags_def CHANNEL_OVERWRITE_FLAGS_def)
  then show ?thesis by blast
qed

lemma bit_combine: "bit (combine fs) n \<longleftrightarrow> (\<exists>f \<in> set fs. bit f n)"
  unfolding combine_def using bit_foldl_or [of "\<lambda>x. x" 0 fs n] by simp

lemma bit_catalog_ALL: "bit catalog_ALL_PERMISSIONS n \<longleftrightarrow> (\<exists>f. n = permission_shift f)"
  unfolding catalog_ALL_PERMISSIONS_def
  using bit_foldl_or [of "\<lambda>x. x" 0 "map PERMISSIONS permission_flags" n]
  by (simp add: permission_flags_UNIV bit_PERMISSIONS)

lemma permission_shift_inj: "permission_shift f = permission_shift g \<Longrightarrow> f = g"
  by (cases f; cases g) simp_all

lemma permission_shift_lt: "permission_shift f < 64"
  by (cases f) simp_all

lemma and_PERMISSIONS_eq: "m AND PERMISSIONS f = PERMISSIONS f \<longleftrightarrow> bit m (permission_shift f)"
  by (auto simp: mask_subset_iff bit_PERMISSIONS)

lemma and_PERMISSIONS_nonzero: "m AND PERMISSIONS f \<noteq> 0 \<longleftrightarrow> bit m (permission_shift f)"
  by (auto simp: bit_eq_iff [where 'a = int] bit_and_iff bit_PERMISSIONS)

lemma PERMISSIONS_inj: "PERMISSIONS f = PERMISSIONS g \<longleftrightarrow> f = g"
  by (metis bit_PERMISSIONS permission_shift_inj)

lemma has_perm_iff:
  "has_perm m (PERMISSIONS f) \<longleftrightarrow>
     bit m (permission_shift ADMINISTRATOR) \<or> bit m (permission_shift f)"
  unfolding has_perm_def and_PERMISSIONS_nonzero and_PERMISSIONS_eq PERMISSIONS_inj by auto

lemma within_mask_iff: "m AND NOT k = 0 \<longleftrightarrow> (\<forall>n. bit m n \<longrightarrow> bit k n)" for m k :: int
  by (auto simp: bit_eq_iff bit_and_iff bit_not_iff)

lemma within_mask_eq: "m AND NOT k = 0 \<Longrightarrow> m AND k = m" for m k :: int
  using within_mask_iff [of m k] by (auto simp: bit_eq_iff [where 'a = int] bit_and_iff)

lemma within_nonneg: "m AND NOT k = 0 \<Longrightarrow> 0 \<le> k \<Longrightarrow> 0 \<le> m" for m k :: int
proof -
  assume "m AND NOT k = 0" "0 \<le> k"
  then have "m = m AND k" by (auto simp: bit_eq_iff bit_and_iff bit_not_iff)
  with \<open>0 \<le> k\<close> show "0 \<le> m" by (metis and_nonnegative_int_iff)
qed

lemma catalog_ALL_nonneg: "0 \<le> catalog_ALL_PERMISSIONS"
  by code_simp

lemma CHANNEL_OVERRIDE_BITS_value: "CHANNEL_OVERRIDE_BITS = 0x21FF"
  by code_simp

section \<open>Lemmas: serialisation\<close>

lemma is_dec_literal_digits: "is_dec_literal (dec_digits n)"
proof (cases "n = 0")
  case True
  then show ?thesis by (simp add: dec_digits.simps [of 0] is_dec_literal_def)
next
  case False
  then have "hd (dec_digits n) \<noteq> 48" by (simp add: dec_digits_no_leading_zero)
  moreover have "list_all is_js_digit (dec_digits n)" by (rule dec_digits_all_digits)
  moreover have "dec_digits n \<noteq> []" by simp
  ultimately show ?thesis by (auto simp: is_dec_literal_def split: list.split)
qed

lemma dec_literal_canonical:
  assumes "is_dec_literal s"
  shows "dec_digits (dec_value s) = s"
proof (cases s)
  case Nil
  with assms show ?thesis by (simp add: is_dec_literal_def)
next
  case (Cons c cs)
  show ?thesis
  proof (cases "c = 48 \<and> cs = []")
    case True
    with Cons show ?thesis by (simp add: dec_value_def dec_digits.simps [of 0])
  next
    case False
    with assms Cons show ?thesis
      by (intro dec_digits_value) (auto simp: is_dec_literal_def)
  qed
qed

lemma deserialize_Inr_iff:
  "deserializePermissions s = Inr m \<longleftrightarrow>
     s = serializePermissions m \<and> 0 \<le> m \<and> m AND NOT catalog_ALL_PERMISSIONS = 0"
proof
  assume "deserializePermissions s = Inr m"
  then have "is_dec_literal s" "m = int (dec_value s)" "m AND NOT catalog_ALL_PERMISSIONS = 0"
    by (auto simp: deserializePermissions_def Let_def split: if_splits)
  then show "s = serializePermissions m \<and> 0 \<le> m \<and> m AND NOT catalog_ALL_PERMISSIONS = 0"
    by (simp add: serializePermissions_def dec_literal_canonical)
next
  assume "s = serializePermissions m \<and> 0 \<le> m \<and> m AND NOT catalog_ALL_PERMISSIONS = 0"
  then show "deserializePermissions s = Inr m"
    by (simp add: deserializePermissions_def serializePermissions_def is_dec_literal_digits Let_def)
qed

lemma storage_roundtrip: "0 \<le> m \<Longrightarrow> m < 2 ^ 64 \<Longrightarrow>
    fromStoragePermissions (toStoragePermissions m) = m"
  by (simp add: fromStoragePermissions_def toStoragePermissions_def take_bit_signed_take_bit
      take_bit_int_eq_self)

lemma storage_range: "- (2 ^ 63) \<le> toStoragePermissions m \<and> toStoragePermissions m < 2 ^ 63"
  using signed_take_bit_int_greater_eq_minus_exp [of 63 m] signed_take_bit_int_less_exp [of 63 m]
  by (simp add: toStoragePermissions_def)

section \<open>Lemmas: custom roles\<close>

lemma bit_applyOverwrite [mask_simps]:
  "bit (applyOverwrite m ow) n \<longleftrightarrow> bit (ow_allow ow) n \<or> bit m n \<and> \<not> bit (ow_deny ow) n"
  by (auto simp: applyOverwrite_def bit_or_iff bit_and_iff bit_not_iff)

definition role_ows :: "(id \<times> resolver_overwrite) list \<Rightarrow> resolver_role list \<Rightarrow> resolver_overwrite set"
where
  "role_ows ows roles = {ow. \<exists>r \<in> set roles. map_of ows (rr_id r) = Some ow}"

lemma role_ows_Cons: "role_ows ows (r # rs) =
    (case map_of ows (rr_id r) of None \<Rightarrow> role_ows ows rs | Some ow \<Rightarrow> insert ow (role_ows ows rs))"
  by (auto simp: role_ows_def split: option.splits)

lemma role_tier_bits:
  "bit (ow_allow (role_tier ows roles)) n \<longleftrightarrow> (\<exists>ow \<in> role_ows ows roles. bit (ow_allow ow) n)"
  "bit (ow_deny (role_tier ows roles)) n \<longleftrightarrow> (\<exists>ow \<in> role_ows ows roles. bit (ow_deny ow) n)"
proof -
  let ?f = "\<lambda>t r. case map_of ows (rr_id r) of None \<Rightarrow> t
      | Some ow \<Rightarrow> \<lparr>ow_allow = ow_allow t OR ow_allow ow, ow_deny = ow_deny t OR ow_deny ow\<rparr>"
  have "(bit (ow_allow (foldl ?f t roles)) n \<longleftrightarrow>
           bit (ow_allow t) n \<or> (\<exists>ow \<in> role_ows ows roles. bit (ow_allow ow) n))
      \<and> (bit (ow_deny (foldl ?f t roles)) n \<longleftrightarrow>
           bit (ow_deny t) n \<or> (\<exists>ow \<in> role_ows ows roles. bit (ow_deny ow) n))" for t
  proof (induction roles arbitrary: t)
    case Nil
    then show ?case by (simp add: role_ows_def)
  next
    case (Cons r rs)
    show ?case
      by (cases "map_of ows (rr_id r)") (simp_all add: Cons.IH role_ows_Cons bit_or_iff)
  qed
  from this [of "\<lparr>ow_allow = 0, ow_deny = 0\<rparr>"]
  show "bit (ow_allow (role_tier ows roles)) n \<longleftrightarrow> (\<exists>ow \<in> role_ows ows roles. bit (ow_allow ow) n)"
    and "bit (ow_deny (role_tier ows roles)) n \<longleftrightarrow> (\<exists>ow \<in> role_ows ows roles. bit (ow_deny ow) n)"
    by (simp_all add: role_tier_def)
qed

lemma role_tier_set_cong:
  assumes "set roles = set roles'"
  shows "role_tier ows roles = role_tier ows roles'"
proof -
  have "role_ows ows roles = role_ows ows roles'" by (simp add: role_ows_def assms)
  then have "ow_allow (role_tier ows roles) = ow_allow (role_tier ows roles')"
    and "ow_deny (role_tier ows roles) = ow_deny (role_tier ows roles')"
    by (simp_all add: bit_eq_iff [where 'a = int] role_tier_bits)
  then show ?thesis by (rule resolver_overwrite.equality) simp
qed

text \<open>
  The specification of the staged resolution: every stage is a pair (allow, deny) of one
  bit, later stages override earlier ones and within a stage allow wins.
\<close>

fun decide_stages :: "(bool \<times> bool) list \<Rightarrow> bool \<Rightarrow> bool" where
  "decide_stages [] b = b"
| "decide_stages ((allow, deny) # stages) b = decide_stages stages (allow \<or> b \<and> \<not> deny)"

definition overwrite_stage :: "resolver_overwrite option \<Rightarrow> nat \<Rightarrow> bool \<times> bool" where
  "overwrite_stage ow n = (case ow of None \<Rightarrow> (False, False)
     | Some w \<Rightarrow> (bit (ow_allow w) n, bit (ow_deny w) n))"

definition role_stage :: "resolve_channel_input \<Rightarrow> nat \<Rightarrow> bool \<times> bool" where
  "role_stage inp n = (case rc_roleOverwrites inp of None \<Rightarrow> (False, False)
     | Some ows \<Rightarrow> (\<exists>ow \<in> role_ows ows (rc_memberRoles inp). bit (ow_allow ow) n,
                    \<exists>ow \<in> role_ows ows (rc_memberRoles inp). bit (ow_deny ow) n))"

definition base_bits :: "resolve_channel_input \<Rightarrow> nat \<Rightarrow> bool" where
  "base_bits inp n \<longleftrightarrow> bit (rr_permissions (rc_everyone inp)) n
     \<or> (\<exists>r \<in> set (rc_memberRoles inp). bit (rr_permissions r) n)"

lemma resolve_channel_decides:
  "bit (resolveChannelPermissions inp) n \<longleftrightarrow>
     (if base_bits inp (permission_shift ADMINISTRATOR) then base_bits inp n
      else decide_stages [overwrite_stage (rc_everyoneOverwrite inp) n, role_stage inp n,
             overwrite_stage (rc_memberOverwrite inp) n] (base_bits inp n))"
proof -
  have opt: "bit (apply_optional m ow) n \<longleftrightarrow>
      fst (overwrite_stage ow n) \<or> bit m n \<and> \<not> snd (overwrite_stage ow n)" for m ow
    by (cases ow) (simp_all add: apply_optional_def overwrite_stage_def bit_applyOverwrite)
  have empty: "role_ows [] roles = {}" for roles by (simp add: role_ows_def)
  show ?thesis
    by (cases "overwrite_stage (rc_everyoneOverwrite inp) n";
        cases "overwrite_stage (rc_memberOverwrite inp) n"; cases "rc_roleOverwrites inp")
      (auto simp: resolveChannelPermissions_def Let_def has_perm_iff base_bits_def opt
         role_stage_def bit_applyOverwrite role_tier_bits bit_foldl_or empty)
qed

lemma resolve_channel_role_order:
  assumes "set roles = set roles'"
  shows "resolveChannelPermissions (inp\<lparr>rc_memberRoles := roles\<rparr>)
       = resolveChannelPermissions (inp\<lparr>rc_memberRoles := roles'\<rparr>)"
  using foldl_or_set_cong [OF assms, of rr_permissions "rr_permissions (rc_everyone inp)"]
    role_tier_set_cong [OF assms]
  by (cases "rc_roleOverwrites inp") (simp_all add: resolveChannelPermissions_def Let_def)

lemma shim_matches_baseline: "bigintToEnforcementMask (SYSTEM_ROLE_PERMISSIONS r) = ROLE_BASELINE r"
  by (induction r) code_simp+

section \<open>Lemmas: the permission matrix\<close>

definition user_ovs :: "effective_input \<Rightarrow> channel_override set" where
  "user_ovs inp = {ov \<in> set (ei_overrides inp). principalType ov = USER \<and> principalId ov = ei_userId inp}"

definition role_ovs :: "effective_input \<Rightarrow> channel_override set" where
  "role_ovs inp = {ov \<in> set (ei_overrides inp).
     principalType ov = ROLE \<and> principalId ov = role_literal (ei_role inp)}"

definition ov_bit :: "(channel_override \<Rightarrow> int) \<Rightarrow> channel_override set \<Rightarrow> nat \<Rightarrow> bool" where
  "ov_bit sel ovs n \<longleftrightarrow> (\<exists>ov \<in> ovs. bit (to_int32 (sel ov)) n)"

lemma matrix_effective_bit:
  "bit (matrix_effective inp) n \<longleftrightarrow>
     \<not> ov_bit denyMask (user_ovs inp) n \<and>
     (ov_bit allowMask (user_ovs inp) n \<or>
      \<not> ov_bit denyMask (role_ovs inp) n \<and>
      (ov_bit allowMask (role_ovs inp) n \<or>
       bit (ROLE_BASELINE (ei_role inp)) n \<and>
       (ei_role inp = OWNER \<or> \<not> ei_isPrivate inp \<or>
        ov_bit allowMask (user_ovs inp) 0 \<or> ov_bit allowMask (role_ovs inp) 0)))"
  by (simp add: matrix_effective_def Let_def enforce.mbit_fold bit_or_masks P_READ_iff bit_or_iff
      ov_bit_def user_ovs_def role_ovs_def conj_assoc Bex_def) blast

lemma override_bits_bounds:
  assumes "isWithinChannelOverrideBits m"
  shows "0 \<le> m \<and> m \<le> 0x21FF"
proof -
  from assms have z: "m AND NOT (0x21FF :: int) = 0"
    by (simp only: isWithinChannelOverrideBits_def CHANNEL_OVERRIDE_BITS_value)
  then have "m AND 0x21FF = m" by (rule within_mask_eq)
  moreover have "0 \<le> m" using within_nonneg [OF z] by simp
  ultimately show ?thesis using AND_upper2 [of "0x21FF" m] by simp
qed

lemma override_bits_lossless:
  "isWithinChannelOverrideBits m \<Longrightarrow> uint (to_int32 m) = m"
  using override_bits_bounds [of m]
  by (simp add: to_int32_def uint_word_of_int_eq take_bit_int_eq_self)

section \<open>Properties\<close>

text \<open>The two permission systems agree on the system roles: for every workspace role, the
  BigInt mask seeded for it, read through the shim that the channel gates use, is exactly the
  enforcement baseline of that role. A member whose only role row is the row of his system role
  has therefore the same base permissions as before custom roles existed.\<close>

lemma shim_agrees_with_baseline:
  "bigintToEnforcementMask (SYSTEM_ROLE_PERMISSIONS r) = ROLE_BASELINE r"
  by (rule shim_matches_baseline)

text \<open>C29: Deserialisation accepts exactly the canonical decimal strings of masks inside the
  catalogue: \<open>deserializePermissions s\<close> returns \<open>m\<close> if and only if \<open>s\<close> is what
  \<open>serializePermissions\<close> prints for \<open>m\<close>, \<open>m\<close> is not negative and \<open>m\<close> has no bit outside
  the known permissions. Every other string is refused.\<close>

theorem deserialize_accepts_exactly:
  "deserializePermissions s = Inr m \<longleftrightarrow>
     s = serializePermissions m \<and> 0 \<le> m \<and> m AND NOT catalog_ALL_PERMISSIONS = 0"
  by (rule deserialize_Inr_iff)

text \<open>Storing a mask in a signed 64 bit column loses nothing: every unsigned 64 bit mask is
  stored as a value of the column's range and reads back unchanged, also with bit 63
  (ADMINISTRATOR), which is stored as a negative number.\<close>

lemma storage_lossless:
  assumes "0 \<le> m" and "m < 2 ^ 64"
  shows "fromStoragePermissions (toStoragePermissions m) = m
    \<and> - (2 ^ 63) \<le> toStoragePermissions m \<and> toStoragePermissions m < 2 ^ 63"
  using storage_roundtrip [OF assms] storage_range [of m] by simp

lemma storage_lossless_example:
  "toStoragePermissions (PERMISSIONS ADMINISTRATOR) = - (2 ^ 63) \<and>
   fromStoragePermissions (toStoragePermissions (PERMISSIONS ADMINISTRATOR)) = PERMISSIONS ADMINISTRATOR"
proof -
  have "0 \<le> PERMISSIONS ADMINISTRATOR" "PERMISSIONS ADMINISTRATOR < 2 ^ 64"
    "toStoragePermissions (PERMISSIONS ADMINISTRATOR) = - (2 ^ 63)" by code_simp+
  with storage_lossless [of "PERMISSIONS ADMINISTRATOR"] show ?thesis by blast
qed

text \<open>C25: The channel resolver for custom roles refines the staged specification bit by bit: an
  ADMINISTRATOR keeps the union of his roles untouched; for everyone else the base bit is
  overridden by the everyone overwrite, then by the union of the overwrites of the held roles,
  then by the member's own overwrite, and inside a stage allow wins over deny.\<close>

theorem channel_resolver_refines_stages:
  "bit (resolveChannelPermissions inp) n \<longleftrightarrow>
     (if base_bits inp (permission_shift ADMINISTRATOR) then base_bits inp n
      else decide_stages [overwrite_stage (rc_everyoneOverwrite inp) n, role_stage inp n,
             overwrite_stage (rc_memberOverwrite inp) n] (base_bits inp n))"
  by (rule resolve_channel_decides)

text \<open>The order in which the held roles are listed, their positions' order included, does not
  matter to the channel resolver: two lists with the same roles give the same mask. (The module
  comment speaks of overwrites applied in ascending position; no result depends on it.)\<close>

lemma channel_resolver_ignores_role_order:
  assumes "set roles = set roles'"
  shows "resolveChannelPermissions (inp\<lparr>rc_memberRoles := roles\<rparr>)
       = resolveChannelPermissions (inp\<lparr>rc_memberRoles := roles'\<rparr>)"
  by (rule resolve_channel_role_order [OF assms])

abbreviation example_role :: "id \<Rightarrow> int \<Rightarrow> int \<Rightarrow> resolver_role" where
  "example_role i m p \<equiv> \<lparr>rr_id = i, rr_permissions = m, rr_position = p, rr_isEveryone = False\<rparr>"

abbreviation example_input :: "resolver_role list \<Rightarrow> resolve_channel_input" where
  "example_input roles \<equiv> \<lparr>rc_everyone = example_role ''e'' 1 0, rc_memberRoles = roles,
     rc_everyoneOverwrite = None,
     rc_roleOverwrites = Some [(''a'', \<lparr>ow_allow = 2, ow_deny = 0\<rparr>), (''b'', \<lparr>ow_allow = 0, ow_deny = 2\<rparr>)],
     rc_memberOverwrite = None\<rparr>"

lemma channel_resolver_ignores_role_order_example:
  "resolveChannelPermissions (example_input [example_role ''a'' 4 1, example_role ''b'' 8 2]) = 15 \<and>
   resolveChannelPermissions (example_input [example_role ''b'' 8 2, example_role ''a'' 4 1]) = 15"
proof -
  have "set [example_role ''a'' 4 1, example_role ''b'' 8 2]
      = set [example_role ''b'' 8 2, example_role ''a'' 4 1]" by auto
  from channel_resolver_ignores_role_order [OF this, of "example_input []"]
  have "resolveChannelPermissions (example_input [example_role ''a'' 4 1, example_role ''b'' 8 2])
      = resolveChannelPermissions (example_input [example_role ''b'' 8 2, example_role ''a'' 4 1])"
    by simp
  moreover have "resolveChannelPermissions
      (example_input [example_role ''a'' 4 1, example_role ''b'' 8 2]) = 15" by code_simp
  ultimately show ?thesis by simp
qed

text \<open>The permission matrix decides every bit by fixed precedence: a user's own deny, then his
  own allow, then the deny of his role, then the allow of his role, then the baseline of his
  role. On a private channel the baseline counts only for the OWNER and for those to whom an
  override grants READ.\<close>

lemma matrix_precedence:
  "bit (matrix_effective inp) n \<longleftrightarrow>
     \<not> ov_bit denyMask (user_ovs inp) n \<and>
     (ov_bit allowMask (user_ovs inp) n \<or>
      \<not> ov_bit denyMask (role_ovs inp) n \<and>
      (ov_bit allowMask (role_ovs inp) n \<or>
       bit (ROLE_BASELINE (ei_role inp)) n \<and>
       (ei_role inp = OWNER \<or> \<not> ei_isPrivate inp \<or>
        ov_bit allowMask (user_ovs inp) 0 \<or> ov_bit allowMask (role_ovs inp) 0)))"
  by (rule matrix_effective_bit)

abbreviation private_reader :: effective_input where
  "private_reader \<equiv> \<lparr>ei_role = MEMBER, ei_isPrivate = True, ei_userId = ''u'',
     ei_overrides = [\<lparr>principalType = ROLE, principalId = ''MEMBER'', allowMask = 1, denyMask = 2\<rparr>]\<rparr>"

lemma matrix_precedence_example:
  "bit (matrix_effective private_reader) 0 \<and> \<not> bit (matrix_effective private_reader) 1"
  by (simp add: matrix_precedence [of private_reader] ov_bit_def user_ovs_def role_ovs_def to_int32_def)

text \<open>The guard on override masks makes the JavaScript bit operations exact: a mask it accepts
  is not negative and at most 0x21FF, so the conversion to 32 bits that every gate applies to
  the stored number changes nothing.\<close>

lemma override_guard_is_lossless:
  assumes "isWithinChannelOverrideBits m"
  shows "0 \<le> m \<and> m \<le> 0x21FF \<and> uint (to_int32 m) = m"
  using override_bits_bounds [OF assms] override_bits_lossless [OF assms] by simp

lemma override_guard_is_lossless_example: "uint (to_int32 0x2001) = 0x2001"
proof -
  have "isWithinChannelOverrideBits 0x2001" by code_simp
  then show ?thesis using override_guard_is_lossless [of "0x2001"] by simp
qed

end
