(* ===== verification/Roles.thy ===== *)
theory Roles
  imports Permissions
begin

text \<open>
  Custom roles of a workspace: the tables Role, MemberRole, WorkspaceMember,
  ChannelPermissionOverride and AuditLog as far as roles use them, and the operations of
  \<open>workspaces/roles/roles.service.ts\<close>, \<open>member-role.service.ts\<close> and
  \<open>system-role-seed.ts\<close>. Ids the database generates are arguments. \<open>details\<close> of an audit
  row keeps the reason of a denied escalation; the other JSON details, colours and time
  stamps carry no logic.
\<close>

section \<open>Tables\<close>

record role_row =
  role_id :: id
  role_ws :: id
  role_name :: id
  role_color :: "id option"
  role_position :: int
  role_permissions :: int
  role_isSystem :: bool
  role_mentionable :: bool
  role_hoist :: bool

record member_row =
  wm_ws :: id
  wm_user :: id
  wm_role :: workspace_role

record member_role_row =
  mr_ws :: id
  mr_user :: id
  mr_role :: id
  mr_assignedBy :: "id option"

record override_row = channel_override +
  ov_channel :: id

record channel_row =
  ch_id :: id
  ch_ws :: "id option"
  ch_isPrivate :: bool
  ch_type :: id
  ch_deleted :: bool

datatype escalation_reason =
    ADMINISTRATOR_GRANT | PERMISSIONS_EXCEED_ACTOR | POSITION_TOO_HIGH
  | TARGET_POSITION_TOO_HIGH | NEW_POSITION_TOO_HIGH

datatype audit_action =
    ROLE_CREATE | ROLE_UPDATE | ROLE_DELETE | PRIVILEGE_ESCALATION_DENIED escalation_reason
  | ADMINISTRATOR_CHANNEL_BYPASS

record audit_row =
  au_ws :: id
  au_actor :: id
  au_action :: audit_action
  au_target :: "id option"

record ws_db =
  db_roles :: "role_row list"
  db_members :: "member_row list"
  db_memberRoles :: "member_role_row list"
  db_overrides :: "override_row list"
  db_channels :: "channel_row list"
  db_audit :: "audit_row list"

datatype failure = Domain error_code | Uncaught_Range range_error | Uncaught_P2002 | Uncaught_P2025 | Uncaught_Aborted

section \<open>System roles\<close>

definition SYSTEM_ROLES :: "workspace_role list" where
  "SYSTEM_ROLES = [OWNER, ADMIN, MODERATOR, MEMBER, GUEST]"

definition system_role_row :: "(workspace_role \<Rightarrow> id) \<Rightarrow> id \<Rightarrow> workspace_role \<Rightarrow> role_row" where
  "system_role_row gen ws r =
     \<lparr>role_id = gen r, role_ws = ws, role_name = role_literal r, role_color = None,
      role_position = SYSTEM_ROLE_POSITION r,
      role_permissions = toStoragePermissions (SYSTEM_ROLE_PERMISSIONS r),
      role_isSystem = True, role_mentionable = False, role_hoist = SYSTEM_ROLE_HOIST_DEFAULT r\<rparr>"

definition role_name_exists :: "role_row list \<Rightarrow> id \<Rightarrow> id \<Rightarrow> bool" where
  "role_name_exists rs ws nm \<longleftrightarrow> (\<exists>r \<in> set rs. role_ws r = ws \<and> role_name r = nm)"

definition insert_role_skip_dup :: "role_row list \<Rightarrow> role_row \<Rightarrow> role_row list" where
  "insert_role_skip_dup rs r = (if role_name_exists rs (role_ws r) (role_name r) then rs else rs @ [r])"

definition seedSystemRoles :: "(workspace_role \<Rightarrow> id) \<Rightarrow> ws_db \<Rightarrow> id \<Rightarrow> ws_db" where
  "seedSystemRoles gen db ws =
     db\<lparr>db_roles := foldl insert_role_skip_dup (db_roles db) (map (system_role_row gen ws) SYSTEM_ROLES)\<rparr>"

definition system_roles_of :: "ws_db \<Rightarrow> id \<Rightarrow> role_row list" where
  "system_roles_of db ws = filter (\<lambda>r. role_ws r = ws \<and> role_isSystem r) (db_roles db)"

definition insert_member_role :: "member_role_row list \<Rightarrow> member_role_row \<Rightarrow> member_role_row list"
where
  \<comment> \<open>\<open>createMany\<close> with \<open>skipDuplicates\<close>: unique on (workspaceId, userId, roleId)\<close>
  "insert_member_role t m =
     (if \<exists>x \<in> set t. mr_ws x = mr_ws m \<and> mr_user x = mr_user m \<and> mr_role x = mr_role m
      then t else t @ [m])"

definition seedMemberSystemRole :: "ws_db \<Rightarrow> id \<Rightarrow> id \<Rightarrow> workspace_role \<Rightarrow> ws_db" where
  "seedMemberSystemRole db ws user r =
     (case find (\<lambda>x. role_ws x = ws \<and> role_name x = role_literal r \<and> role_isSystem x) (db_roles db) of
        None \<Rightarrow> db
      | Some x \<Rightarrow> db\<lparr>db_memberRoles := insert_member_role (db_memberRoles db)
            \<lparr>mr_ws = ws, mr_user = user, mr_role = role_id x, mr_assignedBy = None\<rparr>\<rparr>)"

definition find_system_role :: "role_row list \<Rightarrow> workspace_role \<Rightarrow> role_row option" where
  "find_system_role rs r = find (\<lambda>x. role_name x = role_literal r) rs"

definition replace_system_roles ::
  "id \<Rightarrow> id list \<Rightarrow> id list \<Rightarrow> id \<Rightarrow> member_role_row list \<Rightarrow> member_role_row list" where
  "replace_system_roles ws users sys_ids target t =
     foldl (\<lambda>acc user. insert_member_role acc
              \<lparr>mr_ws = ws, mr_user = user, mr_role = target, mr_assignedBy = None\<rparr>)
       (delete_where (\<lambda>m. mr_ws m = ws \<and> mr_user m \<in> set users \<and> mr_role m \<in> set sys_ids) t)
       users"

definition syncMemberSystemRole ::
  "(workspace_role \<Rightarrow> id) \<Rightarrow> ws_db \<Rightarrow> id \<Rightarrow> id \<Rightarrow> workspace_role \<Rightarrow> ws_db" where
  "syncMemberSystemRole gen db ws user r =
     (let db' = (case find_system_role (system_roles_of db ws) r of
                   Some _ \<Rightarrow> db | None \<Rightarrow> seedSystemRoles gen db ws)
      in case find_system_role (system_roles_of db' ws) r of
           None \<Rightarrow> db'
         | Some x \<Rightarrow> db'\<lparr>db_memberRoles :=
             replace_system_roles ws [user] (map role_id (system_roles_of db' ws)) (role_id x)
               (db_memberRoles db')\<rparr>)"

definition syncMembersSystemRole ::
  "(workspace_role \<Rightarrow> id) \<Rightarrow> ws_db \<Rightarrow> id \<Rightarrow> id list \<Rightarrow> workspace_role \<Rightarrow> ws_db" where
  "syncMembersSystemRole gen db ws users r =
     (if users = [] then db
      else let db' = (case find_system_role (system_roles_of db ws) r of
                        Some _ \<Rightarrow> db | None \<Rightarrow> seedSystemRoles gen db ws)
           in case find_system_role (system_roles_of db' ws) r of
                None \<Rightarrow> db'
              | Some x \<Rightarrow> db'\<lparr>db_memberRoles :=
                  replace_system_roles ws users (map role_id (system_roles_of db' ws)) (role_id x)
                    (db_memberRoles db')\<rparr>)"

section \<open>The actor's context\<close>

record actor_context =
  maxPermissions :: int
  topPosition :: int

definition held_roles :: "ws_db \<Rightarrow> id \<Rightarrow> id \<Rightarrow> role_row list" where
  \<comment> \<open>\<open>memberRole.findMany\<close> joined with \<open>role\<close>\<close>
  "held_roles db ws user =
     List.map_filter (\<lambda>m. if mr_ws m = ws \<and> mr_user m = user
                     then find (\<lambda>r. role_id r = mr_role m) (db_roles db) else None)
       (db_memberRoles db)"

definition computeActorContext :: "ws_db \<Rightarrow> id \<Rightarrow> id \<Rightarrow> actor_context" where
  "computeActorContext db ws user =
     foldl (\<lambda>c r. \<lparr>maxPermissions = maxPermissions c OR fromStoragePermissions (role_permissions r),
                   topPosition = (if role_position r > topPosition c then role_position r
                                  else topPosition c)\<rparr>)
       \<lparr>maxPermissions = 0, topPosition = 0\<rparr> (held_roles db ws user)"

definition isAdministrator :: "actor_context \<Rightarrow> bool" where
  "isAdministrator c \<longleftrightarrow> hasRaw (maxPermissions c) (PERMISSIONS ADMINISTRATOR)"

definition nextCustomPosition :: "ws_db \<Rightarrow> id \<Rightarrow> int" where
  "nextCustomPosition db ws =
     (let ps = map role_position (filter (\<lambda>r. role_ws r = ws \<and> \<not> role_isSystem r) (db_roles db));
          top = (case ps of [] \<Rightarrow> 0 | p # qs \<Rightarrow> foldl max p qs)
      in min (top + 1) 399)"

definition recordEscalationDenied :: "ws_db \<Rightarrow> id \<Rightarrow> id \<Rightarrow> escalation_reason \<Rightarrow> ws_db" where
  "recordEscalationDenied db ws actor reason =
     db\<lparr>db_audit := db_audit db @
          [\<lparr>au_ws = ws, au_actor = actor, au_action = PRIVILEGE_ESCALATION_DENIED reason,
            au_target = None\<rparr>]\<rparr>"

definition assertGrantWithinActor ::
  "ws_db \<Rightarrow> id \<Rightarrow> id \<Rightarrow> int \<Rightarrow> int \<Rightarrow> (error_code + unit) \<times> ws_db" where
  "assertGrantWithinActor db ws actor requested actor_max =
     (if hasRaw actor_max (PERMISSIONS ADMINISTRATOR) then (Inr (), db)
      else if hasRaw requested (PERMISSIONS ADMINISTRATOR)
      then (Inl ROLE_PRIVILEGE_ESCALATION, recordEscalationDenied db ws actor ADMINISTRATOR_GRANT)
      else if requested AND NOT actor_max \<noteq> 0
      then (Inl ROLE_PRIVILEGE_ESCALATION, recordEscalationDenied db ws actor PERMISSIONS_EXCEED_ACTOR)
      else (Inr (), db))"

section \<open>roles.service\<close>

record create_role_request =
  cr_name :: id
  cr_colorHex :: "id option"
  cr_position :: "int option"
  cr_permissions :: "js_string option"
  cr_mentionable :: "bool option"
  cr_hoist :: "bool option"

definition audit_append :: "ws_db \<Rightarrow> id \<Rightarrow> id \<Rightarrow> audit_action \<Rightarrow> id \<Rightarrow> ws_db" where
  "audit_append db ws actor action target =
     db\<lparr>db_audit := db_audit db @
          [\<lparr>au_ws = ws, au_actor = actor, au_action = action, au_target = Some target\<rparr>]\<rparr>"

definition or_false :: "bool option \<Rightarrow> bool" where
  "or_false v = (case v of None \<Rightarrow> False | Some b \<Rightarrow> b)"

definition parse_requested :: "js_string option \<Rightarrow> range_error + int" where
  "parse_requested v = (case v of None \<Rightarrow> Inr 0
     | Some s \<Rightarrow> if s = [] then Inr 0 else deserializePermissions s)"

definition role_create_tx ::
  "id \<Rightarrow> id \<Rightarrow> id \<Rightarrow> create_role_request \<Rightarrow> int \<Rightarrow> ws_db \<Rightarrow> (failure + role_row) \<times> ws_db" where
  "role_create_tx ws actor new_id body requested db =
     (let ctx = computeActorContext db ws actor
      in case assertGrantWithinActor db ws actor requested (maxPermissions ctx) of
           (Inl e, db') \<Rightarrow> (Inl (Domain e), db')
         | (Inr _, db') \<Rightarrow>
             (let position = (case cr_position body of Some p \<Rightarrow> p | None \<Rightarrow> nextCustomPosition db' ws)
              in if position \<ge> topPosition ctx
                 then (Inl (Domain ROLE_POSITION_TOO_HIGH),
                       recordEscalationDenied db' ws actor POSITION_TOO_HIGH)
                 else if role_name_exists (db_roles db') ws (cr_name body)
                      \<or> new_id \<in> role_id ` set (db_roles db')
                 then (Inl Uncaught_P2002, db')
                 else let row = \<lparr>role_id = new_id, role_ws = ws, role_name = cr_name body,
                                 role_color = cr_colorHex body, role_position = position,
                                 role_permissions = toStoragePermissions requested,
                                 role_isSystem = False,
                                 role_mentionable = or_false (cr_mentionable body),
                                 role_hoist = or_false (cr_hoist body)\<rparr>
                      in (Inr row, audit_append (db'\<lparr>db_roles := db_roles db' @ [row]\<rparr>)
                                     ws actor ROLE_CREATE new_id)))"

definition mapUniqueViolation :: "failure \<Rightarrow> failure" where
  "mapUniqueViolation f = (case f of Uncaught_P2002 \<Rightarrow> Domain ROLE_NAME_TAKEN | _ \<Rightarrow> f)"

definition map_failure :: "(failure + 'a) \<times> 's \<Rightarrow> (failure + 'a) \<times> 's" where
  "map_failure r = (case r of (Inl f, s) \<Rightarrow> (Inl (mapUniqueViolation f), s) | (Inr a, s) \<Rightarrow> (Inr a, s))"

definition role_create ::
  "ws_db \<Rightarrow> id \<Rightarrow> id \<Rightarrow> id \<Rightarrow> create_role_request \<Rightarrow> (failure + role_row) \<times> ws_db" where
  "role_create db ws actor new_id body =
     (case parse_requested (cr_permissions body) of
        Inl e \<Rightarrow> (Inl (Uncaught_Range e), db)
      | Inr requested \<Rightarrow> map_failure (transaction (role_create_tx ws actor new_id body requested) db))"

definition findRoleOrThrow :: "ws_db \<Rightarrow> id \<Rightarrow> id \<Rightarrow> failure + role_row" where
  "findRoleOrThrow db ws rid =
     (case find (\<lambda>r. role_id r = rid \<and> role_ws r = ws) (db_roles db) of
        None \<Rightarrow> Inl (Domain ROLE_NOT_FOUND) | Some r \<Rightarrow> Inr r)"

record update_role_request =
  ur_name :: "id option"
  ur_colorHex :: "id option option"
  ur_position :: "int option"
  ur_permissions :: "js_string option"
  ur_mentionable :: "bool option"
  ur_hoist :: "bool option"

text \<open>The assignments to \<open>data\<close>, one per field the request carries.\<close>

definition role_patch :: "update_role_request \<Rightarrow> int option \<Rightarrow> int option \<Rightarrow> role_row \<Rightarrow> role_row" where
  "role_patch body perms pos r =
     r\<lparr>role_name := (case ur_name body of None \<Rightarrow> role_name r | Some n \<Rightarrow> n),
       role_color := (case ur_colorHex body of None \<Rightarrow> role_color r | Some c \<Rightarrow> c),
       role_mentionable := (case ur_mentionable body of None \<Rightarrow> role_mentionable r | Some b \<Rightarrow> b),
       role_hoist := (case ur_hoist body of None \<Rightarrow> role_hoist r | Some b \<Rightarrow> b),
       role_permissions := (case perms of None \<Rightarrow> role_permissions r | Some m \<Rightarrow> toStoragePermissions m),
       role_position := (case pos of None \<Rightarrow> role_position r | Some p \<Rightarrow> p)\<rparr>"

definition role_update_row ::
  "id \<Rightarrow> id \<Rightarrow> id \<Rightarrow> (role_row \<Rightarrow> role_row) \<Rightarrow> ws_db \<Rightarrow> (failure + unit) \<times> ws_db" where
  "role_update_row ws actor rid patch db =
     (let roles' = update_where (\<lambda>r. role_id r = rid) patch (db_roles db)
      in if \<not> distinct (map role_name (filter (\<lambda>r. role_ws r = ws) roles'))
         then (Inl Uncaught_P2002, db)
         else (Inr (), audit_append (db\<lparr>db_roles := roles'\<rparr>) ws actor ROLE_UPDATE rid))"

definition role_update ::
  "ws_db \<Rightarrow> id \<Rightarrow> id \<Rightarrow> id \<Rightarrow> update_role_request \<Rightarrow> (failure + unit) \<times> ws_db" where
  "role_update db ws actor rid body =
     (case findRoleOrThrow db ws rid of
        Inl e \<Rightarrow> (Inl e, db)
      | Inr role \<Rightarrow>
         (let ctx = computeActorContext db ws actor; actor_top = topPosition ctx in
          if role_position role \<ge> actor_top
          then (Inl (Domain ROLE_POSITION_TOO_HIGH),
                recordEscalationDenied db ws actor TARGET_POSITION_TOO_HIGH)
          else if role_isSystem role \<and> (ur_name body \<noteq> None \<or> ur_position body \<noteq> None)
          then (Inl (Domain ROLE_SYSTEM_IMMUTABLE), db)
          else
           (case (case ur_permissions body of None \<Rightarrow> (Inr None, db)
                  | Some v \<Rightarrow>
                     (case deserializePermissions v of
                        Inl e \<Rightarrow> (Inl (Uncaught_Range e), db)
                      | Inr requested \<Rightarrow>
                         (case assertGrantWithinActor db ws actor requested (maxPermissions ctx) of
                            (Inl e, db') \<Rightarrow> (Inl (Domain e), db')
                          | (Inr _, db') \<Rightarrow>
                              if role_isSystem role then (Inl (Domain ROLE_SYSTEM_IMMUTABLE), db')
                              else (Inr (Some requested), db')))) of
              (Inl e, db') \<Rightarrow> (Inl e, db')
            | (Inr perms, db') \<Rightarrow>
               (case ur_position body of
                  Some target \<Rightarrow>
                    if target \<noteq> role_position role
                    then if target \<ge> actor_top
                         then (Inl (Domain ROLE_POSITION_TOO_HIGH),
                               recordEscalationDenied db' ws actor NEW_POSITION_TOO_HIGH)
                         else transaction (role_update_row ws actor rid
                                (role_patch body perms (Some target))) db'
                    else map_failure (transaction (role_update_row ws actor rid
                                (role_patch body perms None)) db')
                | None \<Rightarrow> map_failure (transaction (role_update_row ws actor rid
                                (role_patch body perms None)) db')))))"

text \<open>
  Deleting a role removes its channel overrides and, by the foreign key's cascade, its
  MemberRole rows. The result is the cache invalidation job: the members that held the
  role and the channels of the workspace.
\<close>

definition role_remove :: "ws_db \<Rightarrow> id \<Rightarrow> id \<Rightarrow> id \<Rightarrow> (failure + id list \<times> id list) \<times> ws_db" where
  "role_remove db ws actor rid =
     (case findRoleOrThrow db ws rid of
        Inl e \<Rightarrow> (Inl e, db)
      | Inr role \<Rightarrow>
         if role_isSystem role then (Inl (Domain ROLE_SYSTEM_IMMUTABLE), db)
         else if role_position role \<ge> topPosition (computeActorContext db ws actor)
         then (Inl (Domain ROLE_POSITION_TOO_HIGH),
               recordEscalationDenied db ws actor TARGET_POSITION_TOO_HIGH)
         else (let users = map mr_user (filter (\<lambda>m. mr_role m = rid) (db_memberRoles db));
                   channels = map ch_id (filter (\<lambda>c. ch_ws c = Some ws \<and> \<not> ch_deleted c)
                                (db_channels db));
                   ws_channels = map ch_id (filter (\<lambda>c. ch_ws c = Some ws) (db_channels db));
                   db1 = db\<lparr>db_overrides := delete_where (\<lambda>ov. principalType ov = ROLE
                              \<and> principalId ov = rid \<and> ov_channel ov \<in> set ws_channels)
                              (db_overrides db)\<rparr>;
                   db2 = db1\<lparr>db_roles := delete_where (\<lambda>r. role_id r = rid) (db_roles db1),
                             db_memberRoles := delete_where (\<lambda>m. mr_role m = rid) (db_memberRoles db1)\<rparr>
               in (Inr (users, channels), audit_append db2 ws actor ROLE_DELETE rid)))"

section \<open>member-role.service\<close>

definition invalidateMembersPermsCache :: "ws_db \<Rightarrow> id \<Rightarrow> id list \<Rightarrow> (id \<times> id) list" where
  \<comment> \<open>the (channel, user) keys of the DEL pipeline\<close>
  "invalidateMembersPermsCache db ws users =
     (if users = [] then []
      else concat (map (\<lambda>c. map (\<lambda>u. (ch_id c, u)) users)
             (filter (\<lambda>c. ch_ws c = Some ws \<and> \<not> ch_deleted c) (db_channels db))))"

definition listForMember :: "ws_db \<Rightarrow> id \<Rightarrow> id \<Rightarrow> id list" where
  "listForMember db ws user =
     map mr_role (filter (\<lambda>m. mr_ws m = ws \<and> mr_user m = user) (db_memberRoles db))"

definition role_assign :: "ws_db \<Rightarrow> id \<Rightarrow> id \<Rightarrow> id \<Rightarrow> id \<Rightarrow> (failure + (id \<times> id) list) \<times> ws_db" where
  "role_assign db ws actor target rid =
     (case findRoleOrThrow db ws rid of
        Inl e \<Rightarrow> (Inl e, db)
      | Inr role \<Rightarrow>
         if \<not> (\<exists>m \<in> set (db_members db). wm_ws m = ws \<and> wm_user m = target)
         then (Inl (Domain WORKSPACE_TARGET_NOT_MEMBER), db)
         else
          (let ctx = computeActorContext db ws actor;
               role_perms = fromStoragePermissions (role_permissions role)
           in if \<not> isAdministrator ctx \<and> role_position role \<ge> topPosition ctx
              then (Inl (Domain ROLE_POSITION_TOO_HIGH), db)
              else if \<not> isAdministrator ctx \<and> hasRaw role_perms (PERMISSIONS ADMINISTRATOR)
              then (Inl (Domain ROLE_PRIVILEGE_ESCALATION), db)
              else if \<not> isAdministrator ctx \<and> role_perms AND NOT (maxPermissions ctx) \<noteq> 0
              then (Inl (Domain ROLE_PRIVILEGE_ESCALATION), db)
              else (Inr (invalidateMembersPermsCache db ws [target]),
                    db\<lparr>db_memberRoles := insert_member_role (db_memberRoles db)
                      \<lparr>mr_ws = ws, mr_user = target, mr_role = rid,
                       mr_assignedBy = Some actor\<rparr>\<rparr>)))"

definition role_revoke :: "ws_db \<Rightarrow> id \<Rightarrow> id \<Rightarrow> id \<Rightarrow> id \<Rightarrow> (failure + (id \<times> id) list) \<times> ws_db" where
  "role_revoke db ws actor target rid =
     (case findRoleOrThrow db ws rid of
        Inl e \<Rightarrow> (Inl e, db)
      | Inr role \<Rightarrow>
         (let ctx = computeActorContext db ws actor
          in if \<not> isAdministrator ctx \<and> role_position role \<ge> topPosition ctx
             then (Inl (Domain ROLE_POSITION_TOO_HIGH), db)
             else (Inr (invalidateMembersPermsCache db ws [target]),
                   db\<lparr>db_memberRoles := delete_where
                      (\<lambda>m. mr_ws m = ws \<and> mr_user m = target \<and> mr_role m = rid)
                      (db_memberRoles db)\<rparr>)))"

text \<open>The operations an actor can ask for, as events, and the state they leave.\<close>

datatype role_op =
    RoleCreate id id create_role_request  \<comment> \<open>actor, id of the new row\<close>
  | RoleUpdate id id update_role_request
  | RoleRemove id id
  | RoleAssign id id id  \<comment> \<open>actor, target user, role\<close>
  | RoleRevoke id id id

fun op_actor :: "role_op \<Rightarrow> id" where
  "op_actor (RoleCreate a _ _) = a"
| "op_actor (RoleUpdate a _ _) = a"
| "op_actor (RoleRemove a _) = a"
| "op_actor (RoleAssign a _ _) = a"
| "op_actor (RoleRevoke a _ _) = a"

fun role_step :: "id \<Rightarrow> ws_db \<Rightarrow> role_op \<Rightarrow> ws_db" where
  "role_step ws db (RoleCreate a new_id body) = snd (role_create db ws a new_id body)"
| "role_step ws db (RoleUpdate a rid body) = snd (role_update db ws a rid body)"
| "role_step ws db (RoleRemove a rid) = snd (role_remove db ws a rid)"
| "role_step ws db (RoleAssign a target rid) = snd (role_assign db ws a target rid)"
| "role_step ws db (RoleRevoke a target rid) = snd (role_revoke db ws a target rid)"

section \<open>Lemmas: the actor's context\<close>

definition fk_ok :: "ws_db \<Rightarrow> bool" where
  \<comment> \<open>primary key of Role, foreign key of MemberRole\<close>
  "fk_ok db \<longleftrightarrow> distinct (map role_id (db_roles db))
     \<and> (\<forall>m \<in> set (db_memberRoles db). mr_role m \<in> role_id ` set (db_roles db))"

definition role_bits :: "role_row \<Rightarrow> nat \<Rightarrow> bool" where
  "role_bits r n \<longleftrightarrow> bit (fromStoragePermissions (role_permissions r)) n"

lemma held_roles_iff:
  assumes "fk_ok db"
  shows "r \<in> set (held_roles db ws u) \<longleftrightarrow> r \<in> set (db_roles db) \<and>
    (\<exists>m \<in> set (db_memberRoles db). mr_ws m = ws \<and> mr_user m = u \<and> mr_role m = role_id r)"
proof -
  have "r \<in> set (held_roles db ws u) \<longleftrightarrow>
      (\<exists>m \<in> set (db_memberRoles db). mr_ws m = ws \<and> mr_user m = u
         \<and> find (\<lambda>x. role_id x = mr_role m) (db_roles db) = Some r)"
    by (auto simp: held_roles_def List.map_filter_def split: if_splits) (force simp: image_iff)
  moreover have "find (\<lambda>x. role_id x = k) (db_roles db) = Some r \<longleftrightarrow>
      r \<in> set (db_roles db) \<and> role_id r = k" for k
    using assms find_unique_key [of role_id "db_roles db" r]
    by (auto simp: fk_ok_def dest: find_Some_in)
  ultimately show ?thesis by auto
qed

lemma context_fold:
  fixes rs c
  defines "c' \<equiv> foldl (\<lambda>c r. \<lparr>maxPermissions = maxPermissions c OR fromStoragePermissions (role_permissions r),
                   topPosition = (if role_position r > topPosition c then role_position r
                                  else topPosition c)\<rparr>) c rs"
  shows "(bit (maxPermissions c') n \<longleftrightarrow> bit (maxPermissions c) n \<or> (\<exists>r \<in> set rs. role_bits r n))
       \<and> (topPosition c' \<le> p \<longleftrightarrow> topPosition c \<le> p \<and> (\<forall>r \<in> set rs. role_position r \<le> p))"
  unfolding c'_def
  by (induction rs arbitrary: c) (auto simp: role_bits_def bit_or_iff)

lemma context_bit: "bit (maxPermissions (computeActorContext db ws u)) n \<longleftrightarrow>
    (\<exists>r \<in> set (held_roles db ws u). role_bits r n)"
  using context_fold [of \<open>\<lparr>maxPermissions = 0, topPosition = 0\<rparr>\<close> "held_roles db ws u" n]
  by (simp add: computeActorContext_def)

lemma context_top: "topPosition (computeActorContext db ws u) \<le> p \<longleftrightarrow>
    0 \<le> p \<and> (\<forall>r \<in> set (held_roles db ws u). role_position r \<le> p)"
  using context_fold [of \<open>\<lparr>maxPermissions = 0, topPosition = 0\<rparr>\<close> "held_roles db ws u" _ p]
  by (simp add: computeActorContext_def)

lemma context_nonneg: "0 \<le> topPosition (computeActorContext db ws u)"
  using context_top [of db ws u "topPosition (computeActorContext db ws u)"] by simp

lemma isAdministrator_bit:
  "isAdministrator c \<longleftrightarrow> bit (maxPermissions c) (permission_shift ADMINISTRATOR)"
  by (simp add: isAdministrator_def hasRaw_def and_PERMISSIONS_eq)

lemma storage_of_request:
  assumes "deserializePermissions s = Inr m"
  shows "fromStoragePermissions (toStoragePermissions m) = m"
proof -
  from assms have "0 \<le> m" "m AND NOT catalog_ALL_PERMISSIONS = 0"
    by (simp_all add: deserialize_Inr_iff)
  moreover from this(2) have "m AND catalog_ALL_PERMISSIONS = m" by (rule within_mask_eq)
  moreover have "catalog_ALL_PERMISSIONS < 2 ^ 64" by code_simp
  ultimately have "m < 2 ^ 64"
    using AND_upper2 [OF catalog_ALL_nonneg, of m] by linarith
  with \<open>0 \<le> m\<close> show ?thesis by (rule storage_roundtrip)
qed

lemma storage_zero: "fromStoragePermissions (toStoragePermissions 0) = 0"
  by (simp add: fromStoragePermissions_def toStoragePermissions_def)

lemma storage_of_parsed:
  "parse_requested v = Inr m \<Longrightarrow> fromStoragePermissions (toStoragePermissions m) = m"
  by (auto simp: parse_requested_def storage_zero split: option.splits if_splits
      intro: storage_of_request)

lemma recordEscalationDenied_keeps [simp]:
  "db_roles (recordEscalationDenied db ws a r) = db_roles db"
  "db_memberRoles (recordEscalationDenied db ws a r) = db_memberRoles db"
  "db_members (recordEscalationDenied db ws a r) = db_members db"
  by (simp_all add: recordEscalationDenied_def)

lemma audit_append_keeps [simp]:
  "db_roles (audit_append db ws a act t) = db_roles db"
  "db_memberRoles (audit_append db ws a act t) = db_memberRoles db"
  "db_members (audit_append db ws a act t) = db_members db"
  by (simp_all add: audit_append_def)

definition grant_ok :: "actor_context \<Rightarrow> int \<Rightarrow> bool" where
  "grant_ok ctx m \<longleftrightarrow> isAdministrator ctx \<or> (\<forall>n. bit m n \<longrightarrow> bit (maxPermissions ctx) n)"

lemma assertGrant_keeps:
  "db_roles (snd (assertGrantWithinActor db ws a m k)) = db_roles db
   \<and> db_memberRoles (snd (assertGrantWithinActor db ws a m k)) = db_memberRoles db"
  by (simp add: assertGrantWithinActor_def)

lemma assertGrant_Inr:
  "assertGrantWithinActor db ws a m (maxPermissions ctx) = (Inr x, db') \<Longrightarrow>
     db' = db \<and> grant_ok ctx m"
  by (auto simp: assertGrantWithinActor_def grant_ok_def isAdministrator_def within_mask_iff
      split: if_splits)

section \<open>Lemmas: what each operation can change\<close>

definition same_roles :: "ws_db \<Rightarrow> ws_db \<Rightarrow> bool" where
  "same_roles db db' \<longleftrightarrow> db_roles db' = db_roles db \<and> db_memberRoles db' = db_memberRoles db"

lemma role_create_cases:
  assumes "role_create db ws actor new_id body = (res, db')"
  obtains "same_roles db db'" "\<exists>e. res = Inl e"
  | row requested where "res = Inr row" "parse_requested (cr_permissions body) = Inr requested"
      "db_roles db' = db_roles db @ [row]" "db_memberRoles db' = db_memberRoles db"
      "role_id row = new_id" "new_id \<notin> role_id ` set (db_roles db)" "role_ws row = ws"
      "role_permissions row = toStoragePermissions requested"
      "grant_ok (computeActorContext db ws actor) requested"
      "role_position row < topPosition (computeActorContext db ws actor)"
      "\<not> role_isSystem row"
proof (cases "parse_requested (cr_permissions body)")
  case (Inl e)
  with assms that(1) show thesis by (auto simp: role_create_def same_roles_def)
next
  case (Inr requested)
  obtain r s where tx: "transaction (role_create_tx ws actor new_id body requested) db = (r, s)"
    by fastforce
  show thesis
  proof (cases r)
    case (Inl e)
    with tx have "s = db" by (auto dest: transaction_Inl)
    with assms Inr tx Inl that(1) show thesis
      by (auto simp: role_create_def map_failure_def same_roles_def)
  next
    case (Inr row)
    with tx have "role_create_tx ws actor new_id body requested db = (Inr row, s)"
      by (simp add: transaction_Inr)
    moreover from assms \<open>parse_requested _ = _\<close> tx Inr have "res = Inr row" "db' = s"
      by (auto simp: role_create_def map_failure_def)
    ultimately show thesis
      using \<open>parse_requested _ = _\<close> that(2)
      by (auto simp: role_create_tx_def Let_def dest!: assertGrant_Inr
          split: prod.splits sum.splits if_splits)
  qed
qed

lemma role_update_row_cases:
  assumes "transaction (role_update_row ws actor rid patch) db = (res, db')"
  shows "(same_roles db db' \<and> (\<exists>e. res = Inl e))
    \<or> (res = Inr () \<and> db_roles db' = update_where (\<lambda>r. role_id r = rid) patch (db_roles db)
        \<and> db_memberRoles db' = db_memberRoles db)"
  using assms
  by (auto simp: transaction_def role_update_row_def Let_def same_roles_def split: if_splits)

lemma map_failure_Inr_snd: "snd (map_failure r) = snd r"
  by (auto simp: map_failure_def split: prod.splits sum.splits)

lemma role_update_cases:
  fixes db ws actor rid body
  defines "ctx \<equiv> computeActorContext db ws actor" and "db' \<equiv> snd (role_update db ws actor rid body)"
  shows "same_roles db db' \<or>
    (\<exists>perms pos. db_roles db' =
         update_where (\<lambda>r. role_id r = rid) (role_patch body perms pos) (db_roles db)
       \<and> db_memberRoles db' = db_memberRoles db
       \<and> (\<forall>m. perms = Some m \<longrightarrow> grant_ok ctx m
             \<and> fromStoragePermissions (toStoragePermissions m) = m)
       \<and> (\<forall>p. pos = Some p \<longrightarrow> p < topPosition ctx))"
proof (cases "findRoleOrThrow db ws rid")
  case (Inl e)
  then show ?thesis by (simp add: db'_def role_update_def same_roles_def)
next
  case (Inr role)
  define parsed where "parsed = (case ur_permissions body of None \<Rightarrow> (Inr None, db)
      | Some v \<Rightarrow> (case deserializePermissions v of
           Inl e \<Rightarrow> (Inl (Uncaught_Range e), db)
         | Inr requested \<Rightarrow>
             (case assertGrantWithinActor db ws actor requested (maxPermissions ctx) of
                (Inl e, db') \<Rightarrow> (Inl (Domain e), db')
              | (Inr _, db') \<Rightarrow> if role_isSystem role then (Inl (Domain ROLE_SYSTEM_IMMUTABLE), db')
                               else (Inr (Some requested), db'))))"
  have keep: "same_roles db (snd parsed)"
    using assertGrant_keeps [of db ws actor _ "maxPermissions ctx"]
    by (auto simp: parsed_def same_roles_def split: option.splits sum.splits prod.splits) (metis snd_conv)+
  have ok: "perms = None \<or> (\<exists>m. perms = Some m \<and> grant_ok ctx m
      \<and> fromStoragePermissions (toStoragePermissions m) = m)" if "parsed = (Inr perms, d)" for perms d
    using that
    by (auto simp: parsed_def dest: assertGrant_Inr storage_of_request
        split: option.splits sum.splits prod.splits if_splits)
  have upd: "same_roles d d' \<or> db_roles d' = update_where (\<lambda>r. role_id r = rid) patch (db_roles d)
      \<and> db_memberRoles d' = db_memberRoles d"
    if "d' = snd (transaction (role_update_row ws actor rid patch) d)" for d d' patch
    using role_update_row_cases [of ws actor rid patch d "fst (transaction (role_update_row ws actor rid patch) d)" d']
      that by auto
  show ?thesis
  proof (cases "role_position role \<ge> topPosition ctx
      \<or> role_isSystem role \<and> (ur_name body \<noteq> None \<or> ur_position body \<noteq> None)")
    case True
    then show ?thesis
      using Inr by (auto simp: db'_def role_update_def ctx_def [symmetric] Let_def same_roles_def)
  next
    case guard: False
    show ?thesis
    proof (cases "fst parsed")
      case (Inl e)
      with guard Inr keep show ?thesis
        by (cases parsed) (auto simp: db'_def role_update_def ctx_def [symmetric] Let_def
            parsed_def [symmetric])
    next
      case parsed_ok: (Inr perms)
      then obtain d where d: "parsed = (Inr perms, d)" by (cases parsed) auto
      define new_pos where "new_pos = (case ur_position body of
          Some t \<Rightarrow> if t \<noteq> role_position role then Some t else None | None \<Rightarrow> None)"
      have "same_roles d db' \<or> db' = snd (transaction (role_update_row ws actor rid
              (role_patch body perms new_pos)) d) \<and> (\<forall>p. new_pos = Some p \<longrightarrow> p < topPosition ctx)"
        using guard Inr d
        by (cases "ur_position body")
          (auto simp: db'_def role_update_def ctx_def [symmetric] Let_def parsed_def [symmetric]
             new_pos_def map_failure_Inr_snd same_roles_def)
      then show ?thesis
        using upd [of db' "role_patch body perms new_pos" d] keep d ok [OF d]
        by (auto simp: same_roles_def)
    qed
  qed
qed

lemma role_remove_cases:
  fixes db ws actor rid
  defines "db' \<equiv> snd (role_remove db ws actor rid)"
  shows "same_roles db db' \<or>
    (db_roles db' = delete_where (\<lambda>r. role_id r = rid) (db_roles db)
     \<and> db_memberRoles db' = delete_where (\<lambda>m. mr_role m = rid) (db_memberRoles db))"
  by (auto simp: db'_def role_remove_def same_roles_def Let_def split: sum.splits)

lemma role_assign_cases:
  fixes db ws actor target rid
  defines "db' \<equiv> snd (role_assign db ws actor target rid)"
    and "ctx \<equiv> computeActorContext db ws actor"
  shows "same_roles db db' \<or>
    (\<exists>role. role \<in> set (db_roles db) \<and> role_id role = rid \<and> db_roles db' = db_roles db
       \<and> set (db_memberRoles db') \<subseteq> insert \<lparr>mr_ws = ws, mr_user = target, mr_role = rid,
             mr_assignedBy = Some actor\<rparr> (set (db_memberRoles db))
       \<and> (isAdministrator ctx \<or> role_position role < topPosition ctx \<and> (\<forall>n. role_bits role n \<longrightarrow> bit (maxPermissions ctx) n)))"
  by (auto simp: db'_def ctx_def role_assign_def same_roles_def Let_def findRoleOrThrow_def
      insert_member_role_def role_bits_def within_mask_iff
      dest!: find_Some_in split: sum.splits option.splits if_splits)

lemma role_revoke_cases:
  fixes db ws actor target rid
  defines "db' \<equiv> snd (role_revoke db ws actor target rid)"
  shows "db_roles db' = db_roles db \<and> set (db_memberRoles db') \<subseteq> set (db_memberRoles db)"
  by (auto simp: db'_def role_revoke_def Let_def set_delete_where split: sum.splits)

section \<open>No privilege escalation\<close>

text \<open>
  A set \<open>S\<close> of users whose roles carry only bits of \<open>U\<close> (never ADMINISTRATOR) at positions up
  to \<open>P\<close>: no sequence of role operations they issue lifts any of them above \<open>U\<close> and \<open>P\<close>.
\<close>

definition capped_role :: "(nat \<Rightarrow> bool) \<Rightarrow> int \<Rightarrow> role_row \<Rightarrow> bool" where
  "capped_role U P r \<longleftrightarrow> (\<forall>n. role_bits r n \<longrightarrow> U n) \<and> role_position r \<le> P"

definition capped :: "id \<Rightarrow> id set \<Rightarrow> (nat \<Rightarrow> bool) \<Rightarrow> int \<Rightarrow> ws_db \<Rightarrow> bool" where
  "capped ws S U P db \<longleftrightarrow> fk_ok db \<and> \<not> U (permission_shift ADMINISTRATOR) \<and> 0 \<le> P
     \<and> (\<forall>u \<in> S. \<forall>r \<in> set (held_roles db ws u). capped_role U P r)"

lemma capped_context:
  assumes "capped ws S U P db" and "a \<in> S"
  shows "bit (maxPermissions (computeActorContext db ws a)) n \<Longrightarrow> U n"
    and "topPosition (computeActorContext db ws a) \<le> P"
    and "\<not> isAdministrator (computeActorContext db ws a)"
  using assms by (auto simp: capped_def capped_role_def context_bit context_top isAdministrator_bit)

lemma capped_same:
  assumes "capped ws S U P db" and "same_roles db db'"
  shows "capped ws S U P db'"
proof -
  from assms(2) have "held_roles db' ws u = held_roles db ws u" for u
    by (simp add: same_roles_def held_roles_def cong: if_cong)
  with assms show ?thesis by (simp add: capped_def same_roles_def fk_ok_def)
qed

lemma cappedI:
  assumes "capped ws S U P db" and "fk_ok db'"
    and "\<And>u r. u \<in> S \<Longrightarrow> r \<in> set (held_roles db' ws u) \<Longrightarrow> capped_role U P r"
  shows "capped ws S U P db'"
  using assms by (auto simp: capped_def)

lemma capped_held_subset:
  assumes "capped ws S U P db" and "fk_ok db'"
    and "\<And>u. set (held_roles db' ws u) \<subseteq> set (held_roles db ws u)"
  shows "capped ws S U P db'"
  using assms by (intro cappedI [OF assms(1,2)]) (force simp: capped_def)

lemma held_rolesE:
  assumes "fk_ok db" and "r \<in> set (held_roles db ws u)"
  obtains m where "r \<in> set (db_roles db)" "m \<in> set (db_memberRoles db)" "mr_ws m = ws"
    "mr_user m = u" "mr_role m = role_id r"
  using assms by (auto simp: held_roles_iff)

lemma held_rolesI:
  "fk_ok db \<Longrightarrow> r \<in> set (db_roles db) \<Longrightarrow> m \<in> set (db_memberRoles db) \<Longrightarrow> mr_ws m = ws \<Longrightarrow>
   mr_user m = u \<Longrightarrow> mr_role m = role_id r \<Longrightarrow> r \<in> set (held_roles db ws u)"
  by (auto simp: held_roles_iff)

lemma capped_create:
  assumes cap: "capped ws S U P db" and "a \<in> S"
  shows "capped ws S U P (snd (role_create db ws a new_id body))"
proof -
  obtain res db' where eq: "role_create db ws a new_id body = (res, db')" by fastforce
  then show ?thesis
  proof (rule role_create_cases)
    assume "same_roles db db'"
    with cap eq show ?thesis by (simp add: capped_same)
  next
    fix row
    assume new: "db_roles db' = db_roles db @ [row]" "db_memberRoles db' = db_memberRoles db"
      and fresh: "role_id row = new_id" "new_id \<notin> role_id ` set (db_roles db)"
    from cap have fk: "fk_ok db" by (simp add: capped_def)
    with new fresh have fk': "fk_ok db'" by (auto simp: fk_ok_def)
    have "capped ws S U P db'"
    proof (rule capped_held_subset [OF cap fk'], rule subsetI)
      fix u r assume "r \<in> set (held_roles db' ws u)"
      then obtain m where m: "r \<in> set (db_roles db')" "m \<in> set (db_memberRoles db)"
          "mr_ws m = ws" "mr_user m = u" "mr_role m = role_id r"
        using new by (auto elim: held_rolesE [OF fk'])
      with fk have "role_id r \<in> role_id ` set (db_roles db)" by (metis fk_ok_def)
      with m new fresh have "r \<in> set (db_roles db)" by auto
      with m show "r \<in> set (held_roles db ws u)" by (intro held_rolesI [OF fk])
    qed
    with eq show ?thesis by simp
  qed
qed

lemma role_patch_keeps [simp]: "role_id (role_patch body perms pos r) = role_id r"
  "role_ws (role_patch body perms pos r) = role_ws r"
  by (simp_all add: role_patch_def)

lemma capped_update:
  assumes cap: "capped ws S U P db" and "a \<in> S"
  shows "capped ws S U P (snd (role_update db ws a rid body))" (is "capped ws S U P ?db'")
  using role_update_cases [of db ws a rid body]
proof
  assume "same_roles db ?db'"
  with cap show ?thesis by (rule capped_same)
next
  let ?ctx = "computeActorContext db ws a"
  assume "\<exists>perms pos. db_roles ?db' =
         update_where (\<lambda>r. role_id r = rid) (role_patch body perms pos) (db_roles db)
       \<and> db_memberRoles ?db' = db_memberRoles db
       \<and> (\<forall>m. perms = Some m \<longrightarrow> grant_ok ?ctx m
             \<and> fromStoragePermissions (toStoragePermissions m) = m)
       \<and> (\<forall>p. pos = Some p \<longrightarrow> p < topPosition ?ctx)"
  then obtain perms pos where roles: "db_roles ?db' =
         update_where (\<lambda>r. role_id r = rid) (role_patch body perms pos) (db_roles db)"
      and mrs: "db_memberRoles ?db' = db_memberRoles db"
      and perms: "\<And>m. perms = Some m \<Longrightarrow> grant_ok ?ctx m
             \<and> fromStoragePermissions (toStoragePermissions m) = m"
      and pos: "\<And>p. pos = Some p \<Longrightarrow> p < topPosition ?ctx" by blast
  from cap have fk: "fk_ok db" by (simp add: capped_def)
  have ids: "map role_id (db_roles ?db') = map role_id (db_roles db)"
    by (simp add: roles map_update_where)
  have fk': "fk_ok ?db'"
  proof -
    from ids have "role_id ` set (db_roles ?db') = role_id ` set (db_roles db)"
      by (metis list.set_map)
    with fk show ?thesis unfolding fk_ok_def mrs ids by simp
  qed
  have patched: "capped_role U P (role_patch body perms pos r)" if "capped_role U P r" for r
    using that perms pos capped_context [OF cap \<open>a \<in> S\<close>]
    by (cases perms; cases pos)
      (fastforce simp: capped_role_def role_patch_def role_bits_def grant_ok_def)+
  show ?thesis
  proof (rule cappedI [OF cap fk'])
    fix u r assume "u \<in> S" "r \<in> set (held_roles ?db' ws u)"
    then obtain m where rin: "r \<in> set (db_roles ?db')"
      and m': "m \<in> set (db_memberRoles ?db')"
      and m: "mr_ws m = ws" "mr_user m = u" "mr_role m = role_id r"
      using held_rolesE [OF fk'] by metis
    from m' have m_in: "m \<in> set (db_memberRoles db)" by (simp only: mrs)
    from rin obtain r0 where r0: "r0 \<in> set (db_roles db)"
        "r = (if role_id r0 = rid then role_patch body perms pos r0 else r0)"
      by (auto simp: roles set_update_where)
    then have "role_id r = role_id r0" by simp
    with m m_in r0 have "r0 \<in> set (held_roles db ws u)"
      by (intro held_rolesI [OF fk, of r0 m]) simp_all
    with cap \<open>u \<in> S\<close> have "capped_role U P r0" by (simp add: capped_def)
    with patched r0 show "capped_role U P r" by simp
  qed
qed

lemma capped_remove:
  assumes cap: "capped ws S U P db"
  shows "capped ws S U P (snd (role_remove db ws a rid))" (is "capped ws S U P ?db'")
  using role_remove_cases [of db ws a rid]
proof
  assume "same_roles db ?db'"
  with cap show ?thesis by (rule capped_same)
next
  assume del: "db_roles ?db' = delete_where (\<lambda>r. role_id r = rid) (db_roles db)
     \<and> db_memberRoles ?db' = delete_where (\<lambda>m. mr_role m = rid) (db_memberRoles db)"
  from cap have fk: "fk_ok db" by (simp add: capped_def)
  with del have fk': "fk_ok ?db'"
    by (auto simp: fk_ok_def set_delete_where distinct_map_delete_where image_iff)
  show ?thesis
    using del by (intro capped_held_subset [OF cap fk'])
      (auto simp: set_delete_where elim!: held_rolesE [OF fk'] intro: held_rolesI [OF fk])
qed

lemma capped_subset:
  assumes cap: "capped ws S U P db" and roles: "db_roles db' = db_roles db"
    and sub: "set (db_memberRoles db') \<subseteq> set (db_memberRoles db)"
  shows "capped ws S U P db'"
proof -
  from cap have fk: "fk_ok db" by (simp add: capped_def)
  with roles sub have fk': "fk_ok db'" by (auto simp: fk_ok_def)
  show ?thesis
    using roles sub by (intro capped_held_subset [OF cap fk'])
      (auto elim!: held_rolesE [OF fk'] intro: held_rolesI [OF fk])
qed

lemma capped_assign:
  assumes cap: "capped ws S U P db" and "a \<in> S"
  shows "capped ws S U P (snd (role_assign db ws a target rid))" (is "capped ws S U P ?db'")
  using role_assign_cases [of db ws a target rid]
proof
  assume "same_roles db ?db'"
  with cap show ?thesis by (rule capped_same)
next
  let ?ctx = "computeActorContext db ws a"
  let ?new = "\<lparr>mr_ws = ws, mr_user = target, mr_role = rid, mr_assignedBy = Some a\<rparr>"
  assume "\<exists>role. role \<in> set (db_roles db) \<and> role_id role = rid \<and> db_roles ?db' = db_roles db
       \<and> set (db_memberRoles ?db') \<subseteq> insert ?new (set (db_memberRoles db))
       \<and> (isAdministrator ?ctx \<or> role_position role < topPosition ?ctx
          \<and> (\<forall>n. role_bits role n \<longrightarrow> bit (maxPermissions ?ctx) n))"
  then obtain role where role: "role \<in> set (db_roles db)" "role_id role = rid"
      "db_roles ?db' = db_roles db"
      "set (db_memberRoles ?db') \<subseteq> insert ?new (set (db_memberRoles db))"
      and "role_position role < topPosition ?ctx" "\<And>n. role_bits role n \<Longrightarrow> bit (maxPermissions ?ctx) n"
    using capped_context(3) [OF cap \<open>a \<in> S\<close>] by blast
  with capped_context(1,2) [OF cap \<open>a \<in> S\<close>] have ok: "capped_role U P role"
    by (fastforce simp: capped_role_def)
  from cap have fk: "fk_ok db" by (simp add: capped_def)
  with role have fk': "fk_ok ?db'" by (auto simp: fk_ok_def)
  show ?thesis
  proof (rule cappedI [OF cap fk'])
    fix u r assume "u \<in> S" and r: "r \<in> set (held_roles ?db' ws u)"
    show "capped_role U P r"
    proof (cases "role_id r = rid")
      case True
      with r role fk have "r = role"
        using held_roles_iff [OF fk'] distinct_map_unique [of role_id "db_roles db" r role]
        by (auto simp: fk_ok_def)
      with ok show ?thesis by simp
    next
      case False
      from r obtain m where m: "r \<in> set (db_roles ?db')" "m \<in> set (db_memberRoles ?db')"
          "mr_ws m = ws" "mr_user m = u" "mr_role m = role_id r"
        by (auto elim: held_rolesE [OF fk'])
      have "m \<noteq> ?new"
      proof
        assume "m = ?new"
        then have "mr_role m = rid" by simp
        with m(5) False show False by simp
      qed
      with subsetD [OF role(4) m(2)] have "m \<in> set (db_memberRoles db)" by simp
      with m role have "r \<in> set (held_roles db ws u)" by (intro held_rolesI [OF fk]) simp_all
      with cap \<open>u \<in> S\<close> show ?thesis by (simp add: capped_def)
    qed
  qed
qed

lemma capped_revoke:
  "capped ws S U P db \<Longrightarrow> capped ws S U P (snd (role_revoke db ws a target rid))"
  using role_revoke_cases [of db ws a target rid] by (blast intro: capped_subset)

interpretation role_ops: invariant_machine "role_step ws" "capped ws S U P" "\<lambda>e. op_actor e \<in> S"
  for ws S U P
proof unfold_locales
  fix db e assume "capped ws S U P db" "op_actor e \<in> S"
  then show "capped ws S U P (role_step ws db e)"
    by (cases e) (simp_all add: capped_create capped_update capped_remove capped_assign capped_revoke)
qed

section \<open>System role synchronisation\<close>

abbreviation system_grant :: "id \<Rightarrow> id \<Rightarrow> id \<Rightarrow> member_role_row" where
  "system_grant ws target user \<equiv> \<lparr>mr_ws = ws, mr_user = user, mr_role = target, mr_assignedBy = None\<rparr>"

lemma set_insert_grants:
  assumes "\<forall>m \<in> set t. mr_ws m = ws \<and> mr_user m \<in> set users \<and> mr_role m = target
             \<longrightarrow> m = system_grant ws target (mr_user m)"
  shows "set (foldl (\<lambda>acc u. insert_member_role acc (system_grant ws target u)) t users)
       = set t \<union> system_grant ws target ` set users"
  using assms
proof (induction users arbitrary: t)
  case Nil
  then show ?case by simp
next
  case (Cons u users)
  have "set (insert_member_role t (system_grant ws target u)) = insert (system_grant ws target u) (set t)"
    using Cons.prems by (auto simp: insert_member_role_def)
  with Cons.prems Cons.IH [of "insert_member_role t (system_grant ws target u)"]
  show ?case by auto
qed

lemma set_replace_system_roles:
  assumes "target \<in> set sys"
  shows "set (replace_system_roles ws users sys target t) =
     {m \<in> set t. \<not> (mr_ws m = ws \<and> mr_user m \<in> set users \<and> mr_role m \<in> set sys)}
     \<union> system_grant ws target ` set users"
  unfolding replace_system_roles_def
  by (subst set_insert_grants) (use assms in \<open>auto simp: set_delete_where\<close>)

lemma find_system_role_in: "find_system_role rs r = Some x \<Longrightarrow> x \<in> set rs"
  by (auto simp: find_system_role_def dest: find_Some_in)

lemma insert_role_skip_dup_present:
  "role_name_exists rs (role_ws r) (role_name r) \<Longrightarrow> insert_role_skip_dup rs r = rs"
  by (simp add: insert_role_skip_dup_def)

lemma role_name_exists_insert:
  "role_name_exists rs ws nm \<Longrightarrow> role_name_exists (insert_role_skip_dup rs r) ws nm"
  "role_name_exists (insert_role_skip_dup rs r) (role_ws r) (role_name r)"
  by (auto simp: role_name_exists_def insert_role_skip_dup_def)

lemma role_name_exists_fold:
  "role_name_exists rs ws nm \<Longrightarrow> role_name_exists (foldl insert_role_skip_dup rs new) ws nm"
  by (induction new arbitrary: rs) (auto intro: role_name_exists_insert)

lemma seed_names: "x \<in> set new \<Longrightarrow>
    role_name_exists (foldl insert_role_skip_dup rs new) (role_ws x) (role_name x)"
  by (induction new arbitrary: rs) (auto intro: role_name_exists_insert role_name_exists_fold)

lemma foldl_skip_id:
  "(\<And>x. x \<in> set new \<Longrightarrow> role_name_exists rs (role_ws x) (role_name x)) \<Longrightarrow>
   foldl insert_role_skip_dup rs new = rs"
  by (induction new) (auto simp: insert_role_skip_dup_present)

lemma seed_idempotent: "seedSystemRoles gen (seedSystemRoles gen db ws) ws = seedSystemRoles gen db ws"
proof -
  let ?new = "map (system_role_row gen ws) SYSTEM_ROLES"
  have "foldl insert_role_skip_dup (foldl insert_role_skip_dup rs ?new) ?new
      = foldl insert_role_skip_dup rs ?new" for rs
    by (rule foldl_skip_id) (rule seed_names)
  then show ?thesis by (simp add: seedSystemRoles_def)
qed

definition seeded :: "(workspace_role \<Rightarrow> id) \<Rightarrow> ws_db \<Rightarrow> id \<Rightarrow> workspace_role \<Rightarrow> ws_db" where
  "seeded gen db ws r = (case find_system_role (system_roles_of db ws) r of
      Some _ \<Rightarrow> db | None \<Rightarrow> seedSystemRoles gen db ws)"

lemma seeded_twice: "seeded gen (seeded gen db ws r) ws r = seeded gen db ws r"
  by (auto simp: seeded_def seed_idempotent split: option.splits)

definition grant_system :: "ws_db \<Rightarrow> id \<Rightarrow> id list \<Rightarrow> workspace_role \<Rightarrow> ws_db" where
  "grant_system db ws users r = (case find_system_role (system_roles_of db ws) r of
      None \<Rightarrow> db
    | Some x \<Rightarrow> db\<lparr>db_memberRoles := replace_system_roles ws users
        (map role_id (system_roles_of db ws)) (role_id x) (db_memberRoles db)\<rparr>)"

lemma sync_eq:
  "syncMemberSystemRole gen db ws u r = grant_system (seeded gen db ws r) ws [u] r"
  "users \<noteq> [] \<Longrightarrow> syncMembersSystemRole gen db ws users r = grant_system (seeded gen db ws r) ws users r"
  by (simp_all add: syncMemberSystemRole_def syncMembersSystemRole_def grant_system_def seeded_def Let_def)

lemma system_roles_of_upd [simp]: "system_roles_of (db\<lparr>db_memberRoles := t\<rparr>) ws = system_roles_of db ws"
  by (simp add: system_roles_of_def)

lemma system_roles_of_grant [simp]: "system_roles_of (grant_system db ws users r) ws = system_roles_of db ws"
  by (simp add: grant_system_def split: option.split)

lemma seeded_grant: "seeded gen db ws r = db \<Longrightarrow>
    seeded gen (grant_system db ws users r) ws r = grant_system db ws users r"
  by (auto simp: seeded_def grant_system_def split: option.splits)

text \<open>Two states that differ only in the order of the MemberRole rows.\<close>

definition same_grants :: "ws_db \<Rightarrow> ws_db \<Rightarrow> bool" where
  "same_grants d e \<longleftrightarrow> d\<lparr>db_memberRoles := []\<rparr> = e\<lparr>db_memberRoles := []\<rparr>
     \<and> set (db_memberRoles d) = set (db_memberRoles e)"

lemma grant_system_split:
  "same_grants (grant_system (grant_system db ws [u] r) ws users r) (grant_system db ws (u # users) r)"
proof (cases "find_system_role (system_roles_of db ws) r")
  case None
  then show ?thesis by (simp add: grant_system_def same_grants_def)
next
  case (Some x)
  then have "role_id x \<in> set (map role_id (system_roles_of db ws))"
    by (auto dest: find_system_role_in)
  then show ?thesis
    using Some by (auto simp: grant_system_def same_grants_def set_replace_system_roles
        simp del: set_map)
qed

lemma same_grants_trans: "same_grants a b \<Longrightarrow> same_grants b c \<Longrightarrow> same_grants a c"
  by (simp add: same_grants_def)

lemma fold_sync_seeded:
  assumes "seeded gen db ws r = db"
  shows "same_grants (foldl (\<lambda>d u. syncMemberSystemRole gen d ws u r) db users)
           (if users = [] then db else grant_system db ws users r)"
  using assms
proof (induction users arbitrary: db)
  case Nil
  then show ?case by (simp add: same_grants_def)
next
  case (Cons u users)
  let ?d = "grant_system db ws [u] r"
  have "foldl (\<lambda>d u. syncMemberSystemRole gen d ws u r) db (u # users)
      = foldl (\<lambda>d u. syncMemberSystemRole gen d ws u r) ?d users"
    by (simp add: sync_eq Cons.prems)
  moreover have "same_grants (foldl (\<lambda>d u. syncMemberSystemRole gen d ws u r) ?d users)
      (if users = [] then ?d else grant_system ?d ws users r)"
    by (rule Cons.IH) (simp add: seeded_grant Cons.prems)
  moreover have "same_grants (if users = [] then ?d else grant_system ?d ws users r)
      (grant_system db ws (u # users) r)"
    using grant_system_split [of db ws u r users] by (auto simp: same_grants_def)
  ultimately show ?case by (auto intro: same_grants_trans)
qed

lemma bulk_sync_is_fold:
  "same_grants (syncMembersSystemRole gen db ws users r)
     (foldl (\<lambda>d u. syncMemberSystemRole gen d ws u r) db users)"
proof (cases users)
  case Nil
  then show ?thesis by (simp add: syncMembersSystemRole_def same_grants_def)
next
  case (Cons u us)
  let ?s = "seeded gen db ws r"
  have "foldl (\<lambda>d u. syncMemberSystemRole gen d ws u r) db users
      = foldl (\<lambda>d u. syncMemberSystemRole gen d ws u r) ?s users"
    by (simp add: Cons sync_eq seeded_twice)
  moreover have "syncMembersSystemRole gen db ws users r = grant_system ?s ws users r"
    by (simp add: sync_eq Cons)
  moreover have "seeded gen ?s ws r = ?s" by (rule seeded_twice)
  note fold_sync_seeded [OF this, of users]
  ultimately show ?thesis using Cons by (auto simp: same_grants_def)
qed

lemma sync_one_system_role:
  fixes gen db ws u r
  assumes "find_system_role (system_roles_of (seeded gen db ws r) ws) r = Some x"
  defines "db' \<equiv> syncMemberSystemRole gen db ws u r"
  shows "mr_role ` {m \<in> set (db_memberRoles db'). mr_ws m = ws \<and> mr_user m = u}
      \<inter> role_id ` set (system_roles_of db' ws) = {role_id x}"
    and "m \<in> set (db_memberRoles db) \<Longrightarrow> \<not> (mr_ws m = ws \<and> mr_user m = u) \<Longrightarrow>
         m \<in> set (db_memberRoles db')"
    and "m \<in> set (db_memberRoles db) \<Longrightarrow> mr_role m \<notin> role_id ` set (system_roles_of db' ws) \<Longrightarrow>
         m \<in> set (db_memberRoles db')"
proof -
  let ?s = "seeded gen db ws r"
  have db': "db' = grant_system ?s ws [u] r" by (simp add: db'_def sync_eq)
  then have sys: "system_roles_of db' ws = system_roles_of ?s ws" by simp
  from assms(1) have mem: "role_id x \<in> role_id ` set (system_roles_of ?s ws)"
    by (auto dest: find_system_role_in)
  have rows: "set (db_memberRoles db') = {m \<in> set (db_memberRoles db).
      \<not> (mr_ws m = ws \<and> mr_user m = u \<and> mr_role m \<in> role_id ` set (system_roles_of ?s ws))}
      \<union> {system_grant ws (role_id x) u}"
    using assms(1) mem
    by (auto simp: db' grant_system_def set_replace_system_roles seeded_def seedSystemRoles_def
        split: option.splits)
  show "mr_role ` {m \<in> set (db_memberRoles db'). mr_ws m = ws \<and> mr_user m = u}
      \<inter> role_id ` set (system_roles_of db' ws) = {role_id x}"
    (is "?held \<inter> ?ids = _")
  proof (rule equalityI; rule subsetI)
    fix k assume "k \<in> ?held \<inter> ?ids"
    then obtain m where "m \<in> set (db_memberRoles db')" "mr_ws m = ws" "mr_user m = u"
        "mr_role m = k" "k \<in> ?ids" by blast
    then have "m = system_grant ws (role_id x) u" unfolding rows sys by auto
    with \<open>mr_role m = k\<close> show "k \<in> {role_id x}" by simp
  next
    fix k assume "k \<in> {role_id x}"
    moreover have "system_grant ws (role_id x) u \<in> set (db_memberRoles db')"
      unfolding rows by simp
    then have "role_id x \<in> ?held" by force
    ultimately show "k \<in> ?held \<inter> ?ids" using mem sys by simp
  qed
  show "m \<in> set (db_memberRoles db) \<Longrightarrow> \<not> (mr_ws m = ws \<and> mr_user m = u) \<Longrightarrow>
      m \<in> set (db_memberRoles db')"
    unfolding rows by auto
  show "m \<in> set (db_memberRoles db) \<Longrightarrow> mr_role m \<notin> role_id ` set (system_roles_of db' ws) \<Longrightarrow>
      m \<in> set (db_memberRoles db')"
    unfolding rows sys by auto
qed

section \<open>Properties\<close>

text \<open>C1: No privilege escalation, over any run: if every role held by the users of a set \<open>S\<close>
  carries only bits of \<open>U\<close> (which lacks ADMINISTRATOR) at positions up to \<open>P\<close>, then after any
  sequence of role creations, updates, removals, assignments and revocations that users of
  \<open>S\<close> request, in any order and with any arguments, the permissions of each of them are still
  within \<open>U\<close> and his top position is at most \<open>P\<close>. Colluding users gain nothing together that
  none of them had.\<close>

theorem no_privilege_escalation:
  assumes "capped ws S U P db" and "list_all (\<lambda>e. op_actor e \<in> S) ops" and "u \<in> S"
  shows "(bit (maxPermissions (computeActorContext (run_steps (role_step ws) db ops) ws u)) n \<longrightarrow> U n)
    \<and> topPosition (computeActorContext (run_steps (role_step ws) db ops) ws u) \<le> P
    \<and> \<not> isAdministrator (computeActorContext (run_steps (role_step ws) db ops) ws u)"
  using capped_context [OF role_ops.inv_run [OF assms(1,2)] assms(3)] by blast

definition example_db :: ws_db where
  "example_db = \<lparr>db_roles =
       [\<lparr>role_id = ''mod'', role_ws = ''w'', role_name = ''Mods'', role_color = None, role_position = 5,
         role_permissions = 3, role_isSystem = False, role_mentionable = False, role_hoist = False\<rparr>,
        \<lparr>role_id = ''own'', role_ws = ''w'', role_name = ''OWNER'', role_color = None, role_position = 500,
         role_permissions = - (2 ^ 63), role_isSystem = True, role_mentionable = False, role_hoist = True\<rparr>],
     db_members = [\<lparr>wm_ws = ''w'', wm_user = ''ann'', wm_role = OWNER\<rparr>,
                   \<lparr>wm_ws = ''w'', wm_user = ''bob'', wm_role = MEMBER\<rparr>],
     db_memberRoles = [\<lparr>mr_ws = ''w'', mr_user = ''ann'', mr_role = ''own'', mr_assignedBy = None\<rparr>,
                       \<lparr>mr_ws = ''w'', mr_user = ''bob'', mr_role = ''mod'', mr_assignedBy = None\<rparr>],
     db_overrides = [\<lparr>principalType = ROLE, principalId = ''mod'', allowMask = 1, denyMask = 0, ov_channel = ''c''\<rparr>],
     db_channels = [\<lparr>ch_id = ''c'', ch_ws = Some ''w'', ch_isPrivate = True, ch_type = ''TEXT'', ch_deleted = False\<rparr>],
     db_audit = []\<rparr>"

definition example_request :: "js_string \<Rightarrow> create_role_request" where
  "example_request perms = \<lparr>cr_name = ''Helpers'', cr_colorHex = None, cr_position = Some 4,
     cr_permissions = Some perms, cr_mentionable = None, cr_hoist = None\<rparr>"

theorem no_privilege_escalation_witness:
  "topPosition (computeActorContext (run_steps (role_step ''w'') example_db
      [RoleCreate ''bob'' ''new'' (example_request (js ''2'')), RoleAssign ''bob'' ''bob'' ''new'',
       RoleAssign ''bob'' ''bob'' ''own'']) ''w'' ''bob'') \<le> 5"
proof -
  have held: "held_roles example_db ''w'' ''bob'' = [db_roles example_db ! 0]" by code_simp
  have perms: "fromStoragePermissions (role_permissions (db_roles example_db ! 0)) = 3"
    "role_position (db_roles example_db ! 0) = 5" by code_simp+
  have "\<not> bit (3 :: int) (permission_shift ADMINISTRATOR)" "fk_ok example_db" by code_simp+
  with held perms have "capped ''w'' {''bob''} (bit (3 :: int)) 5 example_db"
    by (simp add: capped_def capped_role_def role_bits_def)
  from no_privilege_escalation [OF this, of "[RoleCreate ''bob'' ''new'' (example_request (js ''2'')),
      RoleAssign ''bob'' ''bob'' ''new'', RoleAssign ''bob'' ''bob'' ''own'']" "''bob''"]
  show ?thesis by simp
qed

text \<open>A role that is created stays within its creator: when \<open>create\<close> succeeds, the new row
  carries (read back from the column) exactly the requested permissions, each of them a
  permission the actor holds unless he is an administrator, it lies strictly below the actor's
  top position, is no system role, and is appended to the table under an id that was free; no
  grant changes.\<close>

lemma role_create_within_actor:
  assumes "role_create db ws actor new_id body = (Inr row, db')"
  shows "\<exists>requested. parse_requested (cr_permissions body) = Inr requested
      \<and> fromStoragePermissions (role_permissions row) = requested
      \<and> grant_ok (computeActorContext db ws actor) requested
      \<and> role_position row < topPosition (computeActorContext db ws actor)
      \<and> \<not> role_isSystem row \<and> role_id row = new_id \<and> new_id \<notin> role_id ` set (db_roles db)
      \<and> db_roles db' = db_roles db @ [row] \<and> db_memberRoles db' = db_memberRoles db"
  using assms by (rule role_create_cases) (auto simp: storage_of_parsed)

lemma role_create_within_actor_example:
  "grant_ok (computeActorContext example_db ''w'' ''bob'') 2"
proof -
  obtain row db' where r: "role_create example_db ''w'' ''bob'' ''new'' (example_request (js ''2'')) = (Inr row, db')"
    and "parse_requested (cr_permissions (example_request (js ''2''))) = Inr 2"
  proof
    show "role_create example_db ''w'' ''bob'' ''new'' (example_request (js ''2''))
        = (Inr (projr (fst (role_create example_db ''w'' ''bob'' ''new'' (example_request (js ''2''))))),
           snd (role_create example_db ''w'' ''bob'' ''new'' (example_request (js ''2''))))" by code_simp
    show "parse_requested (cr_permissions (example_request (js ''2''))) = Inr 2" by code_simp
  qed
  with role_create_within_actor [OF r] show ?thesis by auto
qed

text \<open>A refused creation leaves no trace: whatever error \<open>create\<close> ends with, the tables
  are those it started from. This includes the audit log: the PRIVILEGE_ESCALATION_DENIED row is
  written inside the transaction that the error rolls back, so it is lost (\<open>update\<close>, which
  records it outside a transaction, keeps it).\<close>

lemma role_create_refused_changes_nothing:
  assumes "role_create db ws actor new_id body = (Inl e, db')"
  shows "db' = db"
proof (cases "parse_requested (cr_permissions body)")
  case (Inl f)
  with assms show ?thesis by (simp add: role_create_def)
next
  case (Inr requested)
  with assms show ?thesis
    by (auto simp: role_create_def map_failure_def dest: transaction_Inl split: prod.splits sum.splits)
qed

lemma role_create_refused_changes_nothing_example:
  "role_create example_db ''w'' ''bob'' ''new'' (example_request (js ''8''))
     = (Inl (Domain ROLE_PRIVILEGE_ESCALATION), example_db)"
proof -
  let ?r = "role_create example_db ''w'' ''bob'' ''new'' (example_request (js ''8''))"
  have "fst ?r = Inl (Domain ROLE_PRIVILEGE_ESCALATION)" by code_simp
  then have "?r = (Inl (Domain ROLE_PRIVILEGE_ESCALATION), snd ?r)" by (metis prod.collapse)
  with role_create_refused_changes_nothing [OF this] show ?thesis by simp
qed

text \<open>Removing a role cascades: when \<open>remove\<close> succeeds, the role was a custom one below the
  actor's top position, no role row, no grant and no override of a channel of the workspace
  refers to it any more, every other role, grant and override is kept, and the returned
  invalidation job lists every user that held it.\<close>

lemma role_remove_cascades:
  assumes "role_remove db ws actor rid = (Inr (users, channels), db')"
  shows "(\<exists>role. findRoleOrThrow db ws rid = Inr role \<and> \<not> role_isSystem role
        \<and> role_position role < topPosition (computeActorContext db ws actor))
    \<and> set (db_roles db') = {r \<in> set (db_roles db). role_id r \<noteq> rid}
    \<and> set (db_memberRoles db') = {m \<in> set (db_memberRoles db). mr_role m \<noteq> rid}
    \<and> set (db_overrides db') = {ov \<in> set (db_overrides db). \<not> (principalType ov = ROLE
        \<and> principalId ov = rid \<and> ov_channel ov \<in> ch_id ` {c \<in> set (db_channels db). ch_ws c = Some ws})}
    \<and> set users = mr_user ` {m \<in> set (db_memberRoles db). mr_role m = rid}"
  using assms
  by (simp add: role_remove_def Let_def audit_append_def split: sum.splits if_splits)
    (auto simp: set_delete_where)

lemma role_remove_cascades_example:
  "\<exists>db'. role_remove example_db ''w'' ''ann'' ''mod'' = (Inr ([''bob''], [''c'']), db')
     \<and> set (db_overrides db') = {}"
proof -
  let ?r = "role_remove example_db ''w'' ''ann'' ''mod''"
  have "fst ?r = Inr ([''bob''], [''c''])" by code_simp
  then have r: "?r = (Inr ([''bob''], [''c'']), snd ?r)" by (metis prod.collapse)
  note cascade = role_remove_cascades [OF r, THEN conjunct2, THEN conjunct2, THEN conjunct2, THEN conjunct1]
  have "set (db_overrides (snd ?r)) = {}"
    unfolding cascade by (simp add: example_db_def image_iff)
  with r show ?thesis by metis
qed

text \<open>After the synchronisation of a member with his workspace role, the system roles he holds
  are exactly the row of that role, every grant of other members or workspaces and every grant
  of a custom role is kept. The hypothesis says that the workspace has the row once missing
  system roles are seeded.\<close>

lemma sync_leaves_one_system_role:
  assumes "find_system_role (system_roles_of (seeded gen db ws r) ws) r = Some x"
  shows "mr_role ` {m \<in> set (db_memberRoles (syncMemberSystemRole gen db ws u r)). mr_ws m = ws \<and> mr_user m = u}
      \<inter> role_id ` set (system_roles_of (syncMemberSystemRole gen db ws u r) ws) = {role_id x}
    \<and> {m \<in> set (db_memberRoles db). \<not> (mr_ws m = ws \<and> mr_user m = u)
         \<or> mr_role m \<notin> role_id ` set (system_roles_of (syncMemberSystemRole gen db ws u r) ws)}
      \<subseteq> set (db_memberRoles (syncMemberSystemRole gen db ws u r))"
  using sync_one_system_role [OF assms] by blast

lemma sync_leaves_one_system_role_example:
  "mr_role ` {m \<in> set (db_memberRoles (syncMemberSystemRole role_literal example_db ''w'' ''bob'' ADMIN)).
       mr_ws m = ''w'' \<and> mr_user m = ''bob''}
   \<inter> role_id ` set (system_roles_of (syncMemberSystemRole role_literal example_db ''w'' ''bob'' ADMIN) ''w'')
   = {''ADMIN''}"
proof -
  let ?x = "system_role_row role_literal ''w'' ADMIN"
  have "find_system_role (system_roles_of (seeded role_literal example_db ''w'' ADMIN) ''w'') ADMIN = Some ?x"
    by code_simp
  from sync_leaves_one_system_role [OF this, of "''bob''"] show ?thesis
    by (simp add: system_role_row_def)
qed

text \<open>The bulk synchronisation is the loop of the single one: \<open>syncMembersSystemRole\<close>, which
  deletes and inserts the rows of many members in two statements, leaves the same tables as
  synchronising the members one after the other, up to the order of the MemberRole rows.\<close>

lemma bulk_sync_equals_loop:
  "same_grants (syncMembersSystemRole gen db ws users r)
     (foldl (\<lambda>d u. syncMemberSystemRole gen d ws u r) db users)"
  by (rule bulk_sync_is_fold)

end
