(* ===== verification/Channel_Access.thy ===== *)
theory Channel_Access
  imports Roles
begin

text \<open>
  \<open>apps/api/src/channels/permission/channel-access.service.ts\<close>: the effective permission mask
  of a user on a channel, the gates built on it, the read-through permission cache and the
  visibility filters of the mention fan-out.

  The Redis cache maps the key \<open>perms:{channelId}:{userId}\<close> (here the pair; uuids hold no
  colon) to the number its string reads as and the time it expires. \<open>None\<close> for the cache
  is an absent or failing Redis, which every access treats as a miss.
\<close>

section \<open>The effective mask\<close>

record channel =
  c_id :: id
  c_workspaceId :: "id option"
  c_isPrivate :: bool

type_synonym perms_cache = "(id \<times> id \<rightharpoonup> js_number \<times> msec) option"

definition PERMS_CACHE_TTL_SECONDS :: int where
  "PERMS_CACHE_TTL_SECONDS = 5"

definition cacheGet :: "perms_cache \<Rightarrow> msec \<Rightarrow> id \<times> id \<Rightarrow> mask32 option" where
  "cacheGet redis now key =
     (case redis of None \<Rightarrow> None
      | Some r \<Rightarrow>
         (case r key of None \<Rightarrow> None
          | Some (raw, expires) \<Rightarrow>
              if expires \<le> now then None
              else if number_is_integer raw \<and> 0 \<le> number_to_int raw
              then Some (to_int32 (number_to_int raw)) else None))"

definition cacheSet :: "perms_cache \<Rightarrow> msec \<Rightarrow> id \<times> id \<Rightarrow> mask32 \<Rightarrow> perms_cache" where
  "cacheSet redis now key v =
     (case redis of None \<Rightarrow> None
      | Some r \<Rightarrow> Some (r(key \<mapsto> (JNum (of_int (uint v)), now + PERMS_CACHE_TTL_SECONDS * 1000))))"

record member_info =
  mi_role :: workspace_role
  mi_memberRoles :: "role_row list"

definition find_member :: "ws_db \<Rightarrow> id \<Rightarrow> id \<Rightarrow> member_info option" where
  \<comment> \<open>\<open>workspaceMember.findUnique\<close> with \<open>memberRoles\<close> included\<close>
  "find_member db ws user =
     map_option (\<lambda>m. \<lparr>mi_role = wm_role m, mi_memberRoles = held_roles db ws user\<rparr>)
       (find (\<lambda>m. wm_ws m = ws \<and> wm_user m = user) (db_members db))"

definition resolver_of_row :: "role_row \<Rightarrow> resolver_role" where
  "resolver_of_row r = \<lparr>rr_id = role_id r,
     rr_permissions = fromStoragePermissions (role_permissions r),
     rr_position = role_position r, rr_isEveryone = False\<rparr>"

definition computeEnforcementBase :: "member_info \<Rightarrow> mask32" where
  "computeEnforcementBase member =
     (case map resolver_of_row (mi_memberRoles member) of
        [] \<Rightarrow> ROLE_BASELINE (mi_role member)
      | first # rest \<Rightarrow>
          bigintToEnforcementMask (resolveChannelPermissions
            \<lparr>rc_everyone = first\<lparr>rr_isEveryone := True\<rparr>, rc_memberRoles = rest,
             rc_everyoneOverwrite = None, rc_roleOverwrites = None, rc_memberOverwrite = None\<rparr>))"

definition channel_overrides :: "ws_db \<Rightarrow> id \<Rightarrow> id \<Rightarrow> id list \<Rightarrow> channel_override list" where
  \<comment> \<open>the overrides of a channel for a user and a list of role principals\<close>
  "channel_overrides db ch user role_ids =
     map channel_override.truncate
       (filter (\<lambda>ov. ov_channel ov = ch \<and>
           (principalType ov = USER \<and> principalId ov = user
            \<or> principalType ov = ROLE \<and> principalId ov \<in> set role_ids)) (db_overrides db))"

definition fold_overrides :: "bool \<Rightarrow> workspace_role \<Rightarrow> mask32 \<Rightarrow> channel_override list \<Rightarrow> mask32" where
  "fold_overrides is_private role enforcement_base overrides =
     (let roles = filter (\<lambda>ov. principalType ov = ROLE) overrides;
          users = filter (\<lambda>ov. principalType ov = USER) overrides;
          role_allow = or_masks allowMask roles;
          role_deny = or_masks denyMask roles;
          user_allow = or_masks allowMask users;
          user_deny = or_masks denyMask users;
          is_owner = (role = OWNER);
          bas = (if is_private \<and> \<not> is_owner
                 then let has_explicit_read = ((user_allow OR role_allow) AND P_READ = P_READ)
                      in if has_explicit_read then enforcement_base else 0
                 else enforcement_base);
          msk = bas;
          msk = msk OR role_allow;
          msk = msk AND NOT role_deny;
          msk = msk OR user_allow;
          msk = msk AND NOT user_deny
      in msk)"

definition effective_of_member :: "ws_db \<Rightarrow> channel \<Rightarrow> id \<Rightarrow> member_info \<Rightarrow> mask32" where
  "effective_of_member db c user member =
     fold_overrides (c_isPrivate c) (mi_role member) (computeEnforcementBase member)
       (channel_overrides db (c_id c) user
          (role_literal (mi_role member) # map role_id (mi_memberRoles member)))"

definition computeEffectiveForMember ::
  "ws_db \<Rightarrow> perms_cache \<Rightarrow> msec \<Rightarrow> channel \<Rightarrow> id \<Rightarrow> member_info \<Rightarrow> mask32 \<times> perms_cache" where
  "computeEffectiveForMember db redis now c user member =
     (let key = (c_id c, user) in
      case cacheGet redis now key of
        Some cached \<Rightarrow> (cached, redis)
      | None \<Rightarrow> (let effective = effective_of_member db c user member
                 in (effective, cacheSet redis now key effective)))"

definition resolveEffective ::
  "ws_db \<Rightarrow> perms_cache \<Rightarrow> msec \<Rightarrow> channel \<Rightarrow> id \<Rightarrow> (error_code + mask32) \<times> perms_cache" where
  "resolveEffective db redis now c user =
     (case c_workspaceId c of
        None \<Rightarrow>
          (let overrides = filter (\<lambda>ov. ov_channel ov = c_id c \<and> principalType ov = USER
                              \<and> principalId ov = user) (db_overrides db);
               allow = foldl (\<lambda>m ov. m OR to_int32 (allowMask ov)) 0 overrides;
               deny = foldl (\<lambda>m ov. m OR to_int32 (denyMask ov)) 0 overrides
           in (Inr (allow AND NOT deny), redis))
      | Some ws \<Rightarrow>
          (case find_member db ws user of
             None \<Rightarrow> (Inl WORKSPACE_NOT_MEMBER, redis)
           | Some member \<Rightarrow>
               (let (effective, redis') = computeEffectiveForMember db redis now c user member
                in (Inr effective, redis'))))"

section \<open>The gates\<close>

definition requirePermission ::
  "ws_db \<Rightarrow> perms_cache \<Rightarrow> msec \<Rightarrow> channel \<Rightarrow> id \<Rightarrow> mask32 \<Rightarrow> (error_code + unit) \<times> perms_cache" where
  "requirePermission db redis now c user required =
     (case resolveEffective db redis now c user of
        (Inl e, redis') \<Rightarrow> (Inl e, redis')
      | (Inr effective, redis') \<Rightarrow>
          if effective AND required \<noteq> required
          then (Inl (if c_isPrivate c then CHANNEL_NOT_VISIBLE else FORBIDDEN), redis')
          else (Inr (), redis'))"

definition hasPermission ::
  "ws_db \<Rightarrow> perms_cache \<Rightarrow> msec \<Rightarrow> channel \<Rightarrow> id \<Rightarrow> mask32 \<Rightarrow> (error_code + bool) \<times> perms_cache" where
  "hasPermission db redis now c user required =
     (case resolveEffective db redis now c user of
        (Inl e, redis') \<Rightarrow> (Inl e, redis')
      | (Inr effective, redis') \<Rightarrow> (Inr (effective AND required = required), redis'))"

definition requireVisibility ::
  "ws_db \<Rightarrow> perms_cache \<Rightarrow> msec \<Rightarrow> channel \<Rightarrow> id \<Rightarrow> (error_code + unit) \<times> perms_cache" where
  "requireVisibility db redis now c user =
     (if \<not> c_isPrivate c then (Inr (), redis)
      else requirePermission db redis now c user P_READ)"

definition memberRoleUuids :: "ws_db \<Rightarrow> id \<Rightarrow> id \<Rightarrow> id list" where
  "memberRoleUuids db ws user =
     map mr_role (filter (\<lambda>m. mr_ws m = ws \<and> mr_user m = user) (db_memberRoles db))"

definition preloaded_or_uuids :: "ws_db \<Rightarrow> id option \<Rightarrow> id \<Rightarrow> id list option \<Rightarrow> id list" where
  "preloaded_or_uuids db ws user preloaded =
     (case preloaded of Some ids \<Rightarrow> ids
      | None \<Rightarrow> (case ws of None \<Rightarrow> [] | Some w \<Rightarrow> memberRoleUuids db w user))"

definition requireAnnouncementPostingAllowed ::
  "ws_db \<Rightarrow> id \<Rightarrow> id \<Rightarrow> id option \<Rightarrow> id \<Rightarrow> workspace_role \<Rightarrow> id list option \<Rightarrow> error_code + unit" where
  "requireAnnouncementPostingAllowed db ch typ ws user role preloaded =
     (if typ \<noteq> ''ANNOUNCEMENT'' then Inr ()
      else if role = OWNER \<or> role = ADMIN then Inr ()
      else let uuids = preloaded_or_uuids db ws user preloaded;
               overrides = channel_overrides db ch user (role_literal role # uuids);
               allow = foldl (\<lambda>m ov. m OR to_int32 (allowMask ov)) 0 overrides;
               deny = foldl (\<lambda>m ov. m OR to_int32 (denyMask ov)) 0 overrides;
               effective = allow AND NOT deny
           in if effective AND P_WRITE_MESSAGE \<noteq> P_WRITE_MESSAGE
              then Inl CHANNEL_POSTING_RESTRICTED else Inr ())"

definition MENTION_EVERYONE_BIT :: mask32 where
  "MENTION_EVERYONE_BIT = to_int32 (PERMISSIONS MENTION_EVERYONE)"

definition MENTION_CHANNEL_BIT :: mask32 where
  "MENTION_CHANNEL_BIT = to_int32 (PERMISSIONS MENTION_CHANNEL)"

fun MENTION_EVERYONE_ROLE_BASE :: "workspace_role \<Rightarrow> mask32" where
  "MENTION_EVERYONE_ROLE_BASE OWNER = MENTION_EVERYONE_BIT"
| "MENTION_EVERYONE_ROLE_BASE ADMIN = MENTION_EVERYONE_BIT"
| "MENTION_EVERYONE_ROLE_BASE MODERATOR = MENTION_EVERYONE_BIT"
| "MENTION_EVERYONE_ROLE_BASE MEMBER = 0"
| "MENTION_EVERYONE_ROLE_BASE GUEST = 0"

fun MENTION_CHANNEL_ROLE_BASE :: "workspace_role \<Rightarrow> mask32" where
  "MENTION_CHANNEL_ROLE_BASE OWNER = MENTION_CHANNEL_BIT"
| "MENTION_CHANNEL_ROLE_BASE ADMIN = MENTION_CHANNEL_BIT"
| "MENTION_CHANNEL_ROLE_BASE MODERATOR = MENTION_CHANNEL_BIT"
| "MENTION_CHANNEL_ROLE_BASE MEMBER = MENTION_CHANNEL_BIT"
| "MENTION_CHANNEL_ROLE_BASE GUEST = 0"

record mention_scopes =
  hasMentionEveryone :: bool
  hasMentionChannel :: bool

record scope_masks =
  sm_roleAllow :: mask32
  sm_roleDeny :: mask32
  sm_userAllow :: mask32
  sm_userDeny :: mask32

definition foldScopeBit :: "mask32 \<Rightarrow> mask32 \<Rightarrow> scope_masks \<Rightarrow> bool" where
  "foldScopeBit bas b masks =
     (let msk = bas;
          msk = msk OR (sm_roleAllow masks AND b);
          msk = msk AND NOT (sm_roleDeny masks AND b);
          msk = msk OR (sm_userAllow masks AND b);
          msk = msk AND NOT (sm_userDeny masks AND b)
      in msk AND b = b)"

definition scope_step :: "id \<Rightarrow> id set \<Rightarrow> scope_masks \<Rightarrow> channel_override \<Rightarrow> scope_masks" where
  "scope_step user role_ids s ov =
     (if principalType ov = USER \<and> principalId ov = user
      then s\<lparr>sm_userAllow := sm_userAllow s OR to_int32 (allowMask ov),
             sm_userDeny := sm_userDeny s OR to_int32 (denyMask ov)\<rparr>
      else if principalType ov = ROLE \<and> principalId ov \<in> role_ids
      then s\<lparr>sm_roleAllow := sm_roleAllow s OR to_int32 (allowMask ov),
             sm_roleDeny := sm_roleDeny s OR to_int32 (denyMask ov)\<rparr>
      else s)"

definition resolveMentionScopes ::
  "ws_db \<Rightarrow> id \<Rightarrow> id option \<Rightarrow> id \<Rightarrow> workspace_role \<Rightarrow> id list option \<Rightarrow> mention_scopes" where
  "resolveMentionScopes db ch ws user role preloaded =
     (case ws of
        None \<Rightarrow> \<lparr>hasMentionEveryone = False, hasMentionChannel = False\<rparr>
      | Some w \<Rightarrow>
         (let uuids = preloaded_or_uuids db ws user preloaded;
              role_ids = role_literal role # uuids;
              masks = foldl (scope_step user (set role_ids))
                \<lparr>sm_roleAllow = 0, sm_roleDeny = 0, sm_userAllow = 0, sm_userDeny = 0\<rparr>
                (channel_overrides db ch user role_ids)
          in \<lparr>hasMentionEveryone =
                foldScopeBit (MENTION_EVERYONE_ROLE_BASE role) MENTION_EVERYONE_BIT masks,
              hasMentionChannel =
                foldScopeBit (MENTION_CHANNEL_ROLE_BASE role) MENTION_CHANNEL_BIT masks\<rparr>))"

section \<open>Visibility filters and the bypass audit\<close>

definition filterPrivateChannelVisibleUsers :: "ws_db \<Rightarrow> id \<Rightarrow> id \<Rightarrow> id list \<Rightarrow> id list" where
  "filterPrivateChannelVisibleUsers db ch ws candidates =
     (if candidates = [] then []
      else let readers = filter (\<lambda>ov. ov_channel ov = ch
                           \<and> to_int32 (allowMask ov) AND P_READ = P_READ) (db_overrides db);
               user_read = map principalId (filter (\<lambda>ov. principalType ov = USER) readers);
               role_read = map principalId (filter (\<lambda>ov. principalType ov = ROLE) readers);
               members = filter (\<lambda>m. wm_ws m = ws \<and> wm_user m \<in> set candidates) (db_members db)
           in map wm_user (filter (\<lambda>m.
                wm_role m = OWNER \<or> wm_user m \<in> set user_read
                \<or> list_ex (\<lambda>rid. rid \<in> set role_read)
                    (role_literal (wm_role m) # memberRoleUuids db ws (wm_user m))) members))"

definition filterChannelVisibleUsers :: "ws_db \<Rightarrow> channel \<Rightarrow> id \<Rightarrow> id list \<Rightarrow> id list" where
  "filterChannelVisibleUsers db c ws candidates =
     (if candidates = [] then []
      else if c_isPrivate c then filterPrivateChannelVisibleUsers db (c_id c) ws candidates
      else map wm_user (filter (\<lambda>m. wm_ws m = ws \<and> wm_user m \<in> set candidates) (db_members db)))"

definition auditAdministratorBypass ::
  "ws_db \<Rightarrow> id \<Rightarrow> id option \<Rightarrow> id \<Rightarrow> member_info option \<Rightarrow> ws_db" where
  "auditAdministratorBypass db ch ws user preloaded =
     (case ws of None \<Rightarrow> db
      | Some w \<Rightarrow>
         (case (case preloaded of Some m \<Rightarrow> Some m | None \<Rightarrow> find_member db w user) of
            None \<Rightarrow> db
          | Some member \<Rightarrow>
             (let catalog_mask = foldl (\<lambda>acc r. acc OR fromStoragePermissions (role_permissions r)) 0
                                   (mi_memberRoles member)
              in if \<not> has_perm catalog_mask (PERMISSIONS ADMINISTRATOR) then db
                 else if \<not> list_ex (\<lambda>ov. denyMask ov > 0)
                           (channel_overrides db ch user
                             (role_literal (mi_role member) # map role_id (mi_memberRoles member)))
                 then db
                 else db\<lparr>db_audit := db_audit db @
                        [\<lparr>au_ws = w, au_actor = user, au_action = ADMINISTRATOR_CHANNEL_BYPASS,
                          au_target = None\<rparr>]\<rparr>)))"

section \<open>Lemmas: the staged fold\<close>

definition tier :: "principal_type \<Rightarrow> channel_override list \<Rightarrow> channel_override set" where
  "tier t ovs = {ov \<in> set ovs. principalType ov = t}"

lemma fold_overrides_bit:
  "bit (fold_overrides priv role bas ovs) n \<longleftrightarrow>
     \<not> ov_bit denyMask (tier USER ovs) n \<and>
     (ov_bit allowMask (tier USER ovs) n \<or>
      \<not> ov_bit denyMask (tier ROLE ovs) n \<and>
      (ov_bit allowMask (tier ROLE ovs) n \<or>
       bit bas n \<and> (role = OWNER \<or> \<not> priv \<or>
         ov_bit allowMask (tier USER ovs) 0 \<or> ov_bit allowMask (tier ROLE ovs) 0)))"
proof -
  let ?r = "filter (\<lambda>ov. principalType ov = ROLE) ovs"
  let ?u = "filter (\<lambda>ov. principalType ov = USER) ovs"
  let ?open = "role = OWNER \<or> \<not> priv \<or> bit (or_masks allowMask ?u OR or_masks allowMask ?r) 0"
  have "fold_overrides priv role bas ovs = fold_tiers (if ?open then bas else 0)
      (or_masks allowMask ?r) (or_masks denyMask ?r) (or_masks allowMask ?u) (or_masks denyMask ?u)"
    by (auto simp: fold_overrides_def fold_tiers_def Let_def P_READ_iff)
  moreover have "bit (or_masks sel (filter (\<lambda>ov. principalType ov = t) ovs)) k
      \<longleftrightarrow> ov_bit sel (tier t ovs) k" for sel t k
    by (auto simp: bit_or_masks ov_bit_def tier_def)
  ultimately show ?thesis by (auto simp: enforce.mbit_fold bit_or_iff)
qed

lemma channel_overrides_set:
  "set (channel_overrides db ch user ids) = channel_override.truncate `
     {ov \<in> set (db_overrides db). ov_channel ov = ch \<and>
        (principalType ov = USER \<and> principalId ov = user \<or> principalType ov = ROLE \<and> principalId ov \<in> set ids)}"
  by (auto simp: channel_overrides_def)

lemma truncate_simps [simp]:
  "principalType (channel_override.truncate ov) = principalType ov"
  "principalId (channel_override.truncate ov) = principalId ov"
  "allowMask (channel_override.truncate ov) = allowMask ov"
  "denyMask (channel_override.truncate ov) = denyMask ov"
  by (simp_all add: channel_override.defs)

lemma base_single_system_role:
  assumes "role_permissions r = toStoragePermissions (SYSTEM_ROLE_PERMISSIONS (mi_role member))"
    and "mi_memberRoles member = [r]"
  shows "computeEnforcementBase member = ROLE_BASELINE (mi_role member)"
proof -
  have "fromStoragePermissions (toStoragePermissions (SYSTEM_ROLE_PERMISSIONS w))
      = SYSTEM_ROLE_PERMISSIONS w" for w
    by (induction w) code_simp+
  then show ?thesis
    using assms by (simp add: computeEnforcementBase_def resolveChannelPermissions_def
        resolver_of_row_def apply_optional_def Let_def shim_matches_baseline)
qed

section \<open>Lemmas: agreement with the permission matrix\<close>

definition matrix_input :: "ws_db \<Rightarrow> channel \<Rightarrow> id \<Rightarrow> workspace_role \<Rightarrow> effective_input" where
  "matrix_input db c user role = \<lparr>ei_role = role, ei_isPrivate = c_isPrivate c, ei_userId = user,
     ei_overrides = map channel_override.truncate
       (filter (\<lambda>ov. ov_channel ov = c_id c) (db_overrides db))\<rparr>"

definition system_roles_only :: "ws_db \<Rightarrow> channel \<Rightarrow> member_info \<Rightarrow> bool" where
  \<comment> \<open>a member without role rows, or with the row of his system role and no override on its uuid\<close>
  "system_roles_only db c member \<longleftrightarrow> mi_memberRoles member = [] \<or>
     (case mi_memberRoles member of [r] \<Rightarrow>
         role_permissions r = toStoragePermissions (SYSTEM_ROLE_PERMISSIONS (mi_role member))
         \<and> list_all (\<lambda>ov. \<not> (ov_channel ov = c_id c \<and> principalType ov = ROLE
              \<and> principalId ov = role_id r)) (db_overrides db)
      | _ \<Rightarrow> False)"

lemma effective_matches_matrix:
  assumes "system_roles_only db c member"
  shows "effective_of_member db c user member = matrix_effective (matrix_input db c user (mi_role member))"
proof (rule bit_eqI)
  fix n
  let ?role = "mi_role member"
  let ?ids = "role_literal ?role # map role_id (mi_memberRoles member)"
  have base: "computeEnforcementBase member = ROLE_BASELINE ?role"
    using assms base_single_system_role
    by (auto simp: system_roles_only_def computeEnforcementBase_def split: list.splits)
  have "tier USER (channel_overrides db (c_id c) user ?ids) = user_ovs (matrix_input db c user ?role)"
    by (auto simp: tier_def user_ovs_def matrix_input_def channel_overrides_set)
  moreover have "tier ROLE (channel_overrides db (c_id c) user ?ids) = role_ovs (matrix_input db c user ?role)"
    using assms
    by (auto simp: tier_def role_ovs_def matrix_input_def channel_overrides_set system_roles_only_def
        list_all_iff split: list.splits)
  ultimately show "bit (effective_of_member db c user member) n
      = bit (matrix_effective (matrix_input db c user ?role)) n"
    by (simp add: effective_of_member_def fold_overrides_bit matrix_effective_bit base)
      (simp add: matrix_input_def)
qed

section \<open>Lemmas: the cache\<close>

definition cache_coherent :: "ws_db \<Rightarrow> (id \<Rightarrow> channel) \<Rightarrow> perms_cache \<Rightarrow> msec \<Rightarrow> bool" where
  \<comment> \<open>what a hit would return is what the tables give now\<close>
  "cache_coherent db chan redis now \<longleftrightarrow> (\<forall>ch u m. cacheGet redis now (ch, u) = Some m \<longrightarrow>
     (\<forall>ws member. c_workspaceId (chan ch) = Some ws \<longrightarrow> find_member db ws u = Some member \<longrightarrow>
        m = effective_of_member db (chan ch) u member))"

lemma cacheGet_Set:
  "cacheGet (cacheSet redis now k v) now k' =
     (if k' = k \<and> redis \<noteq> None then Some v else cacheGet redis now k')"
proof -
  have "number_is_integer (JNum (of_int j))" "number_to_int (JNum (of_int j)) = j" for j
    by (simp_all add: number_is_integer_def number_to_int_def)
  from this [of "uint v"] show ?thesis
    by (auto simp: cacheGet_def cacheSet_def PERMS_CACHE_TTL_SECONDS_def to_int32_def
        word_of_int_uint simp del: of_int_uint split: option.splits)
qed

lemma cacheGet_later:
  "now \<le> later \<Longrightarrow> cacheGet redis later k = Some m \<Longrightarrow> cacheGet redis now k = Some m"
  by (auto simp: cacheGet_def split: option.splits prod.splits if_splits)

lemma cache_coherent_later:
  "cache_coherent db chan redis now \<Longrightarrow> now \<le> later \<Longrightarrow> cache_coherent db chan redis later"
  unfolding cache_coherent_def by (blast dest: cacheGet_later)

lemma cacheGet_None [simp]: "cacheGet None now k = None"
  by (simp add: cacheGet_def)

lemma cache_transparent:
  assumes coh: "cache_coherent db chan redis now" and "chan (c_id c) = c"
  shows "fst (resolveEffective db redis now c u) = fst (resolveEffective db None now c u)"
    and "cache_coherent db chan (snd (resolveEffective db redis now c u)) now"
proof -
  show "fst (resolveEffective db redis now c u) = fst (resolveEffective db None now c u)"
  proof (cases "cacheGet redis now (c_id c, u)")
    case None
    then show ?thesis
      by (auto simp: resolveEffective_def computeEffectiveForMember_def Let_def split: option.split)
  next
    case (Some m)
    with coh assms(2) have "c_workspaceId c = Some ws \<Longrightarrow> find_member db ws u = Some member \<Longrightarrow>
        m = effective_of_member db c u member" for ws member
      unfolding cache_coherent_def by metis
    with Some show ?thesis
      by (auto simp: resolveEffective_def computeEffectiveForMember_def Let_def split: option.split)
  qed
  show "cache_coherent db chan (snd (resolveEffective db redis now c u)) now"
    using coh assms(2)
    by (auto simp: resolveEffective_def computeEffectiveForMember_def Let_def cache_coherent_def
        cacheGet_Set split: option.split)
qed

text \<open>The DEL pipeline of \<open>member-role.service\<close>.\<close>

definition cache_del :: "perms_cache \<Rightarrow> (id \<times> id) list \<Rightarrow> perms_cache" where
  "cache_del redis keys = map_option (\<lambda>r k. if k \<in> set keys then None else r k) redis"

lemma cacheGet_del:
  "cacheGet (cache_del redis keys) now k = (if k \<in> set keys then None else cacheGet redis now k)"
  by (auto simp: cacheGet_def cache_del_def split: option.splits)

definition live_channel :: "ws_db \<Rightarrow> channel \<Rightarrow> bool" where
  \<comment> \<open>a channel row that is not deleted, as the services load it\<close>
  "live_channel db c \<longleftrightarrow> (\<exists>row \<in> set (db_channels db). ch_id row = c_id c \<and> ch_ws row = c_workspaceId c
     \<and> ch_isPrivate row = c_isPrivate c \<and> \<not> ch_deleted row)"

definition loads_live :: "ws_db \<Rightarrow> (id \<Rightarrow> channel) \<Rightarrow> bool" where
  \<comment> \<open>every workspace channel the services load is a live row under its own id\<close>
  "loads_live db chan \<longleftrightarrow> (\<forall>ch w. c_workspaceId (chan ch) = Some w \<longrightarrow>
     live_channel db (chan ch) \<and> c_id (chan ch) = ch)"

lemma coherent_after_member_change:
  assumes coh: "cache_coherent db chan redis now"
    and live: "loads_live db chan"
    and same: "db_members db' = db_members db" "db_overrides db' = db_overrides db"
    and held: "\<And>w u. (w, u) \<noteq> (ws, target) \<Longrightarrow> held_roles db' w u = held_roles db w u"
  shows "cache_coherent db' chan (cache_del redis (invalidateMembersPermsCache db ws [target])) now"
  unfolding cache_coherent_def
proof (intro allI impI)
  fix ch u m w member
  assume hit: "cacheGet (cache_del redis (invalidateMembersPermsCache db ws [target])) now (ch, u) = Some m"
    and w: "c_workspaceId (chan ch) = Some w" and member: "find_member db' w u = Some member"
  from live w have "live_channel db (chan ch)" "c_id (chan ch) = ch"
    by (auto simp: loads_live_def)
  with w have "w = ws \<Longrightarrow>
      (ch, target) \<in> set (invalidateMembersPermsCache db ws [target])"
    by (auto simp: live_channel_def invalidateMembersPermsCache_def)
  with hit have "(w, u) \<noteq> (ws, target)" and hit': "cacheGet redis now (ch, u) = Some m"
    by (auto simp: cacheGet_del split: if_splits)
  with member held same have "find_member db w u = Some member"
    by (auto simp: find_member_def)
  with coh w hit' have "m = effective_of_member db (chan ch) u member"
    unfolding cache_coherent_def by blast
  then show "m = effective_of_member db' (chan ch) u member"
    by (simp add: effective_of_member_def channel_overrides_def same)
qed

lemma held_roles_insert_other:
  "(w, u) \<noteq> (mr_ws m, mr_user m) \<Longrightarrow>
   held_roles (db\<lparr>db_memberRoles := insert_member_role (db_memberRoles db) m\<rparr>) w u = held_roles db w u"
  by (auto simp: held_roles_def insert_member_role_def List.map_filter_def)

lemma map_filter_skip:
  "(\<And>x. p x \<Longrightarrow> f x = None) \<Longrightarrow> List.map_filter f (filter (\<lambda>x. \<not> p x) t) = List.map_filter f t"
  by (induction t) (auto simp: List.map_filter_def)

lemma held_roles_delete_other:
  assumes "(w, u) \<noteq> (ws, target)"
  shows "held_roles (db\<lparr>db_memberRoles := delete_where
      (\<lambda>m. mr_ws m = ws \<and> mr_user m = target \<and> mr_role m = rid) (db_memberRoles db)\<rparr>) w u
    = held_roles db w u"
proof -
  let ?f = "\<lambda>m. if mr_ws m = w \<and> mr_user m = u
      then find (\<lambda>r. role_id r = mr_role m) (db_roles db) else None"
  have "held_roles (db\<lparr>db_memberRoles := delete_where
      (\<lambda>m. mr_ws m = ws \<and> mr_user m = target \<and> mr_role m = rid) (db_memberRoles db)\<rparr>) w u
    = List.map_filter ?f (filter (\<lambda>m. \<not> (mr_ws m = ws \<and> mr_user m = target \<and> mr_role m = rid))
        (db_memberRoles db))"
    by (simp add: held_roles_def delete_where_def cong: if_cong)
  also have "\<dots> = List.map_filter ?f (db_memberRoles db)"
    by (rule map_filter_skip) (use assms in auto)
  finally show ?thesis by (simp add: held_roles_def)
qed

lemma coherent_assign:
  assumes "cache_coherent db chan redis now"
    and "loads_live db chan" and "role_assign db ws actor target rid = (Inr keys, db')"
  shows "cache_coherent db' chan (cache_del redis keys) now"
proof -
  from assms(3) have "keys = invalidateMembersPermsCache db ws [target]"
    and db': "db' = db\<lparr>db_memberRoles := insert_member_role (db_memberRoles db)
       \<lparr>mr_ws = ws, mr_user = target, mr_role = rid, mr_assignedBy = Some actor\<rparr>\<rparr>"
    by (auto simp: role_assign_def Let_def split: sum.splits if_splits)
  with assms(1,2) show ?thesis
    by (auto intro!: coherent_after_member_change held_roles_insert_other)
qed

lemma coherent_revoke:
  assumes "cache_coherent db chan redis now"
    and "loads_live db chan" and "role_revoke db ws actor target rid = (Inr keys, db')"
  shows "cache_coherent db' chan (cache_del redis keys) now"
proof -
  from assms(3) have "keys = invalidateMembersPermsCache db ws [target]"
    and db': "db' = db\<lparr>db_memberRoles := delete_where
       (\<lambda>m. mr_ws m = ws \<and> mr_user m = target \<and> mr_role m = rid) (db_memberRoles db)\<rparr>"
    by (auto simp: role_revoke_def Let_def split: sum.splits if_splits)
  with assms(1,2) show ?thesis
    by (auto intro!: coherent_after_member_change held_roles_delete_other)
qed

section \<open>Lemmas: mention scopes and visibility filters\<close>

lemma scope_fold_bits:
  fixes user ids s ovs
  defines "s' \<equiv> foldl (scope_step user ids) s ovs"
  defines "U \<equiv> {ov \<in> set ovs. principalType ov = USER \<and> principalId ov = user}"
    and "R \<equiv> {ov \<in> set ovs. principalType ov = ROLE \<and> principalId ov \<in> ids}"
  shows "(bit (sm_userAllow s') n \<longleftrightarrow> bit (sm_userAllow s) n \<or> ov_bit allowMask U n)
       \<and> (bit (sm_userDeny s') n \<longleftrightarrow> bit (sm_userDeny s) n \<or> ov_bit denyMask U n)
       \<and> (bit (sm_roleAllow s') n \<longleftrightarrow> bit (sm_roleAllow s) n \<or> ov_bit allowMask R n)
       \<and> (bit (sm_roleDeny s') n \<longleftrightarrow> bit (sm_roleDeny s) n \<or> ov_bit denyMask R n)"
  unfolding s'_def U_def R_def
proof (induction ovs arbitrary: s)
  case Nil
  then show ?case by (simp add: ov_bit_def)
next
  case (Cons ov ovs)
  have split: "{x \<in> set (ov # ovs). P x} = (if P ov then insert ov {x \<in> set ovs. P x} else {x \<in> set ovs. P x})"
    for P by auto
  have ins: "ov_bit sel (insert x X) k \<longleftrightarrow> bit (to_int32 (sel x)) k \<or> ov_bit sel X k" for sel x X k
    by (simp add: ov_bit_def)
  show ?case
    unfolding split foldl_Cons
    by (cases "principalType ov"; cases "principalId ov = user"; cases "principalId ov \<in> ids")
      (simp_all add: scope_step_def Cons.IH ins bit_or_iff disj_assoc)
qed

lemma foldScopeBit_pow:
  assumes "k < 32"
  shows "foldScopeBit bas (2 ^ k) masks \<longleftrightarrow> \<not> bit (sm_userDeny masks) k \<and>
    (bit (sm_userAllow masks) k \<or> \<not> bit (sm_roleDeny masks) k \<and>
      (bit (sm_roleAllow masks) k \<or> bit bas k))"
  using assms
  by (auto simp: foldScopeBit_def Let_def and_exp_eq bit_and_iff bit_or_iff bit_not_iff bit_exp_iff)

lemma MENTION_BITS: "MENTION_EVERYONE_BIT = 2 ^ 7" "MENTION_CHANNEL_BIT = 2 ^ 13"
  by (simp_all add: MENTION_EVERYONE_BIT_def MENTION_CHANNEL_BIT_def PERMISSIONS_def to_int32_def)

lemma MENTION_BASE_bits:
  "bit (MENTION_EVERYONE_ROLE_BASE role) 7 \<longleftrightarrow> role \<in> {OWNER, ADMIN, MODERATOR}"
  "bit (MENTION_CHANNEL_ROLE_BASE role) 13 \<longleftrightarrow> role \<in> {OWNER, ADMIN, MODERATOR, MEMBER}"
  by (cases role; simp add: MENTION_BITS bit_exp_iff del: power_numeral)+

lemma mention_scopes_staged:
  fixes db ch w user role ids
  defines "ovs \<equiv> channel_overrides db ch user (role_literal role # ids)"
  shows "hasMentionEveryone (resolveMentionScopes db ch (Some w) user role (Some ids)) \<longleftrightarrow>
      \<not> ov_bit denyMask (tier USER ovs) 7 \<and> (ov_bit allowMask (tier USER ovs) 7 \<or>
        \<not> ov_bit denyMask (tier ROLE ovs) 7 \<and>
        (ov_bit allowMask (tier ROLE ovs) 7 \<or> role \<in> {OWNER, ADMIN, MODERATOR}))"
    and "hasMentionChannel (resolveMentionScopes db ch (Some w) user role (Some ids)) \<longleftrightarrow>
      \<not> ov_bit denyMask (tier USER ovs) 13 \<and> (ov_bit allowMask (tier USER ovs) 13 \<or>
        \<not> ov_bit denyMask (tier ROLE ovs) 13 \<and>
        (ov_bit allowMask (tier ROLE ovs) 13 \<or> role \<in> {OWNER, ADMIN, MODERATOR, MEMBER}))"
proof -
  have tiers: "{ov \<in> set ovs. principalType ov = USER \<and> principalId ov = user} = tier USER ovs"
    "{ov \<in> set ovs. principalType ov = ROLE \<and> principalId ov \<in> set (role_literal role # ids)} = tier ROLE ovs"
    by (auto simp: tier_def ovs_def channel_overrides_set)
  note bits = scope_fold_bits [of user "set (role_literal role # ids)" _ ovs, unfolded tiers]
  show "hasMentionEveryone (resolveMentionScopes db ch (Some w) user role (Some ids)) \<longleftrightarrow>
      \<not> ov_bit denyMask (tier USER ovs) 7 \<and> (ov_bit allowMask (tier USER ovs) 7 \<or>
        \<not> ov_bit denyMask (tier ROLE ovs) 7 \<and>
        (ov_bit allowMask (tier ROLE ovs) 7 \<or> role \<in> {OWNER, ADMIN, MODERATOR}))"
    unfolding resolveMentionScopes_def preloaded_or_uuids_def Let_def ovs_def [symmetric]
    using foldScopeBit_pow [of 7] MENTION_BASE_bits(1) [of role] bits
    by (simp add: MENTION_BITS(1) ovs_def del: power_numeral)
  show "hasMentionChannel (resolveMentionScopes db ch (Some w) user role (Some ids)) \<longleftrightarrow>
      \<not> ov_bit denyMask (tier USER ovs) 13 \<and> (ov_bit allowMask (tier USER ovs) 13 \<or>
        \<not> ov_bit denyMask (tier ROLE ovs) 13 \<and>
        (ov_bit allowMask (tier ROLE ovs) 13 \<or> role \<in> {OWNER, ADMIN, MODERATOR, MEMBER}))"
    unfolding resolveMentionScopes_def preloaded_or_uuids_def Let_def ovs_def [symmetric]
    using foldScopeBit_pow [of 13] MENTION_BASE_bits(2) [of role] bits
    by (simp add: MENTION_BITS(2) ovs_def del: power_numeral)
qed

lemma held_role_ids:
  assumes "fk_ok db"
  shows "role_id ` set (held_roles db ws u) = set (memberRoleUuids db ws u)"
proof (rule set_eqI)
  fix k
  have "k \<in> role_id ` set (held_roles db ws u) \<longleftrightarrow>
      (\<exists>r \<in> set (db_roles db). role_id r = k) \<and>
      (\<exists>m \<in> set (db_memberRoles db). mr_ws m = ws \<and> mr_user m = u \<and> mr_role m = k)"
    unfolding image_iff Bex_def held_roles_iff [OF assms] by auto
  also have "\<dots> \<longleftrightarrow> (\<exists>m \<in> set (db_memberRoles db). mr_ws m = ws \<and> mr_user m = u \<and> mr_role m = k)"
    using assms unfolding fk_ok_def image_iff by metis
  also have "\<dots> \<longleftrightarrow> k \<in> set (memberRoleUuids db ws u)"
    unfolding memberRoleUuids_def set_map set_filter image_iff by auto
  finally show "k \<in> role_id ` set (held_roles db ws u) \<longleftrightarrow> k \<in> set (memberRoleUuids db ws u)" .
qed

lemma ov_bit_READ: "ov_bit allowMask ovs 0 \<longleftrightarrow> (\<exists>ov \<in> ovs. to_int32 (allowMask ov) AND P_READ = P_READ)"
  by (simp add: ov_bit_def P_READ_iff)

lemma filter_private_iff:
  "u \<in> set (filterPrivateChannelVisibleUsers db ch ws candidates) \<longleftrightarrow>
     u \<in> set candidates \<and>
     (\<exists>m \<in> set (db_members db). wm_ws m = ws \<and> wm_user m = u \<and>
       (wm_role m = OWNER \<or>
        (\<exists>ov \<in> set (db_overrides db). ov_channel ov = ch
           \<and> to_int32 (allowMask ov) AND P_READ = P_READ
           \<and> (principalType ov = USER \<and> principalId ov = u
              \<or> principalType ov = ROLE
                \<and> principalId ov \<in> set (role_literal (wm_role m) # memberRoleUuids db ws u)))))"
proof -
  define reads where "reads ov \<longleftrightarrow> ov_channel ov = ch \<and> to_int32 (allowMask ov) AND P_READ = P_READ"
    for ov :: override_row
  define rd where "rd t x \<longleftrightarrow> (\<exists>ov \<in> set (db_overrides db). reads ov \<and> principalType ov = t \<and> principalId ov = x)"
    for t x
  have rd: "x \<in> set (map principalId (filter (\<lambda>ov. principalType ov = t) (filter reads (db_overrides db))))
      \<longleftrightarrow> rd t x" for t x
    by (auto simp: rd_def)
  let ?ids = "\<lambda>m. set (role_literal (wm_role m) # memberRoleUuids db ws u)"
  have filtered: "u \<in> set (filterPrivateChannelVisibleUsers db ch ws candidates) \<longleftrightarrow>
     u \<in> set candidates \<and>
     (\<exists>m \<in> set (db_members db). wm_ws m = ws \<and> wm_user m = u \<and>
       (wm_role m = OWNER \<or> rd USER u \<or> (\<exists>rid \<in> ?ids m. rd ROLE rid)))"
    unfolding filterPrivateChannelVisibleUsers_def Let_def reads_def [symmetric] rd list_ex_iff
    by (cases "candidates = []") auto
  have grants: "rd USER u \<or> (\<exists>rid \<in> ?ids m. rd ROLE rid) \<longleftrightarrow>
      (\<exists>ov \<in> set (db_overrides db). reads ov \<and> (principalType ov = USER \<and> principalId ov = u
         \<or> principalType ov = ROLE \<and> principalId ov \<in> ?ids m))" for m
    unfolding rd_def by blast
  show ?thesis unfolding filtered grants reads_def conj_assoc ..
qed

lemma visible_users_filtered:
  assumes fk: "fk_ok db" and priv: "c_isPrivate c"
    and row: "find (\<lambda>m. wm_ws m = ws \<and> wm_user m = u) (db_members db) = Some m"
    and member: "find_member db ws u = Some member" and cand: "u \<in> set candidates"
    and sees: "bit (effective_of_member db c u member) 0"
  shows "u \<in> set (filterPrivateChannelVisibleUsers db (c_id c) ws candidates)"
proof -
  from row have m: "m \<in> set (db_members db)" "wm_ws m = ws" "wm_user m = u"
    by (auto dest: find_Some_in)
  from row member have role: "mi_role member = wm_role m"
    and roles: "mi_memberRoles member = held_roles db ws u" by (auto simp: find_member_def)
  let ?ids = "role_literal (wm_role m) # memberRoleUuids db ws u"
  have ids: "set (map role_id (mi_memberRoles member)) = set (memberRoleUuids db ws u)"
    by (simp add: roles held_role_ids [OF fk])
  have "wm_role m = OWNER
      \<or> ov_bit allowMask (tier USER (channel_overrides db (c_id c) u (role_literal (mi_role member) # map role_id (mi_memberRoles member)))) 0
      \<or> ov_bit allowMask (tier ROLE (channel_overrides db (c_id c) u (role_literal (mi_role member) # map role_id (mi_memberRoles member)))) 0"
    using sees priv role by (auto simp: effective_of_member_def fold_overrides_bit)
  then have "wm_role m = OWNER
      \<or> (\<exists>ov \<in> set (db_overrides db). ov_channel ov = c_id c \<and> to_int32 (allowMask ov) AND P_READ = P_READ
          \<and> (principalType ov = USER \<and> principalId ov = u
             \<or> principalType ov = ROLE \<and> principalId ov \<in> set ?ids))"
    using ids by (auto simp: ov_bit_READ tier_def channel_overrides_set role)
  with m cand show ?thesis by (auto simp only: filter_private_iff)
qed

section \<open>Lemmas: the private gate\<close>

definition read_granted :: "ws_db \<Rightarrow> channel \<Rightarrow> id \<Rightarrow> member_info \<Rightarrow> bool" where
  \<comment> \<open>some override that applies to the member allows READ\<close>
  "read_granted db c user member \<longleftrightarrow> list_ex (\<lambda>ov. to_int32 (allowMask ov) AND P_READ = P_READ)
     (channel_overrides db (c_id c) user
        (role_literal (mi_role member) # map role_id (mi_memberRoles member)))"

lemma private_gate_closed:
  assumes "c_isPrivate c" and "mi_role member \<noteq> OWNER" and "\<not> read_granted db c user member"
  shows "\<not> bit (effective_of_member db c user member) 0"
  using assms unfolding effective_of_member_def fold_overrides_bit read_granted_def ov_bit_READ
  by (auto simp: tier_def list_ex_iff)

section \<open>Properties\<close>

abbreviation example_channel :: channel where
  "example_channel \<equiv> \<lparr>c_id = ''c'', c_workspaceId = Some ''w'', c_isPrivate = True\<rparr>"

abbreviation bob_info :: member_info where
  "bob_info \<equiv> \<lparr>mi_role = MEMBER, mi_memberRoles = [db_roles example_db ! 0]\<rparr>"

lemma bob_member: "find_member example_db ''w'' ''bob'' = Some bob_info" by code_simp

text \<open>C3: For members that hold no custom role (no role row at all, or only the row of their
  system role with no override on its uuid), the gates' mask over the override table is the one
  the permission matrix computes from the channel's overrides: custom roles changed nothing for
  them.\<close>

theorem effective_is_matrix:
  assumes "system_roles_only db c member"
  shows "effective_of_member db c user member = matrix_effective (matrix_input db c user (mi_role member))"
  by (rule effective_matches_matrix [OF assms])

theorem effective_is_matrix_witness:
  "effective_of_member example_db example_channel ''ann''
      \<lparr>mi_role = OWNER, mi_memberRoles = [db_roles example_db ! 1]\<rparr>
   = matrix_effective (matrix_input example_db example_channel ''ann'' OWNER)"
proof -
  have "system_roles_only example_db example_channel \<lparr>mi_role = OWNER, mi_memberRoles = [db_roles example_db ! 1]\<rparr>"
    by code_simp
  from effective_is_matrix [OF this, of "''ann''"] show ?thesis by simp
qed

text \<open>C23: The permission cache is transparent: while every entry it would return is what the
  tables give, a lookup answers what the uncached computation answers (errors included), and
  the entry it writes keeps the cache coherent, now and at any later time.\<close>

theorem cache_is_transparent:
  assumes "cache_coherent db chan redis now" and "chan (c_id c) = c" and "now \<le> later"
  shows "fst (resolveEffective db redis now c u) = fst (resolveEffective db None now c u)
    \<and> cache_coherent db chan (snd (resolveEffective db redis now c u)) later"
  using cache_transparent [where chan = chan, OF assms(1,2), of u] cache_coherent_later [OF _ assms(3)]
  by blast

theorem cache_is_transparent_witness:
  "fst (resolveEffective example_db (Some Map.empty) 0 example_channel ''bob'')
     = fst (resolveEffective example_db None 0 example_channel ''bob'')"
proof -
  have "cache_coherent example_db (\<lambda>_. example_channel) (Some Map.empty) 0"
    by (simp add: cache_coherent_def cacheGet_def)
  from cache_is_transparent [where chan = "\<lambda>_. example_channel", OF this, of example_channel 0 "''bob''"]
  show ?thesis by simp
qed

text \<open>C24: No stale permissions after a grant changes: when \<open>assign\<close> or \<open>revoke\<close> succeeds and the
  cache keys it returns are deleted, a coherent cache is coherent with the new tables, for
  every channel and user, although only the keys of the target on the live channels of the
  workspace are dropped.\<close>

theorem cache_coherent_after_grant_change:
  assumes "cache_coherent db chan redis now"
    and "loads_live db chan"
    and "role_assign db ws actor target rid = (Inr keys, db')
       \<or> role_revoke db ws actor target rid = (Inr keys, db')"
  shows "cache_coherent db' chan (cache_del redis keys) now"
  using assms(3) coherent_assign [OF assms(1,2)] coherent_revoke [OF assms(1,2)] by blast

abbreviation example_channels :: "id \<Rightarrow> channel" where
  "example_channels \<equiv> \<lambda>ch. if ch = ''c'' then example_channel
     else \<lparr>c_id = ch, c_workspaceId = None, c_isPrivate = True\<rparr>"

abbreviation example_cache :: perms_cache where
  \<comment> \<open>the entry \<open>resolveEffective\<close> writes for \<open>bob\<close>\<close>
  "example_cache \<equiv> snd (resolveEffective example_db (Some Map.empty) 0 example_channel ''bob'')"

theorem cache_coherent_after_grant_change_witness:
  "\<exists>keys db'. role_revoke example_db ''w'' ''ann'' ''bob'' ''mod'' = (Inr keys, db')
     \<and> cacheGet example_cache 0 (''c'', ''bob'') = Some 3
     \<and> cache_coherent db' example_channels (cache_del example_cache keys) 0"
proof -
  let ?r = "role_revoke example_db ''w'' ''ann'' ''bob'' ''mod''"
  have "fst ?r = Inr [(''c'', ''bob'')]" by code_simp
  then have r: "?r = (Inr [(''c'', ''bob'')], snd ?r)" by (metis prod.collapse)
  have "loads_live example_db example_channels"
    by (simp add: loads_live_def live_channel_def example_db_def)
  moreover have "cache_coherent example_db example_channels example_cache 0"
    by (rule cache_transparent) (simp_all add: cache_coherent_def cacheGet_def)
  moreover have "cacheGet example_cache 0 (''c'', ''bob'') = Some 3" by code_simp
  ultimately show ?thesis
    using r cache_coherent_after_grant_change [of example_db example_channels example_cache 0] by blast
qed

text \<open>The private gate is closed: on a private channel, a member who is not the OWNER and to
  whom no override grants READ is refused by \<open>requireVisibility\<close> with CHANNEL_NOT_VISIBLE,
  whatever his roles are. ADMINISTRATOR is no exception, although the catalogue calls the bit
  exempt from channel overwrites.\<close>

lemma private_channel_hidden:
  assumes "c_isPrivate c" and "c_workspaceId c = Some ws" and "find_member db ws u = Some member"
    and "mi_role member \<noteq> OWNER" and "\<not> read_granted db c u member"
  shows "fst (requireVisibility db None now c u) = Inl CHANNEL_NOT_VISIBLE"
proof -
  have "fst (resolveEffective db None now c u) = Inr (effective_of_member db c u member)"
    using assms(2,3) by (simp add: resolveEffective_def computeEffectiveForMember_def Let_def)
  moreover have "effective_of_member db c u member AND P_READ \<noteq> P_READ"
    using private_gate_closed [OF assms(1,4,5)] by (simp add: P_READ_iff)
  ultimately show ?thesis
    using assms(1) by (auto simp: requireVisibility_def requirePermission_def split: prod.splits)
qed

lemma private_channel_hidden_example:
  "fst (requireVisibility (example_db\<lparr>db_overrides := []\<rparr>) None 0 example_channel ''bob'')
     = Inl CHANNEL_NOT_VISIBLE"
proof -
  have "find_member (example_db\<lparr>db_overrides := []\<rparr>) ''w'' ''bob'' = Some bob_info"
    "\<not> read_granted (example_db\<lparr>db_overrides := []\<rparr>) example_channel ''bob'' bob_info" by code_simp+
  then show ?thesis
    using private_channel_hidden [of example_channel "''w''" "example_db\<lparr>db_overrides := []\<rparr>" "''bob''" bob_info]
    by simp
qed

text \<open>The scopes of \<open>@everyone\<close> and \<open>@channel\<close> follow the same precedence as the
  permission matrix on bits 7 and 13: own deny, own allow, role deny, role allow, then the
  role's default (moderators and above may mention everyone, all but guests the channel).\<close>

lemma mention_scopes_precedence:
  "(hasMentionEveryone (resolveMentionScopes db ch (Some w) user role (Some ids)) \<longleftrightarrow>
      (let ovs = channel_overrides db ch user (role_literal role # ids) in
      \<not> ov_bit denyMask (tier USER ovs) 7 \<and> (ov_bit allowMask (tier USER ovs) 7 \<or>
        \<not> ov_bit denyMask (tier ROLE ovs) 7 \<and>
        (ov_bit allowMask (tier ROLE ovs) 7 \<or> role \<in> {OWNER, ADMIN, MODERATOR})))) \<and>
   (hasMentionChannel (resolveMentionScopes db ch (Some w) user role (Some ids)) \<longleftrightarrow>
      (let ovs = channel_overrides db ch user (role_literal role # ids) in
      \<not> ov_bit denyMask (tier USER ovs) 13 \<and> (ov_bit allowMask (tier USER ovs) 13 \<or>
        \<not> ov_bit denyMask (tier ROLE ovs) 13 \<and>
        (ov_bit allowMask (tier ROLE ovs) 13 \<or> role \<in> {OWNER, ADMIN, MODERATOR, MEMBER}))))"
  unfolding mention_scopes_staged Let_def by (rule conjI refl)+

text \<open>The visibility filter of the mention fan-out misses nobody: on a private channel, every
  candidate whose effective mask holds READ is kept by the single-query filter. (It may keep
  more: a denied READ is not looked at, see \<open>filter_ignores_read_deny\<close>.)\<close>

lemma visible_members_survive_filter:
  assumes "fk_ok db" and "c_isPrivate c"
    and "find (\<lambda>m. wm_ws m = ws \<and> wm_user m = u) (db_members db) = Some m"
    and "find_member db ws u = Some member" and "u \<in> set candidates"
    and "bit (effective_of_member db c u member) 0"
  shows "u \<in> set (filterPrivateChannelVisibleUsers db (c_id c) ws candidates)"
  by (rule visible_users_filtered [OF assms])

lemma visible_members_survive_filter_example:
  "''bob'' \<in> set (filterPrivateChannelVisibleUsers example_db ''c'' ''w'' [''bob'', ''zed''])"
proof -
  have "fk_ok example_db" "bit (effective_of_member example_db example_channel ''bob'' bob_info) 0"
    "find (\<lambda>m. wm_ws m = ''w'' \<and> wm_user m = ''bob'') (db_members example_db)
       = Some \<lparr>wm_ws = ''w'', wm_user = ''bob'', wm_role = MEMBER\<rparr>" by code_simp+
  then show ?thesis
    using visible_members_survive_filter [of example_db example_channel "''w''" "''bob''"
        "\<lparr>wm_ws = ''w'', wm_user = ''bob'', wm_role = MEMBER\<rparr>" bob_info "[''bob'', ''zed'']"] bob_member
    by simp
qed

text \<open>A user with a READ allow and a READ deny on a private channel cannot see it, but the filter
  of the mention fan-out lists him.\<close>

definition denied_db :: ws_db where
  "denied_db = example_db\<lparr>db_overrides :=
     [\<lparr>principalType = USER, principalId = ''bob'', allowMask = 1, denyMask = 1, ov_channel = ''c''\<rparr>]\<rparr>"

lemma filter_ignores_read_deny:
  "fst (requireVisibility denied_db None 0 example_channel ''bob'') = Inl CHANNEL_NOT_VISIBLE
   \<and> filterPrivateChannelVisibleUsers denied_db ''c'' ''w'' [''bob''] = [''bob'']"
  by code_simp

end
