(* ===== verification/Viewport_Lru.thy ===== *)
theory Viewport_Lru
  imports Qufox_Prelude
begin

text \<open>
  Two bounded client caches: the LRU order of the channels whose message lists are cached
  (\<open>features/messages/channelLruCache.ts\<close>, the store of \<open>features/realtime/channelLru.ts\<close>) and
  the presence subscription of the users in the viewport (\<open>features/realtime/viewportPresence.ts\<close>).
  A JavaScript \<open>Set\<close> is a list without repetition in insertion order. A tracker's timer is only
  whether it waits; the debounce delay carries no logic.
\<close>

section \<open>Channels\<close>

definition touchChannel :: "id list \<Rightarrow> id \<Rightarrow> int \<Rightarrow> id list \<times> id list" where
  \<comment> \<open>the new order and the evicted keys\<close>
  "touchChannel order entered max_size =
     (let cap = nat (max 1 max_size);
          without = filter (\<lambda>k. k \<noteq> entered) order;
          nxt = without @ [entered]
      in if length nxt \<le> cap then (nxt, [])
         else let overflow = length nxt - cap in (drop overflow nxt, take overflow nxt))"

record lru_state =
  lru_order :: "id list"
  lru_pendingAround :: "id list"

definition set_add :: "id list \<Rightarrow> id \<Rightarrow> id list" where
  "set_add s x = (if x \<in> set s then s else s @ [x])"

definition lru_enter :: "lru_state \<Rightarrow> id \<Rightarrow> int \<Rightarrow> id list \<times> lru_state" where
  "lru_enter s key max_size =
     (let (order, evicted) = touchChannel (lru_order s) key max_size
      in if evicted = [] then ([], s\<lparr>lru_order := order\<rparr>)
         else (evicted, s\<lparr>lru_order := order,
                 lru_pendingAround := foldl set_add (lru_pendingAround s) evicted\<rparr>))"

definition peekAround :: "lru_state \<Rightarrow> id \<Rightarrow> bool" where
  "peekAround s key \<longleftrightarrow> key \<in> set (lru_pendingAround s)"

definition clearAround :: "lru_state \<Rightarrow> id \<Rightarrow> lru_state" where
  "clearAround s key = (if key \<notin> set (lru_pendingAround s) then s
     else s\<lparr>lru_pendingAround := filter (\<lambda>k. k \<noteq> key) (lru_pendingAround s)\<rparr>)"

section \<open>Viewport presence\<close>

definition PRESENCE_VIEWPORT_SUBSCRIBE_CHUNK :: int where "PRESENCE_VIEWPORT_SUBSCRIBE_CHUNK = 100"

function chunk_from :: "nat \<Rightarrow> id list \<Rightarrow> id list list" where
  "chunk_from n xs = (if xs = [] \<or> n = 0 then [] else take n xs # chunk_from n (drop n xs))"
  by auto
termination by (relation "measure (\<lambda>(n, xs). length xs)") auto

declare chunk_from.simps [simp del]

definition chunkUserIds :: "id list \<Rightarrow> int \<Rightarrow> id list list" where
  "chunkUserIds user_ids csize =
     (let chunk_size = (if csize > 0 then csize else PRESENCE_VIEWPORT_SUBSCRIBE_CHUNK)
      in chunk_from (nat chunk_size) user_ids)"

datatype presence_emit = Subscribe "id list" | Unsubscribe "id list"

record viewport =
  vp_visible :: "id list"
  vp_subscribed :: "id list"
  vp_timer :: bool
  vp_emitted :: "presence_emit list"

definition initial_viewport :: viewport where
  "initial_viewport = \<lparr>vp_visible = [], vp_subscribed = [], vp_timer = False, vp_emitted = []\<rparr>"

definition scheduleFlush :: "viewport \<Rightarrow> viewport" where
  "scheduleFlush v = v\<lparr>vp_timer := True\<rparr>"

definition viewport_enter :: "viewport \<Rightarrow> id \<Rightarrow> viewport" where
  "viewport_enter v u = (if u \<in> set (vp_visible v) then v
     else scheduleFlush (v\<lparr>vp_visible := vp_visible v @ [u]\<rparr>))"

definition viewport_leave :: "viewport \<Rightarrow> id \<Rightarrow> viewport" where
  "viewport_leave v u = (if u \<notin> set (vp_visible v) then v
     else scheduleFlush (v\<lparr>vp_visible := filter (\<lambda>x. x \<noteq> u) (vp_visible v)\<rparr>))"

definition viewport_flush :: "int \<Rightarrow> viewport \<Rightarrow> viewport" where
  "viewport_flush csize v =
     (let to_sub = filter (\<lambda>u. u \<notin> set (vp_subscribed v)) (vp_visible v);
          to_unsub = filter (\<lambda>u. u \<notin> set (vp_visible v)) (vp_subscribed v);
          v1 = (if to_unsub = [] then v
                else v\<lparr>vp_subscribed := filter (\<lambda>u. u \<notin> set to_unsub) (vp_subscribed v),
                       vp_emitted := vp_emitted v @ [Unsubscribe to_unsub]\<rparr>)
      in if to_sub = [] then v1
         else v1\<lparr>vp_subscribed := foldl set_add (vp_subscribed v1) to_sub,
                 vp_emitted := vp_emitted v1 @ map Subscribe (chunkUserIds to_sub csize)\<rparr>)"

definition viewport_reset :: "viewport \<Rightarrow> viewport" where
  "viewport_reset v =
     (let stale = vp_subscribed v
      in \<lparr>vp_visible = [], vp_subscribed = [], vp_timer = False,
          vp_emitted = vp_emitted v @ (if stale = [] then [] else [Unsubscribe stale])\<rparr>)"

datatype viewport_input = Enter id | Leave id | TimerFires | Reset

fun viewport_step :: "int \<Rightarrow> viewport \<Rightarrow> viewport_input \<Rightarrow> viewport" where
  "viewport_step csize v (Enter u) = viewport_enter v u"
| "viewport_step csize v (Leave u) = viewport_leave v u"
| "viewport_step csize v TimerFires =
     (if vp_timer v then viewport_flush csize (v\<lparr>vp_timer := False\<rparr>) else v)"
| "viewport_step csize v Reset = viewport_reset v"

section \<open>Lemmas\<close>

lemma set_foldl_add [simp]: "set (foldl set_add s xs) = set s \<union> set xs"
  by (induction xs arbitrary: s) (auto simp: set_add_def)

lemma distinct_foldl_add [simp]: "distinct s \<Longrightarrow> distinct (foldl set_add s xs)"
  by (induction xs arbitrary: s) (auto simp: set_add_def)

lemma concat_chunk_from: "0 < n \<Longrightarrow> concat (chunk_from n xs) = xs"
  by (induction n xs rule: chunk_from.induct) (subst chunk_from.simps, simp)

lemma chunk_from_size: "c \<in> set (chunk_from n xs) \<Longrightarrow> c \<noteq> [] \<and> length c \<le> n"
  by (induction n xs rule: chunk_from.induct)
    (subst (asm) (2) chunk_from.simps, auto split: if_splits)

lemma chunk_size_pos: "0 < nat (if csize > 0 then csize else PRESENCE_VIEWPORT_SUBSCRIBE_CHUNK)"
  by (simp add: PRESENCE_VIEWPORT_SUBSCRIBE_CHUNK_def)

lemma concat_chunkUserIds: "concat (chunkUserIds xs csize) = xs"
  unfolding chunkUserIds_def Let_def by (rule concat_chunk_from [OF chunk_size_pos])

text \<open>What the gateway holds after a sequence of requests.\<close>

fun watch :: "id set \<Rightarrow> presence_emit \<Rightarrow> id set" where
  "watch w (Subscribe us) = w \<union> set us"
| "watch w (Unsubscribe us) = w - set us"

definition watched :: "viewport \<Rightarrow> id set" where
  "watched v = foldl watch {} (vp_emitted v)"

lemma watch_subscribes: "foldl watch w (map Subscribe cs) = w \<union> set (concat cs)"
  by (induction cs arbitrary: w) auto

definition request_ok :: "int \<Rightarrow> presence_emit \<Rightarrow> bool" where
  "request_ok csize e = (case e of Subscribe us \<Rightarrow> us \<noteq> [] \<and> int (length us) \<le> csize | Unsubscribe us \<Rightarrow> us \<noteq> [])"

definition viewport_inv :: "int \<Rightarrow> viewport \<Rightarrow> bool" where
  "viewport_inv csize v \<longleftrightarrow> watched v = set (vp_subscribed v)
     \<and> (vp_timer v \<or> set (vp_visible v) = set (vp_subscribed v))
     \<and> (0 < csize \<longrightarrow> list_all (request_ok csize) (vp_emitted v))"

lemma chunks_ok: "0 < csize \<Longrightarrow> list_all (request_ok csize) (map Subscribe (chunkUserIds xs csize))"
  using chunk_from_size [of _ "nat csize" xs]
  by (force simp: list_all_iff request_ok_def chunkUserIds_def)

lemma flush_inv:
  assumes "watched v = set (vp_subscribed v)"
    and "0 < csize \<longrightarrow> list_all (request_ok csize) (vp_emitted v)"
  shows "viewport_inv csize (viewport_flush csize v)"
    and "set (vp_visible (viewport_flush csize v)) = set (vp_subscribed (viewport_flush csize v))"
proof -
  define sub where "sub = filter (\<lambda>u. u \<notin> set (vp_subscribed v)) (vp_visible v)"
  define un where "un = filter (\<lambda>u. u \<notin> set (vp_visible v)) (vp_subscribed v)"
  have w: "watched (viewport_flush csize v) = (watched v - set un) \<union> set sub"
    by (cases "un = []"; cases "sub = []")
      (simp_all add: viewport_flush_def Let_def watched_def watch_subscribes concat_chunkUserIds
        sub_def [symmetric] un_def [symmetric])
  have "filter (\<lambda>u. u \<notin> set un) (vp_subscribed v) = vp_subscribed v" if "un = []"
    using that by simp
  then have s: "set (vp_subscribed (viewport_flush csize v)) = (set (vp_subscribed v) - set un) \<union> set sub"
    by (cases "un = []"; cases "sub = []")
      (auto simp: viewport_flush_def Let_def sub_def [symmetric] un_def [symmetric])
  have vis: "vp_visible (viewport_flush csize v) = vp_visible v"
    by (simp add: viewport_flush_def Let_def)
  show eq: "set (vp_visible (viewport_flush csize v)) = set (vp_subscribed (viewport_flush csize v))"
    unfolding s vis by (auto simp: sub_def un_def)
  have "0 < csize \<longrightarrow> list_all (request_ok csize) (vp_emitted (viewport_flush csize v))"
    using assms(2) chunks_ok [of csize sub]
    by (simp add: viewport_flush_def Let_def request_ok_def sub_def [symmetric] un_def [symmetric])
  with w s eq assms(1) show "viewport_inv csize (viewport_flush csize v)"
    by (simp add: viewport_inv_def)
qed

interpretation viewport: invariant_machine "viewport_step csize" "viewport_inv csize" "\<lambda>_. True" for csize
proof unfold_locales
  fix v i
  assume v: "viewport_inv csize v"
  show "viewport_inv csize (viewport_step csize v i)"
  proof (cases i)
    case TimerFires
    have "viewport_inv csize (viewport_flush csize (v\<lparr>vp_timer := False\<rparr>))"
      by (rule flush_inv) (use v in \<open>simp_all add: viewport_inv_def watched_def\<close>)
    with TimerFires v show ?thesis by simp
  next
    case Reset
    with v show ?thesis
      by (auto simp: viewport_reset_def Let_def viewport_inv_def watched_def request_ok_def)
  qed (use v in \<open>auto simp: viewport_enter_def viewport_leave_def scheduleFlush_def viewport_inv_def watched_def\<close>)
qed

section \<open>Properties\<close>

text \<open>Entering a channel keeps the LRU cache within its size and loses no key silently: the new
  order ends with the entered channel, is at most the limit long (a limit below one counts as
  one), has no repetition, and the evicted keys followed by the new order are the old order
  without the entered channel, followed by it; so exactly the oldest keys are evicted, never
  the entered one.\<close>

lemma lru_touch_correct:
  assumes "distinct order" and "touchChannel order entered max_size = (order', evicted)"
  shows "evicted @ order' = filter (\<lambda>k. k \<noteq> entered) order @ [entered]
    \<and> int (length order') \<le> max 1 max_size \<and> distinct (evicted @ order') \<and> List.last order' = entered
    \<and> entered \<notin> set evicted"
proof -
  have split: "evicted @ order' = filter (\<lambda>k. k \<noteq> entered) order @ [entered]"
    and len: "int (length order') \<le> max 1 max_size" and ne: "order' \<noteq> []"
    using assms(2) by (auto simp: touchChannel_def Let_def split: if_splits)
  from split assms(1) have d: "distinct (evicted @ order')" by simp
  from split ne have l: "List.last order' = entered"
    by (metis last_appendR last_snoc)
  with d ne have "entered \<notin> set evicted" using last_in_set [OF ne] by auto
  with split len d l show ?thesis by blast
qed

lemma lru_touch_correct_example:
  "touchChannel [''a'', ''b'', ''c''] ''d'' 3 = ([''b'', ''c'', ''d''], [''a'']) \<and> ''d'' \<notin> set [''a'']"
proof -
  have t: "touchChannel [''a'', ''b'', ''c''] ''d'' 3 = ([''b'', ''c'', ''d''], [''a''])" by code_simp
  with lru_touch_correct [OF _ t] show ?thesis by simp
qed



end
