(* ===== verification/Auth_Tokens.thy ===== *)
theory Auth_Tokens
  imports Qufox_Prelude
begin

text \<open>
  Refresh tokens and sessions: \<open>apps/api/src/auth/services/token.service.ts\<close> over the table
  RefreshToken. The hash of a raw token, the random raw tokens, the generated ids and the clock
  are arguments; access tokens (a JWT library) are not modelled. A session is a family of
  tokens: rotation revokes one and adds the next.
\<close>

section \<open>Table and operations\<close>

record token_meta =
  tm_userAgent :: "id option"
  tm_ip :: "id option"

record token_row =
  rt_id :: id
  rt_user :: id
  rt_hash :: id
  rt_family :: id
  rt_parent :: "id option"
  rt_userAgent :: "id option"
  rt_ip :: "id option"
  rt_expiresAt :: msec
  rt_revokedAt :: "msec option"
  rt_replacedAt :: "msec option"
  rt_lastSeenAt :: "msec option"
  rt_createdAt :: msec

record token_db =
  td_tokens :: "token_row list"
  td_events :: "(id \<times> id) list"  \<comment> \<open>SESSION_COMPROMISED: user, family\<close>

datatype token_failure = Denied error_code | UniqueViolation

definition insert_token :: "token_row \<Rightarrow> token_db \<Rightarrow> (token_failure + unit) \<times> token_db" where
  \<comment> \<open>\<open>refreshToken.create\<close>: id and hash are unique\<close>
  "insert_token r s =
     (if rt_id r \<in> rt_id ` set (td_tokens s) \<or> rt_hash r \<in> rt_hash ` set (td_tokens s)
      then (Inl UniqueViolation, s) else (Inr (), s\<lparr>td_tokens := td_tokens s @ [r]\<rparr>))"

definition revoke_where :: "(token_row \<Rightarrow> bool) \<Rightarrow> msec \<Rightarrow> token_db \<Rightarrow> token_db" where
  \<comment> \<open>\<open>updateMany\<close> on the rows not revoked yet\<close>
  "revoke_where p now s =
     s\<lparr>td_tokens := update_where (\<lambda>r. p r \<and> rt_revokedAt r = None) (rt_revokedAt_update (\<lambda>_. Some now))
                     (td_tokens s)\<rparr>"

definition issueRefreshForNewSession ::
  "(id \<Rightarrow> id) \<Rightarrow> int \<Rightarrow> id \<Rightarrow> id \<Rightarrow> id \<Rightarrow> msec \<Rightarrow> id \<Rightarrow> token_meta \<Rightarrow> token_db \<Rightarrow>
   (token_failure + id \<times> id) \<times> token_db" where
  "issueRefreshForNewSession hash ttl new_id family raw now user meta s =
     (case insert_token \<lparr>rt_id = new_id, rt_user = user, rt_hash = hash raw, rt_family = family,
             rt_parent = None, rt_userAgent = tm_userAgent meta, rt_ip = tm_ip meta,
             rt_expiresAt = now + ttl * 1000, rt_revokedAt = None, rt_replacedAt = None,
             rt_lastSeenAt = None, rt_createdAt = now\<rparr> s of
        (Inl e, s') \<Rightarrow> (Inl e, s')
      | (Inr _, s') \<Rightarrow> (Inr (raw, family), s'))"

text \<open>
  \<open>rotate\<close> reads the record and decides before its transaction starts; the two parts are
  \<open>rotate_read\<close> and \<open>rotate_commit\<close>, which another request may separate.
\<close>

definition rotate_read ::
  "(id \<Rightarrow> id) \<Rightarrow> id \<Rightarrow> msec \<Rightarrow> token_db \<Rightarrow> (token_failure + token_row) \<times> token_db" where
  "rotate_read hash raw now s =
     (case find (\<lambda>r. rt_hash r = hash raw) (td_tokens s) of
        None \<Rightarrow> (Inl (Denied AUTH_INVALID_TOKEN), s)
      | Some rec \<Rightarrow>
          if rt_expiresAt rec \<le> now then (Inl (Denied AUTH_INVALID_TOKEN), s)
          else if rt_revokedAt rec \<noteq> None
          then (Inl (Denied AUTH_SESSION_COMPROMISED),
                (revoke_where (\<lambda>r. rt_family r = rt_family rec) now s)
                  \<lparr>td_events := td_events s @ [(rt_user rec, rt_family rec)]\<rparr>)
          else (Inr rec, s))"

definition rotated_row ::
  "(id \<Rightarrow> id) \<Rightarrow> int \<Rightarrow> id \<Rightarrow> id \<Rightarrow> msec \<Rightarrow> token_meta \<Rightarrow> token_row \<Rightarrow> token_row" where
  "rotated_row hash ttl new_id new_raw now meta rec =
     \<lparr>rt_id = new_id, rt_user = rt_user rec, rt_hash = hash new_raw,
      rt_family = rt_family rec, rt_parent = Some (rt_id rec),
      rt_userAgent = tm_userAgent meta, rt_ip = tm_ip meta, rt_expiresAt = now + ttl * 1000,
      rt_revokedAt = None, rt_replacedAt = None, rt_lastSeenAt = Some now,
      rt_createdAt = now\<rparr>"

definition rotate_commit ::
  "(id \<Rightarrow> id) \<Rightarrow> int \<Rightarrow> id \<Rightarrow> id \<Rightarrow> msec \<Rightarrow> token_meta \<Rightarrow> token_row \<Rightarrow> token_db \<Rightarrow>
   (token_failure + id \<times> id \<times> id) \<times> token_db" where
  "rotate_commit hash ttl new_id new_raw now meta rec =
     transaction (\<lambda>s.
       let s1 = s\<lparr>td_tokens := update_where (\<lambda>r. rt_id r = rt_id rec)
                   (\<lambda>r. r\<lparr>rt_revokedAt := Some now, rt_replacedAt := Some now\<rparr>) (td_tokens s)\<rparr>
       in case insert_token (rotated_row hash ttl new_id new_raw now meta rec) s1 of
            (Inl e, s2) \<Rightarrow> (Inl e, s2)
          | (Inr _, s2) \<Rightarrow> (Inr (new_raw, rt_user rec, rt_family rec), s2))"

definition rotate_token ::
  "(id \<Rightarrow> id) \<Rightarrow> int \<Rightarrow> id \<Rightarrow> id \<Rightarrow> id \<Rightarrow> msec \<Rightarrow> token_meta \<Rightarrow> token_db \<Rightarrow>
   (token_failure + id \<times> id \<times> id) \<times> token_db" where
  "rotate_token hash ttl new_id new_raw raw now meta s =
     (case rotate_read hash raw now s of
        (Inl e, s') \<Rightarrow> (Inl e, s')
      | (Inr rec, s') \<Rightarrow> rotate_commit hash ttl new_id new_raw now meta rec s')"

definition revokeRaw :: "(id \<Rightarrow> id) \<Rightarrow> id \<Rightarrow> msec \<Rightarrow> token_db \<Rightarrow> token_db" where
  "revokeRaw hash raw now s = revoke_where (\<lambda>r. rt_hash r = hash raw) now s"

definition familyIdForRaw :: "(id \<Rightarrow> id) \<Rightarrow> id \<Rightarrow> msec \<Rightarrow> token_db \<Rightarrow> id option" where
  "familyIdForRaw hash raw now s =
     map_option rt_family
       (find (\<lambda>r. rt_hash r = hash raw \<and> rt_revokedAt r = None \<and> rt_expiresAt r > now) (td_tokens s))"

definition is_active :: "msec \<Rightarrow> token_row \<Rightarrow> bool" where
  "is_active now r \<longleftrightarrow> rt_revokedAt r = None \<and> rt_expiresAt r > now"

text \<open>The loop over the rows, newest first, that keeps the first row of each family.\<close>

fun first_per_family :: "id list \<Rightarrow> token_row list \<Rightarrow> token_row list" where
  "first_per_family seen [] = []"
| "first_per_family seen (r # rs) =
     (if rt_family r \<in> set seen then first_per_family seen rs
      else r # first_per_family (rt_family r # seen) rs)"

definition listSessions :: "id \<Rightarrow> msec \<Rightarrow> token_db \<Rightarrow> token_row list" where
  "listSessions user now s =
     first_per_family []
       (sort_key (\<lambda>r. - rt_createdAt r) (filter (\<lambda>r. rt_user r = user \<and> is_active now r) (td_tokens s)))"

definition revokeSession :: "id \<Rightarrow> id \<Rightarrow> msec \<Rightarrow> token_db \<Rightarrow> (error_code + unit) \<times> token_db" where
  "revokeSession user session now s =
     (case find (\<lambda>r. rt_id r = session \<and> rt_user r = user) (td_tokens s) of
        None \<Rightarrow> (Inl SESSION_NOT_FOUND, s)
      | Some rec \<Rightarrow> (Inr (), revoke_where (\<lambda>r. rt_family r = rt_family rec) now s))"

definition revokeAllExceptFamily :: "id \<Rightarrow> id option \<Rightarrow> msec \<Rightarrow> token_db \<Rightarrow> nat \<times> token_db" where
  "revokeAllExceptFamily user except now s =
     (let p = (\<lambda>r. rt_user r = user \<and>
           (case except of None \<Rightarrow> True | Some f \<Rightarrow> if f = [] then True else rt_family r \<noteq> f))
      in (length (filter (\<lambda>r. p r \<and> rt_revokedAt r = None) (td_tokens s)), revoke_where p now s))"

section \<open>The step relation\<close>

text \<open>
  One request after the other, with any arguments; a new session gets a family id that is not
  in use (a random uuid).
\<close>

inductive token_step :: "(id \<Rightarrow> id) \<Rightarrow> int \<Rightarrow> token_db \<Rightarrow> token_db \<Rightarrow> bool" for hash ttl where
  step_issue: "family \<notin> rt_family ` set (td_tokens s) \<Longrightarrow>
     token_step hash ttl s (snd (issueRefreshForNewSession hash ttl new_id family raw now user meta s))"
| step_rotate: "token_step hash ttl s (snd (rotate_token hash ttl new_id new_raw raw now meta s))"
| step_revokeRaw: "token_step hash ttl s (revokeRaw hash raw now s)"
| step_revokeSession: "token_step hash ttl s (snd (revokeSession user session now s))"
| step_revokeAll: "token_step hash ttl s (snd (revokeAllExceptFamily user except now s))"

inductive_cases token_stepE: "token_step hash ttl s s'"

section \<open>Lemmas\<close>

definition live_in :: "id \<Rightarrow> token_db \<Rightarrow> token_row set" where
  "live_in family s = {r \<in> set (td_tokens s). rt_family r = family \<and> rt_revokedAt r = None}"

definition owners :: "token_db \<Rightarrow> (id \<times> id) set" where
  "owners s = (\<lambda>r. (rt_family r, rt_user r)) ` set (td_tokens s)"

text \<open>Keys are unique, a family has one owner and at most one token that is not revoked.\<close>

definition tokens_ok :: "token_db \<Rightarrow> bool" where
  "tokens_ok s \<longleftrightarrow> distinct (map rt_id (td_tokens s)) \<and> distinct (map rt_hash (td_tokens s))
     \<and> single_valued (owners s) \<and> (\<forall>f. \<exists>r. live_in f s \<subseteq> {r})"

lemma map_revoke_where [simp]:
  "map rt_id (td_tokens (revoke_where p now s)) = map rt_id (td_tokens s)"
  "map rt_hash (td_tokens (revoke_where p now s)) = map rt_hash (td_tokens s)"
  by (simp_all add: revoke_where_def map_update_where)

lemma owners_revoke_where [simp]: "owners (revoke_where p now s) = owners s"
proof -
  have "map (\<lambda>r. (rt_family r, rt_user r)) (td_tokens (revoke_where p now s))
      = map (\<lambda>r. (rt_family r, rt_user r)) (td_tokens s)"
    by (simp add: revoke_where_def map_update_where)
  from arg_cong [OF this, of set] show ?thesis by (simp add: owners_def)
qed

lemma live_revoke_where [simp]: "live_in f (revoke_where p now s) = {r \<in> live_in f s. \<not> p r}"
  by (auto simp: live_in_def revoke_where_def set_update_where)

lemma tokens_ok_revoke: "tokens_ok s \<Longrightarrow> tokens_ok (revoke_where p now s)"
proof -
  assume ok: "tokens_ok s"
  have "\<exists>r. live_in f (revoke_where p now s) \<subseteq> {r}" for f
  proof -
    from ok obtain r where "live_in f s \<subseteq> {r}" by (auto simp: tokens_ok_def)
    then show ?thesis by auto
  qed
  with ok show ?thesis by (simp add: tokens_ok_def del: live_revoke_where)
qed

lemma events_keep [simp]:
  "live_in f (s\<lparr>td_events := es\<rparr>) = live_in f s" "owners (s\<lparr>td_events := es\<rparr>) = owners s"
  by (simp_all add: live_in_def owners_def)

lemma tokens_ok_events [simp]: "tokens_ok (s\<lparr>td_events := es\<rparr>) = tokens_ok s"
  by (simp add: tokens_ok_def)

text \<open>A row is added to a family without a live token.\<close>

lemma insert_token_cases:
  assumes "insert_token r s = (res, s')"
  obtains "s' = s" "\<exists>e. res = Inl e"
  | "res = Inr ()" "s' = s\<lparr>td_tokens := td_tokens s @ [r]\<rparr>"
      "rt_id r \<notin> rt_id ` set (td_tokens s)" "rt_hash r \<notin> rt_hash ` set (td_tokens s)"
  using assms by (auto simp: insert_token_def split: if_splits)

lemma live_append [simp]: "live_in f (s\<lparr>td_tokens := td_tokens s @ [r]\<rparr>)
    = live_in f s \<union> (if rt_family r = f \<and> rt_revokedAt r = None then {r} else {})"
  by (auto simp: live_in_def)

lemma tokens_ok_append:
  assumes "tokens_ok s" and "rt_id r \<notin> rt_id ` set (td_tokens s)" "rt_hash r \<notin> rt_hash ` set (td_tokens s)"
    and "single_valued (insert (rt_family r, rt_user r) (owners s))" and "live_in (rt_family r) s = {}"
  shows "tokens_ok (s\<lparr>td_tokens := td_tokens s @ [r]\<rparr>)"
proof -
  have "owners (s\<lparr>td_tokens := td_tokens s @ [r]\<rparr>) = insert (rt_family r, rt_user r) (owners s)"
    by (simp add: owners_def)
  with assms show ?thesis by (auto simp: tokens_ok_def)
qed

lemma single_valued_insert: "k \<notin> fst ` R \<Longrightarrow> single_valued R \<Longrightarrow> single_valued (insert (k, v) R)"
  unfolding single_valued_def by (metis fst_conv image_eqI insertE old.prod.inject)

lemma fst_owners: "fst ` owners s = rt_family ` set (td_tokens s)"
  by (simp add: owners_def image_image)

lemma issue_ok:
  assumes ok: "tokens_ok s" and fresh: "family \<notin> rt_family ` set (td_tokens s)"
  shows "tokens_ok (snd (issueRefreshForNewSession hash ttl new_id family raw now user meta s))"
proof -
  let ?r = "\<lparr>rt_id = new_id, rt_user = user, rt_hash = hash raw, rt_family = family,
     rt_parent = None, rt_userAgent = tm_userAgent meta, rt_ip = tm_ip meta,
     rt_expiresAt = now + ttl * 1000, rt_revokedAt = None, rt_replacedAt = None,
     rt_lastSeenAt = None, rt_createdAt = now\<rparr>"
  obtain res s' where ins: "insert_token ?r s = (res, s')" by fastforce
  then have "tokens_ok s'"
  proof (rule insert_token_cases)
    assume "s' = s\<lparr>td_tokens := td_tokens s @ [?r]\<rparr>"
      and keys: "rt_id ?r \<notin> rt_id ` set (td_tokens s)" "rt_hash ?r \<notin> rt_hash ` set (td_tokens s)"
    moreover have "single_valued (insert (rt_family ?r, rt_user ?r) (owners s))"
      using ok fresh by (intro single_valued_insert) (simp_all add: tokens_ok_def fst_owners)
    moreover have "live_in (rt_family ?r) s = {}" using fresh by (auto simp: live_in_def)
    ultimately show ?thesis using tokens_ok_append [OF ok keys] by simp
  qed (use ok in simp)
  with ins show ?thesis by (simp add: issueRefreshForNewSession_def split: sum.split)
qed

lemma rotate_read_Inr:
  "rotate_read hash raw now s = (Inr r, s') \<Longrightarrow> s' = s \<and> r \<in> set (td_tokens s)
     \<and> rt_hash r = hash raw \<and> rt_revokedAt r = None \<and> now < rt_expiresAt r"
  by (auto simp: rotate_read_def dest: find_Some_in split: option.splits if_splits)

lemma rotate_read_Inl:
  "rotate_read hash raw now s = (Inl e, s') \<Longrightarrow>
     s' = s \<or> (\<exists>p es. s' = (revoke_where p now s)\<lparr>td_events := es\<rparr>)"
  by (auto simp: rotate_read_def split: option.splits if_splits)

abbreviation retire :: "msec \<Rightarrow> token_row \<Rightarrow> token_row list \<Rightarrow> token_row list" where
  "retire now rec t \<equiv> update_where (\<lambda>r. rt_id r = rt_id rec)
     (\<lambda>r. r\<lparr>rt_revokedAt := Some now, rt_replacedAt := Some now\<rparr>) t"

lemma retire_keeps:
  "map rt_id (retire now rec t) = map rt_id t" "map rt_hash (retire now rec t) = map rt_hash t"
  "map (\<lambda>r. (rt_family r, rt_user r)) (retire now rec t) = map (\<lambda>r. (rt_family r, rt_user r)) t"
  by (simp_all add: map_update_where)

lemma rotate_commit_cases:
  fixes hash ttl new_id new_raw now meta rec s
  defines "new \<equiv> rotated_row hash ttl new_id new_raw now meta rec"
  assumes "rotate_commit hash ttl new_id new_raw now meta rec s = (res, s')"
  obtains "s' = s" "\<exists>e. res = Inl e"
  | "res = Inr (new_raw, rt_user rec, rt_family rec)"
      "rt_id new \<notin> rt_id ` set (retire now rec (td_tokens s))"
      "rt_hash new \<notin> rt_hash ` set (retire now rec (td_tokens s))"
      "s' = s\<lparr>td_tokens := retire now rec (td_tokens s) @ [new]\<rparr>"
proof -
  let ?s1 = "s\<lparr>td_tokens := retire now rec (td_tokens s)\<rparr>"
  obtain r s2 where ins: "insert_token new ?s1 = (r, s2)" by fastforce
  then show thesis
  proof (rule insert_token_cases)
    assume "\<exists>e. r = Inl e"
    with ins assms(2) that(1) show thesis
      by (auto simp: rotate_commit_def transaction_def Let_def new_def)
  next
    assume ok: "r = Inr ()" "s2 = ?s1\<lparr>td_tokens := td_tokens ?s1 @ [new]\<rparr>"
      and keys: "rt_id new \<notin> rt_id ` set (td_tokens ?s1)" "rt_hash new \<notin> rt_hash ` set (td_tokens ?s1)"
    with ins assms(2) have "res = Inr (new_raw, rt_user rec, rt_family rec)" "s' = s2"
      by (auto simp: rotate_commit_def transaction_def Let_def new_def)
    with ok keys that(2) show thesis by simp
  qed
qed

lemma live_retire:
  "live_in f (s\<lparr>td_tokens := retire now rec (td_tokens s)\<rparr>)
     = {r \<in> live_in f s. rt_id r \<noteq> rt_id rec}"
  by (auto simp: live_in_def set_update_where)

lemma commit_live:
  assumes ok: "tokens_ok s" and mem: "rec \<in> set (td_tokens s)" and live: "rt_revokedAt rec = None"
    and s': "s' = s\<lparr>td_tokens := retire now rec (td_tokens s) @ [new]\<rparr>"
    and new: "new = rotated_row hash ttl new_id new_raw now meta rec"
    and keys: "rt_id new \<notin> rt_id ` set (retire now rec (td_tokens s))"
      "rt_hash new \<notin> rt_hash ` set (retire now rec (td_tokens s))"
  shows "tokens_ok s'" and "live_in (rt_family rec) s' = {new}"
    and "f \<noteq> rt_family rec \<Longrightarrow> live_in f s' = live_in f s"
proof -
  let ?s1 = "s\<lparr>td_tokens := retire now rec (td_tokens s)\<rparr>"
  from mem live have "rec \<in> live_in (rt_family rec) s" by (simp add: live_in_def)
  moreover from ok obtain r where "live_in (rt_family rec) s \<subseteq> {r}" by (auto simp: tokens_ok_def)
  ultimately have one: "live_in (rt_family rec) s = {rec}" by auto
  then have none: "live_in (rt_family rec) ?s1 = {}" unfolding live_retire by auto
  have ids: "rt_id r = rt_id rec \<Longrightarrow> r \<in> set (td_tokens s) \<Longrightarrow> r = rec" for r
    using ok mem distinct_map_unique [of rt_id "td_tokens s" r rec] by (simp add: tokens_ok_def)
  have own: "owners ?s1 = owners s"
    using arg_cong [OF retire_keeps(3), of set] by (simp add: owners_def)
  have ok1: "tokens_ok ?s1"
  proof -
    have "\<exists>r. live_in f ?s1 \<subseteq> {r}" for f
    proof -
      from ok obtain r where "live_in f s \<subseteq> {r}" by (auto simp: tokens_ok_def)
      then show ?thesis unfolding live_retire by auto
    qed
    with ok own show ?thesis by (simp add: tokens_ok_def retire_keeps(1,2))
  qed
  have s'1: "s' = ?s1\<lparr>td_tokens := td_tokens ?s1 @ [new]\<rparr>" by (simp add: s')
  have "(rt_family new, rt_user new) \<in> owners s"
    using mem by (auto simp: new rotated_row_def owners_def)
  then have "single_valued (insert (rt_family new, rt_user new) (owners ?s1))"
    using ok own by (simp add: tokens_ok_def insert_absorb)
  moreover have "rt_family new = rt_family rec" "rt_revokedAt new = None"
    by (simp_all add: new rotated_row_def)
  ultimately show "tokens_ok s'"
    unfolding s'1 using keys none by (intro tokens_ok_append [OF ok1]) simp_all
  show "live_in (rt_family rec) s' = {new}"
    unfolding s'1 live_append none by (simp add: new rotated_row_def)
  show "live_in f s' = live_in f s" if "f \<noteq> rt_family rec"
  proof -
    have "live_in f s' = live_in f ?s1" unfolding s'1 live_append using that by (simp add: new rotated_row_def)
    also have "\<dots> = live_in f s" unfolding live_retire using ids that by (auto simp: live_in_def)
    finally show ?thesis .
  qed
qed

lemma rotate_cases:
  assumes "rotate_token hash ttl new_id new_raw raw now meta s = (res, s')"
  obtains e where "rotate_read hash raw now s = (Inl e, s')" "res = Inl e"
  | r where "rotate_read hash raw now s = (Inr r, s)"
      "rotate_commit hash ttl new_id new_raw now meta r s = (res, s')"
  using assms
  by (auto simp: rotate_token_def dest: rotate_read_Inr split: prod.splits sum.splits)

lemma rotate_ok:
  assumes ok: "tokens_ok s"
  shows "tokens_ok (snd (rotate_token hash ttl new_id new_raw raw now meta s))"
proof -
  obtain res s' where eq: "rotate_token hash ttl new_id new_raw raw now meta s = (res, s')" by fastforce
  then have "tokens_ok s'"
  proof (rule rotate_cases)
    fix e assume "rotate_read hash raw now s = (Inl e, s')"
    with ok rotate_read_Inl show ?thesis by (fastforce simp: tokens_ok_revoke)
  next
    fix r assume r: "rotate_read hash raw now s = (Inr r, s)"
      and "rotate_commit hash ttl new_id new_raw now meta r s = (res, s')"
    from this(2) show ?thesis
      by (rule rotate_commit_cases) (use ok rotate_read_Inr [OF r] in \<open>auto intro: commit_live(1)\<close>)
  qed
  with eq show ?thesis by simp
qed

lemma step_ok: "token_step hash ttl s s' \<Longrightarrow> tokens_ok s \<Longrightarrow> tokens_ok s'"
proof (induction rule: token_step.induct)
  case (step_revokeSession s user session now)
  then show ?case by (simp add: revokeSession_def tokens_ok_revoke split: option.split)
qed (simp_all add: issue_ok rotate_ok revokeRaw_def revokeAllExceptFamily_def Let_def tokens_ok_revoke)

lemma run_ok: "rtranclp (token_step hash ttl) s s' \<Longrightarrow> tokens_ok s \<Longrightarrow> tokens_ok s'"
  by (induction rule: rtranclp_induct) (simp_all add: step_ok)

text \<open>A family whose tokens are all revoked is burned: no step revives it.\<close>

definition burned :: "id \<Rightarrow> token_db \<Rightarrow> bool" where
  "burned f s \<longleftrightarrow> f \<in> rt_family ` set (td_tokens s) \<and> live_in f s = {}"

lemma burned_revoke: "burned f s \<Longrightarrow> burned f (revoke_where p now s)"
proof -
  have "rt_family ` set (td_tokens (revoke_where p now s)) = fst ` owners (revoke_where p now s)"
    by (rule fst_owners [symmetric])
  then show "burned f s \<Longrightarrow> burned f (revoke_where p now s)" by (simp add: burned_def fst_owners)
qed

lemma burned_rotate:
  assumes ok: "tokens_ok s" and b: "burned f s"
  shows "burned f (snd (rotate_token hash ttl new_id new_raw raw now meta s))"
proof -
  obtain res s' where eq: "rotate_token hash ttl new_id new_raw raw now meta s = (res, s')" by fastforce
  then have "burned f s'"
  proof (rule rotate_cases)
    fix e assume "rotate_read hash raw now s = (Inl e, s')"
    from rotate_read_Inl [OF this] b show ?thesis
      using burned_revoke [OF b] by (auto simp: burned_def)
  next
    fix r assume r: "rotate_read hash raw now s = (Inr r, s)"
      and "rotate_commit hash ttl new_id new_raw now meta r s = (res, s')"
    from this(2) show ?thesis
    proof (rule rotate_commit_cases)
      let ?n = "rotated_row hash ttl new_id new_raw now meta r"
      assume s': "s' = s\<lparr>td_tokens := retire now r (td_tokens s) @ [?n]\<rparr>"
        and keys: "rt_id ?n \<notin> rt_id ` set (retire now r (td_tokens s))"
          "rt_hash ?n \<notin> rt_hash ` set (retire now r (td_tokens s))"
      have mem: "r \<in> set (td_tokens s)" and lv: "rt_revokedAt r = None"
        using rotate_read_Inr [OF r] by simp_all
      with b have "f \<noteq> rt_family r" by (auto simp: burned_def live_in_def)
      from commit_live(3) [OF ok mem lv s' refl keys this] b have "live_in f s' = {}"
        by (simp add: burned_def)
      moreover have "map rt_family (retire now r (td_tokens s)) = map rt_family (td_tokens s)"
        by (simp add: map_update_where)
      from arg_cong [OF this, of set] b have "f \<in> rt_family ` set (td_tokens s')"
        by (simp add: s' burned_def)
      ultimately show ?thesis by (simp add: burned_def)
    qed (use b in simp)
  qed
  with eq show ?thesis by simp
qed

lemma burned_step: "token_step hash ttl s s' \<Longrightarrow> tokens_ok s \<Longrightarrow> burned f s \<Longrightarrow> burned f s'"
proof (induction rule: token_step.induct)
  case (step_issue family s new_id raw now user meta)
  then show ?case
    by (auto simp: issueRefreshForNewSession_def insert_token_def burned_def live_in_def)
next
  case (step_revokeSession s user session now)
  then show ?case by (simp add: revokeSession_def burned_revoke split: option.split)
qed (simp_all add: burned_rotate revokeRaw_def revokeAllExceptFamily_def Let_def burned_revoke)

lemma burned_run:
  "rtranclp (token_step hash ttl) s s' \<Longrightarrow> tokens_ok s \<Longrightarrow> burned f s \<Longrightarrow> burned f s' \<and> tokens_ok s'"
  by (induction rule: rtranclp_induct) (auto intro: burned_step step_ok)

lemma first_per_family_set:
  "rt_family ` set (first_per_family seen rs) = rt_family ` set rs - set seen"
  "distinct (map rt_family (first_per_family seen rs))"
  "set (first_per_family seen rs) \<subseteq> set rs"
  by (induction seen rs rule: first_per_family.induct) auto

lemma listSessions_families:
  "rt_family ` set (listSessions user now s)
     = rt_family ` {r \<in> set (td_tokens s). rt_user r = user \<and> is_active now r}"
  by (simp add: listSessions_def first_per_family_set)

section \<open>Properties\<close>


abbreviation no_meta :: token_meta where "no_meta \<equiv> \<lparr>tm_userAgent = None, tm_ip = None\<rparr>"
abbreviation empty_tokens :: token_db where "empty_tokens \<equiv> \<lparr>td_tokens = [], td_events = []\<rparr>"

definition issued :: token_db where
  "issued = snd (issueRefreshForNewSession (\<lambda>x. x) 60 ''t1'' ''f'' ''r1'' 0 ''u'' no_meta empty_tokens)"

definition rotated :: token_db where
  "rotated = snd (rotate_token (\<lambda>x. x) 60 ''t2'' ''r2'' ''r1'' 10 no_meta issued)"

lemma rotated_reachable: "rtranclp (token_step (\<lambda>x. x) 60) empty_tokens rotated"
proof -
  have "token_step (\<lambda>x. x) 60 empty_tokens issued" unfolding issued_def by (rule step_issue) simp
  moreover have "token_step (\<lambda>x. x) 60 issued rotated" unfolding rotated_def by (rule step_rotate)
  ultimately show ?thesis by (meson converse_rtranclp_into_rtranclp rtranclp.rtrancl_refl)
qed




text \<open>Rotation hands over: when \<open>rotate\<close> succeeds, it returns the user and family of the
  presented token, the family's only live token is the new one, every other family is as
  before, and the presented token, tried again before it expires, is detected as a replay.\<close>

lemma rotation_hands_over:
  assumes "tokens_ok s" and "rotate_token hash ttl new_id new_raw raw now meta s = (Inr (out, user, family), s')"
  shows "out = new_raw \<and> (\<exists>new. live_in family s' = {new} \<and> rt_hash new = hash new_raw \<and> rt_user new = user)
    \<and> (\<forall>f. f \<noteq> family \<longrightarrow> live_in f s' = live_in f s)
    \<and> (\<exists>r \<in> set (td_tokens s). rt_hash r = hash raw \<and> rt_family r = family \<and> rt_user r = user
        \<and> (\<forall>later. later < rt_expiresAt r \<longrightarrow>
             fst (rotate_token hash ttl id' raw' raw later meta' s') = Inl (Denied AUTH_SESSION_COMPROMISED)))"
  using assms(2)
proof (rule rotate_cases)
  fix r assume r: "rotate_read hash raw now s = (Inr r, s)"
    and c: "rotate_commit hash ttl new_id new_raw now meta r s = (Inr (out, user, family), s')"
  have mem: "r \<in> set (td_tokens s)" and hash_r: "rt_hash r = hash raw" and lv: "rt_revokedAt r = None"
    using rotate_read_Inr [OF r] by simp_all
  from c show ?thesis
  proof (rule rotate_commit_cases)
    let ?n = "rotated_row hash ttl new_id new_raw now meta r"
    assume out: "Inr (out, user, family) = Inr (new_raw, rt_user r, rt_family r)"
      and s': "s' = s\<lparr>td_tokens := retire now r (td_tokens s) @ [?n]\<rparr>"
      and keys: "rt_id ?n \<notin> rt_id ` set (retire now r (td_tokens s))"
        "rt_hash ?n \<notin> rt_hash ` set (retire now r (td_tokens s))"
    note live = commit_live [OF assms(1) mem lv s' refl keys]
    let ?r = "r\<lparr>rt_revokedAt := Some now, rt_replacedAt := Some now\<rparr>"
    have old: "?r \<in> set (td_tokens s')" using mem by (force simp: s' set_update_where)
    have "fst (rotate_token hash ttl id' raw' raw later meta' s') = Inl (Denied AUTH_SESSION_COMPROMISED)"
      if "later < rt_expiresAt r" for later
    proof -
      have "find (\<lambda>x. rt_hash x = hash raw) (td_tokens s') = Some ?r"
        using find_unique_key [of rt_hash "td_tokens s'" ?r] live(1) old hash_r
        by (simp add: tokens_ok_def)
      with that show ?thesis by (simp add: rotate_token_def rotate_read_def)
    qed
    moreover have "rt_hash ?n = hash new_raw" "rt_user ?n = rt_user r" by (simp_all add: rotated_row_def)
    ultimately show ?thesis using live(2,3) out mem hash_r by auto
  qed simp
qed simp

lemma rotation_hands_over_example:
  "\<exists>new. live_in ''f'' rotated = {new} \<and> rt_hash new = ''r2''"
proof -
  have "tokens_ok empty_tokens" by (simp add: tokens_ok_def owners_def live_in_def)
  then have ok: "tokens_ok issued" unfolding issued_def by (rule issue_ok) simp
  have "fst (rotate_token (\<lambda>x. x) 60 ''t2'' ''r2'' ''r1'' 10 no_meta issued) = Inr (''r2'', ''u'', ''f'')" by code_simp
  then have "rotate_token (\<lambda>x. x) 60 ''t2'' ''r2'' ''r1'' 10 no_meta issued = (Inr (''r2'', ''u'', ''f''), rotated)"
    by (simp add: rotated_def prod_eq_iff)
  from rotation_hands_over [OF ok this] show ?thesis by blast
qed

text \<open>Signing out everywhere else keeps exactly the current session: after
  \<open>revokeAllExceptFamily\<close> with a family, the user's listed sessions are his former ones of that
  family and no others, without a family there are none, other users keep theirs, and a
  session list never shows a family twice.\<close>

lemma sign_out_elsewhere:
  "rt_family ` set (listSessions user t (snd (revokeAllExceptFamily user (Some (c # cs)) now s)))
     = rt_family ` set (listSessions user t s) \<inter> {c # cs}
   \<and> listSessions user t (snd (revokeAllExceptFamily user None now s)) = []
   \<and> (other = user \<or> rt_family ` set (listSessions other t (snd (revokeAllExceptFamily user except now s)))
        = rt_family ` set (listSessions other t s))
   \<and> distinct (map rt_family (listSessions user t s))"
proof -
  have act: "{r \<in> set (td_tokens (revoke_where p now s)). rt_user r = u \<and> is_active t r}
      = {r \<in> set (td_tokens s). rt_user r = u \<and> is_active t r \<and> \<not> p r}" for p u
    by (auto simp: revoke_where_def set_update_where is_active_def)
  have "rt_family ` set (listSessions user t (snd (revokeAllExceptFamily user None now s))) = {}"
    unfolding listSessions_families by (auto simp: revokeAllExceptFamily_def Let_def act)
  moreover have "rt_family ` set (listSessions user t (snd (revokeAllExceptFamily user (Some (c # cs)) now s)))
      = rt_family ` set (listSessions user t s) \<inter> {c # cs}"
    unfolding listSessions_families by (auto simp: revokeAllExceptFamily_def Let_def act image_iff)
      (metis (no_types))
  moreover have "other = user \<or> rt_family ` set (listSessions other t (snd (revokeAllExceptFamily user except now s)))
      = rt_family ` set (listSessions other t s)"
    unfolding listSessions_families
    by (auto simp: revokeAllExceptFamily_def Let_def act intro!: arg_cong [where f = "(`) rt_family"])
  moreover have "distinct (map rt_family (listSessions user t s))"
    by (simp add: listSessions_def first_per_family_set)
  ultimately show ?thesis by simp
qed

text \<open>\<open>rotate\<close> checks the token before its transaction: two requests with the same token that both
  read before either commits both succeed, and the session has two live tokens.\<close>

lemma concurrent_rotations_fork:
  "case rotate_read (\<lambda>x. x) ''r1'' 10 issued of
     (Inr rec, s0) \<Rightarrow>
       (case rotate_commit (\<lambda>x. x) 60 ''t2'' ''r2'' 10 no_meta rec s0 of
          (Inr _, s1) \<Rightarrow>
            (case rotate_commit (\<lambda>x. x) 60 ''t3'' ''r3'' 11 no_meta rec s1 of
               (Inr _, s2) \<Rightarrow> map rt_hash (filter (is_active 20) (td_tokens s2)) = [''r2'', ''r3'']
             | _ \<Rightarrow> False)
        | _ \<Rightarrow> False)
   | _ \<Rightarrow> False"
  by code_simp

end
