(* ===== verification/Mrkdwn.thy ===== *)
theory Mrkdwn
  imports Qufox_Prelude
begin

text \<open>
  The message markup: \<open>packages/shared-types/src/mrkdwn-parser.ts\<close> (raw text to syntax tree and
  plain text), the token patterns and limits of \<open>mrkdwn.ts\<close> and the link and size rules of
  \<open>mrkdwn-ast.ts\<close>. Texts are lists of UTF-16 code units. A regular expression is the function
  that returns its captures and the text after the match; the comment at each one gives the
  expression. The clock is a parameter: \<open>late k\<close> says whether its \<open>k\<close>-th reading is past the
  deadline of the parse.
\<close>

section \<open>The syntax tree\<close>

datatype text_mark = Bold | Italic | Underline | Strike | CodeMark | Spoiler

datatype inline_node =
    TextNode js_string "text_mark list"
  | MentionUser js_string "js_string option"
  | MentionChannel js_string "js_string option"
  | MentionRole js_string "js_string option"
  | Emoji js_string
  | LinkNode js_string "js_string option"

datatype rich_node =
    InlineNode inline_node
  | Paragraph "inline_node list"
  | Heading nat "inline_node list"
  | Blockquote "rich_node list"
  | CodeBlock js_string "js_string option"
  | ListNode bool nat "rich_node list list"  \<comment> \<open>ordered, indent, items\<close>
  | Subtext "inline_node list"
  | Divider

datatype parse_error =
    PARSE_TIMEOUT | PARSE_DEPTH_EXCEEDED | PARSE_NODE_LIMIT | PARSE_AST_TOO_LARGE | MESSAGE_TOO_LONG

definition MAX_DEPTH :: nat where "MAX_DEPTH = 10"
definition MAX_NODES :: nat where "MAX_NODES = 500"
definition MAX_AST_BYTES :: nat where "MAX_AST_BYTES = 64 * 1024"
definition MAX_PLAIN_LENGTH :: nat where "MAX_PLAIN_LENGTH = 4000"

definition max_list :: "nat list \<Rightarrow> nat" where
  "max_list xs = foldl max 0 xs"

fun measureTree :: "rich_node \<Rightarrow> nat \<times> nat" where
  \<comment> \<open>number of nodes and depth\<close>
  "measureTree (InlineNode n) = (1, 1)"
| "measureTree (Paragraph ns) = (1 + length ns, 1 + max_list (map (\<lambda>_. 1) ns))"
| "measureTree (Heading l ns) = (1 + length ns, 1 + max_list (map (\<lambda>_. 1) ns))"
| "measureTree (Blockquote ns) =
     (1 + sum_list (map (\<lambda>n. fst (measureTree n)) ns), 1 + max_list (map (\<lambda>n. snd (measureTree n)) ns))"
| "measureTree (CodeBlock c l) = (1, 1)"
| "measureTree (ListNode ord indent items) =
     (1 + sum_list (map (\<lambda>ns. sum_list (map (\<lambda>n. fst (measureTree n)) ns)) items),
      1 + max_list (map (\<lambda>ns. max_list (map (\<lambda>n. snd (measureTree n)) ns)) items))"
| "measureTree (Subtext ns) = (1 + length ns, 1 + max_list (map (\<lambda>_. 1) ns))"
| "measureTree Divider = (1, 1)"

definition measureRoot :: "rich_node list \<Rightarrow> nat \<times> nat" where
  "measureRoot ns = (1 + sum_list (map (\<lambda>n. fst (measureTree n)) ns),
                     1 + max_list (map (\<lambda>n. snd (measureTree n)) ns))"

definition within_limits :: "rich_node list \<Rightarrow> bool" where
  \<comment> \<open>the refinement of \<open>RichTextRootSchema\<close>\<close>
  "within_limits nodes \<longleftrightarrow> (case measureRoot nodes of (count, depth) \<Rightarrow> depth \<le> MAX_DEPTH \<and> count \<le> MAX_NODES)"

subsection \<open>Links\<close>

definition lower :: "nat \<Rightarrow> nat" where
  "lower c = (if is_js_upper c then c + 32 else c)"

definition starts_with :: "js_string \<Rightarrow> js_string \<Rightarrow> bool" where
  "starts_with p s \<longleftrightarrow> take (length p) s = p"

definition is_scheme_char :: "nat \<Rightarrow> bool" where
  \<comment> \<open>\<open>[a-z0-9+.-]\<close>, ignoring case\<close>
  "is_scheme_char c \<longleftrightarrow> is_js_lower (lower c) \<or> is_js_digit c \<or> c = 43 \<or> c = 46 \<or> c = 45"

definition active_scheme :: "js_string \<Rightarrow> bool" where
  \<comment> \<open>\<open>/^[a-z][a-z0-9+.-]*:/i\<close>\<close>
  "active_scheme s = (case s of [] \<Rightarrow> False
     | c # cs \<Rightarrow> is_js_lower (lower c) \<and> starts_with [58] (dropWhile is_scheme_char cs))"

definition safe_scheme :: "js_string \<Rightarrow> bool" where
  \<comment> \<open>\<open>/^https?:/i\<close>\<close>
  "safe_scheme s \<longleftrightarrow> starts_with (js ''http:'') (map lower (take 5 s))
     \<or> starts_with (js ''https:'') (map lower (take 6 s))"

definition isSafeLinkUrl :: "js_string \<Rightarrow> bool" where
  "isSafeLinkUrl url =
     (let trimmed = js_trim url
      in if trimmed = [] then False
         else if active_scheme trimmed then safe_scheme trimmed else True)"

section \<open>Patterns\<close>

definition is_dot :: "nat \<Rightarrow> bool" where
  \<comment> \<open>\<open>.\<close> matches all but the line terminators\<close>
  "is_dot c \<longleftrightarrow> c \<noteq> 10 \<and> c \<noteq> 13 \<and> c \<noteq> 8232 \<and> c \<noteq> 8233"

definition is_lang_char :: "nat \<Rightarrow> bool" where
  "is_lang_char c \<longleftrightarrow> is_js_lower c \<or> is_js_upper c \<or> is_js_digit c \<or> c = 95 \<or> c = 43 \<or> c = 45"

definition match_fence :: "js_string \<Rightarrow> js_string option" where
  \<comment> \<open>\<open>/^```([a-zA-Z0-9_+-]*)\s*$/\<close>\<close>
  "match_fence line =
     (if starts_with [96, 96, 96] line \<and> list_all is_js_space (dropWhile is_lang_char (drop 3 line))
      then Some (takeWhile is_lang_char (drop 3 line)) else None)"

definition closes_fence :: "js_string \<Rightarrow> bool" where
  \<comment> \<open>\<open>/^```\s*$/\<close>\<close>
  "closes_fence line \<longleftrightarrow> starts_with [96, 96, 96] line \<and> list_all is_js_space (drop 3 line)"

definition match_ordered :: "js_string \<Rightarrow> js_string option" where
  \<comment> \<open>\<open>/^(\d{1,9})\.\s+(.*)$/\<close>, the second group\<close>
  "match_ordered line =
     (let digits = takeWhile is_js_digit line; rest = dropWhile is_js_digit line
      in if 1 \<le> length digits \<and> length digits \<le> 9 \<and> starts_with [46] rest
            \<and> takeWhile is_js_space (tl rest) \<noteq> []
            \<and> list_all is_dot (dropWhile is_js_space (tl rest))
         then Some (dropWhile is_js_space (tl rest)) else None)"

definition match_unordered :: "js_string \<Rightarrow> js_string option" where
  \<comment> \<open>\<open>/^[-*]\s+(.*)$/\<close>\<close>
  "match_unordered line =
     (case line of [] \<Rightarrow> None
      | c # cs \<Rightarrow>
          if (c = 45 \<or> c = 42) \<and> takeWhile is_js_space cs \<noteq> [] \<and> list_all is_dot (dropWhile is_js_space cs)
          then Some (dropWhile is_js_space cs) else None)"

definition match_quote :: "js_string \<Rightarrow> js_string option" where
  \<comment> \<open>\<open>/^>\s?(.*)$/\<close>\<close>
  "match_quote line =
     (case line of [] \<Rightarrow> None
      | c # cs \<Rightarrow>
          if c \<noteq> 62 then None
          else let body = (case cs of [] \<Rightarrow> [] | d # ds \<Rightarrow> if is_js_space d then ds else cs)
               in if list_all is_dot body then Some body else None)"

definition is_blank :: "nat \<Rightarrow> bool" where
  "is_blank c \<longleftrightarrow> c = 32 \<or> c = 9"

definition match_heading :: "js_string \<Rightarrow> (nat \<times> js_string) option" where
  \<comment> \<open>\<open>/^(#{1,3})[ \t]+(.+)$/\<close>: level and text; of a line that is blank after the marks, the
    last blank is the text\<close>
  "match_heading line =
     (let level = length (takeWhile (\<lambda>c. c = 35) line);
          rest = drop level line;
          blanks = takeWhile is_blank rest; body = dropWhile is_blank rest
      in if level = 0 \<or> 3 < level \<or> blanks = [] then None
         else if body = [] then (if 2 \<le> length blanks then Some (level, [last blanks]) else None)
         else if list_all is_dot body then Some (level, body) else None)"

definition is_cuid_char :: "nat \<Rightarrow> bool" where
  "is_cuid_char c \<longleftrightarrow> is_js_lower c \<or> is_js_digit c"

definition is_hex_char :: "nat \<Rightarrow> bool" where
  "is_hex_char c \<longleftrightarrow> is_js_digit c \<or> (97 \<le> c \<and> c \<le> 102)"

definition is_uuid :: "js_string \<Rightarrow> bool" where
  "is_uuid s \<longleftrightarrow> length s = 36 \<and> list_all2 (\<lambda>i c. if i \<in> {8, 13, 18, 23} then c = 45 else is_hex_char c) [0..<36] s"

definition match_id :: "nat \<Rightarrow> js_string \<Rightarrow> (js_string \<times> js_string) option" where
  \<comment> \<open>\<open>(UUID|[a-z0-9]{20,})\<close> and a closing character: the id and the rest\<close>
  "match_id close s =
     (if is_uuid (take 36 s) \<and> starts_with [close] (drop 36 s) then Some (take 36 s, drop 37 s)
      else let run = takeWhile is_cuid_char s; rest = dropWhile is_cuid_char s
           in if 20 \<le> length run \<and> starts_with [close] rest then Some (run, tl rest) else None)"

definition match_token :: "js_string \<Rightarrow> nat \<Rightarrow> js_string \<Rightarrow> (js_string \<times> js_string) option" where
  "match_token opn close s = (if starts_with opn s then match_id close (drop (length opn) s) else None)"

definition match_user :: "js_string \<Rightarrow> (js_string \<times> js_string) option" where
  \<comment> \<open>\<open>@\{id\}\<close>\<close>
  "match_user = match_token [64, 123] 125"

definition match_channel :: "js_string \<Rightarrow> (js_string \<times> js_string) option" where
  \<comment> \<open>\<open><#id>\<close>\<close>
  "match_channel = match_token [60, 35] 62"

definition match_role :: "js_string \<Rightarrow> (js_string \<times> js_string) option" where
  \<comment> \<open>\<open><@&id>\<close>\<close>
  "match_role = match_token [60, 64, 38] 62"

definition match_link :: "js_string \<Rightarrow> (js_string \<times> js_string \<times> js_string) option" where
  \<comment> \<open>\<open>/^\[([^\]\n]*)\]\(([^()\s]+)\)/\<close>: label, url, rest\<close>
  "match_link s =
     (if \<not> starts_with [91] s then None
      else let label_ok = (\<lambda>c. c \<noteq> 93 \<and> c \<noteq> 10);
               label = takeWhile label_ok (drop 1 s); r1 = dropWhile label_ok (drop 1 s)
           in if \<not> starts_with [93, 40] r1 then None
              else let url_ok = (\<lambda>c. c \<noteq> 40 \<and> c \<noteq> 41 \<and> \<not> is_js_space c);
                       url = takeWhile url_ok (drop 2 r1); r2 = dropWhile url_ok (drop 2 r1)
                   in if url \<noteq> [] \<and> starts_with [41] r2 then Some (label, url, drop 1 r2) else None)"

definition is_url_char :: "nat \<Rightarrow> bool" where
  "is_url_char c \<longleftrightarrow> \<not> is_js_space c \<and> c \<noteq> 60 \<and> c \<noteq> 62"

definition is_url_punct :: "nat \<Rightarrow> bool" where
  \<comment> \<open>the characters a bare url does not end with\<close>
  "is_url_punct c \<longleftrightarrow> c \<in> {46, 44, 59, 58, 33, 63, 39, 34, 40, 41, 93}"

definition match_url :: "js_string \<Rightarrow> (js_string \<times> js_string) option" where
  \<comment> \<open>\<open>/^https?:\/\/[^\s<>]+[^\s<>.,;:!?'"()\]]/\<close>: the longest such prefix\<close>
  "match_url s =
     (let scheme = (if starts_with (js ''https://'') s then js ''https://''
                    else if starts_with (js ''http://'') s then js ''http://'' else [])
      in if scheme = [] then None
         else let run = takeWhile is_url_char (drop (length scheme) s);
                  body = rev (dropWhile is_url_punct (rev run))
              in if 2 \<le> length body
                 then Some (scheme @ body, drop (length scheme + length body) s) else None)"

section \<open>The inline scanner\<close>

record scan_state =
  sc_nodeCount :: nat
  sc_reads :: nat  \<comment> \<open>readings of the clock so far\<close>

type_synonym clock = "nat \<Rightarrow> bool"

record label_resolvers =
  lr_user :: "js_string \<Rightarrow> js_string option"
  lr_channel :: "js_string \<Rightarrow> js_string option"
  lr_role :: "js_string \<Rightarrow> js_string option"

definition resolveLabel :: "(js_string \<Rightarrow> js_string option) \<Rightarrow> js_string \<Rightarrow> js_string option" where
  "resolveLabel f i = (case f i of None \<Rightarrow> None
     | Some v \<Rightarrow> (let trimmed = js_trim v in if trimmed = [] then None else Some trimmed))"

definition bumpNode :: "clock \<Rightarrow> scan_state \<Rightarrow> parse_error + scan_state" where
  "bumpNode late st =
     (let st1 = st\<lparr>sc_nodeCount := sc_nodeCount st + 1\<rparr>
      in if sc_nodeCount st1 > MAX_NODES then Inl PARSE_NODE_LIMIT
         else if late (sc_reads st1) then Inl PARSE_TIMEOUT
         else Inr (st1\<lparr>sc_reads := sc_reads st1 + 1\<rparr>))"

definition INLINE_MARKERS :: "(js_string \<times> text_mark) list" where
  "INLINE_MARKERS = [([126, 126], Strike), ([124, 124], Spoiler), ([42, 42], Bold), ([42], Bold),
     ([95], Italic), ([96], CodeMark)]"

definition matchMarker :: "js_string \<Rightarrow> (js_string \<times> text_mark) option" where
  "matchMarker s = find (\<lambda>m. starts_with (fst m) s) INLINE_MARKERS"

fun findClose :: "js_string \<Rightarrow> js_string \<Rightarrow> nat option" where
  \<comment> \<open>the distance to the closing marker\<close>
  "findClose opn [] = None"
| "findClose opn (c # cs) =
     (if c = 10 then None else if starts_with opn (c # cs) then Some 0
      else map_option Suc (findClose opn cs))"

function lead_scan :: "js_string \<Rightarrow> nat \<times> js_string" where
  "lead_scan s = (case matchMarker s of None \<Rightarrow> (0, s)
     | Some m \<Rightarrow> (case drop (length (fst m)) s of rest \<Rightarrow>
         (let (n, r) = lead_scan rest in (n + 1, r))))"
  by auto

lemma starts_with_length: "starts_with p s \<Longrightarrow> length p \<le> length s"
  by (metis length_take min.absorb_iff2 min.commute starts_with_def)

lemma matchMarker_Some:
  "matchMarker s = Some m \<Longrightarrow> starts_with (fst m) s \<and> 0 < length (fst m) \<and> m \<in> set INLINE_MARKERS"
  by (auto simp: matchMarker_def INLINE_MARKERS_def split: if_splits)

lemma drop_less [termination_simp]: "a \<noteq> [] \<Longrightarrow> length a \<le> length s \<Longrightarrow> length s - length a < length s"
  by (cases a) auto

termination lead_scan
  by (relation "measure length")
    (auto simp: drop_less dest!: matchMarker_Some starts_with_length)

declare lead_scan.simps [simp del]

function trail_scan :: "js_string \<Rightarrow> nat" where
  \<comment> \<open>on the reversed remainder\<close>
  "trail_scan s = (case find (\<lambda>m. starts_with (rev (fst m)) s) INLINE_MARKERS of None \<Rightarrow> 0
     | Some m \<Rightarrow> trail_scan (drop (length (fst m)) s) + 1)"
  by auto

lemma find_marker_rev: "find (\<lambda>m. starts_with (rev (fst m)) s) INLINE_MARKERS = Some m \<Longrightarrow>
    0 < length (fst m) \<and> length (fst m) \<le> length s"
  using starts_with_length [of "rev (fst m)" s]
  by (auto simp: INLINE_MARKERS_def split: if_splits)

termination trail_scan
  by (relation "measure length") (auto simp: drop_less dest!: find_marker_rev)

declare trail_scan.simps [simp del]

definition enforceInlineMarkerDepth :: "js_string \<Rightarrow> parse_error + unit" where
  "enforceInlineMarkerDepth text =
     (let (lead, rest) = lead_scan text; trail = trail_scan (rev rest)
      in if min lead trail > MAX_DEPTH then Inl PARSE_DEPTH_EXCEEDED else Inr ())"

definition flush_text :: "clock \<Rightarrow> text_mark list \<Rightarrow> js_string \<Rightarrow> inline_node list \<Rightarrow> scan_state \<Rightarrow>
    parse_error + inline_node list \<times> scan_state" where
  "flush_text late marks buf out st =
     (if buf = [] then Inr (out, st)
      else case bumpNode late st of Inl e \<Rightarrow> Inl e | Inr st' \<Rightarrow> Inr (out @ [TextNode buf marks], st'))"

definition emit :: "clock \<Rightarrow> text_mark list \<Rightarrow> js_string \<Rightarrow> inline_node \<Rightarrow> inline_node list \<Rightarrow> scan_state \<Rightarrow>
    parse_error + inline_node list \<times> scan_state" where
  \<comment> \<open>\<open>flush()\<close>, \<open>bumpNode(state)\<close>, \<open>out.push(node)\<close>\<close>
  "emit late marks buf node out st =
     (case flush_text late marks buf out st of Inl e \<Rightarrow> Inl e
      | Inr (out', st') \<Rightarrow>
         (case bumpNode late st' of Inl e \<Rightarrow> Inl e | Inr st'' \<Rightarrow> Inr (out' @ [node], st'')))"

datatype token =
    TNode inline_node js_string  \<comment> \<open>node to emit, rest\<close>
  | TLiteral js_string js_string  \<comment> \<open>text to keep, rest\<close>
  | TMark text_mark js_string js_string  \<comment> \<open>mark, inner text, rest\<close>

text \<open>What stands at a position: the alternatives of the loop in their order.\<close>

definition next_token :: "label_resolvers \<Rightarrow> text_mark list \<Rightarrow> js_string \<Rightarrow> token" where
  "next_token lr marks s =
     (case match_user s of
        Some (i, r) \<Rightarrow> TNode (MentionUser i (resolveLabel (lr_user lr) i)) r
      | None \<Rightarrow>
     (case match_channel s of
        Some (i, r) \<Rightarrow> TNode (MentionChannel i (resolveLabel (lr_channel lr) i)) r
      | None \<Rightarrow>
     (case match_role s of
        Some (i, r) \<Rightarrow> TNode (MentionRole i (resolveLabel (lr_role lr) i)) r
      | None \<Rightarrow>
     (case match_link s of
        Some (label, url, r) \<Rightarrow>
          if isSafeLinkUrl url then TNode (LinkNode url (if label = [] then None else Some label)) r
          else TLiteral (take (length s - length r) s) r
      | None \<Rightarrow>
     (case match_url s of
        Some (url, r) \<Rightarrow> TNode (LinkNode url None) r
      | None \<Rightarrow>
     (case matchMarker s of
        None \<Rightarrow> TLiteral (take 1 s) (drop 1 s)
      | Some (opn, mark) \<Rightarrow>
         (case findClose opn (drop (length opn) s) of
            None \<Rightarrow> TLiteral (take 1 s) (drop 1 s)
          | Some k \<Rightarrow>
             (let inner = take k (drop (length opn) s); r = drop (length opn + k + length opn) s
              in if mark = CodeMark then TNode (TextNode inner (marks @ [CodeMark])) r
                 else TMark mark inner r))))))))"

definition token_rest :: "token \<Rightarrow> js_string" where
  "token_rest t = (case t of TNode _ r \<Rightarrow> r | TLiteral _ r \<Rightarrow> r | TMark _ _ r \<Rightarrow> r)"

lemma match_id_shrinks: "match_id close s = Some (i, r) \<Longrightarrow> length r \<le> length s"
  using length_dropWhile_le [of is_cuid_char s] by (auto simp: match_id_def Let_def split: if_splits)

lemma match_token_shrinks: "match_token opn close s = Some (i, r) \<Longrightarrow> opn \<noteq> [] \<Longrightarrow> length r < length s"
  using match_id_shrinks [of close "drop (length opn) s" i r] starts_with_length [of opn s]
  by (cases opn) (auto simp: match_token_def split: if_splits)

lemma match_link_shrinks: "match_link s = Some (l, u, r) \<Longrightarrow> length r < length s"
proof -
  assume m: "match_link s = Some (l, u, r)"
  let ?lok = "\<lambda>c :: nat. c \<noteq> 93 \<and> c \<noteq> 10" and ?uok = "\<lambda>c. c \<noteq> 40 \<and> c \<noteq> 41 \<and> \<not> is_js_space c"
  from m have s: "starts_with [91] s"
    and r: "r = drop 1 (dropWhile ?uok (drop 2 (dropWhile ?lok (drop 1 s))))"
    by (auto simp: match_link_def Let_def split: if_splits)
  have "length r \<le> length (drop 1 s)"
    unfolding r by (metis (no_types, lifting) diff_le_self le_trans length_drop length_dropWhile_le)
  with starts_with_length [OF s] show ?thesis by simp
qed

lemma match_url_shrinks: "match_url s = Some (u, r) \<Longrightarrow> length r < length s"
  by (auto simp: match_url_def Let_def js_def split: if_splits dest!: starts_with_length)

lemma findClose_bound: "findClose opn s = Some k \<Longrightarrow> k < length s"
  by (induction opn s arbitrary: k rule: findClose.induct) (auto split: if_splits)

lemma match_mention_shrinks:
  "match_user s = Some (i, r) \<Longrightarrow> length r < length s"
  "match_channel s = Some (i, r) \<Longrightarrow> length r < length s"
  "match_role s = Some (i, r) \<Longrightarrow> length r < length s"
  by (simp_all add: match_user_def match_channel_def match_role_def match_token_shrinks)

lemma close_shrinks:
  assumes "matchMarker s = Some (opn, mark)" and "findClose opn (drop (length opn) s) = Some k"
  shows "length (drop (length opn + k + length opn) s) < length s"
    and "length (take k (drop (length opn) s)) < length s"
proof -
  have "0 < length opn" using matchMarker_Some [OF assms(1)] by simp
  moreover have "k < length s - length opn" using findClose_bound [OF assms(2)] by simp
  ultimately show "length (drop (length opn + k + length opn) s) < length s"
    and "length (take k (drop (length opn) s)) < length s"
    by (simp_all only: length_drop length_take)
qed

definition shrinks :: "js_string \<Rightarrow> token \<Rightarrow> bool" where
  "shrinks s t \<longleftrightarrow> (case t of TNode n r \<Rightarrow> s \<noteq> [] \<longrightarrow> length r < length s
     | TLiteral lit r \<Rightarrow> s \<noteq> [] \<longrightarrow> length r < length s
     | TMark mark inner r \<Rightarrow> length r < length s \<and> length inner < length s)"

lemma next_token_ok: "shrinks s (next_token lr marks s)"
proof -
  have "s \<noteq> [] \<Longrightarrow> length (drop 1 s) < length s" by (cases s) simp_all
  then have one: "shrinks s (TLiteral (take 1 s) (drop 1 s))" by (simp add: shrinks_def)
  have marks: "shrinks s (case matchMarker s of
        None \<Rightarrow> TLiteral (take 1 s) (drop 1 s)
      | Some (opn, mark) \<Rightarrow>
         (case findClose opn (drop (length opn) s) of
            None \<Rightarrow> TLiteral (take 1 s) (drop 1 s)
          | Some k \<Rightarrow>
             (let inner = take k (drop (length opn) s); r = drop (length opn + k + length opn) s
              in if mark = CodeMark then TNode (TextNode inner (marks @ [CodeMark])) r
                 else TMark mark inner r)))"
    using one close_shrinks [of s]
    by (auto simp: shrinks_def Let_def split: option.split)
  show ?thesis
    unfolding next_token_def
    using marks match_mention_shrinks [of s] match_link_shrinks [of s] match_url_shrinks [of s]
    by (auto simp: shrinks_def split: option.split)
qed

lemma next_token_shrinks:
  "s \<noteq> [] \<Longrightarrow> next_token lr marks s = TNode n r \<Longrightarrow> length r < length s"
  "s \<noteq> [] \<Longrightarrow> next_token lr marks s = TLiteral lit r \<Longrightarrow> length r < length s"
  "next_token lr marks s = TMark mark inner r \<Longrightarrow> length r < length s"
  "next_token lr marks s = TMark mark inner r \<Longrightarrow> length inner < length s"
  using next_token_ok [of s lr marks] by (simp_all add: shrinks_def)

text \<open>
  \<open>parseInlineRun\<close>: the loop over the text, from position \<open>pos\<close> on. Its recursive call is on
  the text between two markers, with one more mark, after the depth check.
\<close>

function inline_loop :: "clock \<Rightarrow> label_resolvers \<Rightarrow> text_mark list \<Rightarrow> js_string \<Rightarrow> nat \<Rightarrow> js_string \<Rightarrow>
    inline_node list \<Rightarrow> scan_state \<Rightarrow> parse_error + inline_node list \<times> scan_state" where
  "inline_loop late lr marks s pos buf out st =
     (if s = [] then flush_text late marks buf out st
      else if pos mod 1024 = 0 \<and> late (sc_reads st) then Inl PARSE_TIMEOUT
      else let st = (if pos mod 1024 = 0 then st\<lparr>sc_reads := sc_reads st + 1\<rparr> else st) in
        case next_token lr marks s of
          TNode n r \<Rightarrow>
            (case emit late marks buf n out st of
               Inl e \<Rightarrow> Inl e
             | Inr (out', st') \<Rightarrow>
                 inline_loop late lr marks r (pos + (length s - length r)) [] out' st')
        | TLiteral lit r \<Rightarrow>
            inline_loop late lr marks r (pos + (length s - length r)) (buf @ lit) out st
        | TMark mark inner r \<Rightarrow>
            (case flush_text late marks buf out st of
               Inl e \<Rightarrow> Inl e
             | Inr (out', st') \<Rightarrow>
                 if length (marks @ [mark]) > MAX_DEPTH then Inl PARSE_DEPTH_EXCEEDED
                 else (case inline_loop late lr (marks @ [mark]) inner 0 [] [] st' of
                    Inl e \<Rightarrow> Inl e
                  | Inr (nodes, st'') \<Rightarrow>
                      inline_loop late lr marks r (pos + (length s - length r)) [] (out' @ nodes) st'')))"
  by auto
termination
  by (relation "measure (\<lambda>(late, lr, marks, s, pos, buf, out, st). length s)")
    (auto dest: next_token_shrinks)

declare inline_loop.simps [simp del]

definition parseInline :: "clock \<Rightarrow> label_resolvers \<Rightarrow> js_string \<Rightarrow> scan_state \<Rightarrow>
    parse_error + inline_node list \<times> scan_state" where
  "parseInline late lr text st =
     (case enforceInlineMarkerDepth text of Inl e \<Rightarrow> Inl e
      | Inr _ \<Rightarrow> inline_loop late lr [] text 0 [] [] st)"

section \<open>Blocks\<close>

fun split_lines :: "js_string \<Rightarrow> js_string list" where
  "split_lines [] = [[]]"
| "split_lines (c # cs) =
     (if c = 10 then [] # split_lines cs
      else case split_lines cs of [] \<Rightarrow> [[c]] | l # ls \<Rightarrow> (c # l) # ls)"

definition join_lines :: "js_string list \<Rightarrow> js_string" where
  "join_lines ls = (case ls of [] \<Rightarrow> [] | l # rest \<Rightarrow> l @ concat (map (\<lambda>x. 10 # x) rest))"

definition match_item :: "bool \<Rightarrow> js_string \<Rightarrow> js_string option" where
  "match_item ordered line = (if ordered then match_ordered line else match_unordered line)"

definition is_paragraph_line :: "js_string \<Rightarrow> bool" where
  "is_paragraph_line line \<longleftrightarrow> match_fence line = None \<and> match_heading line = None
     \<and> match_quote line = None \<and> match_ordered line = None \<and> match_unordered line = None"

definition parse_item :: "clock \<Rightarrow> label_resolvers \<Rightarrow> js_string \<Rightarrow> scan_state \<Rightarrow>
    parse_error + rich_node list \<times> scan_state" where
  "parse_item late lr text st =
     (case bumpNode late st of Inl e \<Rightarrow> Inl e
      | Inr st' \<Rightarrow> (case parseInline late lr text st' of Inl e \<Rightarrow> Inl e
          | Inr (nodes, st'') \<Rightarrow> Inr (map InlineNode nodes, st'')))"

fun list_items :: "clock \<Rightarrow> label_resolvers \<Rightarrow> bool \<Rightarrow> js_string list \<Rightarrow> rich_node list list \<Rightarrow> scan_state \<Rightarrow>
    parse_error + rich_node list list \<times> js_string list \<times> scan_state" where
  "list_items late lr ordered [] items st = Inr (items, [], st)"
| "list_items late lr ordered (line # lines) items st =
     (case match_item ordered line of
        None \<Rightarrow> Inr (items, line # lines, st)
      | Some text \<Rightarrow>
         (case parse_item late lr text st of Inl e \<Rightarrow> Inl e
          | Inr (item, st') \<Rightarrow> list_items late lr ordered lines (items @ [item]) st'))"

lemma list_items_shrinks:
  "list_items late lr ord lines items st = Inr (items', rest, st') \<Longrightarrow> length rest \<le> length lines"
  by (induction late lr ord lines items st rule: list_items.induct)
    (force split: option.splits sum.splits prod.splits)+

function parse_blocks :: "clock \<Rightarrow> label_resolvers \<Rightarrow> js_string list \<Rightarrow> rich_node list \<Rightarrow> scan_state \<Rightarrow>
    parse_error + rich_node list \<times> scan_state" where
  "parse_blocks late lr [] out st = Inr (out, st)"
| "parse_blocks late lr (line # lines) out st =
     (case bumpNode late st of
        Inl e \<Rightarrow> Inl e
      | Inr st \<Rightarrow>
     (case match_fence line of
        Some lang \<Rightarrow>
          (let body = takeWhile (\<lambda>l. \<not> closes_fence l) lines;
               rest = tl (dropWhile (\<lambda>l. \<not> closes_fence l) lines)
           in parse_blocks late lr rest
                (out @ [CodeBlock (join_lines body) (if lang = [] then None else Some lang)]) st)
      | None \<Rightarrow>
     (case match_heading line of
        Some (level, text) \<Rightarrow>
          (case parseInline late lr text st of Inl e \<Rightarrow> Inl e
           | Inr (nodes, st') \<Rightarrow> parse_blocks late lr lines (out @ [Heading level nodes]) st')
      | None \<Rightarrow>
     (if match_quote line \<noteq> None
      then let inner = line # takeWhile (\<lambda>l. match_quote l \<noteq> None) lines;
               rest = dropWhile (\<lambda>l. match_quote l \<noteq> None) lines
           in (case parseInline late lr (join_lines (map (\<lambda>l. the (match_quote l)) inner)) st of
                 Inl e \<Rightarrow> Inl e
               | Inr (nodes, st') \<Rightarrow>
                   parse_blocks late lr rest (out @ [Blockquote (map InlineNode nodes)]) st')
      else if match_ordered line \<noteq> None \<or> match_unordered line \<noteq> None
      then let ordered = (match_ordered line \<noteq> None)
           in (case parse_item late lr (the (match_item ordered line)) st of
                 Inl e \<Rightarrow> Inl e
               | Inr (item, st') \<Rightarrow>
                   (case list_items late lr ordered lines [item] st' of
                      Inl e \<Rightarrow> Inl e
                    | Inr (items, rest, st'') \<Rightarrow>
                        parse_blocks late lr rest (out @ [ListNode ordered 0 items]) st''))
      else let joined = join_lines (line # takeWhile is_paragraph_line lines);
               rest = dropWhile is_paragraph_line lines
           in if js_trim joined = [] then parse_blocks late lr rest out st
              else (case parseInline late lr joined st of
                      Inl e \<Rightarrow> Inl e
                    | Inr (nodes, st') \<Rightarrow> parse_blocks late lr rest (out @ [Paragraph nodes]) st')))))"
  by pat_completeness auto
termination
proof (relation "measure (\<lambda>(late, lr, lines, out, st). length lines)", goal_cases)
  case (2 late lr line lines out st)
  with length_dropWhile_le show ?case by (auto simp: less_Suc_eq_le intro: le_trans [OF diff_le_self])
qed (auto simp: less_Suc_eq_le length_dropWhile_le dest!: list_items_shrinks
       intro!: length_dropWhile_le le_trans [OF diff_le_self length_dropWhile_le])

declare parse_blocks.simps [simp del]

section \<open>Plain text\<close>

definition inline_plain :: "inline_node \<Rightarrow> js_string" where
  "inline_plain n = (case n of
      TextNode t _ \<Rightarrow> t
    | MentionUser _ _ \<Rightarrow> [] | MentionChannel _ _ \<Rightarrow> [] | MentionRole _ _ \<Rightarrow> []
    | Emoji name \<Rightarrow> [58] @ name @ [58]
    | LinkNode url text \<Rightarrow> (case text of None \<Rightarrow> url | Some t \<Rightarrow> t))"

definition join_space :: "js_string list \<Rightarrow> js_string" where
  "join_space xs = (case xs of [] \<Rightarrow> [] | x # rest \<Rightarrow> x @ concat (map (\<lambda>y. 32 # y) rest))"

fun astToPlain :: "rich_node \<Rightarrow> js_string" where
  "astToPlain (InlineNode n) = inline_plain n"
| "astToPlain (Paragraph ns) = concat (map inline_plain ns)"
| "astToPlain (Heading l ns) = concat (map inline_plain ns)"
| "astToPlain (Blockquote ns) = concat (map astToPlain ns)"
| "astToPlain (CodeBlock code lang) = code"
| "astToPlain (ListNode ord indent items) = join_space (map (\<lambda>ns. concat (map astToPlain ns)) items)"
| "astToPlain (Subtext ns) = concat (map inline_plain ns)"
| "astToPlain Divider = []"

fun collapse_spaces :: "bool \<Rightarrow> js_string \<Rightarrow> js_string" where
  \<comment> \<open>\<open>replace(/\s+/g, ' ')\<close>; the flag says that a run of white space was just replaced\<close>
  "collapse_spaces b [] = []"
| "collapse_spaces b (c # cs) =
     (if is_js_space c then (if b then [] else [32]) @ collapse_spaces True cs
      else c # collapse_spaces False cs)"

definition collapsePlain :: "js_string \<Rightarrow> js_string" where
  "collapsePlain s = js_trim (collapse_spaces False s)"

definition parseMrkdwn :: "clock \<Rightarrow> label_resolvers \<Rightarrow> js_string \<Rightarrow> parse_error + rich_node list \<times> js_string"
where
  "parseMrkdwn late lr raw =
     (case parse_blocks late lr (split_lines raw) [] \<lparr>sc_nodeCount = 1, sc_reads = 0\<rparr> of
        Inl e \<Rightarrow> Inl e
      | Inr (nodes, _) \<Rightarrow> Inr (nodes, collapsePlain (concat (map astToPlain nodes))))"

definition enforceContentLength :: "js_string \<Rightarrow> parse_error + unit" where
  "enforceContentLength plain = (if length plain > MAX_PLAIN_LENGTH then Inl MESSAGE_TOO_LONG else Inr ())"

section \<open>Lemmas: limits and links\<close>

text \<open>An emitted inline node: a safe link, and marks within the depth limit (code on top).\<close>

definition inline_ok :: "inline_node \<Rightarrow> bool" where
  "inline_ok n = (case n of
      TextNode t ms \<Rightarrow> length ms \<le> MAX_DEPTH + 1
    | LinkNode url _ \<Rightarrow> isSafeLinkUrl url
    | _ \<Rightarrow> True)"

lemma drop_spaces_id: "list_all (\<lambda>c. \<not> is_js_space c) s \<Longrightarrow> js_trim s = s"
proof -
  have "dropWhile is_js_space t = t" if "list_all (\<lambda>c. \<not> is_js_space c) t" for t
    using that by (cases t) simp_all
  then show "list_all (\<lambda>c. \<not> is_js_space c) s \<Longrightarrow> js_trim s = s"
    by (simp add: js_trim_def list_all_rev)
qed

lemma match_url_parts:
  assumes "match_url s = Some (url, r)"
  obtains scheme where "scheme = js ''https://'' \<or> scheme = js ''http://''"
    and "url = scheme @ rev (dropWhile is_url_punct (rev (takeWhile is_url_char (drop (length scheme) s))))"
proof -
  define scheme where "scheme = (if starts_with (js ''https://'') s then js ''https://''
                    else if starts_with (js ''http://'') s then js ''http://'' else [])"
  have "scheme \<noteq> []" and "url = scheme @ rev (dropWhile is_url_punct (rev (takeWhile is_url_char (drop (length scheme) s))))"
    using assms unfolding match_url_def scheme_def [symmetric]
    by (simp_all del: js_simps add: Let_def split: if_splits)
  moreover from this(1) have "scheme = js ''https://'' \<or> scheme = js ''http://''"
    by (simp add: scheme_def split: if_splits)
  ultimately show ?thesis using that by blast
qed

lemma match_url_safe:
  assumes "match_url s = Some (url, r)"
  shows "isSafeLinkUrl url"
proof -
  from match_url_parts [OF assms] obtain scheme body where url: "url = scheme @ body"
      and scheme: "scheme = js ''https://'' \<or> scheme = js ''http://''"
      and body: "body = rev (dropWhile is_url_punct (rev (takeWhile is_url_char (drop (length scheme) s))))"
    by metis
  have "set body \<subseteq> set (takeWhile is_url_char (drop (length scheme) s))"
    unfolding body using set_dropWhileD by fastforce
  then have "list_all (\<lambda>c. \<not> is_js_space c) body"
    by (auto simp: list_all_iff is_url_char_def dest!: subsetD set_takeWhileD)
  moreover have "list_all (\<lambda>c. \<not> is_js_space c) scheme"
    using scheme by (auto simp: is_js_space_def)
  ultimately have "js_trim url = url" by (simp add: url drop_spaces_id)
  moreover have "safe_scheme url" using scheme
    by (auto simp: url safe_scheme_def starts_with_def lower_def is_js_upper_def)
  moreover have "url \<noteq> []" using scheme by (auto simp: url)
  ultimately show ?thesis by (simp add: isSafeLinkUrl_def Let_def)
qed

lemma next_token_inline_ok:
  "length marks \<le> MAX_DEPTH \<Longrightarrow> next_token lr marks s = TNode n r \<Longrightarrow> inline_ok n"
  by (auto simp: next_token_def inline_ok_def Let_def match_url_safe split: option.splits if_splits)

text \<open>The budget: every emitted inline node was counted.\<close>

definition counted :: "nat \<Rightarrow> scan_state \<Rightarrow> bool" where
  "counted k st \<longleftrightarrow> k \<le> sc_nodeCount st \<and> sc_nodeCount st \<le> MAX_NODES"

lemma bump_counted: "bumpNode late st = Inr st' \<Longrightarrow> counted k st \<Longrightarrow> counted (k + 1) st'"
  by (auto simp: bumpNode_def counted_def Let_def split: if_splits)

definition out_ok :: "nat \<Rightarrow> inline_node list \<Rightarrow> scan_state \<Rightarrow> bool" where
  "out_ok k out st \<longleftrightarrow> counted (k + length out) st \<and> list_all inline_ok out"

lemma flush_ok:
  assumes "flush_text late marks buf out st = Inr (out', st')" and "out_ok k out st"
    and "length marks \<le> MAX_DEPTH"
  shows "out_ok k out' st'"
  using assms by (auto simp: flush_text_def out_ok_def inline_ok_def dest: bump_counted split: if_splits sum.splits)

lemma emit_ok:
  assumes "emit late marks buf n out st = Inr (out', st')" and "out_ok k out st"
    and "length marks \<le> MAX_DEPTH" and "inline_ok n"
  shows "out_ok k out' st'"
proof -
  from assms(1) obtain o1 s1 s2 where f: "flush_text late marks buf out st = Inr (o1, s1)"
      and b: "bumpNode late s1 = Inr s2" "out' = o1 @ [n]" "st' = s2"
    by (auto simp: emit_def split: sum.splits)
  from flush_ok [OF f assms(2,3)] b assms(4) show ?thesis
    by (auto simp: out_ok_def dest: bump_counted)
qed

lemma inline_loop_ok:
  "inline_loop late lr marks s pos buf out st = Inr (out', st') \<Longrightarrow> out_ok k out st \<Longrightarrow>
   length marks \<le> MAX_DEPTH \<Longrightarrow> out_ok k out' st'"
proof (induction late lr marks s pos buf out st arbitrary: k out' st' rule: inline_loop.induct)
  case (1 late lr marks s pos buf out st)
  let ?st = "if pos mod 1024 = 0 then st\<lparr>sc_reads := sc_reads st + 1\<rparr> else st"
  show ?case
  proof (cases "s = []")
    case True
    with "1.prems" show ?thesis by (auto simp: inline_loop.simps [of _ _ _ "[]"] intro: flush_ok)
  next
    case False
    have late: "\<not> (pos mod 1024 = 0 \<and> late (sc_reads st))"
      using "1.prems"(1) False by (auto simp: inline_loop.simps [of _ _ _ s])
    note eq = "1.prems"(1) [unfolded inline_loop.simps [of _ _ _ s] Let_def if_not_P [OF False] if_not_P [OF late]]
    have st: "out_ok k out ?st" using "1.prems"(2) by (simp add: out_ok_def counted_def)
    note IH = "1.IH" [OF False late refl]
    show ?thesis
    proof (cases "next_token lr marks s")
      case (TNode n r)
      with eq obtain o1 s1 where e: "emit late marks buf n out ?st = Inr (o1, s1)"
        and rest: "inline_loop late lr marks r (pos + (length s - length r)) [] o1 s1 = Inr (out', st')"
        by (auto split: sum.splits)
      from IH(1) [OF TNode e refl rest emit_ok [OF e st "1.prems"(3) next_token_inline_ok [OF "1.prems"(3) TNode]] "1.prems"(3)]
      show ?thesis .
    next
      case (TLiteral lit r)
      with eq have "inline_loop late lr marks r (pos + (length s - length r)) (buf @ lit) out ?st = Inr (out', st')"
        by simp
      from IH(2) [OF TLiteral this st "1.prems"(3)] show ?thesis .
    next
      case (TMark mark inner r)
      with eq obtain o1 s1 nodes s2 where f: "flush_text late marks buf out ?st = Inr (o1, s1)"
        and d: "\<not> length (marks @ [mark]) > MAX_DEPTH"
        and i: "inline_loop late lr (marks @ [mark]) inner 0 [] [] s1 = Inr (nodes, s2)"
        and rest: "inline_loop late lr marks r (pos + (length s - length r)) [] (o1 @ nodes) s2 = Inr (out', st')"
        by (auto split: sum.splits if_splits)
      have o1: "out_ok k o1 s1" by (rule flush_ok [OF f st "1.prems"(3)])
      have "out_ok (k + length o1) [] s1" using o1 by (simp add: out_ok_def)
      from IH(3) [OF TMark f refl d i this] d have "out_ok (k + length o1) nodes s2" by simp
      with o1 have "out_ok k (o1 @ nodes) s2" by (simp add: out_ok_def add.assoc)
      from IH(4) [OF TMark f refl d i refl rest this "1.prems"(3)] show ?thesis .
    qed
  qed
qed

lemma parseInline_ok:
  assumes "parseInline late lr text st = Inr (nodes, st')" and "counted k st"
  shows "counted (k + length nodes) st' \<and> list_all inline_ok nodes"
  using inline_loop_ok [of late lr "[]" "text" 0 "[]" "[]" st nodes st' k] assms
  by (auto simp: parseInline_def out_ok_def split: sum.splits)

text \<open>What the parser builds: no block deeper than a list or quote of inline nodes.\<close>

definition block_ok :: "rich_node \<Rightarrow> bool" where
  "block_ok b = (case b of
      Paragraph ns \<Rightarrow> list_all inline_ok ns
    | Heading l ns \<Rightarrow> 1 \<le> l \<and> l \<le> 3 \<and> list_all inline_ok ns
    | Blockquote ns \<Rightarrow> list_all (\<lambda>n. \<exists>i. n = InlineNode i \<and> inline_ok i) ns
    | CodeBlock c l \<Rightarrow> True
    | ListNode ord indent items \<Rightarrow> indent = 0
        \<and> list_all (list_all (\<lambda>n. \<exists>i. n = InlineNode i \<and> inline_ok i)) items
    | _ \<Rightarrow> False)"

definition blocks_count :: "rich_node list \<Rightarrow> nat" where
  "blocks_count bs = sum_list (map (\<lambda>n. fst (measureTree n)) bs)"

lemma blocks_count_simps [simp]:
  "blocks_count [] = 0" "blocks_count (bs @ [b]) = blocks_count bs + fst (measureTree b)"
  by (simp_all add: blocks_count_def)

lemma count_inline_nodes: "sum_list (map (\<lambda>n. fst (measureTree n)) (map InlineNode ns)) = length ns"
  by (induction ns) auto

definition blocks_ok :: "rich_node list \<Rightarrow> scan_state \<Rightarrow> bool" where
  "blocks_ok out st \<longleftrightarrow> counted (1 + blocks_count out) st \<and> list_all block_ok out"

lemma parse_item_ok:
  assumes "parse_item late lr text st = Inr (item, st')" and "counted k st"
  shows "counted (k + sum_list (map (\<lambda>n. fst (measureTree n)) item)) st'
    \<and> list_all (\<lambda>n. \<exists>i. n = InlineNode i \<and> inline_ok i) item"
proof -
  from assms(1) obtain s1 nodes where b: "bumpNode late st = Inr s1"
      and p: "parseInline late lr text s1 = Inr (nodes, st')" and item: "item = map InlineNode nodes"
    by (auto simp: parse_item_def split: sum.splits)
  from bump_counted [OF b assms(2)] have "counted k s1" by (simp add: counted_def)
  from parseInline_ok [OF p this] show ?thesis
    unfolding item count_inline_nodes by (auto simp: list_all_iff)
qed

abbreviation items_count :: "rich_node list list \<Rightarrow> nat" where
  "items_count items \<equiv> sum_list (map (\<lambda>ns. sum_list (map (\<lambda>n. fst (measureTree n)) ns)) items)"

lemma list_items_ok:
  assumes "list_items late lr ord lines items st = Inr (items', rest, st')"
    and "counted (k + items_count items) st"
    and "list_all (list_all (\<lambda>n. \<exists>i. n = InlineNode i \<and> inline_ok i)) items"
  shows "counted (k + items_count items') st'
    \<and> list_all (list_all (\<lambda>n. \<exists>i. n = InlineNode i \<and> inline_ok i)) items'"
  using assms
proof (induction late lr ord lines items st rule: list_items.induct)
  case (2 late lr ord line lines items st)
  show ?case
  proof (cases "match_item ord line")
    case None
    with 2 show ?thesis by simp
  next
    case (Some body)
    with "2.prems" obtain item s1 where p: "parse_item late lr body st = Inr (item, s1)"
      and rest: "list_items late lr ord lines (items @ [item]) s1 = Inr (items', rest, st')"
      by (auto split: sum.splits)
    from "2.IH" [OF Some p refl rest] parse_item_ok [OF p "2.prems"(2)] "2.prems"(3)
    show ?thesis by (simp add: add.assoc)
  qed
qed simp

lemma blocks_okI:
  assumes "bumpNode late st = Inr s1" and "blocks_ok out st" and "block_ok b"
    and "\<And>k. counted k s1 \<Longrightarrow> counted (k + (fst (measureTree b) - 1)) st'" and "1 \<le> fst (measureTree b)"
  shows "blocks_ok (out @ [b]) st'"
proof -
  from assms(1,2) have "counted (1 + blocks_count out + 1) s1"
    unfolding blocks_ok_def by (blast intro: bump_counted)
  from assms(4) [OF this] assms(2,3,5) show ?thesis by (simp add: blocks_ok_def)
qed

lemma blocks_ok_bump: "bumpNode late st = Inr s1 \<Longrightarrow> blocks_ok out st \<Longrightarrow> blocks_ok out s1"
  using bump_counted [of late st s1 "1 + blocks_count out"] by (simp add: blocks_ok_def counted_def)

lemma block_of_inline:
  assumes "bumpNode late st = Inr s1" and "blocks_ok out st"
    and p: "parseInline late lr body s1 = Inr (nodes, st')"
    and b: "\<And>ns. list_all inline_ok ns \<Longrightarrow> block_ok (f ns)" "\<And>ns. fst (measureTree (f ns)) = 1 + length ns"
  shows "blocks_ok (out @ [f nodes]) st'"
  using parseInline_ok [OF p] bump_counted [OF assms(1)] assms(2) b(1) [of nodes]
  by (intro blocks_okI [OF assms(1,2)])
    (auto simp: b(2) blocks_ok_def)

lemma match_heading_level: "match_heading line = Some (level, body) \<Longrightarrow> 1 \<le> level \<and> level \<le> 3"
  by (auto simp: match_heading_def Let_def Suc_le_eq split: if_splits)

lemma list_block_ok:
  assumes b: "bumpNode late st = Inr s1" "blocks_ok out st"
    and p: "parse_item late lr body s1 = Inr (item, s2)"
    and l: "list_items late lr ordered lines [item] s2 = Inr (items, rest, s3)"
  shows "blocks_ok (out @ [ListNode ordered 0 items]) s3"
proof (rule blocks_okI [OF b])
  have c: "counted (k + items_count items) s3
      \<and> list_all (list_all (\<lambda>n. \<exists>i. n = InlineNode i \<and> inline_ok i)) items" if "counted k s1" for k
    by (rule list_items_ok [OF l]) (use parse_item_ok [OF p that] in simp_all)
  moreover obtain k where "counted k s1"
    using bump_counted [OF b(1)] b(2) unfolding blocks_ok_def by blast
  ultimately show "block_ok (ListNode ordered 0 items)" by (auto simp: block_ok_def)
  show "counted (k + (fst (measureTree (ListNode ordered 0 items)) - 1)) s3" if "counted k s1" for k
    using c [OF that] by simp
qed simp

lemma parse_blocks_ok:
  "parse_blocks late lr lines out st = Inr (out', st') \<Longrightarrow> blocks_ok out st \<Longrightarrow> blocks_ok out' st'"
proof (induction late lr lines out st arbitrary: out' st' rule: parse_blocks.induct)
  case (1 late lr out st)
  then show ?case by (simp add: parse_blocks.simps)
next
  case (2 late lr line lines out st)
  from "2.prems"(1) obtain s1 where b: "bumpNode late st = Inr s1"
    by (auto simp: parse_blocks.simps split: sum.splits)
  note eq = "2.prems"(1) [unfolded parse_blocks.simps b sum.case]
  note ok = "2.prems"(2)
  show ?case
  proof (cases "match_fence line")
    case (Some lang)
    let ?b = "CodeBlock (join_lines (takeWhile (\<lambda>l. \<not> closes_fence l) lines)) (if lang = [] then None else Some lang)"
    have "blocks_ok (out @ [?b]) s1"
      by (rule blocks_okI [OF b ok]) (simp_all add: block_ok_def)
    with "2.IH"(6) [OF b Some refl refl] eq Some show ?thesis by (simp add: Let_def)
  next
    case nofence: None
    show ?thesis
    proof (cases "match_heading line")
      case (Some h)
      obtain level body where h: "h = (level, body)" by (cases h)
      from eq nofence Some h obtain nodes s2 where p: "parseInline late lr body s1 = Inr (nodes, s2)"
        and rest: "parse_blocks late lr lines (out @ [Heading level nodes]) s2 = Inr (out', st')"
        by (auto split: sum.splits)
      have "blocks_ok (out @ [Heading level nodes]) s2"
        by (rule block_of_inline [OF b ok p]) (use match_heading_level Some h in \<open>auto simp: block_ok_def\<close>)
      from "2.IH"(5) [OF b nofence Some h [symmetric] p refl rest this] show ?thesis .
    next
      case nohead: None
      show ?thesis
      proof (cases "match_quote line = None")
        case False
        let ?inner = "line # takeWhile (\<lambda>l. match_quote l \<noteq> None) lines"
        from eq nofence nohead False obtain nodes s2 where
          p: "parseInline late lr (join_lines (map (\<lambda>l. the (match_quote l)) ?inner)) s1 = Inr (nodes, s2)"
          and rest: "parse_blocks late lr (dropWhile (\<lambda>l. match_quote l \<noteq> None) lines)
             (out @ [Blockquote (map InlineNode nodes)]) s2 = Inr (out', st')"
          by (auto simp: Let_def split: sum.splits)
        have "blocks_ok (out @ [Blockquote (map InlineNode nodes)]) s2"
          by (rule block_of_inline [OF b ok p])
            (auto simp: block_ok_def list_all_iff count_inline_nodes simp del: map_map)
        from "2.IH"(1) [OF b nofence nohead False refl refl p refl rest this] show ?thesis .
      next
        case noquote: True
        show ?thesis
        proof (cases "match_ordered line \<noteq> None \<or> match_unordered line \<noteq> None")
          case True
          let ?o = "match_ordered line \<noteq> None"
          from eq nofence nohead noquote True obtain item s2 items rest s3 where
            p: "parse_item late lr (the (match_item ?o line)) s1 = Inr (item, s2)"
            and l: "list_items late lr ?o lines [item] s2 = Inr (items, rest, s3)"
            and rest: "parse_blocks late lr rest (out @ [ListNode ?o 0 items]) s3 = Inr (out', st')"
            by (auto simp: Let_def split: sum.splits)
          from "2.IH"(2) [OF b nofence nohead _ True refl p refl l refl refl rest list_block_ok [OF b ok p l]] noquote
          show ?thesis by simp
        next
          case False
          let ?j = "join_lines (line # takeWhile is_paragraph_line lines)"
          and ?r = "dropWhile is_paragraph_line lines"
          show ?thesis
          proof (cases "js_trim ?j = []")
            case True
            with eq nofence nohead noquote False have "parse_blocks late lr ?r out s1 = Inr (out', st')"
              by (simp add: Let_def)
            from "2.IH"(3) [OF b nofence nohead _ False refl refl True this blocks_ok_bump [OF b ok]] noquote
            show ?thesis by simp
          next
            case filled: False
            with eq nofence nohead noquote False obtain nodes s2 where
              p: "parseInline late lr ?j s1 = Inr (nodes, s2)"
              and rest: "parse_blocks late lr ?r (out @ [Paragraph nodes]) s2 = Inr (out', st')"
              by (auto simp: Let_def split: sum.splits)
            have "blocks_ok (out @ [Paragraph nodes]) s2"
              by (rule block_of_inline [OF b ok p]) (auto simp: block_ok_def)
            from "2.IH"(4) [OF b nofence nohead _ False refl refl filled p refl rest this] noquote
            show ?thesis by simp
          qed
        qed
      qed
    qed
  qed
qed

lemma foldl_max_le: "foldl max a xs \<le> (n :: nat)" if "a \<le> n" and "\<forall>x\<in>set xs. x \<le> n"
  using that by (induction xs arbitrary: a) auto

lemma max_list_le: "\<forall>x\<in>set xs. x \<le> n \<Longrightarrow> max_list xs \<le> n"
  by (simp add: max_list_def foldl_max_le)

lemma block_depth: "block_ok b \<Longrightarrow> snd (measureTree b) \<le> 2"
  by (cases b) (auto simp: block_ok_def list_all_iff numeral_2_eq_2 intro!: max_list_le, fastforce+)

lemma blocks_within_limits:
  assumes "blocks_ok nodes st"
  shows "within_limits nodes"
proof -
  have "max_list (map (\<lambda>n. snd (measureTree n)) nodes) \<le> 2"
    using assms by (auto simp: blocks_ok_def list_all_iff intro!: max_list_le block_depth)
  moreover have "1 + blocks_count nodes \<le> MAX_NODES"
    using assms by (simp add: blocks_ok_def counted_def)
  ultimately show ?thesis
    by (simp add: within_limits_def measureRoot_def blocks_count_def MAX_DEPTH_def)
qed

text \<open>The inline nodes of a tree.\<close>

fun inlines :: "rich_node \<Rightarrow> inline_node list" where
  "inlines (InlineNode n) = [n]"
| "inlines (Paragraph ns) = ns"
| "inlines (Heading l ns) = ns"
| "inlines (Blockquote ns) = concat (map inlines ns)"
| "inlines (CodeBlock c l) = []"
| "inlines (ListNode ord indent items) = concat (map (\<lambda>ns. concat (map inlines ns)) items)"
| "inlines (Subtext ns) = ns"
| "inlines Divider = []"

lemma block_inlines_ok: "block_ok b \<Longrightarrow> n \<in> set (inlines b) \<Longrightarrow> inline_ok n"
  by (cases b) (auto simp: block_ok_def list_all_iff, fastforce+)

lemma parseMrkdwn_blocks_ok:
  assumes "parseMrkdwn late lr raw = Inr (nodes, plain)"
  obtains st where "blocks_ok nodes st"
proof -
  have "blocks_ok [] \<lparr>sc_nodeCount = 1, sc_reads = 0\<rparr>"
    by (simp add: blocks_ok_def counted_def MAX_NODES_def)
  with assms parse_blocks_ok that show ?thesis
    by (fastforce simp: parseMrkdwn_def split: sum.splits)
qed

section \<open>Lemmas: fenced code\<close>

lemma split_lines_line: "10 \<notin> set l \<Longrightarrow> split_lines l = [l]"
  by (induction l) auto

lemma split_lines_append: "10 \<notin> set l \<Longrightarrow> split_lines (l @ 10 # r) = l # split_lines r"
  by (induction l) auto

lemma join_lines_Cons: "ls \<noteq> [] \<Longrightarrow> join_lines (l # ls) = l @ 10 # join_lines ls"
  by (cases ls) (simp_all add: join_lines_def)

lemma split_join: "ls \<noteq> [] \<Longrightarrow> \<forall>l\<in>set ls. 10 \<notin> set l \<Longrightarrow> split_lines (join_lines ls) = ls"
proof (induction ls)
  case (Cons l ls)
  show ?case
  proof (cases "ls = []")
    case True
    with Cons.prems show ?thesis by (simp add: join_lines_def split_lines_line)
  next
    case False
    with Cons show ?thesis by (simp add: join_lines_Cons split_lines_append)
  qed
qed simp

lemma fence_line: "list_all is_lang_char lang \<Longrightarrow> match_fence ([96, 96, 96] @ lang) = Some lang"
proof -
  assume "list_all is_lang_char lang"
  then have "takeWhile is_lang_char lang = lang" and "dropWhile is_lang_char lang = []"
    by (induction lang) simp_all
  then show ?thesis
    by (simp del: takeWhile_eq_all_conv dropWhile_eq_Nil_conv add: match_fence_def starts_with_def)
qed

lemma lang_char_not_newline: "is_lang_char c \<Longrightarrow> c \<noteq> 10"
  by (auto simp: is_lang_char_def is_js_lower_def is_js_upper_def is_js_digit_def)

lemma fence_blocks:
  assumes "list_all is_lang_char lang" and "\<forall>l\<in>set body. \<not> closes_fence l" and "\<not> late 0"
  shows "parse_blocks late lr (([96, 96, 96] @ lang) # body @ [[96, 96, 96]]) [] \<lparr>sc_nodeCount = 1, sc_reads = 0\<rparr>
    = Inr ([CodeBlock (join_lines body) (if lang = [] then None else Some lang)],
        \<lparr>sc_nodeCount = 2, sc_reads = 1\<rparr>)"
proof -
  have close: "closes_fence [96, 96, 96]" by (simp add: closes_fence_def starts_with_def)
  have "bumpNode late \<lparr>sc_nodeCount = 1, sc_reads = 0\<rparr> = Inr \<lparr>sc_nodeCount = 2, sc_reads = 1\<rparr>"
    using assms(3) by (simp add: bumpNode_def MAX_NODES_def numeral_2_eq_2)
  moreover have "takeWhile (\<lambda>l. \<not> closes_fence l) (body @ [[96, 96, 96]]) = body"
    and "dropWhile (\<lambda>l. \<not> closes_fence l) (body @ [[96, 96, 96]]) = [[96, 96, 96]]"
    using assms(2) close by (simp_all add: takeWhile_append2 dropWhile_append2)
  ultimately show ?thesis
    by (simp only: parse_blocks.simps fence_line [OF assms(1)] sum.case option.case Let_def)
      (simp add: parse_blocks.simps)
qed

section \<open>Lemmas: collapsed text\<close>

text \<open>No white space but single blanks; the flag: a blank precedes.\<close>

fun single_blanks :: "bool \<Rightarrow> js_string \<Rightarrow> bool" where
  "single_blanks b [] = True"
| "single_blanks b (c # cs) =
     (if is_js_space c then c = 32 \<and> \<not> b \<and> single_blanks True cs else single_blanks False cs)"

lemma blank_is_space [simp]: "is_js_space 32"
  by (simp add: is_js_space_def)

lemma collapse_single: "single_blanks b (collapse_spaces b s)"
  by (induction b s rule: collapse_spaces.induct) auto

lemma single_blanks_weaken: "single_blanks True s \<Longrightarrow> single_blanks b s"
  by (cases s) auto

lemma single_dropWhile: "single_blanks b s \<Longrightarrow> single_blanks b' (dropWhile is_js_space s)"
  by (induction b s rule: single_blanks.induct) auto

lemma single_prefix: "single_blanks b (s @ t) \<Longrightarrow> single_blanks b s"
  by (induction b s rule: single_blanks.induct) auto

lemma collapse_id: "single_blanks b s \<Longrightarrow> collapse_spaces b s = s"
  by (induction b s rule: single_blanks.induct) auto


lemma single_trim: "single_blanks b s \<Longrightarrow> single_blanks True (js_trim s)"
proof -
  assume "single_blanks b s"
  then have "single_blanks True (dropWhile is_js_space s)" by (rule single_dropWhile)
  moreover obtain t where "dropWhile is_js_space s = js_trim s @ t"
    unfolding js_trim_def by (metis rev_append rev_rev_ident takeWhile_dropWhile_id)
  ultimately show ?thesis by (metis single_prefix)
qed

lemma dropWhile_fix: "dropWhile P s = s \<longleftrightarrow> (s \<noteq> [] \<longrightarrow> \<not> P (hd s))"
  by (cases s) (auto, metis impossible_Cons length_dropWhile_le)

lemma js_trim_idem: "js_trim (js_trim s) = js_trim s"
proof -
  let ?d = "dropWhile is_js_space"
  have "?d (js_trim s) = js_trim s"
  proof (cases "js_trim s = []")
    case False
    obtain t where t: "?d s = js_trim s @ t"
      unfolding js_trim_def by (metis rev_append rev_rev_ident takeWhile_dropWhile_id)
    with False have "hd (?d s) = hd (js_trim s)" and "?d s \<noteq> []" by simp_all
    with False show ?thesis using hd_dropWhile by (metis dropWhile_fix)
  qed simp
  moreover have "?d (rev (js_trim s)) = rev (js_trim s)" by (simp add: js_trim_def)
  ultimately show ?thesis by (simp add: js_trim_def [of "js_trim s"])
qed

lemma single_no_space: "single_blanks b s \<Longrightarrow> c \<in> set s \<Longrightarrow> is_js_space c \<Longrightarrow> c = 32"
  by (induction b s rule: single_blanks.induct) (auto split: if_splits)

lemma collapsePlain_single: "single_blanks True (collapsePlain s)"
  unfolding collapsePlain_def by (rule single_trim [OF collapse_single])

lemma collapsePlain_idem: "collapsePlain (collapsePlain s) = collapsePlain s"
proof -
  have "collapse_spaces False (collapsePlain s) = collapsePlain s"
    by (rule collapse_id [OF single_blanks_weaken [OF collapsePlain_single]])
  then show ?thesis by (simp add: collapsePlain_def js_trim_idem)
qed

section \<open>Properties\<close>

abbreviation no_labels :: label_resolvers where
  "no_labels \<equiv> \<lparr>lr_user = (\<lambda>_. None), lr_channel = (\<lambda>_. None), lr_role = (\<lambda>_. None)\<rparr>"

abbreviation never :: clock where "never \<equiv> (\<lambda>_. False)"

text \<open>C18: whatever the message says, the tree the parser returns fits the limits of the schema
  (at most 500 nodes, at most 10 levels), its headings have level 1 to 3, and every link in it has
  passed the URL check, so no \<open>javascript:\<close> or \<open>data:\<close> link is stored.\<close>

theorem parsed_tree_is_safe:
  assumes "parseMrkdwn late lr raw = Inr (nodes, plain)"
  shows "within_limits nodes
    \<and> (\<forall>url label. LinkNode url label \<in> set (concat (map inlines nodes)) \<longrightarrow> isSafeLinkUrl url)
    \<and> (\<forall>level ns. Heading level ns \<in> set nodes \<longrightarrow> 1 \<le> level \<and> level \<le> 3)"
proof -
  obtain st where ok: "blocks_ok nodes st" by (rule parseMrkdwn_blocks_ok [OF assms])
  then have "within_limits nodes" by (rule blocks_within_limits)
  moreover from ok have all: "list_all block_ok nodes" by (simp add: blocks_ok_def)
  then have "\<forall>url label. LinkNode url label \<in> set (concat (map inlines nodes)) \<longrightarrow> isSafeLinkUrl url"
    by (force simp: list_all_iff inline_ok_def dest: block_inlines_ok)
  moreover from all have "\<forall>level ns. Heading level ns \<in> set nodes \<longrightarrow> 1 \<le> level \<and> level \<le> 3"
    by (force simp: list_all_iff block_ok_def)
  ultimately show ?thesis by blast
qed

text \<open>Fenced code is literal: lines between an opening and a closing fence come back
  verbatim in one code block, whatever markup, mentions or links they hold.\<close>

lemma fenced_code_is_literal:
  assumes "list_all is_lang_char lang" and "\<forall>l\<in>set body. \<not> closes_fence l \<and> 10 \<notin> set l"
    and "\<not> late 0"
  shows "parseMrkdwn late lr (join_lines (([96, 96, 96] @ lang) # body @ [[96, 96, 96]])) =
    Inr ([CodeBlock (join_lines body) (if lang = [] then None else Some lang)],
         collapsePlain (join_lines body))"
proof -
  have "\<forall>l\<in>set (([96, 96, 96] @ lang) # body @ [[96, 96, 96]]). 10 \<notin> set l"
    using assms(1,2) lang_char_not_newline by (auto simp: list_all_iff)
  then have "split_lines (join_lines (([96, 96, 96] @ lang) # body @ [[96, 96, 96]]))
      = ([96, 96, 96] @ lang) # body @ [[96, 96, 96]]"
    by (intro split_join) simp_all
  moreover have "\<forall>l\<in>set body. \<not> closes_fence l" using assms(2) by blast
  ultimately show ?thesis
    using fence_blocks [of lang body late lr] assms(1,3) by (simp add: parseMrkdwn_def)
qed

text \<open>The plain projection is in collapsed form: collapsing it again changes nothing, and the
  only white space in it is the blank, so it is one line for search and notifications.\<close>

lemma plain_text_is_collapsed:
  assumes "parseMrkdwn late lr raw = Inr (nodes, plain)"
  shows "collapsePlain plain = plain \<and> (\<forall>c\<in>set plain. is_js_space c \<longrightarrow> c = 32)"
proof -
  obtain s where "plain = collapsePlain s"
    using assms by (auto simp: parseMrkdwn_def split: sum.splits)
  then show ?thesis
    using collapsePlain_idem single_no_space [OF collapsePlain_single] by auto
qed

lemmas scan_defs = parseMrkdwn_def inline_loop.simps parse_blocks.simps parseInline_def
  enforceInlineMarkerDepth_def lead_scan.simps trail_scan.simps matchMarker_def INLINE_MARKERS_def starts_with_def
  next_token_def match_user_def match_channel_def match_role_def match_token_def match_id_def is_uuid_def
  match_link_def match_url_def flush_text_def emit_def bumpNode_def MAX_NODES_def MAX_DEPTH_def
  match_fence_def match_heading_def match_quote_def match_ordered_def match_unordered_def
  is_lang_char_def is_blank_def is_dot_def is_url_char_def is_url_punct_def is_js_space_def is_js_digit_def
  is_js_lower_def is_js_upper_def is_cuid_char_def is_hex_char_def
  parse_item_def match_item_def is_paragraph_line_def join_lines_def join_space_def inline_plain_def
  collapsePlain_def js_trim_def isSafeLinkUrl_def active_scheme_def is_scheme_char_def safe_scheme_def lower_def
  resolveLabel_def

text \<open>Two adjacent blocks run together in the plain text that search and notifications use.\<close>

lemma adjacent_blocks_are_glued:
  "parseMrkdwn never no_labels (js ''# one'' @ [10] @ js ''two'') =
     Inr ([Heading 1 [TextNode (js ''one'') []], Paragraph [TextNode (js ''two'') []]], js ''onetwo'')"
  by (simp add: scan_defs)

text \<open>A line that ends in CR LF is no heading: \<open>.\<close> does not match the carriage return.\<close>

lemma crlf_heading_is_paragraph:
  "parseMrkdwn never no_labels (js ''# one'' @ [13, 10] @ js ''two'') =
     Inr ([Paragraph [TextNode (js ''# one'' @ [13, 10] @ js ''two'') []]], js ''# one two'')"
  by (simp add: scan_defs)

definition hostile :: js_string where
  "hostile = js ''## *see* [x](javascript:alert)'' @ [10] @ js ''- https://a.io/b.''"

definition hostile_nodes :: "rich_node list" where
  "hostile_nodes = [Heading 2 [TextNode (js ''see'') [Bold], TextNode (js '' [x](javascript:alert)'') []],
     ListNode False 0 [[InlineNode (LinkNode (js ''https://a.io/b'') None), InlineNode (TextNode (js ''.'') [])]]]"

definition hostile_plain :: js_string where
  "hostile_plain = js ''see [x](javascript:alert)https://a.io/b.''"

lemma hostile_parse: "parseMrkdwn never no_labels hostile = Inr (hostile_nodes, hostile_plain)"
  by (simp add: scan_defs hostile_def hostile_nodes_def hostile_plain_def)

theorem parsed_tree_is_safe_witness: "within_limits hostile_nodes \<and> isSafeLinkUrl (js ''https://a.io/b'')"
proof -
  have "LinkNode (js ''https://a.io/b'') None \<in> set (concat (map inlines hostile_nodes))"
    by (simp add: hostile_nodes_def)
  then show ?thesis using parsed_tree_is_safe [OF hostile_parse] by blast
qed

lemma fenced_code_is_literal_example:
  "parseMrkdwn never no_labels (join_lines [js ''```ts'', js ''*a* <x> [l](javascript:y)'', js ''```'']) =
     Inr ([CodeBlock (js ''*a* <x> [l](javascript:y)'') (Some (js ''ts''))], js ''*a* <x> [l](javascript:y)'')"
  using fenced_code_is_literal [of "js ''ts''" "[js ''*a* <x> [l](javascript:y)'']" never no_labels]
  by (simp add: join_lines_def closes_fence_def starts_with_def collapsePlain_def js_trim_def is_js_space_def
      is_lang_char_def is_js_lower_def)

lemma plain_text_is_collapsed_example: "collapsePlain hostile_plain = hostile_plain"
  using plain_text_is_collapsed [OF hostile_parse] by (rule conjunct1)

end
