(* ===== verification/Mentions.thy ===== *)
theory Mentions
  imports Mrkdwn "HOL-Library.AList"
begin

text \<open>
  Mentions of a message body, \<open>apps/api/src/messages/mentions\<close>: the scanner of role names
  (\<open>role-mention-scanner.ts\<close>), the extraction of who is mentioned (\<open>mention-extractor.ts\<close>), the
  rewriting of names to stable tokens (\<open>mention-normalizer.ts\<close>), the permission gates
  (\<open>gate.ts\<close>) and the content pipeline behind them (\<open>mrkdwn-pipeline.ts\<close>). The tables the
  extraction reads are a \<open>directory\<close>. \<open>String.prototype.toLowerCase\<close> is the parameter \<open>lc\<close>;
  a global regular expression is the function of the position it is tried at, and
  \<open>regex_matches\<close> its \<open>matchAll\<close>.
\<close>

section \<open>Data\<close>

record mentions =
  men_users :: "id list"
  men_channels :: "id list"
  men_everyone :: bool
  men_here :: bool
  men_channel :: bool
  men_roles :: "id list"

definition no_mentions :: mentions where
  "no_mentions = \<lparr>men_users = [], men_channels = [], men_everyone = False, men_here = False,
                  men_channel = False, men_roles = []\<rparr>"

record role_mention =
  rm_id :: id
  rm_name :: js_string
  rm_mentionable :: bool

record directory =
  dir_users :: "(id \<times> js_string) list"  \<comment> \<open>user id and username\<close>
  dir_members :: "(id \<times> id) list"  \<comment> \<open>workspace and user\<close>
  dir_channels :: "(id \<times> id \<times> js_string \<times> bool) list"  \<comment> \<open>id, workspace, name, deleted\<close>
  dir_roles :: "(id \<times> role_mention) list"  \<comment> \<open>workspace and role\<close>

definition RESERVED_MENTION_NAMES :: "js_string list" where
  "RESERVED_MENTION_NAMES = [js ''everyone'', js ''here'', js ''channel'']"

section \<open>Code spans\<close>

definition isFenceAt :: "js_string \<Rightarrow> nat \<Rightarrow> bool" where
  "isFenceAt raw i \<longleftrightarrow> (i = 0 \<or> raw ! (i - 1) = 10) \<and> starts_with [96, 96, 96] (drop i raw)"

definition lineEnd :: "js_string \<Rightarrow> nat \<Rightarrow> nat" where
  "lineEnd raw i =
     (let before = length (takeWhile (\<lambda>c. c \<noteq> 10) (drop i raw)); nl = i + before
      in if nl < length raw then nl + 1 else length raw)"

lemma lineEnd_bounds: "i < length raw \<Longrightarrow> i < lineEnd raw i \<and> lineEnd raw i \<le> length raw"
  by (auto simp: lineEnd_def Let_def)

function fence_end :: "js_string \<Rightarrow> nat \<Rightarrow> nat" where
  \<comment> \<open>the search of the closing fence, from the start of a line\<close>
  "fence_end raw j =
     (if j < length raw
      then if isFenceAt raw j then lineEnd raw j else fence_end raw (lineEnd raw j)
      else j)"
  by pat_completeness auto
termination
  by (relation "measure (\<lambda>(raw, j). length raw - j)") (auto dest!: lineEnd_bounds)

declare fence_end.simps [simp del]

lemma fence_end_bounds: "j \<le> length raw \<Longrightarrow> j \<le> fence_end raw j \<and> fence_end raw j \<le> length raw"
proof (induction raw j rule: fence_end.induct)
  case (1 raw j)
  show ?case
  proof (cases "j < length raw \<and> \<not> isFenceAt raw j")
    case True
    then have "fence_end raw j = fence_end raw (lineEnd raw j)" by (simp add: fence_end.simps [of raw j])
    with 1(1) True lineEnd_bounds [of j raw] show ?thesis by auto
  next
    case False
    with 1(2) lineEnd_bounds [of j raw] show ?thesis by (auto simp: fence_end.simps [of raw j])
  qed
qed

definition tick_end :: "js_string \<Rightarrow> nat \<Rightarrow> nat option" where
  \<comment> \<open>the end of the inline code whose opening backtick is at \<open>i\<close>\<close>
  "tick_end raw i =
     (let k = i + 1 + length (takeWhile (\<lambda>c. c \<noteq> 96 \<and> c \<noteq> 10) (drop (i + 1) raw))
      in if k < length raw \<and> raw ! k = 96 then Some (k + 1) else None)"

lemma tick_end_bounds: "tick_end raw i = Some e \<Longrightarrow> i + 1 < e \<and> e \<le> length raw"
  by (auto simp: tick_end_def Let_def split: if_splits)

function code_spans :: "js_string \<Rightarrow> nat \<Rightarrow> (nat \<times> nat) list" where
  "code_spans raw i =
     (if i < length raw then
        if isFenceAt raw i then
          (i, fence_end raw (lineEnd raw i)) # code_spans raw (fence_end raw (lineEnd raw i))
        else if raw ! i = 96 then
          (case tick_end raw i of
             Some e \<Rightarrow> (i, e) # code_spans raw e
           | None \<Rightarrow> code_spans raw (i + 1))
        else code_spans raw (i + 1)
      else [])"
  by pat_completeness auto
termination
proof (relation "measure (\<lambda>(raw, i). length raw - i)", goal_cases)
  case (2 raw i)
  then show ?case using lineEnd_bounds [of i raw] fence_end_bounds [of "lineEnd raw i" raw] by auto
next
  case (4 raw i e)
  then show ?case using tick_end_bounds [of raw i e] by auto
qed auto

declare code_spans.simps [simp del]

definition collectCodeSpans :: "js_string \<Rightarrow> (nat \<times> nat) list" where
  "collectCodeSpans raw = code_spans raw 0"

definition in_code :: "(nat \<times> nat) list \<Rightarrow> nat \<Rightarrow> bool" where
  "in_code spans i \<longleftrightarrow> list_ex (\<lambda>(a, b). a \<le> i \<and> i < b) spans"

section \<open>The scanner of role names\<close>

definition is_word_char :: "nat \<Rightarrow> bool" where
  "is_word_char c \<longleftrightarrow> is_js_lower c \<or> is_js_upper c \<or> is_js_digit c \<or> c = 95"

definition boundary_before :: "js_string \<Rightarrow> nat \<Rightarrow> bool" where
  "boundary_before text i \<longleftrightarrow> i = 0 \<or> \<not> is_word_char (text ! (i - 1))"

definition boundary_at :: "js_string \<Rightarrow> nat \<Rightarrow> bool" where
  "boundary_at text i \<longleftrightarrow> length text \<le> i \<or> \<not> is_word_char (text ! i)"

type_synonym 'v candidate = "js_string \<times> 'v"

definition role_matches :: "(js_string \<Rightarrow> js_string) \<Rightarrow> js_string \<Rightarrow> nat \<Rightarrow> 'v candidate \<Rightarrow> bool" where
  \<comment> \<open>the name of the candidate follows the at sign at \<open>i\<close>\<close>
  "role_matches lc text i c \<longleftrightarrow>
     lc (take (length (fst c)) (drop (i + 1) text)) = lc (fst c)
     \<and> boundary_at text (i + 1 + length (fst c))"

definition role_sorted :: "'v candidate list \<Rightarrow> 'v candidate list" where
  "role_sorted cands =
     sort_key (\<lambda>c. - int (length (fst c)))
       (filter (\<lambda>c. fst c \<noteq> []) (map (\<lambda>(name, v). (js_trim name, v)) cands))"

definition at_mention :: "js_string \<Rightarrow> (nat \<times> nat) list \<Rightarrow> nat \<Rightarrow> bool" where
  "at_mention text spans i \<longleftrightarrow> text ! i = 64 \<and> \<not> in_code spans i \<and> boundary_before text i"

function scan_from ::
  "(js_string \<Rightarrow> js_string) \<Rightarrow> js_string \<Rightarrow> (nat \<times> nat) list \<Rightarrow> 'v candidate list \<Rightarrow> nat \<Rightarrow> (nat \<times> nat \<times> 'v) list"
where
  "scan_from lc text spans cands i =
     (if i < length text then
        if \<not> at_mention text spans i then scan_from lc text spans cands (i + 1)
        else (case find (role_matches lc text i) cands of
                Some c \<Rightarrow> (i, i + 1 + length (fst c), snd c)
                           # scan_from lc text spans cands (i + 1 + length (fst c))
              | None \<Rightarrow> scan_from lc text spans cands (i + 1))
      else [])"
  by pat_completeness auto
termination
  by (relation "measure (\<lambda>(lc, text, spans, cands, i). length text - i)") auto

declare scan_from.simps [simp del]

definition scanRoleMentions ::
  "(js_string \<Rightarrow> js_string) \<Rightarrow> js_string \<Rightarrow> 'v candidate list \<Rightarrow> (nat \<times> nat \<times> 'v) list" where
  "scanRoleMentions lc text cands = scan_from lc text (collectCodeSpans text) (role_sorted cands) 0"

section \<open>Extraction\<close>

definition is_handle_char :: "nat \<Rightarrow> bool" where
  \<comment> \<open>\<open>[A-Za-z0-9_.-]\<close>\<close>
  "is_handle_char c \<longleftrightarrow> is_word_char c \<or> c = 46 \<or> c = 45"

definition is_channel_char :: "nat \<Rightarrow> bool" where
  \<comment> \<open>\<open>[a-z0-9_-]\<close>\<close>
  "is_channel_char c \<longleftrightarrow> is_js_lower c \<or> is_js_digit c \<or> c = 95 \<or> c = 45"

definition MENTION_USER_RE :: "js_string \<Rightarrow> nat \<Rightarrow> js_string option" where
  \<comment> \<open>\<open>/(?<![A-Za-z0-9_])@([A-Za-z0-9_.-]{2,32})/g\<close>\<close>
  "MENTION_USER_RE text i =
     (let h = take 32 (takeWhile is_handle_char (drop (i + 1) text))
      in if text ! i = 64 \<and> boundary_before text i \<and> 2 \<le> length h then Some h else None)"

definition MENTION_CHANNEL_RE :: "js_string \<Rightarrow> nat \<Rightarrow> js_string option" where
  \<comment> \<open>\<open>/(?<![A-Za-z0-9_])#([a-z0-9][a-z0-9_-]{0,31})/g\<close>\<close>
  "MENTION_CHANNEL_RE text i =
     (let h = take 32 (takeWhile is_channel_char (drop (i + 1) text))
      in if text ! i = 35 \<and> boundary_before text i
            \<and> (case h of [] \<Rightarrow> False | c # _ \<Rightarrow> is_js_lower c \<or> is_js_digit c)
         then Some h else None)"

function regex_matches :: "(js_string \<Rightarrow> nat \<Rightarrow> js_string option) \<Rightarrow> js_string \<Rightarrow> nat \<Rightarrow> (nat \<times> js_string) list"
where
  "regex_matches re text i =
     (if i < length text then
        case re text i of
          Some h \<Rightarrow> (i, h) # regex_matches re text (i + 1 + length h)
        | None \<Rightarrow> regex_matches re text (i + 1)
      else [])"
  by pat_completeness auto
termination
  by (relation "measure (\<lambda>(re, text, i). length text - i)") auto

declare regex_matches.simps [simp del]

definition has_token :: "js_string \<Rightarrow> js_string \<Rightarrow> bool" where
  \<comment> \<open>\<open>/(?<![A-Za-z0-9_])@name(?![A-Za-z0-9_])/.test(text)\<close>\<close>
  "has_token name text \<longleftrightarrow>
     list_ex (\<lambda>i. text ! i = 64 \<and> boundary_before text i \<and> starts_with name (drop (i + 1) text)
                  \<and> boundary_at text (i + 1 + length name)) [0..<length text]"

definition hasBroadMentionSignal :: "js_string \<Rightarrow> bool" where
  "hasBroadMentionSignal text \<longleftrightarrow>
     has_token (js ''everyone'') text \<or> has_token (js ''here'') text \<or> has_token (js ''channel'') text"

definition is_special :: "(js_string \<Rightarrow> js_string) \<Rightarrow> js_string \<Rightarrow> bool" where
  "is_special lc h \<longleftrightarrow> lc h \<in> set RESERVED_MENTION_NAMES"

definition mentioned_names :: "(js_string \<Rightarrow> js_string) \<Rightarrow> js_string \<Rightarrow> js_string list" where
  "mentioned_names lc text = filter (\<lambda>h. \<not> is_special lc h) (map snd (regex_matches MENTION_USER_RE text 0))"

definition member_rows :: "directory \<Rightarrow> id \<Rightarrow> js_string list \<Rightarrow> (id \<times> js_string) list" where
  \<comment> \<open>\<open>user.findMany\<close> with \<open>username in names\<close> and a membership of the workspace\<close>
  "member_rows dir ws names =
     filter (\<lambda>(uid, name). name \<in> set names \<and> (ws, uid) \<in> set (dir_members dir)) (dir_users dir)"

definition channel_rows :: "directory \<Rightarrow> id \<Rightarrow> js_string list \<Rightarrow> (id \<times> js_string) list" where
  "channel_rows dir ws names =
     map (\<lambda>(cid, _, name, _). (cid, name))
       (filter (\<lambda>(cid, w, name, deleted). w = ws \<and> \<not> deleted \<and> name \<in> set names) (dir_channels dir))"

definition extractMentions :: "(js_string \<Rightarrow> js_string) \<Rightarrow> directory \<Rightarrow> id option \<Rightarrow> js_string \<Rightarrow> mentions" where
  "extractMentions lc dir workspaceId text =
     (case workspaceId of
        None \<Rightarrow> no_mentions
      | Some ws \<Rightarrow>
          \<lparr>men_users = map fst (member_rows dir ws (mentioned_names lc text)),
           men_channels = map fst (channel_rows dir ws (map snd (regex_matches MENTION_CHANNEL_RE text 0))),
           men_everyone = has_token (js ''everyone'') text,
           men_here = has_token (js ''here'') text,
           men_channel = has_token (js ''channel'') text,
           men_roles = []\<rparr>)"

definition role_candidates :: "(js_string \<Rightarrow> js_string) \<Rightarrow> directory \<Rightarrow> id \<Rightarrow> role_mention candidate list" where
  "role_candidates lc dir ws =
     map (\<lambda>(_, r). (rm_name r, r))
       (filter (\<lambda>(w, r). w = ws \<and> js_trim (rm_name r) \<noteq> [] \<and> \<not> is_special lc (js_trim (rm_name r)))
          (dir_roles dir))"

definition extractRoleMentions ::
  "(js_string \<Rightarrow> js_string) \<Rightarrow> directory \<Rightarrow> id option \<Rightarrow> js_string \<Rightarrow> role_mention list" where
  "extractRoleMentions lc dir workspaceId text =
     (case workspaceId of
        None \<Rightarrow> []
      | Some ws \<Rightarrow>
          if 64 \<notin> set text then []
          else map snd (foldl (\<lambda>m (_, _, r). AList.update (rm_id r) r m) []
                          (scanRoleMentions lc text (role_candidates lc dir ws))))"

definition resolveMentionHandles ::
  "(js_string \<Rightarrow> js_string) \<Rightarrow> directory \<Rightarrow> id option \<Rightarrow> js_string \<Rightarrow> js_string \<Rightarrow> id option" where
  \<comment> \<open>the map from a handle in lower case to the user\<close>
  "resolveMentionHandles lc dir workspaceId text =
     (case workspaceId of
        None \<Rightarrow> Map.empty
      | Some ws \<Rightarrow> foldl (\<lambda>m (uid, name). m(lc name \<mapsto> uid)) Map.empty
                     (member_rows dir ws (mentioned_names lc text)))"

section \<open>Rewriting names to tokens\<close>

type_synonym role_token = "js_string \<times> id"

fun splice :: "js_string \<Rightarrow> nat \<Rightarrow> (nat \<times> nat \<times> js_string) list \<Rightarrow> js_string" where
  \<comment> \<open>the loops that copy the text up to a match, then its token\<close>
  "splice raw cursor [] = drop cursor raw"
| "splice raw cursor ((s, e, token) # ms) = take (s - cursor) (drop cursor raw) @ token @ splice raw e ms"

definition replaceRoleTokens :: "(js_string \<Rightarrow> js_string) \<Rightarrow> js_string \<Rightarrow> role_token list \<Rightarrow> js_string" where
  "replaceRoleTokens lc raw tokens =
     splice raw 0 (map (\<lambda>(s, e, rid). (s, e, js ''<@&'' @ js rid @ js ''>'')) (scanRoleMentions lc raw tokens))"

definition user_token :: "id \<Rightarrow> js_string" where
  "user_token uid = js ''@'' @ js ''{'' @ js uid @ js ''}''"

definition user_edit ::
  "(js_string \<Rightarrow> js_string) \<Rightarrow> (js_string \<Rightarrow> id option) \<Rightarrow> js_string \<Rightarrow> nat \<times> js_string \<Rightarrow> (nat \<times> nat \<times> js_string) option"
where
  \<comment> \<open>an iteration of the user pass\<close>
  "user_edit lc resolve raw = (\<lambda>(start, handle).
     if is_special lc handle \<or> in_code (collectCodeSpans raw) start then None
     else map_option (\<lambda>uid. (start, start + 1 + length handle, user_token uid)) (resolve handle))"

definition user_edits ::
  "(js_string \<Rightarrow> js_string) \<Rightarrow> (js_string \<Rightarrow> id option) \<Rightarrow> js_string \<Rightarrow> (nat \<times> nat \<times> js_string) list" where
  "user_edits lc resolve raw =
     List.map_filter (user_edit lc resolve raw) (regex_matches MENTION_USER_RE raw 0)"

definition normalizeMentions ::
  "(js_string \<Rightarrow> js_string) \<Rightarrow> js_string \<Rightarrow> (js_string \<Rightarrow> id option) \<Rightarrow> role_token list \<Rightarrow> js_string" where
  "normalizeMentions lc raw resolve roleTokens =
     (let withRoles = (if roleTokens = [] then raw else replaceRoleTokens lc raw roleTokens)
      in splice withRoles 0 (user_edits lc resolve withRoles))"

section \<open>Gates\<close>

definition gateEveryoneMention :: "mentions \<Rightarrow> bool \<Rightarrow> mentions" where
  "gateEveryoneMention m allowed =
     (if \<not> men_everyone m then m else if allowed then m else m\<lparr>men_everyone := False\<rparr>)"

definition gateHereMention :: "mentions \<Rightarrow> bool \<Rightarrow> mentions" where
  "gateHereMention m allowed =
     (if \<not> men_here m then m else if allowed then m else m\<lparr>men_here := False\<rparr>)"

definition gateChannelMention :: "mentions \<Rightarrow> bool \<Rightarrow> mentions" where
  "gateChannelMention m allowed =
     (if \<not> men_channel m then m else if allowed then m else m\<lparr>men_channel := False\<rparr>)"

definition gateRoleMention :: "mentions \<Rightarrow> id list \<Rightarrow> mentions" where
  "gateRoleMention m allowedRoleIds =
     (if men_roles m = [] then m
      else let filtered = filter (\<lambda>r. r \<in> set allowedRoleIds) (men_roles m)
           in if length filtered = length (men_roles m) then m else m\<lparr>men_roles := filtered\<rparr>)"

definition resolveAllowedRoleMentions :: "role_mention list \<Rightarrow> id option \<Rightarrow> bool option \<Rightarrow> id list" where
  \<comment> \<open>the last argument: what \<open>channelAccess.resolveMentionEveryone\<close> answers, when it can be asked\<close>
  "resolveAllowedRoleMentions extracted workspaceId actorEveryone =
     (let open_ids = map rm_id (filter rm_mentionable extracted);
          restricted = filter (\<lambda>r. \<not> rm_mentionable r) extracted
      in if restricted = [] then open_ids
         else if workspaceId = None \<or> actorEveryone = None then open_ids
         else if actorEveryone = Some True then open_ids @ map rm_id restricted else open_ids)"

section \<open>The content pipeline\<close>

record processed_content =
  pc_raw :: js_string
  pc_ast :: "rich_node list"
  pc_plain :: js_string

definition enforceAstByteSize :: "(rich_node list \<Rightarrow> nat) \<Rightarrow> rich_node list \<Rightarrow> parse_error + unit" where
  \<comment> \<open>\<open>bytes\<close>: the length of the JSON text of the tree, in UTF-8\<close>
  "enforceAstByteSize bytes ast = (if bytes ast > MAX_AST_BYTES then Inl PARSE_AST_TOO_LARGE else Inr ())"

definition processMrkdwn ::
  "clock \<Rightarrow> (rich_node list \<Rightarrow> nat) \<Rightarrow> label_resolvers \<Rightarrow> js_string \<Rightarrow> parse_error + processed_content" where
  "processMrkdwn late bytes lr contentRaw =
     bind_res (parseMrkdwn late lr contentRaw) (\<lambda>(ast, plain).
     bind_res (enforceContentLength plain) (\<lambda>_.
     bind_res (enforceAstByteSize bytes ast) (\<lambda>_.
       Inr \<lparr>pc_raw = contentRaw, pc_ast = ast, pc_plain = plain\<rparr>)))"

definition is_link :: "inline_node \<Rightarrow> bool" where
  "is_link n = (case n of LinkNode _ _ \<Rightarrow> True | _ \<Rightarrow> False)"

fun nodeHasLink :: "rich_node \<Rightarrow> bool" where
  "nodeHasLink (InlineNode n) = is_link n"
| "nodeHasLink (Paragraph ns) = list_ex is_link ns"
| "nodeHasLink (Heading l ns) = list_ex is_link ns"
| "nodeHasLink (Blockquote ns) = list_ex nodeHasLink ns"
| "nodeHasLink (CodeBlock c l) = False"
| "nodeHasLink (ListNode ord indent items) = list_ex (list_ex nodeHasLink) items"
| "nodeHasLink (Subtext ns) = list_ex is_link ns"
| "nodeHasLink Divider = False"

definition astHasLink :: "rich_node list \<Rightarrow> bool" where
  "astHasLink ast = list_ex nodeHasLink ast"

datatype attachment_kind = IMAGE | VIDEO | FILE

definition flagsFromAttachmentKinds :: "attachment_kind list \<Rightarrow> bool \<times> bool" where
  \<comment> \<open>has an image, has a file\<close>
  "flagsFromAttachmentKinds kinds =
     foldl (\<lambda>(img, fl) k. if k = IMAGE then (True, fl) else (img, True)) (False, False) kinds"

section \<open>Lemmas: edits of a text\<close>

fun edits_ok :: "nat \<Rightarrow> nat \<Rightarrow> (nat \<times> nat \<times> 'v) list \<Rightarrow> bool" where
  \<comment> \<open>the edits follow each other inside the text, from a cursor on\<close>
  "edits_ok n cursor [] = True"
| "edits_ok n cursor ((s, e, _) # ms) \<longleftrightarrow> cursor \<le> s \<and> s \<le> e \<and> e \<le> n \<and> edits_ok n e ms"

lemma edits_ok_weaken: "edits_ok n c ms \<Longrightarrow> c' \<le> c \<Longrightarrow> edits_ok n c' ms"
  by (cases ms) auto

lemma edits_ok_map [simp]:
  "edits_ok n c (map (\<lambda>(s, e, v). (s, e, f v)) ms) = edits_ok n c ms"
  by (induction ms arbitrary: c) auto

lemma edits_ok_in: "edits_ok n c ms \<Longrightarrow> (s, e, t) \<in> set ms \<Longrightarrow> c \<le> s \<and> s \<le> e \<and> e \<le> n"
  by (induction ms arbitrary: c) (auto, fastforce+)

text \<open>A part of the text that no edit touches is copied.\<close>

lemma splice_keeps:
  assumes "edits_ok (length raw) c ms" and "\<forall>(s, e, t) \<in> set ms. e \<le> a \<or> b \<le> s"
    and "c \<le> a" and "a \<le> b" and "b \<le> length raw"
  shows "\<exists>u v. splice raw c ms = u @ take (b - a) (drop a raw) @ v"
  using assms
proof (induction ms arbitrary: c)
  case Nil
  have "drop c raw = take (a - c) (drop c raw) @ take (b - a) (drop a raw) @ drop b raw"
    using Nil(3-5) by (metis append_take_drop_id drop_drop le_add_diff_inverse2)
  then show ?case by simp blast
next
  case (Cons m ms)
  obtain s e t where m: "m = (s, e, t)" by (cases m)
  show ?case
  proof (cases "e \<le> a")
    case True
    with Cons(2-6) m Cons(1) [of e] obtain u v where
      "splice raw e ms = u @ take (b - a) (drop a raw) @ v" by auto
    with m have "splice raw c (m # ms) = (take (s - c) (drop c raw) @ t @ u) @ take (b - a) (drop a raw) @ v"
      by simp
    then show ?thesis by blast
  next
    case False
    with Cons(3) m have bs: "b \<le> s" by auto
    have "take (s - c) (drop c raw) = take (a - c) (drop c raw) @ take (b - a) (drop a raw) @ take (s - b) (drop b raw)"
      using bs Cons(4,5) take_add [of "a - c" "(b - a) + (s - b)" "drop c raw"]
        take_add [of "b - a" "s - b" "drop a raw"] by simp
    with m have "splice raw c (m # ms) =
        take (a - c) (drop c raw) @ take (b - a) (drop a raw) @ (take (s - b) (drop b raw) @ t @ splice raw e ms)"
      by simp
    then show ?thesis by blast
  qed
qed

text \<open>The matches of a pattern whose captures lie in the text.\<close>

definition captures_inside :: "(js_string \<Rightarrow> nat \<Rightarrow> js_string option) \<Rightarrow> bool" where
  "captures_inside re \<longleftrightarrow>
     (\<forall>text i h. i < length text \<longrightarrow> re text i = Some h \<longrightarrow> i + 1 + length h \<le> length text)"

lemma regex_matches_in:
  assumes "(s, h) \<in> set (regex_matches re text i)"
  shows "i \<le> s \<and> s < length text \<and> re text s = Some h"
  using assms
  by (induction re "text" i rule: regex_matches.induct)
    (subst (asm) (3) regex_matches.simps, fastforce split: if_splits option.splits)

lemma user_match_shape:
  assumes "MENTION_USER_RE text i = Some h"
  shows "text ! i = 64" "2 \<le> length h" "h = take (length h) (drop (i + 1) text)" "list_all is_handle_char h"
proof -
  let ?run = "takeWhile is_handle_char (drop (i + 1) text)"
  from assms have h: "h = take 32 ?run" and t: "text ! i = 64" and l: "2 \<le> length h"
    by (auto simp: MENTION_USER_RE_def Let_def split: if_splits)
  show "text ! i = 64" "2 \<le> length h" by (rule t, rule l)
  have "?run = take (length ?run) (drop (i + 1) text)" by (rule takeWhile_eq_take)
  then show "h = take (length h) (drop (i + 1) text)" unfolding h by (metis length_take min.commute take_take)
  show "list_all is_handle_char h"
    unfolding h by (auto simp: list_all_iff dest!: in_set_takeD set_takeWhileD)
qed

lemma user_match_end:
  assumes "MENTION_USER_RE t i = Some h"
  shows "i + 1 + length h \<le> length t"
  using user_match_shape(2) [OF assms] arg_cong [OF user_match_shape(3) [OF assms], of length]
  by (simp add: min_def split: if_splits)

lemma regex_edits_ok:
  assumes "\<And>j h. j < length t \<Longrightarrow> re t j = Some h \<Longrightarrow> j + 1 + length h \<le> length t"
    and "\<And>j h e. f (j, h) = Some e \<Longrightarrow> \<exists>tok. e = (j, j + 1 + length h, tok)"
  shows "edits_ok (length t) i (List.map_filter f (regex_matches re t i))"
  using assms
proof (induction re t i rule: regex_matches.induct)
  case (1 re t i)
  show ?case
  proof (cases "i < length t")
    case False
    then show ?thesis by (simp add: regex_matches.simps [of re t i] map_filter_simps)
  next
    case True
    show ?thesis
    proof (cases "re t i")
      case None
      with 1 True have "edits_ok (length t) (i + 1) (List.map_filter f (regex_matches re t (i + 1)))" by simp
      with None True show ?thesis
        by (simp add: regex_matches.simps [of re t i]) (rule edits_ok_weaken, assumption, simp)
    next
      case (Some h)
      with 1 True have ih: "edits_ok (length t) (i + 1 + length h)
          (List.map_filter f (regex_matches re t (i + 1 + length h)))" by simp
      show ?thesis
      proof (cases "f (i, h)")
        case None
        then have "List.map_filter f (regex_matches re t i) =
            List.map_filter f (regex_matches re t (i + 1 + length h))"
          using \<open>re t i = Some h\<close> True by (simp add: regex_matches.simps [of re t i] map_filter_simps)
        with edits_ok_weaken [OF ih, of i] show ?thesis by simp
      next
        case (Some e)
        from 1(4) [OF Some] obtain tok where e: "e = (i, i + 1 + length h, tok)" by blast
        from ih \<open>re t i = Some h\<close> True Some 1(3) [OF True \<open>re t i = Some h\<close>] show ?thesis
          by (simp add: regex_matches.simps [of re t i] map_filter_simps e)
      qed
    qed
  qed
qed

lemma user_edits_ok: "edits_ok (length raw) 0 (user_edits lc resolve raw)"
  unfolding user_edits_def
  by (rule regex_edits_ok) (use user_match_end in \<open>auto simp: user_edit_def split: if_splits\<close>)

lemma map_filter_in: "y \<in> set (List.map_filter f xs) \<longleftrightarrow> (\<exists>x \<in> set xs. f x = Some y)"
  by (induction xs) (auto simp: map_filter_simps split: option.splits)

lemma user_edit_in:
  assumes "(s, e, t) \<in> set (user_edits lc resolve raw)"
  obtains h where "MENTION_USER_RE raw s = Some h" and "s < length raw" and "e = s + 1 + length h"
    and "\<not> in_code (collectCodeSpans raw) s" and "\<not> is_special lc h"
  using assms unfolding user_edits_def map_filter_in
  by (auto simp: user_edit_def dest!: regex_matches_in split: if_splits)

subsection \<open>Code spans\<close>

lemma fence_tick: "isFenceAt raw i \<Longrightarrow> i < length raw \<Longrightarrow> raw ! i = 96"
  by (cases "drop i raw") (auto simp: isFenceAt_def starts_with_def nth_via_drop)

lemma code_span_shape:
  assumes "(a, b) \<in> set (code_spans raw i)"
  shows "i \<le> a \<and> a < b \<and> b \<le> length raw \<and> raw ! a = 96"
  using assms
proof (induction raw i rule: code_spans.induct)
  case (1 raw i)
  note ab = 1(5)
  show ?case
  proof (cases "i < length raw")
    case False
    with 1(5) show ?thesis by (simp add: code_spans.simps [of raw i])
  next
    case True
    note bounds = lineEnd_bounds [OF True] fence_end_bounds [of "lineEnd raw i" raw]
    consider "isFenceAt raw i" | "\<not> isFenceAt raw i" "raw ! i = 96" | "\<not> isFenceAt raw i" "raw ! i \<noteq> 96"
      by blast
    then show ?thesis
    proof cases
      case 1
      with ab True have "(a, b) = (i, fence_end raw (lineEnd raw i))
          \<or> (a, b) \<in> set (code_spans raw (fence_end raw (lineEnd raw i)))"
        by (simp add: code_spans.simps [of raw i])
      with 1 True bounds fence_tick "1.IH"(1) show ?thesis by fastforce
    next
      case 2
      show ?thesis
      proof (cases "tick_end raw i")
        case None
        with 2 ab True have "(a, b) \<in> set (code_spans raw (i + 1))" by (simp add: code_spans.simps [of raw i])
        with 2 True None 1(2) show ?thesis by fastforce
      next
        case (Some e)
        with 2 1(5) True have "(a, b) = (i, e) \<or> (a, b) \<in> set (code_spans raw e)"
          by (simp add: code_spans.simps [of raw i])
        with 2 True Some tick_end_bounds [OF Some] 1(3) show ?thesis by fastforce
      qed
    next
      case 3
      with 1(5) True have "(a, b) \<in> set (code_spans raw (i + 1))" by (simp add: code_spans.simps [of raw i])
      with 3 True 1 show ?thesis by fastforce
    qed
  qed
qed

lemma in_codeI: "(a, b) \<in> set spans \<Longrightarrow> a \<le> i \<Longrightarrow> i < b \<Longrightarrow> in_code spans i"
  by (auto simp: in_code_def list_ex_iff)

lemma user_edit_outside_code:
  assumes "(s, e, t) \<in> set (user_edits lc resolve raw)" and "(a, b) \<in> set (collectCodeSpans raw)"
  shows "e \<le> a \<or> b \<le> s"
proof (rule ccontr)
  assume no: "\<not> (e \<le> a \<or> b \<le> s)"
  from assms(1) obtain h where h: "MENTION_USER_RE raw s = Some h" "e = s + 1 + length h"
    and out: "\<not> in_code (collectCodeSpans raw) s" by (rule user_edit_in)
  from assms(2) have span: "a < b" "b \<le> length raw" "raw ! a = 96"
    using code_span_shape [of a b raw 0] by (auto simp: collectCodeSpans_def)
  from no out in_codeI [OF assms(2), of s] have sa: "s < a" by (meson not_le)
  with no h(2) have k: "a - (s + 1) < length h" by auto
  note shape = user_match_shape [OF h(1)]
  have "h ! (a - (s + 1)) = raw ! a"
  proof -
    have "h ! (a - (s + 1)) = take (length h) (drop (s + 1) raw) ! (a - (s + 1))" using shape(3) by simp
    also have "\<dots> = raw ! (s + 1 + (a - (s + 1)))" using k sa span by simp
    also have "s + 1 + (a - (s + 1)) = a" using sa by simp
    finally show ?thesis .
  qed
  moreover have "is_handle_char (h ! (a - (s + 1)))" using shape(4) k by (simp add: list_all_length)
  ultimately show False using span(3)
    by (simp add: is_handle_char_def is_word_char_def is_js_lower_def is_js_upper_def is_js_digit_def)
qed

subsection \<open>The scanner\<close>

lemma scan_in:
  assumes "(s, e, v) \<in> set (scan_from lc t spans cands i)"
  shows "i \<le> s \<and> s < length t \<and> at_mention t spans s
    \<and> (\<exists>c. find (role_matches lc t s) cands = Some c \<and> e = s + 1 + length (fst c) \<and> v = snd c)"
  using assms
proof (induction lc t spans cands i rule: scan_from.induct)
  case (1 lc t spans cands i)
  show ?case
  proof (cases "i < length t \<and> at_mention t spans i")
    case False
    with 1(4) have "i < length t" "(s, e, v) \<in> set (scan_from lc t spans cands (i + 1))"
      by (auto simp: scan_from.simps [of lc t spans cands i] split: if_splits)
    with False 1(1) show ?thesis by fastforce
  next
    case True
    show ?thesis
    proof (cases "find (role_matches lc t i) cands")
      case None
      with 1(4) True have "(s, e, v) \<in> set (scan_from lc t spans cands (i + 1))"
        by (simp add: scan_from.simps [of lc t spans cands i])
      with True None 1(2) show ?thesis by fastforce
    next
      case (Some c)
      with 1(4) True have "(s, e, v) = (i, i + 1 + length (fst c), snd c)
          \<or> (s, e, v) \<in> set (scan_from lc t spans cands (i + 1 + length (fst c)))"
        by (simp add: scan_from.simps [of lc t spans cands i])
      with True Some 1(3) show ?thesis by fastforce
    qed
  qed
qed

text \<open>A position with a match is skipped only inside an earlier match.\<close>

lemma scan_complete:
  assumes "i \<le> p" "p < length t" "at_mention t spans p" "find (role_matches lc t p) cands = Some c"
    and "\<forall>(s, e, v) \<in> set (scan_from lc t spans cands i). \<not> (s < p \<and> p < e)"
  shows "(p, p + 1 + length (fst c), snd c) \<in> set (scan_from lc t spans cands i)"
  using assms
proof (induction lc t spans cands i rule: scan_from.induct)
  case (1 lc t spans cands i)
  from 1(4,5) have i: "i < length t" by simp
  show ?case
  proof (cases "at_mention t spans i")
    case False
    with 1(4,6) have "i + 1 \<le> p" by (cases "i = p") auto
    with 1(1) [OF i False] 1(5-8) i False show ?thesis by (simp add: scan_from.simps [of lc t spans cands i])
  next
    case at: True
    show ?thesis
    proof (cases "find (role_matches lc t i) cands")
      case None
      with 1(4,7) have "i + 1 \<le> p" by (cases "i = p") auto
      with 1(2) [OF i _ None] 1(5-8) i at None show ?thesis by (simp add: scan_from.simps [of lc t spans cands i])
    next
      case (Some d)
      have unfold: "scan_from lc t spans cands i = (i, i + 1 + length (fst d), snd d)
          # scan_from lc t spans cands (i + 1 + length (fst d))"
        using i at Some by (simp add: scan_from.simps [of lc t spans cands i])
      show ?thesis
      proof (cases "i = p")
        case True
        with Some 1(7) show ?thesis unfolding unfold by simp
      next
        case False
        with 1(4,8) have "i + 1 + length (fst d) \<le> p" by (auto simp: unfold)
        with 1(3) [OF i _ Some] 1(5-8) at show ?thesis by (simp add: unfold)
      qed
    qed
  qed
qed

lemma find_sorted_min:
  assumes "sorted (map f xs)" and "find P xs = Some x" and "y \<in> set xs" and "P y"
  shows "f x \<le> f y"
  using assms by (induction xs) (auto split: if_splits)

lemma find_order:
  "find P xs = Some x \<Longrightarrow> P y \<Longrightarrow> find Q xs = Some y \<Longrightarrow> Q x \<Longrightarrow> x = y"
  by (induction xs) (auto split: if_splits)

lemma set_role_sorted:
  "c \<in> set (role_sorted cands) \<longleftrightarrow> fst c \<noteq> [] \<and> (\<exists>(name, v) \<in> set cands. c = (js_trim name, v))"
  by (force simp: role_sorted_def)

lemma role_sorted_longest:
  assumes "find (role_matches lc t p) (role_sorted cands) = Some c"
    and "d \<in> set (role_sorted cands)" and "role_matches lc t p d"
  shows "length (fst d) \<le> length (fst c)"
  using find_sorted_min [OF _ assms, of "\<lambda>c. - int (length (fst c))"]
  by (simp add: role_sorted_def)

lemma role_matches_text:
  assumes "role_matches lc t p c" and "\<And>s. 64 \<in> set (lc s) \<longleftrightarrow> (64::nat) \<in> set s" and "64 \<notin> set (fst c)"
    and "p < q" and "q < p + 1 + length (fst c)" and "q < length t"
  shows "t ! q \<noteq> 64"
proof
  assume "t ! q = 64"
  moreover have "take (length (fst c)) (drop (p + 1) t) ! (q - (p + 1)) = t ! q"
    using assms(4-6) by simp
  moreover have "q - (p + 1) < length (take (length (fst c)) (drop (p + 1) t))"
    using assms(4-6) by simp presburger
  ultimately have "64 \<in> set (take (length (fst c)) (drop (p + 1) t))" by (metis nth_mem)
  then show False using assms(1,2,3) unfolding role_matches_def by metis
qed

lemma set_AList_update:
  "(\<And>k' v'. (k', v') \<in> set m \<Longrightarrow> k' = k \<Longrightarrow> v' = v) \<Longrightarrow> set (AList.update k v m) = insert (k, v) (set m)"
  by (induction m) auto

lemma set_foldl_update:
  assumes "\<And>r r'. r \<in> R \<Longrightarrow> r' \<in> R \<Longrightarrow> key r = key r' \<Longrightarrow> r = r'"
    and "set xs \<subseteq> R" and "set m \<subseteq> (\<lambda>r. (key r, r)) ` R"
  shows "set (foldl (\<lambda>m r. AList.update (key r) r m) m xs) = set m \<union> (\<lambda>r. (key r, r)) ` set xs"
  using assms(2,3)
proof (induction xs arbitrary: m)
  case Nil
  then show ?case by simp
next
  case (Cons r xs)
  have "set (AList.update (key r) r m) = insert (key r, r) (set m)"
    by (rule set_AList_update) (use Cons(2,3) assms(1) in auto)
  with Cons show ?case by simp
qed

lemma foldl_update_values:
  assumes "inj_on key (v ` set xs)"
  shows "snd ` set (foldl (\<lambda>m x. AList.update (key (v x)) (v x) m) [] xs) = v ` set xs"
proof -
  have "foldl (\<lambda>m x. AList.update (key (v x)) (v x) m) [] xs
      = foldl (\<lambda>m r. AList.update (key r) r m) [] (map v xs)" by (simp add: foldl_map)
  moreover have "set \<dots> = (\<lambda>r. (key r, r)) ` v ` set xs"
    using set_foldl_update [of "v ` set xs" key "map v xs" "[]"] assms by (auto simp: inj_on_def)
  ultimately show ?thesis by (simp add: image_image)
qed

lemma role_candidate_in:
  "(name, r) \<in> set (role_candidates lc dir ws) \<Longrightarrow> name = rm_name r \<and> (ws, r) \<in> set (dir_roles dir)"
  by (auto simp: role_candidates_def)

lemma scan_value_in:
  assumes "(s, e, v) \<in> set (scanRoleMentions lc t cands)"
  shows "\<exists>name. (name, v) \<in> set cands"
  using scan_in [OF assms [unfolded scanRoleMentions_def]]
  by (auto dest!: find_Some_in simp: set_role_sorted)

lemma set_extractRoleMentions:
  assumes "distinct (map (rm_id \<circ> snd) (dir_roles dir))"
  shows "set (extractRoleMentions lc dir (Some ws) t)
    = (if 64 \<in> set t then (\<lambda>(_, _, r). r) ` set (scanRoleMentions lc t (role_candidates lc dir ws)) else {})"
proof -
  let ?S = "scanRoleMentions lc t (role_candidates lc dir ws)"
  have "inj_on rm_id ((\<lambda>(_, _, r). r) ` set ?S)"
  proof (rule inj_onI)
    fix r r' assume "r \<in> (\<lambda>(_, _, r). r) ` set ?S" "r' \<in> (\<lambda>(_, _, r). r) ` set ?S" and eq: "rm_id r = rm_id r'"
    then have "(ws, r) \<in> set (dir_roles dir)" "(ws, r') \<in> set (dir_roles dir)"
      by (auto dest!: scan_value_in role_candidate_in)
    with assms eq show "r = r'" by (metis comp_apply distinct_map_unique snd_conv)
  qed
  from foldl_update_values [OF this] show ?thesis
    by (simp add: extractRoleMentions_def case_prod_unfold)
qed

definition gatedRoleTokens :: "role_mention list \<Rightarrow> id list \<Rightarrow> role_token list" where
  "gatedRoleTokens extractedRoles allowedRoleIds =
     map (\<lambda>r. (rm_name r, rm_id r)) (filter (\<lambda>r. rm_id r \<in> set allowedRoleIds) extractedRoles)"

lemma filter_same_length: "length (filter P xs) = length xs \<Longrightarrow> filter P xs = xs"
  using length_filter_less [of _ xs P] by (fastforce simp: filter_id_conv)

lemma gated_roles:
  "men_roles (gateRoleMention (m\<lparr>men_roles := ids\<rparr>) allowed) = filter (\<lambda>r. r \<in> set allowed) ids"
  by (auto simp: gateRoleMention_def Let_def filter_same_length)

lemma gated_tokens_in:
  "(name, rid) \<in> set (gatedRoleTokens ex allowed) \<longleftrightarrow>
   (\<exists>r \<in> set ex. name = rm_name r \<and> rid = rm_id r \<and> rid \<in> set allowed)"
  by (auto simp: gatedRoleTokens_def)

lemma set_gated_sorted:
  "c \<in> set (role_sorted (gatedRoleTokens ex allowed)) \<longleftrightarrow>
   fst c \<noteq> [] \<and> (\<exists>q \<in> set ex. rm_id q \<in> set allowed \<and> c = (js_trim (rm_name q), rm_id q))"
  unfolding set_role_sorted gatedRoleTokens_def by auto

text \<open>
  A role extracted at a position is the role tokenised there: the names of the other roles
  that pass the gate are not longer, and one that is as long and matches was not extracted.
\<close>

lemma extracted_role_is_tokenised:
  fixes lc
  assumes lc: "\<And>s. 64 \<in> set (lc s) \<longleftrightarrow> (64::nat) \<in> set s"
    and names: "\<And>n r. (n, r) \<in> set cands \<Longrightarrow> n = rm_name r \<and> 64 \<notin> set (js_trim n)"
    and ids: "inj_on rm_id (snd ` set cands)"
    and ex: "set ex = (\<lambda>(_, _, r). r) ` set (scanRoleMentions lc t cands)"
    and r: "r \<in> set ex" "rm_id r \<in> set allowed"
  shows "rm_id r \<in> (\<lambda>(_, _, i). i) ` set (scanRoleMentions lc t (gatedRoleTokens ex allowed))"
proof -
  let ?sp = "collectCodeSpans t" and ?M = "role_sorted cands"
  let ?G = "role_sorted (gatedRoleTokens ex allowed)"
  have cand: "\<exists>n. (n, q) \<in> set cands" if "q \<in> set ex" for q
    using that ex by (auto dest: scan_value_in)
  have found: "\<exists>p<length t. at_mention t ?sp p \<and> find (role_matches lc t p) ?M = Some (js_trim (rm_name q), q)"
    if "q \<in> set ex" for q
  proof -
    from that ex obtain s e where "(s, e, q) \<in> set (scan_from lc t ?sp ?M 0)"
      by (auto simp: scanRoleMentions_def)
    from scan_in [OF this] obtain c where c: "s < length t" "at_mention t ?sp s"
      "find (role_matches lc t s) ?M = Some c" "q = snd c" by blast
    from find_Some_in [OF c(3)] have "c \<in> set ?M" by simp
    then obtain n v where "(n, v) \<in> set cands" "c = (js_trim n, v)"
      by (auto simp: set_role_sorted)
    with names [of n v] c(4) have "c = (js_trim (rm_name q), q)" by simp
    with c(1-3) show ?thesis by (intro exI [of _ s]) simp
  qed
  from found [OF r(1)] obtain p where p: "p < length t" "at_mention t ?sp p"
    and first: "find (role_matches lc t p) ?M = Some (js_trim (rm_name r), r)" by blast
  then have match: "role_matches lc t p (js_trim (rm_name r), r)" "js_trim (rm_name r) \<noteq> []"
    by (auto dest!: find_Some_in simp: set_role_sorted)
  have gated: "\<exists>q \<in> set ex. c = (js_trim (rm_name q), rm_id q) \<and> fst c \<noteq> []" if "c \<in> set ?G" for c
    using that unfolding set_gated_sorted by blast
  have rG: "(js_trim (rm_name r), rm_id r) \<in> set ?G"
    unfolding set_gated_sorted using r match(2) by auto
  have "role_matches lc t p (js_trim (rm_name r), rm_id r)" using match(1) by (simp add: role_matches_def)
  with rG obtain c where c: "find (role_matches lc t p) ?G = Some c"
    by (cases "find (role_matches lc t p) ?G") (auto simp: find_None_all)
  from find_Some_in [OF c] have "c \<in> set ?G" by simp
  from gated [OF this] obtain q where q: "q \<in> set ex" "c = (js_trim (rm_name q), rm_id q)" "fst c \<noteq> []"
    by blast
  have longer: "length (js_trim (rm_name r)) \<le> length (js_trim (rm_name q))"
    using role_sorted_longest [OF c rG] match(1) q(2) by (simp add: role_matches_def)
  have qM: "(js_trim (rm_name q), q) \<in> set ?M"
  proof -
    from cand [OF q(1)] names obtain n where "(n, q) \<in> set cands" "n = rm_name q" by blast
    with q(2,3) show ?thesis by (force simp: set_role_sorted)
  qed
  have qp: "role_matches lc t p (js_trim (rm_name q), q)"
    using find_Some_in [OF c] q(2) by (simp add: role_matches_def)
  have same: "length (js_trim (rm_name q)) = length (js_trim (rm_name r))"
    using role_sorted_longest [OF first qM qp] longer by simp
  then have lcs: "lc (js_trim (rm_name q)) = lc (js_trim (rm_name r))"
    using match(1) qp by (simp add: role_matches_def)
  from found [OF q(1)] obtain p' where
    p': "find (role_matches lc t p') ?M = Some (js_trim (rm_name q), q)" by blast
  then have "role_matches lc t p' (js_trim (rm_name r), r)"
    using find_Some_in [OF p'] same lcs by (simp add: role_matches_def)
  from find_order [OF first qp p' this] have "q = r" by simp
  have "\<forall>(s, e, v) \<in> set (scan_from lc t ?sp ?G 0). \<not> (s < p \<and> p < e)"
  proof clarify
    fix s e v assume se: "(s, e, v) \<in> set (scan_from lc t ?sp ?G 0)" "s < p" "p < e"
    from scan_in [OF se(1)] obtain d where d: "find (role_matches lc t s) ?G = Some d" "e = s + 1 + length (fst d)"
      by blast
    from find_Some_in [OF d(1)] have "role_matches lc t s d" "d \<in> set ?G" by auto
    moreover from gated [OF this(2)] obtain q' where "q' \<in> set ex" "fst d = js_trim (rm_name q')" by auto
    with cand names have "64 \<notin> set (fst d)" by metis
    ultimately have "64 \<notin> set (fst d)" "role_matches lc t s d" by auto
    from role_matches_text [OF this(2) lc this(1) se(2)] d(2) se(3) p show False by (simp add: at_mention_def)
  qed
  from scan_complete [OF _ p c this] \<open>q = r\<close> q(2) show ?thesis
    by (force simp: scanRoleMentions_def)
qed

lemma set_js_trim: "set (js_trim s) \<subseteq> set s"
  by (auto simp: js_trim_def dest!: set_dropWhileD)

lemma js_inj: "js a = js b \<longleftrightarrow> a = b"
proof
  assume "js a = js b"
  then have "map char_of (js a) = map char_of (js b)" by simp
  then show "a = b" by (simp add: js_def comp_def)
qed simp

section \<open>Properties\<close>

text \<open>The role tokens a normalised body holds name exactly the roles stored as mentioned:
  every role that was extracted and passed the gate has a token, and no other. The lower case
  of a text has an at sign exactly when the text has one, role ids are unique, and no role
  name has an at sign.\<close>

lemma role_tokens_are_gated_roles:
  assumes "\<forall>s. (64 \<in> set (lc s)) = ((64::nat) \<in> set s)"
    and "distinct (map (rm_id \<circ> snd) (dir_roles dir))"
    and "list_all (\<lambda>(w, r). 64 \<notin> set (rm_name r)) (dir_roles dir)"
  shows "(\<lambda>(_, _, rid). rid) ` set (scanRoleMentions lc body
           (gatedRoleTokens (extractRoleMentions lc dir workspaceId body) allowed))
         = set (men_roles (gateRoleMention
             (m\<lparr>men_roles := map rm_id (extractRoleMentions lc dir workspaceId body)\<rparr>) allowed))"
    (is "?tokens = ?roles")
proof
  show "?tokens \<subseteq> ?roles"
    by (auto simp: gated_roles gated_tokens_in dest!: scan_value_in)
  show "?roles \<subseteq> ?tokens"
  proof
    fix i assume "i \<in> ?roles"
    then obtain r where r: "r \<in> set (extractRoleMentions lc dir workspaceId body)" "rm_id r = i" "rm_id r \<in> set allowed"
      by (auto simp: gated_roles)
    then obtain ws where ws: "workspaceId = Some ws" by (cases workspaceId) (auto simp: extractRoleMentions_def)
    have "64 \<in> set body" using r(1) ws set_extractRoleMentions [OF assms(2)] by (auto split: if_splits)
    then have ex: "set (extractRoleMentions lc dir workspaceId body)
        = (\<lambda>(_, _, r). r) ` set (scanRoleMentions lc body (role_candidates lc dir ws))"
      using ws set_extractRoleMentions [OF assms(2)] by simp
    have "rm_id r \<in> ?tokens"
    proof (rule extracted_role_is_tokenised [OF _ _ _ ex r(1,3)])
      show "64 \<in> set (lc s) \<longleftrightarrow> (64::nat) \<in> set s" for s using assms(1) by blast
      show "n = rm_name q \<and> 64 \<notin> set (js_trim n)" if "(n, q) \<in> set (role_candidates lc dir ws)" for n q
        using role_candidate_in [OF that] assms(3) set_js_trim [of n] by (auto simp: list_all_iff)
      show "inj_on rm_id (snd ` set (role_candidates lc dir ws))"
        using assms(2) by (auto simp: inj_on_def dest!: role_candidate_in)
          (metis comp_apply distinct_map_unique snd_conv)
    qed
    with r(2) show "i \<in> ?tokens" by simp
  qed
qed

text \<open>The user pass leaves code alone: the text of every code span, fence or inline, stands
  unchanged in the normalised body.\<close>

lemma user_pass_keeps_code:
  assumes "(a, b) \<in> set (collectCodeSpans raw)"
  shows "\<exists>u v. normalizeMentions lc raw resolve [] = u @ take (b - a) (drop a raw) @ v"
proof -
  have "\<forall>(s, e, t) \<in> set (user_edits lc resolve raw). e \<le> a \<or> b \<le> s"
    using user_edit_outside_code assms by blast
  moreover have "a < b" "b \<le> length raw"
    using code_span_shape assms by (auto simp: collectCodeSpans_def)
  ultimately show ?thesis
    using splice_keeps [OF user_edits_ok] by (simp add: normalizeMentions_def)
qed

text \<open>The value of the map of handles is one of the rows it was built from.\<close>

lemma foldl_map_in:
  "foldl (\<lambda>m (uid, name). m(f name \<mapsto> uid)) m rows k = Some u \<Longrightarrow> m k = Some u \<or> u \<in> fst ` set rows"
  by (induction rows arbitrary: m) (auto split: if_splits, fastforce split: if_splits)

text \<open>A user token is never written for somebody who is not stored as mentioned: every token
  the user pass writes carries the id of a user the extraction of the same body lists, a member
  of the workspace.\<close>

lemma user_tokens_are_mentions:
  assumes "(s, e, token) \<in> set (user_edits lc (\<lambda>h. resolveMentionHandles lc dir workspaceId body (lc h)) raw)"
  shows "\<exists>uid ws. workspaceId = Some ws \<and> (ws, uid) \<in> set (dir_members dir)
           \<and> uid \<in> set (men_users (extractMentions lc dir workspaceId body))
           \<and> token = user_token uid"
proof -
  from assms obtain h uid where uid: "resolveMentionHandles lc dir workspaceId body (lc h) = Some uid"
    and token: "token = user_token uid"
    by (auto simp: user_edits_def map_filter_in user_edit_def split: if_splits)
  from uid obtain ws where ws: "workspaceId = Some ws" by (cases workspaceId) (auto simp: resolveMentionHandles_def)
  with uid have "uid \<in> fst ` set (member_rows dir ws (mentioned_names lc body))"
    by (auto simp: resolveMentionHandles_def dest: foldl_map_in)
  with ws token show ?thesis by (force simp: extractMentions_def member_rows_def)
qed

section \<open>Examples\<close>

definition crew :: directory where
  "crew = \<lparr>dir_users = [(''u1'', js ''ann''), (''u2'', js ''bob''), (''u3'', js ''Bob'')],
           dir_members = [(''w'', ''u1''), (''w'', ''u2''), (''w'', ''u3'')],
           dir_channels = [(''c1'', ''w'', js ''news'', False)],
           dir_roles = [(''w'', \<lparr>rm_id = ''r1'', rm_name = js ''PM'', rm_mentionable = True\<rparr>),
                        (''w'', \<lparr>rm_id = ''r2'', rm_name = js ''PM Leads'', rm_mentionable = False\<rparr>)]\<rparr>"

definition ascii_lower :: "js_string \<Rightarrow> js_string" where
  "ascii_lower = map lower"

lemmas mention_eval = scanRoleMentions_def scan_from.simps regex_matches.simps
  collectCodeSpans_def code_spans.simps fence_end.simps tick_end_def isFenceAt_def lineEnd_def in_code_def
  at_mention_def role_matches_def role_sorted_def boundary_before_def boundary_at_def
  MENTION_USER_RE_def is_handle_char_def is_word_char_def is_js_lower_def is_js_upper_def is_js_digit_def
  mentioned_names_def is_special_def RESERVED_MENTION_NAMES_def member_rows_def resolveMentionHandles_def
  user_edits_def user_edit_def user_token_def normalizeMentions_def replaceRoleTokens_def map_filter_simps Let_def
  ascii_lower_def lower_def js_trim_def is_js_space_def starts_with_def crew_def

definition body_resolver :: "js_string \<Rightarrow> js_string \<Rightarrow> id option" where
  "body_resolver body h = resolveMentionHandles ascii_lower crew (Some ''w'') body (ascii_lower h)"

text \<open>Two members whose usernames differ only in case: the map of handles keeps the last, and both
  names become its token, although both are stored as mentioned.\<close>

lemma both_bobs: "mentioned_names ascii_lower (js ''@bob and @Bob'') = [js ''bob'', js ''Bob'']"
  by (simp add: mention_eval)

lemma handles_collide_by_case:
  "men_users (extractMentions ascii_lower crew (Some ''w'') (js ''@bob and @Bob'')) = [''u2'', ''u3'']"
  "normalizeMentions ascii_lower (js ''@bob and @Bob'') (body_resolver (js ''@bob and @Bob'')) []
     = user_token ''u3'' @ js '' and '' @ user_token ''u3''"
proof -
  show "men_users (extractMentions ascii_lower crew (Some ''w'') (js ''@bob and @Bob'')) = [''u2'', ''u3'']"
    unfolding extractMentions_def both_bobs by (simp add: member_rows_def crew_def)
  have "body_resolver (js ''@bob and @Bob'') = (\<lambda>h. if ascii_lower h = js ''bob'' then Some ''u3'' else None)"
    unfolding body_resolver_def resolveMentionHandles_def both_bobs
    by (auto simp: member_rows_def crew_def ascii_lower_def lower_def is_js_upper_def)
  then show "normalizeMentions ascii_lower (js ''@bob and @Bob'') (body_resolver (js ''@bob and @Bob'')) []
     = user_token ''u3'' @ js '' and '' @ user_token ''u3''" by (simp add: mention_eval)
qed

text \<open>A name in inline code is left as it is, and its user is still stored as mentioned.\<close>

lemma mention_in_code_notifies:
  "men_users (extractMentions ascii_lower crew (Some ''w'') (js ''`@ann`'')) = [''u1'']"
  "normalizeMentions ascii_lower (js ''`@ann`'') (body_resolver (js ''`@ann`'')) [] = js ''`@ann`''"
proof -
  have "mentioned_names ascii_lower (js ''`@ann`'') = [js ''ann'']" by (simp add: mention_eval)
  then show "men_users (extractMentions ascii_lower crew (Some ''w'') (js ''`@ann`'')) = [''u1'']"
    unfolding extractMentions_def by (simp add: member_rows_def crew_def)
  show "normalizeMentions ascii_lower (js ''`@ann`'') (body_resolver (js ''`@ann`'')) [] = js ''`@ann`''"
    by (simp add: mention_eval)
qed

text \<open>The dot that ends a sentence belongs to the handle, so the mention is lost.\<close>

lemma final_dot_loses_mention:
  "men_users (extractMentions ascii_lower crew (Some ''w'') (js ''thanks @ann.'')) = []"
proof -
  have "mentioned_names ascii_lower (js ''thanks @ann.'') = [js ''ann.'']" by (simp add: mention_eval)
  then show ?thesis unfolding extractMentions_def by (simp add: member_rows_def crew_def)
qed

lemma role_tokens_are_gated_roles_example:
  "''r1'' \<in> set (men_roles (gateRoleMention (no_mentions\<lparr>men_roles := map rm_id
      (extractRoleMentions ascii_lower crew (Some ''w'') (js ''@PM hi''))\<rparr>) [''r1'']))"
proof -
  have at: "\<forall>s. (64 \<in> set (ascii_lower s)) = ((64::nat) \<in> set s)"
    by (force simp: ascii_lower_def lower_def is_js_upper_def)
  note tokens = role_tokens_are_gated_roles [of ascii_lower crew "js ''@PM hi''" "Some ''w''" "[''r1'']" no_mentions]
  have ex: "extractRoleMentions ascii_lower crew (Some ''w'') (js ''@PM hi'')
      = [\<lparr>rm_id = ''r1'', rm_name = js ''PM'', rm_mentionable = True\<rparr>]"
    by (simp add: extractRoleMentions_def role_candidates_def mention_eval)
  have "''r1'' \<in> (\<lambda>(_, _, rid). rid) ` set (scanRoleMentions ascii_lower (js ''@PM hi'')
      (gatedRoleTokens (extractRoleMentions ascii_lower crew (Some ''w'') (js ''@PM hi'')) [''r1'']))"
    unfolding ex by (simp add: gatedRoleTokens_def mention_eval)
  with tokens at show ?thesis by (simp add: crew_def)
qed

lemma user_pass_keeps_code_example:
  "\<exists>u v. normalizeMentions ascii_lower (js ''@ann `@ann`'') (\<lambda>_. Some ''u1'') [] = u @ js ''`@ann`'' @ v"
proof -
  have "(5, 11) \<in> set (collectCodeSpans (js ''@ann `@ann`''))" by (simp add: mention_eval)
  from user_pass_keeps_code [OF this, of ascii_lower "\<lambda>_. Some ''u1''"] show ?thesis by simp
qed

lemma user_tokens_are_mentions_example:
  "''u1'' \<in> set (men_users (extractMentions ascii_lower crew (Some ''w'') (js ''@ann'')))"
proof -
  have "mentioned_names ascii_lower (js ''@ann'') = [js ''ann'']" by (simp add: mention_eval)
  then have "(\<lambda>h. resolveMentionHandles ascii_lower crew (Some ''w'') (js ''@ann'') (ascii_lower h))
      = (\<lambda>h. if ascii_lower h = js ''ann'' then Some ''u1'' else None)"
    unfolding resolveMentionHandles_def
    by (auto simp: member_rows_def crew_def ascii_lower_def lower_def is_js_upper_def)
  then have "(0, 4, user_token ''u1'') \<in> set (user_edits ascii_lower
      (\<lambda>h. resolveMentionHandles ascii_lower crew (Some ''w'') (js ''@ann'') (ascii_lower h)) (js ''@ann''))"
    by (simp add: mention_eval)
  from user_tokens_are_mentions [OF this] obtain uid where
    uid: "uid \<in> set (men_users (extractMentions ascii_lower crew (Some ''w'') (js ''@ann'')))"
    and "user_token ''u1'' = user_token uid" by blast
  then have "js uid = js ''u1''" by (simp add: user_token_def)
  with uid show ?thesis by (metis js_inj)
qed

end
