(* ===== verification/Message_Rows.thy ===== *)
theory Message_Rows
  imports Mentions "HOL-Library.Char_ord" "HOL-Library.List_Lexorder" "HOL-Library.Product_Lexorder"
begin

text \<open>
  The tables of the message service (\<open>apps/api/src/messages/messages.service.ts\<close>; columns of
  \<open>apps/api/prisma/schema.prisma\<close>): messages, edit history, attachments, saved messages, thread
  subscriptions, hidden direct messages, the outbox and the audit log, and the Redis cache of
  idempotency keys. Uuids are their canonical lower-case text, so the order of Postgres on them
  is the lexicographic order of \<open>string\<close>; timestamps of messages have the precision of
  milliseconds (\<open>TIMESTAMP(3)\<close>).
\<close>

datatype message_type =
    DEFAULT | SYSTEM_MEMBER_JOINED | SYSTEM_MEMBER_LEFT | SYSTEM_MEMBER_BANNED | SYSTEM_PIN
  | SYSTEM_CHANNEL_RENAME | SYSTEM_CHANNEL_TOPIC_CHANGED | SYSTEM_CHANNEL_ARCHIVED
  | SYSTEM_THREAD_BROADCAST

definition isSystemMessageType :: "message_type \<Rightarrow> bool" where
  "isSystemMessageType t \<longleftrightarrow> t \<noteq> DEFAULT"

datatype author_type = USER | BOT | SYSTEM

record message_row =
  m_id :: id
  m_channelId :: id
  m_authorId :: id
  m_authorType :: author_type
  m_type :: message_type
  m_content :: js_string
  m_contentPlain :: js_string
  m_contentRaw :: js_string
  m_contentAst :: "rich_node list"
  m_mentions :: mentions
  m_hasLink :: bool
  m_hasImage :: bool
  m_hasFile :: bool
  m_idempotencyKey :: "id option"
  m_nonce :: "id option"
  m_parent :: "id option"
  m_isBroadcast :: bool
  m_version :: nat
  m_createdAt :: msec
  m_editedAt :: "msec option"
  m_deletedAt :: "msec option"
  m_pinnedAt :: "msec option"
  m_pinnedBy :: "id option"
  m_replyCount :: int
  m_latestReplyAt :: "msec option"
  m_threadLocked :: bool

record history_row =
  h_id :: id
  h_messageId :: id
  h_version :: nat
  h_contentRaw :: js_string
  h_contentAst :: "rich_node list"
  h_contentPlain :: js_string
  h_editedAt :: msec

record attachment_row =
  at_id :: id
  at_channelId :: id
  at_uploaderId :: id
  at_kind :: attachment_kind
  at_finalized :: bool
  at_messageId :: "id option"
  at_linkedAt :: "msec option"

record saved_row =
  sv_id :: id
  sv_messageId :: id
  sv_messageDeletedAt :: "msec option"
  sv_reminderAt :: "msec option"
  sv_reminderFiredAt :: "msec option"

record hidden_row =
  hd_channelId :: id
  hd_userId :: id
  hd_hiddenAt :: "msec option"

datatype outbox_event =
    MESSAGE_CREATED id  \<comment> \<open>the message\<close>
  | MENTION_RECEIVED id id bool bool  \<comment> \<open>target, message, everyone, here\<close>
  | MESSAGE_THREAD_REPLIED id int msec "id list" "id list"  \<comment> \<open>root, count, last, repliers, recipients\<close>
  | MESSAGE_THREAD_BROADCAST id id js_string  \<comment> \<open>broadcast, root, excerpt\<close>
  | MESSAGE_UPDATED id nat  \<comment> \<open>message, version\<close>
  | MESSAGE_DELETED id nat
  | MESSAGE_BULK_DELETED id "id list"
  | MESSAGE_PIN_TOGGLED id "msec option" "id option" "(id \<times> nat) option"
      \<comment> \<open>message, pinned at, by, and for a new pin the system message and the number of pins\<close>
  | MESSAGE_THREAD_LOCK_CHANGED id bool

datatype audit_entry =
    MESSAGE_DELETE id id  \<comment> \<open>actor, message\<close>
  | BULK_MESSAGE_DELETE id "id list" nat

record store =
  st_messages :: "message_row list"
  st_history :: "history_row list"
  st_attachments :: "attachment_row list"
  st_saved :: "saved_row list"
  st_hidden :: "hidden_row list"
  st_subscriptions :: "(id \<times> id) list"  \<comment> \<open>user and thread root\<close>
  st_outbox :: "outbox_event list"
  st_audit :: "audit_entry list"
  st_idem :: "(id \<times> id) \<rightharpoonup> id"  \<comment> \<open>\<open>idem:{userId}:{key}\<close> in Redis\<close>

definition empty_store :: store where
  "empty_store = \<lparr>st_messages = [], st_history = [], st_attachments = [], st_saved = [], st_hidden = [],
                  st_subscriptions = [], st_outbox = [], st_audit = [], st_idem = Map.empty\<rparr>"

definition find_message :: "store \<Rightarrow> id \<Rightarrow> message_row option" where
  "find_message st i = find (\<lambda>m. m_id m = i) (st_messages st)"

definition find_in_channel :: "store \<Rightarrow> id \<Rightarrow> id \<Rightarrow> message_row option" where
  "find_in_channel st i ch = find (\<lambda>m. m_id m = i \<and> m_channelId m = ch) (st_messages st)"

definition find_live :: "store \<Rightarrow> id \<Rightarrow> id \<Rightarrow> message_row option" where
  "find_live st i ch =
     find (\<lambda>m. m_id m = i \<and> m_channelId m = ch \<and> m_deletedAt m = None) (st_messages st)"

definition getOne :: "store \<Rightarrow> id \<Rightarrow> id \<Rightarrow> bool \<Rightarrow> message_row option" where
  "getOne st channelId msgId includeDeleted =
     (if includeDeleted then find_in_channel st msgId channelId else find_live st msgId channelId)"

definition requireOne :: "store \<Rightarrow> id \<Rightarrow> id \<Rightarrow> bool \<Rightarrow> error_code + message_row" where
  "requireOne st channelId msgId includeDeleted =
     (case getOne st channelId msgId includeDeleted of None \<Rightarrow> Inl MESSAGE_NOT_FOUND | Some m \<Rightarrow> Inr m)"

definition update_messages :: "(message_row \<Rightarrow> bool) \<Rightarrow> (message_row \<Rightarrow> message_row) \<Rightarrow> store \<Rightarrow> store" where
  "update_messages p f st = st\<lparr>st_messages := update_where p f (st_messages st)\<rparr>"

definition record_outbox :: "outbox_event \<Rightarrow> store \<Rightarrow> store" where
  "record_outbox ev st = st\<lparr>st_outbox := st_outbox st @ [ev]\<rparr>"

text \<open>
  What the service promises about its tables: message ids are unique, an author uses an
  idempotency key once (the partial unique index), a deleted message is not pinned, and a reply
  hangs under a root of its channel.
\<close>

definition keys_unique :: "message_row list \<Rightarrow> bool" where
  "keys_unique ms \<longleftrightarrow>
     (\<forall>m \<in> set ms. \<forall>n \<in> set ms. m_idempotencyKey m \<noteq> None \<longrightarrow> m_authorId m = m_authorId n
        \<longrightarrow> m_idempotencyKey m = m_idempotencyKey n \<longrightarrow> m_id m = m_id n)"

definition live_replies :: "message_row list \<Rightarrow> id \<Rightarrow> message_row list" where
  "live_replies ms rid =
     filter (\<lambda>m. m_parent m = Some rid \<and> \<not> m_isBroadcast m \<and> m_deletedAt m = None) ms"

definition live_pins :: "message_row list \<Rightarrow> id \<Rightarrow> message_row list" where
  "live_pins ms ch = filter (\<lambda>m. m_channelId m = ch \<and> m_pinnedAt m \<noteq> None \<and> m_deletedAt m = None) ms"

end
