(* ===== verification/Message_List.thy ===== *)
theory Message_List
  imports Message_Rows
begin

text \<open>
  Reading messages: \<open>rawList\<close>, \<open>list\<close>, \<open>listThreadReplies\<close>, \<open>listPins\<close> and \<open>countPins\<close> of
  \<open>messages.service.ts\<close>, over the cursor of \<open>cursor/cursor.ts\<close>. A cursor is an opaque text;
  its codec (base64url of a JSON object) is a parameter, with a round trip as what is relied on.
  The lemmas show that following the cursors pages through the timeline without loss.
\<close>

section \<open>Lists\<close>

type_synonym row_key = "msec \<times> id"

definition row_key :: "message_row \<Rightarrow> row_key" where
  "row_key m = (m_createdAt m, m_id m)"

record cursor_codec =
  encodeCursor :: "row_key \<Rightarrow> id"
  decodeCursor :: "id \<Rightarrow> error_code + row_key"

definition cursorFor :: "cursor_codec \<Rightarrow> message_row \<Rightarrow> id" where
  "cursorFor codec m = encodeCursor codec (row_key m)"

datatype direction = Before | After

definition in_timeline :: "id \<Rightarrow> bool \<Rightarrow> msec option \<Rightarrow> message_row \<Rightarrow> bool" where
  \<comment> \<open>the conditions of \<open>rawList\<close> that do not depend on the cursor\<close>
  "in_timeline ch includeDeleted visibleFrom m \<longleftrightarrow>
     m_channelId m = ch \<and> (m_parent m = None \<or> m_isBroadcast m)
     \<and> (includeDeleted \<or> m_deletedAt m = None \<or> m_replyCount m > 0)
     \<and> (case visibleFrom of None \<Rightarrow> True | Some from \<Rightarrow> from \<le> m_createdAt m)"

definition cursor_holds :: "direction \<Rightarrow> bool \<Rightarrow> row_key option \<Rightarrow> message_row \<Rightarrow> bool" where
  "cursor_holds dir inclusive cursor m =
     (case cursor of None \<Rightarrow> True
      | Some k \<Rightarrow> (case dir of
          Before \<Rightarrow> (if inclusive then row_key m \<le> k else row_key m < k)
        | After \<Rightarrow> (if inclusive then k \<le> row_key m else k < row_key m)))"

record raw_args =
  ra_channelId :: id
  ra_direction :: direction
  ra_cursor :: "row_key option"
  ra_inclusive :: bool
  ra_limit :: nat
  ra_includeDeleted :: bool
  ra_visibleFrom :: "msec option"

definition rawList :: "store \<Rightarrow> raw_args \<Rightarrow> message_row list" where
  "rawList st a =
     (let rows = sort_key row_key
            (filter (\<lambda>m. in_timeline (ra_channelId a) (ra_includeDeleted a) (ra_visibleFrom a) m
                         \<and> cursor_holds (ra_direction a) (ra_inclusive a) (ra_cursor a) m) (st_messages st));
          desc = (ra_cursor a = None \<or> ra_direction a = Before);
          fetched = take (ra_limit a) (if desc then rev rows else rows)
      in if ra_direction a = After then rev fetched else fetched)"

record list_args =
  la_channelId :: id
  la_limit :: nat
  la_includeDeleted :: bool
  la_visibleFrom :: "msec option"
  la_before :: "id option"
  la_after :: "id option"
  la_around :: "id option"

record list_result =
  lr_items :: "message_row list"
  lr_hasMore :: bool
  lr_prevCursor :: "id option"
  lr_nextCursor :: "id option"

definition page_of :: "cursor_codec \<Rightarrow> message_row list \<Rightarrow> bool \<Rightarrow> list_result" where
  \<comment> \<open>the answer of \<open>list\<close>, with the cursors of its first and last item\<close>
  "page_of codec items hasMore =
     \<lparr>lr_items = items, lr_hasMore = hasMore,
      lr_prevCursor = (case items of [] \<Rightarrow> None | m # _ \<Rightarrow> Some (cursorFor codec m)),
      lr_nextCursor = (if items = [] then None else Some (cursorFor codec (last items)))\<rparr>"

definition list_around :: "cursor_codec \<Rightarrow> store \<Rightarrow> list_args \<Rightarrow> id \<Rightarrow> error_code + list_result" where
  "list_around codec st a anchorId =
     (case find (\<lambda>m. m_id m = anchorId \<and> m_channelId m = la_channelId a
              \<and> (case la_visibleFrom a of None \<Rightarrow> True | Some from \<Rightarrow> from \<le> m_createdAt m)) (st_messages st) of
        None \<Rightarrow> Inl MESSAGE_NOT_FOUND
      | Some anchor \<Rightarrow>
         (let half = (la_limit a + 1) div 2;
              raw = (\<lambda>dir incl n. rawList st \<lparr>ra_channelId = la_channelId a, ra_direction = dir,
                 ra_cursor = Some (row_key anchor), ra_inclusive = incl, ra_limit = n,
                 ra_includeDeleted = la_includeDeleted a, ra_visibleFrom = la_visibleFrom a\<rparr>);
              byId = foldl (\<lambda>m r. AList.update (m_id r) r m) [] (raw Before True (half + 1) @ raw After False half);
              items = rev (sort_key row_key (map snd byId))
          in Inr (page_of codec items False)))"

definition list_directions :: "list_args \<Rightarrow> nat" where
  "list_directions a = length (filter (\<lambda>c. c \<noteq> None) [la_before a, la_after a, la_around a])"

definition list_messages :: "cursor_codec \<Rightarrow> store \<Rightarrow> list_args \<Rightarrow> error_code + list_result" where
  "list_messages codec st a =
     (if list_directions a > 1 then Inl VALIDATION_FAILED
      else case la_around a of
        Some anchorId \<Rightarrow> list_around codec st a anchorId
      | None \<Rightarrow>
         (let dir = (if la_after a \<noteq> None then After else Before);
              token = (case la_before a of Some c \<Rightarrow> Some c | None \<Rightarrow> la_after a)
          in bind_res (case token of None \<Rightarrow> Inr None
                       | Some c \<Rightarrow> bind_res (decodeCursor codec c) (\<lambda>k. Inr (Some k))) (\<lambda>cursor.
             let fetched = rawList st \<lparr>ra_channelId = la_channelId a, ra_direction = dir, ra_cursor = cursor,
                   ra_inclusive = False, ra_limit = la_limit a + 1,
                   ra_includeDeleted = la_includeDeleted a, ra_visibleFrom = la_visibleFrom a\<rparr>;
                 hasMore = (length fetched > la_limit a);
                 items = (if dir = After \<and> hasMore then tl fetched else take (la_limit a) fetched)
             in Inr (page_of codec items hasMore))))"

record thread_result =
  tr_root :: message_row
  tr_items :: "message_row list"
  tr_hasMore :: bool
  tr_nextCursor :: "row_key option"
  tr_prevCursor :: "row_key option"

definition listThreadReplies ::
  "store \<Rightarrow> id \<Rightarrow> id \<Rightarrow> row_key option \<Rightarrow> nat \<Rightarrow> error_code + thread_result" where
  "listThreadReplies st channelId rootId cursor limit =
     (case find_live st rootId channelId of
        None \<Rightarrow> Inl MESSAGE_NOT_FOUND
      | Some rt \<Rightarrow>
         if m_parent rt \<noteq> None then Inl MESSAGE_NOT_FOUND
         else let fetched = take (limit + 1) (sort_key row_key
                    (filter (\<lambda>m. m_parent m = Some rootId \<and> \<not> m_isBroadcast m
                               \<and> cursor_holds After False cursor m) (st_messages st)));
                  items = take limit fetched
              in Inr \<lparr>tr_root = rt, tr_items = items, tr_hasMore = (length fetched > limit),
                      tr_nextCursor = (if items = [] then None else Some (row_key (last items))),
                      tr_prevCursor = (case items of [] \<Rightarrow> None | m # _ \<Rightarrow> Some (row_key m))\<rparr>)"

definition HARD_PIN_CAP :: nat where "HARD_PIN_CAP = 55"
definition MESSAGE_PIN_CAP :: nat where "MESSAGE_PIN_CAP = 50"

definition listPins :: "store \<Rightarrow> id \<Rightarrow> message_row list \<times> nat \<times> nat" where
  \<comment> \<open>items, cap, used\<close>
  "listPins st channelId =
     (let items = take HARD_PIN_CAP (sort_key (\<lambda>m. - the (m_pinnedAt m)) (live_pins (st_messages st) channelId))
      in (items, MESSAGE_PIN_CAP, length items))"

definition countPins :: "store \<Rightarrow> id \<Rightarrow> nat \<times> nat" where
  "countPins st channelId = (length (live_pins (st_messages st) channelId), MESSAGE_PIN_CAP)"

section \<open>Lemmas: keyset paging\<close>

text \<open>What is left to read behind a cursor.\<close>

definition keyset_rest :: "('k \<Rightarrow> 'k \<Rightarrow> bool) \<Rightarrow> ('r \<Rightarrow> 'k) \<Rightarrow> 'r list \<Rightarrow> 'k option \<Rightarrow> 'r list" where
  "keyset_rest before key rows c = (case c of None \<Rightarrow> rows | Some k \<Rightarrow> filter (\<lambda>x. before k (key x)) rows)"

text \<open>A reader that follows the cursors, page after page; the fuel bounds the number of pages.\<close>

fun walk_pages ::
  "('c option \<Rightarrow> 'p option) \<Rightarrow> ('p \<Rightarrow> 'r list) \<Rightarrow> ('p \<Rightarrow> bool) \<Rightarrow> ('p \<Rightarrow> 'c option) \<Rightarrow> nat \<Rightarrow> 'c option
   \<Rightarrow> 'r list list option"
where
  "walk_pages fetch items again nxt 0 c = None"
| "walk_pages fetch items again nxt (Suc fuel) c =
     (case fetch c of
        None \<Rightarrow> None
      | Some p \<Rightarrow>
          if \<not> again p then Some [items p]
          else (case nxt p of
                  None \<Rightarrow> Some [items p]
                | Some c' \<Rightarrow> map_option (Cons (items p)) (walk_pages fetch items again nxt fuel (Some c'))))"

text \<open>
  The contract of a keyset listing: rows in a strict order of their keys. What it gives is that
  the key of the \<open>n\<close>-th row left is the cursor of what follows that row.
\<close>

locale keyset =
  fixes before :: "'k \<Rightarrow> 'k \<Rightarrow> bool" and key :: "'r \<Rightarrow> 'k" and rows :: "'s \<Rightarrow> 'r list" and wf :: "'s \<Rightarrow> bool"
  assumes before_trans: "before a b \<Longrightarrow> before b c \<Longrightarrow> before a c"
    and before_asym: "before a b \<Longrightarrow> \<not> before b a"
    and ordered: "wf s \<Longrightarrow> sorted_wrt (\<lambda>x y. before (key x) (key y)) (rows s)"
begin

lemma rest_ordered:
  "wf s \<Longrightarrow> sorted_wrt (\<lambda>x y. before (key x) (key y)) (keyset_rest before key (rows s) c)"
  using ordered by (auto simp: keyset_rest_def sorted_wrt_filter split: option.splits)

lemma rest_filter:
  assumes "x \<in> set (keyset_rest before key (rows s) c)"
  shows "keyset_rest before key (rows s) (Some (key x)) =
    filter (\<lambda>y. before (key x) (key y)) (keyset_rest before key (rows s) c)"
  using assms before_trans
  by (auto simp: keyset_rest_def split: option.splits intro!: filter_cong)

lemma rest_step:
  assumes "wf s" and "0 < n" and "n \<le> length (keyset_rest before key (rows s) c)"
  shows "keyset_rest before key (rows s) (Some (key (last (take n (keyset_rest before key (rows s) c)))))
    = drop n (keyset_rest before key (rows s) c)"
proof -
  let ?r = "keyset_rest before key (rows s) c"
  define us x vs where "us = take (n - 1) ?r" and "x = ?r ! (n - 1)" and "vs = drop n ?r"
  from assms(2,3) have n: "n - 1 < length ?r" "Suc (n - 1) = n" by auto
  have r: "?r = us @ x # vs"
    using id_take_nth_drop [OF n(1)] n(2) unfolding us_def x_def vs_def by simp
  have l: "take n ?r = us @ [x]"
    using take_Suc_conv_app_nth [OF n(1)] n(2) unfolding us_def x_def by simp
  have "sorted_wrt (\<lambda>x y. before (key x) (key y)) (us @ x # vs)" using rest_ordered [OF assms(1), of c] r by simp
  then have "\<forall>u \<in> set us. before (key u) (key x)" "\<forall>v \<in> set vs. before (key x) (key v)"
    by (auto simp: sorted_wrt_append)
  then have "filter (\<lambda>y. before (key x) (key y)) (us @ x # vs) = vs"
    using before_asym by (auto simp: filter_empty_conv filter_id_conv)
  then have "keyset_rest before key (rows s) (Some (key x)) = vs" using rest_filter [of x s c] r by simp
  moreover have "last (take n ?r) = x" unfolding l by simp
  ultimately show ?thesis using vs_def by simp
qed

lemma walk:
  assumes "wf s" and "0 < limit"
    and page: "\<And>k. k = k0 \<or> k \<noteq> None \<Longrightarrow>
      \<exists>p. fetch (map_option enc k) = Some p \<and> items p = take limit (keyset_rest before key (rows s) k)
        \<and> (again p \<longleftrightarrow> limit < length (keyset_rest before key (rows s) k))
        \<and> (limit < length (keyset_rest before key (rows s) k) \<longrightarrow>
             nxt p = Some (enc (key (last (take limit (keyset_rest before key (rows s) k))))))"
    and "k = k0 \<or> k \<noteq> None" and "length (keyset_rest before key (rows s) k) < fuel"
  shows "\<exists>pages. walk_pages fetch items again nxt fuel (map_option enc k) = Some pages
    \<and> concat pages = keyset_rest before key (rows s) k \<and> (\<forall>p \<in> set pages. length p \<le> limit)"
  using assms(4,5)
proof (induction fuel arbitrary: k)
  case 0
  then show ?case by simp
next
  case (Suc fuel)
  let ?r = "keyset_rest before key (rows s) k"
  from page [OF Suc.prems(1)] obtain p where p: "fetch (map_option enc k) = Some p" "items p = take limit ?r"
    "again p \<longleftrightarrow> limit < length ?r" "limit < length ?r \<longrightarrow> nxt p = Some (enc (key (last (take limit ?r))))" by blast
  show ?case
  proof (cases "limit < length ?r")
    case False
    with p show ?thesis by auto
  next
    case True
    let ?k = "Some (key (last (take limit ?r)))"
    have rest: "keyset_rest before key (rows s) ?k = drop limit ?r"
      using rest_step [OF assms(1,2), of k] True by simp
    with Suc.prems(2) True assms(2) have "length (keyset_rest before key (rows s) ?k) < fuel" by simp
    from Suc.IH [OF _ this] obtain pages where
      "walk_pages fetch items again nxt fuel (map_option enc ?k) = Some pages"
      "concat pages = keyset_rest before key (rows s) ?k" "\<forall>p \<in> set pages. length p \<le> limit" by auto
    with p True rest show ?thesis by auto
  qed
qed

end

definition ids_unique :: "store \<Rightarrow> bool" where
  "ids_unique st \<longleftrightarrow> distinct (map m_id (st_messages st))"

definition timeline :: "store \<times> id \<times> bool \<times> msec option \<Rightarrow> message_row list" where
  "timeline q = (case q of (st, ch, incl, from) \<Rightarrow> sort_key row_key (filter (in_timeline ch incl from) (st_messages st)))"

definition thread_rows :: "store \<times> id \<Rightarrow> message_row list" where
  "thread_rows q = (case q of (st, rid) \<Rightarrow>
     sort_key row_key (filter (\<lambda>m. m_parent m = Some rid \<and> \<not> m_isBroadcast m) (st_messages st)))"

lemma sorted_keys_strict:
  assumes "distinct (map m_id ms)"
  shows "sorted_wrt (\<lambda>x y. row_key x < row_key y) (sort_key row_key (filter P ms))"
proof -
  have "sorted_wrt (\<le>) (map row_key (sort_key row_key (filter P ms)))" by simp
  moreover have "inj_on row_key (set ms)"
    using assms by (auto simp: inj_on_def row_key_def distinct_map)
  then have "distinct (map row_key (sort_key row_key (filter P ms)))"
    using assms by (auto simp: distinct_map inj_on_def)
  ultimately have "sorted_wrt (<) (map row_key (sort_key row_key (filter P ms)))"
    by (simp add: strict_sorted_iff)
  then show ?thesis by (simp add: sorted_wrt_map)
qed

interpretation newer: keyset "(<)" row_key timeline "\<lambda>q. ids_unique (fst q)"
  by unfold_locales (auto simp: timeline_def ids_unique_def sorted_keys_strict)

interpretation older: keyset "\<lambda>a b. b < a" row_key "\<lambda>q. rev (timeline q)" "\<lambda>q. ids_unique (fst q)"
  by unfold_locales (auto simp: timeline_def ids_unique_def sorted_keys_strict sorted_wrt_rev)

interpretation replies: keyset "(<)" row_key thread_rows "\<lambda>q. ids_unique (fst q)"
  by unfold_locales (auto simp: thread_rows_def ids_unique_def sorted_keys_strict)

subsection \<open>The pages of the service\<close>

lemma filter_timeline:
  "sort_key row_key (filter (\<lambda>m. in_timeline ch incl from m \<and> P m) (st_messages st))
   = filter P (timeline (st, ch, incl, from))"
  by (simp add: timeline_def filter_sort)

abbreviation older_rest :: "store \<times> id \<times> bool \<times> msec option \<Rightarrow> row_key option \<Rightarrow> message_row list" where
  "older_rest q \<equiv> keyset_rest (\<lambda>a b. b < a) row_key (rev (timeline q))"

abbreviation newer_rest :: "store \<times> id \<times> bool \<times> msec option \<Rightarrow> row_key option \<Rightarrow> message_row list" where
  "newer_rest q \<equiv> keyset_rest (<) row_key (timeline q)"

lemma raw_before:
  "rawList st \<lparr>ra_channelId = ch, ra_direction = Before, ra_cursor = c, ra_inclusive = False, ra_limit = n,
     ra_includeDeleted = incl, ra_visibleFrom = from\<rparr> = take n (older_rest (st, ch, incl, from) c)"
  by (auto simp: rawList_def Let_def keyset_rest_def filter_timeline cursor_holds_def rev_filter
      split: option.splits)

lemma raw_after:
  "rawList st \<lparr>ra_channelId = ch, ra_direction = After, ra_cursor = Some k, ra_inclusive = False, ra_limit = n,
     ra_includeDeleted = incl, ra_visibleFrom = from\<rparr> = rev (take n (newer_rest (st, ch, incl, from) (Some k)))"
  by (auto simp: rawList_def Let_def keyset_rest_def filter_timeline cursor_holds_def)

definition codec_ok :: "cursor_codec \<Rightarrow> bool" where
  "codec_ok codec \<longleftrightarrow> (\<forall>k. decodeCursor codec (encodeCursor codec k) = Inr k)"

definition older_page :: "cursor_codec \<Rightarrow> store \<times> id \<times> bool \<times> msec option \<Rightarrow> nat \<Rightarrow> id option \<Rightarrow> list_result option" where
  \<comment> \<open>\<open>GET messages?before=\<close>\<close>
  "older_page codec q limit c = (case q of (st, ch, incl, from) \<Rightarrow>
     (case list_messages codec st \<lparr>la_channelId = ch, la_limit = limit, la_includeDeleted = incl,
         la_visibleFrom = from, la_before = c, la_after = None, la_around = None\<rparr> of
        Inl _ \<Rightarrow> None | Inr r \<Rightarrow> Some r))"

definition newer_page :: "cursor_codec \<Rightarrow> store \<times> id \<times> bool \<times> msec option \<Rightarrow> nat \<Rightarrow> id option \<Rightarrow> list_result option" where
  \<comment> \<open>\<open>GET messages?after=\<close>\<close>
  "newer_page codec q limit c = (case q of (st, ch, incl, from) \<Rightarrow>
     (case list_messages codec st \<lparr>la_channelId = ch, la_limit = limit, la_includeDeleted = incl,
         la_visibleFrom = from, la_before = None, la_after = c, la_around = None\<rparr> of
        Inl _ \<Rightarrow> None | Inr r \<Rightarrow> Some r))"

lemma older_page_eq:
  assumes "codec_ok codec"
  shows "older_page codec q limit (map_option (encodeCursor codec) k)
    = Some (page_of codec (take limit (older_rest q k)) (limit < length (older_rest q k)))"
proof -
  obtain st ch incl "from" where q: "q = (st, ch, incl, from)" by (cases q) auto
  show ?thesis
    using assms
    by (cases k) (auto simp: q older_page_def list_messages_def list_directions_def Let_def raw_before codec_ok_def
        min_def)
qed

lemma newer_page_eq:
  assumes "codec_ok codec"
  shows "newer_page codec q limit (Some (encodeCursor codec k))
    = Some (page_of codec (rev (take limit (newer_rest q (Some k)))) (limit < length (newer_rest q (Some k))))"
proof -
  obtain st ch incl "from" where q: "q = (st, ch, incl, from)" by (cases q) auto
  let ?r = "newer_rest q (Some k)"
  have "tl (rev (take (limit + 1) ?r)) = rev (take limit ?r)" if "limit < length ?r"
    using that by (simp add: take_Suc_conv_app_nth)
  moreover have "take limit (rev (take (limit + 1) ?r)) = rev (take limit ?r)" if "\<not> limit < length ?r"
    using that by simp
  moreover have "decodeCursor codec (encodeCursor codec k) = Inr k" using assms unfolding codec_ok_def by blast
  ultimately show ?thesis
    by (simp add: q newer_page_def list_messages_def list_directions_def Let_def raw_after)
qed

section \<open>Properties\<close>

text \<open>C34: Reading backwards loses nothing: starting without a cursor and following \<open>nextCursor\<close>
  while there is more, the pages of \<open>list\<close>, each within the limit, concatenate to the whole
  visible timeline, newest first, each message once.\<close>

theorem paging_backwards_complete:
  assumes "ids_unique st" and "codec_ok codec" and "0 < limit"
  shows "\<exists>pages. walk_pages (older_page codec (st, ch, incl, from) limit) lr_items lr_hasMore lr_nextCursor
      (Suc (length (timeline (st, ch, incl, from)))) None = Some pages
    \<and> concat pages = rev (timeline (st, ch, incl, from)) \<and> (\<forall>p \<in> set pages. length p \<le> limit)"
proof -
  let ?q = "(st, ch, incl, from)"
  have "\<exists>pages. walk_pages (older_page codec ?q limit) lr_items lr_hasMore lr_nextCursor
      (Suc (length (timeline ?q))) (map_option (encodeCursor codec) None) = Some pages
    \<and> concat pages = older_rest ?q None \<and> (\<forall>p \<in> set pages. length p \<le> limit)"
    by (rule older.walk [where ?k0.0 = None])
      (use assms in \<open>auto simp: older_page_eq page_of_def cursorFor_def keyset_rest_def\<close>)
  then show ?thesis by (simp add: keyset_rest_def)
qed

text \<open>Reading forwards loses nothing: from any cursor, following \<open>prevCursor\<close> while there is
  more, the pages, each reversed to oldest first, concatenate to exactly the visible messages
  newer than the cursor, in order. The surplus row that detects \<open>hasMore\<close> is the newest, so the
  page keeps the rows next to the cursor.\<close>

lemma paging_forwards_complete:
  assumes "ids_unique st" and "codec_ok codec" and "0 < limit"
  shows "\<exists>pages. walk_pages (newer_page codec (st, ch, incl, from) limit) (rev \<circ> lr_items) lr_hasMore lr_prevCursor
      (Suc (length (timeline (st, ch, incl, from)))) (Some (encodeCursor codec k)) = Some pages
    \<and> concat pages = filter (\<lambda>m. k < row_key m) (timeline (st, ch, incl, from))
    \<and> (\<forall>p \<in> set pages. length p \<le> limit)"
proof -
  let ?q = "(st, ch, incl, from)"
  have fuel: "length (newer_rest ?q (Some k)) < Suc (length (timeline ?q))"
    by (simp add: keyset_rest_def less_Suc_eq_le)
  have "\<exists>pages. walk_pages (newer_page codec ?q limit) (rev \<circ> lr_items) lr_hasMore lr_prevCursor
      (Suc (length (timeline ?q))) (map_option (encodeCursor codec) (Some k)) = Some pages
    \<and> concat pages = newer_rest ?q (Some k) \<and> (\<forall>p \<in> set pages. length p \<le> limit)"
  proof (rule newer.walk [where ?k0.0 = "Some k", OF _ _ _ _ fuel])
    fix k' assume "k' = Some k \<or> k' \<noteq> None"
    then obtain x where "k' = Some x" by (cases k') auto
    then show "\<exists>p. newer_page codec ?q limit (map_option (encodeCursor codec) k') = Some p
        \<and> (rev \<circ> lr_items) p = take limit (newer_rest ?q k') \<and> lr_hasMore p = (limit < length (newer_rest ?q k'))
        \<and> (limit < length (newer_rest ?q k') \<longrightarrow>
             lr_prevCursor p = Some (encodeCursor codec (row_key (last (take limit (newer_rest ?q k'))))))"
      using assms by (auto simp: newer_page_eq page_of_def cursorFor_def hd_rev [symmetric] split: list.splits)
  qed (use assms in auto)
  then show ?thesis by (simp add: keyset_rest_def)
qed

section \<open>An example\<close>

text \<open>A cursor that writes its time in unary, and a channel with three messages.\<close>

definition unary_codec :: cursor_codec where
  "unary_codec =
     \<lparr>encodeCursor = (\<lambda>(t, i). (if t < 0 then CHR ''-'' else CHR ''+'') # replicate (nat \<bar>t\<bar>) CHR ''1'' @ CHR ''.'' # i),
      decodeCursor = (\<lambda>c. case c of [] \<Rightarrow> Inl MESSAGE_CURSOR_INVALID
         | mark # rest \<Rightarrow> (let n = length (takeWhile (\<lambda>x. x = CHR ''1'') rest)
                        in Inr (if mark = CHR ''-'' then - int n else int n, drop (n + 1) rest)))\<rparr>"

lemma unary_codec_ok: "codec_ok unary_codec"
proof -
  have "takeWhile (\<lambda>x. x = CHR ''1'') (replicate n CHR ''1'' @ CHR ''.'' # i) = replicate n CHR ''1''" for n i
    by (induction n) simp_all
  then show ?thesis by (simp add: codec_ok_def unary_codec_def Let_def)
qed

definition plain_row :: "id \<Rightarrow> msec \<Rightarrow> id option \<Rightarrow> bool \<Rightarrow> message_row" where
  "plain_row i t parent broadcast =
     \<lparr>m_id = i, m_channelId = ''c'', m_authorId = ''u'', m_authorType = USER, m_type = DEFAULT, m_content = [],
      m_contentPlain = [], m_contentRaw = [], m_contentAst = [], m_mentions = no_mentions, m_hasLink = False,
      m_hasImage = False, m_hasFile = False, m_idempotencyKey = None, m_nonce = None, m_parent = parent,
      m_isBroadcast = broadcast, m_version = 0, m_createdAt = t, m_editedAt = None, m_deletedAt = None,
      m_pinnedAt = None, m_pinnedBy = None, m_replyCount = 0, m_latestReplyAt = None, m_threadLocked = False\<rparr>"

definition three_rows :: store where
  "three_rows = empty_store\<lparr>st_messages := [plain_row ''a'' 1 None False, plain_row ''b'' 2 None False, plain_row ''d'' 2 None False]\<rparr>"

lemma three_unique: "ids_unique three_rows"
  by (simp add: ids_unique_def three_rows_def plain_row_def)

lemma three_timeline: "timeline (three_rows, ''c'', False, None) = st_messages three_rows"
  by (simp add: timeline_def three_rows_def in_timeline_def plain_row_def row_key_def)

theorem paging_backwards_complete_witness:
  "\<exists>pages. walk_pages (older_page unary_codec (three_rows, ''c'', False, None) 2) lr_items lr_hasMore lr_nextCursor
      (Suc (length (timeline (three_rows, ''c'', False, None)))) None = Some pages
    \<and> map m_id (concat pages) = [''d'', ''b'', ''a'']"
proof -
  have "(0::nat) < 2" by simp
  from paging_backwards_complete [OF three_unique unary_codec_ok this, of "''c''" False None]
  obtain pages where "walk_pages (older_page unary_codec (three_rows, ''c'', False, None) 2) lr_items lr_hasMore lr_nextCursor
      (Suc (length (timeline (three_rows, ''c'', False, None)))) None = Some pages"
    "concat pages = rev (timeline (three_rows, ''c'', False, None))" by (elim exE conjE)
  moreover have "map m_id (rev (timeline (three_rows, ''c'', False, None))) = [''d'', ''b'', ''a'']"
    unfolding three_timeline by (simp add: three_rows_def plain_row_def)
  ultimately show ?thesis by metis
qed

lemma paging_forwards_complete_example:
  "\<exists>pages. walk_pages (newer_page unary_codec (three_rows, ''c'', False, None) 1) (rev \<circ> lr_items) lr_hasMore lr_prevCursor
      (Suc (length (timeline (three_rows, ''c'', False, None)))) (Some (encodeCursor unary_codec (1, ''a''))) = Some pages
    \<and> map m_id (concat pages) = [''b'', ''d'']"
proof -
  have "(0::nat) < 1" by simp
  from paging_forwards_complete [OF three_unique unary_codec_ok this, of "''c''" False None "(1, ''a'')"]
  obtain pages where "walk_pages (newer_page unary_codec (three_rows, ''c'', False, None) 1) (rev \<circ> lr_items) lr_hasMore lr_prevCursor
      (Suc (length (timeline (three_rows, ''c'', False, None)))) (Some (encodeCursor unary_codec (1, ''a''))) = Some pages"
    "concat pages = filter (\<lambda>m. (1, ''a'') < row_key m) (timeline (three_rows, ''c'', False, None))" by (elim exE conjE)
  moreover have "map m_id (filter (\<lambda>m. (1, ''a'') < row_key m) (timeline (three_rows, ''c'', False, None))) = [''b'', ''d'']"
    unfolding three_timeline by (simp add: three_rows_def plain_row_def row_key_def)
  ultimately show ?thesis by metis
qed

end
