(* ===== verification/Friends.thy ===== *)
theory Friends
  imports Qufox_Prelude
begin

text \<open>
  Friend requests and blocks: \<open>apps/api/src/friends/friends.service.ts\<close> over the table
  Friendship, a directed row (requester, addressee) per pair; the blocker owns a BLOCKED row as
  its requester. User names, friend-request policies and shared workspaces are read-only
  parameters of the environment; generated ids and the clock are arguments.
\<close>

section \<open>Tables\<close>

datatype friendship_status = PENDING | ACCEPTED | BLOCKED

record friendship =
  fr_id :: id
  fr_requester :: id
  fr_addressee :: id
  fr_status :: friendship_status
  fr_createdAt :: msec

datatype friend_event = REQUEST_RECEIVED | REQUEST_ACCEPTED | UNBLOCKED

record friend_db =
  fd_rows :: "friendship list"
  fd_outbox :: "(friend_event \<times> id) list"  \<comment> \<open>event type, friendship id\<close>

datatype friend_policy = EVERYONE | MUTUAL_WORKSPACE | NOBODY

record friend_env =
  fe_users :: "(id \<times> id) list"  \<comment> \<open>user name, user id\<close>
  fe_policy :: "id \<rightharpoonup> friend_policy"
  fe_shared :: "id \<Rightarrow> id \<Rightarrow> bool"  \<comment> \<open>a live workspace both are members of\<close>

datatype friend_failure = Refused error_code | Uncaught_Unique

definition FRIEND_CAP :: nat where "FRIEND_CAP = 1000"

section \<open>Operations\<close>

definition is_pair :: "id \<Rightarrow> id \<Rightarrow> friendship \<Rightarrow> bool" where
  "is_pair a b r \<longleftrightarrow> fr_requester r = a \<and> fr_addressee r = b \<or> fr_requester r = b \<and> fr_addressee r = a"

definition findRow :: "friend_db \<Rightarrow> id \<Rightarrow> id \<Rightarrow> friendship option" where
  "findRow s a b = find (is_pair a b) (fd_rows s)"

definition create_row :: "friendship \<Rightarrow> friend_db \<Rightarrow> friend_db option" where
  \<comment> \<open>\<open>None\<close> is a violation of a unique key: id, or (requester, addressee)\<close>
  "create_row r s =
     (if list_ex (\<lambda>x. fr_id x = fr_id r
            \<or> fr_requester x = fr_requester r \<and> fr_addressee x = fr_addressee r) (fd_rows s)
      then None else Some (s\<lparr>fd_rows := fd_rows s @ [r]\<rparr>))"

definition set_status :: "id \<Rightarrow> friendship_status \<Rightarrow> friend_db \<Rightarrow> friend_db" where
  "set_status fid st s =
     s\<lparr>fd_rows := update_where (\<lambda>r. fr_id r = fid) (fr_status_update (\<lambda>_. st)) (fd_rows s)\<rparr>"

definition delete_row :: "id \<Rightarrow> friend_db \<Rightarrow> friend_db" where
  "delete_row fid s = s\<lparr>fd_rows := delete_where (\<lambda>r. fr_id r = fid) (fd_rows s)\<rparr>"

definition outbox_record :: "friend_event \<Rightarrow> id \<Rightarrow> friend_db \<Rightarrow> friend_db" where
  "outbox_record ev fid s = s\<lparr>fd_outbox := fd_outbox s @ [(ev, fid)]\<rparr>"

definition assertFriendRequestAllowed :: "friend_env \<Rightarrow> id \<Rightarrow> id \<Rightarrow> error_code + unit" where
  "assertFriendRequestAllowed env me target =
     (let policy = (case fe_policy env target of None \<Rightarrow> EVERYONE | Some p \<Rightarrow> p)
      in if policy = EVERYONE then Inr ()
         else if policy = NOBODY then Inl FRIEND_REQUEST_BLOCKED
         else if \<not> fe_shared env me target then Inl FRIEND_REQUEST_BLOCKED else Inr ())"

definition requestByUsername ::
  "friend_env \<Rightarrow> id \<Rightarrow> id \<Rightarrow> id \<Rightarrow> msec \<Rightarrow> friend_db \<Rightarrow> (friend_failure + friendship) \<times> friend_db" where
  "requestByUsername env me username new_id now s =
     (case map_of (fe_users env) username of
        None \<Rightarrow> (Inl (Refused FRIEND_TARGET_NOT_FOUND), s)
      | Some target \<Rightarrow>
         if target = me then (Inl (Refused FRIEND_CANNOT_SELF), s)
         else (case findRow s me target of
            Some existing \<Rightarrow>
              if fr_status existing = BLOCKED then (Inl (Refused FRIEND_BLOCKED), s)
              else if fr_status existing = ACCEPTED then (Inl (Refused FRIEND_ALREADY), s)
              else if fr_addressee existing = me
              then (Inr (existing\<lparr>fr_status := ACCEPTED\<rparr>),
                    outbox_record REQUEST_ACCEPTED (fr_id existing) (set_status (fr_id existing) ACCEPTED s))
              else (Inl (Refused FRIEND_REQUEST_DUPLICATE), s)
          | None \<Rightarrow>
              (case assertFriendRequestAllowed env me target of
                 Inl e \<Rightarrow> (Inl (Refused e), s)
               | Inr _ \<Rightarrow>
                  if length (filter (\<lambda>r. fr_status r = ACCEPTED \<and> (fr_requester r = me \<or> fr_addressee r = me))
                       (fd_rows s)) \<ge> FRIEND_CAP
                  then (Inl (Refused FRIEND_CAP_REACHED), s)
                  else let row = \<lparr>fr_id = new_id, fr_requester = me, fr_addressee = target,
                                  fr_status = PENDING, fr_createdAt = now\<rparr>
                       in case create_row row s of
                            Some s' \<Rightarrow> (Inr row, outbox_record REQUEST_RECEIVED new_id s')
                          | None \<Rightarrow> (case findRow s me target of
                                Some r \<Rightarrow> (Inr r, s) | None \<Rightarrow> (Inl Uncaught_Unique, s)))))"

definition find_friendship :: "friend_db \<Rightarrow> id \<Rightarrow> friendship option" where
  "find_friendship s fid = find (\<lambda>r. fr_id r = fid) (fd_rows s)"

definition accept :: "id \<Rightarrow> id \<Rightarrow> friend_db \<Rightarrow> (friend_failure + friendship) \<times> friend_db" where
  "accept me fid s =
     (case find_friendship s fid of
        None \<Rightarrow> (Inl (Refused FRIEND_NOT_FOUND), s)
      | Some row \<Rightarrow>
         if fr_addressee row \<noteq> me \<or> fr_status row \<noteq> PENDING
         then (Inl (Refused FRIEND_INVALID_STATE), s)
         else (Inr (row\<lparr>fr_status := ACCEPTED\<rparr>),
               outbox_record REQUEST_ACCEPTED fid (set_status fid ACCEPTED s)))"

definition reject :: "id \<Rightarrow> id \<Rightarrow> friend_db \<Rightarrow> (friend_failure + unit) \<times> friend_db" where
  "reject me fid s =
     (case find_friendship s fid of
        None \<Rightarrow> (Inr (), s)
      | Some row \<Rightarrow>
         if fr_addressee row \<noteq> me \<or> fr_status row \<noteq> PENDING
         then (Inl (Refused FRIEND_INVALID_STATE), s)
         else (Inr (), delete_row fid s))"

definition remove_friend :: "id \<Rightarrow> id \<Rightarrow> friend_db \<Rightarrow> (friend_failure + unit) \<times> friend_db" where
  "remove_friend me fid s =
     (case find_friendship s fid of
        None \<Rightarrow> (Inr (), s)
      | Some row \<Rightarrow>
         if fr_requester row \<noteq> me \<and> fr_addressee row \<noteq> me then (Inl (Refused FRIEND_NOT_FOUND), s)
         else if fr_status row \<noteq> ACCEPTED then (Inl (Refused FRIEND_INVALID_STATE), s)
         else (Inr (), delete_row fid s))"

definition block :: "id \<Rightarrow> id \<Rightarrow> id \<Rightarrow> msec \<Rightarrow> friend_db \<Rightarrow> (friend_failure + unit) \<times> friend_db" where
  "block me target new_id now s =
     (if me = target then (Inl (Refused FRIEND_CANNOT_SELF), s)
      else let row = \<lparr>fr_id = new_id, fr_requester = me, fr_addressee = target,
                      fr_status = BLOCKED, fr_createdAt = now\<rparr>
           in case findRow s me target of
                Some existing \<Rightarrow>
                  if fr_requester existing = me
                  then (Inr (), set_status (fr_id existing) BLOCKED s)
                  else (case create_row row (delete_row (fr_id existing) s) of
                          Some s' \<Rightarrow> (Inr (), s')
                        | None \<Rightarrow> (case findRow s me target of
                             Some current \<Rightarrow> (Inr (), set_status (fr_id current) BLOCKED s)
                           | None \<Rightarrow> (Inl Uncaught_Unique, s)))
              | None \<Rightarrow> (case create_row row s of
                          Some s' \<Rightarrow> (Inr (), s') | None \<Rightarrow> (Inl Uncaught_Unique, s)))"

definition unblock :: "id \<Rightarrow> id \<Rightarrow> friend_db \<Rightarrow> friend_db" where
  "unblock me target s =
     (case findRow s me target of
        None \<Rightarrow> s
      | Some existing \<Rightarrow>
         if fr_status existing \<noteq> BLOCKED \<or> fr_requester existing \<noteq> me then s
         else outbox_record UNBLOCKED (fr_id existing) (delete_row (fr_id existing) s))"

datatype friends_filter = FAccepted | FPendingIncoming | FPendingOutgoing | FBlocked

record friend_view =
  fv_id :: id
  fv_other :: id
  fv_username :: id
  fv_status :: friendship_status
  fv_outgoing :: bool
  fv_createdAt :: msec

definition matches_filter :: "friends_filter \<Rightarrow> id \<Rightarrow> friendship \<Rightarrow> bool" where
  "matches_filter f me r = (case f of
       FAccepted \<Rightarrow> fr_status r = ACCEPTED
     | FPendingIncoming \<Rightarrow> fr_status r = PENDING \<and> fr_addressee r = me
     | FPendingOutgoing \<Rightarrow> fr_status r = PENDING \<and> fr_requester r = me
     | FBlocked \<Rightarrow> fr_status r = BLOCKED \<and> fr_requester r = me)"

definition other_of :: "id \<Rightarrow> friendship \<Rightarrow> id" where
  "other_of me r = (if fr_requester r = me then fr_addressee r else fr_requester r)"

definition list_friends :: "friend_env \<Rightarrow> id \<Rightarrow> friends_filter \<Rightarrow> friend_db \<Rightarrow> friend_view list" where
  "list_friends env me f s =
     concat (map (\<lambda>r. map (\<lambda>u. \<lparr>fv_id = fr_id r, fv_other = other_of me r, fv_username = fst u,
           fv_status = fr_status r, fv_outgoing = (fr_requester r = me),
           fv_createdAt = fr_createdAt r\<rparr>)
         (filter (\<lambda>u. snd u = other_of me r) (fe_users env)))
       (sort_key (\<lambda>r. - fr_createdAt r)
         (filter (\<lambda>r. (fr_requester r = me \<or> fr_addressee r = me) \<and> matches_filter f me r) (fd_rows s))))"

text \<open>Requests as events, in the order the service handles them.\<close>

datatype friend_op =
    Request id id id msec  \<comment> \<open>user, name asked for, new id, time\<close>
  | Accept id id
  | Reject id id
  | Remove id id
  | Block id id id msec
  | Unblock id id

fun friend_step :: "friend_env \<Rightarrow> friend_db \<Rightarrow> friend_op \<Rightarrow> friend_db" where
  "friend_step env s (Request me name new_id now) = snd (requestByUsername env me name new_id now s)"
| "friend_step env s (Accept me fid) = snd (accept me fid s)"
| "friend_step env s (Reject me fid) = snd (reject me fid s)"
| "friend_step env s (Remove me fid) = snd (remove_friend me fid s)"
| "friend_step env s (Block me target new_id now) = snd (block me target new_id now s)"
| "friend_step env s (Unblock me target) = unblock me target s"

section \<open>Lemmas: the shape of a step\<close>

text \<open>Every step keeps the rows, changes the status of one row, deletes one or adds one; the
  cases carry what the guards give.\<close>

lemma fd_rows_outbox [simp]: "fd_rows (outbox_record ev fid s) = fd_rows s"
  by (simp add: outbox_record_def)

lemma findRow_Some: "findRow s a b = Some r \<Longrightarrow> r \<in> set (fd_rows s) \<and> is_pair a b r"
  by (auto simp: findRow_def dest: find_Some_in)

lemma findRow_None: "findRow s a b = None \<longleftrightarrow> (\<forall>r \<in> set (fd_rows s). \<not> is_pair a b r)"
  by (simp add: findRow_def find_None_all)

lemma find_friendship_Some: "find_friendship s fid = Some r \<Longrightarrow> r \<in> set (fd_rows s) \<and> fr_id r = fid"
  by (auto simp: find_friendship_def dest: find_Some_in)

definition added :: "friendship \<Rightarrow> friendship list \<Rightarrow> friendship list \<Rightarrow> bool" where
  "added r rows rows' \<longleftrightarrow> rows' = rows @ [r] \<and> fr_id r \<notin> fr_id ` set rows \<and> fr_requester r \<noteq> fr_addressee r
     \<and> (\<forall>x \<in> set rows. \<not> is_pair (fr_requester r) (fr_addressee r) x)"

inductive row_change :: "friend_env \<Rightarrow> friendship list \<Rightarrow> friend_op \<Rightarrow> friendship list \<Rightarrow> bool"
  for env rows where
  unchanged: "row_change env rows op rows"
| requested: "map_of (fe_users env) name = Some target \<Longrightarrow>
    added \<lparr>fr_id = new_id, fr_requester = me, fr_addressee = target, fr_status = PENDING, fr_createdAt = now\<rparr>
      rows rows' \<Longrightarrow> row_change env rows (Request me name new_id now) rows'"
| auto_accepted: "map_of (fe_users env) name = Some target \<Longrightarrow> r \<in> set rows \<Longrightarrow> is_pair me target r \<Longrightarrow>
    fr_status r = PENDING \<Longrightarrow> fr_addressee r = me \<Longrightarrow> target \<noteq> me \<Longrightarrow>
    row_change env rows (Request me name new_id now)
      (update_where (\<lambda>x. fr_id x = fr_id r) (fr_status_update (\<lambda>_. ACCEPTED)) rows)"
| accepted: "r \<in> set rows \<Longrightarrow> fr_id r = fid \<Longrightarrow> fr_addressee r = me \<Longrightarrow> fr_status r = PENDING \<Longrightarrow>
    row_change env rows (Accept me fid)
      (update_where (\<lambda>x. fr_id x = fid) (fr_status_update (\<lambda>_. ACCEPTED)) rows)"
| rejected: "r \<in> set rows \<Longrightarrow> fr_id r = fid \<Longrightarrow> fr_addressee r = me \<Longrightarrow> fr_status r = PENDING \<Longrightarrow>
    row_change env rows (Reject me fid) (delete_where (\<lambda>x. fr_id x = fid) rows)"
| removed: "r \<in> set rows \<Longrightarrow> fr_id r = fid \<Longrightarrow> fr_requester r = me \<or> fr_addressee r = me \<Longrightarrow>
    fr_status r = ACCEPTED \<Longrightarrow> row_change env rows (Remove me fid) (delete_where (\<lambda>x. fr_id x = fid) rows)"
| blocked: "r \<in> set rows \<Longrightarrow> is_pair me target r \<Longrightarrow>
    row_change env rows (Block me target new_id now)
      (update_where (\<lambda>x. fr_id x = fr_id r) (fr_status_update (\<lambda>_. BLOCKED)) rows)"
| block_new: "added \<lparr>fr_id = new_id, fr_requester = me, fr_addressee = target, fr_status = BLOCKED, fr_createdAt = now\<rparr>
      rows rows' \<Longrightarrow> row_change env rows (Block me target new_id now) rows'"
| block_flip: "r \<in> set rows \<Longrightarrow> is_pair me target r \<Longrightarrow> fr_requester r \<noteq> me \<Longrightarrow> me \<noteq> target \<Longrightarrow>
    new_id \<notin> fr_id ` set (delete_where (\<lambda>x. fr_id x = fr_id r) rows) \<Longrightarrow>
    row_change env rows (Block me target new_id now) (delete_where (\<lambda>x. fr_id x = fr_id r) rows
      @ [\<lparr>fr_id = new_id, fr_requester = me, fr_addressee = target, fr_status = BLOCKED, fr_createdAt = now\<rparr>])"
| unblocked: "r \<in> set rows \<Longrightarrow> is_pair me target r \<Longrightarrow> fr_status r = BLOCKED \<Longrightarrow> fr_requester r = me \<Longrightarrow>
    row_change env rows (Unblock me target) (delete_where (\<lambda>x. fr_id x = fr_id r) rows)"

inductive_cases row_changeE: "row_change env rows op rows'"

lemma create_row_Some:
  "create_row r s = Some s' \<Longrightarrow> fd_rows s' = fd_rows s @ [r] \<and> fr_id r \<notin> fr_id ` set (fd_rows s)"
  by (auto simp: create_row_def list_ex_iff split: if_splits)

lemma row_change_outbox: "row_change env rows op (fd_rows s') \<Longrightarrow> row_change env rows op (fd_rows (outbox_record ev fid s'))"
  by simp

lemma request_change:
  "row_change env (fd_rows s) (Request me name new_id now) (fd_rows (snd (requestByUsername env me name new_id now s)))"
proof (cases "map_of (fe_users env) name")
  case None
  then show ?thesis by (simp add: requestByUsername_def unchanged)
next
  case (Some target)
  show ?thesis
  proof (cases "findRow s me target")
    case existing: (Some r)
    show ?thesis
    proof (cases "target \<noteq> me \<and> fr_status r \<noteq> BLOCKED \<and> fr_status r \<noteq> ACCEPTED \<and> fr_addressee r = me")
      case True
      then have "fr_status r = PENDING" by (cases "fr_status r") simp_all
      moreover from True Some existing have "fd_rows (snd (requestByUsername env me name new_id now s))
          = update_where (\<lambda>x. fr_id x = fr_id r) (fr_status_update (\<lambda>_. ACCEPTED)) (fd_rows s)"
        by (simp add: requestByUsername_def set_status_def)
      ultimately show ?thesis
        using auto_accepted [OF Some, of r "fd_rows s" me new_id now] findRow_Some [OF existing] True by simp
    next
      case False
      with Some existing show ?thesis by (auto simp: requestByUsername_def intro: unchanged)
    qed
  next
    case none: None
    let ?r = "\<lparr>fr_id = new_id, fr_requester = me, fr_addressee = target, fr_status = PENDING, fr_createdAt = now\<rparr>"
    have "row_change env (fd_rows s) (Request me name new_id now) (fd_rows s')"
      if "create_row ?r s = Some s'" "target \<noteq> me" for s'
      using that none by (intro requested [OF Some]) (auto simp: added_def findRow_None dest!: create_row_Some)
    with Some none show ?thesis
      by (auto simp: requestByUsername_def Let_def unchanged split: sum.split option.split)
  qed
qed

lemma block_change:
  "row_change env (fd_rows s) (Block me target new_id now) (fd_rows (snd (block me target new_id now s)))"
proof (cases "me = target")
  case True
  then show ?thesis by (simp add: block_def unchanged)
next
  case False
  let ?r = "\<lparr>fr_id = new_id, fr_requester = me, fr_addressee = target, fr_status = BLOCKED, fr_createdAt = now\<rparr>"
  show ?thesis
  proof (cases "findRow s me target")
    case None
    have "row_change env (fd_rows s) (Block me target new_id now) (fd_rows s')"
      if "create_row ?r s = Some s'" for s'
      using that None False by (intro block_new) (auto simp: added_def findRow_None dest!: create_row_Some)
    with None False show ?thesis by (auto simp: block_def Let_def unchanged split: option.split)
  next
    case (Some r)
    note r = findRow_Some [OF Some, THEN conjunct1] findRow_Some [OF Some, THEN conjunct2]
    show ?thesis
    proof (cases "fr_requester r = me \<or> create_row ?r (delete_row (fr_id r) s) = None")
      case True
      with Some False have "fd_rows (snd (block me target new_id now s))
          = update_where (\<lambda>x. fr_id x = fr_id r) (fr_status_update (\<lambda>_. BLOCKED)) (fd_rows s)"
        by (auto simp: block_def Let_def set_status_def)
      with blocked [OF r] show ?thesis by simp
    next
      case flip: False
      then obtain s' where s': "create_row ?r (delete_row (fr_id r) s) = Some s'" by auto
      with Some False flip have "fd_rows (snd (block me target new_id now s)) = fd_rows s'"
        by (simp add: block_def Let_def)
      with create_row_Some [OF s'] block_flip [OF r] False flip show ?thesis by (simp add: delete_row_def)
    qed
  qed
qed

lemma step_change: "row_change env (fd_rows s) op (fd_rows (friend_step env s op))"
proof (cases op)
  case (Accept me fid)
  then show ?thesis
    by (auto simp: accept_def set_status_def intro: unchanged accepted dest!: find_friendship_Some split: option.split)
next
  case (Reject me fid)
  then show ?thesis
    by (auto simp: reject_def delete_row_def intro: unchanged rejected dest!: find_friendship_Some split: option.split)
next
  case (Remove me fid)
  then show ?thesis
    by (auto simp: remove_friend_def delete_row_def intro: unchanged removed dest!: find_friendship_Some split: option.split)
next
  case (Unblock me target)
  then show ?thesis
    by (auto simp: unblock_def delete_row_def intro: unchanged unblocked dest!: findRow_Some split: option.split)
qed (simp_all add: request_change block_change)

section \<open>Lemmas: one row per pair, consent\<close>

definition rows_ok :: "friendship list \<Rightarrow> bool" where
  "rows_ok rows \<longleftrightarrow> distinct (map fr_id rows)
     \<and> (\<forall>a b. \<exists>r. {x \<in> set rows. is_pair a b x} \<subseteq> {r})"

lemma rows_ok_pair:
  "rows_ok rows \<Longrightarrow> x \<in> set rows \<Longrightarrow> y \<in> set rows \<Longrightarrow> is_pair a b x \<Longrightarrow> is_pair a b y \<Longrightarrow> x = y"
  unfolding rows_ok_def by (metis (mono_tags, lifting) mem_Collect_eq singletonD subsetD)

lemma rows_ok_id: "rows_ok rows \<Longrightarrow> x \<in> set rows \<Longrightarrow> y \<in> set rows \<Longrightarrow> fr_id x = fr_id y \<Longrightarrow> x = y"
  using distinct_map_unique [of fr_id rows x y] by (simp add: rows_ok_def)

lemma is_pair_self: "is_pair (fr_requester r) (fr_addressee r) r"
  by (simp add: is_pair_def)

lemma is_pair_same: "is_pair a b x \<Longrightarrow> is_pair a b y \<Longrightarrow> is_pair (fr_requester x) (fr_addressee x) y"
  by (auto simp: is_pair_def)

lemma rows_okI:
  assumes "distinct (map fr_id rows)"
    and "\<And>x y. x \<in> set rows \<Longrightarrow> y \<in> set rows \<Longrightarrow> is_pair (fr_requester x) (fr_addressee x) y \<Longrightarrow> x = y"
  shows "rows_ok rows"
proof -
  have "\<exists>r. {x \<in> set rows. is_pair a b x} \<subseteq> {r}" for a b
    using assms(2) is_pair_same by blast
  with assms(1) show ?thesis by (simp add: rows_ok_def)
qed

lemma rows_ok_delete: "rows_ok rows \<Longrightarrow> rows_ok (delete_where p rows)"
  by (rule rows_okI)
    (auto simp: rows_ok_def distinct_map_delete_where set_delete_where
      intro: rows_ok_pair [OF _ _ _ is_pair_self, unfolded rows_ok_def])

lemma rows_ok_status: "rows_ok rows \<Longrightarrow> rows_ok (update_where p (fr_status_update (\<lambda>_. st)) rows)"
proof -
  assume ok: "rows_ok rows"
  have upd: "\<exists>x0 \<in> set rows. x = (if p x0 then x0\<lparr>fr_status := st\<rparr> else x0)
      \<and> fr_requester x = fr_requester x0 \<and> fr_addressee x = fr_addressee x0"
    if "x \<in> set (update_where p (fr_status_update (\<lambda>_. st)) rows)" for x
    using that by (auto simp: set_update_where)
  show ?thesis
  proof (rule rows_okI)
    show "distinct (map fr_id (update_where p (fr_status_update (\<lambda>_. st)) rows))"
      using ok by (simp add: rows_ok_def map_update_where)
    fix x y
    assume xy: "x \<in> set (update_where p (fr_status_update (\<lambda>_. st)) rows)"
      "y \<in> set (update_where p (fr_status_update (\<lambda>_. st)) rows)" "is_pair (fr_requester x) (fr_addressee x) y"
    from upd [OF xy(1)] upd [OF xy(2)] obtain x0 y0 where
      x0: "x0 \<in> set rows" "x = (if p x0 then x0\<lparr>fr_status := st\<rparr> else x0)"
        "fr_requester x = fr_requester x0" "fr_addressee x = fr_addressee x0" and
      y0: "y0 \<in> set rows" "y = (if p y0 then y0\<lparr>fr_status := st\<rparr> else y0)"
        "fr_requester y = fr_requester y0" "fr_addressee y = fr_addressee y0" by blast
    with xy(3) have "is_pair (fr_requester x0) (fr_addressee x0) y0" by (simp add: is_pair_def)
    with ok x0(1) y0(1) have "x0 = y0" by (rule rows_ok_pair [OF _ _ _ is_pair_self])
    with x0(2) y0(2) show "x = y" by simp
  qed
qed

lemma rows_ok_append:
  assumes "rows_ok rows" and "fr_id r \<notin> fr_id ` set rows"
    and "\<And>x. x \<in> set rows \<Longrightarrow> \<not> is_pair (fr_requester r) (fr_addressee r) x"
  shows "rows_ok (rows @ [r])"
proof (rule rows_okI)
  show "distinct (map fr_id (rows @ [r]))" using assms(1,2) by (simp add: rows_ok_def)
  fix x y assume "x \<in> set (rows @ [r])" "y \<in> set (rows @ [r])" "is_pair (fr_requester x) (fr_addressee x) y"
  then show "x = y"
    using assms(3) rows_ok_pair [OF assms(1) _ _ is_pair_self] by (fastforce simp: is_pair_def)
qed

lemma row_change_ok: "row_change env rows op rows' \<Longrightarrow> rows_ok rows \<Longrightarrow> rows_ok rows'"
proof (induction rule: row_change.induct)
  case (block_flip r me target new_id now)
  let ?rows = "delete_where (\<lambda>x. fr_id x = fr_id r) rows"
  have "\<not> is_pair me target x" if "x \<in> set ?rows" for x
    using that rows_ok_pair [OF block_flip.prems, of x r me target] block_flip.hyps
    by (auto simp: set_delete_where)
  with block_flip show ?case by (intro rows_ok_append) (simp_all add: rows_ok_delete)
qed (auto simp: added_def rows_ok_delete rows_ok_status intro: rows_ok_append)

interpretation friends: invariant_machine "friend_step env" "\<lambda>s. rows_ok (fd_rows s)" "\<lambda>_. True" for env
  by unfold_locales (rule row_change_ok [OF step_change])

text \<open>What the requests of a history say: \<open>a\<close> asked for the friendship of \<open>b\<close>; \<open>b\<close> agreed to the
  row \<open>r\<close> by accepting it or by asking for the friendship of its requester.\<close>

definition asked :: "friend_env \<Rightarrow> friend_op list \<Rightarrow> id \<Rightarrow> id \<Rightarrow> bool" where
  "asked env ops a b \<longleftrightarrow> (\<exists>name new_id now. Request a name new_id now \<in> set ops \<and> map_of (fe_users env) name = Some b)"

definition agreed :: "friend_env \<Rightarrow> friend_op list \<Rightarrow> friendship \<Rightarrow> bool" where
  "agreed env ops r \<longleftrightarrow> Accept (fr_addressee r) (fr_id r) \<in> set ops
     \<or> asked env ops (fr_addressee r) (fr_requester r)"

definition consented :: "friend_env \<Rightarrow> friend_op list \<Rightarrow> friendship \<Rightarrow> bool" where
  "consented env ops r \<longleftrightarrow> fr_status r = BLOCKED
     \<or> asked env ops (fr_requester r) (fr_addressee r) \<and> (fr_status r = ACCEPTED \<longrightarrow> agreed env ops r)"

lemma consented_more: "consented env ops r \<Longrightarrow> consented env (ops @ later) r"
  by (auto simp: consented_def asked_def agreed_def)

lemma row_change_consent:
  assumes "row_change env rows op rows'" and "rows_ok rows"
    and "\<And>r. r \<in> set rows \<Longrightarrow> consented env ops r"
  shows "r \<in> set rows' \<Longrightarrow> consented env (ops @ [op]) r"
  using assms
proof (induction arbitrary: r rule: row_change.induct)
  case (auto_accepted name target q me new_id now)
  then obtain q0 where q0: "q0 \<in> set rows" "r = (if fr_id q0 = fr_id q then q0\<lparr>fr_status := ACCEPTED\<rparr> else q0)"
    by (auto simp: set_update_where)
  show ?case
  proof (cases "fr_id q0 = fr_id q")
    case True
    with auto_accepted q0 have "q0 = q" by (intro rows_ok_id) simp_all
    with auto_accepted q0 True show ?thesis
      using auto_accepted.prems(3) [OF q0(1)]
      by (auto simp: consented_def agreed_def asked_def is_pair_def)
  next
    case False
    with q0 auto_accepted.prems(3) show ?thesis by (auto intro: consented_more)
  qed
next
  case (accepted q fid me)
  then obtain q0 where q0: "q0 \<in> set rows" "r = (if fr_id q0 = fid then q0\<lparr>fr_status := ACCEPTED\<rparr> else q0)"
    by (auto simp: set_update_where)
  show ?case
  proof (cases "fr_id q0 = fid")
    case True
    with accepted q0 have "q0 = q" by (intro rows_ok_id) simp_all
    with accepted q0 True show ?thesis
      using accepted.prems(3) [OF q0(1)]
      by (auto simp: consented_def agreed_def asked_def)
  next
    case False
    with q0 accepted.prems(3) show ?thesis by (auto intro: consented_more)
  qed
next
  case (requested name target new_id me now rows')
  then show ?case
    by (auto simp: added_def intro: consented_more) (auto simp: consented_def asked_def)
next
  case (blocked q me target new_id now)
  then show ?case by (auto simp: set_update_where intro: consented_more) (auto simp: consented_def)
qed (auto simp: added_def set_delete_where consented_def [of _ _ "_\<lparr>fr_status := _\<rparr>"]
    consented_def [of _ _ "\<lparr>fr_id = _, fr_requester = _, fr_addressee = _, fr_status = _, fr_createdAt = _\<rparr>"]
    intro: consented_more)

lemma consent_run:
  assumes "rows_ok (fd_rows s)" and "fd_rows s = []"
  shows "r \<in> set (fd_rows (run_steps (friend_step env) s ops)) \<Longrightarrow> consented env ops r"
proof (induction ops arbitrary: r rule: rev_induct)
  case Nil
  with assms show ?case by simp
next
  case (snoc op ops)
  let ?s = "run_steps (friend_step env) s ops"
  have "rows_ok (fd_rows ?s)" by (rule friends.inv_run [OF assms(1)]) (simp add: list_all_iff)
  then show ?case
    using row_change_consent [OF step_change [where env = env and s = ?s and op = op], of ops r] snoc by (simp add: run_steps_append)
qed

lemma block_stays:
  assumes "row_change env rows op rows'" and "rows_ok rows" and "r \<in> set rows" and "fr_status r = BLOCKED"
    and "\<forall>new_id now. op \<noteq> Block (fr_addressee r) (fr_requester r) new_id now"
    and "op \<noteq> Unblock (fr_requester r) (fr_addressee r)"
  shows "r \<in> set rows'"
  using assms
proof (induction rule: row_change.induct)
  case (auto_accepted name target q me new_id now)
  then have "fr_id r \<noteq> fr_id q" using rows_ok_id [of rows r q] by auto
  with auto_accepted show ?case by (auto simp: set_update_where image_iff intro!: bexI [of _ r])
next
  case (accepted q fid me)
  then have "fr_id r \<noteq> fid" using rows_ok_id [of rows r q] by auto
  with accepted show ?case by (auto simp: set_update_where image_iff intro!: bexI [of _ r])
next
  case (rejected q fid me)
  then show ?case using rows_ok_id [of rows r q] by (auto simp: set_delete_where)
next
  case (removed q fid me)
  then show ?case using rows_ok_id [of rows r q] by (auto simp: set_delete_where)
next
  case (blocked q me target new_id now)
  then show ?case by (auto simp: set_update_where image_iff intro!: bexI [of _ r])
next
  case (block_flip q me target new_id now)
  then have "fr_id r \<noteq> fr_id q" using rows_ok_id [of rows r q] by (auto simp: is_pair_def)
  with block_flip show ?case by (simp add: set_delete_where)
next
  case (unblocked q me target)
  then have "fr_id r \<noteq> fr_id q" using rows_ok_id [of rows r q] by (auto simp: is_pair_def)
  with unblocked show ?case by (simp add: set_delete_where)
qed (auto simp: added_def)

section \<open>Properties\<close>

abbreviation no_friends :: friend_db where "no_friends \<equiv> \<lparr>fd_rows = [], fd_outbox = []\<rparr>"

lemma no_friends_ok: "rows_ok (fd_rows no_friends)"
  by (simp add: rows_ok_def)

text \<open>A pair of users has at most one row: after any sequence of requests, acceptances,
  rejections, removals, blocks and unblocks, two rows between the same two users, in either
  direction, are the same row. (The database only guarantees it per direction.)\<close>

lemma one_row_per_pair:
  assumes "s = run_steps (friend_step env) \<lparr>fd_rows = [], fd_outbox = []\<rparr> ops"
    and "x \<in> set (fd_rows s)" and "y \<in> set (fd_rows s)" and "is_pair a b x" and "is_pair a b y"
  shows "x = y"
proof -
  have "rows_ok (fd_rows s)"
    unfolding assms(1) by (rule friends.inv_run [OF no_friends_ok]) (simp add: list_all_iff)
  then show ?thesis using assms(2-5) by (rule rows_ok_pair)
qed

abbreviation two_users :: friend_env where
  "two_users \<equiv> \<lparr>fe_users = [(''ann'', ''a''), (''bob'', ''b'')], fe_policy = Map.empty, fe_shared = (\<lambda>_ _. False)\<rparr>"

definition ann_and_bob :: friend_db where
  "ann_and_bob = run_steps (friend_step two_users) \<lparr>fd_rows = [], fd_outbox = []\<rparr>
     [Request ''a'' ''bob'' ''1'' 0, Block ''b'' ''a'' ''2'' 1, Request ''b'' ''ann'' ''3'' 2]"

lemma one_row_per_pair_example:
  "hd (fd_rows ann_and_bob) = List.last (fd_rows ann_and_bob) \<and> is_pair ''a'' ''b'' (hd (fd_rows ann_and_bob))"
proof -
  have nonempty: "fd_rows ann_and_bob \<noteq> []"
    and pairs: "is_pair ''a'' ''b'' (hd (fd_rows ann_and_bob))"
      "is_pair ''a'' ''b'' (List.last (fd_rows ann_and_bob))"
    by code_simp+
  from one_row_per_pair [OF ann_and_bob_def hd_in_set [OF nonempty] last_in_set [OF nonempty] pairs] pairs(1)
  show ?thesis by (rule conjI)
qed

text \<open>C17: No friendship without the consent of both: if two users are friends after any history
  that started without rows, the requester of the row asked the addressee by his name, and the
  addressee accepted that row or asked the requester himself; a pending row was asked for by
  its requester.\<close>

theorem friendship_needs_consent:
  assumes "r \<in> set (fd_rows (run_steps (friend_step env) \<lparr>fd_rows = [], fd_outbox = []\<rparr> ops))"
    and "fr_status r \<noteq> BLOCKED"
  shows "asked env ops (fr_requester r) (fr_addressee r) \<and> (fr_status r = ACCEPTED \<longrightarrow> agreed env ops r)"
  using consent_run [OF no_friends_ok _ assms(1)] assms(2) by (simp add: consented_def)

theorem friendship_needs_consent_witness:
  "agreed two_users [Request ''a'' ''bob'' ''1'' 0, Accept ''b'' ''1'']
     \<lparr>fr_id = ''1'', fr_requester = ''a'', fr_addressee = ''b'', fr_status = ACCEPTED, fr_createdAt = 0\<rparr>"
proof -
  have "fd_rows (run_steps (friend_step two_users) no_friends [Request ''a'' ''bob'' ''1'' 0, Accept ''b'' ''1''])
      = [\<lparr>fr_id = ''1'', fr_requester = ''a'', fr_addressee = ''b'', fr_status = ACCEPTED, fr_createdAt = 0\<rparr>]"
    by code_simp
  with friendship_needs_consent [of "\<lparr>fr_id = ''1'', fr_requester = ''a'', fr_addressee = ''b'', fr_status = ACCEPTED, fr_createdAt = 0\<rparr>"
      two_users "[Request ''a'' ''bob'' ''1'' 0, Accept ''b'' ''1'']"]
  show ?thesis by (simp del: run_steps.simps friend_step.simps)
qed

text \<open>C27: A block holds until the blocker lifts it or the blocked user blocks back: every other
  operation of anybody leaves the BLOCKED row in place, and while it is there a friend request
  between the two, in either direction, is refused with FRIEND_BLOCKED. (Blocking back replaces
  the row, so its new owner can lift it: see \<open>block_can_be_taken_over\<close>.)\<close>

theorem block_holds:
  assumes "rows_ok (fd_rows s)" and "r \<in> set (fd_rows s)" and "fr_status r = BLOCKED"
    and "\<forall>new_id now. op \<noteq> Block (fr_addressee r) (fr_requester r) new_id now"
    and "op \<noteq> Unblock (fr_requester r) (fr_addressee r)"
    and "is_pair me target r" and "map_of (fe_users env) name = Some target" and "target \<noteq> me"
  shows "r \<in> set (fd_rows (friend_step env s op))
    \<and> requestByUsername env me name new_id now s = (Inl (Refused FRIEND_BLOCKED), s)"
proof -
  have "findRow s me target \<noteq> None" using assms(2,6) by (auto simp: findRow_None)
  then obtain q where q: "findRow s me target = Some q" by blast
  with assms(1,2,6) have "q = r" using findRow_Some rows_ok_pair by blast
  with q assms(3,7,8) have "requestByUsername env me name new_id now s = (Inl (Refused FRIEND_BLOCKED), s)"
    by (simp add: requestByUsername_def)
  with block_stays [OF step_change assms(1-5)] show ?thesis by simp
qed

abbreviation ann_blocks_bob :: friend_db where
  "ann_blocks_bob \<equiv> \<lparr>fd_rows = [\<lparr>fr_id = ''1'', fr_requester = ''a'', fr_addressee = ''b'',
     fr_status = BLOCKED, fr_createdAt = 0\<rparr>], fd_outbox = []\<rparr>"

theorem block_holds_witness:
  "requestByUsername two_users ''b'' ''ann'' ''2'' 5 ann_blocks_bob = (Inl (Refused FRIEND_BLOCKED), ann_blocks_bob)
   \<and> fd_rows (friend_step two_users ann_blocks_bob (Accept ''b'' ''1'')) \<noteq> []"
proof -
  let ?r = "\<lparr>fr_id = ''1'', fr_requester = ''a'', fr_addressee = ''b'', fr_status = BLOCKED, fr_createdAt = 0\<rparr>"
  have "rows_ok (fd_rows ann_blocks_bob)" by (rule rows_okI) auto
  from block_holds [OF this, of ?r "Accept ''b'' ''1''" "''b''" "''a''" two_users "''ann''" "''2''" 5]
  show ?thesis by (auto simp: is_pair_def simp del: friend_step.simps)
qed

text \<open>The blocked user can lift the block: by blocking back he becomes the owner of the only row,
  and unblocking deletes it; his next request to the user who had blocked him goes through.\<close>

lemma block_can_be_taken_over:
  "fst (requestByUsername two_users ''b'' ''ann'' ''3'' 7
     (run_steps (friend_step two_users) ann_blocks_bob [Block ''b'' ''a'' ''2'' 5, Unblock ''b'' ''a'']))
   = Inr \<lparr>fr_id = ''3'', fr_requester = ''b'', fr_addressee = ''a'', fr_status = PENDING, fr_createdAt = 7\<rparr>"
  by code_simp

end
