(* ===== verification/Notify_Gate.thy ===== *)
theory Notify_Gate
  imports Friends
begin

text \<open>
  Who is notified of a mention: the weekly do-not-disturb schedule
  (\<open>apps/api/src/me/dnd-schedule.service.ts\<close>), the do-not-disturb gate
  (\<open>notifications/dnd-gate.ts\<close>), the three-layer notification level (\<open>notif-level.ts\<close> and its
  batch loader \<open>notif-level.service.ts\<close>) and the gate that folds them with blocks, mutes and
  thread subscriptions (\<open>mention-gate.service.ts\<close>). The conversion of an instant to a local day
  and minute by \<open>Intl.DateTimeFormat\<close> is the parameter \<open>intl\<close>; it answers \<open>None\<close> where the code
  falls back to UTC.
\<close>

section \<open>The do-not-disturb schedule\<close>

record dnd_entry =
  de_day :: int
  de_startMin :: int
  de_endMin :: int

type_synonym dnd_schedule = "dnd_entry list"
type_synonym intl = "id \<Rightarrow> msec \<Rightarrow> (int \<times> int) option"

datatype raw_value = Raw_int int | Raw_other  \<comment> \<open>a number that is an integer, or anything else\<close>

datatype raw_schedule = Raw_null | Raw_scalar | Raw_object "raw_entry list option"
and raw_entry = Raw_entry raw_value raw_value raw_value | Raw_no_object

definition MAX_ENTRIES_PER_USER :: nat where "MAX_ENTRIES_PER_USER = 14"

definition int_within :: "int \<Rightarrow> raw_value \<Rightarrow> error_code + int" where
  "int_within hi v = (case v of Raw_int n \<Rightarrow> (if 0 \<le> n \<and> n \<le> hi then Inr n else Inl VALIDATION_FAILED)
                      | Raw_other \<Rightarrow> Inl VALIDATION_FAILED)"

definition validate_entry :: "raw_entry \<Rightarrow> error_code + dnd_entry" where
  "validate_entry e = (case e of Raw_no_object \<Rightarrow> Inl VALIDATION_FAILED
     | Raw_entry d s t \<Rightarrow>
         bind_res (int_within 6 d) (\<lambda>day.
         bind_res (int_within 1439 s) (\<lambda>startMin.
         bind_res (int_within 1439 t) (\<lambda>endMin.
           if startMin = endMin then Inl VALIDATION_FAILED
           else Inr \<lparr>de_day = day, de_startMin = startMin, de_endMin = endMin\<rparr>))))"

fun validate_entries :: "raw_entry list \<Rightarrow> error_code + dnd_schedule" where
  "validate_entries [] = Inr []"
| "validate_entries (e # es) =
     bind_res (validate_entry e) (\<lambda>v. bind_res (validate_entries es) (\<lambda>vs. Inr (v # vs)))"

definition dnd_validate :: "raw_schedule \<Rightarrow> error_code + dnd_schedule option" where
  "dnd_validate raw =
     (case raw of
        Raw_null \<Rightarrow> Inr None
      | Raw_scalar \<Rightarrow> Inl VALIDATION_FAILED
      | Raw_object days \<Rightarrow>
         (case days of
            None \<Rightarrow> Inl VALIDATION_FAILED
          | Some es \<Rightarrow>
              if length es > MAX_ENTRIES_PER_USER then Inl VALIDATION_FAILED
              else bind_res (validate_entries es) (\<lambda>vs. Inr (Some vs))))"

definition utcDayMinute :: "msec \<Rightarrow> int \<times> int" where
  "utcDayMinute tm = ((tm div 86400000 + 4) mod 7, tm mod 86400000 div 60000)"

definition localDayMinute :: "intl \<Rightarrow> msec \<Rightarrow> id option \<Rightarrow> int \<times> int" where
  "localDayMinute intl tm timezone =
     (case timezone of
        None \<Rightarrow> utcDayMinute tm
      | Some tz \<Rightarrow> if tz = [] then utcDayMinute tm
                  else (case intl tz tm of None \<Rightarrow> utcDayMinute tm | Some dm \<Rightarrow> dm))"

definition entry_active :: "int \<Rightarrow> int \<Rightarrow> dnd_entry \<Rightarrow> bool" where
  "entry_active day minute e \<longleftrightarrow>
     (if de_startMin e < de_endMin e
      then de_day e = day \<and> de_startMin e \<le> minute \<and> minute < de_endMin e
      else if de_startMin e > de_endMin e
      then de_day e = day \<and> de_startMin e \<le> minute \<or> de_day e = (day + 6) mod 7 \<and> minute < de_endMin e
      else False)"

definition isActive :: "intl \<Rightarrow> msec \<Rightarrow> dnd_schedule option \<Rightarrow> id option \<Rightarrow> bool" where
  "isActive intl tm schedule timezone =
     (case schedule of
        None \<Rightarrow> False
      | Some days \<Rightarrow> if days = [] then False
                    else (case localDayMinute intl tm timezone of
                            (day, minute) \<Rightarrow> list_ex (entry_active day minute) days))"

datatype presence_preference = Pref_auto | Pref_dnd | Pref_invisible

record dnd_user =
  du_preference :: presence_preference
  du_schedule :: "dnd_schedule option"
  du_snapshot :: "presence_preference option"  \<comment> \<open>\<open>dndScheduleSnapshot.prev\<close>\<close>
  du_timezone :: "id option"
  du_dndUntil :: "msec option"

datatype dnd_transition = Entered | Exited | No_transition

definition evaluateAndApply :: "intl \<Rightarrow> msec \<Rightarrow> dnd_user \<Rightarrow> (presence_preference \<times> dnd_transition) \<times> dnd_user" where
  "evaluateAndApply intl tm u =
     (let active = isActive intl tm (du_schedule u) (du_timezone u)
      in case du_snapshot u of
           None \<Rightarrow>
             if active then
               if du_preference u = Pref_dnd then ((Pref_dnd, No_transition), u)
               else ((Pref_dnd, Entered), u\<lparr>du_preference := Pref_dnd, du_snapshot := Some (du_preference u)\<rparr>)
             else ((du_preference u, No_transition), u)
         | Some prev \<Rightarrow>
             if \<not> active then ((prev, Exited), u\<lparr>du_preference := prev, du_snapshot := None\<rparr>)
             else ((du_preference u, No_transition), u))"

definition isDndSuppressed :: "intl \<Rightarrow> dnd_user \<Rightarrow> msec \<Rightarrow> bool" where
  "isDndSuppressed intl u tm \<longleftrightarrow>
     (if du_preference u = Pref_dnd then True
      else if (case du_dndUntil u of None \<Rightarrow> False | Some t \<Rightarrow> t > tm) then True
      else isActive intl tm (du_schedule u) (du_timezone u))"

section \<open>The notification level\<close>

datatype notif_level = LEVEL_ALL | LEVEL_MENTIONS | LEVEL_NOTHING

datatype mention_kind = Direct | Broad

record notif_inputs =
  ni_channelLevel :: "notif_level option"
  ni_serverLevel :: "notif_level option"
  ni_globalLevel :: "notif_level option"
  ni_serverMuted :: bool
  ni_channelMuted :: bool
  ni_suppressEveryone :: bool

definition resolveEffectiveLevel :: "notif_inputs \<Rightarrow> notif_level" where
  "resolveEffectiveLevel i =
     (case ni_channelLevel i of Some l \<Rightarrow> l
      | None \<Rightarrow> (case ni_serverLevel i of Some l \<Rightarrow> l
         | None \<Rightarrow> (case ni_globalLevel i of Some l \<Rightarrow> l | None \<Rightarrow> LEVEL_MENTIONS)))"

definition shouldNotifyMention :: "notif_inputs \<Rightarrow> mention_kind \<Rightarrow> bool" where
  "shouldNotifyMention i kind =
     (if ni_serverMuted i \<or> ni_channelMuted i then False
      else let level = resolveEffectiveLevel i
           in if level = LEVEL_NOTHING then False
              else if level = LEVEL_ALL then True
              else kind = Direct \<or> kind = Broad \<and> \<not> ni_suppressEveryone i)"

definition isMuteActive :: "bool \<Rightarrow> msec option \<Rightarrow> msec \<Rightarrow> bool" where
  "isMuteActive isMuted muteUntil now =
     (if \<not> isMuted then False else case muteUntil of None \<Rightarrow> True | Some t \<Rightarrow> t > now)"

record server_pref =
  sp_userId :: id
  sp_workspaceId :: id
  sp_level :: notif_level
  sp_isMuted :: bool
  sp_muteUntil :: "msec option"
  sp_suppressEveryone :: bool

record channel_mute =
  cm_userId :: id
  cm_channelId :: id
  cm_level :: "notif_level option"
  cm_isMuted :: bool
  cm_mutedUntil :: "msec option"

datatype thread_level = THREAD_ALL | THREAD_MENTIONS | THREAD_OFF

record notify_tables =
  nt_friendships :: "friendship list"
  nt_users :: "id \<rightharpoonup> dnd_user"
  nt_settings :: "id \<rightharpoonup> notif_level"  \<comment> \<open>\<open>UserSettings.notifTrigger\<close>\<close>
  nt_server :: "server_pref list"
  nt_mutes :: "channel_mute list"
  nt_threads :: "(id \<times> id \<times> thread_level) list"  \<comment> \<open>user, thread root, level\<close>

definition notif_inputs_for :: "notify_tables \<Rightarrow> id \<Rightarrow> id option \<Rightarrow> msec \<Rightarrow> id \<Rightarrow> notif_inputs" where
  \<comment> \<open>\<open>inputsFor\<close> of \<open>buildGate\<close>; the tables have one row per user and place\<close>
  "notif_inputs_for nt channelId workspaceId now uid =
     (let ch = find (\<lambda>r. cm_userId r = uid \<and> cm_channelId r = channelId) (nt_mutes nt);
          sv = (case workspaceId of None \<Rightarrow> None
                | Some ws \<Rightarrow> find (\<lambda>r. sp_userId r = uid \<and> sp_workspaceId r = ws) (nt_server nt))
      in \<lparr>ni_channelLevel = (case ch of None \<Rightarrow> None | Some r \<Rightarrow> cm_level r),
          ni_serverLevel = map_option sp_level sv,
          ni_globalLevel = nt_settings nt uid,
          ni_serverMuted = (case sv of None \<Rightarrow> False | Some r \<Rightarrow> isMuteActive (sp_isMuted r) (sp_muteUntil r) now),
          ni_channelMuted = (case ch of None \<Rightarrow> False | Some r \<Rightarrow> isMuteActive (cm_isMuted r) (cm_mutedUntil r) now),
          ni_suppressEveryone = (case sv of None \<Rightarrow> False | Some r \<Rightarrow> sp_suppressEveryone r)\<rparr>)"

section \<open>The mention gate\<close>

definition blocked_set :: "friendship list \<Rightarrow> id \<Rightarrow> id list \<Rightarrow> id list" where
  \<comment> \<open>the other side of the BLOCKED rows between the author and the candidates\<close>
  "blocked_set rows author candidates =
     map (\<lambda>r. if fr_requester r = author then fr_addressee r else fr_requester r)
       (filter (\<lambda>r. fr_status r = BLOCKED
            \<and> (fr_requester r = author \<and> fr_addressee r \<in> set candidates
               \<or> fr_requester r \<in> set candidates \<and> fr_addressee r = author)) rows)"

definition muted_set :: "notify_tables \<Rightarrow> id \<Rightarrow> id list \<Rightarrow> msec \<Rightarrow> id list" where
  "muted_set nt channelId candidates now =
     map cm_userId (filter (\<lambda>r. cm_channelId r = channelId \<and> cm_userId r \<in> set candidates \<and> cm_isMuted r
        \<and> (case cm_mutedUntil r of None \<Rightarrow> True | Some t \<Rightarrow> t > now)) (nt_mutes nt))"

definition dnd_set :: "intl \<Rightarrow> notify_tables \<Rightarrow> id list \<Rightarrow> msec \<Rightarrow> id list" where
  "dnd_set intl nt candidates now =
     filter (\<lambda>uid. case nt_users nt uid of None \<Rightarrow> False | Some u \<Rightarrow> isDndSuppressed intl u now) candidates"

definition off_set :: "notify_tables \<Rightarrow> id option \<Rightarrow> id list \<Rightarrow> id list" where
  "off_set nt parentMessageId candidates =
     (case parentMessageId of None \<Rightarrow> []
      | Some rid \<Rightarrow> map fst (filter (\<lambda>(uid, r, level). r = rid \<and> uid \<in> set candidates \<and> level = THREAD_OFF)
                      (nt_threads nt)))"

definition filterNotifiable ::
  "intl \<Rightarrow> notify_tables \<Rightarrow> id \<Rightarrow> id option \<Rightarrow> id \<Rightarrow> id option \<Rightarrow> id list \<Rightarrow> (id \<Rightarrow> mention_kind) \<Rightarrow> msec \<Rightarrow> id list"
where
  "filterNotifiable intl nt channelId workspaceId authorId parentMessageId candidateUserIds kindFor now =
     (let candidates = remdups (filter (\<lambda>u. u \<noteq> []) candidateUserIds)
      in filter (\<lambda>uid. uid \<notin> set (blocked_set (nt_friendships nt) authorId candidates)
            \<and> uid \<notin> set (muted_set nt channelId candidates now)
            \<and> uid \<notin> set (dnd_set intl nt candidates now)
            \<and> uid \<notin> set (off_set nt parentMessageId candidates)
            \<and> shouldNotifyMention (notif_inputs_for nt channelId workspaceId now uid) (kindFor uid)) candidates)"

section \<open>Lemmas\<close>

lemma int_within_Inr: "int_within hi v = Inr n \<longleftrightarrow> v = Raw_int n \<and> 0 \<le> n \<and> n \<le> hi"
  by (cases v) (auto simp: int_within_def)

definition entry_ok :: "dnd_entry \<Rightarrow> bool" where
  "entry_ok e \<longleftrightarrow> 0 \<le> de_day e \<and> de_day e \<le> 6 \<and> 0 \<le> de_startMin e \<and> de_startMin e \<le> 1439
     \<and> 0 \<le> de_endMin e \<and> de_endMin e \<le> 1439 \<and> de_startMin e \<noteq> de_endMin e"

lemma validate_entry_ok: "validate_entry e = Inr v \<Longrightarrow> entry_ok v"
  by (auto simp: validate_entry_def bind_res_Inr_iff int_within_Inr entry_ok_def
      split: raw_entry.splits if_splits)

lemma validate_entries_ok: "validate_entries es = Inr vs \<Longrightarrow> list_all entry_ok vs \<and> length vs = length es"
  by (induction es arbitrary: vs) (auto simp: bind_res_Inr_iff validate_entry_ok)

lemma validate_ok:
  "dnd_validate raw = Inr (Some vs) \<Longrightarrow> list_all entry_ok vs \<and> length vs \<le> MAX_ENTRIES_PER_USER"
  by (auto simp: dnd_validate_def bind_res_Inr_iff dest!: validate_entries_ok
      split: raw_schedule.splits option.splits if_splits)

text \<open>An entry is an interval of the week, of minutes modulo 10080.\<close>

definition in_week_interval :: "int \<Rightarrow> dnd_entry \<Rightarrow> bool" where
  "in_week_interval w e \<longleftrightarrow>
     (w - (1440 * de_day e + de_startMin e)) mod 10080 < (de_endMin e - de_startMin e) mod 1440"

lemma week_mod: "-10080 \<le> x \<Longrightarrow> x < 10080 \<Longrightarrow> x mod 10080 = (if x < 0 then x + 10080 else (x::int))"
  using mod_add_self2 [of x 10080] mod_pos_pos_trivial [of "x + 10080" 10080] mod_pos_pos_trivial [of x 10080]
  by auto

lemma span_mod: "0 \<le> s \<Longrightarrow> s \<le> 1439 \<Longrightarrow> 0 \<le> e \<Longrightarrow> e \<le> 1439 \<Longrightarrow> s \<noteq> e \<Longrightarrow>
    (e - s) mod 1440 = (if s < e then e - s else e - s + (1440::int))"
  using mod_add_self2 [of "e - s" 1440] mod_pos_pos_trivial [of "e - s + 1440" 1440] mod_pos_pos_trivial [of "e - s" 1440]
  by auto

lemma previous_day: "0 \<le> day \<Longrightarrow> day \<le> 6 \<Longrightarrow> (day + 6) mod 7 = (if day = 0 then 6 else day - (1::int))"
  using mod_add_self2 [of "day - 1" 7] mod_pos_pos_trivial [of "day - 1" 7] by (auto simp: add.commute)

lemma entry_active_week:
  assumes "entry_ok e" and "0 \<le> day" "day \<le> 6" "0 \<le> minute" "minute < 1440"
  shows "entry_active day minute e \<longleftrightarrow> in_week_interval (1440 * day + minute) e"
proof -
  let ?d = "de_day e" and ?s = "de_startMin e" and ?t = "de_endMin e"
  let ?x = "1440 * day + minute - (1440 * ?d + ?s)"
  from assms(1) have ok: "0 \<le> ?d" "?d \<le> 6" "0 \<le> ?s" "?s \<le> 1439" "0 \<le> ?t" "?t \<le> 1439" "?s \<noteq> ?t"
    by (auto simp: entry_ok_def)
  have "?x mod 10080 = (if ?x < 0 then ?x + 10080 else ?x)"
    by (rule week_mod) (use assms ok in linarith)+
  then show ?thesis
    unfolding entry_active_def in_week_interval_def previous_day [OF assms(2,3)] span_mod [OF ok(3-7)]
    using assms(2-5) ok by (cases "day = ?d"; cases "?s < ?t") (auto split: if_splits)
qed

section \<open>Properties\<close>

text \<open>C37: The weekly schedule is what its entries say: a validated schedule is active exactly when
  the local minute of the week lies in the interval of an entry, an interval of the week modulo
  its length, so an entry over midnight runs into the next day, and Saturday's into Sunday. A
  schedule that \<open>validate\<close> accepts has at most 14 entries; \<open>Intl\<close> answers a day and a minute
  within their ranges.\<close>

theorem schedule_is_week_intervals:
  assumes "dnd_validate raw = Inr (Some days)"
    and "case intl tz tm of None \<Rightarrow> True | Some (day, minute) \<Rightarrow> day \<in> {0..6} \<and> minute \<in> {0..1439}"
  shows "length days \<le> 14 \<and>
    (isActive intl tm (Some days) (Some tz) \<longleftrightarrow>
      (case localDayMinute intl tm (Some tz) of (day, minute) \<Rightarrow>
        list_ex (in_week_interval (1440 * day + minute)) days))"
proof -
  obtain day minute where dm: "localDayMinute intl tm (Some tz) = (day, minute)" by (cases "localDayMinute intl tm (Some tz)")
  have "0 \<le> day \<and> day \<le> 6 \<and> 0 \<le> minute \<and> minute < 1440"
    using dm assms(2) by (auto simp: localDayMinute_def utcDayMinute_def split: if_splits option.splits)
  moreover from validate_ok [OF assms(1)] have "list_all entry_ok days" "length days \<le> 14"
    by (auto simp: MAX_ENTRIES_PER_USER_def)
  ultimately show ?thesis
    using dm by (auto simp: isActive_def list_ex_iff list_all_iff entry_active_week)
qed


lemma muted_setI:
  assumes "m \<in> set (nt_mutes nt)" "cm_channelId m = ch" "cm_userId m \<in> set cands"
    and "isMuteActive (cm_isMuted m) (cm_mutedUntil m) now"
  shows "cm_userId m \<in> set (muted_set nt ch cands now)"
  using assms unfolding muted_set_def isMuteActive_def by (cases "cm_isMuted m") auto

lemma filterNotifiable_in:
  assumes "uid \<in> set (filterNotifiable intl nt ch ws author parent cands kindFor now)"
  shows "uid \<in> set cands" "uid \<noteq> []"
    "\<And>r. r \<in> set (nt_friendships nt) \<Longrightarrow> fr_status r = BLOCKED \<Longrightarrow> \<not> is_pair author uid r"
  using assms by (force simp: filterNotifiable_def Let_def blocked_set_def is_pair_def)+


section \<open>Examples\<close>

definition quiet_nights :: raw_schedule where
  "quiet_nights = Raw_object (Some [Raw_entry (Raw_int 6) (Raw_int 1380) (Raw_int 420)])"

definition sunday_3am :: msec where "sunday_3am = 10800000 + 3 * 86400000"

theorem schedule_is_week_intervals_witness:
  "isActive (\<lambda>_ _. None) sunday_3am (Some [\<lparr>de_day = 6, de_startMin = 1380, de_endMin = 420\<rparr>]) (Some ''UTC'')"
proof -
  have "dnd_validate quiet_nights = Inr (Some [\<lparr>de_day = 6, de_startMin = 1380, de_endMin = 420\<rparr>])"
    by (simp add: quiet_nights_def dnd_validate_def MAX_ENTRIES_PER_USER_def validate_entry_def int_within_def)
  from schedule_is_week_intervals [OF this, of "\<lambda>_ _. None" "''UTC''" sunday_3am]
  show ?thesis
    by (simp add: localDayMinute_def utcDayMinute_def sunday_3am_def in_week_interval_def)
qed

definition weekend_user :: dnd_user where
  "weekend_user = \<lparr>du_preference = Pref_invisible,
     du_schedule = Some [\<lparr>de_day = 6, de_startMin = 1380, de_endMin = 420\<rparr>], du_snapshot = None,
     du_timezone = None, du_dndUntil = None\<rparr>"


definition quiet_tables :: notify_tables where
  "quiet_tables = \<lparr>nt_friendships = [\<lparr>fr_id = ''f'', fr_requester = ''u2'', fr_addressee = ''u1'',
        fr_status = BLOCKED, fr_createdAt = 0\<rparr>],
     nt_users = Map.empty, nt_settings = Map.empty, nt_server = [], nt_mutes = [], nt_threads = []\<rparr>"


end
