(* ===== verification/Message_Ops.thy ===== *)
theory Message_Ops
  imports Message_List Notify_Gate
begin

text \<open>
  Writing messages: \<open>send\<close>, \<open>update\<close>, \<open>softDelete\<close>, \<open>bulkDelete\<close>, \<open>pin\<close>, \<open>unpin\<close>,
  \<open>setThreadLock\<close>, \<open>listEditHistory\<close> and the system and bot messages of
  \<open>messages.service.ts\<close>, and \<open>reconcile\<close> of \<open>thread-reply-count-reconciler.service.ts\<close>.
  Transactions run one at a time; what \<open>send\<close> checks before its transaction and the transaction
  itself are separate, so that other writes can come between. The environment holds what the
  service reads from others: the directory, presence, the notification tables, the answers of
  AutoMod, of the rate limiter and of the channel access service. The role mentions of a message
  are delivered by a queue after the commit, as in production, so they have no recipients here.
\<close>

section \<open>Environment and arguments\<close>

record message_env =
  en_lc :: "js_string \<Rightarrow> js_string"
  en_dir :: directory
  en_late :: clock
  en_bytes :: "rich_node list \<Rightarrow> nat"
  en_intl :: intl
  en_tables :: notify_tables
  en_presence :: "(id \<Rightarrow> id option) option"  \<comment> \<open>the service, and the status it answers or a rejection\<close>
  en_actorEveryone :: "bool option"  \<comment> \<open>\<open>resolveMentionEveryone\<close>, when it can be asked\<close>
  en_rate :: "id list \<Rightarrow> error_code option"
  en_automod :: "js_string \<Rightarrow> nat \<Rightarrow> error_code option"
  en_canRead :: "id \<Rightarrow> bool"  \<comment> \<open>READ on the channel, for \<open>subscribe\<close>\<close>
  en_now :: msec
  en_newId :: id
  en_newId2 :: id

record send_args =
  sa_workspaceId :: "id option"
  sa_channelId :: id
  sa_authorId :: id
  sa_content :: js_string
  sa_idempotencyKey :: "id option"
  sa_nonce :: "id option"
  sa_parent :: "id option"
  sa_attachmentIds :: "id list"
  sa_hasMentionEveryone :: bool
  sa_hasMentionChannel :: bool
  sa_bulkConfirmed :: bool
  sa_channelType :: "id option"
  sa_hint :: "(bool \<times> bool \<times> bool) option"  \<comment> \<open>everyone, here, channel\<close>
  sa_isBroadcast :: bool

datatype tx_failure = Refusal error_code | Unique_Violation

section \<open>Preparing the content\<close>

definition EVERYONE_CONFIRM_THRESHOLD :: nat where "EVERYONE_CONFIRM_THRESHOLD = 6"
definition BULK_MENTION_CONFIRM_THRESHOLD :: nat where "BULK_MENTION_CONFIRM_THRESHOLD = 50"
definition MAX_ROLE_MENTIONS_PER_MSG :: nat where "MAX_ROLE_MENTIONS_PER_MSG = 10"

definition workspace_members :: "directory \<Rightarrow> id \<Rightarrow> id list" where
  "workspace_members dir ws = map snd (filter (\<lambda>(w, _). w = ws) (dir_members dir))"

definition enforceBulkMentionThreshold :: "message_env \<Rightarrow> id \<Rightarrow> bool \<Rightarrow> bool \<Rightarrow> bool \<Rightarrow> error_code + unit" where
  "enforceBulkMentionThreshold env ws everyone here channel =
     (let memberCount = length (workspace_members (en_dir env) ws)
      in if everyone \<and> memberCount \<ge> EVERYONE_CONFIRM_THRESHOLD then Inl BULK_MENTION_CONFIRM_REQUIRED
         else if (here \<or> channel) \<and> memberCount \<ge> BULK_MENTION_CONFIRM_THRESHOLD
         then Inl BULK_MENTION_CONFIRM_REQUIRED else Inr ())"

definition with_hint :: "mentions \<Rightarrow> (bool \<times> bool \<times> bool) option \<Rightarrow> mentions" where
  "with_hint m hint =
     (case hint of None \<Rightarrow> m
      | Some (e, h, c) \<Rightarrow> m\<lparr>men_everyone := men_everyone m \<or> e, men_here := men_here m \<or> h,
                          men_channel := men_channel m \<or> c\<rparr>)"

definition gateBroad :: "mentions \<Rightarrow> bool \<Rightarrow> bool \<Rightarrow> mentions" where
  "gateBroad m everyone channel =
     gateChannelMention (gateHereMention (gateEveryoneMention m everyone) channel) channel"

definition countMentions :: "mentions \<Rightarrow> nat" where
  "countMentions m =
     length (men_users m) + length (men_roles m) + (if men_everyone m then 1 else 0)
       + (if men_here m then 1 else 0) + (if men_channel m then 1 else 0)"

definition PARSE_ERROR_TO_DOMAIN :: "parse_error \<Rightarrow> error_code" where
  "PARSE_ERROR_TO_DOMAIN e = (case e of
      MESSAGE_TOO_LONG \<Rightarrow> E_MESSAGE_TOO_LONG
    | PARSE_TIMEOUT \<Rightarrow> E_PARSE_TIMEOUT
    | PARSE_DEPTH_EXCEEDED \<Rightarrow> E_PARSE_DEPTH_EXCEEDED
    | PARSE_NODE_LIMIT \<Rightarrow> E_PARSE_NODE_LIMIT
    | PARSE_AST_TOO_LARGE \<Rightarrow> E_PARSE_AST_TOO_LARGE)"

definition label_map :: "(id \<times> js_string) list \<Rightarrow> js_string \<Rightarrow> js_string option" where
  "label_map rows = foldl (\<lambda>m (i, name). m(js i \<mapsto> name)) Map.empty rows"

definition resolveMentionLabelMaps :: "message_env \<Rightarrow> id option \<Rightarrow> js_string \<Rightarrow> id list \<Rightarrow> label_resolvers" where
  "resolveMentionLabelMaps env workspaceId content gatedRoleIds =
     (case workspaceId of
        None \<Rightarrow> \<lparr>lr_user = Map.empty, lr_channel = Map.empty, lr_role = Map.empty\<rparr>
      | Some ws \<Rightarrow>
          \<lparr>lr_user = label_map (member_rows (en_dir env) ws (mentioned_names (en_lc env) content)),
           lr_channel = label_map (channel_rows (en_dir env) ws (map snd (regex_matches MENTION_CHANNEL_RE content 0))),
           lr_role = label_map (map (\<lambda>(_, r). (rm_id r, rm_name r))
              (filter (\<lambda>(w, r). w = ws \<and> rm_id r \<in> set gatedRoleIds) (dir_roles (en_dir env))))\<rparr>)"

record prepared =
  pr_processed :: processed_content
  pr_mentions :: mentions

definition process_content ::
  "message_env \<Rightarrow> id option \<Rightarrow> js_string \<Rightarrow> role_mention list \<Rightarrow> id list \<Rightarrow> id list \<Rightarrow> error_code + processed_content"
where
  \<comment> \<open>normalisation, labels and \<open>processMrkdwn\<close>, as \<open>send\<close> and \<open>update\<close> both do them\<close>
  "process_content env ws content extractedRoles allowed gatedRoleIds =
     (let handles = resolveMentionHandles (en_lc env) (en_dir env) ws content;
          normalized = normalizeMentions (en_lc env) content (\<lambda>h. handles (en_lc env h))
                         (gatedRoleTokens extractedRoles allowed)
      in case processMrkdwn (en_late env) (en_bytes env)
                (resolveMentionLabelMaps env ws content gatedRoleIds) normalized of
           Inl e \<Rightarrow> Inl (PARSE_ERROR_TO_DOMAIN e)
         | Inr pc \<Rightarrow> Inr pc)"

definition ask :: "error_code option \<Rightarrow> error_code + unit" where
  "ask refusal = (case refusal of None \<Rightarrow> Inr () | Some e \<Rightarrow> Inl e)"

definition guard_that :: "bool \<Rightarrow> error_code \<Rightarrow> error_code + unit" where
  "guard_that b e = (if b then Inr () else Inl e)"

definition prepare_send :: "message_env \<Rightarrow> send_args \<Rightarrow> error_code + prepared" where
  "prepare_send env a =
     (let ws = sa_workspaceId a;
          extracted = extractMentions (en_lc env) (en_dir env) ws (sa_content a);
          extractedRoles = extractRoleMentions (en_lc env) (en_dir env) ws (sa_content a);
          raw = with_hint extracted (if ws = None then None else sa_hint a);
          broad = gateBroad raw (sa_hasMentionEveryone a) (sa_hasMentionChannel a);
          allowed = resolveAllowedRoleMentions extractedRoles ws (en_actorEveryone env);
          mens = gateRoleMention (broad\<lparr>men_roles := map rm_id extractedRoles\<rparr>) allowed
      in bind_res (case ws of
                     None \<Rightarrow> Inr ()
                   | Some w \<Rightarrow> if (men_everyone broad \<or> men_here broad \<or> men_channel broad) \<and> \<not> sa_bulkConfirmed a
                       then enforceBulkMentionThreshold env w (men_everyone broad) (men_here broad) (men_channel broad)
                       else Inr ()) (\<lambda>_.
         bind_res (guard_that (length (men_users mens) \<le> 50) MESSAGE_CONTENT_INVALID) (\<lambda>_.
         bind_res (guard_that (length (men_roles mens) \<le> MAX_ROLE_MENTIONS_PER_MSG) MESSAGE_CONTENT_INVALID) (\<lambda>_.
         bind_res (if men_roles mens = [] then Inr () else ask (en_rate env (men_roles mens))) (\<lambda>_.
         bind_res (process_content env ws (sa_content a) extractedRoles allowed (men_roles mens)) (\<lambda>pc.
         bind_res (if ws = None then Inr () else ask (en_automod env (pc_plain pc) (countMentions mens))) (\<lambda>_.
           Inr \<lparr>pr_processed = pc, pr_mentions = mens\<rparr>)))))))"

section \<open>Checks before the transaction\<close>

definition check_attachments :: "send_args \<Rightarrow> store \<Rightarrow> error_code + attachment_kind list" where
  "check_attachments a st =
     (if sa_attachmentIds a = [] then Inr []
      else let rows = filter (\<lambda>r. at_id r \<in> set (sa_attachmentIds a) \<and> at_channelId r = sa_channelId a
                 \<and> at_uploaderId r = sa_authorId a \<and> at_finalized r \<and> at_messageId r = None) (st_attachments st)
           in if length rows \<noteq> length (sa_attachmentIds a) then Inl ATTACHMENT_NOT_FOUND
              else Inr (map at_kind rows))"

definition check_parent :: "send_args \<Rightarrow> store \<Rightarrow> error_code + unit" where
  "check_parent a st =
     (case sa_parent a of
        None \<Rightarrow> Inr ()
      | Some p \<Rightarrow>
         (case find_live st p (sa_channelId a) of
            None \<Rightarrow> Inl MESSAGE_PARENT_NOT_FOUND
          | Some parent \<Rightarrow> guard_that (m_parent parent = None) MESSAGE_THREAD_DEPTH_EXCEEDED))"

section \<open>The transaction of send\<close>

definition insert_message :: "message_row \<Rightarrow> store \<Rightarrow> tx_failure + store" where
  \<comment> \<open>the partial unique index on (author, idempotency key)\<close>
  "insert_message m st =
     (if m_idempotencyKey m \<noteq> None
         \<and> list_ex (\<lambda>n. m_authorId n = m_authorId m \<and> m_idempotencyKey n = m_idempotencyKey m) (st_messages st)
      then Inl Unique_Violation else Inr (st\<lparr>st_messages := st_messages st @ [m]\<rparr>))"

definition new_message :: "message_env \<Rightarrow> send_args \<Rightarrow> prepared \<Rightarrow> attachment_kind list \<Rightarrow> message_row" where
  "new_message env a pr kinds =
     \<lparr>m_id = en_newId env, m_channelId = sa_channelId a, m_authorId = sa_authorId a, m_authorType = USER,
      m_type = DEFAULT, m_content = sa_content a, m_contentPlain = pc_plain (pr_processed pr),
      m_contentRaw = pc_raw (pr_processed pr), m_contentAst = pc_ast (pr_processed pr),
      m_mentions = pr_mentions pr, m_hasLink = astHasLink (pc_ast (pr_processed pr)),
      m_hasImage = fst (flagsFromAttachmentKinds kinds), m_hasFile = snd (flagsFromAttachmentKinds kinds),
      m_idempotencyKey = sa_idempotencyKey a, m_nonce = sa_nonce a, m_parent = sa_parent a,
      m_isBroadcast = False, m_version = 0, m_createdAt = en_now env, m_editedAt = None, m_deletedAt = None,
      m_pinnedAt = None, m_pinnedBy = None, m_replyCount = 0, m_latestReplyAt = None, m_threadLocked = False\<rparr>"

definition link_attachments :: "message_env \<Rightarrow> send_args \<Rightarrow> store \<Rightarrow> store" where
  "link_attachments env a st =
     (if sa_attachmentIds a = [] then st
      else st\<lparr>st_attachments := update_where
        (\<lambda>r. at_id r \<in> set (sa_attachmentIds a) \<and> at_messageId r = None \<and> at_uploaderId r = sa_authorId a
             \<and> at_channelId r = sa_channelId a)
        (\<lambda>r. r\<lparr>at_messageId := Some (en_newId env), at_linkedAt := Some (en_now env)\<rparr>) (st_attachments st)\<rparr>)"

definition subscribe :: "message_env \<Rightarrow> id \<Rightarrow> id \<Rightarrow> store \<Rightarrow> store" where
  \<comment> \<open>a refusal is swallowed by the caller; the insert does nothing on a conflict\<close>
  "subscribe env uid rid st =
     (case find_message st rid of
        None \<Rightarrow> st
      | Some m \<Rightarrow>
          if m_deletedAt m \<noteq> None \<or> m_parent m \<noteq> None \<or> \<not> en_canRead env uid then st
          else if (uid, rid) \<in> set (st_subscriptions st) then st
          else st\<lparr>st_subscriptions := st_subscriptions st @ [(uid, rid)]\<rparr>)"

definition resolveBroadMentionRecipients :: "message_env \<Rightarrow> id option \<Rightarrow> mentions \<Rightarrow> id list" where
  "resolveBroadMentionRecipients env workspaceId m =
     (case workspaceId of
        None \<Rightarrow> []
      | Some ws \<Rightarrow>
          if \<not> (men_everyone m \<or> men_here m \<or> men_channel m) then []
          else let memberIds = workspace_members (en_dir env) ws
               in if men_everyone m \<or> men_channel m then memberIds
                  else case en_presence env of
                    None \<Rightarrow> memberIds
                  | Some status \<Rightarrow>
                      if list_all (\<lambda>u. status u = None) memberIds then memberIds
                      else filter (\<lambda>u. status u = Some ''online'' \<or> status u = Some ''idle'') memberIds)"

definition mention_candidates :: "id \<Rightarrow> id list \<Rightarrow> id list" where
  "mention_candidates author uids = remdups (filter (\<lambda>u. u \<noteq> [] \<and> u \<noteq> author) uids)"

definition kind_for :: "mentions \<Rightarrow> id \<Rightarrow> mention_kind" where
  "kind_for m uid = (if uid \<in> set (men_users m) then Direct else Broad)"

definition send_recipients :: "message_env \<Rightarrow> send_args \<Rightarrow> mentions \<Rightarrow> id list \<Rightarrow> id list" where
  "send_recipients env a mens candidates =
     filterNotifiable (en_intl env) (en_tables env) (sa_channelId a) (sa_workspaceId a) (sa_authorId a)
       (sa_parent a) candidates (kind_for mens) (en_now env)"

definition bump_replies :: "id \<Rightarrow> msec \<Rightarrow> store \<Rightarrow> store" where
  "bump_replies rid created =
     update_messages (\<lambda>m. m_id m = rid \<and> m_deletedAt m = None)
       (\<lambda>m. m\<lparr>m_replyCount := m_replyCount m + 1,
              m_latestReplyAt := Some (case m_latestReplyAt m of None \<Rightarrow> created | Some t \<Rightarrow> max t created)\<rparr>)"

definition THREAD_REPLY_RECIPIENT_CAP :: nat where "THREAD_REPLY_RECIPIENT_CAP = 20"
definition THREAD_REPLY_PARTICIPANT_CAP :: nat where "THREAD_REPLY_PARTICIPANT_CAP = 5"

definition recent_repliers :: "store \<Rightarrow> id \<Rightarrow> id list" where
  \<comment> \<open>\<open>DISTINCT ON ("authorId")\<close> of the last 200 replies, \<open>ORDER BY "authorId"\<close>\<close>
  "recent_repliers st rid =
     sort (remdups (map m_authorId (take 200 (rev (sort_key m_createdAt (live_replies (st_messages st) rid))))))"

definition push_recipient :: "id \<Rightarrow> id list \<Rightarrow> id list \<Rightarrow> id \<Rightarrow> id list" where
  "push_recipient replier exclude candidate uid =
     (if uid = [] \<or> uid = replier \<or> uid \<in> set exclude \<or> uid \<in> set candidate then candidate else candidate @ [uid])"

fun push_recipients :: "id \<Rightarrow> id list \<Rightarrow> id list \<Rightarrow> id list \<Rightarrow> id list" where
  "push_recipients replier exclude candidate [] = candidate"
| "push_recipients replier exclude candidate (uid # uids) =
     (if length candidate \<ge> THREAD_REPLY_RECIPIENT_CAP then candidate
      else push_recipients replier exclude (push_recipient replier exclude candidate uid) uids)"

definition buildThreadReplyPayload ::
  "message_env \<Rightarrow> id \<Rightarrow> id \<Rightarrow> msec \<Rightarrow> id list \<Rightarrow> store \<Rightarrow> outbox_event option" where
  "buildThreadReplyPayload env rid replier created exclude st =
     (case find_message st rid of
        None \<Rightarrow> None
      | Some rt \<Rightarrow>
          if m_deletedAt rt \<noteq> None then None
          else let recent = recent_repliers st rid;
                   candidate = push_recipients replier exclude
                     (push_recipient replier exclude [] (m_authorId rt)) recent;
                   suppressed = dnd_set (en_intl env) (en_tables env) candidate created;
                   by_level = map fst (filter (\<lambda>(uid, r, level). r = rid \<and> uid \<in> set candidate
                        \<and> level \<noteq> THREAD_ALL) (nt_threads (en_tables env)))
               in Some (MESSAGE_THREAD_REPLIED rid (m_replyCount rt)
                    (case m_latestReplyAt rt of None \<Rightarrow> created | Some t \<Rightarrow> t)
                    (take THREAD_REPLY_PARTICIPANT_CAP recent)
                    (filter (\<lambda>uid. uid \<notin> set suppressed \<and> uid \<notin> set by_level) candidate)))"

definition THREAD_BROADCAST_EXCERPT_CAP :: nat where "THREAD_BROADCAST_EXCERPT_CAP = 50"

definition buildThreadBroadcastExcerpt :: "js_string \<Rightarrow> js_string" where
  "buildThreadBroadcastExcerpt content =
     (let collapsed = collapsePlain content
      in if length collapsed \<le> THREAD_BROADCAST_EXCERPT_CAP then collapsed
         else take (THREAD_BROADCAST_EXCERPT_CAP - 1) collapsed @ [8230])"

definition broadcast_message :: "message_env \<Rightarrow> send_args \<Rightarrow> message_row \<Rightarrow> message_row" where
  "broadcast_message env a created =
     created\<lparr>m_id := en_newId2 env, m_authorType := SYSTEM, m_type := SYSTEM_THREAD_BROADCAST,
             m_isBroadcast := True, m_mentions := no_mentions, m_idempotencyKey := None, m_nonce := None\<rparr>"

definition unhide_direct :: "send_args \<Rightarrow> store \<Rightarrow> store" where
  "unhide_direct a st =
     (if (case sa_channelType a of None \<Rightarrow> sa_workspaceId a = None | Some t \<Rightarrow> t = ''DIRECT'')
      then st\<lparr>st_hidden := update_where
        (\<lambda>r. hd_channelId r = sa_channelId a \<and> hd_userId r \<noteq> sa_authorId a \<and> hd_hiddenAt r \<noteq> None)
        (\<lambda>r. r\<lparr>hd_hiddenAt := None\<rparr>) (st_hidden st)\<rparr>
      else st)"

definition recheck_parent :: "send_args \<Rightarrow> store \<Rightarrow> tx_failure + js_string" where
  \<comment> \<open>the content of the root, for the excerpt of a broadcast\<close>
  "recheck_parent a st =
     (case sa_parent a of
        None \<Rightarrow> Inr []
      | Some p \<Rightarrow>
         (case find_message st p of
            None \<Rightarrow> Inl (Refusal MESSAGE_PARENT_NOT_FOUND)
          | Some m \<Rightarrow> if m_deletedAt m \<noteq> None \<or> m_channelId m \<noteq> sa_channelId a
                     then Inl (Refusal MESSAGE_PARENT_NOT_FOUND) else Inr (m_content m)))"

definition fan_out_mentions :: "mentions \<Rightarrow> id \<Rightarrow> id list \<Rightarrow> store \<Rightarrow> store" where
  \<comment> \<open>one \<open>mention.received\<close> per recipient\<close>
  "fan_out_mentions mens msgId recipients st =
     foldl (\<lambda>s u. record_outbox (MENTION_RECEIVED u msgId (men_everyone mens) (men_here mens)) s) st recipients"

definition subscribe_mentioned :: "message_env \<Rightarrow> id \<Rightarrow> id list \<Rightarrow> id list \<Rightarrow> store \<Rightarrow> store" where
  "subscribe_mentioned env rid blocked uids st =
     foldl (\<lambda>s u. if u \<in> set blocked then s else subscribe env u rid s) st uids"

definition after_insert ::
  "message_env \<Rightarrow> send_args \<Rightarrow> prepared \<Rightarrow> message_row \<Rightarrow> js_string \<Rightarrow> store \<Rightarrow> store" where
  \<comment> \<open>everything the transaction does once the message is created\<close>
  "after_insert env a pr created parentContent st0 =
     (let st1 = link_attachments env a st0;
          st2 = record_outbox (MESSAGE_CREATED (m_id created)) st1;
          st3 = subscribe env (sa_authorId a) (case m_parent created of Some p \<Rightarrow> p | None \<Rightarrow> m_id created) st2;
          mens = pr_mentions pr;
          candidates = mention_candidates (sa_authorId a)
            (men_users mens @ resolveBroadMentionRecipients env (sa_workspaceId a) mens);
          blocked = blocked_set (nt_friendships (en_tables env)) (sa_authorId a) candidates;
          recipients = filter (\<lambda>u. u \<in> set (send_recipients env a mens candidates)) candidates;
          st4 = fan_out_mentions mens (m_id created) recipients st3
      in case m_parent created of
           None \<Rightarrow> unhide_direct a st4
         | Some p \<Rightarrow>
            (let st5 = bump_replies p (m_createdAt created) st4;
                 st6 = subscribe_mentioned env p blocked candidates st5;
                 st7 = (case buildThreadReplyPayload env p (sa_authorId a) (m_createdAt created) recipients st6 of
                          None \<Rightarrow> st6 | Some ev \<Rightarrow> record_outbox ev st6);
                 st8 = (if sa_isBroadcast a
                        then let b = broadcast_message env a created
                             in record_outbox (MESSAGE_THREAD_BROADCAST (m_id b) p (buildThreadBroadcastExcerpt parentContent))
                                  (st7\<lparr>st_messages := st_messages st7 @ [b]\<rparr>)
                        else st7)
             in unhide_direct a st8))"

definition send_tx ::
  "message_env \<Rightarrow> send_args \<Rightarrow> prepared \<Rightarrow> attachment_kind list \<Rightarrow> store \<Rightarrow> (tx_failure + message_row) \<times> store" where
  "send_tx env a pr kinds st =
     (let created = new_message env a pr kinds
      in case bind_res (recheck_parent a st) (\<lambda>content.
                bind_res (insert_message created st) (\<lambda>st'. Inr (content, st'))) of
           Inl e \<Rightarrow> (Inl e, st)
         | Inr (content, st') \<Rightarrow> (Inr created, after_insert env a pr created content st'))"

section \<open>send\<close>

definition readIdemCache :: "store \<Rightarrow> id \<Rightarrow> id \<Rightarrow> id option" where
  "readIdemCache st author key = st_idem st (author, key)"

definition writeIdemCache :: "id \<Rightarrow> id option \<Rightarrow> id \<Rightarrow> store \<Rightarrow> store" where
  "writeIdemCache author key msg st =
     (case key of None \<Rightarrow> st | Some k \<Rightarrow> st\<lparr>st_idem := (st_idem st)((author, k) \<mapsto> msg)\<rparr>)"

type_synonym send_result = "tx_failure + message_row \<times> bool"  \<comment> \<open>the message and \<open>replayed\<close>\<close>

definition same_content :: "send_args \<Rightarrow> message_row \<Rightarrow> send_result" where
  "same_content a existing =
     (if m_content existing \<noteq> sa_content a then Inl (Refusal IDEMPOTENCY_KEY_REUSE_CONFLICT)
      else Inr (existing, True))"

definition cached_message :: "send_args \<Rightarrow> store \<Rightarrow> message_row option" where
  "cached_message a st =
     (case sa_idempotencyKey a of
        None \<Rightarrow> None
      | Some key \<Rightarrow> (case readIdemCache st (sa_authorId a) key of None \<Rightarrow> None | Some i \<Rightarrow> find_message st i))"

definition send_check :: "message_env \<Rightarrow> send_args \<Rightarrow> store \<Rightarrow> error_code + prepared \<times> attachment_kind list" where
  "send_check env a st =
     bind_res (check_attachments a st) (\<lambda>kinds.
     bind_res (check_parent a st) (\<lambda>_.
     bind_res (prepare_send env a) (\<lambda>pr. Inr (pr, kinds))))"

definition send_commit ::
  "message_env \<Rightarrow> send_args \<Rightarrow> prepared \<Rightarrow> attachment_kind list \<Rightarrow> store \<Rightarrow> send_result \<times> store" where
  \<comment> \<open>the transaction, the cache, and the replay of a violated key\<close>
  "send_commit env a pr kinds st =
     (case send_tx env a pr kinds st of
        (Inr row, st') \<Rightarrow> (Inr (row, False), writeIdemCache (sa_authorId a) (sa_idempotencyKey a) (m_id row) st')
      | (Inl (Refusal e), st') \<Rightarrow> (Inl (Refusal e), st')
      | (Inl Unique_Violation, st') \<Rightarrow>
         (case sa_idempotencyKey a of
            None \<Rightarrow> (Inl Unique_Violation, st')
          | Some key \<Rightarrow>
             (case find (\<lambda>m. m_authorId m = sa_authorId a \<and> m_idempotencyKey m = Some key) (st_messages st') of
                None \<Rightarrow> (Inl Unique_Violation, st')
              | Some existing \<Rightarrow>
                  (case same_content a existing of
                     Inl e \<Rightarrow> (Inl e, st')
                   | Inr r \<Rightarrow> (Inr r, writeIdemCache (sa_authorId a) (Some key) (m_id existing) st')))))"

definition send :: "message_env \<Rightarrow> send_args \<Rightarrow> store \<Rightarrow> send_result \<times> store" where
  "send env a st =
     (case cached_message a st of
        Some existing \<Rightarrow> (same_content a existing, st)
      | None \<Rightarrow>
         (case send_check env a st of
            Inl e \<Rightarrow> (Inl (Refusal e), st)
          | Inr (pr, kinds) \<Rightarrow> send_commit env a pr kinds st))"

end
