(* ===== verification/Message_Edits.thy ===== *)
theory Message_Edits
  imports Message_Ops
begin

text \<open>
  The other writes of \<open>messages.service.ts\<close>: \<open>update\<close> with its optimistic lock and edit history,
  \<open>softDelete\<close>, \<open>bulkDelete\<close>, pins, the lock of a thread, system and bot messages, and the hourly
  \<open>reconcile\<close> of the reply counters. The text of a system message is an argument.
\<close>

section \<open>update\<close>

definition EDIT_HISTORY_CAP :: nat where "EDIT_HISTORY_CAP = 10"

record update_args =
  ua_workspaceId :: "id option"
  ua_channelId :: id
  ua_msgId :: id
  ua_actorId :: id
  ua_content :: js_string
  ua_expectedVersion :: nat
  ua_hasMentionEveryone :: bool
  ua_hasMentionChannel :: bool
  ua_bulkConfirmed :: bool

definition prepare_update :: "message_env \<Rightarrow> update_args \<Rightarrow> store \<Rightarrow> error_code + prepared" where
  "prepare_update env a st =
     (let ws = ua_workspaceId a;
          extracted = extractMentions (en_lc env) (en_dir env) ws (ua_content a);
          extractedRoles = extractRoleMentions (en_lc env) (en_dir env) ws (ua_content a);
          broad = gateBroad extracted (ua_hasMentionEveryone a) (ua_hasMentionChannel a);
          allowed = resolveAllowedRoleMentions extractedRoles ws (en_actorEveryone env);
          mens = gateRoleMention (broad\<lparr>men_roles := map rm_id extractedRoles\<rparr>) allowed;
          prev = (case find_in_channel st (ua_msgId a) (ua_channelId a) of None \<Rightarrow> no_mentions | Some m \<Rightarrow> m_mentions m);
          added_everyone = (men_everyone broad \<and> \<not> men_everyone prev);
          added_here = (men_here broad \<and> \<not> men_here prev);
          added_channel = (men_channel broad \<and> \<not> men_channel prev)
      in bind_res (guard_that (length (men_roles mens) \<le> MAX_ROLE_MENTIONS_PER_MSG) MESSAGE_CONTENT_INVALID) (\<lambda>_.
         bind_res (process_content env ws (ua_content a) extractedRoles allowed (men_roles mens)) (\<lambda>pc.
         bind_res (if ws = None then Inr () else ask (en_automod env (pc_plain pc) (countMentions mens))) (\<lambda>_.
         bind_res (case ws of
                     None \<Rightarrow> Inr ()
                   | Some w \<Rightarrow> if \<not> ua_bulkConfirmed a \<and> (added_everyone \<or> added_here \<or> added_channel)
                       then enforceBulkMentionThreshold env w added_everyone added_here added_channel
                       else Inr ()) (\<lambda>_.
           Inr \<lparr>pr_processed = pc, pr_mentions = mens\<rparr>)))))"

definition edit_matches :: "update_args \<Rightarrow> message_row \<Rightarrow> bool" where
  \<comment> \<open>the condition of the optimistic \<open>updateMany\<close>\<close>
  "edit_matches a m \<longleftrightarrow> m_id m = ua_msgId a \<and> m_channelId m = ua_channelId a \<and> m_deletedAt m = None
     \<and> m_version m = ua_expectedVersion a"

definition edit_row :: "message_env \<Rightarrow> update_args \<Rightarrow> prepared \<Rightarrow> message_row \<Rightarrow> message_row" where
  "edit_row env a pr m =
     m\<lparr>m_content := ua_content a, m_contentPlain := pc_plain (pr_processed pr),
       m_contentRaw := pc_raw (pr_processed pr), m_contentAst := pc_ast (pr_processed pr),
       m_mentions := pr_mentions pr, m_hasLink := astHasLink (pc_ast (pr_processed pr)),
       m_editedAt := Some (en_now env), m_version := m_version m + 1\<rparr>"

definition history_of :: "message_env \<Rightarrow> message_row \<Rightarrow> history_row" where
  "history_of env before =
     \<lparr>h_id = en_newId env, h_messageId = m_id before, h_version = m_version before,
      h_contentRaw = m_contentRaw before, h_contentAst = m_contentAst before,
      h_contentPlain = m_contentPlain before, h_editedAt = en_now env\<rparr>"

definition versions_of :: "id \<Rightarrow> history_row list \<Rightarrow> history_row list" where
  "versions_of msg hs = filter (\<lambda>h. h_messageId h = msg) hs"

definition cap_history :: "id \<Rightarrow> history_row list \<Rightarrow> history_row list" where
  "cap_history msg hs =
     (let historyCount = length (versions_of msg hs)
      in if historyCount > EDIT_HISTORY_CAP
         then let oldest = take (historyCount - EDIT_HISTORY_CAP) (sort_key h_version (versions_of msg hs))
              in delete_where (\<lambda>h. h_id h \<in> set (map h_id oldest)) hs
         else hs)"

definition update_recipients ::
  "message_env \<Rightarrow> update_args \<Rightarrow> mentions \<Rightarrow> message_row \<Rightarrow> id list" where
  \<comment> \<open>who is newly mentioned and passes the mute, do-not-disturb, thread and level gates\<close>
  "update_recipients env a mens before =
     (let prev = m_mentions before;
          previously = men_users prev @ resolveBroadMentionRecipients env (ua_workspaceId a) prev;
          candidates = mention_candidates (ua_actorId a)
            (filter (\<lambda>u. u \<notin> set previously)
              (men_users mens @ resolveBroadMentionRecipients env (ua_workspaceId a) mens));
          nt = en_tables env
      in filter (\<lambda>uid. uid \<notin> set (muted_set nt (ua_channelId a) candidates (en_now env))
                 \<and> uid \<notin> set (dnd_set (en_intl env) nt candidates (en_now env))
                 \<and> uid \<notin> set (off_set nt (m_parent before) candidates)
                 \<and> shouldNotifyMention (notif_inputs_for nt (ua_channelId a) (ua_workspaceId a) (en_now env) uid)
                     (kind_for mens uid)) candidates)"

definition update_tx :: "message_env \<Rightarrow> update_args \<Rightarrow> prepared \<Rightarrow> store \<Rightarrow> (error_code + message_row) \<times> store" where
  "update_tx env a pr st =
     (case find (edit_matches a) (st_messages st) of
        None \<Rightarrow>
         (case find_in_channel st (ua_msgId a) (ua_channelId a) of
            None \<Rightarrow> (Inl MESSAGE_NOT_FOUND, st)
          | Some before \<Rightarrow> if m_deletedAt before \<noteq> None then (Inl MESSAGE_NOT_FOUND, st)
                          else (Inl MESSAGE_VERSION_CONFLICT, st))
      | Some before \<Rightarrow>
         (let st1 = update_messages (edit_matches a) (edit_row env a pr) st;
              st2 = st1\<lparr>st_history := cap_history (ua_msgId a) (st_history st1 @ [history_of env before])\<rparr>;
              st3 = fan_out_mentions (pr_mentions pr) (ua_msgId a)
                      (update_recipients env a (pr_mentions pr) before) st2
          in (Inr (edit_row env a pr before), record_outbox (MESSAGE_UPDATED (ua_msgId a) (m_version before + 1)) st3)))"

definition update :: "message_env \<Rightarrow> update_args \<Rightarrow> store \<Rightarrow> (error_code + message_row) \<times> store" where
  "update env a st =
     (case prepare_update env a st of Inl e \<Rightarrow> (Inl e, st) | Inr pr \<Rightarrow> update_tx env a pr st)"

definition listEditHistory :: "store \<Rightarrow> id \<Rightarrow> id \<Rightarrow> error_code + history_row list" where
  "listEditHistory st channelId msgId =
     (case find_in_channel st msgId channelId of
        None \<Rightarrow> Inl MESSAGE_NOT_FOUND
      | Some _ \<Rightarrow> Inr (take EDIT_HISTORY_CAP (rev (sort_key h_version (versions_of msgId (st_history st))))))"

section \<open>Deleting\<close>

datatype audit_mode = In_tx | Best_effort | Skip_audit

record delete_args =
  da_workspaceId :: "id option"
  da_channelId :: id
  da_msgId :: id
  da_actorId :: id
  da_auditMode :: audit_mode

definition soft_deleted_row :: "msec \<Rightarrow> message_row \<Rightarrow> message_row" where
  "soft_deleted_row now m = m\<lparr>m_deletedAt := Some now, m_pinnedAt := None, m_pinnedBy := None\<rparr>"

definition mask_saved :: "(id \<Rightarrow> bool) \<Rightarrow> msec \<Rightarrow> store \<Rightarrow> store" where
  "mask_saved p now st =
     st\<lparr>st_saved := update_where (\<lambda>r. p (sv_messageId r)) (\<lambda>r. r\<lparr>sv_messageDeletedAt := Some now\<rparr>) (st_saved st)\<rparr>"

definition drop_reply :: "id \<Rightarrow> store \<Rightarrow> store" where
  "drop_reply rid =
     update_messages (\<lambda>m. m_id m = rid \<and> m_deletedAt m = None)
       (\<lambda>m. m\<lparr>m_replyCount := max 0 (m_replyCount m - 1)\<rparr>)"

definition softDelete :: "msec \<Rightarrow> delete_args \<Rightarrow> store \<Rightarrow> id list \<times> store" where
  \<comment> \<open>the saved messages whose reminders are cancelled after the commit, and the store\<close>
  "softDelete now a st =
     (case find_live st (da_msgId a) (da_channelId a) of
        None \<Rightarrow> ([], st)
      | Some before \<Rightarrow>
         (let st1 = update_messages (\<lambda>m. m_id m = da_msgId a \<and> m_channelId m = da_channelId a \<and> m_deletedAt m = None)
                      (soft_deleted_row now) st;
              st2 = mask_saved (\<lambda>i. i = da_msgId a) now st1;
              pending = map sv_id (filter (\<lambda>r. sv_messageId r = da_msgId a \<and> sv_reminderAt r \<noteq> None
                          \<and> sv_reminderFiredAt r = None) (st_saved st2));
              st3 = (case m_parent before of
                       Some p \<Rightarrow> if \<not> m_isBroadcast before then drop_reply p st2 else st2
                     | None \<Rightarrow> st2);
              st4 = record_outbox (MESSAGE_DELETED (m_id before) (m_version before)) st3;
              st5 = (if da_workspaceId a \<noteq> None \<and> da_auditMode a \<noteq> Skip_audit
                     then st4\<lparr>st_audit := st_audit st4 @ [MESSAGE_DELETE (da_actorId a) (m_id before)]\<rparr> else st4);
              st6 = (if m_pinnedAt before \<noteq> None
                     then record_outbox (MESSAGE_PIN_TOGGLED (m_id before) None None None) st5 else st5)
          in (pending, st6)))"

definition BULK_DELETE_MAX :: nat where "BULK_DELETE_MAX = 200"

record bulk_args =
  ba_channelId :: id
  ba_actorId :: id
  ba_messageIds :: "id list option"
  ba_latest :: "nat option"

definition bulk_targets :: "bulk_args \<Rightarrow> store \<Rightarrow> id list" where
  "bulk_targets a st =
     (let live = filter (\<lambda>m. m_channelId m = ba_channelId a \<and> m_deletedAt m = None) (st_messages st)
      in case ba_messageIds a of
           Some ids \<Rightarrow> map m_id (filter (\<lambda>m. m_id m \<in> set ids) live)
         | None \<Rightarrow> map m_id (take (case ba_latest a of None \<Rightarrow> 0 | Some n \<Rightarrow> n) (rev (sort_key row_key live))))"

definition bulkDelete :: "msec \<Rightarrow> bulk_args \<Rightarrow> store \<Rightarrow> (error_code + nat \<times> id list) \<times> store" where
  "bulkDelete now a st =
     (if (case ba_messageIds a of None \<Rightarrow> False | Some ids \<Rightarrow> length ids > BULK_DELETE_MAX) then (Inl BULK_DELETE_LIMIT, st)
      else if (case ba_latest a of None \<Rightarrow> False | Some n \<Rightarrow> n > BULK_DELETE_MAX) then (Inl BULK_DELETE_LIMIT, st)
      else let targetIds = bulk_targets a st
           in if targetIds = [] then (Inr (0, []), st)
              else let hit = (\<lambda>m. m_id m \<in> set targetIds \<and> m_channelId m = ba_channelId a \<and> m_deletedAt m = None);
                       deletedCount = length (filter hit (st_messages st));
                       st1 = update_messages hit (soft_deleted_row now) st;
                       st2 = mask_saved (\<lambda>i. i \<in> set targetIds) now st1;
                       st3 = st2\<lparr>st_audit := st_audit st2 @ [BULK_MESSAGE_DELETE (ba_actorId a) targetIds deletedCount]\<rparr>
                   in (Inr (deletedCount, targetIds),
                       record_outbox (MESSAGE_BULK_DELETED (ba_channelId a) targetIds) st3))"

section \<open>System and bot messages\<close>

definition service_message ::
  "message_env \<Rightarrow> id \<Rightarrow> id \<Rightarrow> author_type \<Rightarrow> message_type \<Rightarrow> processed_content \<Rightarrow> message_row" where
  "service_message env channelId actorId author ty pc =
     \<lparr>m_id = en_newId env, m_channelId = channelId, m_authorId = actorId, m_authorType = author, m_type = ty,
      m_content = pc_raw pc, m_contentPlain = pc_plain pc, m_contentRaw = pc_raw pc, m_contentAst = pc_ast pc,
      m_mentions = no_mentions, m_hasLink = False, m_hasImage = False, m_hasFile = False,
      m_idempotencyKey = None, m_nonce = None, m_parent = None, m_isBroadcast = False, m_version = 0,
      m_createdAt = en_now env, m_editedAt = None, m_deletedAt = None, m_pinnedAt = None, m_pinnedBy = None,
      m_replyCount = 0, m_latestReplyAt = None, m_threadLocked = False\<rparr>"

definition no_label_maps :: label_resolvers where
  "no_label_maps = \<lparr>lr_user = Map.empty, lr_channel = Map.empty, lr_role = Map.empty\<rparr>"

definition create_service_message ::
  "message_env \<Rightarrow> id \<Rightarrow> id \<Rightarrow> author_type \<Rightarrow> message_type \<Rightarrow> js_string \<Rightarrow> store \<Rightarrow> (error_code + message_row) \<times> store"
where
  "create_service_message env channelId actorId author ty contentRaw st =
     (case processMrkdwn (en_late env) (en_bytes env) no_label_maps contentRaw of
        Inl e \<Rightarrow> (Inl (PARSE_ERROR_TO_DOMAIN e), st)
      | Inr pc \<Rightarrow>
         (let m = service_message env channelId actorId author ty pc
          in (Inr m, record_outbox (MESSAGE_CREATED (m_id m)) (st\<lparr>st_messages := st_messages st @ [m]\<rparr>))))"

definition createSystemMessage ::
  "message_env \<Rightarrow> id \<Rightarrow> id \<Rightarrow> message_type \<Rightarrow> js_string \<Rightarrow> store \<Rightarrow> (error_code + message_row) \<times> store" where
  "createSystemMessage env channelId actorId ty contentRaw =
     create_service_message env channelId actorId SYSTEM ty contentRaw"

definition createBotMessage ::
  "message_env \<Rightarrow> id \<Rightarrow> id \<Rightarrow> js_string \<Rightarrow> store \<Rightarrow> (error_code + message_row) \<times> store" where
  "createBotMessage env channelId authorId content =
     create_service_message env channelId authorId BOT DEFAULT content"

definition insertPinSystemMessage ::
  "message_env \<Rightarrow> id \<Rightarrow> id \<Rightarrow> js_string \<Rightarrow> store \<Rightarrow> (error_code + message_row) \<times> store" where
  "insertPinSystemMessage env channelId actorId contentRaw =
     create_service_message env channelId actorId SYSTEM SYSTEM_PIN contentRaw"

section \<open>Pins and the lock of a thread\<close>

record pin_args =
  pa_channelId :: id
  pa_msgId :: id
  pa_actorId :: id

definition set_pin :: "pin_args \<Rightarrow> (msec \<times> id) option \<Rightarrow> store \<Rightarrow> store" where
  "set_pin a by_whom =
     update_messages (\<lambda>m. m_id m = pa_msgId a \<and> m_channelId m = pa_channelId a)
       (\<lambda>m. m\<lparr>m_pinnedAt := map_option fst by_whom, m_pinnedBy := map_option snd by_whom\<rparr>)"

definition pin :: "message_env \<Rightarrow> js_string \<Rightarrow> pin_args \<Rightarrow> store \<Rightarrow> (error_code + id) \<times> store" where
  \<comment> \<open>the id of the message; the text of its system message is an argument\<close>
  "pin env text a st = transaction (\<lambda>st.
     (case find_live st (pa_msgId a) (pa_channelId a) of
        None \<Rightarrow> (Inl MESSAGE_NOT_FOUND, st)
      | Some target \<Rightarrow>
          if isSystemMessageType (m_type target) then (Inl VALIDATION_FAILED, st)
          else if m_pinnedAt target \<noteq> None then (Inr (m_id target), st)
          else let pinned = length (live_pins (st_messages st) (pa_channelId a))
               in if pinned \<ge> HARD_PIN_CAP then (Inl MESSAGE_PIN_CAP_EXCEEDED, st)
                  else let st1 = set_pin a (Some (en_now env, pa_actorId a)) st
                       in case insertPinSystemMessage env (pa_channelId a) (pa_actorId a) text st1 of
                            (Inl e, st2) \<Rightarrow> (Inl e, st2)
                          | (Inr sys, st2) \<Rightarrow>
                              (Inr (m_id target),
                               record_outbox (MESSAGE_PIN_TOGGLED (m_id target) (Some (en_now env))
                                 (Some (pa_actorId a)) (Some (m_id sys, pinned + 1))) st2))) st"

definition unpin :: "pin_args \<Rightarrow> store \<Rightarrow> (error_code + id) \<times> store" where
  "unpin a st =
     (case find_in_channel st (pa_msgId a) (pa_channelId a) of
        None \<Rightarrow> (Inl MESSAGE_NOT_FOUND, st)
      | Some target \<Rightarrow>
          if m_pinnedAt target = None then (Inr (m_id target), st)
          else (Inr (m_id target),
                record_outbox (MESSAGE_PIN_TOGGLED (m_id target) None None None) (set_pin a None st)))"

definition isThreadLocked :: "store \<Rightarrow> id \<Rightarrow> bool" where
  "isThreadLocked st rootId =
     (case find_message st rootId of None \<Rightarrow> False | Some m \<Rightarrow> m_parent m = None \<and> m_threadLocked m)"

definition setThreadLock :: "id \<Rightarrow> id \<Rightarrow> bool \<Rightarrow> store \<Rightarrow> (error_code + id \<times> bool) \<times> store" where
  "setThreadLock channelId rootId locked st =
     (case find (\<lambda>m. m_id m = rootId \<and> m_channelId m = channelId \<and> m_parent m = None \<and> m_deletedAt m = None)
             (st_messages st) of
        None \<Rightarrow> (Inl MESSAGE_NOT_FOUND, st)
      | Some target \<Rightarrow>
          if m_threadLocked target = locked then (Inr (m_id target, locked), st)
          else (Inr (m_id target, locked),
                record_outbox (MESSAGE_THREAD_LOCK_CHANGED (m_id target) locked)
                  (update_messages (\<lambda>m. m_id m = rootId) (\<lambda>m. m\<lparr>m_threadLocked := locked\<rparr>) st)))"

section \<open>The hourly recount\<close>

definition reply_rows :: "message_row list \<Rightarrow> id \<Rightarrow> message_row list" where
  "reply_rows ms rid = filter (\<lambda>m. m_parent m = Some rid \<and> \<not> m_isBroadcast m) ms"

definition reconcile :: "store \<Rightarrow> nat \<times> store" where
  \<comment> \<open>the number of rows corrected\<close>
  "reconcile st =
     (let actual = (\<lambda>m. int (length (live_replies (st_messages st) (m_id m))));
          drifted = (\<lambda>m. reply_rows (st_messages st) (m_id m) \<noteq> [] \<and> m_replyCount m \<noteq> actual m)
      in (length (filter drifted (st_messages st)),
          update_messages drifted (\<lambda>m. m\<lparr>m_replyCount := actual m\<rparr>) st))"

end
