(* ===== verification/Message_Invariants.thy ===== *)
theory Message_Invariants
  imports Message_Edits
begin

text \<open>
  What holds of the message tables in every state the writes can reach, in any order and with
  other writes between the checks of a \<open>send\<close> and its transaction: unique ids and idempotency
  keys, threads of one level inside a channel, the cap on pins, the reply counters and the ring
  of the edit history.
\<close>

section \<open>The system\<close>

record msg_system =
  sys_store :: store
  sys_pending :: "(send_args \<times> prepared \<times> attachment_kind list) list"
    \<comment> \<open>sends that passed their checks and have not run their transaction\<close>

definition fresh_ids :: "message_env \<Rightarrow> store \<Rightarrow> bool" where
  \<comment> \<open>the generated uuids are new\<close>
  "fresh_ids env st \<longleftrightarrow>
     en_newId env \<notin> m_id ` set (st_messages st) \<and> en_newId2 env \<notin> m_id ` set (st_messages st)
     \<and> en_newId env \<noteq> en_newId2 env \<and> en_newId env \<notin> h_id ` set (st_history st)"

definition with_store :: "msg_system \<Rightarrow> store \<Rightarrow> msg_system" where
  "with_store s st = s\<lparr>sys_store := st\<rparr>"

inductive message_step :: "bool \<Rightarrow> msg_system \<Rightarrow> msg_system \<Rightarrow> bool" for bulk where
  begin_send: "send_check env a (sys_store s) = Inr (pr, kinds) \<Longrightarrow>
    message_step bulk s (s\<lparr>sys_pending := sys_pending s @ [(a, pr, kinds)]\<rparr>)"
| commit_send: "(a, pr, kinds) \<in> set (sys_pending s) \<Longrightarrow> fresh_ids env (sys_store s) \<Longrightarrow>
    message_step bulk s (with_store s (snd (send_commit env a pr kinds (sys_store s))))"
| edit: "fresh_ids env (sys_store s) \<Longrightarrow>
    message_step bulk s (with_store s (snd (update_tx env ua pr (sys_store s))))"
| delete_one: "message_step bulk s (with_store s (snd (softDelete now da (sys_store s))))"
| delete_bulk: "bulk \<Longrightarrow> message_step bulk s (with_store s (snd (bulkDelete now ba (sys_store s))))"
| service: "fresh_ids env (sys_store s) \<Longrightarrow>
    message_step bulk s (with_store s (snd (create_service_message env ch actor author ty content (sys_store s))))"
| pin_one: "fresh_ids env (sys_store s) \<Longrightarrow>
    message_step bulk s (with_store s (snd (pin env content pa (sys_store s))))"
| unpin_one: "message_step bulk s (with_store s (snd (unpin pa (sys_store s))))"
| lock: "message_step bulk s (with_store s (snd (setThreadLock ch rid locked (sys_store s))))"
| recount: "message_step bulk s (with_store s (snd (reconcile (sys_store s))))"
| forget_keys: "cache \<subseteq>\<^sub>m st_idem (sys_store s) \<Longrightarrow>
    message_step bulk s (with_store s ((sys_store s)\<lparr>st_idem := cache\<rparr>))"

definition initial_system :: msg_system where
  "initial_system = \<lparr>sys_store = empty_store, sys_pending = []\<rparr>"

abbreviation message_reachable :: "bool \<Rightarrow> msg_system \<Rightarrow> bool" where
  "message_reachable bulk \<equiv> (message_step bulk)\<^sup>*\<^sup>* initial_system"

section \<open>Lemmas: what the operations do to the tables\<close>

named_theorems store_keeps \<open>operations that leave the messages and the history alone\<close>

lemma record_outbox_keeps [store_keeps]:
  "st_messages (record_outbox ev st) = st_messages st" "st_history (record_outbox ev st) = st_history st"
  by (simp_all add: record_outbox_def)

lemma subscribe_keeps [store_keeps]:
  "st_messages (subscribe env u r st) = st_messages st" "st_history (subscribe env u r st) = st_history st"
  by (simp_all add: subscribe_def split: option.splits)

lemma link_attachments_keeps [store_keeps]:
  "st_messages (link_attachments env a st) = st_messages st" "st_history (link_attachments env a st) = st_history st"
  by (simp_all add: link_attachments_def)

lemma unhide_direct_keeps [store_keeps]:
  "st_messages (unhide_direct a st) = st_messages st" "st_history (unhide_direct a st) = st_history st"
  by (simp_all add: unhide_direct_def)

lemma writeIdemCache_keeps [store_keeps]:
  "st_messages (writeIdemCache u k m st) = st_messages st" "st_history (writeIdemCache u k m st) = st_history st"
  by (simp_all add: writeIdemCache_def split: option.splits)

lemma mask_saved_keeps [store_keeps]:
  "st_messages (mask_saved p t st) = st_messages st" "st_history (mask_saved p t st) = st_history st"
  by (simp_all add: mask_saved_def)

lemma update_messages_keeps [store_keeps]:
  "st_messages (update_messages p f st) = update_where p f (st_messages st)"
  "st_history (update_messages p f st) = st_history st"
  by (simp_all add: update_messages_def)

lemma fan_out_keeps [store_keeps]:
  "st_messages (fan_out_mentions mens i us st) = st_messages st"
  "st_history (fan_out_mentions mens i us st) = st_history st"
  by (induction us arbitrary: st) (simp_all add: fan_out_mentions_def store_keeps)

lemma subscribe_mentioned_keeps [store_keeps]:
  "st_messages (subscribe_mentioned env r bl us st) = st_messages st"
  "st_history (subscribe_mentioned env r bl us st) = st_history st"
  by (induction us arbitrary: st) (simp_all add: subscribe_mentioned_def store_keeps)

abbreviation bumped :: "id \<Rightarrow> msec \<Rightarrow> message_row list \<Rightarrow> message_row list" where
  "bumped p t \<equiv> update_where (\<lambda>m. m_id m = p \<and> m_deletedAt m = None)
     (\<lambda>m. m\<lparr>m_replyCount := m_replyCount m + 1,
            m_latestReplyAt := Some (case m_latestReplyAt m of None \<Rightarrow> t | Some u \<Rightarrow> max u t)\<rparr>)"

lemma after_insert_messages:
  "st_messages (after_insert env a pr created content st) =
     (case m_parent created of
        None \<Rightarrow> st_messages st
      | Some p \<Rightarrow> bumped p (m_createdAt created) (st_messages st)
                 @ (if sa_isBroadcast a then [broadcast_message env a created] else []))"
  "st_history (after_insert env a pr created content st) = st_history st"
  by (auto simp: after_insert_def Let_def store_keeps bump_replies_def split: option.splits)

lemma new_message_simps [simp]:
  "m_id (new_message env a pr kinds) = en_newId env"
  "m_channelId (new_message env a pr kinds) = sa_channelId a"
  "m_authorId (new_message env a pr kinds) = sa_authorId a"
  "m_idempotencyKey (new_message env a pr kinds) = sa_idempotencyKey a"
  "m_parent (new_message env a pr kinds) = sa_parent a"
  "m_content (new_message env a pr kinds) = sa_content a"
  "\<not> m_isBroadcast (new_message env a pr kinds)"
  "m_version (new_message env a pr kinds) = 0"
  "m_createdAt (new_message env a pr kinds) = en_now env"
  "m_deletedAt (new_message env a pr kinds) = None"
  "m_pinnedAt (new_message env a pr kinds) = None"
  "m_replyCount (new_message env a pr kinds) = 0"
  by (simp_all add: new_message_def)

lemma broadcast_message_simps [simp]:
  "m_id (broadcast_message env a c) = en_newId2 env"
  "m_channelId (broadcast_message env a c) = m_channelId c"
  "m_authorId (broadcast_message env a c) = m_authorId c"
  "m_idempotencyKey (broadcast_message env a c) = None"
  "m_parent (broadcast_message env a c) = m_parent c"
  "m_isBroadcast (broadcast_message env a c)"
  "m_version (broadcast_message env a c) = m_version c"
  "m_deletedAt (broadcast_message env a c) = m_deletedAt c"
  "m_pinnedAt (broadcast_message env a c) = m_pinnedAt c"
  "m_replyCount (broadcast_message env a c) = m_replyCount c"
  by (simp_all add: broadcast_message_def)

lemma service_message_simps [simp]:
  "m_id (service_message env ch u author ty pc) = en_newId env"
  "m_channelId (service_message env ch u author ty pc) = ch"
  "m_idempotencyKey (service_message env ch u author ty pc) = None"
  "m_parent (service_message env ch u author ty pc) = None"
  "m_version (service_message env ch u author ty pc) = 0"
  "m_deletedAt (service_message env ch u author ty pc) = None"
  "m_pinnedAt (service_message env ch u author ty pc) = None"
  "m_replyCount (service_message env ch u author ty pc) = 0"
  by (simp_all add: service_message_def)

definition sent_messages ::
  "message_env \<Rightarrow> send_args \<Rightarrow> message_row \<Rightarrow> message_row list \<Rightarrow> message_row list" where
  \<comment> \<open>the table after the insertion of a message\<close>
  "sent_messages env a m ms =
     (case m_parent m of
        None \<Rightarrow> ms @ [m]
      | Some p \<Rightarrow> bumped p (m_createdAt m) (ms @ [m])
                 @ (if sa_isBroadcast a then [broadcast_message env a m] else []))"

definition key_taken :: "send_args \<Rightarrow> message_row list \<Rightarrow> bool" where
  "key_taken a ms \<longleftrightarrow> sa_idempotencyKey a \<noteq> None
     \<and> list_ex (\<lambda>n. m_authorId n = sa_authorId a \<and> m_idempotencyKey n = sa_idempotencyKey a) ms"

lemma send_tx_cases:
  obtains (failed) e where "send_tx env a pr kinds st = (Inl e, st)"
  | (created) st' content where "send_tx env a pr kinds st = (Inr (new_message env a pr kinds), st')"
      "recheck_parent a st = Inr content" "\<not> key_taken a (st_messages st)" "st_history st' = st_history st"
      "st_messages st' = sent_messages env a (new_message env a pr kinds) (st_messages st)"
proof (cases "recheck_parent a st")
  case (Inl e)
  then show ?thesis using failed by (simp add: send_tx_def Let_def)
next
  case (Inr content)
  show ?thesis
  proof (cases "key_taken a (st_messages st)")
    case True
    with Inr show ?thesis using failed by (simp add: send_tx_def Let_def insert_message_def key_taken_def)
  next
    case False
    let ?m = "new_message env a pr kinds"
    let ?st = "after_insert env a pr ?m content (st\<lparr>st_messages := st_messages st @ [?m]\<rparr>)"
    have "send_tx env a pr kinds st = (Inr ?m, ?st)"
      using Inr False by (auto simp: send_tx_def Let_def insert_message_def key_taken_def)
    moreover have "st_messages ?st = sent_messages env a ?m (st_messages st)"
      by (simp add: after_insert_messages sent_messages_def split: option.splits)
    moreover have "st_history ?st = st_history st" by (simp add: after_insert_messages)
    ultimately show ?thesis using created Inr False by blast
  qed
qed

text \<open>What \<open>send_commit\<close> does to the tables: nothing, or the insertion of a message.\<close>

lemma send_commit_tables:
  obtains (same) "st_messages (snd (send_commit env a pr kinds st)) = st_messages st"
      "st_history (snd (send_commit env a pr kinds st)) = st_history st"
  | (sent) content where "recheck_parent a st = Inr content" "\<not> key_taken a (st_messages st)"
      "st_messages (snd (send_commit env a pr kinds st)) = sent_messages env a (new_message env a pr kinds) (st_messages st)"
      "st_history (snd (send_commit env a pr kinds st)) = st_history st"
proof (cases rule: send_tx_cases [of env a pr kinds st])
  case (failed e)
  then have "st_messages (snd (send_commit env a pr kinds st)) = st_messages st"
      "st_history (snd (send_commit env a pr kinds st)) = st_history st"
    by (auto simp: send_commit_def store_keeps split: tx_failure.splits option.splits sum.splits)
  then show ?thesis by (rule same)
next
  case (created st' content)
  then show ?thesis using sent by (simp add: send_commit_def store_keeps)
qed

text \<open>An edit of rows that leaves what identifies and relates them.\<close>

definition identity_kept :: "(message_row \<Rightarrow> message_row) \<Rightarrow> bool" where
  "identity_kept f \<longleftrightarrow> (\<forall>m. m_id (f m) = m_id m \<and> m_channelId (f m) = m_channelId m \<and> m_authorId (f m) = m_authorId m
     \<and> m_idempotencyKey (f m) = m_idempotencyKey m \<and> m_parent (f m) = m_parent m
     \<and> m_isBroadcast (f m) = m_isBroadcast m)"

definition ids_ok :: "message_row list \<Rightarrow> bool" where
  "ids_ok ms \<longleftrightarrow> distinct (map m_id ms)"

definition parents_ok :: "message_row list \<Rightarrow> bool" where
  \<comment> \<open>threads have one level and stay in their channel\<close>
  "parents_ok ms \<longleftrightarrow>
     (\<forall>m \<in> set ms. \<forall>p. m_parent m = Some p \<longrightarrow>
        (\<exists>r \<in> set ms. m_id r = p \<and> m_parent r = None \<and> m_channelId r = m_channelId m))"

definition pins_ok :: "message_row list \<Rightarrow> bool" where
  "pins_ok ms \<longleftrightarrow> (\<forall>m \<in> set ms. m_deletedAt m \<noteq> None \<longrightarrow> m_pinnedAt m = None)
     \<and> (\<forall>ch. length (live_pins ms ch) \<le> HARD_PIN_CAP)"

definition table_ok :: "message_row list \<Rightarrow> bool" where
  "table_ok ms \<longleftrightarrow> ids_ok ms \<and> keys_unique ms \<and> parents_ok ms \<and> pins_ok ms"

lemma table_okI: "ids_ok ms \<Longrightarrow> keys_unique ms \<Longrightarrow> parents_ok ms \<Longrightarrow> pins_ok ms \<Longrightarrow> table_ok ms"
  by (simp add: table_ok_def)

lemma table_okD:
  assumes "table_ok ms"
  shows "ids_ok ms" "keys_unique ms" "parents_ok ms" "pins_ok ms"
  using assms by (simp_all add: table_ok_def)

lemma update_where_Cons:
  "update_where p f (r # rs) = (if p r then f r else r) # update_where p f rs"
  by (simp add: update_where_def)

lemma update_whereE:
  assumes "x \<in> set (update_where p f rs)"
  obtains r where "r \<in> set rs" "x = (if p r then f r else r)"
  using assms by (auto simp: update_where_def)

lemma filter_update_le:
  assumes "\<And>m. m \<in> set ms \<Longrightarrow> p m \<Longrightarrow> Q (f m) \<Longrightarrow> Q m"
  shows "length (filter Q (update_where p f ms)) \<le> length (filter Q ms)"
  using assms by (induction ms) (auto simp: update_where_def)

lemma filter_update_same:
  assumes "\<And>m. m \<in> set ms \<Longrightarrow> p m \<Longrightarrow> Q (f m) \<longleftrightarrow> Q m"
  shows "length (filter Q (update_where p f ms)) = length (filter Q ms)"
  using assms by (induction ms) (auto simp: update_where_def)

text \<open>One row changes: the count of a property moves by that row.\<close>

lemma filter_update_one:
  assumes "distinct (map m_id ms)" and "b \<in> set ms" and "p b" and "\<And>m. m \<in> set ms \<Longrightarrow> p m \<Longrightarrow> m_id m = m_id b"
  shows "length (filter Q (update_where p f ms)) + (if Q b then 1 else 0)
       = length (filter Q ms) + (if Q (f b) then 1 else 0)"
  using assms
proof (induction ms)
  case Nil
  then show ?case by simp
next
  case (Cons x xs)
  show ?case
  proof (cases "x = b")
    case True
    have "m_id m \<noteq> m_id b" if "m \<in> set xs" for m
      using True Cons.prems(1) that by (metis distinct.simps(2) image_eqI list.simps(9) set_map)
    with Cons.prems(4) have "\<forall>m \<in> set xs. \<not> p m" by (metis list.set_intros(2))
    then have "update_where p f xs = xs" by (simp add: update_where_id)
    with True Cons.prems(3) show ?thesis by (simp add: update_where_def)
  next
    case False
    with Cons.prems(2) have b: "b \<in> set xs" by simp
    with Cons.prems(1) have "m_id x \<noteq> m_id b" by (metis distinct.simps(2) image_eqI list.simps(9) set_map)
    with Cons.prems(4) have "\<not> p x" by (metis list.set_intros(1))
    have "length (filter Q (update_where p f xs)) + (if Q b then 1 else 0)
        = length (filter Q xs) + (if Q (f b) then 1 else 0)"
    proof (rule Cons.IH [OF _ b Cons.prems(3)])
      show "distinct (map m_id xs)" using Cons.prems(1) by simp
      show "m_id m = m_id b" if "m \<in> set xs" "p m" for m using Cons.prems(4) that by simp
    qed
    with \<open>\<not> p x\<close> show ?thesis by (simp add: update_where_def)
  qed
qed

lemma map_stable: "identity_kept f \<Longrightarrow> map m_id (update_where p f ms) = map m_id ms"
  by (rule map_update_where) (simp add: identity_kept_def)

lemma ids_update: "identity_kept f \<Longrightarrow> ids_ok ms \<Longrightarrow> ids_ok (update_where p f ms)"
  by (simp add: ids_ok_def map_stable)

lemma keys_update: "identity_kept f \<Longrightarrow> keys_unique ms \<Longrightarrow> keys_unique (update_where p f ms)"
proof -
  assume f: "identity_kept f" and k: "keys_unique ms"
  have "m_id x = m_id y" if xy: "x \<in> set (update_where p f ms)" "y \<in> set (update_where p f ms)"
    "m_idempotencyKey x \<noteq> None" "m_authorId x = m_authorId y" "m_idempotencyKey x = m_idempotencyKey y" for x y
  proof -
    have "\<exists>n \<in> set ms. m_id n = m_id z \<and> m_authorId n = m_authorId z \<and> m_idempotencyKey n = m_idempotencyKey z"
      if "z \<in> set (update_where p f ms)" for z
      using that f unfolding set_update_where identity_kept_def by auto
    from this [OF xy(1)] this [OF xy(2)] xy(3-5) k show ?thesis
      unfolding keys_unique_def by metis
  qed
  then show "keys_unique (update_where p f ms)" unfolding keys_unique_def by blast
qed

lemma parents_update:
  assumes "identity_kept f" and "parents_ok ms"
  shows "parents_ok (update_where p f ms)"
  unfolding parents_ok_def set_update_where
proof (intro ballI allI impI)
  fix m q assume "m \<in> (\<lambda>r. if p r then f r else r) ` set ms" "m_parent m = Some q"
  then obtain n where n: "n \<in> set ms" "m = (if p n then f n else n)" by blast
  then have "m_parent n = Some q" "m_channelId m = m_channelId n"
    using assms(1) \<open>m_parent m = Some q\<close> by (auto simp: identity_kept_def split: if_splits)
  with assms(2) n obtain r where "r \<in> set ms" "m_id r = q" "m_parent r = None" "m_channelId r = m_channelId m"
    unfolding parents_ok_def by metis
  with assms(1) show "\<exists>r \<in> (\<lambda>r. if p r then f r else r) ` set ms.
      m_id r = q \<and> m_parent r = None \<and> m_channelId r = m_channelId m"
    by (intro bexI [of _ "if p r then f r else r"]) (auto simp: identity_kept_def)
qed

lemma pins_update:
  assumes "pins_ok ms" and "identity_kept f"
    and pinned: "\<forall>m. m_pinnedAt (f m) \<noteq> None \<longrightarrow>
      m_deletedAt (f m) = None \<and> m_pinnedAt m \<noteq> None \<and> m_deletedAt m = None"
  shows "pins_ok (update_where p f ms)"
  unfolding pins_ok_def
proof (intro conjI ballI allI impI)
  show "m_pinnedAt m = None" if m: "m \<in> set (update_where p f ms)" "m_deletedAt m \<noteq> None" for m
  proof -
    from m(1) obtain n where n: "n \<in> set ms" "m = (if p n then f n else n)" by (auto simp: set_update_where)
    show ?thesis
    proof (cases "p n")
      case True
      with n m(2) pinned [rule_format, of n] show ?thesis by (cases "m_pinnedAt m") simp_all
    next
      case False
      with n m(2) assms(1) show ?thesis by (simp add: pins_ok_def)
    qed
  qed
  show "length (live_pins (update_where p f ms) ch) \<le> HARD_PIN_CAP" for ch
  proof -
    have "length (live_pins (update_where p f ms) ch) \<le> length (live_pins ms ch)"
      unfolding live_pins_def using assms(2) pinned by (intro filter_update_le) (simp add: identity_kept_def)
    with assms(1) show ?thesis by (auto simp: pins_ok_def intro: le_trans)
  qed
qed

lemma rows_update:
  assumes "table_ok ms" and "identity_kept f"
    and "\<forall>m. m_pinnedAt (f m) \<noteq> None \<longrightarrow>
      m_deletedAt (f m) = None \<and> m_pinnedAt m \<noteq> None \<and> m_deletedAt m = None"
  shows "table_ok (update_where p f ms)"
  using table_okD [OF assms(1)] assms(2)
  by (intro table_okI ids_update keys_update parents_update pins_update [OF _ _ assms(3)])

text \<open>A pin state that is kept needs no assumption on the row.\<close>

lemma rows_update_keeps:
  assumes "table_ok ms" and "identity_kept f" and "\<And>m. m_pinnedAt (f m) = m_pinnedAt m" and "\<And>m. m_deletedAt (f m) = m_deletedAt m"
  shows "table_ok (update_where p f ms)"
proof -
  have "pins_ok (update_where p f ms)"
    unfolding pins_ok_def
  proof (intro conjI ballI allI impI)
    show "m_pinnedAt m = None" if "m \<in> set (update_where p f ms)" "m_deletedAt m \<noteq> None" for m
      using that assms(3,4) table_okD(4) [OF assms(1)] by (auto simp: set_update_where pins_ok_def split: if_splits)
    show "length (live_pins (update_where p f ms) ch) \<le> HARD_PIN_CAP" for ch
    proof -
      have "length (live_pins (update_where p f ms) ch) = length (live_pins ms ch)"
        unfolding live_pins_def using assms(2-4) by (intro filter_update_same) (auto simp: identity_kept_def)
      with table_okD(4) [OF assms(1)] show ?thesis by (simp add: pins_ok_def)
    qed
  qed
  with assms(1,2) show ?thesis by (simp add: table_ok_def ids_update keys_update parents_update)
qed

lemma rows_append:
  assumes "table_ok ms" and "m_id m \<notin> m_id ` set ms" and "m_pinnedAt m = None"
    and "m_idempotencyKey m \<noteq> None \<Longrightarrow> \<not> (\<exists>n \<in> set ms. m_authorId n = m_authorId m \<and> m_idempotencyKey n = m_idempotencyKey m)"
    and "\<And>p. m_parent m = Some p \<Longrightarrow> \<exists>r \<in> set ms. m_id r = p \<and> m_parent r = None \<and> m_channelId r = m_channelId m"
  shows "table_ok (ms @ [m])"
proof (rule table_okI)
  note ok = table_okD [OF assms(1)]
  show "ids_ok (ms @ [m])" using ok(1) assms(2) by (auto simp: ids_ok_def)
  show "keys_unique (ms @ [m])"
    unfolding keys_unique_def
  proof (intro ballI impI)
    fix x y assume xy: "x \<in> set (ms @ [m])" "y \<in> set (ms @ [m])" "m_idempotencyKey x \<noteq> None"
      "m_authorId x = m_authorId y" "m_idempotencyKey x = m_idempotencyKey y"
    consider "x = m" "y = m" | "x = m" "y \<in> set ms" | "x \<in> set ms" "y = m" | "x \<in> set ms" "y \<in> set ms"
      using xy(1,2) by auto
    then show "m_id x = m_id y"
    proof cases
      case 1
      then show ?thesis by simp
    next
      case 2
      then have "m_idempotencyKey m \<noteq> None" using xy(3) by simp
      from assms(4) [OF this] 2 xy(4,5) show ?thesis by metis
    next
      case 3
      then have "m_idempotencyKey m \<noteq> None" using xy(3,5) by simp
      from assms(4) [OF this] 3 xy(4,5) show ?thesis by metis
    next
      case 4
      show ?thesis using ok(2) 4 xy(3-5) unfolding keys_unique_def by blast
    qed
  qed
  show "parents_ok (ms @ [m])"
    unfolding parents_ok_def
  proof (intro ballI allI impI)
    fix x p assume x: "x \<in> set (ms @ [m])" "m_parent x = Some p"
    have "\<exists>r \<in> set ms. m_id r = p \<and> m_parent r = None \<and> m_channelId r = m_channelId x"
    proof (cases "x = m")
      case True
      with x(2) assms(5) show ?thesis by blast
    next
      case False
      with x ok(3) show ?thesis by (simp add: parents_ok_def)
    qed
    then show "\<exists>r \<in> set (ms @ [m]). m_id r = p \<and> m_parent r = None \<and> m_channelId r = m_channelId x" by auto
  qed
  show "pins_ok (ms @ [m])" using ok(4) assms(3) by (auto simp: pins_ok_def live_pins_def)
qed

lemma bump_keeps_identity: "identity_kept (\<lambda>m. m\<lparr>m_replyCount := g m, m_latestReplyAt := h m\<rparr>)"
  by (simp add: identity_kept_def)

lemma sent_rows_ok:
  assumes "table_ok ms" and "m_id m \<notin> m_id ` set ms" and "m_pinnedAt m = None" and "\<not> key_taken a ms"
    and "m_idempotencyKey m = sa_idempotencyKey a" and "m_authorId m = sa_authorId a"
    and "\<And>p. m_parent m = Some p \<Longrightarrow> \<exists>r \<in> set ms. m_id r = p \<and> m_parent r = None \<and> m_channelId r = m_channelId m"
    and "en_newId2 env \<notin> m_id ` set ms" and "m_id m \<noteq> en_newId2 env"
  shows "table_ok (sent_messages env a m ms)"
proof -
  have one: "table_ok (ms @ [m])"
    by (rule rows_append) (use assms in \<open>auto simp: key_taken_def list_ex_iff\<close>)
  show ?thesis
  proof (cases "m_parent m")
    case None
    with one show ?thesis by (simp add: sent_messages_def)
  next
    case (Some p)
    let ?b = "bumped p (m_createdAt m) (ms @ [m])"
    have b: "table_ok ?b" by (rule rows_update_keeps [OF one]) (simp_all add: identity_kept_def)
    have "table_ok (?b @ [broadcast_message env a m])"
    proof (rule rows_append [OF b])
      have "m_id ` set ?b = m_id ` set (ms @ [m])"
        using map_stable [OF bump_keeps_identity, THEN arg_cong [where f = set]] by (simp only: set_map)
      then show "m_id (broadcast_message env a m) \<notin> m_id ` set ?b" using assms(8,9) by auto
      show "\<exists>r \<in> set ?b. m_id r = q \<and> m_parent r = None \<and> m_channelId r = m_channelId (broadcast_message env a m)"
        if "m_parent (broadcast_message env a m) = Some q" for q
      proof -
        from that assms(7) obtain r where "r \<in> set ms" "m_id r = q" "m_parent r = None" "m_channelId r = m_channelId m"
          by auto
        then show ?thesis
          by (intro bexI [of _ "if m_id r = p \<and> m_deletedAt r = None then
              r\<lparr>m_replyCount := m_replyCount r + 1, m_latestReplyAt :=
                Some (case m_latestReplyAt r of None \<Rightarrow> m_createdAt m | Some u \<Rightarrow> max u (m_createdAt m))\<rparr> else r"])
            (auto simp: set_update_where)
      qed
    qed (use assms(3) in simp_all)
    with Some b show ?thesis by (simp add: sent_messages_def)
  qed
qed

text \<open>Roots of threads: no step loses one.\<close>

definition thread_roots :: "message_row list \<Rightarrow> (id \<times> id) set" where
  "thread_roots ms = {(m_id m, m_channelId m) | m. m \<in> set ms \<and> m_parent m = None}"

lemma thread_roots_Cons:
  "thread_roots (m # ms) = (if m_parent m = None then {(m_id m, m_channelId m)} else {}) \<union> thread_roots ms"
  unfolding thread_roots_def by auto

lemma thread_roots_update: "identity_kept f \<Longrightarrow> thread_roots (update_where p f ms) = thread_roots ms"
proof (induction ms)
  case (Cons m ms)
  then show ?case
    by (cases "p m"; cases "m_parent m") (simp_all add: thread_roots_Cons update_where_Cons identity_kept_def)
qed (simp add: update_where_def)

lemma thread_roots_append [simp]: "thread_roots (xs @ ys) = thread_roots xs \<union> thread_roots ys"
  unfolding thread_roots_def by auto

lemma thread_rootsI: "r \<in> set ms \<Longrightarrow> m_parent r = None \<Longrightarrow> (m_id r, m_channelId r) \<in> thread_roots ms"
  unfolding thread_roots_def by auto

lemma thread_rootsE:
  assumes "(p, ch) \<in> thread_roots ms"
  obtains r where "r \<in> set ms" "m_id r = p" "m_parent r = None" "m_channelId r = ch"
  using assms unfolding thread_roots_def by auto

lemma thread_roots_sent: "thread_roots ms \<subseteq> thread_roots (sent_messages env a m ms)"
  by (auto simp: sent_messages_def thread_roots_update identity_kept_def split: option.splits)

definition keeps_tables :: "message_row list \<Rightarrow> message_row list \<Rightarrow> bool" where
  "keeps_tables ms ms' \<longleftrightarrow> table_ok ms' \<and> thread_roots ms \<subseteq> thread_roots ms'"

lemma keeps_tables_refl: "table_ok ms \<Longrightarrow> keeps_tables ms ms"
  by (simp add: keeps_tables_def)

lemma keeps_tables_update:
  assumes "table_ok ms" and "identity_kept f" and "\<And>m. m_pinnedAt (f m) = m_pinnedAt m" and "\<And>m. m_deletedAt (f m) = m_deletedAt m"
  shows "keeps_tables ms (update_where p f ms)"
  using rows_update_keeps [OF assms] assms(2) by (simp add: keeps_tables_def thread_roots_update)

lemma keeps_tables_unpin:
  assumes "table_ok ms" and "identity_kept f" and "\<And>m. m_pinnedAt (f m) = None"
  shows "keeps_tables ms (update_where p f ms)"
proof -
  have "table_ok (update_where p f ms)" by (rule rows_update [OF assms(1,2)]) (simp add: assms(3))
  with assms(2) show ?thesis by (simp add: keeps_tables_def thread_roots_update)
qed

lemma keeps_tables_trans: "keeps_tables a b \<Longrightarrow> keeps_tables b c \<Longrightarrow> keeps_tables a c"
  unfolding keeps_tables_def by blast

lemma keeps_tables_append:
  assumes "table_ok ms" and "m_id m \<notin> m_id ` set ms" and "m_pinnedAt m = None" and "m_idempotencyKey m = None" and "m_parent m = None"
  shows "keeps_tables ms (ms @ [m])"
proof -
  have "table_ok (ms @ [m])" by (rule rows_append) (use assms in auto)
  then show ?thesis by (auto simp: keeps_tables_def)
qed

lemmas row_edits =
  identity_kept_def edit_row_def soft_deleted_row_def

lemma update_tx_keeps:
  assumes "table_ok (st_messages st)"
  shows "keeps_tables (st_messages st) (st_messages (snd (update_tx env ua pr st)))"
proof (cases "find (edit_matches ua) (st_messages st)")
  case None
  with assms show ?thesis by (auto simp: update_tx_def keeps_tables_refl split: option.splits)
next
  case (Some before)
  have "keeps_tables (st_messages st) (update_where (edit_matches ua) (edit_row env ua pr) (st_messages st))"
    by (rule keeps_tables_update [OF assms]) (simp_all add: row_edits)
  with Some show ?thesis by (simp add: update_tx_def Let_def store_keeps)
qed

lemma drop_reply_messages:
  "st_messages (drop_reply p st) = update_where (\<lambda>m. m_id m = p \<and> m_deletedAt m = None)
     (\<lambda>m. m\<lparr>m_replyCount := max 0 (m_replyCount m - 1)\<rparr>) (st_messages st)"
  "st_history (drop_reply p st) = st_history st"
  by (simp_all add: drop_reply_def store_keeps)

lemma update_tx_messages:
  "st_messages (snd (update_tx env ua pr st)) =
     update_where (edit_matches ua) (edit_row env ua pr) (st_messages st)"
proof (cases "find (edit_matches ua) (st_messages st)")
  case None
  then have "update_where (edit_matches ua) (edit_row env ua pr) (st_messages st) = st_messages st"
    by (intro update_where_id) (auto simp: find_None_iff)
  with None show ?thesis by (auto simp: update_tx_def split: option.splits)
next
  case (Some before)
  then show ?thesis by (simp add: update_tx_def Let_def store_keeps)
qed

lemma reconcile_messages:
  "st_messages (snd (reconcile st)) =
     update_where (\<lambda>m. reply_rows (st_messages st) (m_id m) \<noteq> []
         \<and> m_replyCount m \<noteq> int (length (live_replies (st_messages st) (m_id m))))
       (\<lambda>m. m\<lparr>m_replyCount := int (length (live_replies (st_messages st) (m_id m)))\<rparr>) (st_messages st)"
  "st_history (snd (reconcile st)) = st_history st"
  by (simp_all add: reconcile_def Let_def store_keeps)

abbreviation deleted_here :: "msec \<Rightarrow> delete_args \<Rightarrow> message_row list \<Rightarrow> message_row list" where
  "deleted_here now a \<equiv> update_where
     (\<lambda>m. m_id m = da_msgId a \<and> m_channelId m = da_channelId a \<and> m_deletedAt m = None) (soft_deleted_row now)"

lemma softDelete_messages:
  "st_messages (snd (softDelete now a st)) =
     (case find_live st (da_msgId a) (da_channelId a) of
        None \<Rightarrow> st_messages st
      | Some before \<Rightarrow>
         (case m_parent before of
            Some p \<Rightarrow> if \<not> m_isBroadcast before
              then st_messages (drop_reply p (st\<lparr>st_messages := deleted_here now a (st_messages st)\<rparr>))
              else deleted_here now a (st_messages st)
          | None \<Rightarrow> deleted_here now a (st_messages st)))"
  "st_history (snd (softDelete now a st)) = st_history st"
  by (auto simp: softDelete_def Let_def store_keeps drop_reply_messages split: option.splits)

lemma softDelete_keeps:
  assumes "table_ok (st_messages st)"
  shows "keeps_tables (st_messages st) (st_messages (snd (softDelete now a st)))"
proof -
  have d: "keeps_tables (st_messages st) (deleted_here now a (st_messages st))"
    by (rule keeps_tables_unpin [OF assms]) (simp_all add: row_edits)
  then have "table_ok (deleted_here now a (st_messages st))" by (simp add: keeps_tables_def)
  then have "keeps_tables (deleted_here now a (st_messages st))
      (st_messages (drop_reply p (st\<lparr>st_messages := deleted_here now a (st_messages st)\<rparr>)))" for p
    unfolding drop_reply_messages by (simp add: keeps_tables_update row_edits)
  with d assms show ?thesis
    by (auto simp: softDelete_messages keeps_tables_refl intro: keeps_tables_trans split: option.splits)
qed

definition bulk_hit :: "bulk_args \<Rightarrow> store \<Rightarrow> message_row \<Rightarrow> bool" where
  "bulk_hit a st m \<longleftrightarrow> m_id m \<in> set (bulk_targets a st) \<and> m_channelId m = ba_channelId a \<and> m_deletedAt m = None"

lemma bulkDelete_messages:
  "st_messages (snd (bulkDelete now a st)) = st_messages st
   \<or> st_messages (snd (bulkDelete now a st)) = update_where (bulk_hit a st) (soft_deleted_row now) (st_messages st)"
  "st_history (snd (bulkDelete now a st)) = st_history st"
  by (simp_all add: bulkDelete_def Let_def store_keeps bulk_hit_def [abs_def])

lemma bulkDelete_keeps:
  assumes "table_ok (st_messages st)"
  shows "keeps_tables (st_messages st) (st_messages (snd (bulkDelete now a st)))"
proof -
  have "keeps_tables (st_messages st) (update_where (bulk_hit a st) (soft_deleted_row now) (st_messages st))"
    by (rule keeps_tables_unpin [OF assms]) (simp_all add: row_edits)
  with assms bulkDelete_messages(1) [of now a st] show ?thesis by (metis keeps_tables_refl)
qed

lemma service_tables:
  obtains (none) "snd (create_service_message env ch actor author ty content st) = st"
  | (some) m where "m_id m = en_newId env" "m_pinnedAt m = None" "m_idempotencyKey m = None" "m_parent m = None"
      "m_replyCount m = 0" "m_deletedAt m = None" "m_version m = 0"
      "st_messages (snd (create_service_message env ch actor author ty content st)) = st_messages st @ [m]"
      "st_history (snd (create_service_message env ch actor author ty content st)) = st_history st"
proof (cases "processMrkdwn (en_late env) (en_bytes env) no_label_maps content")
  case (Inl e)
  then show ?thesis using none by (simp add: create_service_message_def)
next
  case (Inr pc)
  then show ?thesis
    using some [of "service_message env ch actor author ty pc"]
    by (simp add: create_service_message_def Let_def store_keeps)
qed

lemma service_keeps:
  assumes "table_ok (st_messages st)" and "en_newId env \<notin> m_id ` set (st_messages st)"
  shows "keeps_tables (st_messages st) (st_messages (snd (create_service_message env ch actor author ty content st)))"
proof (cases rule: service_tables [of env ch actor author ty content st])
  case none
  with assms show ?thesis by (simp add: keeps_tables_refl)
next
  case (some m)
  with assms show ?thesis by (simp add: keeps_tables_append)
qed

lemma set_pin_messages:
  "st_messages (set_pin a w st) = update_where (\<lambda>m. m_id m = pa_msgId a \<and> m_channelId m = pa_channelId a)
     (\<lambda>m. m\<lparr>m_pinnedAt := map_option fst w, m_pinnedBy := map_option snd w\<rparr>) (st_messages st)"
  "st_history (set_pin a w st) = st_history st"
  by (simp_all add: set_pin_def store_keeps)

lemma unpin_keeps:
  assumes "table_ok (st_messages st)"
  shows "keeps_tables (st_messages st) (st_messages (snd (unpin a st)))"
proof -
  have "keeps_tables (st_messages st) (st_messages (set_pin a None st))"
    unfolding set_pin_messages by (rule keeps_tables_unpin [OF assms]) (simp_all add: row_edits)
  with assms show ?thesis by (auto simp: unpin_def store_keeps keeps_tables_refl split: option.splits)
qed

lemma find_live_Some:
  assumes "find_live st i ch = Some m"
  shows "m \<in> set (st_messages st)" "m_id m = i" "m_channelId m = ch" "m_deletedAt m = None"
  using assms unfolding find_live_def by (auto simp: find_Some_iff)

lemma same_id: "ids_ok ms \<Longrightarrow> m \<in> set ms \<Longrightarrow> n \<in> set ms \<Longrightarrow> m_id m = m_id n \<Longrightarrow> m = n"
  unfolding ids_ok_def distinct_map by (auto dest: inj_onD)

text \<open>A new pin adds one to the live pins of its channel, which were below the cap.\<close>

lemma set_pin_keeps:
  assumes "table_ok (st_messages st)" and "find_live st (pa_msgId a) (pa_channelId a) = Some target"
    and "m_pinnedAt target = None" and "length (live_pins (st_messages st) (pa_channelId a)) < HARD_PIN_CAP"
  shows "keeps_tables (st_messages st) (st_messages (set_pin a (Some w) st))"
proof -
  let ?f = "\<lambda>m. m\<lparr>m_pinnedAt := map_option fst (Some w), m_pinnedBy := map_option snd (Some w)\<rparr>"
  let ?p = "\<lambda>m. m_id m = pa_msgId a \<and> m_channelId m = pa_channelId a"
  let ?ms = "update_where ?p ?f (st_messages st)"
  note t = find_live_Some [OF assms(2)] and ok = table_okD [OF assms(1)]
  have st: "identity_kept ?f" by (simp add: row_edits)
  have hit: "m = target" if "m \<in> set (st_messages st)" "?p m" for m
    using same_id [OF ok(1) that(1) t(1)] that(2) t(2) by simp
  have "pins_ok ?ms"
    unfolding pins_ok_def
  proof (intro conjI ballI allI impI)
    fix m assume "m \<in> set ?ms" "m_deletedAt m \<noteq> None"
    then obtain n where n: "n \<in> set (st_messages st)" "m = (if ?p n then ?f n else n)"
      by (auto simp: set_update_where)
    have "\<not> ?p n" using n \<open>m_deletedAt m \<noteq> None\<close> hit t(4) by auto
    with n \<open>m_deletedAt m \<noteq> None\<close> ok(4) show "m_pinnedAt m = None" by (simp add: pins_ok_def)
  next
    fix ch
    have "length (live_pins ?ms ch) + (if m_channelId target = ch \<and> m_pinnedAt target \<noteq> None \<and> m_deletedAt target = None then 1 else 0)
        = length (live_pins (st_messages st) ch)
          + (if m_channelId (?f target) = ch \<and> m_pinnedAt (?f target) \<noteq> None \<and> m_deletedAt (?f target) = None then 1 else 0)"
      unfolding live_pins_def
      using ok(1) t(2,3) hit unfolding ids_ok_def
      by (intro filter_update_one [where b = target and p = ?p and f = ?f, OF _ t(1)]) (simp, simp, metis)
    moreover have "length (live_pins (st_messages st) ch) \<le> HARD_PIN_CAP" using ok(4) by (simp add: pins_ok_def)
    ultimately show "length (live_pins ?ms ch) \<le> HARD_PIN_CAP"
      using assms(3,4) t(3) by (cases "ch = pa_channelId a") simp_all
  qed
  then have "table_ok ?ms" using ok(1-3) st by (intro table_okI ids_update keys_update parents_update)
  then show ?thesis by (simp add: keeps_tables_def set_pin_messages thread_roots_update row_edits)
qed

lemma pin_tables:
  obtains (none) "snd (pin env text a st) = st"
  | (some) target where "find_live st (pa_msgId a) (pa_channelId a) = Some target" "m_pinnedAt target = None"
      "length (live_pins (st_messages st) (pa_channelId a)) < HARD_PIN_CAP"
      "let st1 = set_pin a (Some (en_now env, pa_actorId a)) st;
           st2 = snd (insertPinSystemMessage env (pa_channelId a) (pa_actorId a) text st1)
       in st_messages (snd (pin env text a st)) = st_messages st2 \<and> st_history (snd (pin env text a st)) = st_history st2"
proof (cases "find_live st (pa_msgId a) (pa_channelId a)")
  case None
  then show ?thesis using none by (simp add: pin_def transaction_def)
next
  case (Some target)
  show ?thesis
  proof (cases "isSystemMessageType (m_type target) \<or> m_pinnedAt target \<noteq> None
      \<or> HARD_PIN_CAP \<le> length (live_pins (st_messages st) (pa_channelId a))")
    case True
    with Some show ?thesis using none by (auto simp: pin_def transaction_def)
  next
    case False
    let ?st1 = "set_pin a (Some (en_now env, pa_actorId a)) st"
    obtain r st2 where r: "insertPinSystemMessage env (pa_channelId a) (pa_actorId a) text ?st1 = (r, st2)"
      by fastforce
    show ?thesis
    proof (cases r)
      case (Inl e)
      with r False Some show ?thesis using none by (simp add: pin_def transaction_def Let_def)
    next
      case (Inr sys)
      with r False Some show ?thesis
        using some by (simp add: pin_def transaction_def Let_def store_keeps)
    qed
  qed
qed

lemma pin_keeps:
  assumes "table_ok (st_messages st)" and "en_newId env \<notin> m_id ` set (st_messages st)"
  shows "keeps_tables (st_messages st) (st_messages (snd (pin env text a st)))"
proof (cases rule: pin_tables [of env "text" a st])
  case none
  with assms show ?thesis by (simp add: keeps_tables_refl)
next
  case (some target)
  let ?st1 = "set_pin a (Some (en_now env, pa_actorId a)) st"
  have one: "keeps_tables (st_messages st) (st_messages ?st1)"
    by (rule set_pin_keeps [OF assms(1) some(1-3)])
  have "m_id ` set (st_messages ?st1) = m_id ` set (st_messages st)"
    unfolding set_pin_messages set_map [symmetric] by (subst map_stable) (simp_all add: row_edits)
  with one assms(2) have "keeps_tables (st_messages ?st1)
      (st_messages (snd (insertPinSystemMessage env (pa_channelId a) (pa_actorId a) text ?st1)))"
    unfolding insertPinSystemMessage_def by (intro service_keeps) (simp_all add: keeps_tables_def)
  with one some(4) show ?thesis by (auto simp: Let_def intro: keeps_tables_trans)
qed

lemma setThreadLock_keeps:
  assumes "table_ok (st_messages st)"
  shows "keeps_tables (st_messages st) (st_messages (snd (setThreadLock ch rid locked st)))"
  using assms keeps_tables_update [OF assms, where f = "\<lambda>m. m\<lparr>m_threadLocked := locked\<rparr>"]
  by (auto simp: setThreadLock_def store_keeps keeps_tables_refl row_edits split: option.splits)

lemma reconcile_keeps:
  assumes "table_ok (st_messages st)"
  shows "keeps_tables (st_messages st) (st_messages (snd (reconcile st)))"
  unfolding reconcile_def Let_def snd_conv store_keeps
  by (rule keeps_tables_update [OF assms]) (simp_all add: row_edits)

text \<open>A send commits under a parent that was a root when it was checked, and stays one.\<close>

lemma send_commit_keeps:
  assumes "table_ok (st_messages st)" and "fresh_ids env st"
    and "\<And>p. sa_parent a = Some p \<Longrightarrow> (p, sa_channelId a) \<in> thread_roots (st_messages st)"
  shows "keeps_tables (st_messages st) (st_messages (snd (send_commit env a pr kinds st)))"
proof (cases rule: send_commit_tables [of env a pr kinds st])
  case same
  with assms(1) show ?thesis by (simp add: keeps_tables_refl)
next
  case (sent content)
  have "table_ok (sent_messages env a (new_message env a pr kinds) (st_messages st))"
  proof (rule sent_rows_ok [OF assms(1) _ _ sent(2)])
    show "\<exists>r \<in> set (st_messages st). m_id r = p \<and> m_parent r = None \<and> m_channelId r = m_channelId (new_message env a pr kinds)"
      if "m_parent (new_message env a pr kinds) = Some p" for p
      using assms(3) that by (auto elim: thread_rootsE)
  qed (use assms(2) in \<open>auto simp: fresh_ids_def\<close>)
  with sent(3) show ?thesis by (simp add: keeps_tables_def thread_roots_sent)
qed

lemma send_check_parent:
  assumes "send_check env a st = Inr (pr, kinds)" and "sa_parent a = Some p"
  shows "(p, sa_channelId a) \<in> thread_roots (st_messages st)"
proof -
  from assms obtain parent where "find_live st p (sa_channelId a) = Some parent" "m_parent parent = None"
    by (auto simp: send_check_def check_parent_def guard_that_def bind_res_def split: sum.splits option.splits if_splits)
  then show ?thesis using thread_rootsI find_live_Some by metis
qed

section \<open>The tables stay well-formed\<close>

definition system_ok :: "msg_system \<Rightarrow> bool" where
  "system_ok s \<longleftrightarrow> table_ok (st_messages (sys_store s))
     \<and> (\<forall>(a, pr, kinds) \<in> set (sys_pending s). \<forall>p. sa_parent a = Some p \<longrightarrow>
          (p, sa_channelId a) \<in> thread_roots (st_messages (sys_store s)))"

lemma system_okD: "system_ok s \<Longrightarrow> table_ok (st_messages (sys_store s))"
  by (simp add: system_ok_def)

lemma system_ok_step:
  assumes "system_ok s" and "keeps_tables (st_messages (sys_store s)) (st_messages st)"
  shows "system_ok (with_store s st)"
  using assms unfolding system_ok_def keeps_tables_def with_store_def by fastforce

lemma message_step_ok:
  assumes "message_step bulk s s'" and "system_ok s"
  shows "system_ok s'"
  using assms
proof (cases rule: message_step.cases)
  case (begin_send env a pr kinds)
  with assms(2) show ?thesis by (auto simp: system_ok_def dest: send_check_parent)
next
  case (commit_send a pr kinds env)
  have "keeps_tables (st_messages (sys_store s)) (st_messages (snd (send_commit env a pr kinds (sys_store s))))"
    by (rule send_commit_keeps) (use commit_send assms(2) in \<open>auto simp: system_ok_def\<close>)
  with commit_send assms(2) show ?thesis by (simp add: system_ok_step)
next
  case (forget_keys cache)
  have "keeps_tables (st_messages (sys_store s)) (st_messages ((sys_store s)\<lparr>st_idem := cache\<rparr>))"
    by (simp add: keeps_tables_refl system_okD [OF assms(2)])
  with forget_keys assms(2) show ?thesis by (simp add: system_ok_step)
qed (use assms(2) system_okD [OF assms(2)] in \<open>auto simp: fresh_ids_def intro!: system_ok_step update_tx_keeps
        softDelete_keeps bulkDelete_keeps service_keeps pin_keeps unpin_keeps setThreadLock_keeps reconcile_keeps\<close>)

lemma initial_ok: "system_ok initial_system"
  by (simp add: initial_system_def system_ok_def empty_store_def table_ok_def ids_ok_def keys_unique_def
      parents_ok_def pins_ok_def live_pins_def)

lemma reachable_ok: "message_reachable bulk s \<Longrightarrow> system_ok s"
  by (induction rule: rtranclp_induct) (auto intro: initial_ok message_step_ok)

section \<open>An example\<close>

text \<open>
  A direct channel \<open>c\<close> where a bot says hi, a user replies in its thread, and the reply is edited.
\<close>

definition quiet_env :: "id \<Rightarrow> id \<Rightarrow> msec \<Rightarrow> message_env" where
  \<comment> \<open>an empty directory, nobody to notify, and everything allowed\<close>
  "quiet_env i j now =
     \<lparr>en_lc = ascii_lower, en_dir = \<lparr>dir_users = [], dir_members = [], dir_channels = [], dir_roles = []\<rparr>,
      en_late = never, en_bytes = (\<lambda>_. 0), en_intl = (\<lambda>_ _. None),
      en_tables = \<lparr>nt_friendships = [], nt_users = Map.empty, nt_settings = Map.empty, nt_server = [],
                   nt_mutes = [], nt_threads = []\<rparr>,
      en_presence = None, en_actorEveryone = None, en_rate = (\<lambda>_. None), en_automod = (\<lambda>_ _. None),
      en_canRead = (\<lambda>_. True), en_now = now, en_newId = i, en_newId2 = j\<rparr>"

lemma quiet_env_simps [simp]:
  "en_lc (quiet_env i j now) = ascii_lower" "en_late (quiet_env i j now) = never"
  "en_bytes (quiet_env i j now) = (\<lambda>_. 0)" "en_actorEveryone (quiet_env i j now) = None"
  "en_now (quiet_env i j now) = now" "en_newId (quiet_env i j now) = i" "en_newId2 (quiet_env i j now) = j"
  "en_canRead (quiet_env i j now) u"
  by (simp_all add: quiet_env_def)

definition hi_text :: js_string where "hi_text = js ''hi''"

definition hi_args :: "id option \<Rightarrow> id option \<Rightarrow> send_args" where
  "hi_args key parent =
     \<lparr>sa_workspaceId = None, sa_channelId = ''c'', sa_authorId = ''u'', sa_content = hi_text,
      sa_idempotencyKey = key, sa_nonce = None, sa_parent = parent, sa_attachmentIds = [],
      sa_hasMentionEveryone = False, sa_hasMentionChannel = False, sa_bulkConfirmed = False,
      sa_channelType = Some ''DIRECT'', sa_hint = None, sa_isBroadcast = False\<rparr>"

definition hi_content :: processed_content where
  "hi_content = \<lparr>pc_raw = hi_text, pc_ast = [Paragraph [TextNode hi_text []]], pc_plain = hi_text\<rparr>"

definition hi_prepared :: prepared where
  "hi_prepared = \<lparr>pr_processed = hi_content, pr_mentions = no_mentions\<rparr>"

lemma hi_parsed: "processMrkdwn never (\<lambda>_. 0) lr hi_text = Inr hi_content"
  by (simp add: processMrkdwn_def scan_defs hi_content_def hi_text_def bind_res_def
      enforceContentLength_def enforceAstByteSize_def MAX_PLAIN_LENGTH_def MAX_AST_BYTES_def)

lemma hi_normal: "normalizeMentions ascii_lower hi_text r [] = hi_text"
  by (simp add: normalizeMentions_def mention_eval user_edits_def hi_text_def)

lemma hi_prepare: "prepare_send (quiet_env i j now) (hi_args k p) = Inr hi_prepared"
  by (simp add: prepare_send_def hi_args_def extractMentions_def extractRoleMentions_def bind_res_def
      process_content_def hi_parsed hi_normal hi_prepared_def no_mentions_def gateBroad_def
      gateEveryoneMention_def gateHereMention_def gateChannelMention_def gateRoleMention_def guard_that_def
      resolveAllowedRoleMentions_def gatedRoleTokens_def with_hint_def)

lemma hi_check:
  "send_check (quiet_env i j now) (hi_args k p) st =
     bind_res (check_parent (hi_args k p) st) (\<lambda>_. Inr (hi_prepared, []))"
proof -
  have "check_attachments (hi_args k p) st = Inr []" by (simp add: check_attachments_def hi_args_def)
  then show ?thesis by (simp add: send_check_def hi_prepare bind_res_def)
qed

definition bot_row :: message_row where
  "bot_row = service_message (quiet_env ''r'' ''x'' 1) ''c'' ''b'' BOT DEFAULT hi_content"

definition reply_row :: message_row where
  "reply_row = new_message (quiet_env ''m'' ''y'' 2) (hi_args (Some ''k'') (Some ''r'')) hi_prepared []"

definition bot_store :: store where
  "bot_store = snd (createBotMessage (quiet_env ''r'' ''x'' 1) ''c'' ''b'' hi_text empty_store)"

definition reply_store :: store where
  "reply_store = snd (send_commit (quiet_env ''m'' ''y'' 2) (hi_args (Some ''k'') (Some ''r'')) hi_prepared [] bot_store)"

definition reply_pending :: "(send_args \<times> prepared \<times> attachment_kind list) list" where
  "reply_pending = [(hi_args (Some ''k'') (Some ''r''), hi_prepared, [])]"

definition reply_system :: msg_system where
  "reply_system = \<lparr>sys_store = reply_store, sys_pending = reply_pending\<rparr>"

lemma bot_tables: "st_messages bot_store = [bot_row]" "st_history bot_store = []" "st_idem bot_store = Map.empty"
  by (simp_all add: bot_store_def createBotMessage_def create_service_message_def hi_parsed bot_row_def
      record_outbox_def empty_store_def Let_def)

lemma bot_row_simps [simp]:
  "m_id bot_row = ''r''" "m_channelId bot_row = ''c''" "m_parent bot_row = None" "m_deletedAt bot_row = None"
  "m_replyCount bot_row = 0" "m_idempotencyKey bot_row = None" "m_latestReplyAt bot_row = None" "m_content bot_row = hi_text"
  by (simp_all add: bot_row_def service_message_def hi_content_def)

lemma reply_row_simps [simp]:
  "m_id reply_row = ''m''" "m_channelId reply_row = ''c''" "m_parent reply_row = Some ''r''" "m_deletedAt reply_row = None"
  "m_createdAt reply_row = 2" "m_version reply_row = 0" "m_replyCount reply_row = 0" "m_content reply_row = hi_text"
  "m_idempotencyKey reply_row = Some ''k''" "m_authorId reply_row = ''u''" "\<not> m_isBroadcast reply_row" "m_pinnedAt reply_row = None"
  by (simp_all add: reply_row_def hi_args_def)

lemma reply_sent:
  "fst (send_tx (quiet_env ''m'' ''y'' 2) (hi_args (Some ''k'') (Some ''r'')) hi_prepared [] bot_store) = Inr reply_row"
  by (simp add: send_tx_def Let_def recheck_parent_def hi_args_def find_message_def bot_tables bind_res_def insert_message_def
      reply_row_def)

lemma reply_tables:
  "st_messages reply_store = [bot_row\<lparr>m_replyCount := 1, m_latestReplyAt := Some 2\<rparr>, reply_row]"
  "st_history reply_store = []"
proof -
  let ?env = "quiet_env ''m'' ''y'' 2" and ?a = "hi_args (Some ''k'') (Some ''r'')"
  obtain st' where st': "send_tx ?env ?a hi_prepared [] bot_store = (Inr reply_row, st')"
    using reply_sent by (metis prod.collapse)
  then have "st_messages st' = sent_messages ?env ?a reply_row [bot_row]" "st_history st' = []"
    by (cases rule: send_tx_cases [of ?env ?a hi_prepared "[]" bot_store]; simp add: bot_tables reply_row_def)+
  with st' show "st_messages reply_store = [bot_row\<lparr>m_replyCount := 1, m_latestReplyAt := Some 2\<rparr>, reply_row]"
    "st_history reply_store = []"
    by (simp_all add: reply_store_def send_commit_def store_keeps sent_messages_def update_where_Cons
        update_where_def hi_args_def)
qed

lemma reply_reachable: "message_reachable bulk reply_system"
proof -
  let ?env = "quiet_env ''m'' ''y'' 2" and ?a = "hi_args (Some ''k'') (Some ''r'')"
  have "message_step bulk initial_system (with_store initial_system bot_store)"
    unfolding bot_store_def createBotMessage_def
    using message_step.service [of "quiet_env ''r'' ''x'' 1" initial_system bulk]
    by (simp add: initial_system_def fresh_ids_def empty_store_def)
  moreover have "send_check ?env ?a bot_store = Inr (hi_prepared, [])"
    unfolding hi_check by (simp add: check_parent_def hi_args_def find_live_def bot_tables guard_that_def bind_res_def)
  then have "message_step bulk (with_store initial_system bot_store) \<lparr>sys_store = bot_store, sys_pending = reply_pending\<rparr>"
    using message_step.begin_send [of ?env ?a "with_store initial_system bot_store" hi_prepared "[]" bulk]
    by (simp add: with_store_def initial_system_def reply_pending_def)
  moreover have "message_step bulk \<lparr>sys_store = bot_store, sys_pending = reply_pending\<rparr> reply_system"
    using message_step.commit_send [of ?a hi_prepared "[]" "\<lparr>sys_store = bot_store, sys_pending = reply_pending\<rparr>" ?env bulk]
    by (simp add: reply_pending_def fresh_ids_def bot_tables with_store_def reply_system_def reply_store_def)
  ultimately show ?thesis by (meson converse_rtranclp_into_rtranclp rtranclp.rtrancl_refl)
qed

section \<open>The tables\<close>

text \<open>C31: in every state the writes can reach, with any interleaving of the checks and the
  transactions of sends, the message table is well-formed: ids are unique, an author's idempotency
  key belongs to one message, a reply hangs under a root of its own channel (threads have one
  level), a deleted message is not pinned, and no channel has more live pins than the cap.\<close>

theorem message_tables_well_formed:
  assumes "message_reachable bulk s"
  shows "distinct (map m_id (st_messages (sys_store s))) \<and> keys_unique (st_messages (sys_store s))
    \<and> (\<forall>m \<in> set (st_messages (sys_store s)). \<forall>p. m_parent m = Some p \<longrightarrow>
         (\<exists>r \<in> set (st_messages (sys_store s)). m_id r = p \<and> m_parent r = None \<and> m_channelId r = m_channelId m))
    \<and> (\<forall>m \<in> set (st_messages (sys_store s)). m_deletedAt m \<noteq> None \<longrightarrow> m_pinnedAt m = None)
    \<and> (\<forall>ch. length (live_pins (st_messages (sys_store s)) ch) \<le> HARD_PIN_CAP)"
  using system_okD [OF reachable_ok [OF assms]]
  unfolding table_ok_def ids_ok_def parents_ok_def pins_ok_def by blast

theorem message_tables_well_formed_witness:
  "reply_row \<in> set (st_messages (sys_store reply_system))
   \<and> (\<exists>r \<in> set (st_messages (sys_store reply_system)). m_id r = ''r'' \<and> m_parent r = None \<and> m_channelId r = ''c'')"
proof -
  have m: "reply_row \<in> set (st_messages (sys_store reply_system))"
    by (simp add: reply_system_def reply_tables)
  from message_tables_well_formed [OF reply_reachable] have "\<forall>m \<in> set (st_messages (sys_store reply_system)).
      \<forall>p. m_parent m = Some p \<longrightarrow> (\<exists>r \<in> set (st_messages (sys_store reply_system)). m_id r = p \<and> m_parent r = None \<and> m_channelId r = m_channelId m)"
    by blast
  from this [rule_format, OF m, of "''r''"] m show ?thesis by simp
qed

end
