(* ===== verification/Message_Counts.thy ===== *)
theory Message_Counts
  imports Message_Invariants
begin

text \<open>
  The denormalised \<open>replyCount\<close> of a thread root against the replies in the table: exact while no
  bulk deletion runs, never too low with bulk deletions, and exact again after \<open>reconcile\<close>.
\<close>

section \<open>Reply counters\<close>

definition count_ok :: "bool \<Rightarrow> message_row list \<Rightarrow> message_row \<Rightarrow> bool" where
  "count_ok bulk ms m \<longleftrightarrow>
     int (length (live_replies ms (m_id m))) \<le> m_replyCount m
     \<and> m_replyCount m \<le> int (length (reply_rows ms (m_id m)))
     \<and> (\<not> bulk \<longrightarrow> m_replyCount m = int (length (live_replies ms (m_id m))))"

definition counts_ok :: "bool \<Rightarrow> message_row list \<Rightarrow> bool" where
  "counts_ok bulk ms \<longleftrightarrow> (\<forall>m \<in> set ms. m_deletedAt m = None \<longrightarrow> count_ok bulk ms m)"

lemma counts_okD: "counts_ok bulk ms \<Longrightarrow> m \<in> set ms \<Longrightarrow> m_deletedAt m = None \<Longrightarrow> count_ok bulk ms m"
  by (simp add: counts_ok_def)

lemma live_le_all: "length (live_replies ms i) \<le> length (reply_rows ms i)"
  unfolding live_replies_def reply_rows_def by (induction ms) auto

lemma replies_append [simp]:
  "live_replies (xs @ ys) i = live_replies xs i @ live_replies ys i"
  "reply_rows (xs @ ys) i = reply_rows xs i @ reply_rows ys i"
  by (simp_all add: live_replies_def reply_rows_def)

lemma reply_rows_update:
  assumes "identity_kept f"
  shows "length (reply_rows (update_where p f ms) i) = length (reply_rows ms i)"
  unfolding reply_rows_def using assms by (intro filter_update_same) (simp add: identity_kept_def)

lemma live_replies_update:
  assumes "identity_kept f" and "\<And>m. m_deletedAt (f m) = m_deletedAt m"
  shows "length (live_replies (update_where p f ms) i) = length (live_replies ms i)"
  unfolding live_replies_def using assms by (intro filter_update_same) (simp add: identity_kept_def)

lemma no_replies:
  assumes "table_ok ms" and "i \<notin> m_id ` set ms"
  shows "reply_rows ms i = []" "live_replies ms i = []"
proof -
  have "m_parent m \<noteq> Some i" if "m \<in> set ms" for m
    using table_okD(3) [OF assms(1)] that assms(2) unfolding parents_ok_def by blast
  then show "reply_rows ms i = []" "live_replies ms i = []"
    by (simp_all add: reply_rows_def live_replies_def filter_empty_conv)
qed

lemma counts_update:
  assumes "counts_ok bulk ms" and "identity_kept f" and "\<And>m. m_deletedAt (f m) = m_deletedAt m"
    and "\<And>m. m_replyCount (f m) = m_replyCount m"
  shows "counts_ok bulk (update_where p f ms)"
  unfolding counts_ok_def
proof (intro ballI impI)
  fix x assume "x \<in> set (update_where p f ms)" "m_deletedAt x = None"
  then obtain n where n: "n \<in> set ms" "x = (if p n then f n else n)" by (auto simp: set_update_where)
  with assms have "m_id x = m_id n" "m_replyCount x = m_replyCount n" "m_deletedAt x = m_deletedAt n"
    by (simp_all add: identity_kept_def)
  with counts_okD [OF assms(1) n(1)] \<open>m_deletedAt x = None\<close> show "count_ok bulk (update_where p f ms) x"
    by (simp add: count_ok_def reply_rows_update live_replies_update assms(2,3))
qed

lemma counts_append:
  assumes "counts_ok bulk ms" and "table_ok ms" and "m_id m \<notin> m_id ` set ms" and "m_parent m = None" and "m_replyCount m = 0"
  shows "counts_ok bulk (ms @ [m])"
proof -
  have "reply_rows (ms @ [m]) i = reply_rows ms i" "live_replies (ms @ [m]) i = live_replies ms i" for i
    using assms(4) by (simp_all add: live_replies_def reply_rows_def)
  with assms(1,5) no_replies [OF assms(2,3)] show ?thesis by (auto simp: counts_ok_def count_ok_def)
qed

text \<open>A reply adds one to the live replies of its root, which is not a new row.\<close>

lemma sent_replies:
  assumes "m_parent m = Some p" and "\<not> m_isBroadcast m" and "m_deletedAt m = None"
  shows "length (live_replies (sent_messages env a m ms) i) = length (live_replies ms i) + (if i = p then 1 else 0)"
    "length (reply_rows (sent_messages env a m ms) i) = length (reply_rows ms i) + (if i = p then 1 else 0)"
proof -
  have b: "live_replies (if c then [broadcast_message env a m] else []) i = []"
    "reply_rows (if c then [broadcast_message env a m] else []) i = []" for c
    by (simp_all add: live_replies_def reply_rows_def)
  have "length (live_replies (bumped p t (ms @ [m])) i) = length (live_replies (ms @ [m]) i)"
    "length (reply_rows (bumped p t (ms @ [m])) i) = length (reply_rows (ms @ [m]) i)" for t
    by (rule live_replies_update, rule bump_keeps_identity, simp) (rule reply_rows_update, rule bump_keeps_identity)
  with assms b show
    "length (live_replies (sent_messages env a m ms) i) = length (live_replies ms i) + (if i = p then 1 else 0)"
    "length (reply_rows (sent_messages env a m ms) i) = length (reply_rows ms i) + (if i = p then 1 else 0)"
    by (simp_all add: sent_messages_def) (simp_all add: live_replies_def reply_rows_def)
qed

lemma sent_counts:
  assumes "counts_ok bulk ms" and "table_ok ms" and "m_id m \<notin> m_id ` set ms" and "m_replyCount m = 0"
    and "\<not> m_isBroadcast m" and "m_deletedAt m = None" and "en_newId2 env \<notin> m_id ` set ms"
    and "\<And>p. m_parent m = Some p \<Longrightarrow> p \<in> m_id ` set ms"
  shows "counts_ok bulk (sent_messages env a m ms)"
proof (cases "m_parent m")
  case None
  with assms show ?thesis by (simp add: sent_messages_def counts_append)
next
  case (Some p)
  note grown = sent_replies [OF Some assms(5,6)]
  show ?thesis
    unfolding counts_ok_def
  proof (intro ballI impI)
    fix x assume x: "x \<in> set (sent_messages env a m ms)" "m_deletedAt x = None"
    have new: "count_ok bulk (sent_messages env a m ms) y" if "m_id y \<notin> m_id ` set ms" "m_replyCount y = 0" for y
    proof -
      from that(1) assms(8) [OF Some] have "m_id y \<noteq> p" by auto
      with that no_replies [OF assms(2) that(1)] show ?thesis by (simp add: count_ok_def grown)
    qed
    from x(1) Some consider (old) n where "n \<in> set ms" "m_id x = m_id n" "m_deletedAt x = m_deletedAt n"
        "m_replyCount x = m_replyCount n + (if m_id n = p \<and> m_deletedAt n = None then 1 else 0)"
      | (created) "m_id x = m_id m" "m_replyCount x = 0 \<or> m_id m = p"
      | (copy) "x = broadcast_message env a m"
      by (auto simp: sent_messages_def set_update_where assms(4) split: if_splits)
    then show "count_ok bulk (sent_messages env a m ms) x"
    proof cases
      case old
      with counts_okD [OF assms(1) old(1)] x(2) show ?thesis by (auto simp: count_ok_def grown)
    next
      case created
      then show ?thesis using new assms(3) assms(8) [OF Some] by auto
    next
      case copy
      then show ?thesis using new assms(4,7) by simp
    qed
  qed
qed

lemma softDelete_live:
  assumes "table_ok ms" and "before \<in> set ms" and "m_id before = da_msgId a" and "m_channelId before = da_channelId a"
    and "m_deletedAt before = None"
  shows "length (live_replies (deleted_here now a ms) i)
         + (if m_parent before = Some i \<and> \<not> m_isBroadcast before then 1 else 0) = length (live_replies ms i)"
proof -
  have one: "m_id m = m_id before" if "m \<in> set ms" "m_id m = da_msgId a \<and> m_channelId m = da_channelId a \<and> m_deletedAt m = None" for m
    using that assms(3) by simp
  from filter_update_one [where Q = "\<lambda>m. m_parent m = Some i \<and> \<not> m_isBroadcast m \<and> m_deletedAt m = None"
      and f = "soft_deleted_row now", OF _ assms(2) _ one] assms(3-5) table_okD(1) [OF assms(1)]
  show ?thesis unfolding live_replies_def ids_ok_def by (simp add: soft_deleted_row_def)
qed

lemma deleted_here_rows:
  assumes "x \<in> set (deleted_here now a ms)" and "m_deletedAt x = None"
  shows "x \<in> set ms"
  using assms by (auto simp: set_update_where soft_deleted_row_def split: if_splits)

lemma softDelete_counts:
  assumes "counts_ok bulk (st_messages st)" and "table_ok (st_messages st)"
  shows "counts_ok bulk (st_messages (snd (softDelete now a st)))"
proof (cases "find_live st (da_msgId a) (da_channelId a)")
  case None
  with assms show ?thesis by (simp add: softDelete_messages)
next
  case (Some before)
  let ?ms = "deleted_here now a (st_messages st)"
  note live = softDelete_live [OF assms(2) find_live_Some [OF Some], of now]
  have all: "length (reply_rows ?ms i) = length (reply_rows (st_messages st) i)" for i
    by (rule reply_rows_update) (simp add: row_edits)
  show ?thesis
  proof (cases "m_parent before = None \<or> m_isBroadcast before")
    case True
    then have "length (live_replies ?ms i) = length (live_replies (st_messages st) i)" for i using live [of i] by auto
    with all assms(1) have "counts_ok bulk ?ms" by (auto simp: counts_ok_def count_ok_def dest: deleted_here_rows)
    with Some True show ?thesis by (auto simp: softDelete_messages split: option.splits)
  next
    case False
    then obtain p where p: "m_parent before = Some p" "\<not> m_isBroadcast before" by auto
    let ?ms' = "update_where (\<lambda>m. m_id m = p \<and> m_deletedAt m = None)
                  (\<lambda>m. m\<lparr>m_replyCount := max 0 (m_replyCount m - 1)\<rparr>) ?ms"
    have "counts_ok bulk ?ms'"
      unfolding counts_ok_def
    proof (intro ballI impI)
      fix x assume "x \<in> set ?ms'" "m_deletedAt x = None"
      then obtain n where n: "n \<in> set ?ms" "m_deletedAt n = None" "m_id x = m_id n"
          "m_replyCount x = (if m_id n = p then max 0 (m_replyCount n - 1) else m_replyCount n)"
        by (elim update_whereE [of x]) (simp split: if_splits)
      have same: "length (live_replies ?ms' i) = length (live_replies ?ms i)"
        "length (reply_rows ?ms' i) = length (reply_rows (st_messages st) i)" for i
        by (simp_all add: live_replies_update reply_rows_update all row_edits)
      from counts_okD [OF assms(1) deleted_here_rows [OF n(1,2)] n(2)] live [of "m_id n"] p n(3,4) same
      show "count_ok bulk ?ms' x" by (cases "m_id n = p") (auto simp: count_ok_def)
    qed
    with Some p show ?thesis by (simp add: softDelete_messages drop_reply_messages)
  qed
qed

lemma bulkDelete_counts:
  assumes "counts_ok True (st_messages st)"
  shows "counts_ok True (st_messages (snd (bulkDelete now a st)))"
proof -
  let ?ms = "update_where (bulk_hit a st) (soft_deleted_row now) (st_messages st)"
  have "length (live_replies ?ms i) \<le> length (live_replies (st_messages st) i)" for i
    unfolding live_replies_def by (rule filter_update_le) (simp add: soft_deleted_row_def)
  moreover have "length (reply_rows ?ms i) = length (reply_rows (st_messages st) i)" for i
    by (rule reply_rows_update) (simp add: row_edits)
  moreover have "x \<in> set (st_messages st)" if "x \<in> set ?ms" "m_deletedAt x = None" for x
    using that by (auto simp: set_update_where soft_deleted_row_def split: if_splits)
  ultimately have "count_ok True ?ms x" if "x \<in> set ?ms" "m_deletedAt x = None" for x
    using counts_okD [OF assms, of x] that by (auto simp: count_ok_def intro: order_trans [OF of_nat_mono])
  then have "counts_ok True ?ms" by (simp add: counts_ok_def)
  with assms bulkDelete_messages(1) [of now a st] show ?thesis by metis
qed

lemma pin_counts:
  assumes "counts_ok bulk (st_messages st)" and "table_ok (st_messages st)" and "en_newId env \<notin> m_id ` set (st_messages st)"
  shows "counts_ok bulk (st_messages (snd (pin env text a st)))"
proof (cases rule: pin_tables [of env "text" a st])
  case none
  with assms show ?thesis by simp
next
  case (some target)
  let ?st1 = "set_pin a (Some (en_now env, pa_actorId a)) st"
  have c: "counts_ok bulk (st_messages ?st1)"
    unfolding set_pin_messages by (rule counts_update [OF assms(1)]) (simp_all add: row_edits)
  have k: "keeps_tables (st_messages st) (st_messages ?st1)"
    by (rule set_pin_keeps [OF assms(2) some(1-3)])
  have "m_id ` set (st_messages ?st1) = m_id ` set (st_messages st)"
    unfolding set_pin_messages set_map [symmetric] by (subst map_stable) (simp_all add: row_edits)
  with c k assms(3) have "counts_ok bulk (st_messages (snd (insertPinSystemMessage env (pa_channelId a) (pa_actorId a) text ?st1)))"
    unfolding insertPinSystemMessage_def
    by (cases rule: service_tables [of env "pa_channelId a" "pa_actorId a" SYSTEM SYSTEM_PIN "text" ?st1])
      (simp_all add: counts_append keeps_tables_def)
  with some(4) show ?thesis by (simp add: Let_def)
qed

lemma reconcile_replies:
  "length (live_replies (st_messages (snd (reconcile st))) i) = length (live_replies (st_messages st) i)"
  "length (reply_rows (st_messages (snd (reconcile st))) i) = length (reply_rows (st_messages st) i)"
  unfolding reconcile_messages
  by (rule live_replies_update, simp_all add: row_edits) (rule reply_rows_update, simp add: row_edits)

lemma reconcile_exact:
  assumes "counts_ok bulk (st_messages st)"
  shows "counts_ok False (st_messages (snd (reconcile st)))"
  unfolding counts_ok_def
proof (intro ballI impI)
  fix x assume x: "x \<in> set (st_messages (snd (reconcile st)))" "m_deletedAt x = None"
  then obtain n where n: "n \<in> set (st_messages st)" "m_id x = m_id n" "m_deletedAt n = None"
    "m_replyCount x = (if reply_rows (st_messages st) (m_id n) \<noteq> []
         then int (length (live_replies (st_messages st) (m_id n))) else m_replyCount n)"
    unfolding reconcile_messages by (elim update_whereE [of x]) (auto split: if_splits)
  from counts_okD [OF assms n(1,3)] live_le_all [of "st_messages st" "m_id n"] n
  show "count_ok False (st_messages (snd (reconcile st))) x"
    by (cases "reply_rows (st_messages st) (m_id n) = []") (auto simp: count_ok_def reconcile_replies)
qed

lemma counts_weaken: "counts_ok False ms \<Longrightarrow> counts_ok bulk ms"
  by (auto simp: counts_ok_def count_ok_def live_le_all)

lemma send_commit_counts:
  assumes "counts_ok bulk (st_messages st)" and "table_ok (st_messages st)" and "fresh_ids env st"
    and "\<And>p. sa_parent a = Some p \<Longrightarrow> (p, sa_channelId a) \<in> thread_roots (st_messages st)"
  shows "counts_ok bulk (st_messages (snd (send_commit env a pr kinds st)))"
proof (cases rule: send_commit_tables [of env a pr kinds st])
  case same
  with assms(1) show ?thesis by simp
next
  case (sent content)
  have "counts_ok bulk (sent_messages env a (new_message env a pr kinds) (st_messages st))"
  proof (rule sent_counts [OF assms(1,2)])
    show "p \<in> m_id ` set (st_messages st)" if "m_parent (new_message env a pr kinds) = Some p" for p
      using assms(4) [of p] that by (auto elim: thread_rootsE)
  qed (use assms(3) in \<open>simp_all add: fresh_ids_def\<close>)
  with sent(3) show ?thesis by simp
qed

lemma update_tx_counts: "counts_ok bulk (st_messages st) \<Longrightarrow> counts_ok bulk (st_messages (snd (update_tx env ua pr st)))"
  unfolding update_tx_messages by (rule counts_update) (simp_all add: row_edits)

lemma service_counts:
  assumes "counts_ok bulk (st_messages st)" and "table_ok (st_messages st)" and "en_newId env \<notin> m_id ` set (st_messages st)"
  shows "counts_ok bulk (st_messages (snd (create_service_message env ch actor author ty content st)))"
  using assms by (cases rule: service_tables [of env ch actor author ty content st]) (simp_all add: counts_append)

lemma unpin_counts:
  assumes "counts_ok bulk (st_messages st)"
  shows "counts_ok bulk (st_messages (snd (unpin a st)))"
proof -
  have "counts_ok bulk (st_messages (set_pin a None st))"
    unfolding set_pin_messages by (rule counts_update [OF assms]) (simp_all add: row_edits)
  with assms show ?thesis by (auto simp: unpin_def store_keeps split: option.splits)
qed

lemma setThreadLock_counts:
  assumes "counts_ok bulk (st_messages st)"
  shows "counts_ok bulk (st_messages (snd (setThreadLock ch rid locked st)))"
  using assms counts_update [OF assms, where f = "\<lambda>m. m\<lparr>m_threadLocked := locked\<rparr>"]
  by (auto simp: setThreadLock_def store_keeps row_edits split: option.splits)

lemma message_step_counts:
  assumes "message_step bulk s s'" and "system_ok s" and "counts_ok bulk (st_messages (sys_store s))"
  shows "counts_ok bulk (st_messages (sys_store s'))"
  using assms(1)
proof (cases rule: message_step.cases)
  case (commit_send a pr kinds env)
  have "counts_ok bulk (st_messages (snd (send_commit env a pr kinds (sys_store s))))"
    by (rule send_commit_counts) (use commit_send assms(2,3) in \<open>auto simp: system_ok_def\<close>)
  with commit_send show ?thesis by (simp add: with_store_def)
next
  case recount
  with reconcile_exact [OF assms(3)] show ?thesis by (simp add: with_store_def counts_weaken)
next
  case (delete_bulk now ba)
  then show ?thesis using assms(3) bulkDelete_counts by (simp add: with_store_def)
qed (use assms(3) system_okD [OF assms(2)] in \<open>simp_all add: with_store_def fresh_ids_def update_tx_counts
      softDelete_counts service_counts pin_counts unpin_counts setThreadLock_counts\<close>)

lemma reachable_counts: "message_reachable bulk s \<Longrightarrow> counts_ok bulk (st_messages (sys_store s))"
proof (induction rule: rtranclp_induct)
  case base
  show ?case by (simp add: initial_system_def empty_store_def counts_ok_def)
next
  case (step y z)
  then show ?case using message_step_counts reachable_ok by blast
qed

text \<open>The reply counter of a live root is never below the number of its live replies, and
  equal to it as long as no bulk deletion runs; a bulk deletion may leave it too high.\<close>

lemma reply_counter_follows_replies:
  assumes "message_reachable bulk s" and "m \<in> set (st_messages (sys_store s))" and "m_deletedAt m = None"
  shows "int (length (live_replies (st_messages (sys_store s)) (m_id m))) \<le> m_replyCount m
    \<and> (bulk \<or> m_replyCount m = int (length (live_replies (st_messages (sys_store s)) (m_id m))))"
  using counts_okD [OF reachable_counts [OF assms(1)] assms(2,3)] by (auto simp: count_ok_def)

text \<open>After the hourly recount the counter of every live root is the number of its live
  replies again, whatever happened before, bulk deletions included.\<close>

lemma reconcile_restores_counters:
  assumes "message_reachable bulk s" and "m \<in> set (st_messages (snd (reconcile (sys_store s))))" and "m_deletedAt m = None"
  shows "m_replyCount m = int (length (live_replies (st_messages (snd (reconcile (sys_store s)))) (m_id m)))"
  using counts_okD [OF reconcile_exact [OF reachable_counts [OF assms(1)]] assms(2,3)] by (simp add: count_ok_def)

text \<open>The drift: a bulk deletion of the only reply leaves the counter of its root at one.\<close>

definition clear_replies :: bulk_args where
  "clear_replies = \<lparr>ba_channelId = ''c'', ba_actorId = ''a'', ba_messageIds = Some [''m''], ba_latest = None\<rparr>"

definition drifted_store :: store where
  "drifted_store = snd (bulkDelete 5 clear_replies reply_store)"

lemma drifted_tables:
  "st_messages drifted_store =
     [bot_row\<lparr>m_replyCount := 1, m_latestReplyAt := Some 2\<rparr>, soft_deleted_row 5 reply_row]"
  by (simp add: drifted_store_def bulkDelete_def Let_def clear_replies_def BULK_DELETE_MAX_def bulk_targets_def
      reply_tables store_keeps update_where_Cons update_where_def)

lemma bulk_delete_drifts:
  "map m_replyCount (st_messages drifted_store) = [1, 0] \<and> live_replies (st_messages drifted_store) ''r'' = []"
  by (simp add: drifted_tables live_replies_def soft_deleted_row_def)

lemma drifted_reachable: "message_reachable True (with_store reply_system drifted_store)"
proof -
  have "message_step True reply_system (with_store reply_system (snd (bulkDelete 5 clear_replies (sys_store reply_system))))"
    by (rule message_step.delete_bulk) simp
  then have "message_step True reply_system (with_store reply_system drifted_store)"
    by (simp add: drifted_store_def reply_system_def)
  with reply_reachable show ?thesis by (rule rtranclp.rtrancl_into_rtrancl)
qed

lemma reply_counter_follows_replies_example:
  "int (length (live_replies (st_messages reply_store) ''r'')) = 1"
proof -
  have "bot_row\<lparr>m_replyCount := 1, m_latestReplyAt := Some 2\<rparr> \<in> set (st_messages (sys_store reply_system))"
    by (simp add: reply_system_def reply_tables)
  from reply_counter_follows_replies [OF reply_reachable [of False] this] show ?thesis by (simp add: reply_system_def)
qed

lemma reconcile_restores_counters_example:
  "m_replyCount (bot_row\<lparr>m_replyCount := 0, m_latestReplyAt := Some 2\<rparr>)
     = int (length (live_replies (st_messages (snd (reconcile drifted_store))) ''r''))"
proof -
  have "bot_row\<lparr>m_replyCount := 0, m_latestReplyAt := Some 2\<rparr>
      \<in> set (st_messages (snd (reconcile (sys_store (with_store reply_system drifted_store)))))"
    by (simp add: with_store_def reconcile_messages drifted_tables update_where_Cons update_where_def
        reply_rows_def live_replies_def soft_deleted_row_def)
  from reconcile_restores_counters [OF drifted_reachable this] show ?thesis by (simp add: with_store_def)
qed

end
