(* ===== verification/Message_History.thy ===== *)
theory Message_History
  imports Message_Invariants
begin

text \<open>
  Editing: the outcome of the optimistic lock of \<open>update\<close>, and the ring of at most ten former
  versions that \<open>messages.service.ts\<close> keeps of a message and \<open>listEditHistory\<close> returns.
\<close>

section \<open>The ring\<close>

definition kept_versions :: "nat \<Rightarrow> nat list" where
  \<comment> \<open>the versions before the current one, the last ten of them\<close>
  "kept_versions v = [v - EDIT_HISTORY_CAP ..< v]"

definition history_ok :: "store \<Rightarrow> bool" where
  "history_ok st \<longleftrightarrow> distinct (map h_id (st_history st))
     \<and> (\<forall>h \<in> set (st_history st). h_messageId h \<in> m_id ` set (st_messages st))
     \<and> (\<forall>m \<in> set (st_messages st).
          map h_version (versions_of (m_id m) (st_history st)) = kept_versions (m_version m))"

lemma history_okD:
  assumes "history_ok st"
  shows "distinct (map h_id (st_history st))"
    "\<And>h. h \<in> set (st_history st) \<Longrightarrow> h_messageId h \<in> m_id ` set (st_messages st)"
    "\<And>m. m \<in> set (st_messages st) \<Longrightarrow> map h_version (versions_of (m_id m) (st_history st)) = kept_versions (m_version m)"
  using assms by (simp_all add: history_ok_def)

lemma no_versions:
  assumes "history_ok st" and "i \<notin> m_id ` set (st_messages st)"
  shows "versions_of i (st_history st) = []"
  using history_okD(2) [OF assms(1)] assms(2) unfolding versions_of_def by (auto simp: filter_empty_conv)

text \<open>A step that leaves the history, keeps the version of every row it changes and adds rows
  of version 0 under new ids.\<close>

definition versions_kept :: "message_row list \<Rightarrow> message_row list \<Rightarrow> bool" where
  "versions_kept ms ms' \<longleftrightarrow> m_id ` set ms \<subseteq> m_id ` set ms'
     \<and> (\<forall>x \<in> set ms'. (\<exists>n \<in> set ms. m_id n = m_id x \<and> m_version n = m_version x \<and> m_channelId n = m_channelId x)
          \<or> m_id x \<notin> m_id ` set ms \<and> m_version x = 0)"

lemma versions_kept_refl: "versions_kept ms ms"
  unfolding versions_kept_def by blast

lemma versions_kept_ids: "versions_kept ms ms' \<Longrightarrow> m_id ` set ms \<subseteq> m_id ` set ms'"
  by (simp add: versions_kept_def)

lemma versions_kept_cases:
  assumes "versions_kept ms ms'" and "x \<in> set ms'"
  obtains (old) n where "n \<in> set ms" "m_id n = m_id x" "m_version n = m_version x" "m_channelId n = m_channelId x"
    | (new) "m_id x \<notin> m_id ` set ms" "m_version x = 0"
proof -
  from assms have "(\<exists>n \<in> set ms. m_id n = m_id x \<and> m_version n = m_version x \<and> m_channelId n = m_channelId x)
      \<or> m_id x \<notin> m_id ` set ms \<and> m_version x = 0" by (simp add: versions_kept_def)
  with old new show ?thesis by (elim disjE bexE conjE)
qed

lemma versions_kept_trans:
  assumes "versions_kept a b" and "versions_kept b c"
  shows "versions_kept a c"
  unfolding versions_kept_def
proof (intro conjI ballI)
  show "m_id ` set a \<subseteq> m_id ` set c" using assms [THEN versions_kept_ids] by (rule order_trans)
  fix x assume "x \<in> set c"
  with assms(2) show "(\<exists>n \<in> set a. m_id n = m_id x \<and> m_version n = m_version x \<and> m_channelId n = m_channelId x)
      \<or> m_id x \<notin> m_id ` set a \<and> m_version x = 0"
  proof (cases rule: versions_kept_cases)
    case (old n)
    with assms(1) old(1) show ?thesis
      by (elim versions_kept_cases [of a b n]) auto
  next
    case new
    with versions_kept_ids [OF assms(1)] show ?thesis by auto
  qed
qed

lemma versions_kept_update:
  assumes "identity_kept f" and "\<And>m. m_version (f m) = m_version m"
  shows "versions_kept ms (update_where p f ms)"
  unfolding versions_kept_def
proof (intro conjI ballI)
  show "m_id ` set ms \<subseteq> m_id ` set (update_where p f ms)"
    unfolding set_map [symmetric] by (simp add: map_stable [OF assms(1)])
  fix x assume "x \<in> set (update_where p f ms)"
  then obtain n where "n \<in> set ms" "x = (if p n then f n else n)" by (rule update_whereE)
  with assms show "(\<exists>n \<in> set ms. m_id n = m_id x \<and> m_version n = m_version x \<and> m_channelId n = m_channelId x)
      \<or> m_id x \<notin> m_id ` set ms \<and> m_version x = 0"
    by (intro disjI1 bexI [of _ n]) (simp_all add: identity_kept_def)
qed

lemma versions_kept_append:
  "m_id m \<notin> m_id ` set ms \<Longrightarrow> m_version m = 0 \<Longrightarrow> versions_kept ms (ms @ [m])"
  unfolding versions_kept_def by auto

lemma history_ok_step:
  assumes "history_ok st" and "versions_kept (st_messages st) (st_messages st')" and "st_history st' = st_history st"
  shows "history_ok st'"
  unfolding history_ok_def assms(3)
proof (intro conjI ballI)
  show "distinct (map h_id (st_history st))" by (rule history_okD [OF assms(1)])
  show "h_messageId h \<in> m_id ` set (st_messages st')" if "h \<in> set (st_history st)" for h
    using history_okD(2) [OF assms(1) that] versions_kept_ids [OF assms(2)] by (rule rev_subsetD)
  fix x assume "x \<in> set (st_messages st')"
  with assms(2) show "map h_version (versions_of (m_id x) (st_history st)) = kept_versions (m_version x)"
  proof (cases rule: versions_kept_cases)
    case (old n)
    then show ?thesis using history_okD(3) [OF assms(1) old(1)] by simp
  next
    case new
    then show ?thesis using no_versions [OF assms(1) new(1)] by (simp add: kept_versions_def)
  qed
qed

text \<open>Appending a version and cutting the list back to ten moves the ring by one.\<close>

lemma versions_append: "versions_of i (hs @ [h]) = versions_of i hs @ (if h_messageId h = i then [h] else [])"
  by (simp add: versions_of_def)

lemma versions_delete:
  "versions_of i (delete_where q hs) = filter (\<lambda>h. \<not> q h) (versions_of i hs)"
  unfolding versions_of_def delete_where_def by (simp add: filter_filter conj_commute)

lemma sorted_ring: "map h_version hs = [a..<b] \<Longrightarrow> sort_key h_version hs = hs"
  by (rule sort_key_id_if_sorted) (simp only: sorted_upt)

lemma cap_history_ring:
  assumes "distinct (map h_id hs)" and "map h_version (versions_of i hs) = [v - EDIT_HISTORY_CAP ..< Suc v]"
  shows "versions_of i (cap_history i hs) = drop (length (versions_of i hs) - EDIT_HISTORY_CAP) (versions_of i hs)"
    and "\<And>j. j \<noteq> i \<Longrightarrow> versions_of j (cap_history i hs) = versions_of j hs"
    and "distinct (map h_id (cap_history i hs))" and "set (cap_history i hs) \<subseteq> set hs"
proof -
  let ?vs = "versions_of i hs"
  let ?n = "length ?vs - EDIT_HISTORY_CAP"
  let ?old = "take ?n ?vs"
  have cap: "cap_history i hs = (if ?n = 0 then hs else delete_where (\<lambda>h. h_id h \<in> set (map h_id ?old)) hs)"
    using sorted_ring [OF assms(2)] by (auto simp: cap_history_def Let_def)
  have sub: "set ?vs \<subseteq> set hs" by (auto simp: versions_of_def)
  have inj: "x = y" if "x \<in> set hs" "y \<in> set hs" "h_id x = h_id y" for x y
    using assms(1) that by (auto simp: distinct_map dest: inj_onD)
  have dist: "distinct ?vs" using assms(1) unfolding versions_of_def by (simp add: distinct_map distinct_filter)
  have hit: "h_id h \<in> set (map h_id ?old) \<longleftrightarrow> h \<in> set ?old" if "h \<in> set hs" for h
    using that inj sub by (auto dest: in_set_takeD)
  have "filter (\<lambda>h. \<not> h_id h \<in> set (map h_id ?old)) ?vs = filter (\<lambda>h. h \<notin> set ?old) ?vs"
    using hit sub by (intro filter_cong) auto
  also have "\<dots> = filter (\<lambda>h. h \<notin> set ?old) (?old @ drop ?n ?vs)" by simp
  also have "\<dots> = drop ?n ?vs"
    using dist unfolding filter_append by (metis (no_types, lifting) append_take_drop_id distinct_append filter_False filter_True disjoint_iff append_Nil)
  finally show "versions_of i (cap_history i hs) = drop ?n ?vs" by (simp add: cap versions_delete)
  show "versions_of j (cap_history i hs) = versions_of j hs" if "j \<noteq> i" for j
  proof -
    have "h_id h \<notin> set (map h_id ?old)" if "h \<in> set (versions_of j hs)" for h
      using that hit [of h] \<open>j \<noteq> i\<close> by (auto simp: versions_of_def dest: in_set_takeD)
    then show ?thesis by (simp add: cap versions_delete filter_id_conv)
  qed
  show "distinct (map h_id (cap_history i hs))" "set (cap_history i hs) \<subseteq> set hs"
    using assms(1) by (auto simp: cap db_simps)
qed

lemma find_edit:
  assumes "find (edit_matches a) (st_messages st) = Some before"
  shows "before \<in> set (st_messages st)" "edit_matches a before"
  using assms by (auto simp: find_Some_iff)

lemma drop_ring: "drop (length [v - c ..< Suc v] - c) [v - c ..< Suc v] = [Suc v - c ..< Suc v]"
  by (simp only: length_upt drop_upt) (cases "c \<le> v"; simp add: Suc_diff_le del: upt_Suc)

lemma update_tx_history:
  assumes "history_ok st" and "ids_ok (st_messages st)" and "fresh_ids env st"
  shows "history_ok (snd (update_tx env ua pr st))"
proof (cases "find (edit_matches ua) (st_messages st)")
  case None
  with assms(1) show ?thesis by (auto simp: update_tx_def split: option.splits)
next
  case (Some before)
  let ?st = "snd (update_tx env ua pr st)"
  let ?hs = "st_history st @ [history_of env before]"
  note b = find_edit [OF Some]
  have i: "m_id before = ua_msgId ua" using b(2) by (simp add: edit_matches_def)
  have h: "h_messageId (history_of env before) = ua_msgId ua" "h_version (history_of env before) = m_version before"
    "h_id (history_of env before) = en_newId env" by (simp_all add: history_of_def i)
  have hs: "st_history ?st = cap_history (ua_msgId ua) ?hs"
    using Some by (simp add: update_tx_def Let_def store_keeps)
  have dist: "distinct (map h_id ?hs)" using history_okD(1) [OF assms(1)] assms(3) h(3) by (auto simp: fresh_ids_def)
  have vs: "map h_version (versions_of (ua_msgId ua) ?hs) = [m_version before - EDIT_HISTORY_CAP ..< Suc (m_version before)]"
    using history_okD(3) [OF assms(1) b(1)] h i by (simp add: versions_append kept_versions_def)
  note cap = cap_history_ring [OF dist vs]
  have ids: "m_id ` set (st_messages ?st) = m_id ` set (st_messages st)"
    unfolding update_tx_messages set_map [symmetric] by (simp add: map_stable row_edits)
  show ?thesis
    unfolding history_ok_def
  proof (intro conjI ballI)
    show "distinct (map h_id (st_history ?st))" using cap(3) hs by simp
    show "h_messageId r \<in> m_id ` set (st_messages ?st)" if "r \<in> set (st_history ?st)" for r
    proof -
      from that cap(4) hs have "r \<in> set (st_history st) \<or> r = history_of env before" by auto
      then show ?thesis using history_okD(2) [OF assms(1)] imageI [OF b(1), of m_id] h(1) i ids by auto
    qed
    fix x assume "x \<in> set (st_messages ?st)"
    then obtain n where n: "n \<in> set (st_messages st)" "x = (if edit_matches ua n then edit_row env ua pr n else n)"
      unfolding update_tx_messages by (rule update_whereE)
    show "map h_version (versions_of (m_id x) (st_history ?st)) = kept_versions (m_version x)"
    proof (cases "m_id n = ua_msgId ua")
      case True
      then have "n = before" using same_id [OF assms(2) n(1) b(1)] i by simp
      with n b(2) have x: "m_id x = ua_msgId ua" "m_version x = Suc (m_version before)"
        by (simp_all add: edit_row_def i)
      have "map h_version (versions_of (m_id x) (st_history ?st))
          = drop (length (versions_of (ua_msgId ua) ?hs) - EDIT_HISTORY_CAP) (map h_version (versions_of (ua_msgId ua) ?hs))"
        by (simp add: hs x cap(1) drop_map)
      also have "length (versions_of (ua_msgId ua) ?hs) = length [m_version before - EDIT_HISTORY_CAP ..< Suc (m_version before)]"
        using arg_cong [OF vs, of length] by (simp only: length_map)
      finally show ?thesis unfolding vs drop_ring kept_versions_def x(2) .
    next
      case False
      then have "x = n" using n(2) by (simp add: edit_matches_def)
      moreover have "versions_of (m_id n) (st_history ?st) = versions_of (m_id n) (st_history st)"
        using cap(2) [OF False] False h(1) by (simp add: hs versions_append)
      ultimately show ?thesis using history_okD(3) [OF assms(1) n(1)] by simp
    qed
  qed
qed

text \<open>Every other step keeps the versions and the history.\<close>

lemma sent_versions:
  assumes "m_id m \<notin> m_id ` set ms" and "m_version m = 0" and "en_newId2 env \<notin> m_id ` set ms" and "m_id m \<noteq> en_newId2 env"
  shows "versions_kept ms (sent_messages env a m ms)"
proof -
  have one: "versions_kept ms (ms @ [m])" using assms by (simp add: versions_kept_append)
  have two: "versions_kept (ms @ [m]) (bumped p t (ms @ [m]))" for p t
    by (rule versions_kept_update) (simp_all add: row_edits)
  have "en_newId2 env \<notin> m_id ` set (bumped p t (ms @ [m]))" for p t
    using assms unfolding set_map [symmetric] by (simp add: map_stable row_edits)
  with assms(2) have "versions_kept (bumped p t (ms @ [m])) (bumped p t (ms @ [m]) @ [broadcast_message env a m])" for p t
    by (simp add: versions_kept_append)
  then have "versions_kept ms (bumped p t (ms @ [m]) @ [broadcast_message env a m])" for p t
    by (rule versions_kept_trans [OF versions_kept_trans [OF one two]])
  with one two show ?thesis
    by (auto simp: sent_messages_def intro: versions_kept_trans split: option.splits)
qed

lemma send_commit_versions:
  assumes "fresh_ids env st"
  shows "versions_kept (st_messages st) (st_messages (snd (send_commit env a pr kinds st)))
    \<and> st_history (snd (send_commit env a pr kinds st)) = st_history st"
proof (cases rule: send_commit_tables [of env a pr kinds st])
  case same
  then show ?thesis by (simp add: versions_kept_refl)
next
  case (sent content)
  with assms show ?thesis by (simp add: sent_versions fresh_ids_def)
qed

lemma softDelete_versions:
  "versions_kept (st_messages st) (st_messages (snd (softDelete now a st)))"
proof -
  have d: "versions_kept ms (deleted_here now a ms)" for ms
    by (rule versions_kept_update) (simp_all add: row_edits)
  have "versions_kept ms (update_where (\<lambda>m. m_id m = p \<and> m_deletedAt m = None)
     (\<lambda>m. m\<lparr>m_replyCount := max 0 (m_replyCount m - 1)\<rparr>) ms)" for ms p
    by (rule versions_kept_update) (simp_all add: row_edits)
  with d show ?thesis
    by (auto simp: softDelete_messages drop_reply_messages versions_kept_refl
        intro: versions_kept_trans split: option.splits)
qed

lemma bulkDelete_versions: "versions_kept (st_messages st) (st_messages (snd (bulkDelete now a st)))"
proof -
  have "versions_kept (st_messages st) (update_where (bulk_hit a st) (soft_deleted_row now) (st_messages st))"
    by (rule versions_kept_update) (simp_all add: row_edits)
  with bulkDelete_messages(1) [of now a st] show ?thesis using versions_kept_refl by metis
qed

lemma service_versions:
  assumes "en_newId env \<notin> m_id ` set (st_messages st)"
  shows "versions_kept (st_messages st) (st_messages (snd (create_service_message env ch actor author ty content st)))
    \<and> st_history (snd (create_service_message env ch actor author ty content st)) = st_history st"
proof (cases rule: service_tables [of env ch actor author ty content st])
  case none
  then show ?thesis by (simp add: versions_kept_refl)
next
  case (some m)
  with assms show ?thesis by (simp add: versions_kept_append)
qed

lemma set_pin_versions: "versions_kept (st_messages st) (st_messages (set_pin a w st))"
  unfolding set_pin_messages by (rule versions_kept_update) (simp_all add: row_edits)

lemma pin_versions:
  assumes "en_newId env \<notin> m_id ` set (st_messages st)"
  shows "versions_kept (st_messages st) (st_messages (snd (pin env text a st)))
    \<and> st_history (snd (pin env text a st)) = st_history st"
proof (cases rule: pin_tables [of env "text" a st])
  case none
  then show ?thesis by (simp add: versions_kept_refl)
next
  case (some target)
  let ?st1 = "set_pin a (Some (en_now env, pa_actorId a)) st"
  have "m_id ` set (st_messages ?st1) = m_id ` set (st_messages st)"
    unfolding set_pin_messages set_map [symmetric] by (subst map_stable) (simp_all add: row_edits)
  with service_versions [of env ?st1 "pa_channelId a" "pa_actorId a" SYSTEM SYSTEM_PIN "text"] assms some(4)
    set_pin_versions [of st a "Some (en_now env, pa_actorId a)"]
  show ?thesis by (auto simp: Let_def insertPinSystemMessage_def set_pin_messages(2) intro: versions_kept_trans)
qed

lemma unpin_versions:
  "versions_kept (st_messages st) (st_messages (snd (unpin a st))) \<and> st_history (snd (unpin a st)) = st_history st"
  using set_pin_versions [of st a None]
  by (auto simp: unpin_def store_keeps set_pin_messages(2) versions_kept_refl split: option.splits)

lemma setThreadLock_versions:
  "versions_kept (st_messages st) (st_messages (snd (setThreadLock ch rid locked st)))
   \<and> st_history (snd (setThreadLock ch rid locked st)) = st_history st"
  using versions_kept_update [where f = "\<lambda>m. m\<lparr>m_threadLocked := locked\<rparr>"]
  by (auto simp: setThreadLock_def store_keeps row_edits versions_kept_refl split: option.splits)

lemma reconcile_versions: "versions_kept (st_messages st) (st_messages (snd (reconcile st)))"
  unfolding reconcile_messages by (rule versions_kept_update) (simp_all add: row_edits)

lemma message_step_versions:
  assumes "message_step bulk s s'"
  obtains (edited) env ua pr where "fresh_ids env (sys_store s)" "s' = with_store s (snd (update_tx env ua pr (sys_store s)))"
  | (other) "versions_kept (st_messages (sys_store s)) (st_messages (sys_store s'))"
      "st_history (sys_store s') = st_history (sys_store s)"
  using assms
proof (cases rule: message_step.cases)
  case (begin_send env a pr kinds)
  then show ?thesis using other by (simp add: versions_kept_refl)
next
  case (edit env ua pr)
  then show ?thesis using edited by blast
qed (use other in \<open>simp_all add: with_store_def fresh_ids_def send_commit_versions [unfolded fresh_ids_def]
       softDelete_versions softDelete_messages(2) bulkDelete_versions bulkDelete_messages(2) service_versions pin_versions
       unpin_versions setThreadLock_versions reconcile_versions reconcile_messages(2) versions_kept_refl\<close>)

lemma message_step_history:
  assumes "message_step bulk s s'" and "system_ok s" and "history_ok (sys_store s)"
  shows "history_ok (sys_store s')"
  using assms(1)
proof (cases rule: message_step_versions)
  case (edited env ua pr)
  with update_tx_history [OF assms(3) table_okD(1) [OF system_okD [OF assms(2)]]]
  show ?thesis by (simp add: with_store_def)
next
  case other
  then show ?thesis by (rule history_ok_step [OF assms(3)])
qed

lemma reachable_history: "message_reachable bulk s \<Longrightarrow> history_ok (sys_store s)"
proof (induction rule: rtranclp_induct)
  case base
  show ?case by (simp add: initial_system_def empty_store_def history_ok_def)
next
  case (step y z)
  then show ?case using message_step_history reachable_ok by blast
qed

section \<open>The lock\<close>

lemma find_unique:
  assumes "ids_ok ms" and "m \<in> set ms" and "P m" and "\<And>x. P x \<Longrightarrow> m_id x = m_id m"
  shows "find P ms = Some m"
proof (cases "find P ms")
  case None
  with assms show ?thesis by (auto simp: find_None_iff)
next
  case (Some x)
  then have "x \<in> set ms" "P x" by (auto simp: find_Some_iff)
  with assms Some show ?thesis using same_id by metis
qed

lemma update_tx_outcome:
  assumes "ids_ok (st_messages st)" and "m \<in> set (st_messages st)" and "m_id m = ua_msgId ua" and "m_channelId m = ua_channelId ua"
  shows "fst (update_tx env ua pr st) =
    (if m_deletedAt m \<noteq> None then Inl MESSAGE_NOT_FOUND
     else if m_version m \<noteq> ua_expectedVersion ua then Inl MESSAGE_VERSION_CONFLICT
     else Inr (edit_row env ua pr m))"
proof (cases "edit_matches ua m")
  case True
  then have "find (edit_matches ua) (st_messages st) = Some m"
    using assms by (intro find_unique) (simp_all add: edit_matches_def)
  with True show ?thesis by (simp add: update_tx_def Let_def edit_matches_def)
next
  case False
  have "\<not> edit_matches ua x" if "x \<in> set (st_messages st)" for x
  proof
    assume e: "edit_matches ua x"
    then have "x = m" using same_id [OF assms(1) that assms(2)] assms(3) by (simp add: edit_matches_def)
    with e False show False by simp
  qed
  then have none: "find (edit_matches ua) (st_messages st) = None" by (simp add: find_None_iff)
  have "find_in_channel st (ua_msgId ua) (ua_channelId ua) = Some m"
    unfolding find_in_channel_def using assms by (intro find_unique) simp_all
  with none False assms(3,4) show ?thesis by (auto simp: update_tx_def edit_matches_def)
qed

text \<open>An edit succeeds exactly on a live message whose version is the expected one; a stale
  version is a conflict and a deleted message is not found.\<close>

lemma optimistic_lock_decides:
  assumes "message_reachable bulk s" and "m \<in> set (st_messages (sys_store s))"
    and "m_id m = ua_msgId ua" and "m_channelId m = ua_channelId ua"
  shows "fst (update_tx env ua pr (sys_store s)) =
    (if m_deletedAt m \<noteq> None then Inl MESSAGE_NOT_FOUND
     else if m_version m \<noteq> ua_expectedVersion ua then Inl MESSAGE_VERSION_CONFLICT
     else Inr (edit_row env ua pr m))"
  using update_tx_outcome [OF table_okD(1) [OF system_okD [OF reachable_ok [OF assms(1)]]] assms(2-4)] .

text \<open>A version once left is never the current one again.\<close>

definition beyond :: "id \<Rightarrow> nat \<Rightarrow> message_row list \<Rightarrow> bool" where
  "beyond i v ms \<longleftrightarrow> i \<in> m_id ` set ms \<and> (\<forall>m \<in> set ms. m_id m = i \<longrightarrow> v < m_version m)"

lemma beyond_step:
  assumes "message_step bulk s s'" and "beyond i v (st_messages (sys_store s))"
  shows "beyond i v (st_messages (sys_store s'))"
  using assms(1)
proof (cases rule: message_step_versions)
  case (edited env ua pr)
  let ?ms = "update_where (edit_matches ua) (edit_row env ua pr) (st_messages (sys_store s))"
  have "i \<in> m_id ` set ?ms" using assms(2) unfolding beyond_def set_map [symmetric] by (simp add: map_stable row_edits)
  moreover have "v < m_version x" if "x \<in> set ?ms" "m_id x = i" for x
    using that assms(2) unfolding beyond_def by (elim update_whereE) (auto simp: edit_row_def less_SucI)
  ultimately show ?thesis using edited(2) by (simp add: with_store_def update_tx_messages beyond_def)
next
  case other
  have "i \<in> m_id ` set (st_messages (sys_store s'))" using assms(2) versions_kept_ids [OF other(1)] by (auto simp: beyond_def)
  moreover have "v < m_version x" if "x \<in> set (st_messages (sys_store s'))" "m_id x = i" for x
    using other(1) that(1)
  proof (cases rule: versions_kept_cases)
    case (old n)
    with that(2) assms(2) show ?thesis by (auto simp: beyond_def)
  next
    case new
    with that(2) assms(2) show ?thesis by (simp add: beyond_def)
  qed
  ultimately show ?thesis by (simp add: beyond_def)
qed

lemma beyond_steps:
  "(message_step bulk)\<^sup>*\<^sup>* s s' \<Longrightarrow> beyond i v (st_messages (sys_store s)) \<Longrightarrow> beyond i v (st_messages (sys_store s'))"
  by (induction rule: rtranclp_induct) (auto intro: beyond_step)

lemma edit_moves_on:
  assumes "ids_ok (st_messages st)" and "fst (update_tx env ua pr st) = Inr row"
  shows "beyond (ua_msgId ua) (ua_expectedVersion ua) (st_messages (snd (update_tx env ua pr st)))"
proof -
  from assms(2) obtain before where f: "find (edit_matches ua) (st_messages st) = Some before"
    by (auto simp: update_tx_def split: option.splits if_splits)
  note b = find_edit [OF f]
  have "ua_msgId ua \<in> m_id ` set (st_messages st)" using imageI [OF b(1), of m_id] b(2) by (simp add: edit_matches_def)
  then have "ua_msgId ua \<in> m_id ` set (st_messages (snd (update_tx env ua pr st)))"
    unfolding update_tx_messages set_map [symmetric] by (simp add: map_stable row_edits)
  moreover have "ua_expectedVersion ua < m_version x"
    if "x \<in> set (st_messages (snd (update_tx env ua pr st)))" "m_id x = ua_msgId ua" for x
    using that unfolding update_tx_messages
  proof (elim update_whereE)
    fix n assume n: "n \<in> set (st_messages st)" "x = (if edit_matches ua n then edit_row env ua pr n else n)" "m_id x = ua_msgId ua"
    then have "m_id n = m_id before" using b(2) by (simp add: edit_row_def edit_matches_def split: if_splits)
    then have "n = before" using same_id [OF assms(1) n(1) b(1)] by simp
    with b(2) n(2) show ?thesis by (simp add: edit_row_def edit_matches_def)
  qed
  ultimately show ?thesis by (simp add: beyond_def)
qed

text \<open>No lost update: once an edit from a version has succeeded, no later edit from the same
  version does, whatever happens in between; it is refused and changes nothing.\<close>

lemma version_is_edited_once:
  assumes "message_reachable bulk s" and "fst (update_tx env ua pr (sys_store s)) = Inr row"
    and "(message_step bulk)\<^sup>*\<^sup>* (with_store s (snd (update_tx env ua pr (sys_store s)))) s'"
    and "ua_msgId ub = ua_msgId ua" and "ua_expectedVersion ub = ua_expectedVersion ua"
  shows "fst (update_tx env' ub pr' (sys_store s')) \<in> {Inl MESSAGE_NOT_FOUND, Inl MESSAGE_VERSION_CONFLICT}
    \<and> snd (update_tx env' ub pr' (sys_store s')) = sys_store s'"
proof -
  have "beyond (ua_msgId ua) (ua_expectedVersion ua) (st_messages (sys_store s'))"
    using beyond_steps [OF assms(3)] edit_moves_on [OF _ assms(2)] table_okD(1) [OF system_okD [OF reachable_ok [OF assms(1)]]]
    by (simp add: with_store_def)
  then have "find (edit_matches ub) (st_messages (sys_store s')) = None"
    using assms(4,5) by (auto simp: find_None_iff edit_matches_def beyond_def)
  then show ?thesis by (auto simp: update_tx_def split: option.splits)
qed

section \<open>The history\<close>

lemma history_listing:
  assumes "history_ok st" and "m \<in> set (st_messages st)"
  shows "listEditHistory st (m_channelId m) (m_id m) = Inr (rev (versions_of (m_id m) (st_history st)))"
proof -
  have vs: "map h_version (versions_of (m_id m) (st_history st)) = [m_version m - EDIT_HISTORY_CAP ..< m_version m]"
    using history_okD(3) [OF assms] by (simp add: kept_versions_def)
  have "length (versions_of (m_id m) (st_history st)) = length [m_version m - EDIT_HISTORY_CAP ..< m_version m]"
    using arg_cong [OF vs, of length] by (simp only: length_map)
  moreover obtain x where "find_in_channel st (m_id m) (m_channelId m) = Some x"
    using assms(2) by (cases "find_in_channel st (m_id m) (m_channelId m)") (auto simp: find_in_channel_def find_None_iff)
  ultimately show ?thesis using sorted_ring [OF vs] by (simp add: listEditHistory_def)
qed

text \<open>C36: the edit history of a message lists its former versions, newest first, without a gap:
  all of them up to ten, and the last ten of them from then on.\<close>

theorem edit_history_is_ring:
  assumes "message_reachable bulk s" and "m \<in> set (st_messages (sys_store s))"
    and "listEditHistory (sys_store s) (m_channelId m) (m_id m) = Inr hs"
  shows "map h_version hs = rev [m_version m - EDIT_HISTORY_CAP ..< m_version m]"
  using history_listing [OF reachable_history [OF assms(1)] assms(2)] assms(3)
    history_okD(3) [OF reachable_history [OF assms(1)] assms(2)]
  by (simp add: rev_map [symmetric] kept_versions_def)

text \<open>An edit puts what the message was on top of its history, content included, and keeps
  the nine versions below it.\<close>

lemma edit_pushes_old_version:
  assumes "message_reachable bulk s" and "fresh_ids env (sys_store s)" and "before \<in> set (st_messages (sys_store s))"
    and "m_id before = ua_msgId ua" and "m_channelId before = ua_channelId ua"
    and "fst (update_tx env ua pr (sys_store s)) = Inr row"
    and "listEditHistory (sys_store s) (ua_channelId ua) (ua_msgId ua) = Inr hs"
  shows "listEditHistory (snd (update_tx env ua pr (sys_store s))) (ua_channelId ua) (ua_msgId ua)
    = Inr (history_of env before # take (EDIT_HISTORY_CAP - 1) hs)"
proof -
  let ?st = "sys_store s" and ?st' = "snd (update_tx env ua pr (sys_store s))"
  let ?vs = "versions_of (ua_msgId ua) (st_history ?st)"
  have ok: "history_ok ?st" "ids_ok (st_messages ?st)"
    using reachable_history [OF assms(1)] table_okD(1) [OF system_okD [OF reachable_ok [OF assms(1)]]] by simp_all
  have ok': "history_ok ?st'" by (rule update_tx_history [OF ok assms(2)])
  have e: "edit_matches ua before"
    using assms(6) update_tx_outcome [OF ok(2) assms(3-5), of env pr] assms(4,5)
    by (auto simp: edit_matches_def split: if_splits)
  then have f: "find (edit_matches ua) (st_messages ?st) = Some before"
    using assms(3,4) ok(2) by (intro find_unique) (simp_all add: edit_matches_def)
  have "edit_row env ua pr before \<in> set (st_messages ?st')"
    unfolding update_tx_messages set_update_where using assms(3) e by force
  from history_listing [OF ok' this] assms(4,5)
  have new: "listEditHistory ?st' (ua_channelId ua) (ua_msgId ua) = Inr (rev (versions_of (ua_msgId ua) (st_history ?st')))"
    by (simp add: edit_row_def)
  have old: "hs = rev ?vs" using history_listing [OF ok(1) assms(3)] assms(4,5,7) by simp
  have h: "h_messageId (history_of env before) = ua_msgId ua" "h_version (history_of env before) = m_version before"
    "h_id (history_of env before) = en_newId env" by (simp_all add: history_of_def assms(4))
  have ring: "map h_version ?vs = [m_version before - EDIT_HISTORY_CAP ..< m_version before]"
    using history_okD(3) [OF ok(1) assms(3)] assms(4) by (simp add: kept_versions_def)
  have "versions_of (ua_msgId ua) (st_history ?st')
      = drop (Suc (length ?vs) - EDIT_HISTORY_CAP) (?vs @ [history_of env before])"
    using cap_history_ring(1) [of "st_history ?st @ [history_of env before]" "ua_msgId ua" "m_version before"]
      history_okD(1) [OF ok(1)] assms(2) f h ring
    by (simp add: update_tx_def Let_def store_keeps versions_append fresh_ids_def)
  also have "\<dots> = drop (Suc (length ?vs) - EDIT_HISTORY_CAP) ?vs @ [history_of env before]"
    by (simp add: EDIT_HISTORY_CAP_def)
  finally have "rev (versions_of (ua_msgId ua) (st_history ?st')) = history_of env before # take (EDIT_HISTORY_CAP - 1) (rev ?vs)"
    by (simp add: take_rev EDIT_HISTORY_CAP_def Suc_diff_le)
  with new old show ?thesis by simp
qed

section \<open>The example, edited\<close>

definition fix_args :: "nat \<Rightarrow> update_args" where
  "fix_args v = \<lparr>ua_workspaceId = None, ua_channelId = ''c'', ua_msgId = ''m'', ua_actorId = ''u'', ua_content = hi_text,
     ua_expectedVersion = v, ua_hasMentionEveryone = False, ua_hasMentionChannel = False, ua_bulkConfirmed = False\<rparr>"

lemma fix_args_simps [simp]:
  "ua_channelId (fix_args v) = ''c''" "ua_msgId (fix_args v) = ''m''" "ua_expectedVersion (fix_args v) = v"
  by (simp_all add: fix_args_def)

abbreviation fix_env :: message_env where "fix_env \<equiv> quiet_env ''h'' ''z'' 3"

lemma reply_row_stored: "reply_row \<in> set (st_messages (sys_store reply_system))"
  by (simp add: reply_system_def reply_tables)

lemma reply_fresh: "fresh_ids fix_env (sys_store reply_system)"
  by (simp add: fresh_ids_def reply_system_def reply_tables)

lemma optimistic_lock_decides_example:
  "fst (update_tx fix_env (fix_args 0) hi_prepared reply_store) = Inr (edit_row fix_env (fix_args 0) hi_prepared reply_row)
   \<and> fst (update_tx fix_env (fix_args 1) hi_prepared reply_store) = Inl MESSAGE_VERSION_CONFLICT"
  using optimistic_lock_decides [OF reply_reachable reply_row_stored, of "fix_args 0" fix_env hi_prepared]
    optimistic_lock_decides [OF reply_reachable reply_row_stored, of "fix_args 1" fix_env hi_prepared]
  by (simp add: reply_system_def)

lemma first_edit: "fst (update_tx fix_env (fix_args 0) hi_prepared (sys_store reply_system))
    = Inr (edit_row fix_env (fix_args 0) hi_prepared reply_row)"
  by (subst update_tx_outcome [where m = reply_row])
    (simp_all add: reply_system_def reply_tables ids_ok_def)

lemma version_is_edited_once_example:
  "fst (update_tx (quiet_env ''i'' ''z'' 4) (fix_args 0) hi_prepared
      (snd (update_tx fix_env (fix_args 0) hi_prepared reply_store))) \<in> {Inl MESSAGE_NOT_FOUND, Inl MESSAGE_VERSION_CONFLICT}"
  using version_is_edited_once [OF reply_reachable first_edit rtranclp.rtrancl_refl refl refl]
  by (simp add: with_store_def reply_system_def)

lemma reply_no_history: "listEditHistory (sys_store reply_system) (ua_channelId (fix_args 0)) (ua_msgId (fix_args 0)) = Inr []"
  by (simp add: listEditHistory_def find_in_channel_def reply_system_def reply_tables versions_of_def)

lemma edit_pushes_old_version_example:
  "listEditHistory (snd (update_tx fix_env (fix_args 0) hi_prepared reply_store)) ''c'' ''m'' = Inr [history_of fix_env reply_row]"
  using edit_pushes_old_version [OF reply_reachable reply_fresh reply_row_stored _ _ first_edit reply_no_history]
  by (simp add: reply_system_def)

theorem edit_history_is_ring_witness:
  "map h_version [history_of fix_env reply_row] = [0]"
proof -
  let ?s = "with_store reply_system (snd (update_tx fix_env (fix_args 0) hi_prepared (sys_store reply_system)))"
  let ?row = "edit_row fix_env (fix_args 0) hi_prepared reply_row"
  have r: "message_reachable False ?s"
    using reply_reachable message_step.edit [OF reply_fresh] by (rule rtranclp.rtrancl_into_rtrancl)
  have m: "?row \<in> set (st_messages (sys_store ?s))"
    by (simp add: with_store_def update_tx_messages reply_system_def reply_tables update_where_Cons edit_matches_def)
  have "find_in_channel (sys_store ?s) ''m'' ''c'' \<noteq> None"
    by (simp add: find_in_channel_def with_store_def update_tx_messages reply_system_def reply_tables
        update_where_Cons edit_matches_def edit_row_def)
  moreover have "versions_of ''m'' (st_history (sys_store ?s)) = [history_of fix_env reply_row]"
    by (simp add: with_store_def reply_system_def update_tx_def Let_def reply_tables edit_matches_def store_keeps
        cap_history_def versions_of_def history_of_def EDIT_HISTORY_CAP_def)
  ultimately have "listEditHistory (sys_store ?s) (m_channelId ?row) (m_id ?row) = Inr [history_of fix_env reply_row]"
    by (auto simp: listEditHistory_def edit_row_def EDIT_HISTORY_CAP_def split: option.splits)
  from edit_history_is_ring [OF r m this] show ?thesis by (simp add: edit_row_def EDIT_HISTORY_CAP_def)
qed

end
