(* ===== verification/Message_Replay.thy ===== *)
theory Message_Replay
  imports Message_Invariants
begin

text \<open>
  Idempotency keys of \<open>send\<close>: a retry of a committed send answers the same message, through the
  Redis cache or, when the cache has forgotten the key, through the violated unique index.
\<close>

lemma send_new:
  assumes "send env a st = (Inr (row, False), st1)"
  obtains pr kinds st' content where "send_check env a st = Inr (pr, kinds)"
    "send_tx env a pr kinds st = (Inr row, st')" "row = new_message env a pr kinds"
    "st1 = writeIdemCache (sa_authorId a) (sa_idempotencyKey a) (m_id row) st'"
    "recheck_parent a st = Inr content" "\<not> key_taken a (st_messages st)"
    "st_messages st1 = sent_messages env a row (st_messages st)"
proof -
  have none: "cached_message a st = None"
    using assms by (auto simp: send_def same_content_def split: option.splits if_splits)
  then obtain pr kinds where ck: "send_check env a st = Inr (pr, kinds)"
    using assms by (cases "send_check env a st") (auto simp: send_def)
  have sc: "send_commit env a pr kinds st = (Inr (row, False), st1)" using none ck assms by (simp add: send_def)
  show ?thesis
  proof (cases rule: send_tx_cases [of env a pr kinds st])
    case (failed e)
    with sc show ?thesis
      by (auto simp: send_commit_def same_content_def split: tx_failure.splits option.splits sum.splits if_splits)
  next
    case (created st' content)
    from created(1) sc have "row = new_message env a pr kinds"
      "st1 = writeIdemCache (sa_authorId a) (sa_idempotencyKey a) (m_id row) st'"
      by (auto simp: send_commit_def)
    with created ck that show ?thesis by (simp add: store_keeps)
  qed
qed

lemma recheck_parent_found:
  assumes "recheck_parent a st = Inr content" and "sa_parent a = Some p"
  obtains r where "find_message st p = Some r" "m_deletedAt r = None" "m_channelId r = sa_channelId a"
  using assms by (auto simp: recheck_parent_def split: option.splits if_splits)

lemma find_message_Some:
  assumes "find_message st i = Some m"
  shows "m \<in> set (st_messages st)" "m_id m = i"
  using assms by (auto simp: find_message_def find_Some_iff)

lemma find_message_unique:
  assumes "ids_ok (st_messages st)" and "m \<in> set (st_messages st)"
  shows "find_message st (m_id m) = Some m"
proof (cases "find_message st (m_id m)")
  case None
  with assms(2) show ?thesis by (auto simp: find_message_def find_None_iff)
next
  case (Some x)
  with find_message_Some [OF Some] same_id [OF assms(1) _ assms(2)] show ?thesis by metis
qed

lemma row_in_sent:
  assumes "m_parent row \<noteq> Some (m_id row)"
  shows "row \<in> set (sent_messages env a row ms)"
proof (cases "m_parent row")
  case None
  then show ?thesis by (simp add: sent_messages_def)
next
  case (Some p)
  with assms have "m_id row \<noteq> p" by simp
  then have "row \<in> set (bumped p t (ms @ [row]))" for t by (auto simp: set_update_where)
  with Some show ?thesis by (simp add: sent_messages_def)
qed

lemma old_in_sent:
  assumes "r \<in> set ms"
  shows "\<exists>x \<in> set (sent_messages env a row ms). m_id x = m_id r \<and> m_deletedAt x = m_deletedAt r \<and> m_channelId x = m_channelId r"
proof (cases "m_parent row")
  case None
  with assms show ?thesis by (auto simp: sent_messages_def)
next
  case (Some p)
  let ?x = "\<lambda>t. if m_id r = p \<and> m_deletedAt r = None then r\<lparr>m_replyCount := m_replyCount r + 1,
      m_latestReplyAt := Some (case m_latestReplyAt r of None \<Rightarrow> t | Some u \<Rightarrow> max u t)\<rparr> else r"
  have "?x t \<in> set (bumped p t (ms @ [row]))" for t using assms unfolding set_update_where by force
  with Some show ?thesis by (intro bexI [of _ "?x (m_createdAt row)"]) (auto simp: sent_messages_def)
qed

lemma send_keeps_tables:
  assumes "system_ok s" and "fresh_ids env (sys_store s)" and "send env a (sys_store s) = (Inr (row, False), st1)"
  shows "table_ok (st_messages st1)" "row \<in> set (st_messages st1)"
    "\<And>p. sa_parent a = Some p \<Longrightarrow> \<exists>content. recheck_parent a st1 = Inr content"
proof -
  obtain pr kinds st' content where
    new: "send_check env a (sys_store s) = Inr (pr, kinds)" "send_tx env a pr kinds (sys_store s) = (Inr row, st')"
      "row = new_message env a pr kinds" "recheck_parent a (sys_store s) = Inr content"
      "st_messages st1 = sent_messages env a row (st_messages (sys_store s))"
    using send_new [OF assms(3)] by metis
  have "keeps_tables (st_messages (sys_store s)) (st_messages (snd (send_commit env a pr kinds (sys_store s))))"
    by (rule send_commit_keeps [OF system_okD [OF assms(1)] assms(2)]) (rule send_check_parent [OF new(1)])
  moreover have "st_messages (snd (send_commit env a pr kinds (sys_store s))) = st_messages st'"
    using new(2) by (simp add: send_commit_def store_keeps)
  moreover have "st_messages st' = st_messages st1"
    using new(2,5) by (cases rule: send_tx_cases [of env a pr kinds "sys_store s"]) auto
  ultimately show ok: "table_ok (st_messages st1)" by (simp add: keeps_tables_def)
  have fresh: "m_id row \<notin> m_id ` set (st_messages (sys_store s))" using assms(2) new(3) by (simp add: fresh_ids_def)
  have "sa_parent a \<noteq> Some (m_id row)"
    using recheck_parent_found [OF new(4)] find_message_Some fresh by (metis imageI)
  then show "row \<in> set (st_messages st1)" using new(3,5) row_in_sent [of row] by simp
  show "\<exists>content. recheck_parent a st1 = Inr content" if parent: "sa_parent a = Some p" for p
  proof -
    obtain r where r: "find_message (sys_store s) p = Some r" "m_deletedAt r = None" "m_channelId r = sa_channelId a"
      by (rule recheck_parent_found [OF new(4) parent])
    obtain x where "x \<in> set (st_messages st1)" "m_id x = p" "m_deletedAt x = None" "m_channelId x = sa_channelId a"
      using old_in_sent [OF find_message_Some(1) [OF r(1)], of env a row] r(2,3) find_message_Some(2) [OF r(1)] new(5) by auto
    then have "find_message st1 p = Some x" using find_message_unique table_okD(1) [OF ok] by blast
    with parent \<open>m_deletedAt x = None\<close> \<open>m_channelId x = sa_channelId a\<close> show ?thesis by (simp add: recheck_parent_def)
  qed
qed

text \<open>The retry, when Redis has the key and when it has not.\<close>

lemma replay_cached:
  assumes "cached_message a st = Some row" and "m_content row = sa_content a"
  shows "send env a st = (Inr (row, True), st)"
  using assms by (simp add: send_def same_content_def)

lemma replay_violation:
  assumes "table_ok (st_messages st)" and "row \<in> set (st_messages st)" and "cached_message a st = None"
    and "send_check env a st = Inr (pr, kinds)" and "recheck_parent a st = Inr content"
    and "sa_idempotencyKey a = Some k" and "m_idempotencyKey row = Some k" and "m_authorId row = sa_authorId a"
    and "m_content row = sa_content a"
  shows "send env a st = (Inr (row, True), writeIdemCache (sa_authorId a) (Some k) (m_id row) st)"
proof -
  have taken: "list_ex (\<lambda>n. m_authorId n = sa_authorId a \<and> m_idempotencyKey n = Some k) (st_messages st)"
    using assms(2,7,8) by (auto simp: list_ex_iff)
  have tx: "send_tx env a pr kinds st = (Inl Unique_Violation, st)"
    using assms(5,6) taken by (simp add: send_tx_def Let_def insert_message_def bind_res_def)
  obtain x where x: "find (\<lambda>m. m_authorId m = sa_authorId a \<and> m_idempotencyKey m = Some k) (st_messages st) = Some x"
    using taken by (cases "find (\<lambda>m. m_authorId m = sa_authorId a \<and> m_idempotencyKey m = Some k) (st_messages st)")
      (auto simp: find_None_iff list_ex_iff)
  then have m: "x \<in> set (st_messages st)" "m_authorId x = sa_authorId a" "m_idempotencyKey x = Some k"
    by (auto simp: find_Some_iff)
  from table_okD(2) [OF assms(1), unfolded keys_unique_def, rule_format, OF m(1) assms(2)] m(2,3) assms(7,8)
  have "m_id x = m_id row" by simp
  then have "x = row" using same_id [OF table_okD(1) [OF assms(1)] m(1) assms(2)] by simp
  with x tx assms(3,4,6,9) show ?thesis by (simp add: send_def send_commit_def same_content_def)
qed


lemma bot_reachable: "message_reachable False (with_store initial_system bot_store)"
proof -
  have "message_step False initial_system (with_store initial_system bot_store)"
    unfolding bot_store_def createBotMessage_def
    using message_step.service [of "quiet_env ''r'' ''x'' 1" initial_system False]
    by (simp add: initial_system_def fresh_ids_def empty_store_def)
  then show ?thesis by (rule r_into_rtranclp)
qed

abbreviation reply_args :: send_args where "reply_args \<equiv> hi_args (Some ''k'') (Some ''r'')"

lemma reply_checked:
  assumes "find_live st ''r'' ''c'' = Some r" and "m_parent r = None"
  shows "send_check (quiet_env i j now) reply_args st = Inr (hi_prepared, [])"
  unfolding hi_check using assms by (simp add: check_parent_def hi_args_def guard_that_def bind_res_def)

lemma first_send:
  "send (quiet_env ''m'' ''y'' 2) reply_args (sys_store (with_store initial_system bot_store)) = (Inr (reply_row, False), reply_store)"
proof -
  obtain st' where tx: "send_tx (quiet_env ''m'' ''y'' 2) reply_args hi_prepared [] bot_store = (Inr reply_row, st')"
    using reply_sent by (metis prod.collapse)
  have "cached_message reply_args bot_store = None"
    by (simp add: cached_message_def readIdemCache_def bot_tables hi_args_def)
  moreover have "send_check (quiet_env ''m'' ''y'' 2) reply_args bot_store = Inr (hi_prepared, [])"
    by (rule reply_checked [of _ bot_row]) (simp_all add: find_live_def bot_tables)
  ultimately show ?thesis using tx by (simp add: send_def send_commit_def reply_store_def with_store_def)
qed


section \<open>Retries that are refused\<close>

text \<open>With attachments the first send has linked them, so the retry of a forgotten key is refused
  instead of answering the message.\<close>

definition free_attachment :: "send_args \<Rightarrow> attachment_row \<Rightarrow> bool" where
  "free_attachment a r \<longleftrightarrow> at_id r \<in> set (sa_attachmentIds a) \<and> at_channelId r = sa_channelId a
     \<and> at_uploaderId r = sa_authorId a \<and> at_finalized r \<and> at_messageId r = None"

lemma linked_not_free:
  assumes "sa_attachmentIds a \<noteq> []"
  shows "filter (free_attachment a) (st_attachments (link_attachments env a st)) = []"
  using assms by (auto simp: link_attachments_def filter_empty_conv set_update_where free_attachment_def)

lemma check_free: "sa_attachmentIds a \<noteq> [] \<Longrightarrow> filter (free_attachment a) (st_attachments st) = [] \<Longrightarrow>
    check_attachments a st = Inl ATTACHMENT_NOT_FOUND"
  by (simp add: check_attachments_def free_attachment_def [abs_def] Let_def)

lemma attached_retry_is_refused:
  assumes "sa_attachmentIds a \<noteq> []" and "filter (free_attachment a) (st_attachments st) = []" and "cached_message a st = None"
  shows "send env a st = (Inl (Refusal ATTACHMENT_NOT_FOUND), st)"
  using assms by (simp add: send_def send_check_def check_free bind_res_def)

text \<open>After an edit the content of the message is not that of the key any more.\<close>

lemma edited_retry_is_refused:
  assumes "cached_message a st = Some row" and "m_content row \<noteq> sa_content a"
  shows "send env a st = (Inl (Refusal IDEMPOTENCY_KEY_REUSE_CONFLICT), st)"
  using assms by (simp add: send_def same_content_def)

end
