(* ===== verification/Channel_Sync.thy ===== *)
theory Channel_Sync
  imports Qufox_Prelude "HOL-Library.AList"
begin

text \<open>
  The parts of the reconnect synchronisation: \<open>apps/web/src/features/realtime/seqTracker.ts\<close>,
  \<open>channelSyncFsm.ts\<close>, \<open>gapFetch.ts\<close>, \<open>gapMerge.ts\<close> of the client and
  \<open>apps/api/src/realtime/projection/channel-seq.service.ts\<close>, \<open>replay-buffer.service.ts\<close> of the
  server. Sequence numbers are integers (the wire schema says so); a JavaScript \<open>Map\<close> is an
  association list in insertion order, since its iteration order is observable. Redis is a
  parameter of the server functions: \<open>None\<close> is a command that throws.
\<close>

section \<open>Server: sequence numbers and the replay buffer\<close>

definition SEQ_SENTINEL :: int where "SEQ_SENTINEL = -1"

definition seq_next :: "('r \<Rightarrow> id \<Rightarrow> (int \<times> 'r) option) \<Rightarrow> 'r \<Rightarrow> id \<Rightarrow> int \<times> 'r" where
  "seq_next incr r ch = (case incr r ch of None \<Rightarrow> (SEQ_SENTINEL, r) | Some (n, r') \<Rightarrow> (n, r'))"

text \<open>A raw value of Redis is given by what \<open>Number\<close> makes of it: \<open>None\<close> when not finite.\<close>

definition parseSeq :: "int option option \<Rightarrow> int" where
  "parseSeq raw = (case raw of None \<Rightarrow> 0 | Some n \<Rightarrow> (case n of None \<Rightarrow> 0 | Some v \<Rightarrow> v))"

definition seq_current :: "('r \<Rightarrow> id \<Rightarrow> int option option option) \<Rightarrow> 'r \<Rightarrow> id \<Rightarrow> int" where
  "seq_current get r ch = (case get r ch of None \<Rightarrow> SEQ_SENTINEL | Some raw \<Rightarrow> parseSeq raw)"

definition currentMany ::
  "('r \<Rightarrow> id list \<Rightarrow> int option option list option) \<Rightarrow> 'r \<Rightarrow> id list \<Rightarrow> (id \<times> int) list" where
  "currentMany mget r chs =
     (if chs = [] then []
      else case mget r chs of
        Some raws \<Rightarrow> foldl (\<lambda>out (ch, raw). AList.update ch (parseSeq raw) out) [] (zip chs raws)
      | None \<Rightarrow> foldl (\<lambda>out ch. AList.update ch SEQ_SENTINEL out) [] chs)"

record replay_event =
  re_id :: id
  re_type :: id
  re_occurredAt :: id
  re_payload :: id

definition rangeAfter :: "replay_event list \<Rightarrow> id option \<Rightarrow> replay_event list \<times> bool" where
  \<comment> \<open>events to replay and \<open>truncated\<close>; the list is what XRANGE returns\<close>
  "rangeAfter parsed last_id =
     (if parsed = [] then ([], last_id \<noteq> None)
      else case last_id of
        None \<Rightarrow> ([], False)
      | Some l \<Rightarrow> (if \<not> list_ex (\<lambda>e. re_id e = l) parsed then ([], True)
                  else (tl (dropWhile (\<lambda>e. re_id e \<noteq> l) parsed), False)))"

section \<open>Client: the sequence tracker\<close>

type_synonym seq_tracker = "(id \<times> int) list"

datatype seq_observation = Obs_ok | Obs_hole int int | Obs_sentinel | Obs_duplicate

definition observe :: "seq_tracker \<Rightarrow> id \<Rightarrow> int \<Rightarrow> seq_observation \<times> seq_tracker" where
  "observe t ch s =
     (if s = SEQ_SENTINEL then (Obs_sentinel, t)
      else case map_of t ch of
        None \<Rightarrow> (Obs_ok, AList.update ch s t)
      | Some prev \<Rightarrow>
          if s \<le> prev then (Obs_duplicate, t)
          else if s = prev + 1 then (Obs_ok, AList.update ch s t)
          else (let expected = prev + 1 in (Obs_hole expected s, AList.update ch s t)))"

definition setBaseline :: "seq_tracker \<Rightarrow> id \<Rightarrow> int option \<Rightarrow> seq_tracker" where
  \<comment> \<open>\<open>None\<close> is a number that is not finite\<close>
  "setBaseline t ch s =
     (if s = Some SEQ_SENTINEL then t
      else case s of None \<Rightarrow> t | Some n \<Rightarrow> AList.update ch n t)"

definition tracker_get :: "seq_tracker \<Rightarrow> id \<Rightarrow> int option" where
  "tracker_get t ch = map_of t ch"

definition channels :: "seq_tracker \<Rightarrow> id list" where
  "channels t = map fst t"

definition tracker_reset :: "seq_tracker \<Rightarrow> id \<Rightarrow> seq_tracker" where
  "tracker_reset t ch = AList.delete ch t"

section \<open>Client: the state machine of a channel\<close>

datatype sync_state = DISCONNECTED | RECONNECTING | GAP_FETCHING | SYNCED | SYNC_FAILED

datatype sync_event =
  Connect | Disconnect | ReplayCompleteE | GapNeeded | SeqHole | SyncedE | FailedE | RetryE

definition transition :: "sync_state \<Rightarrow> sync_event \<Rightarrow> sync_state" where
  "transition s e =
     (if e = Disconnect then DISCONNECTED
      else case s of
        DISCONNECTED \<Rightarrow> if e = Connect then RECONNECTING else s
      | RECONNECTING \<Rightarrow>
          if e = GapNeeded \<or> e = SeqHole then GAP_FETCHING
          else if e = ReplayCompleteE then SYNCED else s
      | GAP_FETCHING \<Rightarrow>
          if e = SyncedE then SYNCED else if e = FailedE then SYNC_FAILED else s
      | SYNCED \<Rightarrow>
          if e = SeqHole \<or> e = GapNeeded then GAP_FETCHING
          else if e = Connect then RECONNECTING else s
      | SYNC_FAILED \<Rightarrow>
          if e = RetryE then GAP_FETCHING else if e = Connect then RECONNECTING else s)"

definition shouldBufferIncoming :: "sync_state \<Rightarrow> bool" where
  "shouldBufferIncoming s \<longleftrightarrow> s = GAP_FETCHING"

section \<open>Client: gap fetch\<close>

record gap_message =
  gm_id :: id
  gm_createdAt :: msec
  gm_parent :: "id option"
  gm_body :: id

record message_page =
  pg_items :: "gap_message list"
  pg_hasMore :: bool
  pg_prevCursor :: "id option"

record gap_result =
  gr_messages :: "gap_message list"
  gr_pages :: nat
  gr_truncated :: bool
  gr_oldest :: "id option"

definition GAP_FETCH_MAX_PAGES :: nat where "GAP_FETCH_MAX_PAGES = 10"

text \<open>
  The stable sort of \<open>Array.prototype.sort\<close> by a comparator. \<open>localeCompare\<close> is the parameter
  \<open>lc\<close>: its collation is that of the browser.
\<close>

fun insert_by :: "('a \<Rightarrow> 'a \<Rightarrow> int) \<Rightarrow> 'a \<Rightarrow> 'a list \<Rightarrow> 'a list" where
  "insert_by cmp x [] = [x]"
| "insert_by cmp x (y # ys) = (if cmp x y \<le> 0 then x # y # ys else y # insert_by cmp x ys)"

definition sort_by :: "('a \<Rightarrow> 'a \<Rightarrow> int) \<Rightarrow> 'a list \<Rightarrow> 'a list" where
  "sort_by cmp xs = foldr (insert_by cmp) xs []"

type_synonym by_id = "(id \<times> gap_message) list"

definition add_items :: "by_id \<Rightarrow> gap_message list \<Rightarrow> by_id" where
  "add_items by_id items = foldl (\<lambda>m x. AList.update (gm_id x) x m) by_id items"

text \<open>
  The loop of \<open>runGapFetch\<close>. Its first argument counts the pages left of the limit, the result
  is the map, the pages fetched and the truncation flag; a page that fails rejects the whole.
\<close>

fun gap_loop :: "(id \<Rightarrow> message_page option) \<Rightarrow> (message_page \<Rightarrow> id option) \<Rightarrow> nat \<Rightarrow> id \<Rightarrow>
    by_id \<Rightarrow> nat \<Rightarrow> (by_id \<times> nat \<times> bool) option" where
  "gap_loop fetchPage nextCursor 0 after by_id pages = Some (by_id, pages, True)"
| "gap_loop fetchPage nextCursor (Suc left) after by_id pages =
     (case fetchPage after of
        None \<Rightarrow> None
      | Some page \<Rightarrow>
         (let by_id' = add_items by_id (pg_items page); pages' = pages + 1
          in if \<not> pg_hasMore page then Some (by_id', pages', False)
             else case nextCursor page of
               None \<Rightarrow> Some (by_id', pages', False)
             | Some nxt \<Rightarrow> if nxt = after then Some (by_id', pages', False)
                          else gap_loop fetchPage nextCursor left nxt by_id' pages'))"

definition runGapFetch ::
  "(id \<Rightarrow> id \<Rightarrow> int) \<Rightarrow> (id \<Rightarrow> message_page option) \<Rightarrow> (message_page \<Rightarrow> id option) \<Rightarrow> id \<Rightarrow> gap_result option"
where
  "runGapFetch lc fetchPage nextCursor initial =
     (case gap_loop fetchPage nextCursor GAP_FETCH_MAX_PAGES initial [] 0 of
        None \<Rightarrow> None
      | Some (by_id, pages, truncated) \<Rightarrow>
         (let messages = sort_by (\<lambda>a b. lc (gm_id a) (gm_id b)) (map snd by_id)
          in Some \<lparr>gr_messages = messages, gr_pages = pages, gr_truncated = truncated,
                   gr_oldest = (case messages of [] \<Rightarrow> None | m # _ \<Rightarrow> Some (gm_id m))\<rparr>))"

text \<open>\<open>mergeGapMessages\<close>: the pages of the query cache, \<open>None\<close> for a channel not cached.\<close>

definition merge_compare :: "(id \<Rightarrow> id \<Rightarrow> int) \<Rightarrow> gap_message \<Rightarrow> gap_message \<Rightarrow> int" where
  "merge_compare lc a b =
     (let d = gm_createdAt b - gm_createdAt a in if d \<noteq> 0 then d else lc (gm_id b) (gm_id a))"

definition mergeGapMessages ::
  "(id \<Rightarrow> id \<Rightarrow> int) \<Rightarrow> message_page list option \<Rightarrow> gap_message list \<Rightarrow> message_page list option" where
  "mergeGapMessages lc old fetched =
     (case old of
        None \<Rightarrow> None
      | Some pages \<Rightarrow>
         if fetched = [] then old
         else case pages of
           [] \<Rightarrow> old
         | first # rest \<Rightarrow>
            (let seen = gm_id ` (\<Union>p \<in> set pages. set (pg_items p));
                 additions = filter (\<lambda>m. gm_parent m = None \<and> gm_id m \<notin> seen) fetched
             in if additions = [] then old
                else Some (first\<lparr>pg_items := sort_by (merge_compare lc) (pg_items first @ additions)\<rparr>
                           # rest)))"

subsection \<open>The pending buffer and the backoff\<close>

definition PENDING_EVENTS_MAX :: nat where "PENDING_EVENTS_MAX = 200"

record pending_buffer =
  pb_buf :: "(id \<times> id) list"
  pb_overflowed :: bool

definition empty_buffer :: pending_buffer where
  "empty_buffer = \<lparr>pb_buf = [], pb_overflowed = False\<rparr>"

definition pending_push :: "pending_buffer \<Rightarrow> id \<Rightarrow> id \<Rightarrow> bool \<times> pending_buffer" where
  "pending_push b event payload =
     (if length (pb_buf b) \<ge> PENDING_EVENTS_MAX then (False, b\<lparr>pb_overflowed := True\<rparr>)
      else (True, b\<lparr>pb_buf := pb_buf b @ [(event, payload)]\<rparr>))"

definition pending_drain :: "pending_buffer \<Rightarrow> (id \<times> id) list \<times> pending_buffer" where
  "pending_drain b = (pb_buf b, empty_buffer)"

text \<open>\<open>Backoff\<close> with its default parameters; the state is the number of attempts.\<close>

definition backoff_delay :: "nat \<Rightarrow> nat" where
  "backoff_delay attempt = min 8000 (500 * 2 ^ attempt)"

definition backoff_exhausted :: "nat \<Rightarrow> bool" where
  "backoff_exhausted attempt \<longleftrightarrow> attempt \<ge> 3"

section \<open>Lemmas: sorting and the map of fetched messages\<close>

lemma set_insert_by [simp]: "set (insert_by cmp x ys) = insert x (set ys)"
  by (induction ys) auto

lemma set_sort_by [simp]: "set (sort_by cmp xs) = set xs"
  by (induction xs) (simp_all add: sort_by_def)

lemma distinct_map_insert_by [simp]:
  "distinct (map f (insert_by cmp x ys)) \<longleftrightarrow> distinct (map f (x # ys))"
  by (induction ys) auto

lemma distinct_map_sort_by [simp]: "distinct (map f (sort_by cmp xs)) \<longleftrightarrow> distinct (map f xs)"
  by (induction xs) (simp_all add: sort_by_def set_sort_by [unfolded sort_by_def])

definition keyed_by_id :: "by_id \<Rightarrow> bool" where
  "keyed_by_id m \<longleftrightarrow> distinct (map fst m) \<and> (\<forall>(k, x) \<in> set m. gm_id x = k)"

lemma keyed_update: "keyed_by_id m \<Longrightarrow> keyed_by_id (AList.update (gm_id x) x m)"
proof -
  assume m: "keyed_by_id m"
  have "(k, y) \<in> set (AList.update (gm_id x) x m) \<Longrightarrow> (k, y) = (gm_id x, x) \<or> (k, y) \<in> set m" for k y
    by (induction m) (auto split: if_splits)
  with m have "gm_id y = k" if "(k, y) \<in> set (AList.update (gm_id x) x m)" for k y
    using that by (fastforce simp: keyed_by_id_def)
  with m show ?thesis by (auto simp: keyed_by_id_def distinct_update)
qed

lemma keyed_add: "keyed_by_id m \<Longrightarrow> keyed_by_id (add_items m xs)
    \<and> fst ` set (add_items m xs) = fst ` set m \<union> gm_id ` set xs"
proof (induction xs arbitrary: m)
  case Nil
  then show ?case by (simp add: add_items_def)
next
  case (Cons x xs)
  have "fst ` set (AList.update (gm_id x) x m) = insert (gm_id x) (fst ` set m)"
    by (auto simp: dom_map_of_conv_image_fst [symmetric] update_conv')
  with Cons.IH [OF keyed_update [OF Cons.prems, of x]] show ?case by (auto simp: add_items_def)
qed

lemma keyed_ids: "keyed_by_id m \<Longrightarrow> map (gm_id \<circ> snd) m = map fst m"
  by (auto simp: keyed_by_id_def)

section \<open>Lemmas: sequence numbers\<close>

fun observe_all :: "seq_tracker \<Rightarrow> id \<Rightarrow> int list \<Rightarrow> seq_observation list \<times> seq_tracker" where
  "observe_all t ch [] = ([], t)"
| "observe_all t ch (s # ss) =
     (let (ob, t') = observe t ch s; (obs, t'') = observe_all t' ch ss in (ob # obs, t''))"

lemma observe_tracked:
  assumes "map_of t ch = Some prev"
  shows "map_of (snd (observe t ch s)) ch = Some (if s = SEQ_SENTINEL then prev else max prev s)"
    and "prev < k \<Longrightarrow> s \<noteq> SEQ_SENTINEL \<Longrightarrow> k < s \<Longrightarrow> fst (observe t ch s) = Obs_hole (prev + 1) s"
  using assms by (auto simp: observe_def update_conv Let_def max_def)

lemma lost_is_reported:
  assumes "map_of t ch = Some prev" and "map_of (snd (observe_all t ch ss)) ch = Some final"
    and "prev < k" and "k \<le> final" and "k \<notin> set ss"
  shows "\<exists>e g. Obs_hole e g \<in> set (fst (observe_all t ch ss)) \<and> e \<le> k \<and> k < g"
  using assms
proof (induction ss arbitrary: t prev)
  case Nil
  then show ?case by simp
next
  case (Cons s ss)
  let ?t = "snd (observe t ch s)"
  have run: "observe_all t ch (s # ss)
      = (fst (observe t ch s) # fst (observe_all ?t ch ss), snd (observe_all ?t ch ss))"
    by (simp add: Let_def split_beta)
  show ?case
  proof (cases "s \<noteq> SEQ_SENTINEL \<and> k < s")
    case True
    then have "fst (observe t ch s) = Obs_hole (prev + 1) s"
      using observe_tracked(2) [OF Cons.prems(1,3), of s] by simp
    with True Cons.prems(3) show ?thesis
      unfolding run by (intro exI [of _ "prev + 1"] exI [of _ s]) simp
  next
    case False
    let ?p = "if s = SEQ_SENTINEL then prev else max prev s"
    have "map_of ?t ch = Some ?p" by (rule observe_tracked(1) [OF Cons.prems(1)])
    moreover have "?p < k" using False Cons.prems by (auto simp: max_def)
    ultimately show ?thesis
      using Cons.IH [of ?t ?p] Cons.prems unfolding run by auto
  qed
qed

lemma hole_is_lost:
  assumes "map_of t ch = Some prev" and "sorted_wrt (<) (prev # ss)" and "0 \<le> prev"
    and "Obs_hole e g \<in> set (fst (observe_all t ch ss))" and "e \<le> k" and "k < g"
  shows "prev < k \<and> k \<notin> set ss \<and> g \<in> set ss"
  using assms
proof (induction ss arbitrary: t prev)
  case Nil
  then show ?case by simp
next
  case (Cons s ss)
  let ?t = "snd (observe t ch s)"
  from Cons.prems have s: "prev < s" "s \<noteq> SEQ_SENTINEL" by (auto simp: SEQ_SENTINEL_def)
  then have next_t: "map_of ?t ch = Some s" using observe_tracked(1) [OF Cons.prems(1), of s] by simp
  have "Obs_hole e g = fst (observe t ch s) \<or> Obs_hole e g \<in> set (fst (observe_all ?t ch ss))"
    using Cons.prems(4) by (simp add: Let_def split_beta)
  then show ?case
  proof
    assume "Obs_hole e g = fst (observe t ch s)"
    with s Cons.prems(1) have "e = prev + 1" "g = s"
      by (auto simp: observe_def Let_def split: if_splits)
    with Cons.prems show ?thesis by auto
  next
    assume "Obs_hole e g \<in> set (fst (observe_all ?t ch ss))"
    then have "s < k \<and> k \<notin> set ss \<and> g \<in> set ss"
      using Cons.IH [OF next_t _ _ _ Cons.prems(5,6)] Cons.prems s by auto
    with s show ?thesis by auto
  qed
qed

section \<open>Lemmas: gap fetch and merge\<close>

text \<open>What a server that pages through a gap answers: the pages from a cursor on.\<close>

fun page_chain :: "(id \<Rightarrow> message_page option) \<Rightarrow> (message_page \<Rightarrow> id option) \<Rightarrow> id \<Rightarrow> message_page list \<Rightarrow> bool"
where
  "page_chain fetch nxt c [] = False"
| "page_chain fetch nxt c [p] = (fetch c = Some p \<and> \<not> pg_hasMore p)"
| "page_chain fetch nxt c (p # q # ps) = (fetch c = Some p \<and> pg_hasMore p
     \<and> nxt p \<noteq> None \<and> nxt p \<noteq> Some c \<and> page_chain fetch nxt (the (nxt p)) (q # ps))"

abbreviation page_ids :: "message_page list \<Rightarrow> id set" where
  "page_ids ps \<equiv> gm_id ` (\<Union>p \<in> set ps. set (pg_items p))"

lemma gap_loop_chain:
  assumes "page_chain fetch nxt c ps" and "keyed_by_id m"
  shows "\<exists>m'. gap_loop fetch nxt left c m n = Some (m', n + min left (length ps), left < length ps)
    \<and> keyed_by_id m' \<and> fst ` set m' = fst ` set m \<union> page_ids (take left ps)"
  using assms
proof (induction fetch nxt c ps arbitrary: left m n rule: page_chain.induct)
  case (1 fetch nxt c)
  then show ?case by simp
next
  case (2 fetch nxt c p)
  then show ?case
    using keyed_add [of m "pg_items p"] by (cases left) (auto simp: Let_def)
next
  case (3 fetch nxt c p q ps)
  show ?case
  proof (cases left)
    case 0
    with 3 show ?thesis by simp
  next
    case (Suc l)
    from "3.prems" obtain c' where c': "nxt p = Some c'" "c' \<noteq> c" by auto
    with "3.prems" have chain: "page_chain fetch nxt (the (nxt p)) (q # ps)" by simp
    note m' = keyed_add [OF "3.prems"(2), of "pg_items p"]
    from "3.IH" [OF chain m' [THEN conjunct1], of l "n + 1"] c' obtain m'' where
      "gap_loop fetch nxt l c' (add_items m (pg_items p)) (n + 1)
         = Some (m'', n + 1 + min l (length (q # ps)), l < length (q # ps))"
      "keyed_by_id m''"
      "fst ` set m'' = fst ` set (add_items m (pg_items p)) \<union> page_ids (take l (q # ps))"
      by auto
    with Suc c' "3.prems" m' show ?thesis by (auto simp: Let_def image_Un)
  qed
qed

lemma gap_loop_bounds:
  "gap_loop fetch nxt left c m n = Some (m', n', tr) \<Longrightarrow> n \<le> n' \<and> n' \<le> n + left \<and> (tr \<longrightarrow> n' = n + left)"
proof (induction fetch nxt left c m n rule: gap_loop.induct)
  case (1 fetch nxt c m n)
  then show ?case by simp
next
  case (2 fetch nxt left c m n)
  then show ?case by (force simp: Let_def split: option.splits if_splits)
qed

definition additions_to :: "message_page list \<Rightarrow> gap_message list \<Rightarrow> gap_message list" where
  "additions_to pages fetched = filter (\<lambda>m. gm_parent m = None \<and> gm_id m \<notin> page_ids pages) fetched"

lemma merge_Nil: "mergeGapMessages lc (Some []) fetched = Some []"
  by (simp add: mergeGapMessages_def)

lemma merge_Cons:
  "mergeGapMessages lc (Some (p # ps)) fetched =
     (if additions_to (p # ps) fetched = [] then Some (p # ps)
      else Some (p\<lparr>pg_items := sort_by (merge_compare lc) (pg_items p @ additions_to (p # ps) fetched)\<rparr> # ps))"
  by (simp add: mergeGapMessages_def additions_to_def Let_def)

lemma merge_items:
  assumes "mergeGapMessages lc (Some pages) fetched = Some pages'" and "pages \<noteq> []"
  shows "(\<Union>p \<in> set pages'. set (pg_items p)) = (\<Union>p \<in> set pages. set (pg_items p)) \<union>
     set (additions_to pages fetched)"
  using assms by (cases pages) (auto simp: merge_Cons split: if_splits)

lemma merge_no_additions:
  assumes "\<And>m. m \<in> set fetched \<Longrightarrow> gm_parent m = None \<Longrightarrow> gm_id m \<in> page_ids pages"
  shows "mergeGapMessages lc (Some pages) fetched = Some pages"
proof -
  from assms have "additions_to pages fetched = []"
    unfolding additions_to_def filter_empty_conv by blast
  then show ?thesis by (cases pages) (simp_all add: merge_Nil merge_Cons)
qed

lemma merge_twice:
  "mergeGapMessages lc (mergeGapMessages lc old fetched) fetched = mergeGapMessages lc old fetched"
proof (cases old)
  case None
  then show ?thesis by (simp add: mergeGapMessages_def)
next
  case (Some pages)
  show ?thesis
  proof (cases "pages = []")
    case True
    with Some show ?thesis by (simp add: mergeGapMessages_def)
  next
    case False
    obtain pages' where p': "mergeGapMessages lc old fetched = Some pages'"
      using Some False by (cases pages; cases "additions_to pages fetched = []") (simp_all add: merge_Cons)
    note items = merge_items [OF p' [unfolded Some] False]
    have "gm_id m \<in> page_ids pages'" if "m \<in> set fetched" "gm_parent m = None" for m
      using that unfolding items by (cases "gm_id m \<in> page_ids pages") (auto simp: additions_to_def)
    with p' show ?thesis by (simp add: merge_no_additions)
  qed
qed

section \<open>Properties\<close>

text \<open>C28: No loss goes unnoticed: whatever sequence numbers a tracked channel observes, in any
  order, with repetitions and with the sentinel in between, every number between the tracked
  value at the start and the one at the end that was not observed lies in a hole that was
  reported.\<close>

theorem no_undetected_loss:
  assumes "map_of t ch = Some prev" and "map_of (snd (observe_all t ch ss)) ch = Some final"
    and "prev < k" and "k \<le> final" and "k \<notin> set ss"
  shows "\<exists>e g. Obs_hole e g \<in> set (fst (observe_all t ch ss)) \<and> e \<le> k \<and> k < g"
  by (rule lost_is_reported [OF assms])

theorem no_undetected_loss_witness:
  "\<exists>e g. Obs_hole e g \<in> set (fst (observe_all [(''c'', 4)] ''c'' [5, 9, -1, 6, 10])) \<and> e \<le> 7 \<and> 7 < g"
proof -
  have "map_of [(''c'', 4)] ''c'' = Some (4 :: int)"
    "map_of (snd (observe_all [(''c'', 4)] ''c'' [5, 9, -1, 6, 10])) ''c'' = Some 10" by code_simp+
  from no_undetected_loss [OF this, of 7] show ?thesis by simp
qed

text \<open>No false alarm while delivery is in order: if the observed numbers increase strictly,
  every number of a reported hole was skipped, and the number that ended the hole was
  observed.\<close>

lemma reported_holes_are_losses:
  assumes "map_of t ch = Some prev" and "sorted_wrt (<) (prev # ss)" and "0 \<le> prev"
    and "Obs_hole e g \<in> set (fst (observe_all t ch ss))" and "e \<le> k" and "k < g"
  shows "prev < k \<and> k \<notin> set ss \<and> g \<in> set ss"
  by (rule hole_is_lost [OF assms])

lemma reported_holes_are_losses_example: "(7 :: int) \<notin> set [5, 9, 10]"
proof -
  have "Obs_hole 6 9 \<in> set (fst (observe_all [(''c'', 4)] ''c'' [5, 9, 10]))" by code_simp
  from reported_holes_are_losses [OF _ _ _ this, of 4 7] show ?thesis by simp
qed

text \<open>The gap fetch against a paging server: if the pages from the cursor on end with a page
  without more, it returns (it never rejects and never loops), it fetches all of them up to
  ten, flags truncation exactly when there were more than ten, and its messages are, each id
  once, those of the fetched pages.\<close>

lemma gap_fetch_complete:
  assumes "page_chain fetch nxt c ps"
  shows "\<exists>r. runGapFetch lc fetch nxt c = Some r
    \<and> gr_pages r = min 10 (length ps) \<and> (gr_truncated r \<longleftrightarrow> 10 < length ps)
    \<and> distinct (map gm_id (gr_messages r)) \<and> gm_id ` set (gr_messages r) = page_ids (take 10 ps)"
proof -
  have "keyed_by_id []" by (simp add: keyed_by_id_def)
  from gap_loop_chain [OF assms this, of 10 0] obtain m where
    m: "gap_loop fetch nxt 10 c [] 0 = Some (m, min 10 (length ps), 10 < length ps)"
      "keyed_by_id m" "fst ` set m = page_ids (take 10 ps)" by auto
  from m(2) have "distinct (map gm_id (map snd m))" "gm_id ` snd ` set m = fst ` set m"
    by (simp_all add: keyed_ids keyed_by_id_def image_image) (force simp: keyed_by_id_def)
  with m show ?thesis
    by (simp add: runGapFetch_def GAP_FETCH_MAX_PAGES_def Let_def del: map_map)
qed

abbreviation example_message :: "id \<Rightarrow> int \<Rightarrow> gap_message" where
  "example_message i t \<equiv> \<lparr>gm_id = i, gm_createdAt = t, gm_parent = None, gm_body = []\<rparr>"

abbreviation example_page :: "id \<Rightarrow> int \<Rightarrow> bool \<Rightarrow> id \<Rightarrow> message_page" where
  "example_page i t b c \<equiv> \<lparr>pg_items = [example_message i t], pg_hasMore = b, pg_prevCursor = Some c\<rparr>"

lemma gap_fetch_complete_example:
  "\<exists>r. runGapFetch (\<lambda>a b. if a = b then 0 else if a = ''m1'' then -1 else 1)
      (\<lambda>c. if c = ''a'' then Some (example_page ''m1'' 1 True ''b'') else Some (example_page ''m2'' 2 False ''c''))
      pg_prevCursor ''a'' = Some r \<and> gr_pages r = 2 \<and> \<not> gr_truncated r
     \<and> gm_id ` set (gr_messages r) = {''m1'', ''m2''}"
proof -
  let ?fetch = "\<lambda>c. if c = ''a'' then Some (example_page ''m1'' 1 True ''b'') else Some (example_page ''m2'' 2 False ''c'')"
  have "page_chain ?fetch pg_prevCursor ''a'' [example_page ''m1'' 1 True ''b'', example_page ''m2'' 2 False ''c'']"
    by simp
  from gap_fetch_complete [OF this, of "\<lambda>a b. if a = b then 0 else if a = ''m1'' then -1 else 1"]
  show ?thesis by (elim exE conjE) (intro exI conjI, assumption, auto)
qed

text \<open>Merging fetched messages into the cache is idempotent, so the live dispatcher and the
  gap fetch may both deliver a message: merging the same fetch twice changes nothing more.\<close>

lemma gap_merge_idempotent:
  "mergeGapMessages lc (mergeGapMessages lc old fetched) fetched = mergeGapMessages lc old fetched"
  by (rule merge_twice)

text \<open>The replay after a reconnect is exact: when the buffer still holds the client's last
  event, \<open>rangeAfter\<close> returns everything appended after its first occurrence and nothing else;
  when it does not, no event is sent and the answer says truncated.\<close>

lemma replay_exact:
  "(l \<notin> re_id ` set parsed \<longrightarrow> rangeAfter parsed (Some l) = ([], True)) \<and>
   (re_id e = l \<and> l \<notin> re_id ` set before \<longrightarrow>
      rangeAfter (before @ e # after) (Some l) = (after, False))"
proof -
  have "rangeAfter (before @ e # after) (Some l) = (after, False)"
    if "re_id e = l" "l \<notin> re_id ` set before"
  proof -
    from that have "dropWhile (\<lambda>e. re_id e \<noteq> l) (before @ e # after) = e # after"
      by (induction before) auto
    with that show ?thesis by (simp add: rangeAfter_def list_ex_iff)
  qed
  moreover have "l \<notin> re_id ` set parsed \<longrightarrow> rangeAfter parsed (Some l) = ([], True)"
    by (auto simp: rangeAfter_def list_ex_iff)
  ultimately show ?thesis by blast
qed

abbreviation example_event :: "id \<Rightarrow> replay_event" where
  "example_event i \<equiv> \<lparr>re_id = i, re_type = ''message.created'', re_occurredAt = [], re_payload = []\<rparr>"

lemma replay_exact_example:
  "rangeAfter [example_event ''a'', example_event ''b'', example_event ''c''] (Some ''b'') = ([example_event ''c''], False)
   \<and> rangeAfter [example_event ''a''] (Some ''z'') = ([], True)"
  using replay_exact [of "''b''" "[]" "example_event ''b''" "[example_event ''a'']" "[example_event ''c'']"]
    replay_exact [of "''z''" "[example_event ''a'']" "example_event ''b''" "[]" "[]"]
  by simp

end
