(* ===== verification/Sync_Orchestrator.thy ===== *)
theory Sync_Orchestrator
  imports Channel_Sync
begin

text \<open>
  The orchestrator of the reconnect synchronisation: \<open>apps/web/src/features/realtime/\<close>
  \<open>useChannelSync.ts\<close> (\<open>installChannelSync\<close>, \<open>syncChannelOnce\<close>), \<open>channelSyncStore.ts\<close> and
  \<open>gapFetchQueue.ts\<close>. One step is one callback of the browser: a socket event, a retry timer
  that fires, a gap fetch task that settles (with the microtasks it releases, which run before
  any other callback), or the eviction of a channel from the LRU cache.

  The route lookup \<open>resolveChannelRoute\<close>, the collation and the REST call are parameters. A
  settled task carries the answers of the REST call as the function \<open>fetchPage\<close>; \<open>None\<close> is a
  request that fails.
\<close>

section \<open>State\<close>

datatype toast = PartialSync | SyncFailedToast

record sync_env =
  se_route :: "id \<Rightarrow> bool"  \<comment> \<open>\<open>resolveChannelRoute\<close> finds the channel\<close>
  se_collate :: "id \<Rightarrow> id \<Rightarrow> int"
  se_concurrency :: nat

record sync_sys =
  sy_states :: "id \<rightharpoonup> sync_state"
  sy_truncated :: "id \<rightharpoonup> bool"
  sy_seq :: seq_tracker
  sy_pending :: "id \<rightharpoonup> pending_buffer"
  sy_backoff :: "id \<rightharpoonup> nat"
  sy_timers :: "id \<rightharpoonup> nat"  \<comment> \<open>the delay of the retry timer that waits\<close>
  sy_queue :: "id list"
  sy_active :: "id list"
  sy_inflight :: "id \<rightharpoonup> nat"  \<comment> \<open>callers that wait for the shared promise\<close>
  sy_cache :: "id \<rightharpoonup> message_page list"
  sy_lastRead :: "id \<rightharpoonup> id option"
  sy_toasts :: "toast list"
  sy_detached :: bool

definition initial_sys :: sync_sys where
  "initial_sys = \<lparr>sy_states = Map.empty, sy_truncated = Map.empty, sy_seq = [], sy_pending = Map.empty,
     sy_backoff = Map.empty, sy_timers = Map.empty, sy_queue = [], sy_active = [],
     sy_inflight = Map.empty, sy_cache = Map.empty, sy_lastRead = Map.empty, sy_toasts = [],
     sy_detached = False\<rparr>"

section \<open>The store\<close>

definition store_get :: "sync_sys \<Rightarrow> id \<Rightarrow> sync_state" where
  "store_get s ch = (case sy_states s ch of None \<Rightarrow> DISCONNECTED | Some st \<Rightarrow> st)"

definition dispatch :: "sync_sys \<Rightarrow> id \<Rightarrow> sync_event \<Rightarrow> sync_sys" where
  "dispatch s ch e =
     (let current = store_get s ch; nxt = transition current e
      in if nxt \<noteq> current then s\<lparr>sy_states := (sy_states s)(ch \<mapsto> nxt)\<rparr> else s)"

definition setTruncated :: "sync_sys \<Rightarrow> id \<Rightarrow> bool \<Rightarrow> sync_sys" where
  "setTruncated s ch v =
     (if (case sy_truncated s ch of None \<Rightarrow> False | Some b \<Rightarrow> b) = v then s
      else s\<lparr>sy_truncated := (sy_truncated s)(ch \<mapsto> v)\<rparr>)"

definition store_reset :: "sync_sys \<Rightarrow> id \<Rightarrow> sync_sys" where
  "store_reset s ch = s\<lparr>sy_states := (sy_states s)(ch := None), sy_truncated := (sy_truncated s)(ch := None)\<rparr>"

section \<open>The queue\<close>

text \<open>\<open>pump\<close> moves waiting tasks into the free slots, in order.\<close>

definition pump :: "sync_env \<Rightarrow> sync_sys \<Rightarrow> sync_sys" where
  "pump env s =
     (let free = se_concurrency env - length (sy_active s)
      in s\<lparr>sy_active := sy_active s @ take free (sy_queue s), sy_queue := drop free (sy_queue s)\<rparr>)"

definition enqueue :: "sync_env \<Rightarrow> sync_sys \<Rightarrow> id \<Rightarrow> sync_sys" where
  \<comment> \<open>the caller's continuations are attached to the promise it returns\<close>
  "enqueue env s ch =
     (case sy_inflight s ch of
        Some n \<Rightarrow> s\<lparr>sy_inflight := (sy_inflight s)(ch \<mapsto> n + 1)\<rparr>
      | None \<Rightarrow> (pump env (s\<lparr>sy_queue := sy_queue s @ [ch]\<rparr>))
                 \<lparr>sy_inflight := (sy_inflight s)(ch \<mapsto> 1)\<rparr>)"

section \<open>Pending events, backoff, retry\<close>

definition pendingFor :: "sync_sys \<Rightarrow> id \<Rightarrow> pending_buffer" where
  "pendingFor s ch = (case sy_pending s ch of None \<Rightarrow> empty_buffer | Some b \<Rightarrow> b)"

definition drain_pending :: "sync_sys \<Rightarrow> id \<Rightarrow> sync_sys" where
  "drain_pending s ch = s\<lparr>sy_pending := (sy_pending s)(ch \<mapsto> snd (pending_drain (pendingFor s ch)))\<rparr>"

definition backoffFor :: "sync_sys \<Rightarrow> id \<Rightarrow> nat" where
  "backoffFor s ch = (case sy_backoff s ch of None \<Rightarrow> 0 | Some n \<Rightarrow> n)"

definition scheduleRetry :: "sync_sys \<Rightarrow> id \<Rightarrow> nat \<Rightarrow> sync_sys" where
  "scheduleRetry s ch delay = s\<lparr>sy_timers := (sy_timers s)(ch \<mapsto> delay)\<rparr>"

definition runSync :: "sync_env \<Rightarrow> sync_sys \<Rightarrow> id \<Rightarrow> sync_sys" where
  "runSync env s ch =
     (if \<not> se_route env ch then drain_pending (dispatch s ch SyncedE) ch else enqueue env s ch)"

definition on_success :: "id \<Rightarrow> sync_sys \<Rightarrow> sync_sys" where
  "on_success ch s =
     (if sy_detached s then s
      else dispatch (s\<lparr>sy_backoff := (sy_backoff s)(ch \<mapsto> 0)\<rparr>) ch SyncedE)"

definition on_failure :: "id \<Rightarrow> sync_sys \<Rightarrow> sync_sys" where
  "on_failure ch s =
     (if sy_detached s then s
      else let attempt = backoffFor s ch;
               delay = backoff_delay attempt;
               s' = s\<lparr>sy_backoff := (sy_backoff s)(ch \<mapsto> attempt + 1)\<rparr>
           in if backoff_exhausted (attempt + 1)
              then (dispatch s' ch FailedE)\<lparr>sy_toasts := sy_toasts s @ [SyncFailedToast]\<rparr>
              else scheduleRetry s' ch delay)"

definition enterGapFetch :: "sync_env \<Rightarrow> sync_event \<Rightarrow> sync_sys \<Rightarrow> id \<Rightarrow> sync_sys" where
  "enterGapFetch env reason s ch =
     (let s' = dispatch s ch reason
      in if store_get s' ch = GAP_FETCHING
         then runSync env (s'\<lparr>sy_backoff := (sy_backoff s')(ch \<mapsto> 0)\<rparr>) ch
         else s')"

text \<open>\<open>syncChannelOnce\<close>: \<open>None\<close> when the promise rejects.\<close>

definition syncChannelOnce :: "sync_env \<Rightarrow> (id \<Rightarrow> message_page option) \<Rightarrow> sync_sys \<Rightarrow> id \<Rightarrow> sync_sys option"
where
  "syncChannelOnce env fetchPage s ch =
     (let after = (case sy_cache s ch of None \<Rightarrow> None
                   | Some pages \<Rightarrow> (case pages of [] \<Rightarrow> None | p # _ \<Rightarrow> pg_prevCursor p));
          fetched = (case after of None \<Rightarrow> Some s
            | Some c \<Rightarrow>
                (case runGapFetch (se_collate env) fetchPage pg_prevCursor c of
                   None \<Rightarrow> None
                 | Some r \<Rightarrow>
                    (let s' = s\<lparr>sy_cache := (sy_cache s)
                        (ch := mergeGapMessages (se_collate env) (sy_cache s ch) (gr_messages r))\<rparr>
                     in Some (if gr_truncated r then setTruncated s' ch True else s'))))
      in case fetched of None \<Rightarrow> None
         | Some s' \<Rightarrow>
            (let overflowed = pb_overflowed (pendingFor s' ch);
                 s'' = drain_pending s' ch
             in Some (if overflowed
                      then (setTruncated s'' ch True)\<lparr>sy_toasts := sy_toasts s'' @ [PartialSync]\<rparr>
                      else s'')))"

text \<open>
  A task settles: its slot is freed and the queue pumped, the promise leaves \<open>inflight\<close>, and
  the continuations of all its callers run.
\<close>

definition settle :: "sync_env \<Rightarrow> (id \<Rightarrow> sync_sys \<Rightarrow> sync_sys) \<Rightarrow> sync_sys \<Rightarrow> id \<Rightarrow> sync_sys" where
  "settle env continuation s ch =
     (let callers = (case sy_inflight s ch of None \<Rightarrow> 0 | Some n \<Rightarrow> n);
          s1 = pump env (s\<lparr>sy_active := filter (\<lambda>c. c \<noteq> ch) (sy_active s)\<rparr>);
          s2 = s1\<lparr>sy_inflight := (sy_inflight s1)(ch := None)\<rparr>
      in (continuation ch ^^ callers) s2)"

definition task_done :: "sync_env \<Rightarrow> (id \<Rightarrow> message_page option) \<Rightarrow> sync_sys \<Rightarrow> id \<Rightarrow> sync_sys" where
  "task_done env fetchPage s ch =
     (if ch \<notin> set (sy_active s) then s
      else case syncChannelOnce env fetchPage s ch of
        Some s' \<Rightarrow> settle env on_success s' ch
      | None \<Rightarrow> settle env on_failure s ch)"

section \<open>The socket handlers and the step\<close>

definition onChannelEvent :: "sync_env \<Rightarrow> id \<Rightarrow> id \<Rightarrow> id \<Rightarrow> int \<Rightarrow> sync_sys \<Rightarrow> sync_sys" where
  \<comment> \<open>event name, payload, and the channel and number \<open>readChannelEvent\<close> finds in it\<close>
  "onChannelEvent env event payload ch n s =
     (if shouldBufferIncoming (store_get s ch)
      then s\<lparr>sy_pending := (sy_pending s)(ch \<mapsto> snd (pending_push (pendingFor s ch) event payload))\<rparr>
      else let (obs, t) = observe (sy_seq s) ch n; s' = s\<lparr>sy_seq := t\<rparr>
           in case obs of Obs_hole _ _ \<Rightarrow> enterGapFetch env SeqHole s' ch | _ \<Rightarrow> s')"

datatype sync_input =
    SockConnect | SockDisconnect
  | ChannelJoined id int "id option option"  \<comment> \<open>\<open>None\<close>: no \<open>lastReadMessageId\<close>\<close>
  | ReplayComplete
  | ReplayTruncated "id list option"
  | ChannelEvent id id id int
  | RetryFires id
  | TaskDone id "id \<Rightarrow> message_page option"
  | EvictChannel id bool  \<comment> \<open>whether its query is observed\<close>
  | Detach

definition sync_step :: "sync_env \<Rightarrow> sync_sys \<Rightarrow> sync_input \<Rightarrow> sync_sys" where
  "sync_step env s i = (case i of
      SockConnect \<Rightarrow> if sy_detached s then s
        else foldl (\<lambda>s ch. dispatch s ch Connect) s (channels (sy_seq s))
    | SockDisconnect \<Rightarrow> if sy_detached s then s
        else foldl (\<lambda>s ch. dispatch s ch Disconnect) s (channels (sy_seq s))
    | ChannelJoined ch n last_read \<Rightarrow> if sy_detached s then s
        else (let s' = s\<lparr>sy_seq := setBaseline (sy_seq s) ch (Some n)\<rparr>
              in case last_read of None \<Rightarrow> s'
                 | Some r \<Rightarrow> s'\<lparr>sy_lastRead := (sy_lastRead s')(ch \<mapsto> r)\<rparr>)
    | ReplayComplete \<Rightarrow> if sy_detached s then s
        else foldl (\<lambda>s ch. dispatch s ch ReplayCompleteE) s (channels (sy_seq s))
    | ReplayTruncated ids \<Rightarrow> if sy_detached s then s
        else foldl (enterGapFetch env GapNeeded) s
               (case ids of None \<Rightarrow> channels (sy_seq s) | Some chs \<Rightarrow> chs)
    | ChannelEvent event payload ch n \<Rightarrow> if sy_detached s then s
        else onChannelEvent env event payload ch n s
    | RetryFires ch \<Rightarrow>
        (case sy_timers s ch of None \<Rightarrow> s
         | Some _ \<Rightarrow> runSync env (s\<lparr>sy_timers := (sy_timers s)(ch := None)\<rparr>) ch)
    | TaskDone ch fetchPage \<Rightarrow> task_done env fetchPage s ch
    | EvictChannel ch observed \<Rightarrow>
        (let s' = store_reset (if observed then s else s\<lparr>sy_cache := (sy_cache s)(ch := None)\<rparr>) ch
         in if sy_detached s then s' else s'\<lparr>sy_seq := tracker_reset (sy_seq s') ch\<rparr>)
    | Detach \<Rightarrow> s\<lparr>sy_detached := True, sy_timers := Map.empty, sy_seq := []\<rparr>)"

section \<open>Lemmas: the invariant\<close>

lemma foldl_keeps: "(\<And>s x. I s \<Longrightarrow> I (f s x)) \<Longrightarrow> I s \<Longrightarrow> I (foldl f s xs)"
  by (induction xs arbitrary: s) auto

text \<open>Every channel with a promise has exactly one task, waiting or running; the slots are
  never exceeded, and no task waits while one is free.\<close>

definition queue_ok :: "sync_env \<Rightarrow> sync_sys \<Rightarrow> bool" where
  "queue_ok env s \<longleftrightarrow> distinct (sy_queue s @ sy_active s)
     \<and> set (sy_queue s @ sy_active s) = dom (sy_inflight s) \<and> 0 \<notin> ran (sy_inflight s)
     \<and> length (sy_active s) \<le> se_concurrency env
     \<and> (sy_queue s \<noteq> [] \<longrightarrow> length (sy_active s) = se_concurrency env)"

definition buffers_ok :: "sync_sys \<Rightarrow> bool" where
  "buffers_ok s \<longleftrightarrow> (\<forall>b \<in> ran (sy_pending s). length (pb_buf b) \<le> PENDING_EVENTS_MAX)"

text \<open>A channel in GAP_FETCHING has a task or a retry timer that will move it on.\<close>

definition attended :: "sync_sys \<Rightarrow> id \<Rightarrow> bool" where
  "attended s ch \<longleftrightarrow> sy_detached s \<or> store_get s ch \<noteq> GAP_FETCHING
     \<or> ch \<in> dom (sy_inflight s) \<or> ch \<in> dom (sy_timers s)"

definition sync_inv :: "sync_env \<Rightarrow> sync_sys \<Rightarrow> bool" where
  "sync_inv env s \<longleftrightarrow> queue_ok env s \<and> buffers_ok s \<and> (\<forall>ch. attended s ch)"

lemma sync_inv_initial: "sync_inv env initial_sys"
  by (simp add: sync_inv_def queue_ok_def buffers_ok_def attended_def initial_sys_def store_get_def)

lemma queue_ok_cong:
  "sy_queue s' = sy_queue s \<Longrightarrow> sy_active s' = sy_active s \<Longrightarrow> sy_inflight s' = sy_inflight s \<Longrightarrow>
   queue_ok env s' = queue_ok env s"
  by (simp add: queue_ok_def)

lemma buffers_ok_cong: "sy_pending s' = sy_pending s \<Longrightarrow> buffers_ok s' = buffers_ok s"
  by (simp add: buffers_ok_def)

lemma dispatch_keeps [simp]:
  "sy_queue (dispatch s ch e) = sy_queue s" "sy_active (dispatch s ch e) = sy_active s"
  "sy_inflight (dispatch s ch e) = sy_inflight s" "sy_pending (dispatch s ch e) = sy_pending s"
  "sy_timers (dispatch s ch e) = sy_timers s" "sy_detached (dispatch s ch e) = sy_detached s"
  "sy_backoff (dispatch s ch e) = sy_backoff s" "sy_seq (dispatch s ch e) = sy_seq s"
  "sy_toasts (dispatch s ch e) = sy_toasts s"
  by (simp_all add: dispatch_def Let_def)

lemma store_get_dispatch [simp]:
  "store_get (dispatch s ch e) c = (if c = ch then transition (store_get s ch) e else store_get s c)"
  by (auto simp: dispatch_def store_get_def Let_def)

lemma setTruncated_keeps [simp]:
  "sy_queue (setTruncated s ch v) = sy_queue s" "sy_active (setTruncated s ch v) = sy_active s"
  "sy_inflight (setTruncated s ch v) = sy_inflight s" "sy_pending (setTruncated s ch v) = sy_pending s"
  "sy_timers (setTruncated s ch v) = sy_timers s" "sy_detached (setTruncated s ch v) = sy_detached s"
  "sy_states (setTruncated s ch v) = sy_states s" "sy_toasts (setTruncated s ch v) = sy_toasts s"
  by (simp_all add: setTruncated_def)

lemma drain_keeps [simp]:
  "sy_queue (drain_pending s ch) = sy_queue s" "sy_active (drain_pending s ch) = sy_active s"
  "sy_inflight (drain_pending s ch) = sy_inflight s" "sy_timers (drain_pending s ch) = sy_timers s"
  "sy_detached (drain_pending s ch) = sy_detached s" "sy_states (drain_pending s ch) = sy_states s"
  by (simp_all add: drain_pending_def)

lemma attended_cong:
  "sy_states s' = sy_states s \<Longrightarrow> sy_inflight s' = sy_inflight s \<Longrightarrow> sy_timers s' = sy_timers s \<Longrightarrow>
   sy_detached s' = sy_detached s \<Longrightarrow> attended s' ch = attended s ch"
  by (simp add: attended_def store_get_def)

lemma pump_keeps [simp]:
  "sy_inflight (pump env s) = sy_inflight s" "sy_pending (pump env s) = sy_pending s"
  "sy_timers (pump env s) = sy_timers s" "sy_detached (pump env s) = sy_detached s"
  "sy_states (pump env s) = sy_states s"
  by (simp_all add: pump_def Let_def)

lemma pump_queue_ok:
  assumes "distinct (sy_queue s @ sy_active s)"
    and "set (sy_queue s @ sy_active s) = dom (sy_inflight s)" and "0 \<notin> ran (sy_inflight s)"
    and "length (sy_active s) \<le> se_concurrency env"
  shows "queue_ok env (pump env s)"
proof -
  let ?k = "se_concurrency env - length (sy_active s)"
  have parts: "set (take ?k (sy_queue s)) \<union> set (drop ?k (sy_queue s)) = set (sy_queue s)"
    "set (take ?k (sy_queue s)) \<inter> set (drop ?k (sy_queue s)) = {}"
    using assms(1) by (simp_all add: set_append [symmetric] set_take_disj_set_drop_if_distinct
        del: set_append)
  with assms have "distinct (drop ?k (sy_queue s) @ sy_active s @ take ?k (sy_queue s))"
    "set (drop ?k (sy_queue s) @ sy_active s @ take ?k (sy_queue s)) = dom (sy_inflight s)"
    by auto
  with assms show ?thesis by (auto simp: pump_def Let_def queue_ok_def)
qed

lemma enqueue_queue_ok:
  assumes ok: "queue_ok env s"
  shows "queue_ok env (enqueue env s ch)"
proof (cases "sy_inflight s ch")
  case (Some n)
  with ok show ?thesis by (auto simp: enqueue_def queue_ok_def ran_def insert_absorb domI)
next
  case None
  let ?s = "s\<lparr>sy_queue := sy_queue s @ [ch], sy_inflight := (sy_inflight s)(ch \<mapsto> 1)\<rparr>"
  from ok have "set (sy_queue s @ sy_active s) = dom (sy_inflight s)" by (simp add: queue_ok_def)
  with None have "ch \<notin> set (sy_queue s @ sy_active s)" by (simp add: domIff)
  with ok None have "queue_ok env (pump env ?s)"
    by (intro pump_queue_ok) (auto simp: queue_ok_def ran_def)
  moreover have "enqueue env s ch = pump env ?s"
    using None by (simp add: enqueue_def pump_def Let_def)
  ultimately show ?thesis by simp
qed

lemma enqueue_keeps [simp]:
  "sy_pending (enqueue env s ch) = sy_pending s" "sy_timers (enqueue env s ch) = sy_timers s"
  "sy_detached (enqueue env s ch) = sy_detached s" "sy_states (enqueue env s ch) = sy_states s"
  "dom (sy_inflight (enqueue env s ch)) = insert ch (dom (sy_inflight s))"
  by (auto simp: enqueue_def split: option.split)

lemma buffers_drain: "buffers_ok s \<Longrightarrow> buffers_ok (drain_pending s ch)"
  by (auto simp: buffers_ok_def drain_pending_def pending_drain_def empty_buffer_def ran_def)

lemma pendingFor_bound: "buffers_ok s \<Longrightarrow> length (pb_buf (pendingFor s ch)) \<le> PENDING_EVENTS_MAX"
  by (auto simp: buffers_ok_def pendingFor_def empty_buffer_def ran_def split: option.split)

lemma transition_not_fetching [simp]:
  "transition st SyncedE \<noteq> GAP_FETCHING" "transition st FailedE \<noteq> GAP_FETCHING"
  "transition st Disconnect \<noteq> GAP_FETCHING"
  "transition st Connect = GAP_FETCHING \<longleftrightarrow> st = GAP_FETCHING"
  "transition st ReplayCompleteE = GAP_FETCHING \<longleftrightarrow> st = GAP_FETCHING"
  by (cases st; simp add: transition_def)+

lemma store_get_keeps [simp]:
  "store_get (drain_pending s ch) c = store_get s c" "store_get (enqueue env s ch) c = store_get s c"
  "store_get (pump env s) c = store_get s c" "store_get (setTruncated s ch v) c = store_get s c"
  "store_get (s\<lparr>sy_backoff := bo\<rparr>) c = store_get s c" "store_get (s\<lparr>sy_timers := tm\<rparr>) c = store_get s c"
  "store_get (s\<lparr>sy_inflight := fl\<rparr>) c = store_get s c" "store_get (s\<lparr>sy_toasts := ts\<rparr>) c = store_get s c"
  "store_get (s\<lparr>sy_seq := sq\<rparr>) c = store_get s c" "store_get (s\<lparr>sy_active := act\<rparr>) c = store_get s c"
  "store_get (s\<lparr>sy_cache := ca\<rparr>) c = store_get s c" "store_get (s\<lparr>sy_lastRead := lr\<rparr>) c = store_get s c"
  "store_get (s\<lparr>sy_pending := pe\<rparr>) c = store_get s c"
  by (simp_all add: store_get_def)

text \<open>\<open>runSync\<close> attends the channel it is called for.\<close>

lemma runSync_keeps:
  assumes "queue_ok env s" and "buffers_ok s"
  shows "queue_ok env (runSync env s ch)" and "buffers_ok (runSync env s ch)"
    and "attended (runSync env s ch) ch" and "attended s c \<Longrightarrow> attended (runSync env s ch) c"
proof -
  let ?d = "drain_pending (dispatch s ch SyncedE) ch"
  have "queue_ok env ?d" using assms(1) by (simp cong: queue_ok_cong add: queue_ok_def)
  then show "queue_ok env (runSync env s ch)"
    by (simp add: runSync_def enqueue_queue_ok assms(1))
  have "buffers_ok ?d"
    by (rule buffers_drain) (use assms(2) in \<open>simp add: buffers_ok_def\<close>)
  then show "buffers_ok (runSync env s ch)"
    using assms(2) by (simp add: runSync_def buffers_ok_def)
  show "attended (runSync env s ch) ch"
    by (simp add: runSync_def attended_def)
  show "attended s c \<Longrightarrow> attended (runSync env s ch) c"
    by (auto simp: runSync_def attended_def)
qed

text \<open>What the continuations of a settled promise share.\<close>

definition continuation_ok :: "(id \<Rightarrow> sync_sys \<Rightarrow> sync_sys) \<Rightarrow> bool" where
  "continuation_ok k \<longleftrightarrow> (\<forall>ch s. sy_queue (k ch s) = sy_queue s \<and> sy_active (k ch s) = sy_active s
     \<and> sy_inflight (k ch s) = sy_inflight s \<and> sy_pending (k ch s) = sy_pending s
     \<and> attended (k ch s) ch \<and> (\<forall>c. attended s c \<longrightarrow> attended (k ch s) c))"

lemma on_success_ok: "continuation_ok on_success"
  by (auto simp: continuation_ok_def on_success_def attended_def)

lemma on_failure_ok: "continuation_ok on_failure"
  by (auto simp: continuation_ok_def on_failure_def attended_def Let_def scheduleRetry_def)

lemma continuation_power:
  assumes "continuation_ok k"
  shows "sy_queue ((k ch ^^ n) s) = sy_queue s \<and> sy_active ((k ch ^^ n) s) = sy_active s
     \<and> sy_inflight ((k ch ^^ n) s) = sy_inflight s \<and> sy_pending ((k ch ^^ n) s) = sy_pending s
     \<and> (0 < n \<longrightarrow> attended ((k ch ^^ n) s) ch) \<and> (\<forall>c. attended s c \<longrightarrow> attended ((k ch ^^ n) s) c)"
  using assms by (induction n) (simp_all add: continuation_ok_def)

lemma pump_inflight: "pump env (s\<lparr>sy_active := a, sy_inflight := f\<rparr>)
    = (pump env (s\<lparr>sy_active := a\<rparr>))\<lparr>sy_inflight := f\<rparr>"
  by (rule sync_sys.equality) (simp_all add: pump_def Let_def)

lemma settle_inv:
  assumes inv: "sync_inv env s" and ch: "ch \<in> set (sy_active s)" and k: "continuation_ok k"
  shows "sync_inv env (settle env k s ch)"
proof -
  let ?a = "s\<lparr>sy_active := filter (\<lambda>c. c \<noteq> ch) (sy_active s), sy_inflight := (sy_inflight s)(ch := None)\<rparr>"
  have q: "distinct (sy_queue s @ sy_active s)" "set (sy_queue s @ sy_active s) = dom (sy_inflight s)"
    "0 \<notin> ran (sy_inflight s)" "length (sy_active s) \<le> se_concurrency env"
    using inv by (simp_all add: sync_inv_def queue_ok_def)
  from q(2) ch obtain n where n: "sy_inflight s ch = Some n" by auto
  with q(3) have "0 < n" by (auto simp: ran_def intro: gr0I)
  have "set (sy_queue ?a @ sy_active ?a) = dom (sy_inflight ?a)"
    using q(1,2) ch by auto
  moreover have "0 \<notin> ran (sy_inflight ?a)" using q(3) by (auto simp: ran_def)
  moreover have "length (sy_active ?a) \<le> se_concurrency env"
    using q(4) le_trans [OF length_filter_le] by simp
  ultimately have pumped: "queue_ok env (pump env ?a)" using q(1) by (intro pump_queue_ok) auto
  have eq: "settle env k s ch = (k ch ^^ n) (pump env ?a)"
    using n by (simp add: settle_def Let_def pump_inflight)
  have others: "attended (pump env ?a) c" if "c \<noteq> ch" for c
    using inv that by (auto simp: sync_inv_def attended_def)
  note power = continuation_power [OF k, where ch = ch and n = n and s = "pump env ?a"]
  have "queue_ok env (settle env k s ch)"
    using pumped power unfolding eq by (simp add: queue_ok_def)
  moreover have "buffers_ok (settle env k s ch)"
    using inv power unfolding eq by (simp add: sync_inv_def buffers_ok_def)
  moreover have "attended (settle env k s ch) c" for c
    using power others \<open>0 < n\<close> unfolding eq by (cases "c = ch") auto
  ultimately show ?thesis by (simp add: sync_inv_def)
qed

lemma sync_once_keeps:
  assumes "syncChannelOnce env fetch s ch = Some s'"
  shows "sy_queue s' = sy_queue s" "sy_active s' = sy_active s" "sy_inflight s' = sy_inflight s"
    "sy_states s' = sy_states s" "sy_timers s' = sy_timers s" "sy_detached s' = sy_detached s"
    "buffers_ok s \<Longrightarrow> buffers_ok s'"
proof -
  have pend: "buffers_ok s \<Longrightarrow> sy_pending s2 = sy_pending (drain_pending s1 ch) \<Longrightarrow> sy_pending s1 = sy_pending s
      \<Longrightarrow> buffers_ok s2" for s1 s2
    using buffers_drain [of s1 ch] by (simp add: buffers_ok_def)
  show "sy_queue s' = sy_queue s" "sy_active s' = sy_active s" "sy_inflight s' = sy_inflight s"
    "sy_states s' = sy_states s" "sy_timers s' = sy_timers s" "sy_detached s' = sy_detached s"
    using assms by (auto simp: syncChannelOnce_def Let_def split: option.splits list.splits if_splits)
  show "buffers_ok s \<Longrightarrow> buffers_ok s'"
    using assms by (auto simp: syncChannelOnce_def Let_def intro: pend
        split: option.splits list.splits if_splits)
qed

lemma sync_inv_cong:
  assumes "sync_inv env s" and "sy_queue s' = sy_queue s" "sy_active s' = sy_active s"
    "sy_inflight s' = sy_inflight s" and "buffers_ok s \<Longrightarrow> buffers_ok s'"
    and "\<And>ch. attended s ch \<Longrightarrow> attended s' ch"
  shows "sync_inv env s'"
  using assms by (simp add: sync_inv_def queue_ok_def)

lemma task_done_inv: "sync_inv env s \<Longrightarrow> sync_inv env (task_done env fetch s ch)"
proof -
  assume inv: "sync_inv env s"
  show ?thesis
  proof (cases "ch \<in> set (sy_active s)")
    case False
    with inv show ?thesis by (simp add: task_done_def)
  next
    case True
    show ?thesis
    proof (cases "syncChannelOnce env fetch s ch")
      case None
      with inv True show ?thesis by (simp add: task_done_def settle_inv on_failure_ok)
    next
      case (Some s')
      note keeps = sync_once_keeps [OF Some]
      have "sync_inv env s'"
        by (rule sync_inv_cong [OF inv]) (use keeps in \<open>simp_all add: attended_def store_get_def\<close>)
      with Some True keeps(2) show ?thesis by (simp add: task_done_def settle_inv on_success_ok)
    qed
  qed
qed

lemma runSync_inv:
  assumes "queue_ok env s" and "buffers_ok s" and "\<And>c. c \<noteq> ch \<Longrightarrow> attended s c"
  shows "sync_inv env (runSync env s ch)"
  using runSync_keeps [OF assms(1,2), where ch = ch] assms(3) unfolding sync_inv_def by metis

lemma enterGapFetch_inv:
  assumes inv: "sync_inv env s"
  shows "sync_inv env (enterGapFetch env reason s ch)"
proof (cases "store_get (dispatch s ch reason) ch = GAP_FETCHING")
  case True
  let ?s = "(dispatch s ch reason)\<lparr>sy_backoff := (sy_backoff (dispatch s ch reason))(ch \<mapsto> 0)\<rparr>"
  have "sync_inv env (runSync env ?s ch)"
    by (rule runSync_inv) (use inv in \<open>auto simp: sync_inv_def queue_ok_def buffers_ok_def attended_def\<close>)
  with True show ?thesis by (simp add: enterGapFetch_def)
next
  case False
  have "sync_inv env (dispatch s ch reason)"
    by (rule sync_inv_cong [OF inv]) (use False in \<open>auto simp: attended_def buffers_ok_def\<close>)
  with False show ?thesis by (simp add: enterGapFetch_def)
qed

lemma dispatch_inv:
  assumes "sync_inv env s" and "e \<in> {Connect, Disconnect, ReplayCompleteE}"
  shows "sync_inv env (dispatch s ch e)"
  by (rule sync_inv_cong [OF assms(1)]) (use assms(2) in \<open>auto simp: attended_def buffers_ok_def\<close>)

lemma onChannelEvent_inv:
  assumes inv: "sync_inv env s"
  shows "sync_inv env (onChannelEvent env event payload ch n s)"
proof (cases "shouldBufferIncoming (store_get s ch)")
  case True
  have "length (pb_buf (snd (pending_push (pendingFor s ch) event payload))) \<le> PENDING_EVENTS_MAX"
    using pendingFor_bound [of s ch] inv by (auto simp: pending_push_def sync_inv_def)
  then have "sync_inv env (s\<lparr>sy_pending := (sy_pending s)(ch \<mapsto> snd (pending_push (pendingFor s ch) event payload))\<rparr>)"
    by (intro sync_inv_cong [OF inv]) (auto simp: attended_def buffers_ok_def ran_def)
  with True show ?thesis by (simp add: onChannelEvent_def)
next
  case False
  have "sync_inv env (s\<lparr>sy_seq := t\<rparr>)" for t
    by (rule sync_inv_cong [OF inv]) (auto simp: attended_def buffers_ok_def)
  with False show ?thesis
    by (auto simp: onChannelEvent_def Let_def enterGapFetch_inv split: prod.split seq_observation.split)
qed

interpretation sync: invariant_machine "sync_step env" "sync_inv env" "\<lambda>_. True" for env
proof unfold_locales
  fix s i
  assume inv: "sync_inv env s"
  have same: "sync_inv env s'" if "sy_queue s' = sy_queue s" "sy_active s' = sy_active s"
      "sy_inflight s' = sy_inflight s" "sy_pending s' = sy_pending s" "\<And>ch. attended s ch \<Longrightarrow> attended s' ch" for s'
    by (rule sync_inv_cong [OF inv]) (use that in \<open>simp_all add: buffers_ok_def\<close>)
  show "sync_inv env (sync_step env s i)"
  proof (cases i)
    case (RetryFires ch)
    have "sync_inv env (runSync env (s\<lparr>sy_timers := (sy_timers s)(ch := None)\<rparr>) ch)"
      by (rule runSync_inv) (use inv in \<open>auto simp: sync_inv_def queue_ok_def buffers_ok_def attended_def\<close>)
    with RetryFires inv show ?thesis by (simp add: sync_step_def split: option.split)
  next
    case SockConnect
    with inv show ?thesis by (auto simp: sync_step_def dispatch_inv intro!: foldl_keeps [of "sync_inv env"])
  next
    case SockDisconnect
    with inv show ?thesis by (auto simp: sync_step_def dispatch_inv intro!: foldl_keeps [of "sync_inv env"])
  next
    case ReplayComplete
    with inv show ?thesis by (auto simp: sync_step_def dispatch_inv intro!: foldl_keeps [of "sync_inv env"])
  next
    case (ReplayTruncated ids)
    with inv show ?thesis
      by (auto simp: sync_step_def enterGapFetch_inv intro!: foldl_keeps [of "sync_inv env"])
  next
    case (ChannelJoined ch n r)
    then show ?thesis
      by (intro same) (auto simp: sync_step_def Let_def attended_def split: option.split)
  next
    case (ChannelEvent e p ch n)
    with inv show ?thesis by (simp add: sync_step_def onChannelEvent_inv)
  next
    case (TaskDone ch fetch)
    with inv show ?thesis by (simp add: sync_step_def task_done_inv)
  next
    case (EvictChannel ch observed)
    then show ?thesis
      by (intro same) (auto simp: sync_step_def Let_def attended_def store_reset_def store_get_def)
  next
    case Detach
    then show ?thesis by (intro same) (auto simp: sync_step_def attended_def)
  qed
qed

section \<open>Lemmas: a first session\<close>

text \<open>As long as no channel was tracked when the socket connected, every channel stays in its
  initial state, so a hole cannot start anything.\<close>

definition idle :: "sync_sys \<Rightarrow> bool" where
  "idle s \<longleftrightarrow> (\<forall>ch. store_get s ch = DISCONNECTED) \<and> sy_queue s = [] \<and> sy_active s = []
     \<and> sy_timers s = Map.empty"

lemma transition_idle: "e \<noteq> Connect \<Longrightarrow> transition DISCONNECTED e = DISCONNECTED"
  by (simp add: transition_def)

lemma idle_dispatch: "idle s \<Longrightarrow> e \<noteq> Connect \<Longrightarrow> idle (dispatch s ch e)"
  by (simp add: idle_def transition_idle)

lemma idle_enter: "idle s \<Longrightarrow> reason \<noteq> Connect \<Longrightarrow> idle (enterGapFetch env reason s ch)"
  using transition_idle [of reason] by (simp add: enterGapFetch_def Let_def idle_def)

lemma idle_same:
  "idle s \<Longrightarrow> sy_states s' = sy_states s \<Longrightarrow> sy_queue s' = sy_queue s \<Longrightarrow> sy_active s' = sy_active s \<Longrightarrow>
   sy_timers s' = sy_timers s \<Longrightarrow> idle s'"
  by (simp add: idle_def store_get_def)

lemma idle_event: "idle s \<Longrightarrow> idle (onChannelEvent env e p ch n s)"
  by (auto simp: onChannelEvent_def Let_def idle_enter idle_same [of s] shouldBufferIncoming_def
      split: prod.split seq_observation.split)

interpretation first_session: invariant_machine "sync_step env" idle "\<lambda>i. i \<noteq> SockConnect" for env
proof unfold_locales
  fix s i
  assume s: "idle s" and i: "i \<noteq> SockConnect"
  show "idle (sync_step env s i)"
  proof (cases i)
    case SockDisconnect
    with s show ?thesis by (auto simp: sync_step_def idle_dispatch intro!: foldl_keeps [of idle])
  next
    case ReplayComplete
    with s show ?thesis by (auto simp: sync_step_def idle_dispatch intro!: foldl_keeps [of idle])
  next
    case (ReplayTruncated ids)
    with s show ?thesis by (auto simp: sync_step_def idle_enter intro!: foldl_keeps [of idle])
  next
    case (ChannelJoined ch n r)
    then show ?thesis
      by (intro idle_same [OF s]) (auto simp: sync_step_def Let_def split: option.split)
  next
    case (ChannelEvent e p ch n)
    with s show ?thesis by (simp add: sync_step_def idle_event)
  next
    case (RetryFires ch)
    with s show ?thesis by (simp add: sync_step_def idle_def)
  next
    case (TaskDone ch fetch)
    with s show ?thesis by (simp add: sync_step_def task_done_def idle_def)
  next
    case (EvictChannel ch observed)
    with s show ?thesis by (auto simp: sync_step_def Let_def idle_def store_reset_def store_get_def)
  next
    case Detach
    with s show ?thesis by (simp add: sync_step_def idle_def store_get_def)
  qed (use i in simp)
qed

section \<open>Properties\<close>

text \<open>Whatever the socket, the timers and the REST calls do, in any order, the gap fetches in
  flight never exceed the concurrency limit, no channel is fetched or queued twice, a task only
  waits when every slot is taken, and the buffer of a channel holds at most 200 events.\<close>

lemma gap_fetches_bounded:
  "length (sy_active (run_steps (sync_step env) initial_sys ins)) \<le> se_concurrency env
   \<and> distinct (sy_queue (run_steps (sync_step env) initial_sys ins)
        @ sy_active (run_steps (sync_step env) initial_sys ins))
   \<and> (sy_queue (run_steps (sync_step env) initial_sys ins) = []
      \<or> length (sy_active (run_steps (sync_step env) initial_sys ins)) = se_concurrency env)
   \<and> length (pb_buf (pendingFor (run_steps (sync_step env) initial_sys ins) ch)) \<le> PENDING_EVENTS_MAX"
proof -
  have "sync_inv env (run_steps (sync_step env) initial_sys ins)"
    by (rule sync.inv_run) (simp_all add: sync_inv_initial list_all_iff)
  then show ?thesis by (auto simp: sync_inv_def queue_ok_def pendingFor_bound)
qed


abbreviation example_env :: sync_env where
  "example_env \<equiv> \<lparr>se_route = (\<lambda>_. True), se_collate = (\<lambda>_ _. 0), se_concurrency = 5\<rparr>"

abbreviation reconnected :: sync_sys where
  "reconnected \<equiv> run_steps (sync_step example_env) initial_sys
     [SockConnect, ChannelJoined ''c'' 4 None, SockDisconnect, SockConnect, ReplayTruncated None]"


text \<open>Holes of a first session are not repaired: after the first connect of a session (when no
  channel is tracked yet) and until the next one, every channel stays DISCONNECTED and no gap
  fetch is queued, started or scheduled, whatever holes the events of the joined channels show
  and whatever the server reports as truncated. The diagram of the state machine says a hole
  leads to GAP_FETCHING from any state.\<close>

lemma first_session_ignores_holes:
  assumes "\<forall>i \<in> set ins. i \<noteq> SockConnect"
    and "s = run_steps (sync_step env) initial_sys (SockConnect # ins)"
  shows "store_get s ch = DISCONNECTED \<and> sy_queue s = [] \<and> sy_active s = [] \<and> sy_timers s ch = None"
proof -
  have "sync_step env initial_sys SockConnect = initial_sys"
    by (simp add: sync_step_def initial_sys_def channels_def)
  moreover have "idle initial_sys" by (simp add: idle_def initial_sys_def store_get_def)
  ultimately have "idle s"
    using first_session.inv_run [of initial_sys ins] assms by (simp add: list_all_iff)
  then show ?thesis by (simp add: idle_def)
qed

lemma first_session_ignores_holes_example:
  "fst (observe [(''c'', 4)] ''c'' 9) = Obs_hole 5 9 \<and>
   sy_active (run_steps (sync_step example_env) initial_sys
     [SockConnect, ChannelJoined ''c'' 4 None, ChannelEvent ''message.created'' [] ''c'' 9]) = []"
proof -
  have "fst (observe [(''c'', 4)] ''c'' 9) = Obs_hole 5 9" by code_simp
  then show ?thesis
    using first_session_ignores_holes [of "[ChannelJoined ''c'' 4 None, ChannelEvent ''message.created'' [] ''c'' 9]",
        OF _ refl, of example_env "''c''"] by simp
qed

text \<open>Two callers that share a promise each count its failure: the second \<open>replay.truncated\<close>
  while a fetch is running makes one failing request consume two of the three attempts.\<close>

lemma one_failure_counts_twice:
  "backoffFor (run_steps (sync_step example_env)
     (reconnected\<lparr>sy_cache := [''c'' \<mapsto> [example_page ''m'' 0 False ''m'']]\<rparr>)
     [ReplayTruncated None, TaskDone ''c'' (\<lambda>_. None)]) ''c'' = 2"
  by code_simp

text \<open>Events buffered during a gap fetch are never shown to the tracker: the next event after the
  fetch, although in order, is taken for a hole and starts another one.\<close>

lemma buffered_events_leave_a_hole:
  "store_get (run_steps (sync_step example_env) reconnected
     [ChannelEvent ''message.created'' [] ''c'' 5, TaskDone ''c'' (\<lambda>_. None),
      ChannelEvent ''message.created'' [] ''c'' 6]) ''c'' = GAP_FETCHING
   \<and> store_get (run_steps (sync_step example_env) reconnected
     [ChannelEvent ''message.created'' [] ''c'' 5, TaskDone ''c'' (\<lambda>_. None)]) ''c'' = SYNCED"
  by code_simp

end
