(* ===== verification/Gap_Sync.thy ===== *)
theory Gap_Sync
  imports Sync_Orchestrator Message_List
begin

text \<open>
  The gap fetch of the client over the paging of the server: \<open>syncChannelOnce\<close> of
  \<open>useChannelSync.ts\<close>, with \<open>listMessages(..., \{ limit: 50, after \})\<close> answered by \<open>list\<close> of
  \<open>messages.service.ts\<close>. The text of a message in the answer is a function of its row.
\<close>

definition client_message :: "(message_row \<Rightarrow> id) \<Rightarrow> message_row \<Rightarrow> gap_message" where
  "client_message body m =
     \<lparr>gm_id = m_id m, gm_createdAt = m_createdAt m, gm_parent = m_parent m, gm_body = body m\<rparr>"

definition client_page :: "(message_row \<Rightarrow> id) \<Rightarrow> list_result \<Rightarrow> message_page" where
  "client_page body r =
     \<lparr>pg_items = map (client_message body) (lr_items r), pg_hasMore = lr_hasMore r, pg_prevCursor = lr_prevCursor r\<rparr>"

definition GAP_PAGE :: nat where "GAP_PAGE = 50"

definition fetch_after ::
  "(message_row \<Rightarrow> id) \<Rightarrow> cursor_codec \<Rightarrow> store \<times> id \<times> bool \<times> msec option \<Rightarrow> id \<Rightarrow> message_page option" where
  "fetch_after body codec q cursor = map_option (client_page body) (newer_page codec q GAP_PAGE (Some cursor))"

lemma client_message_simps [simp]:
  "gm_id (client_message body m) = m_id m" "gm_parent (client_message body m) = m_parent m"
  by (simp_all add: client_message_def)

lemma fetch_after_page:
  assumes "codec_ok codec"
  obtains p where "fetch_after body codec q (encodeCursor codec k) = Some p"
    "pg_items p = map (client_message body) (rev (take GAP_PAGE (newer_rest q (Some k))))"
    "pg_hasMore p \<longleftrightarrow> GAP_PAGE < length (newer_rest q (Some k))"
    "newer_rest q (Some k) \<noteq> [] \<longrightarrow>
       pg_prevCursor p = Some (encodeCursor codec (row_key (last (take GAP_PAGE (newer_rest q (Some k))))))"
proof -
  have "lr_prevCursor (page_of codec (rev (take GAP_PAGE r)) b) = Some (encodeCursor codec (row_key (last (take GAP_PAGE r))))"
    if "r \<noteq> []" for r b
    using that by (auto simp: page_of_def cursorFor_def hd_rev [symmetric] GAP_PAGE_def split: list.splits)
  with that show ?thesis
    by (simp add: fetch_after_def newer_page_eq [OF assms] client_page_def page_of_def)
qed

lemma codec_inj: "codec_ok codec \<Longrightarrow> encodeCursor codec k = encodeCursor codec k' \<Longrightarrow> k = k'"
  unfolding codec_ok_def by (metis sum.inject(2))

lemma take_more: "0 < n \<Longrightarrow> set (take (n * GAP_PAGE) r) = set (take GAP_PAGE r) \<union> set (take ((n - 1) * GAP_PAGE) (drop GAP_PAGE r))"
  by (cases n) (simp_all add: take_add)

text \<open>The pages of a gap, from a cursor on.\<close>

lemma pages_of_gap:
  assumes "ids_unique (fst q)" and "codec_ok codec"
  shows "\<exists>ps. page_chain (fetch_after body codec q) pg_prevCursor (encodeCursor codec k) ps
    \<and> (\<forall>n. page_ids (take n ps) = m_id ` set (take (n * GAP_PAGE) (newer_rest q (Some k))))
    \<and> (\<forall>n. n < length ps \<longleftrightarrow> n = 0 \<or> n * GAP_PAGE < length (newer_rest q (Some k)))"
proof (induction "length (newer_rest q (Some k))" arbitrary: k rule: less_induct)
  case less
  let ?r = "newer_rest q (Some k)"
  obtain p where p: "fetch_after body codec q (encodeCursor codec k) = Some p"
    "pg_items p = map (client_message body) (rev (take GAP_PAGE ?r))" "pg_hasMore p \<longleftrightarrow> GAP_PAGE < length ?r"
    "?r \<noteq> [] \<longrightarrow> pg_prevCursor p = Some (encodeCursor codec (row_key (last (take GAP_PAGE ?r))))"
    by (rule fetch_after_page [OF assms(2)])
  have ids: "gm_id ` set (pg_items p) = m_id ` set (take GAP_PAGE ?r)" by (simp add: p(2) image_image)
  show ?case
  proof (cases "GAP_PAGE < length ?r")
    case False
    have "page_ids (take n [p]) = m_id ` set (take (n * GAP_PAGE) ?r)" for n
      using ids False by (cases n) simp_all
    moreover have "n < length [p] \<longleftrightarrow> n = 0 \<or> n * GAP_PAGE < length ?r" for n
      using False by (cases n) simp_all
    ultimately show ?thesis using p(1,3) False by (intro exI [of _ "[p]"]) simp
  next
    case True
    let ?k = "row_key (last (take GAP_PAGE ?r))"
    have rest: "newer_rest q (Some ?k) = drop GAP_PAGE ?r"
      using newer.rest_step [OF assms(1), of GAP_PAGE "Some k"] True by (simp add: GAP_PAGE_def)
    with True have "length (newer_rest q (Some ?k)) < length ?r" by (simp add: GAP_PAGE_def)
    from less.hyps [OF this] rest obtain ps where ps: "page_chain (fetch_after body codec q) pg_prevCursor (encodeCursor codec ?k) ps"
      "\<And>n. page_ids (take n ps) = m_id ` set (take (n * GAP_PAGE) (drop GAP_PAGE ?r))"
      "\<And>n. n < length ps \<longleftrightarrow> n = 0 \<or> n * GAP_PAGE < length (drop GAP_PAGE ?r)" by auto
    have "last (take GAP_PAGE ?r) \<in> set (take GAP_PAGE ?r)" using True by (intro last_in_set) (auto simp: GAP_PAGE_def)
    then have "k < ?k" by (auto simp: keyset_rest_def dest: in_set_takeD)
    have "encodeCursor codec ?k \<noteq> encodeCursor codec k"
    proof
      assume "encodeCursor codec ?k = encodeCursor codec k"
      then have "?k = k" by (rule codec_inj [OF assms(2)])
      with \<open>k < ?k\<close> show False by simp
    qed
    moreover have "?r \<noteq> []" using True by auto
    ultimately have nxt: "pg_prevCursor p = Some (encodeCursor codec ?k)" "encodeCursor codec ?k \<noteq> encodeCursor codec k"
      using p(4) by auto
    with ps(1) p(1,3) True have "page_chain (fetch_after body codec q) pg_prevCursor (encodeCursor codec k) (p # ps)"
      by (cases ps) simp_all
    moreover have "page_ids (take n (p # ps)) = m_id ` set (take (n * GAP_PAGE) ?r)" for n
    proof (cases n)
      case (Suc j)
      then show ?thesis using ps(2) [of j] ids take_more [of n ?r] by (simp add: image_Un)
    qed simp
    moreover have "n < length (p # ps) \<longleftrightarrow> n = 0 \<or> n * GAP_PAGE < length ?r" for n
    proof (cases n)
      case (Suc j)
      then show ?thesis using ps(3) [of j] True by auto
    qed simp
    ultimately show ?thesis by blast
  qed
qed

lemma add_items_values: "snd ` set (add_items m xs) \<subseteq> snd ` set m \<union> set xs"
proof (induction xs arbitrary: m)
  case (Cons x xs)
  have "snd ` set (AList.update (gm_id x) x m) \<subseteq> insert x (snd ` set m)"
    by (induction m) auto
  with Cons [of "AList.update (gm_id x) x m"] show ?case by (auto simp: add_items_def)
qed (simp add: add_items_def)

lemma gap_loop_values:
  assumes "\<And>c p x. fetch c = Some p \<Longrightarrow> x \<in> set (pg_items p) \<Longrightarrow> P x"
  shows "gap_loop fetch nxt left c m n = Some (m', n', tr) \<Longrightarrow> \<forall>x \<in> snd ` set m. P x \<Longrightarrow> \<forall>x \<in> snd ` set m'. P x"
proof (induction left arbitrary: c m n)
  case (Suc left)
  from Suc.prems(1) obtain p where p: "fetch c = Some p" by (auto split: option.splits)
  have ok: "\<forall>x \<in> snd ` set (add_items m (pg_items p)). P x"
    using add_items_values [of m "pg_items p"] Suc.prems(2) assms [OF p] by blast
  show ?case
  proof (cases "gap_loop fetch nxt (Suc left) c m n = Some (add_items m (pg_items p), n + 1, False)")
    case True
    with Suc.prems(1) ok show ?thesis by simp
  next
    case False
    with p Suc.prems(1) obtain c' where "gap_loop fetch nxt left c' (add_items m (pg_items p)) (n + 1) = Some (m', n', tr)"
      by (auto simp: Let_def split: option.splits if_splits)
    with Suc.IH ok show ?thesis by blast
  qed
qed simp

lemma raw_in_timeline:
  "set (rawList st a) \<subseteq> set (timeline (st, ra_channelId a, ra_includeDeleted a, ra_visibleFrom a))"
  by (auto simp: rawList_def Let_def timeline_def split: if_splits dest!: in_set_takeD)

lemma page_items [simp]: "lr_items (page_of codec xs b) = xs"
  by (simp add: page_of_def)

lemma in_tl: "x \<in> set (tl xs) \<Longrightarrow> x \<in> set xs"
  by (cases xs) simp_all

lemma newer_page_items:
  assumes "newer_page codec q n c = Some r" and "x \<in> set (lr_items r)"
  shows "x \<in> set (timeline q)"
proof -
  obtain st ch incl vis where q: "q = (st, ch, incl, vis)" by (cases q) auto
  have raw: "x \<in> set (rawList st a) \<Longrightarrow> ra_channelId a = ch \<Longrightarrow> ra_includeDeleted a = incl \<Longrightarrow> ra_visibleFrom a = vis
      \<Longrightarrow> x \<in> set (timeline q)" for a
    using raw_in_timeline [of st a] q by auto
  show ?thesis
  proof (rule ccontr)
    assume "x \<notin> set (timeline q)"
    with raw have none: "ra_channelId a = ch \<Longrightarrow> ra_includeDeleted a = incl \<Longrightarrow> ra_visibleFrom a = vis \<Longrightarrow> x \<notin> set (rawList st a)" for a
      by blast
    have "x \<notin> set (tl (rawList st \<lparr>ra_channelId = ch, ra_direction = d, ra_cursor = k, ra_inclusive = b, ra_limit = l,
        ra_includeDeleted = incl, ra_visibleFrom = vis\<rparr>))"
      "x \<notin> set (take j (rawList st \<lparr>ra_channelId = ch, ra_direction = d, ra_cursor = k, ra_inclusive = b, ra_limit = l,
        ra_includeDeleted = incl, ra_visibleFrom = vis\<rparr>))" for d k b l j
      using none by (auto dest: in_tl in_set_takeD)
    with none assms show False
      by (auto simp: q newer_page_def list_messages_def Let_def bind_res_def split: option.splits sum.splits if_splits)
  qed
qed

lemma gap_fetch_of_gap:
  assumes "ids_unique (fst q)" and "codec_ok codec"
  obtains r where "runGapFetch lc (fetch_after body codec q) pg_prevCursor (encodeCursor codec k) = Some r"
    "gr_truncated r \<longleftrightarrow> GAP_FETCH_MAX_PAGES * GAP_PAGE < length (newer_rest q (Some k))"
    "gm_id ` set (gr_messages r) = m_id ` set (take (GAP_FETCH_MAX_PAGES * GAP_PAGE) (newer_rest q (Some k)))"
    "\<And>x. x \<in> set (gr_messages r) \<Longrightarrow> \<exists>m \<in> set (timeline q). x = client_message body m"
proof -
  from pages_of_gap [OF assms, of body k] obtain ps where
    pages: "page_chain (fetch_after body codec q) pg_prevCursor (encodeCursor codec k) ps
    \<and> (\<forall>n. page_ids (take n ps) = m_id ` set (take (n * GAP_PAGE) (newer_rest q (Some k))))
    \<and> (\<forall>n. n < length ps \<longleftrightarrow> n = 0 \<or> n * GAP_PAGE < length (newer_rest q (Some k)))" by (elim exE)
  note ps = pages [THEN conjunct1] pages [THEN conjunct2, THEN conjunct1, rule_format]
    pages [THEN conjunct2, THEN conjunct2, rule_format]
  obtain r where r: "runGapFetch lc (fetch_after body codec q) pg_prevCursor (encodeCursor codec k) = Some r"
    "gr_truncated r \<longleftrightarrow> 10 < length ps" "gm_id ` set (gr_messages r) = page_ids (take 10 ps)"
    using gap_fetch_complete [OF ps(1), of lc] by (elim exE conjE)
  have page: "\<exists>m \<in> set (timeline q). x = client_message body m" if f: "fetch_after body codec q c = Some p" "x \<in> set (pg_items p)" for c p x
  proof -
    from f obtain l y where "newer_page codec q GAP_PAGE (Some c) = Some l" "y \<in> set (lr_items l)" "x = client_message body y"
      by (auto simp: fetch_after_def client_page_def)
    then show ?thesis by (intro bexI [of _ y] newer_page_items)
  qed
  have "\<exists>m \<in> set (timeline q). x = client_message body m" if "x \<in> set (gr_messages r)" for x
  proof -
    obtain m n tr where g: "gap_loop (fetch_after body codec q) pg_prevCursor GAP_FETCH_MAX_PAGES (encodeCursor codec k) [] 0 = Some (m, n, tr)"
      "set (gr_messages r) = snd ` set m"
      using r(1) by (auto simp: runGapFetch_def Let_def split: option.splits)
    have "\<forall>x \<in> snd ` set m. \<exists>m \<in> set (timeline q). x = client_message body m"
      by (rule gap_loop_values [OF page g(1)]) simp_all
    moreover have "x \<in> snd ` set m" using that g(2) by (rule rev_subsetD [OF _ equalityD1])
    ultimately show ?thesis by (rule bspec)
  qed
  moreover have "gr_truncated r \<longleftrightarrow> GAP_FETCH_MAX_PAGES * GAP_PAGE < length (newer_rest q (Some k))"
    unfolding r(2) ps(3) GAP_FETCH_MAX_PAGES_def by simp
  moreover have "gm_id ` set (gr_messages r) = m_id ` set (take (GAP_FETCH_MAX_PAGES * GAP_PAGE) (newer_rest q (Some k)))"
    unfolding r(3) ps(2) GAP_FETCH_MAX_PAGES_def ..
  ultimately show ?thesis using r(1) that by blast
qed

section \<open>Property\<close>

lemma merged_ids:
  assumes "mergeGapMessages lc (Some (p0 # ps)) xs = Some pages"
  shows "page_ids pages = page_ids (p0 # ps) \<union> gm_id ` {x \<in> set xs. gm_parent x = None}"
proof -
  let ?old = "\<Union>p \<in> set (p0 # ps). set (pg_items p)"
  have items: "page_ids pages = gm_id ` ?old \<union> gm_id ` set (additions_to (p0 # ps) xs)"
    unfolding merge_items [OF assms list.distinct(2)] image_Un ..
  have "gm_id ` ?old \<union> gm_id ` set (additions_to (p0 # ps) xs) = gm_id ` ?old \<union> gm_id ` {x \<in> set xs. gm_parent x = None}"
    by (auto simp del: set_simps UN_insert simp: additions_to_def)
  then show ?thesis using items by (simp only:)
qed

lemma merge_some: obtains pages where "mergeGapMessages lc (Some (p0 # ps)) xs = Some pages"
  by (cases "additions_to (p0 # ps) xs = []") (auto simp: merge_Cons)

lemma setTruncated_simps [simp]:
  "sy_truncated (setTruncated s ch True) ch = Some True" "sy_cache (setTruncated s ch b) = sy_cache s"
  by (auto simp: setTruncated_def split: option.splits if_splits)

lemma client_roots:
  assumes "distinct (map m_id ms)" and "\<And>x. x \<in> set xs \<Longrightarrow> \<exists>m \<in> set ms. x = client_message body m"
    and "gm_id ` set xs = m_id ` S" and "S \<subseteq> set ms"
  shows "gm_id ` {x \<in> set xs. gm_parent x = None} = m_id ` {m \<in> S. m_parent m = None}"
proof -
  have one: "m = n" if "m \<in> set ms" "n \<in> set ms" "m_id m = m_id n" for m n
    using assms(1) that by (auto simp: distinct_map dest: inj_onD)
  have row_of: "x = client_message body n" if x: "x \<in> set xs" "n \<in> S" "gm_id x = m_id n" for x n
  proof -
    obtain m where m: "m \<in> set ms" "x = client_message body m" using assms(2) [OF x(1)] by (elim bexE)
    have "n \<in> set ms" using assms(4) x(2) by (rule subsetD)
    with m x(3) one [of m n] show ?thesis by simp
  qed
  have eq: "set xs = client_message body ` S"
  proof (intro set_eqI iffI)
    fix x assume x: "x \<in> set xs"
    then have "gm_id x \<in> m_id ` S" using assms(3) by (metis imageI)
    then obtain n where "n \<in> S" "gm_id x = m_id n" by (elim imageE)
    with row_of [OF x] show "x \<in> client_message body ` S" by (intro image_eqI [of _ _ n])
  next
    fix x assume "x \<in> client_message body ` S"
    then obtain n where n: "n \<in> S" "x = client_message body n" by (elim imageE)
    then have "m_id n \<in> gm_id ` set xs" using assms(3) by (metis imageI)
    then obtain y where y: "y \<in> set xs" "gm_id y = m_id n" by (elim imageE) simp
    with row_of [OF y(1) n(1) y(2)] n(2) show "x \<in> set xs" by simp
  qed
  have "{x \<in> client_message body ` S. gm_parent x = None} = client_message body ` {m \<in> S. m_parent m = None}" by auto
  then show ?thesis unfolding eq by (simp add: image_image)
qed

text \<open>C33: a gap fetch of a channel catches up with the server: it never fails on the paging of
  \<open>list\<close>, the roots among the first 500 messages newer than the cached newest one (ten pages of
  fifty) are in the cache afterwards beside what it held and nothing else is added, and a longer
  gap is flagged as truncated. The broadcasts of replies, which the server's timeline shows too,
  are dropped by the merge.\<close>

theorem gap_sync_catches_up:
  assumes "ids_unique st" and "codec_ok codec" and "sy_cache s ch = Some (p0 # ps)"
    and "pg_prevCursor p0 = Some (encodeCursor codec k)"
  shows "\<exists>s' pages. syncChannelOnce env (fetch_after body codec (st, ch, incl, from)) s ch = Some s'
    \<and> sy_cache s' ch = Some pages
    \<and> page_ids pages = page_ids (p0 # ps)
        \<union> m_id ` {m \<in> set (take (GAP_FETCH_MAX_PAGES * GAP_PAGE) (filter (\<lambda>m. k < row_key m) (timeline (st, ch, incl, from)))).
                  m_parent m = None}
    \<and> (length (filter (\<lambda>m. k < row_key m) (timeline (st, ch, incl, from))) \<le> GAP_FETCH_MAX_PAGES * GAP_PAGE
       \<or> sy_truncated s' ch = Some True)"
proof -
  let ?q = "(st, ch, incl, from)"
  let ?gap = "filter (\<lambda>m. k < row_key m) (timeline ?q)"
  have gap: "newer_rest ?q (Some k) = ?gap" by (simp add: keyset_rest_def)
  obtain r where r: "runGapFetch (se_collate env) (fetch_after body codec ?q) pg_prevCursor (encodeCursor codec k) = Some r"
    "gr_truncated r \<longleftrightarrow> GAP_FETCH_MAX_PAGES * GAP_PAGE < length ?gap"
    "gm_id ` set (gr_messages r) = m_id ` set (take (GAP_FETCH_MAX_PAGES * GAP_PAGE) ?gap)"
    "\<And>x. x \<in> set (gr_messages r) \<Longrightarrow> \<exists>m \<in> set (timeline ?q). x = client_message body m"
    using gap_fetch_of_gap [OF _ assms(2), of ?q "se_collate env" body k] assms(1) gap by auto
  obtain pages where pages: "mergeGapMessages (se_collate env) (Some (p0 # ps)) (gr_messages r) = Some pages"
    by (rule merge_some)
  have "distinct (map m_id (timeline ?q))"
    using assms(1) by (auto simp: ids_unique_def timeline_def distinct_map intro: inj_on_subset)
  from client_roots [OF this r(4) r(3)]
  have roots: "gm_id ` {x \<in> set (gr_messages r). gm_parent x = None}
      = m_id ` {m \<in> set (take (GAP_FETCH_MAX_PAGES * GAP_PAGE) ?gap). m_parent m = None}"
    by (metis filter_is_subset order_trans set_take_subset)
  let ?s1 = "s\<lparr>sy_cache := (sy_cache s)(ch := Some pages)\<rparr>"
  obtain s' where s': "syncChannelOnce env (fetch_after body codec ?q) s ch = Some s'"
    "sy_cache s' ch = Some pages" "gr_truncated r \<longrightarrow> sy_truncated s' ch = Some True"
    using assms(3,4) r(1) pages
    by (auto simp: syncChannelOnce_def Let_def drain_pending_def pendingFor_def)
  with r(2) show ?thesis unfolding roots [symmetric] merged_ids [OF pages, symmetric] by auto
qed

text \<open>A cache that ends at the first of three messages, the last of which is a broadcast reply.\<close>

definition gap_rows :: store where
  "gap_rows = empty_store\<lparr>st_messages :=
     [plain_row ''a'' 1 None False, plain_row ''b'' 2 None False, plain_row ''d'' 3 (Some ''a'') True]\<rparr>"

definition gap_page0 :: message_page where
  "gap_page0 = \<lparr>pg_items = [client_message (\<lambda>_. []) (plain_row ''a'' 1 None False)], pg_hasMore = False,
     pg_prevCursor = Some (encodeCursor unary_codec (1, ''a''))\<rparr>"

definition gap_cache :: sync_sys where
  "gap_cache = initial_sys\<lparr>sy_cache := [''c'' \<mapsto> [gap_page0]]\<rparr>"

lemma gap_timeline: "filter (\<lambda>m. (1, ''a'') < row_key m) (timeline (gap_rows, ''c'', False, None))
    = [plain_row ''b'' 2 None False, plain_row ''d'' 3 (Some ''a'') True]"
  by (simp add: timeline_def gap_rows_def in_timeline_def plain_row_def row_key_def)

theorem gap_sync_catches_up_witness:
  "\<exists>s' pages. syncChannelOnce example_env (fetch_after (\<lambda>_. []) unary_codec (gap_rows, ''c'', False, None)) gap_cache ''c'' = Some s'
    \<and> sy_cache s' ''c'' = Some pages \<and> page_ids pages = {''a'', ''b''}"
proof -
  have unique: "ids_unique gap_rows" by (simp add: ids_unique_def gap_rows_def plain_row_def)
  have cache: "sy_cache gap_cache ''c'' = Some (gap_page0 # [])" by (simp add: gap_cache_def)
  have cursor: "pg_prevCursor gap_page0 = Some (encodeCursor unary_codec (1, ''a''))" by (simp add: gap_page0_def)
  have old: "page_ids (gap_page0 # []) = {''a''}" by (simp add: gap_page0_def plain_row_def)
  have rows: "{m \<in> set (take (GAP_FETCH_MAX_PAGES * GAP_PAGE) [plain_row ''b'' 2 None False, plain_row ''d'' 3 (Some ''a'') True]).
      m_parent m = None} = {plain_row ''b'' 2 None False}"
    by (auto simp: GAP_FETCH_MAX_PAGES_def GAP_PAGE_def plain_row_def)
  have new: "m_id ` {m \<in> set (take (GAP_FETCH_MAX_PAGES * GAP_PAGE) [plain_row ''b'' 2 None False, plain_row ''d'' 3 (Some ''a'') True]).
      m_parent m = None} = {''b''}"
    unfolding rows by (simp add: plain_row_def)
  from gap_sync_catches_up [OF unique unary_codec_ok cache cursor, of example_env "\<lambda>_. []" False None,
      unfolded gap_timeline old new]
  show ?thesis by (elim exE conjE) (intro exI conjI, assumption, assumption, auto)
qed

end
