(* ===== verification/Ssrf_Guard.thy ===== *)
theory Ssrf_Guard
  imports Mrkdwn
begin

text \<open>
  The address guard of the link previews (\<open>apps/api/src/links/ssrf-guard.ts\<close>). A URL a user
  posts is fetched by the server, so the guard refuses every URL whose host is, or resolves
  to, an address of the internal network.

  \<open>ipv4ToInt\<close>, \<open>isPrivateIPv4\<close>, \<open>expandIPv6\<close>, \<open>isPrivateIPv6\<close> and \<open>ssrfGuard\<close> are the functions of
  the file. \<open>js_Number\<close> is JavaScript's \<open>Number\<close> on strings; exact rationals stand for the
  doubles, so the rounding of a numeral of more than fifteen digits is not modelled (the guard
  only compares the value with 0 and 255). Code units beyond
  ASCII keep their case under \<open>lower\<close>; none of their lower cases is a hexadecimal digit or a
  colon.

  What Node provides is the record \<open>node_net\<close>: the URL parser, \<open>net.isIPv4\<close>, \<open>net.isIPv6\<close> and
  \<open>dns.lookup\<close>, whose answer depends on the number of the call, so that a name may change its
  address between two lookups. \<open>node_documented\<close> states the documented format of a dotted
  address.
\<close>

subsection \<open>Numbers and strings of the JavaScript library\<close>

datatype js_number = NaN | Infinite bool | Finite rat

fun js_split :: "nat \<Rightarrow> js_string \<Rightarrow> js_string list" where
  "js_split c [] = [[]]"
| "js_split c (x # xs) =
     (if x = c then [] # js_split c xs
      else case js_split c xs of [] \<Rightarrow> [[x]] | w # ws \<Rightarrow> (x # w) # ws)"

fun js_split2 :: "nat \<Rightarrow> nat \<Rightarrow> js_string \<Rightarrow> js_string list" where
  "js_split2 a b [] = [[]]"
| "js_split2 a b [x] = [[x]]"
| "js_split2 a b (x # y # r) =
     (if x = a \<and> y = b then [] # js_split2 a b r
      else case js_split2 a b (y # r) of [] \<Rightarrow> [[x]] | w # ws \<Rightarrow> (x # w) # ws)"

definition hex_digit :: "nat \<Rightarrow> nat option" where
  "hex_digit c =
     (if is_js_digit c then Some (c - 48)
      else if 97 \<le> c \<and> c \<le> 102 then Some (c - 87)
      else if 65 \<le> c \<and> c \<le> 70 then Some (c - 55) else None)"

definition radix_value :: "nat \<Rightarrow> js_string \<Rightarrow> rat option" where
  "radix_value r ds =
     (if ds \<noteq> [] \<and> list_all (\<lambda>d. case hex_digit d of None \<Rightarrow> False | Some v \<Rightarrow> v < r) ds
      then Some (of_nat (foldl (\<lambda>a d. r * a + the (hex_digit d)) 0 ds)) else None)"

definition unsigned_value :: "js_string \<Rightarrow> js_number" where
  "unsigned_value s =
     (let m = takeWhile is_js_digit s; r = dropWhile is_js_digit s;
          f = (if r \<noteq> [] \<and> hd r = 46 then takeWhile is_js_digit (tl r) else []);
          x = (if r \<noteq> [] \<and> hd r = 46 then dropWhile is_js_digit (tl r) else r);
          v = of_nat (dec_value (m @ f)) / 10 ^ length f in
      if s = js ''Infinity'' then Infinite False
      else if m = [] \<and> f = [] then NaN
      else if x = [] then Finite v
      else if hd x \<noteq> 101 \<and> hd x \<noteq> 69 then NaN
      else let e = tl x; neg = (e \<noteq> [] \<and> hd e = 45);
               d = (if e \<noteq> [] \<and> (hd e = 45 \<or> hd e = 43) then tl e else e) in
        if d = [] \<or> \<not> list_all is_js_digit d then NaN
        else Finite (if neg then v / 10 ^ dec_value d else v * 10 ^ dec_value d))"

definition js_Number :: "js_string \<Rightarrow> js_number" where
  "js_Number str =
     (let s = js_trim str; p = take 2 s; d = drop 2 s;
          radix = (\<lambda>r. case radix_value r d of None \<Rightarrow> NaN | Some q \<Rightarrow> Finite q) in
      if s = [] then Finite 0
      else if p = js ''0x'' \<or> p = js ''0X'' then radix 16
      else if p = js ''0o'' \<or> p = js ''0O'' then radix 8
      else if p = js ''0b'' \<or> p = js ''0B'' then radix 2
      else if hd s = 43 then unsigned_value (tl s)
      else if hd s = 45 then
        (case unsigned_value (tl s) of NaN \<Rightarrow> NaN | Infinite b \<Rightarrow> Infinite (\<not> b)
         | Finite q \<Rightarrow> Finite (- q))
      else unsigned_value s)"

text \<open>\<open>Number.isNaN(p) || p < 0 || p > 255\<close>, and the conversion of a bit operator.\<close>

definition bad_octet :: "js_number \<Rightarrow> bool" where
  "bad_octet p = (case p of NaN \<Rightarrow> True | Infinite _ \<Rightarrow> True | Finite q \<Rightarrow> q < 0 \<or> 255 < q)"

definition number_bits :: "js_number \<Rightarrow> 32 word" where
  "number_bits p = (case p of Finite q \<Rightarrow> of_int (if q < 0 then - \<lfloor>- q\<rfloor> else \<lfloor>q\<rfloor>) | _ \<Rightarrow> 0)"

fun hex_string :: "nat \<Rightarrow> js_string" where
  "hex_string n =
     (if n < 16 then [if n < 10 then 48 + n else 87 + n]
      else hex_string (n div 16) @ [if n mod 16 < 10 then 48 + n mod 16 else 87 + n mod 16])"

declare hex_string.simps [simp del]

subsection \<open>IPv4\<close>

definition PRIVATE_IPV4_RANGES :: "(js_string \<times> nat) list" where
  "PRIVATE_IPV4_RANGES =
     [(js ''0.0.0.0'', 8),
      (js ''10.0.0.0'', 8),
      (js ''100.64.0.0'', 10),
      (js ''127.0.0.0'', 8),
      (js ''169.254.0.0'', 16),
      (js ''172.16.0.0'', 12),
      (js ''192.0.0.0'', 24),
      (js ''192.0.2.0'', 24),
      (js ''192.168.0.0'', 16),
      (js ''198.18.0.0'', 15),
      (js ''198.51.100.0'', 24),
      (js ''203.0.113.0'', 24),
      (js ''224.0.0.0'', 4),
      (js ''240.0.0.0'', 4)]"

definition ipv4ToInt :: "js_string \<Rightarrow> int" where
  "ipv4ToInt ip =
     (let parts = map js_Number (js_split 46 ip) in
      if length parts \<noteq> 4 \<or> list_ex bad_octet parts then -1
      else uint (push_bit 24 (number_bits (parts ! 0)) OR push_bit 16 (number_bits (parts ! 1))
             OR push_bit 8 (number_bits (parts ! 2)) OR number_bits (parts ! 3)))"

definition prefix_mask :: "nat \<Rightarrow> 32 word" where
  "prefix_mask prefix = (if prefix = 0 then 0 else push_bit ((32 - prefix) mod 32) (NOT 0))"

definition isPrivateIPv4 :: "js_string \<Rightarrow> bool" where
  "isPrivateIPv4 ip =
     (let intIp = ipv4ToInt ip in
      if intIp < 0 then True
      else list_ex (\<lambda>(base, prefix).
             (of_int intIp AND prefix_mask prefix)
             = (of_int (ipv4ToInt base) AND prefix_mask prefix)) PRIVATE_IPV4_RANGES)"

definition ipv4FromGroups :: "nat \<Rightarrow> nat \<Rightarrow> js_string" where
  "ipv4FromGroups hi lo =
     (let a = drop_bit 8 hi AND 255; b = hi AND 255; c = drop_bit 8 lo AND 255; d = lo AND 255 in
      dec_digits a @ [46] @ dec_digits b @ [46] @ dec_digits c @ [46] @ dec_digits d)"

subsection \<open>IPv6\<close>

record node_url =
  url_protocol :: js_string
  url_username :: js_string
  url_password :: js_string
  url_hostname :: js_string
  url_port :: js_string
  url_path :: js_string  \<comment> \<open>\<open>pathname\<close> and \<open>search\<close>\<close>

record node_net =
  parse_url :: "js_string \<Rightarrow> node_url option"  \<comment> \<open>\<open>new URL(raw)\<close>, None when it throws\<close>
  net_isIPv4 :: "js_string \<Rightarrow> bool"
  net_isIPv6 :: "js_string \<Rightarrow> bool"
  dns_lookup :: "nat \<Rightarrow> js_string \<Rightarrow> (js_string \<times> nat) list option"

definition expandDottedQuad :: "js_string list \<Rightarrow> js_string list option" where
  "expandDottedQuad segments =
     (if segments = [] then Some segments
      else if 46 \<notin> set (last segments) then Some segments
      else let parts = map js_Number (js_split 46 (last segments)) in
        if length parts \<noteq> 4 \<or> list_ex bad_octet parts then None
        else let hi = push_bit 8 (number_bits (parts ! 0) AND 255) OR (number_bits (parts ! 1) AND 255);
                 lo = push_bit 8 (number_bits (parts ! 2) AND 255) OR (number_bits (parts ! 3) AND 255) in
          Some (butlast segments @ [hex_string (unat hi), hex_string (unat lo)]))"

definition hex_group :: "js_string \<Rightarrow> bool" where
  "hex_group g \<longleftrightarrow> 1 \<le> length g \<and> length g \<le> 4 \<and> list_all (\<lambda>c. hex_digit c \<noteq> None) g"

definition hex_value :: "js_string \<Rightarrow> nat" where
  "hex_value g = foldl (\<lambda>a d. 16 * a + the (hex_digit d)) 0 g"

fun has_colons :: "js_string \<Rightarrow> bool" where
  "has_colons (x # y # r) \<longleftrightarrow> (x = 58 \<and> y = 58) \<or> has_colons (y # r)"
| "has_colons _ \<longleftrightarrow> False"

definition split_address :: "js_string \<Rightarrow> js_string list \<times> js_string list" where
  "split_address ip =
     (if has_colons ip then
        let ps = js_split2 58 58 ip; h = ps ! 0; t = ps ! 1 in
        (if h \<noteq> [] then js_split 58 h else [], if t \<noteq> [] then js_split 58 t else [])
      else (js_split 58 ip, []))"

definition expandIPv6 :: "node_net \<Rightarrow> js_string \<Rightarrow> nat list option" where
  "expandIPv6 N ip =
     (if \<not> net_isIPv6 N ip then None
      else case (expandDottedQuad (fst (split_address ip)), expandDottedQuad (snd (split_address ip))) of
        (Some headExp, Some tailExp) \<Rightarrow>
          (if 8 < length headExp + length tailExp then None
           else let rawGroups = headExp @ replicate (8 - length headExp - length tailExp) [48] @ tailExp in
             if list_ex (\<lambda>g. \<not> hex_group g) rawGroups then None
             else let groups = map hex_value rawGroups in
               if length groups \<noteq> 8 \<or> list_ex (\<lambda>g. 65535 < g) groups then None else Some groups)
      | _ \<Rightarrow> None)"

definition groups_private :: "nat list \<Rightarrow> bool" where
  "groups_private groups =
     (if list_all (\<lambda>g. g = 0) groups then True
      else if groups ! 0 = 0 \<and> groups ! 1 = 0 \<and> groups ! 2 = 0 \<and> groups ! 3 = 0
        \<and> groups ! 4 = 0 \<and> groups ! 5 = 0xffff then
        isPrivateIPv4 (ipv4FromGroups (groups ! 6) (groups ! 7))
      else if groups ! 0 = 0 \<and> groups ! 1 = 0 \<and> groups ! 2 = 0 \<and> groups ! 3 = 0
        \<and> groups ! 4 = 0xffff \<and> groups ! 5 = 0 then
        isPrivateIPv4 (ipv4FromGroups (groups ! 6) (groups ! 7))
      else if groups ! 0 = 0x64 \<and> groups ! 1 = 0xff9b \<and> groups ! 2 = 0 \<and> groups ! 3 = 0
        \<and> groups ! 4 = 0 \<and> groups ! 5 = 0 then True
      else if groups ! 0 = 0x64 \<and> groups ! 1 = 0xff9b \<and> groups ! 2 = 1 then True
      else if groups ! 0 = 0x100 \<and> groups ! 1 = 0 \<and> groups ! 2 = 0 \<and> groups ! 3 = 0 then True
      else if groups ! 0 = 0x2001 \<and> groups ! 1 = 0xdb8 then True
      else if groups ! 0 = 0x2001 \<and> groups ! 1 = 0
        \<and> isPrivateIPv4 (ipv4FromGroups ((groups ! 6 XOR 0xffff) AND 0xffff)
                                        ((groups ! 7 XOR 0xffff) AND 0xffff)) then True
      else if groups ! 0 = 0x2002 then True
      else let firstByte = drop_bit 8 (groups ! 0) AND 255 in
        if firstByte = 0xfc \<or> firstByte = 0xfd then True
        else if firstByte = 0xfe \<and> groups ! 0 AND 0xc0 = 0x80 then True
        else firstByte = 0xff)"

definition isPrivateIPv6 :: "node_net \<Rightarrow> js_string \<Rightarrow> bool" where
  "isPrivateIPv6 N ip =
     (let lower_ip = map lower ip in
      if lower_ip = js ''::1'' \<or> lower_ip = js ''::'' then True
      else case expandIPv6 N lower_ip of
        None \<Rightarrow> True
      | Some groups \<Rightarrow> groups_private groups)"

subsection \<open>The guard\<close>

datatype ssrf_reject =
  invalid_url | unsupported_scheme | userinfo_present | private_ip | dns_resolution_failed

record guarded =
  resolvedIp :: js_string
  ip_family :: nat
  guarded_url :: node_url

definition strip_brackets :: "js_string \<Rightarrow> js_string" where
  "strip_brackets h = (if h \<noteq> [] \<and> hd h = 91 \<and> last h = 93 then butlast (tl h) else h)"

definition address_private :: "node_net \<Rightarrow> js_string \<times> nat \<Rightarrow> bool" where
  "address_private N a = (if snd a = 4 then isPrivateIPv4 (fst a) else isPrivateIPv6 N (fst a))"

definition ssrfGuard :: "node_net \<Rightarrow> nat \<Rightarrow> js_string \<Rightarrow> ssrf_reject + guarded" where
  "ssrfGuard N n rawUrl =
     (case parse_url N rawUrl of
        None \<Rightarrow> Inl invalid_url
      | Some u \<Rightarrow>
          (if url_protocol u \<noteq> js ''http:'' \<and> url_protocol u \<noteq> js ''https:'' then Inl unsupported_scheme
           else if url_username u \<noteq> [] \<or> url_password u \<noteq> [] then Inl userinfo_present
           else let host = strip_brackets (url_hostname u) in
             if net_isIPv4 N host then
               (if isPrivateIPv4 host then Inl private_ip
                else Inr \<lparr>resolvedIp = host, ip_family = 4, guarded_url = u\<rparr>)
             else if net_isIPv6 N host then
               (if isPrivateIPv6 N host then Inl private_ip
                else Inr \<lparr>resolvedIp = host, ip_family = 6, guarded_url = u\<rparr>)
             else case dns_lookup N n host of
               None \<Rightarrow> Inl dns_resolution_failed
             | Some [] \<Rightarrow> Inl dns_resolution_failed
             | Some (a # as) \<Rightarrow>
                 (if list_ex (address_private N) (a # as) then Inl private_ip
                  else Inr \<lparr>resolvedIp = fst a, ip_family = (if snd a = 6 then 6 else 4),
                            guarded_url = u\<rparr>)))"

subsection \<open>Facts about splitting and numerals\<close>

lemma js_split_single [simp]: "c \<notin> set s \<Longrightarrow> js_split c s = [s]"
  by (induction s) auto

lemma js_split_append [simp]: "c \<notin> set s \<Longrightarrow> js_split c (s @ c # t) = s # js_split c t"
  by (induction s) auto

lemma dec_digits_range: "d \<in> set (dec_digits n) \<Longrightarrow> 48 \<le> d \<and> d \<le> 57"
  using dec_digits_all_digits [of n] by (auto simp: list_all_iff is_js_digit_def)

lemma not_in_dec_digits [simp]: "c < 48 \<or> 57 < c \<Longrightarrow> c \<notin> set (dec_digits n)"
  by (auto dest: dec_digits_range)

lemma take_dec_digits: "c \<notin> set (dec_digits n) \<Longrightarrow> take k (dec_digits n) \<noteq> x @ [c]"
  using set_take_subset [of k "dec_digits n"] by fastforce

lemma js_Number_dec_digits [simp]: "js_Number (dec_digits n) = Finite (of_nat n)"
proof -
  let ?s = "dec_digits n"
  have hd: "48 \<le> hd ?s \<and> hd ?s \<le> 57" using dec_digits_range [of "hd ?s" n] by simp
  have nospace: "\<not> is_js_space d" if "d \<in> set ?s" for d
    using dec_digits_range [OF that] by (auto simp: is_js_space_def)
  have "dropWhile is_js_space ?s = ?s" "dropWhile is_js_space (rev ?s) = rev ?s"
    by (simp_all add: dropWhile_eq_self_iff nospace hd_rev)
  then have trim: "js_trim ?s = ?s" by (simp add: js_trim_def)
  have digits: "takeWhile is_js_digit ?s = ?s" "dropWhile is_js_digit ?s = []"
    using dec_digits_all_digits [of n] by (auto simp: list_all_iff)
  have infinity: "?s \<noteq> js ''Infinity''" using hd by auto
  have "take 2 ?s \<noteq> [48, c]" if "57 < c" for c
    using take_dec_digits [of c n 2 "[48]"] that by simp
  then have radix: "take 2 ?s \<noteq> js ''0x''" "take 2 ?s \<noteq> js ''0X''" "take 2 ?s \<noteq> js ''0o''"
    "take 2 ?s \<noteq> js ''0O''" "take 2 ?s \<noteq> js ''0b''" "take 2 ?s \<noteq> js ''0B''"
    by auto
  have "unsigned_value ?s = Finite (of_nat n)"
    using infinity by (simp add: unsigned_value_def digits Let_def)
  with hd radix show ?thesis by (simp add: js_Number_def trim Let_def)
qed

lemma bad_octet_nat [simp]: "bad_octet (Finite (of_nat n)) \<longleftrightarrow> 255 < n"
proof -
  have "(255 :: rat) < of_nat n \<longleftrightarrow> of_nat 255 < (of_nat n :: rat)" by simp
  then show ?thesis by (simp add: bad_octet_def del: of_nat_numeral)
qed

lemma number_bits_nat [simp]: "number_bits (Finite (of_nat n)) = of_nat n"
  by (simp add: number_bits_def)

subsection \<open>The private ranges of IPv4\<close>

definition dotted :: "nat \<Rightarrow> nat \<Rightarrow> nat \<Rightarrow> nat \<Rightarrow> js_string" where
  "dotted a b c d = dec_digits a @ 46 # dec_digits b @ 46 # dec_digits c @ 46 # dec_digits d"

lemma js_split_dotted [simp]:
  "js_split 46 (dotted a b c d) = [dec_digits a, dec_digits b, dec_digits c, dec_digits d]"
  by (simp add: dotted_def)

lemma uint_of_nat_small: "n < 2 ^ 32 \<Longrightarrow> uint (of_nat n :: 32 word) = int n"
  by (subst unsigned_of_nat) (simp add: take_bit_nat_eq_self)

lemma push_or_nat:
  assumes "y < 256"
  shows "push_bit 8 (of_nat x) OR of_nat y = (of_nat (256 * x + y) :: 32 word)"
proof -
  have "take_bit 8 y = y" using assms by (simp add: take_bit_nat_eq_self_iff)
  then have "push_bit 8 x AND y = push_bit 8 x AND take_bit 8 y" by simp
  also have "\<dots> = 0" by (rule bit_eqI) (simp add: bit_simps)
  finally have "push_bit 8 x AND y = 0" .
  then have "push_bit 8 x OR y = push_bit 8 x + y" by (simp add: disjunctive_add_eq_or)
  then have "push_bit 8 x OR y = 256 * x + y" by (simp add: push_bit_eq_mult)
  then show ?thesis by (metis of_nat_or_eq of_nat_push_bit)
qed

lemma ipv4ToInt_dotted:
  assumes "a < 256" "b < 256" "c < 256" "d < 256"
  shows "ipv4ToInt (dotted a b c d) = int (((a * 256 + b) * 256 + c) * 256 + d)"
proof -
  have "push_bit 24 (of_nat a) OR push_bit 16 (of_nat b) OR push_bit 8 (of_nat c) OR of_nat d
    = push_bit 8 (push_bit 8 (push_bit 8 (of_nat a) OR of_nat b) OR of_nat c) OR (of_nat d :: 32 word)"
    by (simp add: or.assoc)
  also have "\<dots> = of_nat (((a * 256 + b) * 256 + c) * 256 + d)"
    using assms by (simp only: push_or_nat mult.commute)
  finally have w: "push_bit 24 (of_nat a) OR push_bit 16 (of_nat b) OR push_bit 8 (of_nat c) OR of_nat d
    = (of_nat (((a * 256 + b) * 256 + c) * 256 + d) :: 32 word)" .
  have "((a * 256 + b) * 256 + c) * 256 + d < 2 ^ 32" using assms by simp
  then have "uint (of_nat (((a * 256 + b) * 256 + c) * 256 + d) :: 32 word)
    = int (((a * 256 + b) * 256 + c) * 256 + d)"
    by (rule uint_of_nat_small)
  with w assms show ?thesis by (simp add: ipv4ToInt_def Let_def)
qed

lemma prefix_match:
  assumes "0 < p" "p \<le> 32" "v < 2 ^ 32" "w < 2 ^ 32"
  shows "(of_nat v AND prefix_mask p) = (of_nat w AND prefix_mask p)
    \<longleftrightarrow> v div 2 ^ (32 - p) = w div 2 ^ (32 - p)"
proof -
  let ?k = "32 - p"
  from assms have k: "?k mod 32 = ?k" by (simp add: mod_less)
  have mask_eq: "prefix_mask p = push_bit ?k (NOT 0)" using assms(1) k by (simp add: prefix_mask_def)
  have high: "\<not> bit v n" "\<not> bit w n" if "32 \<le> n" for n
    using assms(3,4) that by (metis bit_take_bit_iff not_less take_bit_nat_eq_self)+
  have "(of_nat v AND prefix_mask p) = (of_nat w AND prefix_mask p)
    \<longleftrightarrow> (\<forall>n < 32. ?k \<le> n \<longrightarrow> bit v n = bit w n)"
    by (simp only: mask_eq) (auto simp: bit_eq_iff [where 'a = "32 word"] bit_simps not_less)
  also have "\<dots> \<longleftrightarrow> (\<forall>n. bit v (?k + n) = bit w (?k + n))"
  proof (rule iffI; intro allI impI)
    fix n assume "\<forall>n < 32. ?k \<le> n \<longrightarrow> bit v n = bit w n"
    with high [of "?k + n"] show "bit v (?k + n) = bit w (?k + n)" by (cases "?k + n < 32") auto
  next
    fix n assume "\<forall>n. bit v (?k + n) = bit w (?k + n)" "n < 32" "?k \<le> n"
    then show "bit v n = bit w n" by (metis le_add_diff_inverse)
  qed
  also have "\<dots> \<longleftrightarrow> drop_bit ?k v = drop_bit ?k w" by (auto simp: bit_eq_iff bit_simps)
  finally show ?thesis by (simp add: drop_bit_eq_div)
qed

text \<open>
  The ranges in the reading of the RFCs: by the octets of the address.
\<close>

definition private_octets :: "nat \<Rightarrow> nat \<Rightarrow> nat \<Rightarrow> bool" where
  "private_octets a b c \<longleftrightarrow>
     a = 0 \<or> a = 10 \<or> a = 127 \<or> 224 \<le> a
     \<or> (a = 100 \<and> 64 \<le> b \<and> b \<le> 127)
     \<or> (a = 169 \<and> b = 254)
     \<or> (a = 172 \<and> 16 \<le> b \<and> b \<le> 31)
     \<or> (a = 192 \<and> (b = 168 \<or> b = 0 \<and> (c = 0 \<or> c = 2)))
     \<or> (a = 198 \<and> (b = 18 \<or> b = 19 \<or> b = 51 \<and> c = 100))
     \<or> (a = 203 \<and> b = 0 \<and> c = 113)"

definition octets_value :: "nat \<Rightarrow> nat \<Rightarrow> nat \<Rightarrow> nat \<Rightarrow> nat" where
  "octets_value a b c d = ((a * 256 + b) * 256 + c) * 256 + d"

lemma octets_value_less: "a < 256 \<Longrightarrow> b < 256 \<Longrightarrow> c < 256 \<Longrightarrow> d < 256 \<Longrightarrow> octets_value a b c d < 2 ^ 32"
  by (simp add: octets_value_def)

lemma js_dotted:
  "js ''0.0.0.0'' = dotted 0 0 0 0" "js ''10.0.0.0'' = dotted 10 0 0 0"
  "js ''100.64.0.0'' = dotted 100 64 0 0" "js ''127.0.0.0'' = dotted 127 0 0 0"
  "js ''169.254.0.0'' = dotted 169 254 0 0" "js ''172.16.0.0'' = dotted 172 16 0 0"
  "js ''192.0.0.0'' = dotted 192 0 0 0" "js ''192.0.2.0'' = dotted 192 0 2 0"
  "js ''192.168.0.0'' = dotted 192 168 0 0" "js ''198.18.0.0'' = dotted 198 18 0 0"
  "js ''198.51.100.0'' = dotted 198 51 100 0" "js ''203.0.113.0'' = dotted 203 0 113 0"
  "js ''224.0.0.0'' = dotted 224 0 0 0" "js ''240.0.0.0'' = dotted 240 0 0 0"
  by (simp_all add: dotted_def dec_digits.simps)

lemma range_match:
  assumes "a < 256" "b < 256" "c < 256" "d < 256" and "a' < 256" "b' < 256" "c' < 256" "d' < 256"
    and "0 < p" "p \<le> 32"
  shows "(of_int (ipv4ToInt (dotted a b c d)) AND prefix_mask p)
      = (of_int (ipv4ToInt (dotted a' b' c' d')) AND prefix_mask p)
    \<longleftrightarrow> octets_value a b c d div 2 ^ (32 - p) = octets_value a' b' c' d' div 2 ^ (32 - p)"
  using prefix_match [OF assms(9,10) octets_value_less [OF assms(1-4)] octets_value_less [OF assms(5-8)]]
  by (simp only: ipv4ToInt_dotted [OF assms(1-4)] ipv4ToInt_dotted [OF assms(5-8)] of_int_of_nat_eq
      octets_value_def)

lemma octets_div:
  assumes "b < 256" "c < 256" "d < 256"
  shows "octets_value a b c d div 16777216 = a"
    and "octets_value a b c d div 65536 = a * 256 + b"
    and "octets_value a b c d div 256 = (a * 256 + b) * 256 + c"
    and "octets_value a b c d div 4194304 = a * 4 + b div 64"
    and "octets_value a b c d div 1048576 = a * 16 + b div 16"
    and "octets_value a b c d div 131072 = a * 128 + b div 2"
    and "octets_value a b c d div 268435456 = a div 16"
proof -
  let ?v = "octets_value a b c d"
  show d8: "?v div 256 = (a * 256 + b) * 256 + c" using assms by (simp add: octets_value_def)
  have "?v div 65536 = ?v div 256 div 256" by (simp add: div_mult2_eq [symmetric])
  with d8 assms show d16: "?v div 65536 = a * 256 + b" by simp
  have "?v div 16777216 = ?v div 65536 div 256" by (simp add: div_mult2_eq [symmetric])
  with d16 assms show d24: "?v div 16777216 = a" by simp
  have "?v div 4194304 = ?v div 65536 div 64" by (simp add: div_mult2_eq [symmetric])
  with d16 show "?v div 4194304 = a * 4 + b div 64" by simp
  have "?v div 1048576 = ?v div 65536 div 16" by (simp add: div_mult2_eq [symmetric])
  with d16 show "?v div 1048576 = a * 16 + b div 16" by simp
  have "?v div 131072 = ?v div 65536 div 2" by (simp add: div_mult2_eq [symmetric])
  with d16 show "?v div 131072 = a * 128 + b div 2" by simp
  have "?v div 268435456 = ?v div 16777216 div 16" by (simp add: div_mult2_eq [symmetric])
  with d24 show "?v div 268435456 = a div 16" by simp
qed

lemma digit_pair:
  fixes a b x y k :: nat
  assumes "x < k" "y < k"
  shows "a * k + x = b * k + y \<longleftrightarrow> a = b \<and> x = y"
proof
  assume eq: "a * k + x = b * k + y"
  then have "(a * k + x) div k = (b * k + y) div k" by simp
  with assms have "a = b" by simp
  with eq show "a = b \<and> x = y" by simp
qed simp

lemma digits:
  assumes "(b :: nat) < 256" "(c :: nat) < 256"
  shows "a * 4 + b div 64 = 401 \<longleftrightarrow> a = 100 \<and> 64 \<le> b \<and> b \<le> 127"
    and "a * 256 + b = 43518 \<longleftrightarrow> a = 169 \<and> b = 254"
    and "a * 16 + b div 16 = 2753 \<longleftrightarrow> a = 172 \<and> 16 \<le> b \<and> b \<le> 31"
    and "(a * 256 + b) * 256 + c = 12582912 \<longleftrightarrow> a = 192 \<and> b = 0 \<and> c = 0"
    and "(a * 256 + b) * 256 + c = 12582914 \<longleftrightarrow> a = 192 \<and> b = 0 \<and> c = 2"
    and "a * 256 + b = 49320 \<longleftrightarrow> a = 192 \<and> b = 168"
    and "a * 128 + b div 2 = 25353 \<longleftrightarrow> a = 198 \<and> (b = 18 \<or> b = 19)"
    and "(a * 256 + b) * 256 + c = 12989284 \<longleftrightarrow> a = 198 \<and> b = 51 \<and> c = 100"
    and "(a * 256 + b) * 256 + c = 13303921 \<longleftrightarrow> a = 203 \<and> b = 0 \<and> c = 113"
proof -
  note two = digit_pair [OF assms(1), of _ a] and three = digit_pair [OF assms(2), of _ "a * 256 + b"]
  have d64: "b div 64 < 4" and d16: "b div 16 < 16" and d2: "b div 2 < 128" using assms by auto
  show "a * 256 + b = 43518 \<longleftrightarrow> a = 169 \<and> b = 254" using two [of 254 169] by simp
  show "a * 256 + b = 49320 \<longleftrightarrow> a = 192 \<and> b = 168" using two [of 168 192] by simp
  have "a * 256 + b = 49152 \<longleftrightarrow> a = 192 \<and> b = 0" using two [of 0 192] by simp
  then show "(a * 256 + b) * 256 + c = 12582912 \<longleftrightarrow> a = 192 \<and> b = 0 \<and> c = 0"
    and "(a * 256 + b) * 256 + c = 12582914 \<longleftrightarrow> a = 192 \<and> b = 0 \<and> c = 2"
    using three [of 0 49152] three [of 2 49152] by simp_all
  have "a * 256 + b = 50739 \<longleftrightarrow> a = 198 \<and> b = 51" using two [of 51 198] by simp
  then show "(a * 256 + b) * 256 + c = 12989284 \<longleftrightarrow> a = 198 \<and> b = 51 \<and> c = 100"
    using three [of 100 50739] by simp
  have "a * 256 + b = 51968 \<longleftrightarrow> a = 203 \<and> b = 0" using two [of 0 203] by simp
  then show "(a * 256 + b) * 256 + c = 13303921 \<longleftrightarrow> a = 203 \<and> b = 0 \<and> c = 113"
    using three [of 113 51968] by simp
  have "b div 64 = 1 \<longleftrightarrow> 64 \<le> b \<and> b \<le> 127" "b div 16 = 1 \<longleftrightarrow> 16 \<le> b \<and> b \<le> 31"
    "b div 2 = 9 \<longleftrightarrow> b = 18 \<or> b = 19"
    by linarith+
  then show "a * 4 + b div 64 = 401 \<longleftrightarrow> a = 100 \<and> 64 \<le> b \<and> b \<le> 127"
    and "a * 16 + b div 16 = 2753 \<longleftrightarrow> a = 172 \<and> 16 \<le> b \<and> b \<le> 31"
    and "a * 128 + b div 2 = 25353 \<longleftrightarrow> a = 198 \<and> (b = 18 \<or> b = 19)"
    using digit_pair [OF d64, of 1 a 100] digit_pair [OF d16, of 1 a 172]
      digit_pair [OF d2, of 9 a 198] by simp_all
qed

lemma private_octets_iff:
  assumes "a < 256" "b < 256" "c < 256" "d < 256"
  shows "isPrivateIPv4 (dotted a b c d) \<longleftrightarrow> private_octets a b c"
proof -
  note m = range_match [OF assms]
  have multicast: "a div 16 = 14 \<or> a div 16 = 15 \<longleftrightarrow> 224 \<le> a" using assms(1) by linarith
  have n: "\<not> ipv4ToInt (dotted a b c d) < 0" by (simp add: ipv4ToInt_dotted assms)
  have "isPrivateIPv4 (dotted a b c d) \<longleftrightarrow>
    a = 0 \<or> a = 10 \<or> a * 4 + b div 64 = 401 \<or> a = 127 \<or> a * 256 + b = 43518
    \<or> a * 16 + b div 16 = 2753 \<or> (a * 256 + b) * 256 + c = 12582912
    \<or> (a * 256 + b) * 256 + c = 12582914 \<or> a * 256 + b = 49320 \<or> a * 128 + b div 2 = 25353
    \<or> (a * 256 + b) * 256 + c = 12989284 \<or> (a * 256 + b) * 256 + c = 13303921
    \<or> a div 16 = 14 \<or> a div 16 = 15"
    unfolding isPrivateIPv4_def PRIVATE_IPV4_RANGES_def js_dotted Let_def
    using n by (simp add: m octets_div assms)
  also have "\<dots> \<longleftrightarrow> private_octets a b c"
    by (simp only: private_octets_def digits [OF assms(2,3)] multicast) satx
  finally show ?thesis .
qed

subsection \<open>The private ranges of IPv6\<close>

definition private_embedded :: "nat \<Rightarrow> nat \<Rightarrow> bool" where
  "private_embedded hi lo = private_octets (hi div 256) (hi mod 256) (lo div 256)"

definition private_groups :: "nat list \<Rightarrow> bool" where
  "private_groups gs \<longleftrightarrow>
     gs = replicate 8 0
     \<or> (take 6 gs = [0, 0, 0, 0, 0, 0xffff] \<or> take 6 gs = [0, 0, 0, 0, 0xffff, 0])
        \<and> private_embedded (gs ! 6) (gs ! 7)
     \<or> take 6 gs = [0x64, 0xff9b, 0, 0, 0, 0]
     \<or> take 3 gs = [0x64, 0xff9b, 1]
     \<or> take 4 gs = [0x100, 0, 0, 0]
     \<or> take 2 gs = [0x2001, 0xdb8]
     \<or> take 2 gs = [0x2001, 0] \<and> private_embedded (65535 - gs ! 6) (65535 - gs ! 7)
     \<or> hd gs = 0x2002
     \<or> 0xfc00 \<le> hd gs \<and> hd gs < 0xfe00
     \<or> 0xfe80 \<le> hd gs \<and> hd gs < 0xfec0
     \<or> 0xff00 \<le> hd gs"

lemma low_byte: "n AND 255 = n mod (256 :: nat)"
  using take_bit_eq_mask [of 8 n] by (simp add: mask_eq_exp_minus_1 take_bit_eq_mod)

lemma isPrivateIPv4_groups:
  assumes "hi < 65536" "lo < 65536"
  shows "isPrivateIPv4 (ipv4FromGroups hi lo) \<longleftrightarrow> private_embedded hi lo"
proof -
  have "hi div 256 < 256" "lo div 256 < 256" using assms by auto
  then show ?thesis
    using private_octets_iff [of "hi div 256" "hi mod 256" "lo div 256" "lo mod 256"]
    by (simp add: ipv4FromGroups_def Let_def low_byte drop_bit_eq_div dotted_def private_embedded_def)
qed

lemma flip16:
  assumes "(n :: nat) < 65536"
  shows "(n XOR 65535) AND 65535 = 65535 - n"
proof -
  have m: "mask 16 = (65535 :: nat)" by (simp add: mask_eq_exp_minus_1)
  have n: "take_bit 16 n = n" using assms by (simp add: take_bit_nat_eq_self)
  let ?x = "(n XOR 65535) AND 65535"
  have "n AND ?x = 0"
    by (rule bit_eqI) (auto simp: bit_simps simp flip: m)
  then have "n + ?x = n OR ?x" by (rule disjunctive_add_eq_or)
  also have "\<dots> = 65535"
    by (rule bit_eqI) (subst n [symmetric], auto simp: bit_simps simp flip: m)
  finally show ?thesis by simp
qed

lemma expandIPv6_groups:
  assumes "expandIPv6 N ip = Some gs"
  shows "length gs = 8" and "g \<in> set gs \<Longrightarrow> g < 65536"
proof -
  have "length gs = 8 \<and> \<not> list_ex (\<lambda>g. 65535 < g) gs"
    using assms unfolding expandIPv6_def Let_def by (auto split: if_splits option.splits)
  then show "length gs = 8" and "g \<in> set gs \<Longrightarrow> g < 65536" by (auto simp: list_ex_iff)
qed

lemma eight_groups:
  assumes "length gs = 8"
  obtains a b c d e f g h where "gs = [a, b, c, d, e, f, g, h]"
proof -
  from assms have "gs = [gs ! 0, gs ! 1, gs ! 2, gs ! 3, gs ! 4, gs ! 5, gs ! 6, gs ! 7]"
    by (intro nth_equalityI) (auto simp: less_Suc_eq numeral_eq_Suc)
  then show thesis by (rule that)
qed

lemma replicate_eq8: "replicate 8 x = [x, x, x, x, x, x, x, x]"
  and replicate_eq5: "replicate 5 x = [x, x, x, x, x]"
  and replicate_eq6: "replicate 6 x = [x, x, x, x, x, x]"
  by (simp_all add: numeral_eq_Suc)

lemma first_byte:
  assumes "(a :: nat) < 65536"
  shows "drop_bit 8 a AND 255 = a div 256"
    and "a div 256 = 254 \<Longrightarrow> a AND 192 = 128 \<longleftrightarrow> 0xfe80 \<le> a \<and> a < 0xfec0"
proof -
  show "drop_bit 8 a AND 255 = a div 256" using assms by (simp add: low_byte drop_bit_eq_div)
  assume a: "a div 256 = 254"
  have "a AND push_bit 6 (mask 2) = push_bit 6 (take_bit 2 (drop_bit 6 a))"
    by (rule bit_eqI) (auto simp: bit_simps)
  then have "a AND 192 = 64 * (a div 64 mod 4)"
    by (simp add: mask_eq_exp_minus_1 push_bit_eq_mult take_bit_eq_mod drop_bit_eq_div)
  then have "a AND 192 = 128 \<longleftrightarrow> a div 64 mod 4 = 2" by linarith
  moreover have "a div 64 div 4 = 254" using a by (simp add: div_mult2_eq [symmetric])
  then have "a div 64 mod 4 = 2 \<longleftrightarrow> a div 64 = 1018"
    using div_mult_mod_eq [of "a div 64" 4] by linarith
  moreover have "a div 64 = 1018 \<longleftrightarrow> 0xfe80 \<le> a \<and> a < 0xfec0" by linarith
  ultimately show "a AND 192 = 128 \<longleftrightarrow> 0xfe80 \<le> a \<and> a < 0xfec0" by simp
qed

text \<open>The branches of the code, on the groups, are the ranges.\<close>

lemma isPrivateIPv6_groups:
  assumes "expandIPv6 N (map lower ip) = Some gs"
  shows "isPrivateIPv6 N ip
    \<longleftrightarrow> map lower ip = js ''::1'' \<or> map lower ip = js ''::'' \<or> private_groups gs"
proof (cases "map lower ip = js ''::1'' \<or> map lower ip = js ''::''")
  case True
  then show ?thesis by (auto simp: isPrivateIPv6_def)
next
  case False
  obtain a b c d e f g h where gs: "gs = [a, b, c, d, e, f, g, h]"
    using eight_groups [OF expandIPv6_groups(1) [OF assms]] by metis
  have small: "a < 65536" "g < 65536" "h < 65536"
    using expandIPv6_groups(2) [OF assms] by (auto simp: gs)
  note embedded = isPrivateIPv4_groups [OF small(2,3)]
  have teredo: "isPrivateIPv4 (ipv4FromGroups ((g XOR 65535) AND 65535) ((h XOR 65535) AND 65535))
    \<longleftrightarrow> private_embedded (65535 - g) (65535 - h)"
    using isPrivateIPv4_groups [of "65535 - g" "65535 - h"] by (simp add: flip16 small)
  have byte: "drop_bit 8 a AND 255 = 252 \<or> drop_bit 8 a AND 255 = 253 \<longleftrightarrow> 0xfc00 \<le> a \<and> a < 0xfe00"
    "drop_bit 8 a AND 255 = 254 \<and> a AND 192 = 128 \<longleftrightarrow> 0xfe80 \<le> a \<and> a < 0xfec0"
    "drop_bit 8 a AND 255 = 255 \<longleftrightarrow> 0xff00 \<le> a"
    unfolding first_byte(1) [OF small(1)] using first_byte(2) [OF small(1)] small(1)
    by (linarith, (cases "a div 256 = 254"; linarith), linarith)
  have "isPrivateIPv6 N ip \<longleftrightarrow>
    (a = 0 \<and> b = 0 \<and> c = 0 \<and> d = 0 \<and> e = 0 \<and> f = 0 \<and> g = 0 \<and> h = 0
     \<or> a = 0 \<and> b = 0 \<and> c = 0 \<and> d = 0 \<and> e = 0 \<and> f = 0xffff \<and> private_embedded g h
     \<or> a = 0 \<and> b = 0 \<and> c = 0 \<and> d = 0 \<and> e = 0xffff \<and> f = 0 \<and> private_embedded g h
     \<or> a = 0x64 \<and> b = 0xff9b \<and> c = 0 \<and> d = 0 \<and> e = 0 \<and> f = 0
     \<or> a = 0x64 \<and> b = 0xff9b \<and> c = 1
     \<or> a = 0x100 \<and> b = 0 \<and> c = 0 \<and> d = 0
     \<or> a = 0x2001 \<and> b = 0xdb8
     \<or> a = 0x2001 \<and> b = 0 \<and> private_embedded (65535 - g) (65535 - h)
     \<or> a = 0x2002
     \<or> (drop_bit 8 a AND 255 = 252 \<or> drop_bit 8 a AND 255 = 253)
     \<or> (drop_bit 8 a AND 255 = 254 \<and> a AND 192 = 128)
     \<or> drop_bit 8 a AND 255 = 255)"
  proof -
    have eval: "isPrivateIPv6 N ip = (case Some gs of None \<Rightarrow> True | Some groups \<Rightarrow> groups_private groups)"
      using False by (simp add: isPrivateIPv6_def assms)
    consider "a = 0" | "a = 0x64" | "a = 0x100" | "a = 0x2001" | "a = 0x2002"
      | "a \<noteq> 0" "a \<noteq> 0x64" "a \<noteq> 0x100" "a \<noteq> 0x2001" "a \<noteq> 0x2002" by blast
    then show ?thesis
      by cases (simp_all add: eval groups_private_def gs embedded teredo Let_def, auto)
  qed
  also have "\<dots> \<longleftrightarrow> private_groups gs"
    unfolding byte private_groups_def gs
    by (simp add: replicate_eq8) satx
  finally show ?thesis using False by simp
qed

subsection \<open>Reading an IPv6 literal\<close>

fun colon_join :: "js_string list \<Rightarrow> js_string" where
  "colon_join [] = []"
| "colon_join [w] = w"
| "colon_join (w # v # ws) = w @ 58 # colon_join (v # ws)"

text \<open>A segment: a group of hexadecimal digits, or the four octets of an IPv4 address.\<close>

definition plain_segment :: "js_string \<Rightarrow> bool" where
  "plain_segment w \<longleftrightarrow> w \<noteq> [] \<and> 58 \<notin> set w"

lemma js_split_colon_join:
  assumes "ws \<noteq> []" and "\<forall>w \<in> set ws. 58 \<notin> set w"
  shows "js_split 58 (colon_join ws) = ws"
  using assms by (induction ws rule: colon_join.induct) auto

lemma has_colons_Cons: "has_colons (x # s) \<longleftrightarrow> (x = 58 \<and> s \<noteq> [] \<and> hd s = 58) \<or> has_colons s"
  by (cases s) auto

lemma has_colons_append: "has_colons (s @ 58 # 58 # t)"
  by (induction s) (auto simp: has_colons_Cons)

lemma plain_no_colons: "58 \<notin> set s \<Longrightarrow> has_colons (s @ t) \<longleftrightarrow> has_colons t"
  by (induction s) (auto simp: has_colons_Cons)

lemma colon_join_hd:
  assumes "ws \<noteq> []" "\<forall>w \<in> set ws. plain_segment w"
  shows "colon_join ws \<noteq> []" and "hd (colon_join ws) \<noteq> 58" and "last (colon_join ws) \<noteq> 58"
    and "\<not> has_colons (colon_join ws)"
proof -
  have "colon_join ws \<noteq> [] \<and> hd (colon_join ws) \<noteq> 58 \<and> last (colon_join ws) \<noteq> 58
    \<and> \<not> has_colons (colon_join ws)"
    using assms
  proof (induction ws rule: colon_join.induct)
    case (2 w)
    then have "w \<noteq> []" "58 \<notin> set w" by (auto simp: plain_segment_def)
    then have "hd w \<noteq> 58" "last w \<noteq> 58" by (metis hd_in_set last_in_set)+
    with \<open>w \<noteq> []\<close> \<open>58 \<notin> set w\<close> show ?case using plain_no_colons [of w "[]"] by simp
  next
    case (3 w v ws)
    then have "w \<noteq> []" "58 \<notin> set w" by (auto simp: plain_segment_def)
    then have "hd w \<noteq> 58" by (metis hd_in_set)
    with 3 \<open>w \<noteq> []\<close> \<open>58 \<notin> set w\<close> show ?case using plain_no_colons [of w "58 # colon_join (v # ws)"]
      by (auto simp: has_colons_Cons)
  qed simp
  then show "colon_join ws \<noteq> []" and "hd (colon_join ws) \<noteq> 58" and "last (colon_join ws) \<noteq> 58"
    and "\<not> has_colons (colon_join ws)" by auto
qed

lemma js_split2_none: "\<not> has_colons t \<Longrightarrow> js_split2 58 58 t = [t]"
  by (induction "58 :: nat" "58 :: nat" t rule: js_split2.induct) auto

lemma js_split2_append:
  assumes "\<not> has_colons (h @ [58])"
  shows "js_split2 58 58 (h @ 58 # 58 # t) = h # js_split2 58 58 t"
  using assms
proof (induction h)
  case (Cons x h)
  then have "\<not> has_colons (h @ [58])" by (auto simp: has_colons_Cons)
  with Cons have "js_split2 58 58 (h @ 58 # 58 # t) = h # js_split2 58 58 t" by simp
  moreover obtain y r where "h @ 58 # 58 # t = y # r" "x = 58 \<longrightarrow> y \<noteq> 58"
    using Cons.prems by (cases h) auto
  ultimately show ?case by auto
qed simp

lemma colon_join_snoc_colon:
  assumes "\<forall>w \<in> set ws. plain_segment w"
  shows "\<not> has_colons (colon_join ws @ [58])"
  using assms
proof (induction ws rule: colon_join.induct)
  case (2 w)
  then show ?case using plain_no_colons [of w "[58]"] by (simp add: plain_segment_def)
next
  case (3 w v ws)
  moreover have "colon_join (v # ws) \<noteq> []" "hd (colon_join (v # ws)) \<noteq> 58"
    using colon_join_hd [of "v # ws"] 3(2) by auto
  ultimately show ?case using plain_no_colons [of w "58 # colon_join (v # ws) @ [58]"]
    by (simp add: plain_segment_def has_colons_Cons)
qed simp

lemma split_address_full:
  assumes "ws \<noteq> []" "\<forall>w \<in> set ws. plain_segment w"
  shows "split_address (colon_join ws) = (ws, [])"
  using assms colon_join_hd [OF assms]
  by (simp add: split_address_def js_split_colon_join plain_segment_def)

lemma split_address_compressed:
  assumes "\<forall>w \<in> set hs. plain_segment w" "\<forall>w \<in> set ts. plain_segment w"
  shows "split_address (colon_join hs @ 58 # 58 # colon_join ts) = (hs, ts)"
proof -
  have "\<not> has_colons (colon_join ts)"
    using colon_join_hd(4) [of ts] assms(2) by (cases "ts = []") auto
  then have parts: "js_split2 58 58 (colon_join hs @ 58 # 58 # colon_join ts) = [colon_join hs, colon_join ts]"
    using colon_join_snoc_colon [OF assms(1)] by (simp add: js_split2_append js_split2_none)
  have piece: "(if colon_join ws \<noteq> [] then js_split 58 (colon_join ws) else []) = ws"
    if "\<forall>w \<in> set ws. plain_segment w" for ws
    using that colon_join_hd(1) [of ws] by (cases "ws = []") (auto simp: js_split_colon_join plain_segment_def)
  show ?thesis
    by (simp only: split_address_def has_colons_append parts if_True Let_def nth_Cons_0 nth_Cons_Suc
        One_nat_def piece [OF assms(1)] piece [OF assms(2)])
qed

text \<open>The groups a list of segments stands for; only the last one may be dotted.\<close>

fun segment_groups :: "js_string list \<Rightarrow> (nat \<times> nat \<times> nat \<times> nat) option \<Rightarrow> nat list" where
  "segment_groups ws None = map hex_value ws"
| "segment_groups ws (Some (a, b, c, d)) = map hex_value ws @ [a * 256 + b, c * 256 + d]"

fun segment_text :: "js_string list \<Rightarrow> (nat \<times> nat \<times> nat \<times> nat) option \<Rightarrow> js_string list" where
  "segment_text ws None = ws"
| "segment_text ws (Some (a, b, c, d)) = ws @ [dotted a b c d]"

fun octets_ok :: "(nat \<times> nat \<times> nat \<times> nat) option \<Rightarrow> bool" where
  "octets_ok None \<longleftrightarrow> True"
| "octets_ok (Some (a, b, c, d)) \<longleftrightarrow> a < 256 \<and> b < 256 \<and> c < 256 \<and> d < 256"

lemma hex_group_chars: "hex_group g \<Longrightarrow> c \<in> set g \<Longrightarrow> c \<noteq> 58 \<and> c \<noteq> 46"
  by (auto simp: hex_group_def list_all_iff hex_digit_def is_js_digit_def split: if_splits)

lemma plain_hex_group: "hex_group g \<Longrightarrow> plain_segment g"
  using hex_group_chars [of g 58] by (auto simp: plain_segment_def hex_group_def)

lemma plain_dotted: "plain_segment (dotted a b c d)"
  by (simp add: plain_segment_def dotted_def)

lemma plain_segment_text:
  assumes "\<forall>g \<in> set ws. hex_group g"
  shows "\<forall>w \<in> set (segment_text ws q). plain_segment w"
  using assms
  by (cases "(ws, q)" rule: segment_text.cases) (auto simp: plain_hex_group plain_dotted)

lemma hex_value_bound: "hex_group g \<Longrightarrow> hex_value g < 65536"
proof -
  assume g: "hex_group g"
  have "\<forall>c \<in> set g. the (hex_digit c) < 16"
    using g by (auto simp: hex_group_def list_all_iff hex_digit_def is_js_digit_def split: if_splits)
  then have "foldl (\<lambda>a d. 16 * a + the (hex_digit d)) 0 g < 16 ^ length g"
    by (induction g rule: rev_induct) auto
  also have "\<dots> \<le> 16 ^ 4" using g by (intro power_increasing) (auto simp: hex_group_def)
  finally show ?thesis by (simp add: hex_value_def)
qed

lemma hex_string_group:
  assumes "n < 65536"
  shows "hex_group (hex_string n)" and "hex_value (hex_string n) = n"
proof -
  have digit: "hex_digit (if k < 10 then 48 + k else 87 + k) = Some k" if "k < 16" for k :: nat
    using that by (auto simp: hex_digit_def is_js_digit_def)
  have main: "length (hex_string n) \<ge> 1 \<and> list_all (\<lambda>c. hex_digit c \<noteq> None) (hex_string n)
      \<and> hex_value (hex_string n) = n \<and> (\<forall>k > 0. n < 16 ^ k \<longrightarrow> length (hex_string n) \<le> k)" for n
  proof (induction n rule: hex_string.induct)
    case (1 n)
    show ?case
    proof (cases "n < 16")
      case True
      then have "hex_string n = [if n < 10 then 48 + n else 87 + n]"
        by (simp only: hex_string.simps [of n] if_True)
      then show ?thesis using digit [OF True]
        by (simp only: hex_value_def foldl.simps list.pred_inject list.size option.sel) simp
    next
      case False
      have len: "length (hex_string (n div 16)) < k" if "0 < k" "n < 16 ^ k" for k
      proof -
        obtain j where k: "k = Suc j" using \<open>0 < k\<close> by (cases k) auto
        with that False have "0 < j" "n div 16 < 16 ^ j"
          by (auto simp: less_mult_imp_div_less mult.commute intro!: gr0I)
        with 1 [OF False] have "length (hex_string (n div 16)) \<le> j" by blast
        then show ?thesis by (simp add: k)
      qed
      let ?d = "if n mod 16 < 10 then 48 + n mod 16 else 87 + n mod 16" and ?h = "hex_string (n div 16)"
      have d: "hex_digit ?d = Some (n mod 16)" by (rule digit) simp
      have snoc: "hex_string n = ?h @ [?d]" using False by (simp only: hex_string.simps [of n] if_False)
      note ih = 1 [OF False]
      have "hex_value (hex_string n) = 16 * hex_value ?h + n mod 16"
        unfolding snoc by (simp only: hex_value_def foldl_append foldl.simps d option.sel)
      also have "\<dots> = n" using ih by simp
      finally have "hex_value (hex_string n) = n" .
      moreover have "list_all (\<lambda>c. hex_digit c \<noteq> None) (hex_string n)"
        unfolding snoc using ih d by simp
      moreover have "length (hex_string n) = Suc (length ?h)" unfolding snoc by simp
      ultimately show ?thesis using len by (auto simp: Suc_le_eq)
    qed
  qed
  from main [of n] assms show "hex_group (hex_string n)" and "hex_value (hex_string n) = n"
    by (auto simp: hex_group_def)
qed

lemma expandDottedQuad_plain:
  assumes "\<forall>g \<in> set ws. hex_group g"
  shows "expandDottedQuad ws = Some ws"
proof -
  have "46 \<notin> set (last ws)" if "ws \<noteq> []"
    using assms that hex_group_chars [of "last ws" 46] by auto
  then show ?thesis by (simp add: expandDottedQuad_def)
qed

lemma expandDottedQuad_text:
  assumes "\<forall>g \<in> set ws. hex_group g" "octets_ok q"
  obtains vs where "expandDottedQuad (segment_text ws q) = Some vs" "\<forall>v \<in> set vs. hex_group v"
    "map hex_value vs = segment_groups ws q"
proof (cases q)
  case None
  with expandDottedQuad_plain [OF assms(1)] assms(1) that [of ws] show thesis by simp
next
  case (Some o4)
  then obtain a b c d where q: "q = Some (a, b, c, d)" by (cases o4) auto
  with assms(2) have small: "a < 256" "b < 256" "c < 256" "d < 256" by auto
  have byte: "(of_nat n :: 32 word) AND 255 = of_nat n" if "n < 256" for n
  proof -
    have "(of_nat n :: 32 word) AND mask 8 = of_nat (n AND mask 8)"
      by (simp only: of_nat_and_eq of_nat_mask_eq)
    also have "n AND mask 8 = n" using that by (simp add: take_bit_nat_eq_self flip: take_bit_eq_mask)
    finally show ?thesis by (simp add: mask_eq_exp_minus_1)
  qed
  have pair: "unat (push_bit 8 (of_nat x) OR of_nat y :: 32 word) = x * 256 + y"
    if "x < 256" "y < 256" for x y
  proof -
    have "push_bit 8 (of_nat x) OR of_nat y = (of_nat (256 * x + y) :: 32 word)"
      using that by (simp only: push_or_nat)
    moreover have "256 * x + y < 2 ^ 32" using that by simp
    ultimately show ?thesis by (simp only: unat_of_nat take_bit_nat_eq_self) simp
  qed
  have dot: "46 \<in> set (dotted a b c d)" by (simp add: dotted_def)
  have "expandDottedQuad (segment_text ws q)
    = Some (ws @ [hex_string (a * 256 + b), hex_string (c * 256 + d)])"
    using small dot by (simp add: q expandDottedQuad_def Let_def byte pair)
  moreover have "a * 256 + b < 65536" "c * 256 + d < 65536" using small by auto
  ultimately show thesis
    using that [of "ws @ [hex_string (a * 256 + b), hex_string (c * 256 + d)]"] assms(1)
    by (simp add: q hex_string_group)
qed

lemma segment_text_Nil: "segment_text ws q = [] \<longleftrightarrow> ws = [] \<and> q = None"
  by (cases "(ws, q)" rule: segment_text.cases) auto

text \<open>A literal in full, and one with \<open>::\<close> for at least one group of zeros, denote their groups.\<close>

definition address_text :: "js_string list \<Rightarrow> js_string list option \<Rightarrow> (nat \<times> nat \<times> nat \<times> nat) option \<Rightarrow> js_string" where
  "address_text hs ts q =
     (case ts of None \<Rightarrow> colon_join (segment_text hs q)
      | Some ws \<Rightarrow> colon_join hs @ 58 # 58 # colon_join (segment_text ws q))"

definition address_groups :: "js_string list \<Rightarrow> js_string list option \<Rightarrow> (nat \<times> nat \<times> nat \<times> nat) option \<Rightarrow> nat list" where
  "address_groups hs ts q =
     (case ts of None \<Rightarrow> segment_groups hs q
      | Some ws \<Rightarrow> map hex_value hs
          @ replicate (8 - length hs - length (segment_groups ws q)) 0 @ segment_groups ws q)"

lemma expand_segments:
  assumes "expandDottedQuad (fst (split_address ip)) = Some h"
    and "expandDottedQuad (snd (split_address ip)) = Some t"
    and "\<forall>v \<in> set h. hex_group v" "\<forall>v \<in> set t. hex_group v"
    and "length h + length t \<le> 8" "net_isIPv6 N ip"
  shows "expandIPv6 N ip
    = Some (map hex_value h @ replicate (8 - length h - length t) 0 @ map hex_value t)"
proof -
  let ?r = "h @ replicate (8 - length h - length t) [48] @ t"
  have zero: "hex_group [48]" "hex_value [48] = 0"
    by (simp_all add: hex_group_def hex_value_def hex_digit_def is_js_digit_def)
  have ok: "\<forall>v \<in> set ?r. hex_group v" using assms(3,4) zero by auto
  then have "\<not> list_ex (\<lambda>g. \<not> hex_group g) ?r" by (auto simp: list_ex_iff)
  moreover have "\<not> list_ex (\<lambda>g. 65535 < g) (map hex_value ?r)"
    using ok hex_value_bound by (fastforce simp: list_ex_iff)
  moreover have "map hex_value ?r
    = map hex_value h @ replicate (8 - length h - length t) 0 @ map hex_value t"
    by (simp add: zero)
  ultimately show ?thesis
    using assms by (simp add: expandIPv6_def Let_def del: list_ex_append)
qed

lemma expandDottedQuad_Nil: "expandDottedQuad [] = Some []"
  by (simp add: expandDottedQuad_def)

lemma expandIPv6_reads_text:
  assumes "\<forall>g \<in> set hs. hex_group g" "\<forall>ws. ts = Some ws \<longrightarrow> (\<forall>g \<in> set ws. hex_group g)" "octets_ok q"
    and "length (address_groups hs ts q) = 8"
    and "net_isIPv6 N (address_text hs ts q)"
  shows "expandIPv6 N (address_text hs ts q) = Some (address_groups hs ts q)"
proof (cases ts)
  case None
  obtain vs where vs: "expandDottedQuad (segment_text hs q) = Some vs" "\<forall>v \<in> set vs. hex_group v"
    "map hex_value vs = segment_groups hs q"
    using expandDottedQuad_text [OF assms(1,3)] by metis
  have "length vs = length (segment_groups hs q)" unfolding vs(3) [symmetric] by simp
  with assms(4) have len: "length vs = 8" by (simp add: None address_groups_def)
  then have "segment_text hs q \<noteq> []" using vs(1) by (auto simp: expandDottedQuad_def)
  then have split: "split_address (address_text hs ts q) = (segment_text hs q, [])"
    using plain_segment_text [OF assms(1)] by (simp add: None address_text_def split_address_full)
  have "expandIPv6 N (address_text hs ts q) = Some (map hex_value vs)"
    using expand_segments [of "address_text hs ts q" vs "[]" N, OF _ _ vs(2) _ _ assms(5)]
    by (simp add: split vs(1) len expandDottedQuad_Nil)
  then show ?thesis using len by (simp add: vs(3) None address_groups_def)
next
  case (Some ws)
  obtain vs where vs: "expandDottedQuad (segment_text ws q) = Some vs" "\<forall>v \<in> set vs. hex_group v"
    "map hex_value vs = segment_groups ws q"
    using expandDottedQuad_text [OF _ assms(3)] assms(2) Some by metis
  have hvs: "expandDottedQuad hs = Some hs"
    by (rule expandDottedQuad_plain [OF assms(1)])
  have split: "split_address (address_text hs ts q) = (hs, segment_text ws q)"
    unfolding address_text_def Some option.simps
    by (rule split_address_compressed) (use assms(1,2) Some plain_segment_text plain_hex_group in auto)
  have len: "length hs + length vs \<le> 8"
  proof -
    have "length (segment_groups ws q) = length vs" by (metis vs(3) length_map)
    with assms(4) show ?thesis by (simp add: Some address_groups_def)
  qed
  have "expandIPv6 N (address_text hs ts q)
    = Some (map hex_value hs @ replicate (8 - length hs - length vs) 0 @ map hex_value vs)"
    by (rule expand_segments [OF _ _ assms(1) vs(2) len assms(5)]) (simp_all add: split vs(1) hvs)
  moreover have "length (segment_groups ws q) = length vs" by (metis vs(3) length_map)
  ultimately show ?thesis by (simp add: vs(3) Some address_groups_def)
qed

subsection \<open>What an accepted URL guarantees\<close>

definition octet_text :: "js_string \<Rightarrow> bool" where
  "octet_text p \<longleftrightarrow> p \<noteq> [] \<and> list_all is_js_digit p \<and> (length p = 1 \<or> hd p \<noteq> 48) \<and> dec_value p < 256"

definition dotted_decimal :: "js_string \<Rightarrow> bool" where
  "dotted_decimal ip \<longleftrightarrow> length (js_split 46 ip) = 4 \<and> list_all octet_text (js_split 46 ip)"

text \<open>
  What Node documents: \<open>net.isIPv4\<close> accepts dot-decimal notation without leading zeroes and no
  string is an address of both kinds; an answer of \<open>dns.lookup\<close> has family 4 or 6 and is an
  address of its family.
\<close>

definition node_documented :: "node_net \<Rightarrow> bool" where
  "node_documented N \<longleftrightarrow>
     (\<forall>ip. net_isIPv4 N ip \<longrightarrow> dotted_decimal ip \<and> \<not> net_isIPv6 N ip)
     \<and> (\<forall>n host as a. dns_lookup N n host = Some as \<longrightarrow> a \<in> set as \<longrightarrow>
          snd a = 4 \<and> net_isIPv4 N (fst a) \<or> snd a = 6 \<and> net_isIPv6 N (fst a))"

definition public_v4 :: "js_string \<Rightarrow> bool" where
  "public_v4 ip \<longleftrightarrow>
     (\<exists>a b c d. a < 256 \<and> b < 256 \<and> c < 256 \<and> d < 256 \<and> ip = dotted a b c d \<and> \<not> private_octets a b c)"

definition public_v6 :: "node_net \<Rightarrow> js_string \<Rightarrow> bool" where
  "public_v6 N ip \<longleftrightarrow>
     map lower ip \<noteq> js ''::1'' \<and> map lower ip \<noteq> js ''::''
     \<and> (\<exists>gs. expandIPv6 N (map lower ip) = Some gs \<and> \<not> private_groups gs)"

definition public_address :: "node_net \<Rightarrow> js_string \<times> nat \<Rightarrow> bool" where
  "public_address N a \<longleftrightarrow> (snd a = 4 \<and> public_v4 (fst a)) \<or> (snd a = 6 \<and> public_v6 N (fst a))"

lemma js_split_nonempty [simp]: "js_split c s \<noteq> []"
  by (induction s) (auto split: list.splits)

lemma js_split_inverse: "s = hd (js_split c s) @ concat (map (\<lambda>w. c # w) (tl (js_split c s)))"
proof (induction s)
  case (Cons x s)
  obtain w ws where ws: "js_split c s = w # ws" by (cases "js_split c s") auto
  with Cons show ?case by (auto simp: ws)
qed simp

lemma dotted_decimal_dotted:
  assumes "dotted_decimal ip"
  obtains a b c d where "a < 256" "b < 256" "c < 256" "d < 256" "ip = dotted a b c d"
proof -
  obtain p q r s where ps: "js_split 46 ip = [p, q, r, s]"
    using assms by (auto simp: dotted_decimal_def numeral_eq_Suc length_Suc_conv)
  have octet: "dec_digits (dec_value w) = w \<and> dec_value w < 256" if "octet_text w" for w
  proof (cases "length w = 1")
    case True
    then obtain x where "w = [x]" by (auto simp: length_Suc_conv)
    with that show ?thesis
      by (auto simp: octet_text_def is_js_digit_def dec_value_def dec_digits.simps [of "x - 48"])
  next
    case False
    with that show ?thesis by (simp add: octet_text_def dec_digits_value)
  qed
  have "ip = p @ 46 # q @ 46 # r @ 46 # s" using js_split_inverse [of ip 46] by (simp add: ps)
  moreover have "octet_text p" "octet_text q" "octet_text r" "octet_text s"
    using assms by (simp_all add: dotted_decimal_def ps)
  ultimately show thesis
    using that [of "dec_value p" "dec_value q" "dec_value r" "dec_value s"] octet
    by (simp add: dotted_def)
qed

lemma octet_text_digits: "n < 256 \<Longrightarrow> octet_text (dec_digits n)"
  using dec_digits_no_leading_zero [of n] dec_digits_all_digits [of n] dec_value_digits [of n]
  by (cases "n = 0") (auto simp: octet_text_def dec_digits.simps [of 0])

lemma dotted_decimal_of_octets:
  "a < 256 \<Longrightarrow> b < 256 \<Longrightarrow> c < 256 \<Longrightarrow> d < 256 \<Longrightarrow> dotted_decimal (dotted a b c d)"
  by (simp add: dotted_decimal_def octet_text_digits)

lemma public_v4_iff:
  assumes "dotted_decimal ip"
  shows "public_v4 ip \<longleftrightarrow> \<not> isPrivateIPv4 ip"
proof -
  have "\<not> isPrivateIPv4 ip" if "public_v4 ip"
    using that private_octets_iff unfolding public_v4_def by blast
  moreover have "public_v4 ip" if "\<not> isPrivateIPv4 ip"
    using that private_octets_iff unfolding public_v4_def by (metis assms dotted_decimal_dotted)
  ultimately show ?thesis by blast
qed

lemma public_v6_iff: "public_v6 N ip \<longleftrightarrow> \<not> isPrivateIPv6 N ip"
proof (cases "expandIPv6 N (map lower ip)")
  case None
  then show ?thesis by (simp add: public_v6_def isPrivateIPv6_def)
next
  case (Some gs)
  then show ?thesis using isPrivateIPv6_groups [OF Some] by (auto simp: public_v6_def)
qed

lemma public_address_iff:
  assumes "node_documented N" "dns_lookup N n host = Some as" "a \<in> set as"
  shows "public_address N a \<longleftrightarrow> \<not> address_private N a"
proof -
  from assms have "snd a = 4 \<and> dotted_decimal (fst a) \<or> snd a = 6"
    unfolding node_documented_def by blast
  then show ?thesis
    by (auto simp: public_address_def address_private_def public_v4_iff public_v6_iff)
qed

definition host_of :: "node_url \<Rightarrow> js_string" where
  "host_of u = strip_brackets (url_hostname u)"

lemma ssrfGuard_cases:
  assumes "ssrfGuard N n raw = Inr g" and "node_documented N"
  obtains u where "parse_url N raw = Some u" "guarded_url g = u"
    "url_protocol u = js ''http:'' \<or> url_protocol u = js ''https:''"
    "url_username u = []" "url_password u = []"
    "public_address N (resolvedIp g, ip_family g)"
    "net_isIPv4 N (host_of u) \<or> net_isIPv6 N (host_of u) \<Longrightarrow> resolvedIp g = host_of u"
    "\<not> net_isIPv4 N (host_of u) \<Longrightarrow> \<not> net_isIPv6 N (host_of u) \<Longrightarrow>
       \<exists>as. dns_lookup N n (host_of u) = Some ((resolvedIp g, ip_family g) # as)
         \<and> list_all (public_address N) ((resolvedIp g, ip_family g) # as)"
proof -
  obtain u where u: "parse_url N raw = Some u"
    "url_protocol u = js ''http:'' \<or> url_protocol u = js ''https:''"
    "url_username u = []" "url_password u = []"
    using assms(1) by (auto simp: ssrfGuard_def split: option.splits if_splits)
  note run = assms(1) [unfolded ssrfGuard_def Let_def, simplified u, simplified, folded host_of_def]
  show thesis
  proof (cases "net_isIPv4 N (host_of u)")
    case True
    then have "dotted_decimal (host_of u)" using assms(2) by (auto simp: node_documented_def)
    with True run u that [of u] show thesis
      by (auto simp: public_address_def public_v4_iff split: if_splits)
  next
    case v4: False
    show thesis
    proof (cases "net_isIPv6 N (host_of u)")
      case True
      with v4 run u that [of u] show thesis
        by (auto simp: public_address_def public_v6_iff split: if_splits)
    next
      case False
      with v4 u run obtain a as where a: "dns_lookup N n (host_of u) = Some (a # as)"
        "\<not> list_ex (address_private N) (a # as)"
        "g = \<lparr>resolvedIp = fst a, ip_family = (if snd a = 6 then 6 else 4), guarded_url = u\<rparr>"
        by (auto split: option.splits list.splits if_splits)
      have fam: "snd a = 4 \<or> snd a = 6" using assms(2) a(1) unfolding node_documented_def by fastforce
      then have g: "(resolvedIp g, ip_family g) = a" "guarded_url g = u" by (auto simp: a(3) prod_eq_iff)
      have "\<forall>b \<in> set (a # as). public_address N b"
        using public_address_iff [OF assms(2) a(1)] a(2) by (auto simp: list_ex_iff)
      then show thesis using that [of u] u g a(1) v4 False by (auto simp: list_all_iff)
    qed
  qed
qed

text \<open>C40: The IPv4 guard computes the ranges of the RFCs. For every address in dotted notation,
  the masks of \<open>isPrivateIPv4\<close> over 32-bit integers accept exactly the addresses outside the
  reserved ranges, read off the octets.
\<close>

theorem private_ipv4_is_octet_ranges:
  assumes "a < 256" "b < 256" "c < 256" "d < 256"
  shows "isPrivateIPv4 (dotted a b c d) \<longleftrightarrow> private_octets a b c"
  by (rule private_octets_iff [OF assms])

theorem private_ipv4_is_octet_ranges_witness:
  "(isPrivateIPv4 (dotted 172 31 255 255) \<longleftrightarrow> private_octets 172 31 255) \<and> private_octets 172 31 255
   \<and> (isPrivateIPv4 (dotted 172 32 0 0) \<longleftrightarrow> private_octets 172 32 0) \<and> \<not> private_octets 172 32 0"
  using private_ipv4_is_octet_ranges [of 172 31 255 255] private_ipv4_is_octet_ranges [of 172 32 0 0]
  by (simp add: private_octets_def)

text \<open>The IPv6 guard judges the address, not its spelling. A literal of eight groups, or one
  where \<open>::\<close> stands for the missing groups, with a dotted quad as its last two groups or not, is
  refused exactly when its groups lie in a reserved range or embed a reserved IPv4 address, or
  when the text is \<open>::1\<close> or \<open>::\<close>.
\<close>

lemma private_ipv6_judges_groups:
  assumes "\<forall>g \<in> set hs. hex_group g" "\<forall>ws. ts = Some ws \<longrightarrow> (\<forall>g \<in> set ws. hex_group g)" "octets_ok q"
    and "length (address_groups hs ts q) = 8"
    and "ip = address_text hs ts q" "map lower ip = ip" "net_isIPv6 N ip"
  shows "isPrivateIPv6 N ip
    \<longleftrightarrow> ip = js ''::1'' \<or> ip = js ''::'' \<or> private_groups (address_groups hs ts q)"
proof -
  have "expandIPv6 N (map lower ip) = Some (address_groups hs ts q)"
    using expandIPv6_reads_text [OF assms(1-4)] assms(5-7) by simp
  from isPrivateIPv6_groups [OF this] show ?thesis by (simp add: assms(6))
qed

definition net_all_v6 :: node_net where
  "net_all_v6 = \<lparr>parse_url = (\<lambda>s. None), net_isIPv4 = (\<lambda>s. False), net_isIPv6 = (\<lambda>s. True),
     dns_lookup = (\<lambda>n h. None)\<rparr>"

lemmas literal_simps = hex_group_def hex_digit_def is_js_digit_def address_groups_def address_text_def
  hex_value_def dotted_def dec_digits.simps lower_def is_js_upper_def net_all_v6_def
  replicate_eq5 replicate_eq6

lemmas group_simps = private_groups_def private_embedded_def private_octets_def replicate_eq8

lemma literal_groups:
  "address_groups [] (Some [js ''ffff'']) (Some (10, 0, 0, 1)) = [0, 0, 0, 0, 0, 0xffff, 0xa00, 1]"
  "address_groups [[48], [48], [48], [48], [48], [48], [48], [49]] None None = [0, 0, 0, 0, 0, 0, 0, 1]"
  "address_groups [] (Some [js ''7f00'', js ''1'']) None = [0, 0, 0, 0, 0, 0, 0x7f00, 1]"
  by (simp_all add: literal_simps)

lemma literal_texts:
  "js ''::ffff:10.0.0.1'' = address_text [] (Some [js ''ffff'']) (Some (10, 0, 0, 1))"
  "js ''0:0:0:0:0:0:0:1'' = address_text [[48], [48], [48], [48], [48], [48], [48], [49]] None None"
  "js ''::7f00:1'' = address_text [] (Some [js ''7f00'', js ''1'']) None"
  by (simp_all add: literal_simps)

lemma embedded_private: "private_groups [0, 0, 0, 0, 0, 0xffff, 0xa00, 1]"
  and loopback_public: "\<not> private_groups [0, 0, 0, 0, 0, 0, 0, 1]"
  and compatible_public: "\<not> private_groups [0, 0, 0, 0, 0, 0, 0x7f00, 1]"
  by (simp_all add: group_simps)

lemma private_ipv6_judges_groups_example:
  "(isPrivateIPv6 net_all_v6 (js ''::ffff:10.0.0.1'')
    \<longleftrightarrow> private_groups [0, 0, 0, 0, 0, 0xffff, 0xa00, 1])
   \<and> private_groups [0, 0, 0, 0, 0, 0xffff, 0xa00, 1]"
  using private_ipv6_judges_groups [OF _ _ _ _ literal_texts(1), of net_all_v6] embedded_private
  by (simp only: literal_groups) (simp add: hex_group_def hex_digit_def is_js_digit_def lower_def
      is_js_upper_def net_all_v6_def)

text \<open>
  The loopback address spelt with its zeros, and the loopback address of IPv4 in the
  compatible form, pass: only the texts \<open>::1\<close> and \<open>::\<close> are compared, and \<open>::/96\<close> is no range.
\<close>

lemma loopback_spelt_out_passes:
  "\<not> isPrivateIPv6 net_all_v6 (js ''0:0:0:0:0:0:0:1'')"
  "\<not> isPrivateIPv6 net_all_v6 (js ''::7f00:1'')"
proof -
  have pass: "\<not> isPrivateIPv6 net_all_v6 ip"
    if "ip = address_text hs ts None" "\<forall>g \<in> set hs. hex_group g"
      "\<forall>ws. ts = Some ws \<longrightarrow> (\<forall>g \<in> set ws. hex_group g)" "length (address_groups hs ts None) = 8"
      "map lower ip = ip" "ip \<noteq> js ''::1''" "ip \<noteq> js ''::''"
      "\<not> private_groups (address_groups hs ts None)" for ip hs ts
  proof -
    have "expandIPv6 net_all_v6 (map lower ip) = Some (address_groups hs ts None)"
      using expandIPv6_reads_text [OF that(2,3), of None net_all_v6] that(1,4,5)
      by (simp add: net_all_v6_def)
    from isPrivateIPv6_groups [OF this] that(5-8) show ?thesis by simp
  qed
  show "\<not> isPrivateIPv6 net_all_v6 (js ''0:0:0:0:0:0:0:1'')"
    by (rule pass [OF literal_texts(2)], unfold literal_groups)
      (use loopback_public in \<open>simp_all add: hex_group_def hex_digit_def is_js_digit_def lower_def is_js_upper_def\<close>)
  show "\<not> isPrivateIPv6 net_all_v6 (js ''::7f00:1'')"
    by (rule pass [OF literal_texts(3)], unfold literal_groups)
      (use compatible_public in \<open>simp_all add: hex_group_def hex_digit_def is_js_digit_def lower_def is_js_upper_def\<close>)
qed

end
