(* ===== verification/Link_Fetch.thy ===== *)
theory Link_Fetch
  imports Ssrf_Guard
begin

text \<open>
  The requests of the link previews: \<open>apps/api/src/links/pinned-http.ts\<close> (one request to a
  checked address, the redirect loop, the bounded read of a body) and
  \<open>apps/api/src/links/og-image-fetcher.ts\<close> (the image of a card, fetched and stored).

  The network is the record \<open>web\<close>. Its operations are numbered in the order in which the code
  awaits them, so that the answers of the name server and of the hosts may change from one
  operation to the next: a round of the loop at number \<open>t\<close> looks the host up at \<open>t\<close> and sends
  its request at \<open>t + 1\<close>. A request that fails, times out or is aborted has no response. Each
  run returns its result and the list of the requests it sent.

  \<open>pinned_hops\<close> is what the two redirect loops have in common; its lemmas hold for both.
\<close>

subsection \<open>Requests and responses\<close>

datatype stream_event = Data "nat list" | End | Stream_error | Stream_close

record http_response =
  res_status :: nat  \<comment> \<open>\<open>statusCode ?? 0\<close>\<close>
  res_location :: "js_string option"
  res_content_type :: "js_string option"
  res_content_length :: "js_string option"
  res_body :: "stream_event list"

record pinned_request =
  req_host :: js_string  \<comment> \<open>the address the socket connects to\<close>
  req_port :: js_number
  req_path :: js_string
  req_host_header :: js_string
  req_servername :: "js_string option"

record web =
  web_net :: node_net
  web_answer :: "nat \<Rightarrow> pinned_request \<Rightarrow> http_response option"
  web_resolve :: "js_string \<Rightarrow> js_string \<Rightarrow> js_string option"  \<comment> \<open>\<open>new URL(loc, base).toString()\<close>\<close>

datatype fetch_error = guard_rejected ssrf_reject | request_failed | too_many_redirects | body_pending

definition pinned_options :: "web \<Rightarrow> guarded \<Rightarrow> pinned_request" where
  "pinned_options W g =
     (let url = guarded_url g; ip = resolvedIp g;
          isHttps = (url_protocol url = js ''https:''); host = url_hostname url in
      \<lparr>req_host = (if ip_family g = 6 \<and> net_isIPv6 (web_net W) ip then [91] @ ip @ [93] else ip),
       req_port = (if url_port url \<noteq> [] then js_Number (url_port url)
                   else Finite (if isHttps then 443 else 80)),
       req_path = url_path url,
       req_host_header = (if url_port url \<noteq> [] then host @ [58] @ url_port url else host),
       req_servername = (if isHttps then Some host else None)\<rparr>)"

text \<open>\<open>pinnedRequest\<close> sends the request with these options; its outcome is the answer of the host.\<close>

definition pinnedRequest :: "web \<Rightarrow> nat \<Rightarrow> guarded \<Rightarrow> http_response option" where
  "pinnedRequest W t g = web_answer W t (pinned_options W g)"

fun read_events :: "stream_event list \<Rightarrow> nat \<Rightarrow> nat list \<Rightarrow> nat list option option" where
  "read_events [] maxBytes chunks = None"
| "read_events (Data chunk # es) maxBytes chunks =
     (if maxBytes - length chunks \<le> length chunk
      then Some (Some (chunks @ take (maxBytes - length chunks) chunk))
      else read_events es maxBytes (chunks @ chunk))"
| "read_events (End # es) maxBytes chunks = Some (Some chunks)"
| "read_events (Stream_error # es) maxBytes chunks = Some None"
| "read_events (Stream_close # es) maxBytes chunks = Some None"

definition readBoundedBuffer :: "stream_event list \<Rightarrow> nat \<Rightarrow> nat list option option" where
  "readBoundedBuffer body maxBytes = read_events body maxBytes []"

subsection \<open>The redirect loops\<close>

text \<open>\<open>k\<close> counts the rounds that are left; the loop starts with \<open>maxRedirects + 1\<close>.\<close>

fun follow_hops :: "web \<Rightarrow> nat \<Rightarrow> nat \<Rightarrow> js_string
    \<Rightarrow> (fetch_error + http_response \<times> js_string) \<times> pinned_request list" where
  "follow_hops W 0 t current = (Inl too_many_redirects, [])"
| "follow_hops W (Suc k) t current =
     (case ssrfGuard (web_net W) t current of
        Inl r \<Rightarrow> (Inl (guard_rejected r), [])
      | Inr g \<Rightarrow>
          (case pinnedRequest W (t + 1) g of
             None \<Rightarrow> (Inl request_failed, [pinned_options W g])
           | Some res \<Rightarrow>
               (if 300 \<le> res_status res \<and> res_status res < 400 then
                  (case res_location res of
                     None \<Rightarrow> (Inr (res, current), [pinned_options W g])
                   | Some loc \<Rightarrow>
                       (if loc = [] then (Inr (res, current), [pinned_options W g])
                        else case web_resolve W loc current of
                          None \<Rightarrow> (Inr (res, current), [pinned_options W g])
                        | Some next_url \<Rightarrow>
                            (let (r, sent) = follow_hops W k (t + 2) next_url
                             in (r, pinned_options W g # sent))))
                else (Inr (res, current), [pinned_options W g]))))"

definition followPinnedRedirects :: "web \<Rightarrow> nat \<Rightarrow> js_string \<Rightarrow> nat
    \<Rightarrow> (fetch_error + http_response \<times> js_string) \<times> pinned_request list" where
  "followPinnedRedirects W t startUrl maxRedirects = follow_hops W (maxRedirects + 1) t startUrl"

definition IMAGE_MAX_REDIRECTS :: nat where "IMAGE_MAX_REDIRECTS = 5"

definition MAX_IMAGE_BYTES :: nat where "MAX_IMAGE_BYTES = 5 * 1024 * 1024"

definition ALLOWED_IMAGE_MIME :: "(js_string \<times> js_string) list" where
  "ALLOWED_IMAGE_MIME =
     [(js ''image/png'', js ''png''), (js ''image/jpeg'', js ''jpg''), (js ''image/jpg'', js ''jpg''),
      (js ''image/gif'', js ''gif''), (js ''image/webp'', js ''webp''), (js ''image/avif'', js ''avif''),
      (js ''image/bmp'', js ''bmp''), (js ''image/x-icon'', js ''ico''),
      (js ''image/vnd.microsoft.icon'', js ''ico'')]"

definition response_mime :: "http_response \<Rightarrow> js_string" where
  "response_mime res =
     map lower (js_trim (hd (js_split 59 (case res_content_type res of None \<Rightarrow> [] | Some c \<Rightarrow> c))))"

definition declared_too_long :: "http_response \<Rightarrow> bool" where
  "declared_too_long res =
     (case js_Number (case res_content_length res of None \<Rightarrow> [] | Some c \<Rightarrow> c) of
        Finite q \<Rightarrow> of_nat MAX_IMAGE_BYTES < q | _ \<Rightarrow> False)"

text \<open>What \<open>fetchImageBytes\<close> does with a response that is not a redirect.\<close>

definition image_of :: "http_response \<Rightarrow> fetch_error + (nat list \<times> js_string) option" where
  "image_of res =
     (if res_status res < 200 \<or> 300 \<le> res_status res then Inr None
      else if \<not> starts_with (js ''image/'') (response_mime res) then Inr None
      else if declared_too_long res then Inr None
      else case readBoundedBuffer (res_body res) MAX_IMAGE_BYTES of
        None \<Rightarrow> Inl body_pending
      | Some None \<Rightarrow> Inr None
      | Some (Some bytes) \<Rightarrow> Inr (Some (bytes, response_mime res)))"

fun image_hops :: "web \<Rightarrow> nat \<Rightarrow> nat \<Rightarrow> js_string
    \<Rightarrow> (fetch_error + (nat list \<times> js_string) option) \<times> pinned_request list" where
  "image_hops W 0 t current = (Inl too_many_redirects, [])"
| "image_hops W (Suc k) t current =
     (case ssrfGuard (web_net W) t current of
        Inl r \<Rightarrow> (Inl (guard_rejected r), [])
      | Inr g \<Rightarrow>
          (case pinnedRequest W (t + 1) g of
             None \<Rightarrow> (Inl request_failed, [pinned_options W g])
           | Some res \<Rightarrow>
               (if 300 \<le> res_status res \<and> res_status res < 400 then
                  (case res_location res of
                     None \<Rightarrow> (Inr None, [pinned_options W g])
                   | Some loc \<Rightarrow>
                       (if loc = [] then (Inr None, [pinned_options W g])
                        else case web_resolve W loc current of
                          None \<Rightarrow> (Inr None, [pinned_options W g])
                        | Some next_url \<Rightarrow>
                            (let (r, sent) = image_hops W k (t + 2) next_url
                             in (r, pinned_options W g # sent))))
                else (image_of res, [pinned_options W g]))))"

definition fetchImageBytes :: "web \<Rightarrow> nat \<Rightarrow> js_string
    \<Rightarrow> (fetch_error + (nat list \<times> js_string) option) \<times> pinned_request list" where
  "fetchImageBytes W t startUrl = image_hops W (IMAGE_MAX_REDIRECTS + 1) t startUrl"

text \<open>
  \<open>fetchAndStore\<close>: the hash and the object store are parameters (\<open>createHash\<close>, \<open>S3Service\<close>);
  \<open>put_ok\<close> tells whether the store takes the object. The bucket maps keys to bytes and MIME
  type. A body that never settles leaves the call pending, which is the error \<open>body_pending\<close>;
  every other failure is caught and gives null.
\<close>

record fetched_image =
  imageKey :: js_string
  image_mime :: js_string
  sizeBytes :: nat

type_synonym bucket = "(js_string \<times> nat list \<times> js_string) list"

definition put_object :: "js_string \<Rightarrow> nat list \<Rightarrow> js_string \<Rightarrow> bucket \<Rightarrow> bucket" where
  "put_object k b m B = (k, b, m) # filter (\<lambda>e. fst e \<noteq> k) B"

definition fetchAndStore :: "(js_string \<Rightarrow> js_string) \<Rightarrow> (js_string \<Rightarrow> bool) \<Rightarrow> web \<Rightarrow> nat \<Rightarrow> js_string
    \<Rightarrow> bucket \<Rightarrow> (fetch_error + fetched_image option) \<times> bucket" where
  "fetchAndStore sha put_ok W t rawImageUrl B =
     (case fst (fetchImageBytes W t rawImageUrl) of
        Inl body_pending \<Rightarrow> (Inl body_pending, B)
      | Inl _ \<Rightarrow> (Inr None, B)
      | Inr None \<Rightarrow> (Inr None, B)
      | Inr (Some (bytes, mime)) \<Rightarrow>
          (case map_of ALLOWED_IMAGE_MIME (map lower mime) of
             None \<Rightarrow> (Inr None, B)
           | Some ext \<Rightarrow>
               (let key = js ''link-embeds/'' @ sha rawImageUrl @ [46] @ ext in
                if put_ok key
                then (Inr (Some \<lparr>imageKey = key, image_mime = mime, sizeBytes = length bytes\<rparr>),
                      put_object key bytes mime B)
                else (Inr None, B))))"

subsection \<open>What the two loops share\<close>

text \<open>
  A redirect loop sends nothing without rounds; a round sends nothing or one request that is
  \<open>sendable\<close> at its number and for its URL, and then stops or goes on with one round less.
\<close>

locale pinned_hops =
  fixes sendable :: "nat \<Rightarrow> js_string \<Rightarrow> 'q \<Rightarrow> bool" and hops :: "nat \<Rightarrow> nat \<Rightarrow> js_string \<Rightarrow> 'r \<times> 'q list"
  assumes no_rounds: "snd (hops 0 t u) = []"
    and one_round: "snd (hops (Suc k) t u) = []
      \<or> (\<exists>q. sendable t u q \<and> (snd (hops (Suc k) t u) = [q]
            \<or> (\<exists>u'. snd (hops (Suc k) t u) = q # snd (hops k (t + 2) u'))))"
begin

lemma sent_sendable: "q \<in> set (snd (hops k t u)) \<Longrightarrow> \<exists>t' u'. sendable t' u' q"
proof (induction k arbitrary: t u)
  case 0
  then show ?case by (simp add: no_rounds)
next
  case (Suc k)
  consider "snd (hops (Suc k) t u) = []" | q' where "sendable t u q'" "snd (hops (Suc k) t u) = [q']"
    | q' u' where "sendable t u q'" "snd (hops (Suc k) t u) = q' # snd (hops k (t + 2) u')"
    using one_round [of k t u] by blast
  then show ?case using Suc by cases auto
qed

lemma sent_bounded: "length (snd (hops k t u)) \<le> k"
proof (induction k arbitrary: t u)
  case 0
  then show ?case by (simp add: no_rounds)
next
  case (Suc k)
  then show ?case using one_round [of k t u] by auto
qed

end

definition checked_request :: "web \<Rightarrow> nat \<Rightarrow> js_string \<Rightarrow> pinned_request \<Rightarrow> bool" where
  "checked_request W t u q \<longleftrightarrow>
     (\<exists>g. ssrfGuard (web_net W) t u = Inr g \<and> q = pinned_options W g)"

lemma checked_requestI: "ssrfGuard (web_net W) t u = Inr g \<Longrightarrow> checked_request W t u (pinned_options W g)"
  by (auto simp: checked_request_def)

interpretation follow: pinned_hops "checked_request W" "follow_hops W" for W
proof
  show "snd (follow_hops W (Suc k) t u) = []
      \<or> (\<exists>q. checked_request W t u q \<and> (snd (follow_hops W (Suc k) t u) = [q]
            \<or> (\<exists>u'. snd (follow_hops W (Suc k) t u) = q # snd (follow_hops W k (t + 2) u'))))" for k t u
    by (auto simp: split_beta dest: checked_requestI split: sum.split option.split)
qed simp

interpretation image: pinned_hops "checked_request W" "image_hops W" for W
proof
  show "snd (image_hops W (Suc k) t u) = []
      \<or> (\<exists>q. checked_request W t u q \<and> (snd (image_hops W (Suc k) t u) = [q]
            \<or> (\<exists>u'. snd (image_hops W (Suc k) t u) = q # snd (image_hops W k (t + 2) u'))))" for k t u
    by (auto simp: split_beta dest: checked_requestI split: sum.split option.split)
qed simp

text \<open>A request to a public address: the socket's target is the literal of the address.\<close>

definition public_request :: "web \<Rightarrow> pinned_request \<Rightarrow> bool" where
  "public_request W q \<longleftrightarrow>
     (\<exists>a. public_address (web_net W) a
        \<and> req_host q = (if snd a = 6 then [91] @ fst a @ [93] else fst a))"

lemma guarded_family_six:
  assumes "ssrfGuard N n raw = Inr g" "node_documented N" "ip_family g = 6"
  shows "net_isIPv6 N (resolvedIp g)"
proof -
  have "snd a = 6 \<longrightarrow> net_isIPv6 N (fst a)" if "dns_lookup N n h = Some (a # as)" for h a as
    using assms(2) that unfolding node_documented_def by fastforce
  with assms(1,3) show ?thesis
    by (auto simp: ssrfGuard_def Let_def split: option.splits list.splits if_splits)
qed

lemma checked_request_public:
  assumes "checked_request W t u q" "node_documented (web_net W)"
  shows "public_request W q"
proof -
  from assms(1) obtain g where g: "ssrfGuard (web_net W) t u = Inr g" "q = pinned_options W g"
    by (auto simp: checked_request_def)
  have pub: "public_address (web_net W) (resolvedIp g, ip_family g)"
    by (rule ssrfGuard_cases [OF g(1) assms(2)])
  have "req_host q = (if ip_family g = 6 then [91] @ resolvedIp g @ [93] else resolvedIp g)"
    using guarded_family_six [OF g(1) assms(2)] by (simp add: g(2) pinned_options_def Let_def)
  with pub show ?thesis unfolding public_request_def by fastforce
qed

lemma image_of_bytes:
  assumes "image_of res = Inr (Some (bytes, mime))"
  shows "length bytes \<le> MAX_IMAGE_BYTES" and "starts_with (js ''image/'') mime"
proof -
  have bounded: "length b \<le> maxBytes"
    if "read_events es maxBytes chunks = Some (Some b)" "length chunks \<le> maxBytes" for es maxBytes chunks b
    using that by (induction es maxBytes chunks rule: read_events.induct) (auto split: if_splits)
  from assms show "length bytes \<le> MAX_IMAGE_BYTES" and "starts_with (js ''image/'') mime"
    by (auto simp: image_of_def readBoundedBuffer_def dest: bounded split: if_splits option.splits)
qed

lemma image_hops_bytes:
  "fst (image_hops W k t u) = Inr (Some (bytes, mime)) \<Longrightarrow> length bytes \<le> MAX_IMAGE_BYTES"
proof (induction k arbitrary: t u)
  case (Suc k)
  then show ?case
    by (auto simp: split_beta dest: image_of_bytes split: sum.splits option.splits if_splits)
qed simp

subsection \<open>A network of one host\<close>

text \<open>
  The example of the witnesses: a name that first resolves to a public address and from then
  on to the loopback address, with one response of its host.
\<close>

definition example_url :: node_url where
  "example_url = \<lparr>url_protocol = js ''http:'', url_username = [], url_password = [],
     url_hostname = js ''a.io'', url_port = [], url_path = js ''/''\<rparr>"

definition example_net :: node_net where
  "example_net = \<lparr>parse_url = (\<lambda>s. if s = js ''http://a.io/'' then Some example_url else None),
     net_isIPv4 = dotted_decimal, net_isIPv6 = (\<lambda>s. False),
     dns_lookup = (\<lambda>n h. if n = 0 then Some [(dotted 8 8 8 8, 4)] else Some [(dotted 127 0 0 1, 4)])\<rparr>"

definition one_host :: "http_response \<Rightarrow> web" where
  "one_host res = \<lparr>web_net = example_net, web_answer = (\<lambda>n q. if n = 1 then Some res else None),
     web_resolve = (\<lambda>loc base. Some base)\<rparr>"

definition redirect_response :: http_response where
  "redirect_response = \<lparr>res_status = 302, res_location = Some (js ''/''), res_content_type = None,
     res_content_length = None, res_body = []\<rparr>"

definition png_response :: http_response where
  "png_response = \<lparr>res_status = 200, res_location = None, res_content_type = Some (js ''image/png''),
     res_content_length = None, res_body = [Data [1, 2], Data [3], End]\<rparr>"

definition example_guarded :: guarded where
  "example_guarded = \<lparr>resolvedIp = dotted 8 8 8 8, ip_family = 4, guarded_url = example_url\<rparr>"

lemma example_documented: "node_documented example_net"
  by (auto simp: node_documented_def example_net_def dotted_decimal_of_octets split: if_splits)

lemma example_guard:
  "ssrfGuard example_net 0 (js ''http://a.io/'') = Inr example_guarded"
  "0 < n \<Longrightarrow> ssrfGuard example_net n (js ''http://a.io/'') = Inl private_ip"
  by (simp_all add: ssrfGuard_def example_net_def example_url_def example_guarded_def Let_def
      strip_brackets_def dotted_decimal_def address_private_def private_octets_iff private_octets_def)



text \<open>A stored card image is an image of the allowed kinds and of bounded size. When
  \<open>fetchAndStore\<close> returns an image, its MIME type is in the allow list (so no SVG is ever
  stored), its bytes are at most five megabytes and are what the bucket now holds under its
  key; in every other outcome the bucket is as it was.
\<close>

lemma stored_images_are_allowed:
  assumes "fetchAndStore sha put_ok W t url B = (r, B')"
  shows "case r of
      Inr (Some img) \<Rightarrow> \<exists>bytes ext. (map lower (image_mime img), ext) \<in> set ALLOWED_IMAGE_MIME
        \<and> image_mime img \<noteq> js ''image/svg+xml''
        \<and> imageKey img = js ''link-embeds/'' @ sha url @ [46] @ ext
        \<and> sizeBytes img = length bytes \<and> length bytes \<le> MAX_IMAGE_BYTES
        \<and> B' = put_object (imageKey img) bytes (image_mime img) B
    | _ \<Rightarrow> B' = B"
proof -
  consider "B' = B" "\<forall>img. r \<noteq> Inr (Some img)"
    | bytes mime ext where "fst (fetchImageBytes W t url) = Inr (Some (bytes, mime))"
      "map_of ALLOWED_IMAGE_MIME (map lower mime) = Some ext"
      "r = Inr (Some \<lparr>imageKey = js ''link-embeds/'' @ sha url @ [46] @ ext, image_mime = mime,
                      sizeBytes = length bytes\<rparr>)"
      "B' = put_object (js ''link-embeds/'' @ sha url @ [46] @ ext) bytes mime B"
    using assms unfolding fetchAndStore_def Let_def
    by (auto split: sum.splits option.splits fetch_error.splits if_splits)
  then show ?thesis
  proof cases
    case 1
    then show ?thesis by (auto split: sum.split option.split)
  next
    case (2 bytes mime ext)
    then have allowed: "(map lower mime, ext) \<in> set ALLOWED_IMAGE_MIME" by (auto dest: map_of_SomeD)
    have "length bytes \<le> MAX_IMAGE_BYTES"
      using 2(1) image_hops_bytes unfolding fetchImageBytes_def by blast
    moreover have "mime \<noteq> js ''image/svg+xml''"
      using allowed by (auto simp: ALLOWED_IMAGE_MIME_def lower_def is_js_upper_def)
    ultimately show ?thesis using allowed by (auto simp: 2(3,4) simp del: js_simps)
  qed
qed

lemma png_run:
  "fetchAndStore id (\<lambda>k. True) (one_host png_response) 0 (js ''http://a.io/'') []
   = (Inr (Some \<lparr>imageKey = js ''link-embeds/http://a.io/.png'', image_mime = js ''image/png'', sizeBytes = 3\<rparr>),
      [(js ''link-embeds/http://a.io/.png'', [1, 2, 3], js ''image/png'')])"
proof -
  have mime: "response_mime png_response = js ''image/png''"
    by (simp add: response_mime_def png_response_def js_trim_def is_js_space_def lower_def is_js_upper_def)
  have len: "\<not> declared_too_long png_response"
    by (simp add: declared_too_long_def png_response_def js_Number_def js_trim_def MAX_IMAGE_BYTES_def)
  have body: "readBoundedBuffer (res_body png_response) MAX_IMAGE_BYTES = Some (Some [1, 2, 3])"
    by (simp add: readBoundedBuffer_def png_response_def MAX_IMAGE_BYTES_def)
  have "image_of png_response = Inr (Some ([1, 2, 3], js ''image/png''))"
    by (simp add: image_of_def mime len body starts_with_def)
      (simp add: png_response_def)
  then have "fst (fetchImageBytes (one_host png_response) 0 (js ''http://a.io/''))
    = Inr (Some ([1, 2, 3], js ''image/png''))"
    by (simp add: fetchImageBytes_def IMAGE_MAX_REDIRECTS_def numeral_eq_Suc example_guard pinnedRequest_def
        one_host_def png_response_def del: js_simps)
  then show ?thesis
    by (simp add: fetchAndStore_def ALLOWED_IMAGE_MIME_def lower_def is_js_upper_def put_object_def Let_def)
qed

lemma stored_images_are_allowed_example:
  "\<exists>bytes ext. (js ''image/png'', ext) \<in> set ALLOWED_IMAGE_MIME \<and> length bytes = 3
     \<and> [(js ''link-embeds/http://a.io/.png'', [1, 2, 3], js ''image/png'')]
       = put_object (js ''link-embeds/http://a.io/.png'') bytes (js ''image/png'') []"
  using stored_images_are_allowed [OF png_run] by (auto simp: lower_def is_js_upper_def)

text \<open>
  A body that is longer than the limit and has no declared length is cut at the limit and
  stored; it is not refused.
\<close>

lemma long_image_is_cut:
  assumes "MAX_IMAGE_BYTES < length bytes"
  shows "image_of (png_response\<lparr>res_body := [Data bytes, End]\<rparr>)
    = Inr (Some (take MAX_IMAGE_BYTES bytes, js ''image/png''))"
proof -
  have mime: "response_mime (png_response\<lparr>res_body := [Data bytes, End]\<rparr>) = js ''image/png''"
    by (simp add: response_mime_def png_response_def js_trim_def is_js_space_def lower_def is_js_upper_def)
  have len: "\<not> declared_too_long (png_response\<lparr>res_body := [Data bytes, End]\<rparr>)"
    by (simp add: declared_too_long_def png_response_def js_Number_def js_trim_def MAX_IMAGE_BYTES_def)
  have "res_status png_response = 200" by (simp add: png_response_def)
  then show ?thesis
    using assms by (simp add: image_of_def mime len starts_with_def readBoundedBuffer_def)
qed

end
