(* ===== verification/Guilds.thy ===== *)
theory Guilds
  imports Roles Mrkdwn
begin

text \<open>
  Workspaces and their members: \<open>workspaces/workspaces.service.ts\<close> (creation, settings of the
  row, joining a public workspace, soft deletion and restoration, transfer of ownership, default
  channel), \<open>members/members.service.ts\<close> (role changes, removal, leaving), the entry gate
  \<open>workspace-entry-gate.ts\<close> and \<open>moderation/ip-soft-block.service.ts\<close>.

  \<open>guild_db\<close> holds the tables these services and the moderation and invite services share. A
  member row extends the row of \<open>Roles\<close>; \<open>role_tables\<close> is the view of the role tables that
  \<open>system-role-seed.ts\<close> works on. Deleting a member deletes his MemberRole rows (foreign key
  with cascade). Ids and hashes the libraries generate are arguments. Passwords, the hash of an
  address and the discovery cache, which changes no answer of these operations, are parameters
  or left out. An operation returns its failure or the permission cache keys it deletes.
\<close>

section \<open>Tables\<close>

datatype ws_visibility = VIS_PUBLIC | VIS_PRIVATE

datatype ws_join_mode = JOIN_PRIVATE | JOIN_PUBLIC | JOIN_APPLY

record workspace_row =
  w_id :: id
  w_name :: js_string
  w_slug :: js_string
  w_description :: "js_string option"
  w_ownerId :: id
  w_visibility :: ws_visibility
  w_category :: "id option"
  w_joinMode :: ws_join_mode
  w_emailDomains :: "js_string list"
  w_defaultChannelId :: "id option"
  w_deletedAt :: "msec option"
  w_deleteAt :: "msec option"

record guild_member = member_row +
  gm_isTemporary :: bool
  gm_mutedUntil :: "msec option"
  gm_invitedBy :: "id option"
  gm_ipHash :: "id option"

record guild_channel = channel_row +
  gc_isDefault :: bool

record ban_row =
  ban_ws :: id
  ban_user :: id
  ban_by :: id
  ban_reason :: "js_string option"
  ban_ipHash :: "id option"

record invite_row =
  inv_id :: id
  inv_ws :: id
  inv_code :: id
  inv_createdBy :: id
  inv_expiresAt :: "msec option"
  inv_maxUses :: "nat option"
  inv_usedCount :: nat
  inv_revokedAt :: "msec option"
  inv_temporary :: bool

datatype application_status = AP_PENDING | AP_INTERVIEW | AP_APPROVED | AP_REJECTED | AP_WITHDRAWN

record application_row =
  ap_id :: id
  ap_ws :: id
  ap_applicant :: id
  ap_status :: application_status
  ap_answers :: "(id \<times> js_string) list"
  ap_reviewedBy :: "id option"
  ap_reviewNote :: "js_string option"
  ap_interviewChannel :: "id option"
  ap_ipHash :: "id option"
  ap_createdAt :: msec
  ap_updatedAt :: msec

record pending_invite_row =
  pi_id :: id
  pi_ws :: id
  pi_email :: js_string
  pi_role :: workspace_role
  pi_tokenHash :: id
  pi_invitedBy :: id
  pi_expiresAt :: msec
  pi_acceptedAt :: "msec option"
  pi_canceledAt :: "msec option"
  pi_lastSentAt :: msec

datatype guild_event =
    WORKSPACE_CREATED id id | CHANNEL_CREATED id id | WORKSPACE_DELETED id id msec | WORKSPACE_RESTORED id id
  | OWNERSHIP_TRANSFERRED id id id | ROLE_CHANGED id id id workspace_role workspace_role
  | MEMBER_REMOVED id id id | MEMBER_LEFT id id | MEMBER_JOINED id id id
  | MEMBER_KICKED id id id | MEMBER_BANNED id id id
  | MEMBER_APPLICATION_RECEIVED id id id
  | MEMBER_APPLICATION_REVIEWED id id id application_status "js_string option" "id option"
  | MEMBER_TEMP_EXPIRED id id
  | INVITE_CREATED id id id | INVITE_REVOKED_EVENT id id id | INVITE_DELETED id id id | INVITE_ACCEPTED id id id

datatype bulk_action = BULK_KICK | BULK_TIMEOUT | BULK_ROLE

datatype skip_reason = SKIP_SELF | SKIP_NOT_MEMBER | SKIP_OWNER | SKIP_OUTRANKED

datatype guild_audit_action =
    MEMBER_ROLE_UPDATE workspace_role workspace_role | MEMBER_KICK workspace_role | MEMBER_BAN bool
  | MEMBER_UNBAN | MEMBER_TIMEOUT msec | MEMBER_UNTIMEOUT | AUTOMOD_TIMEOUT msec
  | MEMBER_BULK_ACTION bulk_action "id list" "(id \<times> skip_reason) list" | INVITE_DELETED_AUDIT
  | SUSPICIOUS_JOIN | SUSPICIOUS_JOIN_THRESHOLD

record guild_audit =
  ga_ws :: id
  ga_actor :: id
  ga_action :: guild_audit_action
  ga_target :: "id option"
  ga_ipHash :: "id option"
  ga_at :: msec

record guild_db =
  gd_workspaces :: "workspace_row list"
  gd_members :: "guild_member list"
  gd_roles :: "role_row list"
  gd_memberRoles :: "member_role_row list"
  gd_channels :: "guild_channel list"
  gd_bans :: "ban_row list"
  gd_invites :: "invite_row list"
  gd_applications :: "application_row list"
  gd_pendings :: "pending_invite_row list"
  gd_outbox :: "guild_event list"
  gd_audit :: "guild_audit list"

definition role_tables :: "guild_db \<Rightarrow> ws_db" where
  "role_tables g = \<lparr>db_roles = gd_roles g, db_members = map member_row.truncate (gd_members g),
     db_memberRoles = gd_memberRoles g, db_overrides = [],
     db_channels = map channel_row.truncate (gd_channels g), db_audit = []\<rparr>"

definition is_member_row :: "id \<Rightarrow> id \<Rightarrow> guild_member \<Rightarrow> bool" where
  "is_member_row ws u m \<longleftrightarrow> wm_ws m = ws \<and> wm_user m = u"

definition find_guild_member :: "guild_db \<Rightarrow> id \<Rightarrow> id \<Rightarrow> guild_member option" where
  "find_guild_member g ws u = find (is_member_row ws u) (gd_members g)"

definition find_workspace :: "guild_db \<Rightarrow> id \<Rightarrow> workspace_row option" where
  "find_workspace g ws = find (\<lambda>w. w_id w = ws) (gd_workspaces g)"

text \<open>\<open>workspaceMember.create\<close> (None: the primary key is taken), \<open>update\<close> and \<open>delete\<close>.\<close>

definition insert_member :: "guild_member \<Rightarrow> guild_db \<Rightarrow> guild_db option" where
  "insert_member m g =
     (if \<exists>x \<in> set (gd_members g). is_member_row (wm_ws m) (wm_user m) x then None
      else Some (g\<lparr>gd_members := gd_members g @ [m]\<rparr>))"

definition update_member :: "id \<Rightarrow> id \<Rightarrow> (guild_member \<Rightarrow> guild_member) \<Rightarrow> guild_db \<Rightarrow> guild_db" where
  "update_member ws u f g = g\<lparr>gd_members := update_where (is_member_row ws u) f (gd_members g)\<rparr>"

definition delete_members :: "id \<Rightarrow> id list \<Rightarrow> guild_db \<Rightarrow> guild_db" where
  "delete_members ws us g =
     g\<lparr>gd_members := delete_where (\<lambda>m. wm_ws m = ws \<and> wm_user m \<in> set us) (gd_members g),
       gd_memberRoles := delete_where (\<lambda>m. mr_ws m = ws \<and> mr_user m \<in> set us) (gd_memberRoles g)\<rparr>"

definition outbox_add :: "guild_event \<Rightarrow> guild_db \<Rightarrow> guild_db" where
  "outbox_add e g = g\<lparr>gd_outbox := gd_outbox g @ [e]\<rparr>"

definition audit_record ::
  "id \<Rightarrow> id \<Rightarrow> guild_audit_action \<Rightarrow> id option \<Rightarrow> id option \<Rightarrow> msec \<Rightarrow> guild_db \<Rightarrow> guild_db" where
  "audit_record ws actor act target ip now g =
     g\<lparr>gd_audit := gd_audit g @ [\<lparr>ga_ws = ws, ga_actor = actor, ga_action = act, ga_target = target,
                                  ga_ipHash = ip, ga_at = now\<rparr>]\<rparr>"

definition sync_member_role :: "(workspace_role \<Rightarrow> id) \<Rightarrow> id \<Rightarrow> id \<Rightarrow> workspace_role \<Rightarrow> guild_db \<Rightarrow> guild_db"
where
  "sync_member_role gen ws u r g =
     (let db = syncMemberSystemRole gen (role_tables g) ws u r
      in g\<lparr>gd_roles := db_roles db, gd_memberRoles := db_memberRoles db\<rparr>)"

definition perms_keys :: "guild_db \<Rightarrow> id \<Rightarrow> id list \<Rightarrow> (id \<times> id) list" where
  "perms_keys g ws us = invalidateMembersPermsCache (role_tables g) ws us"

definition ROLE_RANK :: "workspace_role \<Rightarrow> nat" where
  "ROLE_RANK r = (case r of OWNER \<Rightarrow> 5 | ADMIN \<Rightarrow> 4 | MODERATOR \<Rightarrow> 3 | MEMBER \<Rightarrow> 2 | GUEST \<Rightarrow> 1)"

type_synonym cache_keys = "(id \<times> id) list"
type_synonym 'a guild_op = "guild_db \<Rightarrow> (failure + 'a) \<times> guild_db"

definition refused :: "error_code \<Rightarrow> guild_db \<Rightarrow> (failure + 'a) \<times> guild_db" where
  "refused e g = (Inl (Domain e), g)"

section \<open>Guards\<close>

text \<open>
  \<open>WorkspaceMemberGuard\<close> and \<open>WorkspaceRoleGuard\<close>: the caller must be a member of a workspace
  that is not deleted (unless the route allows it) and hold at least the role of the route.
\<close>

definition WorkspaceMemberGuard :: "bool \<Rightarrow> guild_db \<Rightarrow> id \<Rightarrow> id \<Rightarrow> error_code + guild_member" where
  "WorkspaceMemberGuard allowDeleted g ws user =
     (case find_workspace g ws of
        None \<Rightarrow> Inl WORKSPACE_NOT_FOUND
      | Some w \<Rightarrow>
          (if w_deletedAt w \<noteq> None \<and> \<not> allowDeleted then Inl WORKSPACE_NOT_FOUND
           else case find_guild_member g ws user of
             None \<Rightarrow> Inl WORKSPACE_NOT_MEMBER | Some m \<Rightarrow> Inr m))"

definition WorkspaceRoleGuard :: "workspace_role option \<Rightarrow> guild_member \<Rightarrow> error_code + guild_member" where
  "WorkspaceRoleGuard minRole m =
     (case minRole of
        None \<Rightarrow> Inr m
      | Some r \<Rightarrow> (if ROLE_RANK (wm_role m) < ROLE_RANK r then Inl WORKSPACE_INSUFFICIENT_ROLE else Inr m))"

definition guarded_by :: "bool \<Rightarrow> workspace_role option \<Rightarrow> id \<Rightarrow> id \<Rightarrow> (guild_member \<Rightarrow> 'a guild_op) \<Rightarrow> 'a guild_op"
where
  "guarded_by allowDeleted minRole ws user h g =
     (case bind_res (WorkspaceMemberGuard allowDeleted g ws user) (WorkspaceRoleGuard minRole) of
        Inl e \<Rightarrow> refused e g | Inr m \<Rightarrow> h m g)"

text \<open>\<open>assertWorkspaceEntryAllowed\<close>; \<open>lc\<close> is \<open>toLowerCase\<close>.\<close>

definition assertWorkspaceEntryAllowed ::
  "(js_string \<Rightarrow> js_string) \<Rightarrow> bool \<Rightarrow> js_string \<Rightarrow> js_string list \<Rightarrow> error_code + unit" where
  "assertWorkspaceEntryAllowed lc emailVerified userEmail emailDomains =
     (if \<not> emailVerified then Inl EMAIL_NOT_VERIFIED
      else if emailDomains = [] then Inr ()
      else let rest = dropWhile (\<lambda>c. c \<noteq> 64) userEmail;
               domain = (if rest = [] then [] else lc (takeWhile (\<lambda>c. c \<noteq> 64) (tl rest))) in
        if list_ex (\<lambda>d. lc (js_trim d) = domain) emailDomains then Inr ()
        else Inl WORKSPACE_DOMAIN_NOT_ALLOWED)"

datatype join_mechanism = VIA_PUBLIC | VIA_INVITE | VIA_APPLY

definition IP_WINDOW :: msec where "IP_WINDOW = 24 * 60 * 60 * 1000"

definition recordSuspiciousJoin :: "nat \<Rightarrow> id \<Rightarrow> id \<Rightarrow> id \<Rightarrow> msec \<Rightarrow> guild_db \<Rightarrow> guild_db" where
  "recordSuspiciousJoin threshold ws user ipHash now g =
     (let g1 = audit_record ws user SUSPICIOUS_JOIN (Some user) (Some ipHash) now g;
          recent = (\<lambda>act. length (filter (\<lambda>a. ga_ws a = ws \<and> ga_ipHash a = Some ipHash \<and> ga_action a = act
                      \<and> now - IP_WINDOW \<le> ga_at a) (gd_audit g1))) in
      if recent SUSPICIOUS_JOIN < threshold then g1
      else if 0 < recent SUSPICIOUS_JOIN_THRESHOLD then g1
      else audit_record ws user SUSPICIOUS_JOIN_THRESHOLD (Some user) (Some ipHash) now g1)"

definition assertNotIpBlocked ::
  "nat \<Rightarrow> id \<Rightarrow> id \<Rightarrow> id option \<Rightarrow> join_mechanism \<Rightarrow> msec \<Rightarrow> guild_db \<Rightarrow> (error_code + id option) \<times> guild_db" where
  "assertNotIpBlocked threshold ws user ipHash mechanism now g =
     (case ipHash of
        None \<Rightarrow> (Inr None, g)
      | Some h \<Rightarrow>
          (if \<not> (\<exists>b \<in> set (gd_bans g). ban_ws b = ws \<and> ban_ipHash b = Some h) then (Inr (Some h), g)
           else if mechanism = VIA_APPLY then (Inl APPLICATION_NOT_APPLICABLE, g)
           else (Inr (Some h), recordSuspiciousJoin threshold ws user h now g)))"

definition isBanned :: "guild_db \<Rightarrow> id \<Rightarrow> id \<Rightarrow> bool" where
  "isBanned g ws u \<longleftrightarrow> (\<exists>b \<in> set (gd_bans g). ban_ws b = ws \<and> ban_user b = u)"

section \<open>Members\<close>

text \<open>
  \<open>updateRole\<close> reads the target before its transaction; \<open>update_role_commit\<close> is the
  transaction, so that another request may run between the two.
\<close>

definition update_role_check :: "guild_db \<Rightarrow> id \<Rightarrow> id \<Rightarrow> workspace_role \<Rightarrow> id \<Rightarrow> error_code + guild_member" where
  "update_role_check g ws actor actorRole target =
     (if actor = target then Inl WORKSPACE_INSUFFICIENT_ROLE
      else case find_guild_member g ws target of
        None \<Rightarrow> Inl WORKSPACE_TARGET_NOT_MEMBER
      | Some t \<Rightarrow>
          (if wm_role t = OWNER then Inl WORKSPACE_CANNOT_DEMOTE_OWNER
           else if ROLE_RANK actorRole \<le> ROLE_RANK (wm_role t) \<and> actorRole \<noteq> OWNER
           then Inl WORKSPACE_INSUFFICIENT_ROLE else Inr t))"

definition update_role_commit ::
  "(workspace_role \<Rightarrow> id) \<Rightarrow> msec \<Rightarrow> id \<Rightarrow> id \<Rightarrow> guild_member \<Rightarrow> workspace_role \<Rightarrow> cache_keys guild_op" where
  "update_role_commit gen now ws actor t nextRole g =
     (let target = wm_user t in
      if find_guild_member g ws target = None then (Inl Uncaught_P2025, g)
      else let g1 = update_member ws target (\<lambda>m. m\<lparr>wm_role := nextRole\<rparr>) g;
               g2 = sync_member_role gen ws target nextRole g1;
               g3 = outbox_add (ROLE_CHANGED ws target actor (wm_role t) nextRole) g2;
               g4 = audit_record ws actor (MEMBER_ROLE_UPDATE (wm_role t) nextRole) (Some target) None now g3 in
        (Inr (perms_keys g4 ws [target]), g4))"

definition updateRole ::
  "(workspace_role \<Rightarrow> id) \<Rightarrow> msec \<Rightarrow> id \<Rightarrow> id \<Rightarrow> workspace_role \<Rightarrow> id \<Rightarrow> workspace_role \<Rightarrow> cache_keys guild_op" where
  "updateRole gen now ws actor actorRole target nextRole g =
     (case update_role_check g ws actor actorRole target of
        Inl e \<Rightarrow> refused e g
      | Inr t \<Rightarrow> update_role_commit gen now ws actor t nextRole g)"

definition remove_check :: "guild_db \<Rightarrow> id \<Rightarrow> id \<Rightarrow> workspace_role \<Rightarrow> id \<Rightarrow> error_code + guild_member" where
  "remove_check g ws actor actorRole target =
     (if actor = target then Inl WORKSPACE_INSUFFICIENT_ROLE
      else case find_guild_member g ws target of
        None \<Rightarrow> Inl WORKSPACE_TARGET_NOT_MEMBER
      | Some t \<Rightarrow>
          (if wm_role t = OWNER then Inl WORKSPACE_CANNOT_REMOVE_OWNER
           else if ROLE_RANK actorRole \<le> ROLE_RANK (wm_role t) \<and> actorRole \<noteq> OWNER
           then Inl WORKSPACE_INSUFFICIENT_ROLE else Inr t))"

definition member_remove :: "id \<Rightarrow> id \<Rightarrow> workspace_role \<Rightarrow> id \<Rightarrow> unit guild_op" where
  "member_remove ws actor actorRole target g =
     (case remove_check g ws actor actorRole target of
        Inl e \<Rightarrow> refused e g
      | Inr t \<Rightarrow> (Inr (), outbox_add (MEMBER_REMOVED ws target actor) (delete_members ws [target] g)))"

definition leave :: "id \<Rightarrow> id \<Rightarrow> workspace_role \<Rightarrow> unit guild_op" where
  "leave ws user r g =
     (if r = OWNER then refused WORKSPACE_OWNER_MUST_TRANSFER g
      else if find_guild_member g ws user = None then (Inl Uncaught_P2025, g)
      else (Inr (), outbox_add (MEMBER_LEFT ws user) (delete_members ws [user] g)))"

section \<open>Workspaces\<close>

definition RESERVED_SLUGS :: "js_string list" where
  "RESERVED_SLUGS = map js
     [''api'', ''auth'', ''admin'', ''www'', ''app'', ''settings'', ''billing'', ''help'', ''support'',
      ''static'', ''assets'', ''public'', ''invites'', ''workspaces'', ''channels'', ''messages'', ''users'',
      ''me'', ''new'', ''health'', ''healthz'', ''readyz'', ''metrics'', ''internal'', ''download'', ''upload'', ''media'']"

record create_workspace_request =
  cw_name :: js_string
  cw_slug :: js_string
  cw_description :: "js_string option"
  cw_visibility :: "ws_visibility option"
  cw_category :: "id option"
  cw_joinMode :: "ws_join_mode option"
  cw_emailDomains :: "js_string list option"

definition normal_domains :: "(js_string \<Rightarrow> js_string) \<Rightarrow> js_string list \<Rightarrow> js_string list" where
  \<comment> \<open>\<open>[...new Set(ds.map(...))]\<close>: the first occurrence of each\<close>
  "normal_domains lc ds = rev (remdups (rev (map (\<lambda>d. lc (js_trim d)) ds)))"

definition or_default :: "'a option \<Rightarrow> 'a \<Rightarrow> 'a" where
  "or_default x d = (case x of None \<Rightarrow> d | Some v \<Rightarrow> v)"

definition workspace_create ::
  "(js_string \<Rightarrow> js_string) \<Rightarrow> (workspace_role \<Rightarrow> id) \<Rightarrow> id \<Rightarrow> id \<Rightarrow> id \<Rightarrow> create_workspace_request \<Rightarrow> bool
    \<Rightarrow> workspace_row guild_op" where
  "workspace_create lc gen ws_id general_id user input emailVerified g =
     (if \<not> emailVerified then refused EMAIL_NOT_VERIFIED g
      else if cw_slug input \<in> set RESERVED_SLUGS then refused WORKSPACE_SLUG_RESERVED g
      else if \<exists>w \<in> set (gd_workspaces g). w_slug w = cw_slug input then refused WORKSPACE_SLUG_TAKEN g
      else let w = \<lparr>w_id = ws_id, w_name = cw_name input, w_slug = cw_slug input,
                    w_description = cw_description input, w_ownerId = user,
                    w_visibility = or_default (cw_visibility input) VIS_PRIVATE,
                    w_category = cw_category input,
                    w_joinMode = or_default (cw_joinMode input) JOIN_PRIVATE,
                    w_emailDomains = normal_domains lc (or_default (cw_emailDomains input) []),
                    w_defaultChannelId = Some general_id, w_deletedAt = None, w_deleteAt = None\<rparr>;
               m = \<lparr>wm_ws = ws_id, wm_user = user, wm_role = OWNER, gm_isTemporary = False,
                    gm_mutedUntil = None, gm_invitedBy = None, gm_ipHash = None\<rparr>;
               c = \<lparr>ch_id = general_id, ch_ws = Some ws_id, ch_isPrivate = False, ch_type = ''TEXT'',
                    ch_deleted = False, gc_isDefault = True\<rparr>;
               g1 = g\<lparr>gd_workspaces := gd_workspaces g @ [w], gd_members := gd_members g @ [m],
                      gd_channels := gd_channels g @ [c]\<rparr>;
               db = seedMemberSystemRole (seedSystemRoles gen (role_tables g1) ws_id) ws_id user OWNER;
               g2 = g1\<lparr>gd_roles := db_roles db, gd_memberRoles := db_memberRoles db\<rparr>;
               g3 = outbox_add (WORKSPACE_CREATED ws_id user) g2 in
        (Inr w, outbox_add (CHANNEL_CREATED ws_id general_id) g3))"

record update_workspace_request =
  uw_name :: "js_string option"
  uw_description :: "js_string option option"
  uw_visibility :: "ws_visibility option"
  uw_category :: "id option option"
  uw_joinMode :: "ws_join_mode option"
  uw_emailDomains :: "js_string list option"

definition workspace_patch ::
  "(js_string \<Rightarrow> js_string) \<Rightarrow> update_workspace_request \<Rightarrow> workspace_row \<Rightarrow> workspace_row" where
  "workspace_patch lc input w =
     w\<lparr>w_name := or_default (uw_name input) (w_name w),
       w_description := or_default (uw_description input) (w_description w),
       w_visibility := or_default (uw_visibility input) (w_visibility w),
       w_category := or_default (uw_category input) (w_category w),
       w_joinMode := or_default (uw_joinMode input) (w_joinMode w),
       w_emailDomains := (case uw_emailDomains input of None \<Rightarrow> w_emailDomains w
                          | Some ds \<Rightarrow> normal_domains lc ds)\<rparr>"

definition blank :: "js_string option \<Rightarrow> bool" where
  "blank d = (case d of None \<Rightarrow> True | Some s \<Rightarrow> js_trim s = [])"

definition workspace_update ::
  "(js_string \<Rightarrow> js_string) \<Rightarrow> id \<Rightarrow> update_workspace_request \<Rightarrow> workspace_role \<Rightarrow> unit guild_op" where
  "workspace_update lc ws input actorRole g =
     (if (uw_visibility input \<noteq> None \<or> uw_category input \<noteq> None \<or> uw_joinMode input \<noteq> None)
         \<and> actorRole \<noteq> OWNER then refused WORKSPACE_INSUFFICIENT_ROLE g
      else if uw_emailDomains input \<noteq> None \<and> actorRole \<noteq> OWNER
      then refused WORKSPACE_EMAIL_DOMAINS_FORBIDDEN g
      else let current = find_workspace g ws;
               category = (case uw_category input of Some c \<Rightarrow> c
                           | None \<Rightarrow> (case current of None \<Rightarrow> None | Some w \<Rightarrow> w_category w));
               description = (case uw_description input of Some d \<Rightarrow> d
                           | None \<Rightarrow> (case current of None \<Rightarrow> None | Some w \<Rightarrow> w_description w)) in
        if uw_visibility input = Some VIS_PUBLIC \<and> (category = None \<or> blank description)
        then refused WORKSPACE_PUBLIC_REQUIRES_METADATA g
        else if current = None then (Inl Uncaught_P2025, g)
        else (Inr (), g\<lparr>gd_workspaces := update_where (\<lambda>w. w_id w = ws) (workspace_patch lc input)
                                         (gd_workspaces g)\<rparr>))"

text \<open>\<open>joinPublic\<close>: the checks, then the transaction that creates the member.\<close>

definition join_commit_as ::
  "workspace_role \<Rightarrow> workspace_role \<Rightarrow> (workspace_role \<Rightarrow> id) \<Rightarrow> id \<Rightarrow> id \<Rightarrow> bool \<Rightarrow> id option \<Rightarrow> id option
    \<Rightarrow> guild_db \<Rightarrow> guild_db option" where
  "join_commit_as role systemRole gen ws user temporary invitedBy ipHash g =
     map_option (sync_member_role gen ws user systemRole)
       (insert_member \<lparr>wm_ws = ws, wm_user = user, wm_role = role, gm_isTemporary = temporary,
          gm_mutedUntil = None, gm_invitedBy = invitedBy, gm_ipHash = ipHash\<rparr> g)"

definition join_commit ::
  "(workspace_role \<Rightarrow> id) \<Rightarrow> id \<Rightarrow> id \<Rightarrow> bool \<Rightarrow> id option \<Rightarrow> id option \<Rightarrow> guild_db \<Rightarrow> guild_db option" where
  "join_commit = join_commit_as MEMBER MEMBER"

definition joinPublic ::
  "(js_string \<Rightarrow> js_string) \<Rightarrow> (workspace_role \<Rightarrow> id) \<Rightarrow> nat \<Rightarrow> msec \<Rightarrow> id \<Rightarrow> id \<Rightarrow> bool \<Rightarrow> js_string \<Rightarrow> id option
    \<Rightarrow> bool guild_op" where
  "joinPublic lc gen threshold now ws user emailVerified userEmail ipHash g =
     (case find_workspace g ws of
        None \<Rightarrow> refused WORKSPACE_NOT_FOUND g
      | Some w \<Rightarrow>
          (if w_deletedAt w \<noteq> None then refused WORKSPACE_NOT_FOUND g
           else if w_visibility w \<noteq> VIS_PUBLIC then refused WORKSPACE_NOT_PUBLIC g
           else if w_joinMode w = JOIN_APPLY then refused WORKSPACE_APPLY_NOT_SUPPORTED g
           else if find_guild_member g ws user \<noteq> None then (Inr True, g)
           else case assertWorkspaceEntryAllowed lc emailVerified userEmail (w_emailDomains w) of
             Inl e \<Rightarrow> refused e g
           | Inr _ \<Rightarrow>
               (if isBanned g ws user then refused WORKSPACE_NOT_FOUND g
                else case assertNotIpBlocked threshold ws user ipHash VIA_PUBLIC now g of
                  (Inl e, g1) \<Rightarrow> refused e g1
                | (Inr ip, g1) \<Rightarrow>
                    (case join_commit gen ws user False None ip g1 of
                       None \<Rightarrow> (Inl Uncaught_P2002, g1)
                     | Some g2 \<Rightarrow> (Inr False, g2)))))"

definition softDelete_workspace :: "msec \<Rightarrow> msec \<Rightarrow> id \<Rightarrow> id \<Rightarrow> js_string \<Rightarrow> unit guild_op" where
  "softDelete_workspace graceMs now ws actor confirmation g =
     (case find_workspace g ws of
        None \<Rightarrow> refused WORKSPACE_NOT_FOUND g
      | Some w \<Rightarrow>
          (if confirmation \<noteq> w_slug w then refused WORKSPACE_CONFIRMATION_MISMATCH g
           else (Inr (), outbox_add (WORKSPACE_DELETED ws actor (now + graceMs))
             (g\<lparr>gd_workspaces := update_where (\<lambda>x. w_id x = ws)
                 (\<lambda>x. x\<lparr>w_deletedAt := Some now, w_deleteAt := Some (now + graceMs)\<rparr>) (gd_workspaces g)\<rparr>))))"

definition restore_workspace :: "msec \<Rightarrow> id \<Rightarrow> id \<Rightarrow> unit guild_op" where
  "restore_workspace now ws actor g =
     (case find_workspace g ws of
        None \<Rightarrow> refused WORKSPACE_NOT_FOUND g
      | Some w \<Rightarrow>
          (case (w_deletedAt w, w_deleteAt w) of
             (Some _, Some t) \<Rightarrow>
               (if t \<le> now then refused WORKSPACE_PURGED g
                else (Inr (), outbox_add (WORKSPACE_RESTORED ws actor)
                  (g\<lparr>gd_workspaces := update_where (\<lambda>x. w_id x = ws)
                      (\<lambda>x. x\<lparr>w_deletedAt := None, w_deleteAt := None\<rparr>) (gd_workspaces g)\<rparr>)))
           | _ \<Rightarrow> refused WORKSPACE_NOT_FOUND g))"

text \<open>\<open>transferOwnership\<close>; \<open>password_ok\<close> is the outcome of the password check of the caller.\<close>

definition transferOwnership ::
  "(workspace_role \<Rightarrow> id) \<Rightarrow> id \<Rightarrow> id \<Rightarrow> id \<Rightarrow> bool \<Rightarrow> cache_keys guild_op" where
  "transferOwnership gen ws fromUser toUser password_ok g =
     (if fromUser = toUser then refused WORKSPACE_TARGET_NOT_MEMBER g
      else if \<not> password_ok then refused AUTH_INVALID_CREDENTIALS g
      else if find_guild_member g ws toUser = None then refused WORKSPACE_TARGET_NOT_MEMBER g
      else if find_guild_member g ws fromUser = None then (Inl Uncaught_P2025, g)
      else let g1 = update_member ws fromUser (\<lambda>m. m\<lparr>wm_role := ADMIN\<rparr>) g;
               g2 = update_member ws toUser (\<lambda>m. m\<lparr>wm_role := OWNER\<rparr>) g1;
               g3 = sync_member_role gen ws fromUser ADMIN g2;
               g4 = sync_member_role gen ws toUser OWNER g3;
               g5 = g4\<lparr>gd_workspaces := update_where (\<lambda>w. w_id w = ws) (\<lambda>w. w\<lparr>w_ownerId := toUser\<rparr>)
                                         (gd_workspaces g4)\<rparr>;
               g6 = outbox_add (OWNERSHIP_TRANSFERRED ws fromUser toUser) g5 in
        (Inr (perms_keys g6 ws [fromUser] @ perms_keys g6 ws [toUser]), g6))"

definition updateDefaultChannel :: "id \<Rightarrow> id \<Rightarrow> unit guild_op" where
  "updateDefaultChannel ws channel g =
     (case find (\<lambda>c. ch_id c = channel \<and> ch_ws c = Some ws \<and> \<not> ch_deleted c) (gd_channels g) of
        None \<Rightarrow> refused CHANNEL_NOT_FOUND g
      | Some c \<Rightarrow>
          (if ch_isPrivate c then refused WORKSPACE_DEFAULT_CHANNEL_NOT_PUBLIC g
           else (Inr (), g\<lparr>
             gd_channels := update_where (\<lambda>x. ch_id x = channel) (\<lambda>x. x\<lparr>gc_isDefault := True\<rparr>)
               (update_where (\<lambda>x. ch_ws x = Some ws \<and> gc_isDefault x \<and> ch_id x \<noteq> channel)
                 (\<lambda>x. x\<lparr>gc_isDefault := False\<rparr>) (gd_channels g)),
             gd_workspaces := update_where (\<lambda>w. w_id w = ws)
               (\<lambda>w. w\<lparr>w_defaultChannelId := Some channel\<rparr>) (gd_workspaces g)\<rparr>)))"

definition listMine :: "id \<Rightarrow> guild_db \<Rightarrow> workspace_row list" where
  "listMine user g =
     filter (\<lambda>w. w_deletedAt w = None \<and> find_guild_member g (w_id w) user \<noteq> None) (gd_workspaces g)"

definition getWithMyRole :: "id \<Rightarrow> id \<Rightarrow> guild_db \<Rightarrow> error_code + workspace_row \<times> workspace_role" where
  "getWithMyRole ws user g =
     (case (find_workspace g ws, find_guild_member g ws user) of
        (Some w, Some m) \<Rightarrow> Inr (w, wm_role m) | _ \<Rightarrow> Inl WORKSPACE_NOT_FOUND)"

end
