(* ===== verification/Moderation.thy ===== *)
theory Moderation
  imports Guilds
begin

text \<open>
  \<open>workspaces/moderation/moderation.service.ts\<close>: kicks with their undo token, bans, time-outs
  and the bulk action, over the tables of \<open>Guilds\<close>. The permission bits are those of the roles
  a member holds (\<open>computeActorContext\<close> of \<open>Roles\<close>, which the service computes the same way).

  The undo tokens live in Redis; \<open>undo_store\<close> is that part of it (None: no Redis), an entry per
  workspace, actor and target with the token, the hash of the address of the kicked member and
  the time it expires. A transaction that fails leaves the tables as they were.
\<close>

section \<open>Guards\<close>

definition normalizeReason :: "js_string option \<Rightarrow> js_string option" where
  "normalizeReason reason =
     (case reason of None \<Rightarrow> None | Some s \<Rightarrow> (if js_trim s = [] then None else Some (js_trim s)))"

definition actorContext :: "guild_db \<Rightarrow> id \<Rightarrow> id \<Rightarrow> actor_context" where
  "actorContext g ws user = computeActorContext (role_tables g) ws user"

definition has_bit :: "actor_context \<Rightarrow> permission_flag \<Rightarrow> bool" where
  "has_bit c f \<longleftrightarrow> hasRaw (maxPermissions c) (PERMISSIONS f)"

definition member_top_position :: "guild_db \<Rightarrow> id \<Rightarrow> id \<Rightarrow> workspace_role \<Rightarrow> int" where
  \<comment> \<open>\<open>topPosition\<close>\<close>
  "member_top_position g ws user fallbackRole =
     (let roles = held_roles (role_tables g) ws user in
      if roles = [] then SYSTEM_ROLE_POSITION fallbackRole
      else foldl (\<lambda>top r. if role_position r > top then role_position r else top) 0 roles)"

definition assertTargetActionable ::
  "guild_db \<Rightarrow> id \<Rightarrow> id \<Rightarrow> id \<Rightarrow> permission_flag \<Rightarrow> error_code + guild_member" where
  "assertTargetActionable g ws actor target requiredBit =
     (if actor = target then Inl MODERATION_CANNOT_SELF
      else let c = actorContext g ws actor in
        if \<not> isAdministrator c \<and> \<not> has_bit c requiredBit then Inl WORKSPACE_INSUFFICIENT_ROLE
        else case find_guild_member g ws target of
          None \<Rightarrow> Inl WORKSPACE_TARGET_NOT_MEMBER
        | Some t \<Rightarrow>
            (if wm_role t = OWNER then Inl MODERATION_TARGET_HIGHER
             else if \<not> isAdministrator c \<and> topPosition c \<le> member_top_position g ws target (wm_role t)
             then Inl MODERATION_TARGET_HIGHER else Inr t))"

definition assertActorOutranksAuthor :: "guild_db \<Rightarrow> id \<Rightarrow> id \<Rightarrow> id \<Rightarrow> error_code + unit" where
  "assertActorOutranksAuthor g ws actor author =
     (if actor = author then Inr ()
      else let c = actorContext g ws actor in
        if isAdministrator c then Inr ()
        else case find_guild_member g ws author of
          None \<Rightarrow> Inr ()
        | Some a \<Rightarrow>
            (if wm_role a = OWNER then Inl MODERATION_TARGET_HIGHER
             else if topPosition c \<le> member_top_position g ws author (wm_role a)
             then Inl MODERATION_TARGET_HIGHER else Inr ()))"

definition isTimedOut :: "guild_db \<Rightarrow> id \<Rightarrow> id \<Rightarrow> msec \<Rightarrow> bool" where
  "isTimedOut g ws user now =
     (case find_guild_member g ws user of
        None \<Rightarrow> False
      | Some m \<Rightarrow> (case gm_mutedUntil m of None \<Rightarrow> False | Some t \<Rightarrow> now < t))"

section \<open>Kick\<close>

record undo_entry =
  ue_ws :: id
  ue_actor :: id
  ue_target :: id
  ue_token :: id
  ue_ipHash :: "id option"
  ue_expires :: msec

type_synonym undo_store = "undo_entry list option"

definition KICK_UNDO_TTL_SECONDS :: int where "KICK_UNDO_TTL_SECONDS = 5"

definition is_undo_key :: "id \<Rightarrow> id \<Rightarrow> id \<Rightarrow> undo_entry \<Rightarrow> bool" where
  "is_undo_key ws actor target e \<longleftrightarrow> ue_ws e = ws \<and> ue_actor e = actor \<and> ue_target e = target"

definition undo_set :: "undo_entry \<Rightarrow> undo_store \<Rightarrow> undo_store" where
  "undo_set e = map_option (\<lambda>es. e # delete_where (is_undo_key (ue_ws e) (ue_actor e) (ue_target e)) es)"

definition undo_get :: "undo_store \<Rightarrow> msec \<Rightarrow> id \<Rightarrow> id \<Rightarrow> id \<Rightarrow> undo_entry option" where
  "undo_get r now ws actor target =
     (case r of None \<Rightarrow> None
      | Some es \<Rightarrow> find (\<lambda>e. is_undo_key ws actor target e \<and> now < ue_expires e) es)"

definition undo_del :: "id \<Rightarrow> id \<Rightarrow> id \<Rightarrow> undo_store \<Rightarrow> undo_store" where
  "undo_del ws actor target = map_option (delete_where (is_undo_key ws actor target))"

definition kick_commit :: "msec \<Rightarrow> id \<Rightarrow> id \<Rightarrow> guild_member \<Rightarrow> cache_keys guild_op" where
  "kick_commit now ws actor t g =
     (let target = wm_user t in
      if find_guild_member g ws target = None then refused WORKSPACE_TARGET_NOT_MEMBER g
      else let g1 = delete_members ws [target] g;
               g2 = outbox_add (MEMBER_KICKED ws target actor) g1;
               g3 = audit_record ws actor (MEMBER_KICK (wm_role t)) (Some target) None now g2 in
        (Inr (perms_keys g3 ws [target]), g3))"

definition kick ::
  "msec \<Rightarrow> id \<Rightarrow> id \<Rightarrow> id \<Rightarrow> id \<Rightarrow> guild_db \<times> undo_store \<Rightarrow> (failure + id \<times> msec) \<times> guild_db \<times> undo_store" where
  "kick now undoToken ws actor target = (\<lambda>(g, r).
     (case assertTargetActionable g ws actor target KICK_MEMBERS of
        Inl e \<Rightarrow> (Inl (Domain e), g, r)
      | Inr t \<Rightarrow>
          (let snapshotIpHash = (case find_guild_member g ws target of None \<Rightarrow> None | Some m \<Rightarrow> gm_ipHash m);
               expires = now + KICK_UNDO_TTL_SECONDS * 1000 in
           case kick_commit now ws actor t g of
             (Inl e, g1) \<Rightarrow> (Inl e, g1, r)
           | (Inr keys, g1) \<Rightarrow>
               (Inr (undoToken, expires), g1,
                undo_set \<lparr>ue_ws = ws, ue_actor = actor, ue_target = target, ue_token = undoToken,
                          ue_ipHash = snapshotIpHash, ue_expires = expires\<rparr> r))))"

definition kickUndo ::
  "(workspace_role \<Rightarrow> id) \<Rightarrow> msec \<Rightarrow> id \<Rightarrow> id \<Rightarrow> id \<Rightarrow> id \<Rightarrow> guild_db \<times> undo_store
    \<Rightarrow> (failure + unit) \<times> guild_db \<times> undo_store" where
  "kickUndo gen now ws actor target undoToken = (\<lambda>(g, r).
     (case undo_get r now ws actor target of
        None \<Rightarrow> (Inl (Domain KICK_UNDO_INVALID), g, r)
      | Some e \<Rightarrow>
          (if ue_token e \<noteq> undoToken then (Inl (Domain KICK_UNDO_INVALID), g, r)
           else let r1 = undo_del ws actor target r in
             if isBanned g ws target then (Inl (Domain KICK_UNDO_INVALID), g, r1)
             else case join_commit gen ws target False None (ue_ipHash e) g of
               None \<Rightarrow> (Inl (Domain KICK_UNDO_INVALID), g, r1)
             | Some g1 \<Rightarrow> (Inr (), outbox_add (MEMBER_JOINED ws target actor) g1, r1))))"

section \<open>Bans\<close>

text \<open>The checks of \<open>ban\<close>; they return the member the ban removes, if any.\<close>

definition ban_check :: "guild_db \<Rightarrow> id \<Rightarrow> id \<Rightarrow> id \<Rightarrow> error_code + guild_member option" where
  "ban_check g ws actor target =
     (if actor = target then Inl MODERATION_CANNOT_SELF
      else let c = actorContext g ws actor in
        if \<not> isAdministrator c \<and> \<not> has_bit c BAN_MEMBERS then Inl WORKSPACE_INSUFFICIENT_ROLE
        else if isBanned g ws target then Inl MEMBER_ALREADY_BANNED
        else case find_guild_member g ws target of
          Some t \<Rightarrow>
            (if wm_role t = OWNER then Inl MODERATION_TARGET_HIGHER
             else if \<not> isAdministrator c \<and> topPosition c \<le> member_top_position g ws target (wm_role t)
             then Inl MODERATION_TARGET_HIGHER else Inr (Some t))
        | None \<Rightarrow>
            (if \<not> isAdministrator c \<and> held_roles (role_tables g) ws target \<noteq> []
                \<and> topPosition c \<le> topPosition (computeActorContext (role_tables g) ws target)
             then Inl MODERATION_TARGET_HIGHER else Inr None))"

definition ban_commit :: "msec \<Rightarrow> id \<Rightarrow> id \<Rightarrow> id \<Rightarrow> js_string option \<Rightarrow> guild_member option \<Rightarrow> cache_keys guild_op"
where
  "ban_commit now ws actor target reason member g =
     (if isBanned g ws target then refused MEMBER_ALREADY_BANNED g
      else let g1 = g\<lparr>gd_bans := gd_bans g @ [\<lparr>ban_ws = ws, ban_user = target, ban_by = actor,
                 ban_reason = normalizeReason reason,
                 ban_ipHash = (case member of None \<Rightarrow> None | Some m \<Rightarrow> gm_ipHash m)\<rparr>]\<rparr> in
        if member \<noteq> None \<and> find_guild_member g ws target = None then (Inl Uncaught_P2025, g)
        else let g2 = (if member = None then g1
                       else outbox_add (MEMBER_BANNED ws target actor) (delete_members ws [target] g1));
                 g3 = audit_record ws actor (MEMBER_BAN (member \<noteq> None)) (Some target) None now g2 in
          (Inr (if member = None then [] else perms_keys g3 ws [target]), g3))"

definition ban :: "msec \<Rightarrow> id \<Rightarrow> id \<Rightarrow> id \<Rightarrow> js_string option \<Rightarrow> cache_keys guild_op" where
  "ban now ws actor target reason g =
     (case ban_check g ws actor target of
        Inl e \<Rightarrow> refused e g
      | Inr member \<Rightarrow> ban_commit now ws actor target reason member g)"

definition unban :: "msec \<Rightarrow> id \<Rightarrow> id \<Rightarrow> id \<Rightarrow> unit guild_op" where
  "unban now ws actor target g =
     (let c = actorContext g ws actor in
      if \<not> isAdministrator c \<and> \<not> has_bit c BAN_MEMBERS then refused WORKSPACE_INSUFFICIENT_ROLE g
      else if \<not> isBanned g ws target then refused MEMBER_NOT_BANNED g
      else (Inr (), audit_record ws actor MEMBER_UNBAN (Some target) None now
             (g\<lparr>gd_bans := delete_where (\<lambda>b. ban_ws b = ws \<and> ban_user b = target) (gd_bans g)\<rparr>)))"

definition listBans :: "id \<Rightarrow> id \<Rightarrow> guild_db \<Rightarrow> error_code + ban_row list" where
  "listBans ws actor g =
     (let c = actorContext g ws actor in
      if \<not> isAdministrator c \<and> \<not> has_bit c BAN_MEMBERS then Inl WORKSPACE_INSUFFICIENT_ROLE
      else Inr (rev (filter (\<lambda>b. ban_ws b = ws) (gd_bans g))))"

section \<open>Time-outs\<close>

definition set_mute :: "id \<Rightarrow> id \<Rightarrow> msec option \<Rightarrow> guild_audit_action \<Rightarrow> id \<Rightarrow> msec \<Rightarrow> 'a \<Rightarrow> 'a guild_op" where
  \<comment> \<open>the transaction of \<open>timeout\<close>, \<open>timeoutBySystem\<close> and \<open>untimeout\<close> inside \<open>runMemberWrite\<close>\<close>
  "set_mute ws target mutedUntil act actor now res g =
     (if find_guild_member g ws target = None then refused WORKSPACE_TARGET_NOT_MEMBER g
      else (Inr res, audit_record ws actor act (Some target) None now
             (update_member ws target (\<lambda>m. m\<lparr>gm_mutedUntil := mutedUntil\<rparr>) g)))"

definition timeout :: "msec \<Rightarrow> id \<Rightarrow> id \<Rightarrow> id \<Rightarrow> int \<Rightarrow> msec guild_op" where
  "timeout now ws actor target durationSeconds g =
     (case assertTargetActionable g ws actor target TIMEOUT_MEMBERS of
        Inl e \<Rightarrow> refused e g
      | Inr _ \<Rightarrow> (let until = now + durationSeconds * 1000 in
          set_mute ws target (Some until) (MEMBER_TIMEOUT until) actor now until g))"

definition timeoutBySystem :: "msec \<Rightarrow> id \<Rightarrow> id \<Rightarrow> int \<Rightarrow> msec guild_op" where
  "timeoutBySystem now ws target durationSeconds g =
     (let until = now + durationSeconds * 1000 in
      case find_guild_member g ws target of
        Some t \<Rightarrow>
          (if wm_role t = OWNER then (Inr (or_default (gm_mutedUntil t) 0), g)
           else set_mute ws target (Some until) (AUTOMOD_TIMEOUT until) target now until g)
      | None \<Rightarrow> set_mute ws target (Some until) (AUTOMOD_TIMEOUT until) target now until g)"

definition untimeout :: "msec \<Rightarrow> id \<Rightarrow> id \<Rightarrow> id \<Rightarrow> unit guild_op" where
  "untimeout now ws actor target g =
     (case assertTargetActionable g ws actor target TIMEOUT_MEMBERS of
        Inl e \<Rightarrow> refused e g
      | Inr _ \<Rightarrow> set_mute ws target None MEMBER_UNTIMEOUT actor now () g)"

section \<open>The bulk action\<close>

text \<open>The reason to skip a target; \<open>topByUser\<close> is the map of the top positions.\<close>

definition bulk_top :: "guild_db \<Rightarrow> id \<Rightarrow> id \<Rightarrow> workspace_role \<Rightarrow> int" where
  "bulk_top g ws user r =
     (let ps = filter (\<lambda>p. 0 < p) (map role_position (held_roles (role_tables g) ws user)) in
      case ps of [] \<Rightarrow> SYSTEM_ROLE_POSITION r | p # qs \<Rightarrow> foldl max p qs)"

definition skip_reason_of :: "guild_db \<Rightarrow> id \<Rightarrow> id \<Rightarrow> actor_context \<Rightarrow> id \<Rightarrow> skip_reason option" where
  "skip_reason_of g ws actor c user =
     (if user = actor then Some SKIP_SELF
      else case find_guild_member g ws user of
        None \<Rightarrow> Some SKIP_NOT_MEMBER
      | Some t \<Rightarrow>
          (if wm_role t = OWNER then Some SKIP_OWNER
           else if \<not> isAdministrator c \<and> topPosition c \<le> bulk_top g ws user (wm_role t)
           then Some SKIP_OUTRANKED else None))"

record bulk_result =
  bulk_attempted :: nat
  bulk_affected :: "id list"
  bulk_skipped :: "(id \<times> skip_reason) list"
  bulk_keys :: cache_keys

definition bulk_allowed :: "actor_context \<Rightarrow> workspace_role \<Rightarrow> bulk_action \<Rightarrow> bool" where
  "bulk_allowed c actorRole act =
     (case act of
        BULK_ROLE \<Rightarrow> isAdministrator c \<or> ROLE_RANK ADMIN \<le> ROLE_RANK actorRole
      | BULK_KICK \<Rightarrow> isAdministrator c \<or> has_bit c KICK_MEMBERS
      | BULK_TIMEOUT \<Rightarrow> isAdministrator c \<or> has_bit c TIMEOUT_MEMBERS)"

definition bulk_write ::
  "(workspace_role \<Rightarrow> id) \<Rightarrow> msec \<Rightarrow> id \<Rightarrow> id \<Rightarrow> bulk_action \<Rightarrow> int option \<Rightarrow> workspace_role \<Rightarrow> id list
    \<Rightarrow> guild_db \<Rightarrow> guild_db" where
  "bulk_write gen now ws actor act durationSeconds role affected g =
     (case act of
        BULK_KICK \<Rightarrow> foldl (\<lambda>h u. outbox_add (MEMBER_KICKED ws u actor) h) (delete_members ws affected g) affected
      | BULK_TIMEOUT \<Rightarrow>
          g\<lparr>gd_members := update_where (\<lambda>m. wm_ws m = ws \<and> wm_user m \<in> set affected)
              (\<lambda>m. m\<lparr>gm_mutedUntil := map_option (\<lambda>d. now + d * 1000) durationSeconds\<rparr>) (gd_members g)\<rparr>
      | BULK_ROLE \<Rightarrow>
          (let g1 = g\<lparr>gd_members := update_where (\<lambda>m. wm_ws m = ws \<and> wm_user m \<in> set affected)
                        (\<lambda>m. m\<lparr>wm_role := role\<rparr>) (gd_members g)\<rparr>;
               db = syncMembersSystemRole gen (role_tables g1) ws affected role;
               g2 = g1\<lparr>gd_roles := db_roles db, gd_memberRoles := db_memberRoles db\<rparr> in
           foldl (\<lambda>h u. case find_guild_member g ws u of
                    Some t \<Rightarrow> outbox_add (ROLE_CHANGED ws u actor (wm_role t) role) h | None \<Rightarrow> h) g2 affected))"

definition bulkAction ::
  "(workspace_role \<Rightarrow> id) \<Rightarrow> msec \<Rightarrow> id \<Rightarrow> id \<Rightarrow> workspace_role \<Rightarrow> bulk_action \<Rightarrow> id list \<Rightarrow> int option
    \<Rightarrow> workspace_role \<Rightarrow> bulk_result guild_op" where
  "bulkAction gen now ws actor actorRole act ids durationSeconds role g =
     (let userIds = rev (remdups (rev ids)); c = actorContext g ws actor in
      if \<not> bulk_allowed c actorRole act then refused WORKSPACE_INSUFFICIENT_ROLE g
      else let affected = filter (\<lambda>u. skip_reason_of g ws actor c u = None) userIds;
               skipped = List.map_filter (\<lambda>u. map_option (Pair u) (skip_reason_of g ws actor c u)) userIds in
        if affected = []
        then (Inr \<lparr>bulk_attempted = length userIds, bulk_affected = [], bulk_skipped = skipped, bulk_keys = []\<rparr>, g)
        else let g1 = bulk_write gen now ws actor act durationSeconds role affected g;
                 g2 = audit_record ws actor (MEMBER_BULK_ACTION act affected skipped) None None now g1 in
          (Inr \<lparr>bulk_attempted = length userIds, bulk_affected = affected, bulk_skipped = skipped,
                bulk_keys = perms_keys g2 ws affected\<rparr>, g2))"

section \<open>Who may act on whom\<close>

datatype mod_op =
    Kick id id id | KickUndo id id id | Ban id id "js_string option" | Unban id id
  | Timeout id id int | SystemTimeout id int | Untimeout id id
  | Bulk id workspace_role bulk_action "id list" "int option" workspace_role

fun mod_step ::
  "(workspace_role \<Rightarrow> id) \<Rightarrow> id \<Rightarrow> msec \<Rightarrow> mod_op \<Rightarrow> guild_db \<times> undo_store \<Rightarrow> guild_db \<times> undo_store" where
  "mod_step gen ws now (Kick actor target token) s = snd (kick now token ws actor target s)"
| "mod_step gen ws now (KickUndo actor target token) s = snd (kickUndo gen now ws actor target token s)"
| "mod_step gen ws now (Ban actor target reason) (g, r) = (snd (ban now ws actor target reason g), r)"
| "mod_step gen ws now (Unban actor target) (g, r) = (snd (unban now ws actor target g), r)"
| "mod_step gen ws now (Timeout actor target d) (g, r) = (snd (timeout now ws actor target d g), r)"
| "mod_step gen ws now (SystemTimeout target d) (g, r) = (snd (timeoutBySystem now ws target d g), r)"
| "mod_step gen ws now (Untimeout actor target) (g, r) = (snd (untimeout now ws actor target g), r)"
| "mod_step gen ws now (Bulk actor actorRole act ids d role) (g, r) =
     (snd (bulkAction gen now ws actor actorRole act ids d role g), r)"

text \<open>The permission an operation needs, and whether an actor stands above a member.\<close>

fun op_right :: "actor_context \<Rightarrow> mod_op \<Rightarrow> bool" where
  "op_right c (Kick _ _ _) = has_bit c KICK_MEMBERS"
| "op_right c (Ban _ _ _) = has_bit c BAN_MEMBERS"
| "op_right c (Unban _ _) = has_bit c BAN_MEMBERS"
| "op_right c (Timeout _ _ _) = has_bit c TIMEOUT_MEMBERS"
| "op_right c (Untimeout _ _) = has_bit c TIMEOUT_MEMBERS"
| "op_right c (Bulk _ actorRole BULK_KICK _ _ _) = has_bit c KICK_MEMBERS"
| "op_right c (Bulk _ actorRole BULK_TIMEOUT _ _ _) = has_bit c TIMEOUT_MEMBERS"
| "op_right c (Bulk _ actorRole BULK_ROLE _ _ _) = (4 \<le> ROLE_RANK actorRole)"
| "op_right c _ = False"

fun mod_actor :: "mod_op \<Rightarrow> id option" where
  "mod_actor (Kick a _ _) = Some a"
| "mod_actor (KickUndo a _ _) = Some a"
| "mod_actor (Ban a _ _) = Some a"
| "mod_actor (Unban a _) = Some a"
| "mod_actor (Timeout a _ _) = Some a"
| "mod_actor (SystemTimeout _ _) = None"
| "mod_actor (Untimeout a _) = Some a"
| "mod_actor (Bulk a _ _ _ _ _) = Some a"

definition outranks :: "guild_db \<Rightarrow> id \<Rightarrow> id \<Rightarrow> guild_member \<Rightarrow> bool" where
  "outranks g ws a m \<longleftrightarrow> isAdministrator (actorContext g ws a)
     \<or> member_top_position g ws (wm_user m) (wm_role m) < topPosition (actorContext g ws a)"

definition may_touch :: "guild_db \<Rightarrow> id \<Rightarrow> mod_op \<Rightarrow> id \<Rightarrow> guild_member \<Rightarrow> bool" where
  "may_touch g ws op a m \<longleftrightarrow> wm_user m \<noteq> a \<and> wm_role m \<noteq> OWNER
     \<and> (isAdministrator (actorContext g ws a) \<or> op_right (actorContext g ws a) op) \<and> outranks g ws a m"

lemma gd_members_simps [simp]:
  "gd_members (outbox_add e g) = gd_members g"
  "gd_members (audit_record w a act t i n g) = gd_members g"
  "gd_members (sync_member_role gen ws u r g) = gd_members g"
  by (simp_all add: outbox_add_def audit_record_def sync_member_role_def Let_def)

lemma find_guild_member_SomeD:
  "find_guild_member g ws u = Some m \<Longrightarrow> m \<in> set (gd_members g) \<and> wm_ws m = ws \<and> wm_user m = u"
  by (auto simp: find_guild_member_def is_member_row_def dest: find_Some_in)

text \<open>One row per user and workspace, the primary key of the table.\<close>

definition members_keyed :: "guild_db \<Rightarrow> bool" where
  "members_keyed g \<longleftrightarrow> distinct (map (\<lambda>m. (wm_ws m, wm_user m)) (gd_members g))"

lemma members_keyed_unique:
  assumes "members_keyed g" "m \<in> set (gd_members g)" "x \<in> set (gd_members g)"
    "wm_ws m = wm_ws x" "wm_user m = wm_user x"
  shows "m = x"
  using assms distinct_map_unique [of "\<lambda>m. (wm_ws m, wm_user m)" "gd_members g" m x]
  by (simp add: members_keyed_def)

lemma find_guild_member_key:
  assumes "members_keyed g" "m \<in> set (gd_members g)"
  shows "find_guild_member g (wm_ws m) (wm_user m) = Some m"
proof -
  have "find_guild_member g (wm_ws m) (wm_user m) \<noteq> None"
    using assms(2) by (auto simp: find_guild_member_def find_None_all is_member_row_def)
  then obtain x where x: "find_guild_member g (wm_ws m) (wm_user m) = Some x" by blast
  then have "x \<in> set (gd_members g)" "wm_ws x = wm_ws m" "wm_user x = wm_user m"
    by (auto dest: find_guild_member_SomeD)
  then have "m = x" by (intro members_keyed_unique [OF assms]) simp_all
  with x show ?thesis by simp
qed

lemma touched_delete:
  "m \<in> set (gd_members g) \<Longrightarrow> m \<notin> set (gd_members (delete_members ws us g)) \<Longrightarrow> wm_ws m = ws \<and> wm_user m \<in> set us"
  by (auto simp: delete_members_def set_delete_where)

lemma touched_update:
  "m \<in> set t \<Longrightarrow> m \<notin> set (update_where p f t) \<Longrightarrow> p m"
  by (auto simp: set_update_where image_iff)

lemma touched_update_member:
  "m \<in> set (gd_members g) \<Longrightarrow> m \<notin> set (gd_members (update_member ws u f g)) \<Longrightarrow> wm_ws m = ws \<and> wm_user m = u"
  by (auto simp: update_member_def is_member_row_def dest: touched_update)

lemma actionable_touch:
  assumes "assertTargetActionable g ws a u flag = Inr t"
    and "members_keyed g" "m \<in> set (gd_members g)" "wm_ws m = ws" "wm_user m = u"
  shows "wm_user m \<noteq> a \<and> wm_role m \<noteq> OWNER
     \<and> (isAdministrator (actorContext g ws a) \<or> has_bit (actorContext g ws a) flag) \<and> outranks g ws a m"
proof -
  have "find_guild_member g ws u = Some m" using find_guild_member_key [OF assms(2,3)] assms(4,5) by simp
  with assms(1,5) show ?thesis
    by (auto simp: assertTargetActionable_def outranks_def Let_def split: if_splits)
qed

lemma ban_touch:
  assumes "ban_check g ws a u = Inr mem"
    and "members_keyed g" "m \<in> set (gd_members g)" "wm_ws m = ws" "wm_user m = u"
  shows "mem = Some m \<and> wm_user m \<noteq> a \<and> wm_role m \<noteq> OWNER
     \<and> (isAdministrator (actorContext g ws a) \<or> has_bit (actorContext g ws a) BAN_MEMBERS) \<and> outranks g ws a m"
proof -
  have "find_guild_member g ws u = Some m" using find_guild_member_key [OF assms(2,3)] assms(4,5) by simp
  with assms(1,5) show ?thesis
    by (auto simp: ban_check_def outranks_def Let_def split: if_splits)
qed

lemma foldl_max_pos: "foldl (\<lambda>top r. if f r > top then f r else top) (b :: int) rs
    = foldl max b (filter (\<lambda>p. b < p) (map f rs))"
proof (induction rs arbitrary: b)
  case (Cons r rs)
  have shrink: "foldl max a (filter (\<lambda>p. b < p) ps) = foldl max a (filter (\<lambda>p. c < p) ps)"
    if "b \<le> c" "c \<le> a" for a c ps
    using that
  proof (induction ps arbitrary: a)
    case (Cons p ps)
    have "max a p = a" if "\<not> c < p" using that Cons.prems by simp
    with Cons show ?case by auto
  qed simp
  show ?case using Cons shrink [of "f r" "f r" "map f rs"] by (cases "b < f r") simp_all
qed simp

lemma foldl_max_start: "b < p \<Longrightarrow> foldl max (b :: int) (p # ps) = foldl max p ps"
  by simp

lemma system_position_nonneg: "0 \<le> SYSTEM_ROLE_POSITION r"
  by (cases r) simp_all

lemma bulk_top_ge: "member_top_position g ws u r \<le> bulk_top g ws u r"
proof -
  let ?h = "held_roles (role_tables g) ws u"
  have "foldl (\<lambda>top r. if role_position r > top then role_position r else top) 0 ?h
    = foldl max 0 (filter (\<lambda>p. 0 < p) (map role_position ?h))"
    using foldl_max_pos [of role_position 0 ?h] by simp
  then show ?thesis
    using system_position_nonneg [of r]
    by (auto simp: member_top_position_def bulk_top_def Let_def filter_eq_Cons_iff
        split: list.split)
qed

lemma foldl_members:
  "(\<And>h u. gd_members (f h u) = gd_members h) \<Longrightarrow> gd_members (foldl f g us) = gd_members g"
  by (induction us arbitrary: g) auto

lemma touched_bulk:
  assumes "m \<in> set (gd_members g)" "m \<notin> set (gd_members (bulk_write gen now ws a act d role us g))"
  shows "wm_ws m = ws \<and> wm_user m \<in> set us"
proof (cases act)
  case BULK_KICK
  then have "m \<notin> set (gd_members (delete_members ws us g))"
    using assms(2) by (simp add: bulk_write_def foldl_members)
  with assms(1) show ?thesis by (rule touched_delete)
next
  case BULK_TIMEOUT
  with assms show ?thesis by (auto simp: bulk_write_def dest: touched_update)
next
  case BULK_ROLE
  have "gd_members (foldl (\<lambda>h u. case find_guild_member g ws u of
      Some t \<Rightarrow> outbox_add (ROLE_CHANGED ws u a (wm_role t) role) h | None \<Rightarrow> h) h0 us) = gd_members h0" for h0
    by (rule foldl_members) (simp split: option.split)
  with BULK_ROLE assms show ?thesis by (auto simp: bulk_write_def Let_def dest: touched_update)
qed

lemma bulk_touch:
  assumes "skip_reason_of g ws a (actorContext g ws a) u = None"
    and "members_keyed g" "m \<in> set (gd_members g)" "wm_ws m = ws" "wm_user m = u"
  shows "wm_user m \<noteq> a \<and> wm_role m \<noteq> OWNER \<and> outranks g ws a m"
proof -
  have "find_guild_member g ws u = Some m" using find_guild_member_key [OF assms(2,3)] assms(4,5) by simp
  with assms(1,5) bulk_top_ge [of g ws u "wm_role m"] show ?thesis
    by (auto simp: skip_reason_of_def outranks_def split: if_splits)
qed

lemma touched_set_mute:
  "m \<in> set (gd_members g) \<Longrightarrow> m \<notin> set (gd_members (snd (set_mute ws u t act a now res g)))
    \<Longrightarrow> wm_ws m = ws \<and> wm_user m = u"
  by (auto simp: set_mute_def refused_def dest: touched_update_member split: if_splits)

lemma join_commit_members:
  "join_commit gen ws u tmp iv ip g = Some g' \<Longrightarrow> set (gd_members g) \<subseteq> set (gd_members g')"
  by (auto simp: join_commit_def join_commit_as_def insert_member_def split: if_splits)

lemma kick_commit_touch:
  assumes "m \<in> set (gd_members g)" "m \<notin> set (gd_members (snd (kick_commit now ws a t g)))"
  shows "wm_ws m = ws \<and> wm_user m = wm_user t"
  using assms by (auto simp: kick_commit_def refused_def Let_def dest: touched_delete split: if_splits)

lemma actionable_target:
  "assertTargetActionable g ws a u flag = Inr t \<Longrightarrow> wm_user t = u"
  by (auto simp: assertTargetActionable_def Let_def dest: find_guild_member_SomeD split: if_splits option.splits)

lemma kick_touch:
  assumes "m \<in> set (gd_members g)" "m \<notin> set (gd_members (fst (snd (kick now tok ws a u (g, r)))))"
  obtains t where "assertTargetActionable g ws a u KICK_MEMBERS = Inr t" "wm_ws m = ws" "wm_user m = u"
proof -
  from assms obtain t where t: "assertTargetActionable g ws a u KICK_MEMBERS = Inr t"
    "m \<notin> set (gd_members (snd (kick_commit now ws a t g)))"
    by (auto simp: kick_def Let_def split: sum.splits prod.splits)
  with kick_commit_touch [OF assms(1) t(2)] actionable_target [OF t(1)] that show thesis by blast
qed

lemma touch_ban:
  assumes "m \<in> set (gd_members g)" "m \<notin> set (gd_members (snd (ban now ws a u reason g)))"
  obtains mem where "ban_check g ws a u = Inr mem" "wm_ws m = ws" "wm_user m = u"
proof -
  have "gd_members (delete_members ws us (g\<lparr>gd_bans := b\<rparr>)) = gd_members (delete_members ws us g)" for us b
    by (simp add: delete_members_def)
  with assms that show thesis
    by (auto simp: ban_def ban_commit_def refused_def Let_def dest: touched_delete
        split: sum.splits if_splits)
qed

lemma touch_bulk:
  assumes "m \<in> set (gd_members g)"
    "m \<notin> set (gd_members (snd (bulkAction gen now ws a actorRole act ids d role g)))"
  shows "bulk_allowed (actorContext g ws a) actorRole act \<and> wm_ws m = ws
    \<and> skip_reason_of g ws a (actorContext g ws a) (wm_user m) = None"
  using assms
  by (auto simp: bulkAction_def refused_def Let_def dest: touched_bulk split: if_splits)

lemma step_touches:
  assumes keyed: "members_keyed g" and a: "mod_actor oper = Some a"
    and m: "m \<in> set (gd_members g)" "m \<notin> set (gd_members (fst (mod_step gen ws now oper (g, r))))"
  shows "wm_ws m = ws \<and> may_touch g ws oper a m"
proof (cases oper)
  case (Kick a' u tok)
  with a m obtain t where t: "assertTargetActionable g ws a u KICK_MEMBERS = Inr t" "wm_ws m = ws" "wm_user m = u"
    by (auto elim: kick_touch)
  from actionable_touch [OF t(1) keyed m(1) t(2,3)] t(2) Kick show ?thesis by (simp add: may_touch_def)
next
  case (KickUndo a' u tok)
  then have False using m join_commit_members
    by (fastforce simp: kickUndo_def Let_def split: option.splits if_splits)
  then show ?thesis ..
next
  case (Ban a' u reason)
  with a m obtain mem where t: "ban_check g ws a u = Inr mem" "wm_ws m = ws" "wm_user m = u"
    by (auto elim: touch_ban)
  from ban_touch [OF t(1) keyed m(1) t(2,3)] t(2) Ban show ?thesis by (simp add: may_touch_def)
next
  case (Unban a' u)
  then have False using m by (auto simp: unban_def refused_def Let_def split: if_splits)
  then show ?thesis ..
next
  case (Timeout a' u d)
  with a m obtain t where t: "assertTargetActionable g ws a u TIMEOUT_MEMBERS = Inr t" "wm_ws m = ws" "wm_user m = u"
    by (auto simp: timeout_def refused_def Let_def dest: touched_set_mute split: sum.splits)
  from actionable_touch [OF t(1) keyed m(1) t(2,3)] t(2) Timeout show ?thesis by (simp add: may_touch_def)
next
  case (SystemTimeout u d)
  with a show ?thesis by simp
next
  case (Untimeout a' u)
  with a m obtain t where t: "assertTargetActionable g ws a u TIMEOUT_MEMBERS = Inr t" "wm_ws m = ws" "wm_user m = u"
    by (auto simp: untimeout_def refused_def dest: touched_set_mute split: sum.splits)
  from actionable_touch [OF t(1) keyed m(1) t(2,3)] t(2) Untimeout show ?thesis by (simp add: may_touch_def)
next
  case (Bulk a' actorRole act ids d role)
  with a m have t: "bulk_allowed (actorContext g ws a) actorRole act" "wm_ws m = ws"
    "skip_reason_of g ws a (actorContext g ws a) (wm_user m) = None"
    using touch_bulk [OF m(1)] by auto
  from bulk_touch [OF t(3) keyed m(1) t(2) refl] t(1,2) Bulk show ?thesis
    by (cases act) (auto simp: may_touch_def bulk_allowed_def ROLE_RANK_def)
qed

lemma system_timeout_touches:
  assumes keyed: "members_keyed g" and m: "m \<in> set (gd_members g)"
    "m \<notin> set (gd_members (snd (timeoutBySystem now ws u d g)))"
  shows "wm_ws m = ws \<and> wm_user m = u \<and> wm_role m \<noteq> OWNER"
proof -
  from m have key: "wm_ws m = ws \<and> wm_user m = u"
    by (auto simp: timeoutBySystem_def Let_def dest: touched_set_mute split: option.splits if_splits)
  then have "find_guild_member g ws u = Some m" using find_guild_member_key [OF keyed m(1)] by simp
  with m key show ?thesis by (auto simp: timeoutBySystem_def Let_def split: if_splits)
qed

text \<open>C19: Moderation respects the hierarchy. Whatever a moderator requests, one target or a
  hundred at once, every member row that is gone or changed afterwards belonged to the
  workspace, is not the moderator's own and not the owner's, and the moderator holds the
  administrator bit or both the permission of the operation and a top position above every role
  of that member; AutoMod, which acts without a moderator, never mutes the owner.
\<close>

theorem moderation_respects_hierarchy:
  assumes "members_keyed g" and "m \<in> set (gd_members g)"
    and "m \<notin> set (gd_members (fst (mod_step gen ws now oper (g, r))))"
  shows "wm_ws m = ws \<and> wm_role m \<noteq> OWNER
    \<and> (case mod_actor oper of None \<Rightarrow> True | Some a \<Rightarrow> may_touch g ws oper a m)"
proof (cases "mod_actor oper")
  case None
  then obtain u d where "oper = SystemTimeout u d" by (cases oper) auto
  with system_timeout_touches [OF assms(1,2)] assms(3) None show ?thesis by auto
next
  case (Some a)
  with step_touches [OF assms(1) Some assms(2,3)] show ?thesis by (simp add: may_touch_def)
qed

text \<open>A moderator who may kick removes a member.\<close>

definition kick_guild :: guild_db where
  "kick_guild = \<lparr>gd_workspaces = [],
     gd_members = [\<lparr>wm_ws = ''w'', wm_user = ''m'', wm_role = MODERATOR, gm_isTemporary = False,
                     gm_mutedUntil = None, gm_invitedBy = None, gm_ipHash = None\<rparr>,
                   \<lparr>wm_ws = ''w'', wm_user = ''t'', wm_role = MEMBER, gm_isTemporary = False,
                     gm_mutedUntil = None, gm_invitedBy = None, gm_ipHash = None\<rparr>],
     gd_roles = [\<lparr>role_id = ''r'', role_ws = ''w'', role_name = ''kicker'', role_color = None, role_position = 350,
                   role_permissions = toStoragePermissions (PERMISSIONS KICK_MEMBERS), role_isSystem = False,
                   role_mentionable = False, role_hoist = False\<rparr>],
     gd_memberRoles = [\<lparr>mr_ws = ''w'', mr_user = ''m'', mr_role = ''r'', mr_assignedBy = None\<rparr>],
     gd_channels = [], gd_bans = [], gd_invites = [], gd_applications = [], gd_pendings = [],
     gd_outbox = [], gd_audit = []\<rparr>"

definition kick_target :: guild_member where
  "kick_target = \<lparr>wm_ws = ''w'', wm_user = ''t'', wm_role = MEMBER, gm_isTemporary = False,
                  gm_mutedUntil = None, gm_invitedBy = None, gm_ipHash = None\<rparr>"

lemma kick_happens:
  "kick_target \<notin> set (gd_members (fst (mod_step role_literal ''w'' 0 (Kick ''m'' ''t'' ''k'') (kick_guild, None))))"
  by code_simp

theorem moderation_respects_hierarchy_witness:
  "kick_target \<in> set (gd_members kick_guild)
   \<and> kick_target \<notin> set (gd_members (fst (mod_step role_literal ''w'' 0 (Kick ''m'' ''t'' ''k'') (kick_guild, None))))
   \<and> may_touch kick_guild ''w'' (Kick ''m'' ''t'' ''k'') ''m'' kick_target"
proof -
  have "members_keyed kick_guild" "kick_target \<in> set (gd_members kick_guild)"
    by (simp_all add: members_keyed_def kick_guild_def kick_target_def)
  with kick_happens moderation_respects_hierarchy [OF this kick_happens] show ?thesis by simp
qed

end
