(* ===== verification/Applications.thy ===== *)
theory Applications
  imports Moderation
begin

text \<open>
  \<open>workspaces/applications/applications.service.ts\<close>: applications to join a workspace that
  reviews its newcomers. The table has a unique key on (workspaceId, applicantId, status); a
  violation aborts the transaction, and in PostgreSQL every later statement of an aborted
  transaction fails (\<open>Uncaught_Aborted\<close>), so catching the violation inside the transaction does
  not save it. The direct message an interview opens is the direct message service's; its
  channel is an argument.
\<close>

section \<open>The table\<close>

definition same_key :: "application_row \<Rightarrow> application_row \<Rightarrow> bool" where
  "same_key a b \<longleftrightarrow> ap_ws a = ap_ws b \<and> ap_applicant a = ap_applicant b \<and> ap_status a = ap_status b"

definition find_application :: "guild_db \<Rightarrow> (application_row \<Rightarrow> bool) \<Rightarrow> application_row option" where
  "find_application g p = find p (gd_applications g)"

definition insert_application :: "application_row \<Rightarrow> guild_db \<Rightarrow> guild_db option" where
  "insert_application a g =
     (if \<exists>b \<in> set (gd_applications g). same_key a b then None
      else Some (g\<lparr>gd_applications := gd_applications g @ [a]\<rparr>))"

text \<open>\<open>update\<close> of one row by its id; every update sets \<open>updatedAt\<close>.\<close>

definition update_application ::
  "msec \<Rightarrow> id \<Rightarrow> (application_row \<Rightarrow> application_row) \<Rightarrow> guild_db \<Rightarrow> failure + application_row \<times> guild_db" where
  "update_application now aid f g =
     (case find_application g (\<lambda>a. ap_id a = aid) of
        None \<Rightarrow> Inl Uncaught_P2025
      | Some a \<Rightarrow>
          (let b = f a\<lparr>ap_updatedAt := now\<rparr> in
           if \<exists>c \<in> set (gd_applications g). ap_id c \<noteq> aid \<and> same_key b c then Inl Uncaught_P2002
           else Inr (b, g\<lparr>gd_applications := update_where (\<lambda>c. ap_id c = aid) (\<lambda>_. b) (gd_applications g)\<rparr>)))"

fun latest_of :: "application_row list \<Rightarrow> application_row option" where
  \<comment> \<open>\<open>orderBy updatedAt desc\<close>, first row\<close>
  "latest_of [] = None"
| "latest_of (a # as) = (case latest_of as of None \<Rightarrow> Some a
     | Some b \<Rightarrow> (if ap_updatedAt b \<le> ap_updatedAt a then Some a else Some b))"

definition rows_of :: "id \<Rightarrow> id \<Rightarrow> application_status list \<Rightarrow> guild_db \<Rightarrow> application_row list" where
  "rows_of ws user sts g =
     filter (\<lambda>a. ap_ws a = ws \<and> ap_applicant a = user \<and> ap_status a \<in> set sts) (gd_applications g)"

definition APPLICATION_REAPPLY_COOLDOWN_MS :: msec where
  "APPLICATION_REAPPLY_COOLDOWN_MS = 24 * 60 * 60 * 1000"

section \<open>Submitting\<close>

record applicant =
  an_userId :: id
  an_emailVerified :: bool
  an_userEmail :: js_string
  an_ipHash :: "id option"

text \<open>The checks of \<open>submit\<close>; they return the workspace and the hash of the applicant's address.\<close>

definition submit_check ::
  "(js_string \<Rightarrow> js_string) \<Rightarrow> nat \<Rightarrow> msec \<Rightarrow> js_string \<Rightarrow> applicant \<Rightarrow> guild_db \<Rightarrow> error_code + id \<times> id option" where
  "submit_check lc threshold now slug u g =
     (case find (\<lambda>w. w_slug w = slug) (gd_workspaces g) of
        None \<Rightarrow> Inl WORKSPACE_NOT_FOUND
      | Some w \<Rightarrow>
          (if w_deletedAt w \<noteq> None then Inl WORKSPACE_NOT_FOUND
           else if w_joinMode w \<noteq> JOIN_APPLY then Inl APPLICATION_NOT_APPLICABLE
           else if find_guild_member g (w_id w) (an_userId u) \<noteq> None then Inl WORKSPACE_ALREADY_MEMBER
           else if isBanned g (w_id w) (an_userId u) then Inl WORKSPACE_NOT_FOUND
           else bind_res (assertWorkspaceEntryAllowed lc (an_emailVerified u) (an_userEmail u) (w_emailDomains w)) (\<lambda>_.
             bind_res (fst (assertNotIpBlocked threshold (w_id w) (an_userId u) (an_ipHash u) VIA_APPLY now g)) (\<lambda>ip.
               if rows_of (w_id w) (an_userId u) [AP_PENDING] g \<noteq> [] then Inl APPLICATION_PENDING_EXISTS
               else if rows_of (w_id w) (an_userId u) [AP_INTERVIEW] g \<noteq> [] then Inl APPLICATION_PENDING_EXISTS
               else case rows_of (w_id w) (an_userId u) [AP_REJECTED] g of
                 [] \<Rightarrow> Inr (w_id w, ip)
               | r # _ \<Rightarrow> (if now - ap_updatedAt r < APPLICATION_REAPPLY_COOLDOWN_MS
                           then Inl APPLICATION_COOLDOWN else Inr (w_id w, ip))))))"

definition submit_commit ::
  "msec \<Rightarrow> id \<Rightarrow> id \<Rightarrow> id \<Rightarrow> (id \<times> js_string) list \<Rightarrow> id option \<Rightarrow> application_row guild_op" where
  "submit_commit now new_id ws user answers ip g =
     (case latest_of (rows_of ws user [AP_WITHDRAWN, AP_REJECTED] g) of
        Some r \<Rightarrow>
          (case update_application now (ap_id r)
             (\<lambda>a. a\<lparr>ap_status := AP_PENDING, ap_answers := answers, ap_reviewedBy := None, ap_reviewNote := None,
                   ap_interviewChannel := None, ap_ipHash := ip\<rparr>) g of
             Inl Uncaught_P2002 \<Rightarrow> refused APPLICATION_PENDING_EXISTS g
           | Inl e \<Rightarrow> (Inl e, g)
           | Inr (row, g1) \<Rightarrow> (Inr row, outbox_add (MEMBER_APPLICATION_RECEIVED ws (ap_id row) user) g1))
      | None \<Rightarrow>
          (let row = \<lparr>ap_id = new_id, ap_ws = ws, ap_applicant = user, ap_status = AP_PENDING,
                      ap_answers = answers, ap_reviewedBy = None, ap_reviewNote = None,
                      ap_interviewChannel = None, ap_ipHash = ip, ap_createdAt = now, ap_updatedAt = now\<rparr> in
           case insert_application row g of
             None \<Rightarrow> refused APPLICATION_PENDING_EXISTS g
           | Some g1 \<Rightarrow> (Inr row, outbox_add (MEMBER_APPLICATION_RECEIVED ws new_id user) g1)))"

definition submit ::
  "(js_string \<Rightarrow> js_string) \<Rightarrow> nat \<Rightarrow> msec \<Rightarrow> id \<Rightarrow> js_string \<Rightarrow> applicant \<Rightarrow> (id \<times> js_string) list
    \<Rightarrow> application_row guild_op" where
  "submit lc threshold now new_id slug u answers g =
     (case submit_check lc threshold now slug u g of
        Inl e \<Rightarrow> refused e g
      | Inr (ws, ip) \<Rightarrow> submit_commit now new_id ws (an_userId u) answers ip g)"

text \<open>The newest applications first; rows are kept in the order of creation.\<close>

definition application_list :: "id \<Rightarrow> application_status option \<Rightarrow> guild_db \<Rightarrow> application_row list" where
  "application_list ws status g =
     rev (filter (\<lambda>a. ap_ws a = ws \<and> (case status of None \<Rightarrow> True | Some s \<Rightarrow> ap_status a = s)) (gd_applications g))"

definition myApplication :: "id \<Rightarrow> id \<Rightarrow> guild_db \<Rightarrow> application_row option" where
  "myApplication ws user g = latest_of (filter (\<lambda>a. ap_ws a = ws \<and> ap_applicant a = user) (gd_applications g))"

section \<open>Reviewing\<close>

datatype review_action = Approve | Reject | Interview

definition normalizeNote :: "js_string option \<Rightarrow> js_string option" where
  "normalizeNote note = (case note of None \<Rightarrow> None | Some s \<Rightarrow> (if js_trim s = [] then None else Some (js_trim s)))"

definition recordReviewed :: "application_row \<Rightarrow> guild_db \<Rightarrow> guild_db" where
  "recordReviewed a g =
     (if ap_status a \<in> {AP_APPROVED, AP_REJECTED, AP_INTERVIEW}
      then outbox_add (MEMBER_APPLICATION_REVIEWED (ap_ws a) (ap_id a) (ap_applicant a) (ap_status a)
                  (ap_reviewNote a) (ap_interviewChannel a)) g
      else g)"

definition process_check :: "id \<Rightarrow> id \<Rightarrow> workspace_role \<Rightarrow> review_action \<Rightarrow> guild_db \<Rightarrow> error_code + application_row"
where
  "process_check ws aid actorRole act g =
     (if act \<noteq> Reject \<and> ROLE_RANK actorRole < ROLE_RANK ADMIN then Inl APPLICATION_FORBIDDEN
      else case find_application g (\<lambda>a. ap_id a = aid \<and> ap_ws a = ws) of
        None \<Rightarrow> Inl APPLICATION_NOT_FOUND
      | Some a \<Rightarrow> (if ap_status a \<noteq> AP_PENDING \<and> ap_status a \<noteq> AP_INTERVIEW
                   then Inl APPLICATION_INVALID_STATE else Inr a))"

definition approve :: "(workspace_role \<Rightarrow> id) \<Rightarrow> msec \<Rightarrow> application_row \<Rightarrow> id \<Rightarrow> application_row guild_op" where
  "approve gen now a actor g =
     (if isBanned g (ap_ws a) (ap_applicant a) then refused WORKSPACE_NOT_FOUND g
      else case update_application now (ap_id a) (\<lambda>x. x\<lparr>ap_status := AP_APPROVED, ap_reviewedBy := Some actor\<rparr>) g of
        Inl e \<Rightarrow> (Inl e, g)
      | Inr (row, g1) \<Rightarrow>
          (case join_commit gen (ap_ws a) (ap_applicant a) False None (ap_ipHash a) g1 of
             None \<Rightarrow> (Inl Uncaught_Aborted, g)
           | Some g2 \<Rightarrow> (Inr row, recordReviewed row (outbox_add (MEMBER_JOINED (ap_ws a) (ap_applicant a) actor) g2))))"

definition reject_application :: "msec \<Rightarrow> application_row \<Rightarrow> id \<Rightarrow> js_string option \<Rightarrow> application_row guild_op" where
  "reject_application now a actor note g =
     (case update_application now (ap_id a)
        (\<lambda>x. x\<lparr>ap_status := AP_REJECTED, ap_reviewedBy := Some actor, ap_reviewNote := normalizeNote note\<rparr>) g of
        Inl e \<Rightarrow> (Inl e, g)
      | Inr (row, g1) \<Rightarrow> (Inr row, recordReviewed row g1))"

definition interview :: "msec \<Rightarrow> application_row \<Rightarrow> id \<Rightarrow> id \<Rightarrow> application_row guild_op" where
  "interview now a actor channel g =
     (case update_application now (ap_id a)
        (\<lambda>x. x\<lparr>ap_status := AP_INTERVIEW, ap_reviewedBy := Some actor, ap_interviewChannel := Some channel\<rparr>) g of
        Inl e \<Rightarrow> (Inl e, g)
      | Inr (row, g1) \<Rightarrow> (Inr row, recordReviewed row g1))"

definition application_process ::
  "(workspace_role \<Rightarrow> id) \<Rightarrow> msec \<Rightarrow> failure + id \<Rightarrow> id \<Rightarrow> id \<Rightarrow> id \<Rightarrow> workspace_role \<Rightarrow> review_action \<Rightarrow> js_string option
    \<Rightarrow> application_row guild_op" where
  "application_process gen now dm ws aid actor actorRole act note g =
     (case process_check ws aid actorRole act g of
        Inl e \<Rightarrow> refused e g
      | Inr a \<Rightarrow> (case act of
            Approve \<Rightarrow> approve gen now a actor g
          | Reject \<Rightarrow> reject_application now a actor note g
          | Interview \<Rightarrow> (case dm of Inl e \<Rightarrow> (Inl e, g) | Inr channel \<Rightarrow> interview now a actor channel g)))"

definition withdraw :: "msec \<Rightarrow> id \<Rightarrow> id \<Rightarrow> id \<Rightarrow> application_row guild_op" where
  "withdraw now ws aid user g =
     (case find_application g (\<lambda>a. ap_id a = aid \<and> ap_ws a = ws \<and> ap_applicant a = user) of
        None \<Rightarrow> refused APPLICATION_NOT_FOUND g
      | Some a \<Rightarrow>
          (if ap_status a \<noteq> AP_PENDING then refused APPLICATION_INVALID_STATE g
           else case update_application now aid (\<lambda>x. x\<lparr>ap_status := AP_WITHDRAWN\<rparr>) g of
             Inl e \<Rightarrow> (Inl e, g)
           | Inr (row, g1) \<Rightarrow> (Inr row, g1)))"

section \<open>Histories of applications\<close>

text \<open>
  Requests one after the other: submissions with a fresh id, reviews, withdrawals and everything
  that leaves the table alone.
\<close>

inductive app_flow :: "guild_db \<Rightarrow> guild_db \<Rightarrow> bool" where
  other: "gd_applications g' = gd_applications g \<Longrightarrow> app_flow g g'"
| submit: "new_id \<notin> ap_id ` set (gd_applications g) \<Longrightarrow>
    app_flow g (snd (submit lc threshold now new_id slug u answers g))"
| review: "app_flow g (snd (application_process gen now dm ws aid actor r act note g))"
| withdraw: "app_flow g (snd (withdraw now ws aid user g))"

definition open_application :: "application_row \<Rightarrow> bool" where
  "open_application a \<longleftrightarrow> ap_status a \<noteq> AP_APPROVED"

definition same_applicant :: "application_row \<Rightarrow> application_row \<Rightarrow> bool" where
  "same_applicant a b \<longleftrightarrow> ap_ws a = ap_ws b \<and> ap_applicant a = ap_applicant b"

text \<open>Ids and keys are unique, and an applicant has at most one application that is not approved.\<close>

definition applications_ok :: "guild_db \<Rightarrow> bool" where
  "applications_ok g \<longleftrightarrow> distinct (map ap_id (gd_applications g))
     \<and> (\<forall>a \<in> set (gd_applications g). \<forall>b \<in> set (gd_applications g).
          same_applicant a b \<and> (ap_status a = ap_status b \<or> open_application a \<and> open_application b) \<longrightarrow> a = b)"

lemma same_key_iff: "same_key a b \<longleftrightarrow> same_applicant a b \<and> ap_status a = ap_status b"
  by (auto simp: same_key_def same_applicant_def)

lemma latest_of_None [simp]: "latest_of as = None \<longleftrightarrow> as = []"
  by (induction as) (auto split: option.splits)

lemma latest_of_in: "latest_of as = Some a \<Longrightarrow> a \<in> set as"
  by (induction as) (auto split: option.splits if_splits)

lemma applications_unique:
  assumes "applications_ok g" "a \<in> set (gd_applications g)" "b \<in> set (gd_applications g)" "ap_id a = ap_id b"
  shows "a = b"
  using assms distinct_map_unique [of ap_id "gd_applications g" a b] by (simp add: applications_ok_def)

lemma find_application_id:
  assumes "applications_ok g" "a \<in> set (gd_applications g)"
  shows "find_application g (\<lambda>x. ap_id x = ap_id a) = Some a"
proof -
  have "find_application g (\<lambda>x. ap_id x = ap_id a) \<noteq> None"
    using assms(2) by (auto simp: find_application_def find_None_all)
  then obtain b where b: "find_application g (\<lambda>x. ap_id x = ap_id a) = Some b" by blast
  then have "b \<in> set (gd_applications g)" "ap_id b = ap_id a" by (auto simp: find_application_def dest: find_Some_in)
  then have "b = a" using applications_unique [OF assms(1) _ assms(2)] by blast
  with b show ?thesis by simp
qed

lemma find_application_in: "find_application g p = Some a \<Longrightarrow> a \<in> set (gd_applications g) \<and> p a"
  by (auto simp: find_application_def dest: find_Some_in)

text \<open>An update of an open application to an open status never meets the unique key.\<close>

lemma update_open:
  assumes ok: "applications_ok g" and a: "a \<in> set (gd_applications g)" "open_application a"
    and f: "\<And>x. ap_id (f x) = ap_id x \<and> same_applicant (f x) x" "open_application (f a)"
  shows "update_application now (ap_id a) f g = Inr (f a\<lparr>ap_updatedAt := now\<rparr>,
     g\<lparr>gd_applications := update_where (\<lambda>c. ap_id c = ap_id a) (\<lambda>_. f a\<lparr>ap_updatedAt := now\<rparr>) (gd_applications g)\<rparr>)"
proof -
  have "\<not> same_key (f a\<lparr>ap_updatedAt := now\<rparr>) c" if "c \<in> set (gd_applications g)" "ap_id c \<noteq> ap_id a" for c
  proof
    assume "same_key (f a\<lparr>ap_updatedAt := now\<rparr>) c"
    with f have "same_applicant a c" "open_application c"
      by (auto simp: same_key_def same_applicant_def open_application_def)
    with ok a that(1) have "a = c" by (auto simp: applications_ok_def)
    with that(2) show False by simp
  qed
  then show ?thesis by (auto simp: update_application_def find_application_id [OF ok a(1)] Let_def)
qed

lemma applications_ok_update:
  assumes ok: "applications_ok g" and u: "update_application now aid f g = Inr (b, g')"
    and a: "a \<in> set (gd_applications g)" "ap_id a = aid" "open_application a"
    and f: "\<And>x. ap_id (f x) = ap_id x \<and> same_applicant (f x) x"
  shows "applications_ok g'"
proof -
  from u find_application_id [OF ok a(1)] a(2) have b: "b = f a\<lparr>ap_updatedAt := now\<rparr>"
    and g': "gd_applications g' = update_where (\<lambda>c. ap_id c = aid) (\<lambda>_. b) (gd_applications g)"
    and free: "\<And>c. c \<in> set (gd_applications g) \<Longrightarrow> ap_id c \<noteq> aid \<Longrightarrow> \<not> same_key b c"
    by (auto simp: update_application_def Let_def split: if_splits)
  have bid: "ap_id b = aid" "same_applicant b a" using f [of a] a(2) by (auto simp: b same_applicant_def)
  have "map ap_id (gd_applications g') = map ap_id (gd_applications g)"
    using bid(1) by (auto simp: g' update_where_def)
  then have "distinct (map ap_id (gd_applications g'))" using ok by (simp add: applications_ok_def)
  moreover have "x = y" if x: "x \<in> set (gd_applications g')" and y: "y \<in> set (gd_applications g')"
    and s: "same_applicant x y" and st: "ap_status x = ap_status y \<or> open_application x \<and> open_application y" for x y
  proof -
    have other: False if "z \<in> set (gd_applications g)" "ap_id z \<noteq> aid" "same_applicant z b"
      "ap_status z = ap_status b \<or> open_application z \<and> open_application b" for z
    proof -
      have "same_applicant z a" using that(3) bid(2) by (auto simp: same_applicant_def)
      moreover have "z \<noteq> a" using that(2) a(2) by blast
      ultimately have "\<not> open_application z" using ok that(1) a(1,3) by (auto simp: applications_ok_def)
      with that(4) have "same_key b z" using that(3) by (auto simp: same_key_iff same_applicant_def)
      with free that(1,2) show False by blast
    qed
    from x have "x = b \<or> x \<in> set (gd_applications g) \<and> ap_id x \<noteq> aid" by (auto simp: g' set_update_where)
    moreover from y have "y = b \<or> y \<in> set (gd_applications g) \<and> ap_id y \<noteq> aid" by (auto simp: g' set_update_where)
    ultimately show ?thesis using other [of x] other [of y] ok s st
      by (auto simp: applications_ok_def same_applicant_def)
  qed
  ultimately show ?thesis unfolding applications_ok_def by blast
qed

lemma gd_applications_simps [simp]:
  "gd_applications (outbox_add e g) = gd_applications g"
  "gd_applications (audit_record w x act t ip n g) = gd_applications g"
  "gd_applications (recordReviewed a g) = gd_applications g"
  by (simp_all add: outbox_add_def audit_record_def recordReviewed_def)

lemma applications_ok_cong: "gd_applications g' = gd_applications g \<Longrightarrow> applications_ok g \<Longrightarrow> applications_ok g'"
  by (simp add: applications_ok_def)

lemma join_commit_applications: "join_commit gen ws u tmp by ip g = Some g' \<Longrightarrow> gd_applications g' = gd_applications g"
  by (auto simp: join_commit_def join_commit_as_def insert_member_def sync_member_role_def Let_def split: if_splits)

lemma rows_of_in: "a \<in> set (rows_of ws u sts g) \<longleftrightarrow> a \<in> set (gd_applications g) \<and> ap_ws a = ws
    \<and> ap_applicant a = u \<and> ap_status a \<in> set sts"
  by (auto simp: rows_of_def)

lemma keeps_identity [simp]:
  "same_applicant (a\<lparr>ap_status := s, ap_answers := x, ap_reviewedBy := r, ap_reviewNote := n,
     ap_interviewChannel := c, ap_ipHash := i\<rparr>) a"
  "same_applicant (a\<lparr>ap_status := s, ap_reviewedBy := r\<rparr>) a"
  "same_applicant (a\<lparr>ap_status := s, ap_reviewedBy := r, ap_reviewNote := n\<rparr>) a"
  "same_applicant (a\<lparr>ap_status := s, ap_reviewedBy := r, ap_interviewChannel := c\<rparr>) a"
  "same_applicant (a\<lparr>ap_status := s\<rparr>) a"
  "same_applicant (a\<lparr>ap_updatedAt := t\<rparr>) b \<longleftrightarrow> same_applicant a b"
  by (simp_all add: same_applicant_def)

lemma submit_check_free:
  assumes "submit_check lc threshold now slug u g = Inr (ws, ip)"
  shows "rows_of ws (an_userId u) [AP_PENDING, AP_INTERVIEW] g = []"
proof -
  have "rows_of ws (an_userId u) [AP_PENDING] g = [] \<and> rows_of ws (an_userId u) [AP_INTERVIEW] g = []"
    using assms by (auto simp: submit_check_def bind_res_Inr_iff split: option.splits if_splits list.splits)
  then show ?thesis by (auto simp: rows_of_def filter_empty_conv)
qed

lemma submit_commit_ok:
  assumes ok: "applications_ok g" and free: "rows_of ws user [AP_PENDING, AP_INTERVIEW] g = []"
    and new_id: "new_id \<notin> ap_id ` set (gd_applications g)"
  shows "applications_ok (snd (submit_commit now new_id ws user answers ip g))"
proof (cases "latest_of (rows_of ws user [AP_WITHDRAWN, AP_REJECTED] g)")
  case None
  have closed: "\<not> open_application b"
    if "b \<in> set (gd_applications g)" "ap_ws b = ws" "ap_applicant b = user" for b
    using None free that by (cases "ap_status b") (auto simp: rows_of_def filter_empty_conv open_application_def)
  have "applications_ok g'" if "insert_application row g = Some g'" "ap_id row = new_id" "ap_ws row = ws"
    "ap_applicant row = user" "ap_status row = AP_PENDING" for row g'
    using that ok new_id closed
    by (auto simp: insert_application_def applications_ok_def same_applicant_def open_application_def same_key_def
        split: if_splits)
  with None ok show ?thesis
    by (auto simp: submit_commit_def refused_def Let_def split: option.splits intro: applications_ok_cong [OF gd_applications_simps(1)])
next
  case (Some r)
  then have r: "r \<in> set (gd_applications g)" "open_application r"
    using latest_of_in [OF Some] by (auto simp: rows_of_in open_application_def)
  show ?thesis
    using Some ok applications_ok_update [OF ok _ r(1) refl r(2)]
    by (auto simp: submit_commit_def refused_def split: sum.splits prod.splits failure.splits
        intro!: applications_ok_cong [OF gd_applications_simps(1)])
qed

lemma process_check_row:
  assumes "process_check ws aid r act g = Inr a"
  shows "a \<in> set (gd_applications g)" "ap_id a = aid" "ap_ws a = ws" "ap_status a = AP_PENDING \<or> ap_status a = AP_INTERVIEW"
    "open_application a"
  using assms
  by (auto simp: process_check_def open_application_def dest: find_application_in split: if_splits option.splits)

lemma review_ok:
  assumes ok: "applications_ok g"
  shows "applications_ok (snd (application_process gen now dm ws aid actor r act note g))"
proof (cases "process_check ws aid r act g")
  case (Inl e)
  with ok show ?thesis by (simp add: application_process_def refused_def)
next
  case (Inr a)
  note row = process_check_row [OF this]
  note upd = applications_ok_update [OF ok _ row(1) refl row(5)]
  show ?thesis
    using Inr ok upd
    by (auto simp: application_process_def approve_def reject_application_def interview_def refused_def
        split: review_action.splits sum.splits prod.splits option.splits
        intro!: applications_ok_cong [OF gd_applications_simps(1)] applications_ok_cong [OF gd_applications_simps(3)]
        intro: applications_ok_cong [OF join_commit_applications])
qed

lemma withdraw_ok:
  assumes ok: "applications_ok g"
  shows "applications_ok (snd (withdraw now ws aid user g))"
proof (cases "find_application g (\<lambda>a. ap_id a = aid \<and> ap_ws a = ws \<and> ap_applicant a = user)")
  case None
  with ok show ?thesis by (simp add: withdraw_def refused_def)
next
  case (Some a)
  then have a: "a \<in> set (gd_applications g)" "ap_id a = aid" by (auto dest: find_application_in)
  then show ?thesis
    using Some ok applications_ok_update [OF ok _ a]
    by (auto simp: withdraw_def refused_def open_application_def split: sum.splits prod.splits)
qed

lemma app_flow_ok: "app_flow g g' \<Longrightarrow> applications_ok g \<Longrightarrow> applications_ok g'"
proof (induction rule: app_flow.induct)
  case (submit new_id g lc threshold now slug u answers)
  then show ?case
    using submit_commit_ok submit_check_free
    by (fastforce simp: submit_def refused_def split: sum.splits prod.splits)
qed (auto intro: review_ok withdraw_ok applications_ok_cong)

lemma app_reach_ok: "app_flow\<^sup>*\<^sup>* g g' \<Longrightarrow> applications_ok g \<Longrightarrow> applications_ok g'"
  by (induction rule: rtranclp_induct) (auto intro: app_flow_ok)

lemma approve_update:
  assumes ok: "applications_ok g" and a: "a \<in> set (gd_applications g)" "open_application a"
  shows "update_application now (ap_id a) (\<lambda>x. x\<lparr>ap_status := AP_APPROVED, ap_reviewedBy := Some actor\<rparr>) g =
    (let b = a\<lparr>ap_status := AP_APPROVED, ap_reviewedBy := Some actor, ap_updatedAt := now\<rparr> in
     if rows_of (ap_ws a) (ap_applicant a) [AP_APPROVED] g \<noteq> [] then Inl Uncaught_P2002
     else Inr (b, g\<lparr>gd_applications := update_where (\<lambda>c. ap_id c = ap_id a) (\<lambda>_. b) (gd_applications g)\<rparr>))"
proof -
  let ?b = "a\<lparr>ap_status := AP_APPROVED, ap_reviewedBy := Some actor, ap_updatedAt := now\<rparr>"
  have "(\<exists>c \<in> set (gd_applications g). ap_id c \<noteq> ap_id a \<and> same_key ?b c)
      \<longleftrightarrow> rows_of (ap_ws a) (ap_applicant a) [AP_APPROVED] g \<noteq> []"
    using a(2) applications_unique [OF ok _ a(1)]
    by (auto simp: rows_of_def filter_empty_conv same_key_def open_application_def) metis+
  then show ?thesis by (simp add: update_application_def find_application_id [OF ok a(1)] Let_def)
qed

lemma find_member_applications [simp]:
  "find_guild_member (g\<lparr>gd_applications := x\<rparr>) ws u = find_guild_member g ws u"
  by (simp add: find_guild_member_def)

lemma join_commit_None: "join_commit gen ws u tmp by ip g = None \<longleftrightarrow> find_guild_member g ws u \<noteq> None"
  by (auto simp: join_commit_def join_commit_as_def insert_member_def find_guild_member_def find_None_all)

lemma join_commit_joins:
  assumes "join_commit gen ws u tmp by ip g = Some g'"
  shows "\<exists>m \<in> set (gd_members g'). wm_ws m = ws \<and> wm_user m = u \<and> wm_role m = MEMBER \<and> gm_ipHash m = ip"
  using assms by (auto simp: join_commit_def join_commit_as_def insert_member_def split: if_splits)

lemma recordReviewed_members [simp]: "gd_members (recordReviewed a g) = gd_members g"
  by (simp add: recordReviewed_def)

section \<open>Properties\<close>

text \<open>C22: The outcome of a review. In every state that submissions, reviews and withdrawals can reach
  from an empty table, rejecting a reviewable application or inviting to an interview succeeds and
  sets the status. Approving it is refused for a banned applicant; it fails when the applicant
  was approved before, since the unique key holds the old row, and it fails when he became a
  member meanwhile, since the caught violation has aborted the transaction; in all other cases
  it makes him a member with the role MEMBER and the address hash of his submission. Every
  failure leaves the tables as they were.
\<close>

theorem application_review_outcomes:
  assumes "gd_applications g0 = []" and "app_flow\<^sup>*\<^sup>* g0 g" and "process_check ws aid r act g = Inr a"
  shows "case act of
      Reject \<Rightarrow> (\<exists>row g'. application_process gen now dm ws aid actor r act note g = (Inr row, g')
                  \<and> ap_status row = AP_REJECTED \<and> ap_id row = aid)
    | Interview \<Rightarrow> (case dm of Inl e \<Rightarrow> application_process gen now dm ws aid actor r act note g = (Inl e, g)
        | Inr c \<Rightarrow> (\<exists>row g'. application_process gen now dm ws aid actor r act note g = (Inr row, g')
                  \<and> ap_status row = AP_INTERVIEW \<and> ap_id row = aid \<and> ap_interviewChannel row = Some c))
    | Approve \<Rightarrow>
        (if isBanned g ws (ap_applicant a)
         then application_process gen now dm ws aid actor r act note g = (Inl (Domain WORKSPACE_NOT_FOUND), g)
         else if rows_of ws (ap_applicant a) [AP_APPROVED] g \<noteq> []
         then application_process gen now dm ws aid actor r act note g = (Inl Uncaught_P2002, g)
         else if find_guild_member g ws (ap_applicant a) \<noteq> None
         then application_process gen now dm ws aid actor r act note g = (Inl Uncaught_Aborted, g)
         else (\<exists>row g'. application_process gen now dm ws aid actor r act note g = (Inr row, g')
                  \<and> ap_status row = AP_APPROVED
                  \<and> (\<exists>m \<in> set (gd_members g'). wm_ws m = ws \<and> wm_user m = ap_applicant a \<and> wm_role m = MEMBER
                       \<and> gm_ipHash m = ap_ipHash a)))"
proof -
  have "applications_ok g0" using assms(1) by (simp add: applications_ok_def)
  with app_reach_ok [OF assms(2)] have ok: "applications_ok g" by blast
  note row = process_check_row [OF assms(3)]
  show ?thesis
  proof (cases act)
    case Reject
    then show ?thesis
      using update_open [OF ok row(1,5), of "\<lambda>x. x\<lparr>ap_status := AP_REJECTED, ap_reviewedBy := Some actor,
          ap_reviewNote := normalizeNote note\<rparr>" now] assms(3) row(2)
      by (simp add: application_process_def reject_application_def open_application_def)
  next
    case Interview
    then show ?thesis
      using update_open [OF ok row(1,5), of "\<lambda>x. x\<lparr>ap_status := AP_INTERVIEW, ap_reviewedBy := Some actor,
          ap_interviewChannel := Some c\<rparr>" now for c] assms(3) row(2)
      by (simp add: application_process_def interview_def open_application_def split: sum.split)
  next
    case Approve
    show ?thesis
    proof (cases "isBanned g ws (ap_applicant a) \<or> rows_of ws (ap_applicant a) [AP_APPROVED] g \<noteq> []")
      case True
      with Approve approve_update [OF ok row(1,5)] assms(3) row(2,3) show ?thesis
        by (auto simp: application_process_def approve_def refused_def Let_def)
    next
      case False
      let ?b = "a\<lparr>ap_status := AP_APPROVED, ap_reviewedBy := Some actor, ap_updatedAt := now\<rparr>"
      let ?g = "g\<lparr>gd_applications := update_where (\<lambda>c. ap_id c = aid) (\<lambda>_. ?b) (gd_applications g)\<rparr>"
      let ?j = "join_commit gen ws (ap_applicant a) False None (ap_ipHash a) ?g"
      have eq: "application_process gen now dm ws aid actor r act note g =
          (case ?j of None \<Rightarrow> (Inl Uncaught_Aborted, g)
           | Some g2 \<Rightarrow> (Inr ?b, recordReviewed ?b (outbox_add (MEMBER_JOINED ws (ap_applicant a) actor) g2)))"
        using Approve False approve_update [OF ok row(1,5)] assms(3) row(2,3)
        by (simp add: application_process_def approve_def Let_def split: option.split)
      show ?thesis
      proof (cases ?j)
        case None
        with Approve False eq show ?thesis by (simp add: join_commit_None)
      next
        case (Some g2)
        then have "find_guild_member g ws (ap_applicant a) = None"
          using join_commit_None [of gen ws "ap_applicant a" False None "ap_ipHash a" ?g] by simp
        with Approve False eq Some join_commit_joins [OF Some] show ?thesis by simp
      qed
    qed
  qed
qed

definition apply_guild :: guild_db where
  "apply_guild = \<lparr>gd_workspaces = [\<lparr>w_id = ''w'', w_name = [], w_slug = [119], w_description = None,
       w_ownerId = ''o'', w_visibility = VIS_PUBLIC, w_category = None, w_joinMode = JOIN_APPLY,
       w_emailDomains = [], w_defaultChannelId = None, w_deletedAt = None, w_deleteAt = None\<rparr>],
     gd_members = [], gd_roles = [], gd_memberRoles = [], gd_channels = [], gd_bans = [], gd_invites = [],
     gd_applications = [], gd_pendings = [], gd_outbox = [], gd_audit = []\<rparr>"

definition applied_guild :: guild_db where
  "applied_guild = snd (submit (\<lambda>s. s) 5 0 ''a'' [119]
     \<lparr>an_userId = ''u'', an_emailVerified = True, an_userEmail = [], an_ipHash = None\<rparr> [] apply_guild)"

definition applied_row :: application_row where
  "applied_row = \<lparr>ap_id = ''a'', ap_ws = ''w'', ap_applicant = ''u'', ap_status = AP_PENDING, ap_answers = [],
     ap_reviewedBy = None, ap_reviewNote = None, ap_interviewChannel = None, ap_ipHash = None,
     ap_createdAt = 0, ap_updatedAt = 0\<rparr>"

lemma applied_reviewable: "process_check ''w'' ''a'' ADMIN Approve applied_guild = Inr applied_row"
  by code_simp

lemma applied_free: "\<not> isBanned applied_guild ''w'' ''u'' \<and> rows_of ''w'' ''u'' [AP_APPROVED] applied_guild = []
    \<and> find_guild_member applied_guild ''w'' ''u'' = None"
  by code_simp

theorem application_review_outcomes_witness:
  "app_flow\<^sup>*\<^sup>* apply_guild applied_guild
   \<and> (\<exists>row g'. application_process role_literal 1 (Inr ''d'') ''w'' ''a'' ''o'' ADMIN Approve None applied_guild = (Inr row, g')
        \<and> ap_status row = AP_APPROVED
        \<and> (\<exists>m \<in> set (gd_members g'). wm_ws m = ''w'' \<and> wm_user m = ''u'' \<and> wm_role m = MEMBER))"
proof -
  have "app_flow apply_guild applied_guild"
    unfolding applied_guild_def by (rule app_flow.submit) (simp add: apply_guild_def)
  then have reach: "app_flow\<^sup>*\<^sup>* apply_guild applied_guild" by blast
  have "gd_applications apply_guild = []" by (simp add: apply_guild_def)
  from application_review_outcomes [OF this reach applied_reviewable, of role_literal 1 "Inr ''d''" "''o''" None]
    applied_free reach show ?thesis by (auto simp: applied_row_def)
qed

end
