(* ===== verification/Invites.thy ===== *)
theory Invites
  imports Guilds "HOL-Library.Multiset"
begin

text \<open>
  \<open>workspaces/invites/invites.service.ts\<close>: invite links with a limit of uses, and
  \<open>queue/temp-evict.processor.ts\<close>, which removes the members of a temporary invite.

  \<open>accept\<close> is not one transaction: it reads and checks, takes a seat with a compare-and-swap on
  \<open>usedCount\<close>, creates the member in a transaction and gives the seat back when another request
  of the same user was faster. Each part is a definition, \<open>accept\<close> composes them, and \<open>invite_flow\<close>
  interleaves the parts of any number of requests with the other operations.
\<close>

section \<open>Codes and the state of an invite\<close>

definition INVITE_CODE_ALPHABET :: string where
  "INVITE_CODE_ALPHABET = ''ABCDEFGHJKLMNPQRSTUVWXYZabcdefghijkmnopqrstuvwxyz23456789''"

definition INVITE_CODE_LENGTH :: nat where "INVITE_CODE_LENGTH = 8"

text \<open>\<open>draw i\<close> is the result of \<open>randomInt(57)\<close> for the position \<open>i\<close>.\<close>

definition makeCode :: "(nat \<Rightarrow> nat) \<Rightarrow> id" where
  "makeCode draw = map (\<lambda>i. INVITE_CODE_ALPHABET ! draw i) [0..<INVITE_CODE_LENGTH]"

definition usesRemainingOf :: "nat option \<Rightarrow> nat \<Rightarrow> nat option" where
  "usesRemainingOf maxUses usedCount = map_option (\<lambda>n. n - usedCount) maxUses"

definition invite_expired :: "invite_row \<Rightarrow> msec \<Rightarrow> bool" where
  "invite_expired i now = (case inv_expiresAt i of None \<Rightarrow> False | Some t \<Rightarrow> t \<le> now)"

definition invite_exhausted :: "invite_row \<Rightarrow> bool" where
  "invite_exhausted i = (case inv_maxUses i of None \<Rightarrow> False | Some n \<Rightarrow> n \<le> inv_usedCount i)"

definition isActiveInvite :: "invite_row \<Rightarrow> msec \<Rightarrow> bool" where
  "isActiveInvite i now \<longleftrightarrow> inv_revokedAt i = None \<and> \<not> invite_expired i now \<and> \<not> invite_exhausted i"

definition find_invite :: "guild_db \<Rightarrow> id \<Rightarrow> invite_row option" where
  "find_invite g code = find (\<lambda>i. inv_code i = code) (gd_invites g)"

section \<open>Managing invites\<close>

record create_invite_request =
  ci_expiresAt :: "msec option"
  ci_maxUses :: "nat option"
  ci_temporary :: "bool option"

definition new_invite :: "id \<Rightarrow> id \<Rightarrow> create_invite_request \<Rightarrow> id \<times> id \<Rightarrow> invite_row" where
  "new_invite ws by input d =
     \<lparr>inv_id = fst d, inv_ws = ws, inv_code = snd d, inv_createdBy = by,
      inv_expiresAt = ci_expiresAt input, inv_maxUses = ci_maxUses input, inv_usedCount = 0,
      inv_revokedAt = None, inv_temporary = or_default (ci_temporary input) False\<rparr>"

text \<open>
  \<open>draw n\<close> is the id and code generated with \<open>n\<close> attempts left after this one; a taken code is
  the unique violation that leads to the next attempt.
\<close>

fun invite_attempts :: "id \<Rightarrow> id \<Rightarrow> create_invite_request \<Rightarrow> (nat \<Rightarrow> id \<times> id) \<Rightarrow> nat \<Rightarrow> invite_row guild_op" where
  "invite_attempts ws by input draw n g =
     (let i = new_invite ws by input (draw n) in
      if \<exists>x \<in> set (gd_invites g). inv_code x = inv_code i \<or> inv_id x = inv_id i
      then (case n of 0 \<Rightarrow> (Inl Uncaught_P2002, g) | Suc m \<Rightarrow> invite_attempts ws by input draw m g)
      else (Inr i, outbox_add (INVITE_CREATED ws (inv_id i) by) (g\<lparr>gd_invites := gd_invites g @ [i]\<rparr>)))"

declare invite_attempts.simps [simp del]

definition invite_create :: "id \<Rightarrow> id \<Rightarrow> create_invite_request \<Rightarrow> (nat \<Rightarrow> id \<times> id) \<Rightarrow> invite_row guild_op" where
  "invite_create ws by input draw = invite_attempts ws by input draw 2"

text \<open>Moderators see and touch only their own invites.\<close>

definition invite_in_reach :: "id \<Rightarrow> id \<Rightarrow> workspace_role \<Rightarrow> invite_row \<Rightarrow> bool" where
  "invite_in_reach ws actor actorRole i \<longleftrightarrow>
     inv_ws i = ws \<and> (ROLE_RANK actorRole < ROLE_RANK ADMIN \<longrightarrow> inv_createdBy i = actor)"

definition invite_list :: "id \<Rightarrow> id \<Rightarrow> workspace_role \<Rightarrow> msec \<Rightarrow> guild_db
    \<Rightarrow> (invite_row \<times> nat option \<times> bool) list" where
  "invite_list ws actor actorRole now g =
     map (\<lambda>i. (i, usesRemainingOf (inv_maxUses i) (inv_usedCount i), isActiveInvite i now))
       (rev (filter (invite_in_reach ws actor actorRole) (gd_invites g)))"

definition invite_revoke :: "msec \<Rightarrow> id \<Rightarrow> id \<Rightarrow> id \<Rightarrow> workspace_role \<Rightarrow> unit guild_op" where
  "invite_revoke now ws inviteId actor actorRole g =
     (let match = (\<lambda>i. inv_id i = inviteId \<and> invite_in_reach ws actor actorRole i \<and> inv_revokedAt i = None) in
      if \<not> list_ex match (gd_invites g) then refused INVITE_NOT_FOUND g
      else (Inr (), outbox_add (INVITE_REVOKED_EVENT ws inviteId actor)
             (g\<lparr>gd_invites := update_where match (\<lambda>i. i\<lparr>inv_revokedAt := Some now\<rparr>) (gd_invites g)\<rparr>)))"

definition invite_hardDelete :: "msec \<Rightarrow> id \<Rightarrow> id \<Rightarrow> id \<Rightarrow> workspace_role \<Rightarrow> unit guild_op" where
  "invite_hardDelete now ws inviteId actor actorRole g =
     (case find (\<lambda>i. inv_id i = inviteId \<and> invite_in_reach ws actor actorRole i) (gd_invites g) of
        None \<Rightarrow> refused INVITE_NOT_FOUND g
      | Some i \<Rightarrow>
          (Inr (), audit_record ws actor INVITE_DELETED_AUDIT (Some (inv_id i)) None now
             (outbox_add (INVITE_DELETED ws (inv_id i) actor)
               (g\<lparr>gd_invites := delete_where (\<lambda>x. inv_id x = inv_id i) (gd_invites g)\<rparr>))))"

definition invite_preview :: "msec \<Rightarrow> id \<Rightarrow> guild_db
    \<Rightarrow> error_code + js_string \<times> js_string \<times> msec option \<times> nat option" where
  "invite_preview now code g =
     (case find_invite g code of
        None \<Rightarrow> Inl INVITE_NOT_FOUND
      | Some i \<Rightarrow>
         (case find_workspace g (inv_ws i) of
            None \<Rightarrow> Inl INVITE_NOT_FOUND
          | Some w \<Rightarrow>
             (if w_deletedAt w \<noteq> None then Inl INVITE_NOT_FOUND
              else if inv_revokedAt i \<noteq> None then Inl INVITE_REVOKED
              else if invite_expired i now then Inl INVITE_EXPIRED
              else if invite_exhausted i then Inl INVITE_EXHAUSTED
              else Inr (w_name w, w_slug w, inv_expiresAt i, usesRemainingOf (inv_maxUses i) (inv_usedCount i)))))"

section \<open>Accepting an invite\<close>

record joining_user =
  ju_id :: id
  ju_emailVerified :: bool
  ju_email :: js_string
  ju_ipHash :: "id option"

datatype accept_ready = Already workspace_row | Proceed invite_row "id option"

definition accept_check ::
  "(js_string \<Rightarrow> js_string) \<Rightarrow> nat \<Rightarrow> msec \<Rightarrow> id \<Rightarrow> joining_user \<Rightarrow> guild_db
    \<Rightarrow> (error_code + accept_ready) \<times> guild_db" where
  "accept_check lc threshold now code u g =
     (case find_invite g code of
        None \<Rightarrow> (Inl INVITE_NOT_FOUND, g)
      | Some i \<Rightarrow>
          (if inv_revokedAt i \<noteq> None then (Inl INVITE_REVOKED, g)
           else if invite_expired i now then (Inl INVITE_EXPIRED, g)
           else case find_workspace g (inv_ws i) of
             None \<Rightarrow> (Inl INVITE_NOT_FOUND, g)  \<comment> \<open>an invite is deleted with its workspace\<close>
           | Some w \<Rightarrow>
               (if find_guild_member g (inv_ws i) (ju_id u) \<noteq> None then (Inr (Already w), g)
                else if isBanned g (inv_ws i) (ju_id u) then (Inl INVITE_NOT_FOUND, g)
                else case assertWorkspaceEntryAllowed lc (ju_emailVerified u) (ju_email u) (w_emailDomains w) of
                  Inl e \<Rightarrow> (Inl e, g)
                | Inr _ \<Rightarrow>
                    (case assertNotIpBlocked threshold (inv_ws i) (ju_id u) (ju_ipHash u) VIA_INVITE now g of
                       (Inl e, g1) \<Rightarrow> (Inl e, g1)
                     | (Inr ip, g1) \<Rightarrow> (Inr (Proceed i ip), g1)))))"

text \<open>The compare-and-swap: whether a row was updated.\<close>

definition cas_matches :: "msec \<Rightarrow> id \<Rightarrow> invite_row \<Rightarrow> bool" where
  "cas_matches now code i \<longleftrightarrow> inv_code i = code \<and> inv_revokedAt i = None
     \<and> (case inv_expiresAt i of None \<Rightarrow> True | Some t \<Rightarrow> now < t)
     \<and> (case inv_maxUses i of None \<Rightarrow> True | Some n \<Rightarrow> inv_usedCount i < n)"

definition accept_cas :: "msec \<Rightarrow> id \<Rightarrow> guild_db \<Rightarrow> bool \<times> guild_db" where
  "accept_cas now code g =
     (list_ex (cas_matches now code) (gd_invites g),
      g\<lparr>gd_invites := update_where (cas_matches now code) (\<lambda>i. i\<lparr>inv_usedCount := inv_usedCount i + 1\<rparr>)
                        (gd_invites g)\<rparr>)"

definition accept_post :: "msec \<Rightarrow> id \<Rightarrow> guild_db \<Rightarrow> error_code" where
  "accept_post now code g =
     (case find_invite g code of
        None \<Rightarrow> INVITE_NOT_FOUND
      | Some i \<Rightarrow> (if inv_revokedAt i \<noteq> None then INVITE_REVOKED
                   else if invite_expired i now then INVITE_EXPIRED else INVITE_EXHAUSTED))"

text \<open>The transaction; None is the conflict on the primary key of the member.\<close>

definition accept_tx :: "(workspace_role \<Rightarrow> id) \<Rightarrow> invite_row \<Rightarrow> id \<Rightarrow> id option \<Rightarrow> guild_db \<Rightarrow> guild_db option" where
  "accept_tx gen i user ip g =
     map_option (\<lambda>g1. outbox_add (INVITE_ACCEPTED (inv_ws i) (inv_id i) user)
                       (outbox_add (MEMBER_JOINED (inv_ws i) user user) g1))
       (join_commit gen (inv_ws i) user (inv_temporary i) (Some (inv_createdBy i)) ip g)"

definition accept_refund :: "id \<Rightarrow> guild_db \<Rightarrow> guild_db" where
  "accept_refund code g =
     g\<lparr>gd_invites := update_where (\<lambda>i. inv_code i = code \<and> 0 < inv_usedCount i)
         (\<lambda>i. i\<lparr>inv_usedCount := inv_usedCount i - 1\<rparr>) (gd_invites g)\<rparr>"

text \<open>The whole request when nothing runs in between; the result is \<open>alreadyMember\<close>.\<close>

definition invite_accept ::
  "(js_string \<Rightarrow> js_string) \<Rightarrow> (workspace_role \<Rightarrow> id) \<Rightarrow> nat \<Rightarrow> msec \<Rightarrow> id \<Rightarrow> joining_user \<Rightarrow> bool guild_op" where
  "invite_accept lc gen threshold now code u g =
     (case accept_check lc threshold now code u g of
        (Inl e, g1) \<Rightarrow> refused e g1
      | (Inr (Already w), g1) \<Rightarrow> (Inr True, g1)
      | (Inr (Proceed i ip), g1) \<Rightarrow>
          (case accept_cas now code g1 of
             (False, g2) \<Rightarrow> refused (accept_post now code g2) g2
           | (True, g2) \<Rightarrow>
               (case accept_tx gen i (ju_id u) ip g2 of
                  None \<Rightarrow> (Inr True, accept_refund code g2)
                | Some g3 \<Rightarrow> (Inr False, g3))))"

section \<open>Eviction of temporary members\<close>

definition temp_evict :: "nat \<Rightarrow> id \<Rightarrow> id \<Rightarrow> guild_db \<Rightarrow> guild_db" where
  "temp_evict activeSockets ws user g =
     (if 0 < activeSockets then g
      else case find_guild_member g ws user of
        None \<Rightarrow> g
      | Some m \<Rightarrow> (if \<not> gm_isTemporary m then g
                   else outbox_add (MEMBER_TEMP_EXPIRED ws user) (delete_members ws [user] g)))"

section \<open>Interleaved requests\<close>

text \<open>
  A request that passed the checks keeps the row it read (\<open>existing\<close>). \<open>Seated\<close>: its
  compare-and-swap succeeded; \<open>Refunding\<close>: its transaction met the member already there.
  \<open>issued\<close> lists every invite ever created; an id or code of it is not generated again, also
  when the row was deleted. Other operations of the services may change everything but the
  invites and the acceptance events. A request may fail at any point and keep its seat.
\<close>

datatype accept_phase = Checked | Seated | Refunding

record accept_request =
  rq_invite :: invite_row
  rq_user :: joining_user
  rq_ip :: "id option"
  rq_phase :: accept_phase

fun is_acceptance :: "id \<Rightarrow> guild_event \<Rightarrow> bool" where
  "is_acceptance k (INVITE_ACCEPTED w i u) = (i = k)"
| "is_acceptance k _ = False"

definition acceptances :: "id \<Rightarrow> guild_db \<Rightarrow> nat" where
  "acceptances k g = length (filter (is_acceptance k) (gd_outbox g))"

definition holds_seat :: "id \<Rightarrow> accept_request \<Rightarrow> bool" where
  "holds_seat k r \<longleftrightarrow> inv_id (rq_invite r) = k \<and> rq_phase r \<noteq> Checked"

definition seats :: "id \<Rightarrow> accept_request multiset \<Rightarrow> nat" where
  "seats k M = size (filter_mset (holds_seat k) M)"

type_synonym invite_world = "guild_db \<times> accept_request multiset \<times> invite_row list"

inductive invite_flow :: "invite_world \<Rightarrow> invite_world \<Rightarrow> bool" where
  other: "gd_invites g' = gd_invites g \<Longrightarrow> (\<And>k. acceptances k g' = acceptances k g)
    \<Longrightarrow> invite_flow (g, M, issued) (g', M, issued)"
| create: "invite_create ws by input draw g = (Inr i, g') \<Longrightarrow>
    inv_id i \<notin> inv_id ` set issued \<Longrightarrow> inv_code i \<notin> inv_code ` set issued
    \<Longrightarrow> invite_flow (g, M, issued) (g', M, issued @ [i])"
| revoke: "invite_flow (g, M, issued) (snd (invite_revoke now ws k actor r g), M, issued)"
| delete: "invite_flow (g, M, issued) (snd (invite_hardDelete now ws k actor r g), M, issued)"
| check: "accept_check lc threshold now code u g = (Inr (Proceed i ip), g') \<Longrightarrow>
    invite_flow (g, M, issued)
      (g', add_mset \<lparr>rq_invite = i, rq_user = u, rq_ip = ip, rq_phase = Checked\<rparr> M, issued)"
| seat: "rq_phase q = Checked \<Longrightarrow> accept_cas now (inv_code (rq_invite q)) g = (True, g') \<Longrightarrow>
    invite_flow (g, add_mset q M, issued) (g', add_mset (q\<lparr>rq_phase := Seated\<rparr>) M, issued)"
| join: "rq_phase q = Seated \<Longrightarrow> accept_tx gen (rq_invite q) (ju_id (rq_user q)) (rq_ip q) g = Some g' \<Longrightarrow>
    invite_flow (g, add_mset q M, issued) (g', M, issued)"
| conflict: "rq_phase q = Seated \<Longrightarrow> accept_tx gen (rq_invite q) (ju_id (rq_user q)) (rq_ip q) g = None \<Longrightarrow>
    invite_flow (g, add_mset q M, issued) (g, add_mset (q\<lparr>rq_phase := Refunding\<rparr>) M, issued)"
| refund: "rq_phase q = Refunding \<Longrightarrow>
    invite_flow (g, add_mset q M, issued) (accept_refund (inv_code (rq_invite q)) g, M, issued)"
| fail: "invite_flow (g, add_mset q M, issued) (g, M, issued)"

abbreviation invite_reach :: "invite_world \<Rightarrow> invite_world \<Rightarrow> bool" where
  "invite_reach \<equiv> invite_flow\<^sup>*\<^sup>*"

definition same_invite :: "invite_row \<Rightarrow> invite_row \<Rightarrow> bool" where
  "same_invite i j \<longleftrightarrow> inv_id i = inv_id j \<and> inv_code i = inv_code j \<and> inv_maxUses i = inv_maxUses j"

definition taken :: "id \<Rightarrow> guild_db \<Rightarrow> accept_request multiset \<Rightarrow> nat" where
  "taken k g M = acceptances k g + seats k M"

definition within_cap :: "nat \<Rightarrow> nat option \<Rightarrow> bool" where
  "within_cap n limit = (case limit of None \<Rightarrow> True | Some m \<Rightarrow> n \<le> m)"

definition invites_ok :: "invite_world \<Rightarrow> bool" where
  "invites_ok w = (case w of (g, M, issued) \<Rightarrow>
     distinct (map inv_id issued) \<and> distinct (map inv_code issued)
     \<and> distinct (map inv_id (gd_invites g))
     \<and> (\<forall>i \<in> set (gd_invites g). (\<exists>j \<in> set issued. same_invite i j)
          \<and> taken (inv_id i) g M \<le> inv_usedCount i \<and> within_cap (inv_usedCount i) (inv_maxUses i))
     \<and> (\<forall>j \<in> set issued. within_cap (taken (inv_id j) g M) (inv_maxUses j))
     \<and> (\<forall>q \<in># M. \<exists>j \<in> set issued. same_invite (rq_invite q) j)
     \<and> (\<forall>k. acceptances k g \<noteq> 0 \<longrightarrow> k \<in> inv_id ` set issued))"

lemma seats_simps [simp]:
  "seats k {#} = 0"
  "seats k (add_mset q M) = (if holds_seat k q then 1 else 0) + seats k M"
  by (simp_all add: seats_def)

lemma holds_seat_phase [simp]:
  "holds_seat k (q\<lparr>rq_phase := p\<rparr>) \<longleftrightarrow> inv_id (rq_invite q) = k \<and> p \<noteq> Checked"
  "holds_seat k \<lparr>rq_invite = i, rq_user = u, rq_ip = ip, rq_phase = p\<rparr> \<longleftrightarrow> inv_id i = k \<and> p \<noteq> Checked"
  by (auto simp: holds_seat_def)

lemma acceptances_outbox [simp]:
  "acceptances k (outbox_add e g) = (if is_acceptance k e then 1 else 0) + acceptances k g"
  by (simp add: acceptances_def outbox_add_def)

lemma acceptances_upd [simp]:
  "acceptances k (g\<lparr>gd_invites := x\<rparr>) = acceptances k g"
  "acceptances k (audit_record w a act t ip n g) = acceptances k g"
  by (simp_all add: acceptances_def audit_record_def)

lemma gd_invites_simps [simp]:
  "gd_invites (outbox_add e g) = gd_invites g"
  "gd_invites (audit_record w a act t ip n g) = gd_invites g"
  by (simp_all add: outbox_add_def audit_record_def)

lemma within_cap_mono: "within_cap n l \<Longrightarrow> m \<le> n \<Longrightarrow> within_cap m l"
  by (auto simp: within_cap_def split: option.splits)

lemma issued_same:
  assumes "distinct (map inv_id issued)" "distinct (map inv_code issued)"
    and "j \<in> set issued" "same_invite i j" "j' \<in> set issued" "same_invite i' j'"
  shows "inv_code i = inv_code i' \<longleftrightarrow> inv_id i = inv_id i'"
  using assms distinct_map_unique [OF assms(1) assms(3,5)] distinct_map_unique [OF assms(2) assms(3,5)]
  by (auto simp: same_invite_def)

text \<open>The shape every change of the invites has: rows are changed in place and the count of taken
  seats follows.\<close>

lemma invites_ok_update:
  assumes ok: "invites_ok (g, M, issued)"
    and inv: "gd_invites g' = map f (gd_invites g)"
    and f: "\<And>i. i \<in> set (gd_invites g) \<Longrightarrow> same_invite (f i) i \<and> taken (inv_id i) g' M' \<le> inv_usedCount (f i)
               \<and> within_cap (inv_usedCount (f i)) (inv_maxUses i)"
    and gone: "\<And>j. j \<in> set issued \<Longrightarrow> within_cap (taken (inv_id j) g' M') (inv_maxUses j)"
    and reqs: "\<And>q. q \<in># M' \<Longrightarrow> \<exists>j \<in> set issued. same_invite (rq_invite q) j"
    and acc: "\<And>k. acceptances k g' \<noteq> 0 \<Longrightarrow> k \<in> inv_id ` set issued"
  shows "invites_ok (g', M', issued)"
proof -
  have ids: "map inv_id (map f (gd_invites g)) = map inv_id (gd_invites g)"
    using f by (auto simp: same_invite_def)
  have dist: "distinct (map inv_id (gd_invites g'))"
    using ok unfolding inv ids by (simp add: invites_ok_def)
  have rows: "(\<exists>j \<in> set issued. same_invite (f i) j) \<and> taken (inv_id (f i)) g' M' \<le> inv_usedCount (f i)
      \<and> within_cap (inv_usedCount (f i)) (inv_maxUses (f i))" if "i \<in> set (gd_invites g)" for i
  proof -
    from ok that obtain j where "j \<in> set issued" "same_invite i j"
      by (auto simp: invites_ok_def)
    with f [OF that] show ?thesis by (auto simp: same_invite_def)
  qed
  have "\<forall>i \<in> set (gd_invites g'). (\<exists>j \<in> set issued. same_invite i j)
      \<and> taken (inv_id i) g' M' \<le> inv_usedCount i \<and> within_cap (inv_usedCount i) (inv_maxUses i)"
    using rows by (simp add: inv)
  with ok dist gone reqs acc show ?thesis
    unfolding invites_ok_def prod.case by blast
qed

lemma invites_ok_fewer:
  assumes ok: "invites_ok (g, M, issued)" and rows: "gd_invites g' = map f (gd_invites g)"
    and f: "\<And>i. same_invite (f i) i \<and> inv_usedCount (f i) = inv_usedCount i"
    and less: "\<And>k. taken k g' M' \<le> taken k g M"
    and reqs: "\<And>q. q \<in># M' \<Longrightarrow> \<exists>j \<in> set issued. same_invite (rq_invite q) j"
    and acc: "\<And>k. acceptances k g' \<noteq> 0 \<Longrightarrow> k \<in> inv_id ` set issued"
  shows "invites_ok (g', M', issued)"
proof (rule invites_ok_update [OF ok rows])
  fix i assume "i \<in> set (gd_invites g)"
  with ok show "same_invite (f i) i \<and> taken (inv_id i) g' M' \<le> inv_usedCount (f i)
      \<and> within_cap (inv_usedCount (f i)) (inv_maxUses i)"
    using less [of "inv_id i"] f [of i] by (auto simp: invites_ok_def intro: le_trans)
next
  fix j assume "j \<in> set issued"
  with ok less [of "inv_id j"] show "within_cap (taken (inv_id j) g' M') (inv_maxUses j)"
    by (auto simp: invites_ok_def intro: within_cap_mono)
qed (use reqs acc in auto)

lemma invites_ok_reqs: "invites_ok (g, M, issued) \<Longrightarrow> q \<in># M \<Longrightarrow> \<exists>j \<in> set issued. same_invite (rq_invite q) j"
  and invites_ok_acc: "invites_ok (g, M, issued) \<Longrightarrow> acceptances k g \<noteq> 0 \<Longrightarrow> k \<in> inv_id ` set issued"
  by (auto simp: invites_ok_def)

lemma flow_rows:
  assumes "invites_ok (g, M, issued)" "gd_invites g' = map f (gd_invites g)" "\<And>k. acceptances k g' = acceptances k g"
    and "\<And>i. same_invite (f i) i \<and> inv_usedCount (f i) = inv_usedCount i"
  shows "invites_ok (g', M, issued)"
  by (rule invites_ok_fewer [OF assms(1,2,4)])
    (use assms(3) invites_ok_reqs [OF assms(1)] invites_ok_acc [OF assms(1)] in \<open>simp_all add: taken_def\<close>)

lemma flow_other:
  assumes "invites_ok (g, M, issued)" "gd_invites g' = gd_invites g" "\<And>k. acceptances k g' = acceptances k g"
  shows "invites_ok (g', M, issued)"
  by (rule flow_rows [OF assms(1) _ assms(3), where f = "\<lambda>i. i"]) (simp_all add: assms(2) same_invite_def)

lemma invite_attempts_cases:
  assumes "invite_attempts ws by input draw n g = (Inr i, g')"
  shows "g' = outbox_add (INVITE_CREATED ws (inv_id i) by) (g\<lparr>gd_invites := gd_invites g @ [i]\<rparr>) \<and> inv_usedCount i = 0
    \<and> (\<forall>x \<in> set (gd_invites g). inv_code x \<noteq> inv_code i \<and> inv_id x \<noteq> inv_id i)"
  using assms
proof (induction n)
  case 0
  then show ?case
    by (auto simp: invite_attempts.simps [of _ _ _ _ 0] new_invite_def Let_def split: if_splits)
next
  case (Suc n)
  then show ?case
    by (auto simp: invite_attempts.simps [of _ _ _ _ "Suc n"] new_invite_def Let_def split: if_splits)
qed

lemma flow_create:
  assumes ok: "invites_ok (g, M, issued)" and c: "invite_create ws by input draw g = (Inr i, g')"
    and fresh: "inv_id i \<notin> inv_id ` set issued" "inv_code i \<notin> inv_code ` set issued"
  shows "invites_ok (g', M, issued @ [i])"
proof -
  have g': "gd_invites g' = gd_invites g @ [i]" "\<And>k. acceptances k g' = acceptances k g" "inv_usedCount i = 0"
    "inv_id i \<notin> inv_id ` set (gd_invites g)"
    using invite_attempts_cases [OF c [unfolded invite_create_def]] by auto
  have none: "taken (inv_id i) g M = 0"
  proof -
    have "acceptances (inv_id i) g = 0" using invites_ok_acc [OF ok] fresh(1) by blast
    moreover have "\<not> holds_seat (inv_id i) q" if "q \<in># M" for q
      using invites_ok_reqs [OF ok that] fresh(1) by (auto simp: holds_seat_def same_invite_def)
    ultimately show ?thesis by (auto simp: taken_def seats_def filter_mset_eq_conv)
  qed
  have [simp]: "taken k g' M = taken k g M" for k by (simp add: taken_def g'(2))
  from ok fresh none g'(3,4) show ?thesis
    unfolding invites_ok_def prod.case g'(1)
    by (auto simp: within_cap_def same_invite_def g'(2) split: option.splits)
qed

lemma flow_delete:
  assumes ok: "invites_ok (g, M, issued)"
  shows "invites_ok (snd (invite_hardDelete now ws k actor r g), M, issued)"
proof -
  have sub: "invites_ok (g', M, issued)"
    if "gd_invites g' = delete_where p (gd_invites g)" "\<And>k. acceptances k g' = acceptances k g" for g' p
  proof -
    have t: "taken k g' M = taken k g M" for k by (simp add: taken_def that(2))
    have d: "distinct (map inv_id (delete_where p (gd_invites g)))"
      using ok by (auto simp: invites_ok_def delete_where_def intro: distinct_map_filter)
    from ok d show ?thesis
      unfolding invites_ok_def prod.case that(1) t that(2) by (auto simp: set_delete_where)
  qed
  show ?thesis
    by (auto simp: invite_hardDelete_def refused_def ok split: option.split intro!: sub)
qed

lemma flow_revoke:
  assumes ok: "invites_ok (g, M, issued)"
  shows "invites_ok (snd (invite_revoke now ws k actor r g), M, issued)"
proof (cases "fst (invite_revoke now ws k actor r g)")
  case (Inl e)
  then show ?thesis using ok by (auto simp: invite_revoke_def refused_def Let_def split: if_splits)
next
  case (Inr u)
  define f where "f = (\<lambda>i. if inv_id i = k \<and> invite_in_reach ws actor r i \<and> inv_revokedAt i = None
    then i\<lparr>inv_revokedAt := Some now\<rparr> else i)"
  from Inr have "snd (invite_revoke now ws k actor r g)
      = outbox_add (INVITE_REVOKED_EVENT ws k actor) (g\<lparr>gd_invites := map f (gd_invites g)\<rparr>)"
    by (auto simp: invite_revoke_def refused_def Let_def update_where_def f_def split: if_splits)
  then show ?thesis
    by (auto intro!: flow_rows [OF ok, where f = f] simp: f_def same_invite_def)
qed

lemma join_commit_keeps:
  "join_commit gen ws u tmp by ip g = Some g' \<Longrightarrow> gd_invites g' = gd_invites g \<and> gd_outbox g' = gd_outbox g"
  by (auto simp: join_commit_def join_commit_as_def insert_member_def sync_member_role_def Let_def split: if_splits)

lemma accept_tx_keeps:
  assumes "accept_tx gen i u ip g = Some g'"
  shows "gd_invites g' = gd_invites g" "acceptances k g' = (if k = inv_id i then 1 else 0) + acceptances k g"
  using assms by (auto simp: accept_tx_def acceptances_def outbox_add_def dest: join_commit_keeps)

lemma suspicious_keeps:
  "gd_invites (recordSuspiciousJoin t ws u h n g) = gd_invites g"
  "gd_outbox (recordSuspiciousJoin t ws u h n g) = gd_outbox g"
  by (simp_all add: recordSuspiciousJoin_def audit_record_def Let_def)

lemma accept_check_keeps:
  assumes "accept_check lc t n code u g = (Inr (Proceed i ip), g')"
  shows "gd_invites g' = gd_invites g" "gd_outbox g' = gd_outbox g" "i \<in> set (gd_invites g)" "inv_code i = code"
  using assms
  by (auto simp: accept_check_def assertNotIpBlocked_def find_invite_def suspicious_keeps
      dest: find_Some_in split: option.splits if_splits sum.splits prod.splits)

lemma flow_check:
  assumes ok: "invites_ok (g, M, issued)" and c: "accept_check lc t n code u g = (Inr (Proceed i ip), g')"
  shows "invites_ok (g', add_mset \<lparr>rq_invite = i, rq_user = u, rq_ip = ip, rq_phase = Checked\<rparr> M, issued)"
proof -
  note k = accept_check_keeps [OF c]
  from ok k(3) have i: "\<exists>j \<in> set issued. same_invite i j" by (auto simp: invites_ok_def)
  have a: "acceptances j g' = acceptances j g" for j by (simp add: acceptances_def k(2))
  show ?thesis
    by (rule invites_ok_fewer [OF ok, where f = "\<lambda>i. i"])
      (use i k(1) invites_ok_reqs [OF ok] invites_ok_acc [OF ok]
        in \<open>auto simp: taken_def a same_invite_def\<close>)
qed

lemma flow_fail:
  assumes ok: "invites_ok (g, add_mset q M, issued)"
  shows "invites_ok (g, M, issued)"
  by (rule invites_ok_fewer [OF ok, where f = "\<lambda>i. i"])
    (use invites_ok_reqs [OF ok] invites_ok_acc [OF ok] in \<open>auto simp: taken_def same_invite_def\<close>)

lemma flow_conflict:
  assumes ok: "invites_ok (g, add_mset q M, issued)" and "rq_phase q = Seated"
  shows "invites_ok (g, add_mset (q\<lparr>rq_phase := Refunding\<rparr>) M, issued)"
  by (rule invites_ok_fewer [OF ok, where f = "\<lambda>i. i"])
    (use assms(2) invites_ok_reqs [OF ok] invites_ok_acc [OF ok]
      in \<open>auto simp: taken_def same_invite_def holds_seat_def\<close>)

lemma flow_join:
  assumes ok: "invites_ok (g, add_mset q M, issued)" and "rq_phase q = Seated"
    and tx: "accept_tx gen (rq_invite q) u ip g = Some g'"
  shows "invites_ok (g', M, issued)"
proof -
  note k = accept_tx_keeps [OF tx]
  from invites_ok_reqs [OF ok, of q] have "inv_id (rq_invite q) \<in> inv_id ` set issued"
    by (auto simp: same_invite_def)
  then show ?thesis
    by (intro invites_ok_fewer [OF ok, where f = "\<lambda>i. i"])
      (use assms(2) invites_ok_reqs [OF ok] invites_ok_acc [OF ok]
        in \<open>auto simp: taken_def same_invite_def holds_seat_def k split: if_splits\<close>)
qed

text \<open>The rows a request's code selects are the row of its invite.\<close>

lemma request_row:
  assumes ok: "invites_ok (g, add_mset q M, issued)" and i: "i \<in> set (gd_invites g)"
  shows "inv_code i = inv_code (rq_invite q) \<longleftrightarrow> inv_id i = inv_id (rq_invite q)"
proof -
  from ok i obtain j where "j \<in> set issued" "same_invite i j" by (auto simp: invites_ok_def)
  moreover from invites_ok_reqs [OF ok, of q] obtain j' where "j' \<in> set issued" "same_invite (rq_invite q) j'" by auto
  moreover have "distinct (map inv_id issued)" "distinct (map inv_code issued)"
    using ok by (simp_all add: invites_ok_def)
  ultimately show ?thesis using issued_same by blast
qed

lemma flow_seat:
  assumes ok: "invites_ok (g, add_mset q M, issued)" and q: "rq_phase q = Checked"
    and cas: "accept_cas now (inv_code (rq_invite q)) g = (True, g')"
  shows "invites_ok (g', add_mset (q\<lparr>rq_phase := Seated\<rparr>) M, issued)" (is "invites_ok (_, ?M, _)")
proof -
  let ?k = "inv_id (rq_invite q)"
  define f :: "invite_row \<Rightarrow> invite_row" where "f = (\<lambda>i. if cas_matches now (inv_code (rq_invite q)) i
    then i\<lparr>inv_usedCount := inv_usedCount i + 1\<rparr> else i)"
  from cas have g': "gd_invites g' = map f (gd_invites g)" "\<And>k. acceptances k g' = acceptances k g"
    by (auto simp: accept_cas_def update_where_def f_def)
  from cas obtain r where r: "r \<in> set (gd_invites g)" "cas_matches now (inv_code (rq_invite q)) r"
    by (auto simp: accept_cas_def list_ex_iff)
  then have rk: "inv_id r = ?k" using request_row [OF ok r(1)] by (simp add: cas_matches_def)
  have t: "taken k g' ?M = (if k = ?k then 1 else 0) + taken k g (add_mset q M)" for k
    using q by (simp add: taken_def g'(2) holds_seat_def)
  have only: "i = r" if "i \<in> set (gd_invites g)" "inv_id i = ?k" for i
    using ok that r(1) rk distinct_map_unique [of inv_id "gd_invites g" i r] by (simp add: invites_ok_def)
  have room: "within_cap (inv_usedCount r + 1) (inv_maxUses r)"
    using r(2) by (auto simp: cas_matches_def within_cap_def split: option.splits)
  have used: "taken ?k g (add_mset q M) \<le> inv_usedCount r" using ok r(1) rk by (auto simp: invites_ok_def)
  show ?thesis
  proof (rule invites_ok_update [OF ok g'(1)])
    fix i assume i: "i \<in> set (gd_invites g)"
    show "same_invite (f i) i \<and> taken (inv_id i) g' ?M \<le> inv_usedCount (f i)
        \<and> within_cap (inv_usedCount (f i)) (inv_maxUses i)"
    proof (cases "inv_id i = ?k")
      case True
      with only [OF i] r(2) used room rk show ?thesis by (simp add: f_def same_invite_def t)
    next
      case False
      then have "f i = i" using request_row [OF ok i] by (simp add: f_def cas_matches_def)
      with False ok i show ?thesis by (auto simp: t same_invite_def invites_ok_def)
    qed
  next
    fix j assume j: "j \<in> set issued"
    show "within_cap (taken (inv_id j) g' ?M) (inv_maxUses j)"
    proof (cases "inv_id j = ?k")
      case True
      from ok r(1) obtain j' where "j' \<in> set issued" "same_invite r j'" by (auto simp: invites_ok_def)
      with ok j True rk have "inv_maxUses j = inv_maxUses r"
        using distinct_map_unique [of inv_id issued j j'] by (simp add: invites_ok_def same_invite_def)
      with room used True show ?thesis by (auto simp: t intro: within_cap_mono)
    next
      case False
      with ok j show ?thesis by (simp add: t invites_ok_def)
    qed
  qed (use invites_ok_reqs [OF ok] invites_ok_acc [OF ok] g'(2) in auto)
qed

lemma flow_refund:
  assumes ok: "invites_ok (g, add_mset q M, issued)" and q: "rq_phase q = Refunding"
  shows "invites_ok (accept_refund (inv_code (rq_invite q)) g, M, issued)" (is "invites_ok (?g, _, _)")
proof -
  let ?k = "inv_id (rq_invite q)"
  define f :: "invite_row \<Rightarrow> invite_row" where "f = (\<lambda>i. if inv_code i = inv_code (rq_invite q) \<and> 0 < inv_usedCount i
    then i\<lparr>inv_usedCount := inv_usedCount i - 1\<rparr> else i)"
  have g': "gd_invites ?g = map f (gd_invites g)" "\<And>k. acceptances k ?g = acceptances k g"
    by (simp_all add: accept_refund_def update_where_def f_def)
  have t: "taken k g (add_mset q M) = (if k = ?k then 1 else 0) + taken k ?g M" for k
    using q by (simp add: taken_def g'(2) holds_seat_def)
  show ?thesis
  proof (rule invites_ok_update [OF ok g'(1)])
    fix i assume i: "i \<in> set (gd_invites g)"
    with ok have "taken (inv_id i) g (add_mset q M) \<le> inv_usedCount i"
      "within_cap (inv_usedCount i) (inv_maxUses i)" by (auto simp: invites_ok_def)
    then show "same_invite (f i) i \<and> taken (inv_id i) ?g M \<le> inv_usedCount (f i)
        \<and> within_cap (inv_usedCount (f i)) (inv_maxUses i)"
      using request_row [OF ok i] t [of "inv_id i"]
      by (auto simp: f_def same_invite_def intro: within_cap_mono)
  next
    fix j assume "j \<in> set issued"
    with ok have "within_cap (taken (inv_id j) g (add_mset q M)) (inv_maxUses j)" by (simp add: invites_ok_def)
    then show "within_cap (taken (inv_id j) ?g M) (inv_maxUses j)"
      using t [of "inv_id j"] by (auto intro: within_cap_mono)
  qed (use invites_ok_reqs [OF ok] invites_ok_acc [OF ok] g'(2) in auto)
qed

lemma flow_keeps: "invite_flow w w' \<Longrightarrow> invites_ok w \<Longrightarrow> invites_ok w'"
  by (induction rule: invite_flow.induct)
    (auto intro: flow_other flow_create flow_delete flow_revoke flow_check flow_fail flow_conflict flow_join
      flow_seat flow_refund)

lemma reach_keeps: "invite_reach w w' \<Longrightarrow> invites_ok w \<Longrightarrow> invites_ok w'"
  by (induction rule: rtranclp_induct) (auto intro: flow_keeps)

text \<open>Previewing refuses the invite of a deleted workspace, accepting it does not.\<close>

lemma deleted_workspace_still_joined:
  assumes "find_invite g code = Some i" "find_workspace g (inv_ws i) = Some w" "w_deletedAt w = Some d"
    and "inv_revokedAt i = None" "\<not> invite_expired i now" "find_guild_member g (inv_ws i) (ju_id u) = None"
    and "\<not> isBanned g (inv_ws i) (ju_id u)" "ju_emailVerified u" "w_emailDomains w = []" "ju_ipHash u = None"
  shows "invite_preview now code g = Inl INVITE_NOT_FOUND"
    and "accept_check lc threshold now code u g = (Inr (Proceed i None), g)"
  using assms by (simp_all add: invite_preview_def accept_check_def assertWorkspaceEntryAllowed_def assertNotIpBlocked_def)

section \<open>Properties\<close>

text \<open>C20: An invite is never over-used. From tables without invites, let any number of users accept
  invites, their checks, compare-and-swaps, transactions and refunds interleaved in any order with
  each other and with creations, revocations, deletions and everything else the services do, and
  let requests fail at any point: the members an invite let in, together with the requests that hold
  a seat, are never more than its limit, also after the row was deleted; while the row exists its
  counter covers them and stays within the limit.
\<close>

theorem invite_limit_holds:
  assumes "gd_invites g0 = []" "gd_outbox g0 = []"
    and "invite_reach (g0, {#}, []) (g, M, issued)"
    and "i \<in> set issued" "inv_maxUses i = Some n"
  shows "acceptances (inv_id i) g + seats (inv_id i) M \<le> n
    \<and> (\<forall>r \<in> set (gd_invites g). inv_id r = inv_id i \<longrightarrow>
         acceptances (inv_id i) g + seats (inv_id i) M \<le> inv_usedCount r \<and> inv_usedCount r \<le> n)"
proof -
  have "invites_ok (g0, {#}, [])" using assms(1,2) by (simp add: invites_ok_def acceptances_def)
  with reach_keeps [OF assms(3)] have ok: "invites_ok (g, M, issued)" by blast
  have "inv_maxUses r = Some n" if "r \<in> set (gd_invites g)" "inv_id r = inv_id i" for r
  proof -
    from ok that(1) obtain j where "j \<in> set issued" "same_invite r j" by (auto simp: invites_ok_def)
    with ok that(2) assms(4,5) show ?thesis
      using distinct_map_unique [of inv_id issued i j] by (simp add: invites_ok_def same_invite_def)
  qed
  with ok assms(4,5) show ?thesis
    by (auto simp: invites_ok_def taken_def within_cap_def split: option.splits)
qed

definition demo_guild :: guild_db where
  "demo_guild = \<lparr>gd_workspaces = [\<lparr>w_id = ''w'', w_name = [], w_slug = [], w_description = None,
       w_ownerId = ''o'', w_visibility = VIS_PRIVATE, w_category = None, w_joinMode = JOIN_PRIVATE,
       w_emailDomains = [], w_defaultChannelId = None, w_deletedAt = None, w_deleteAt = None\<rparr>],
     gd_members = [], gd_roles = [], gd_memberRoles = [], gd_channels = [], gd_bans = [], gd_invites = [],
     gd_applications = [], gd_pendings = [], gd_outbox = [], gd_audit = []\<rparr>"

definition demo_invite :: invite_row where
  "demo_invite = new_invite ''w'' ''o'' \<lparr>ci_expiresAt = None, ci_maxUses = Some 1, ci_temporary = None\<rparr> (''i'', ''c'')"

definition demo_user :: joining_user where
  "demo_user = \<lparr>ju_id = ''u'', ju_emailVerified = True, ju_email = [], ju_ipHash = None\<rparr>"

definition demo_request :: accept_request where
  "demo_request = \<lparr>rq_invite = demo_invite, rq_user = demo_user, rq_ip = None, rq_phase = Checked\<rparr>"

lemmas demo_defs = demo_guild_def demo_invite_def demo_user_def demo_request_def new_invite_def or_default_def

lemma demo_flow:
  obtains g where "invite_reach (demo_guild, {#}, []) (g, {#}, [demo_invite])" "acceptances ''i'' g = 1"
proof -
  let ?g1 = "outbox_add (INVITE_CREATED ''w'' ''i'' ''o'') (demo_guild\<lparr>gd_invites := [demo_invite]\<rparr>)"
  let ?g2 = "?g1\<lparr>gd_invites := [demo_invite\<lparr>inv_usedCount := 1\<rparr>]\<rparr>"
  have "invite_create ''w'' ''o'' \<lparr>ci_expiresAt = None, ci_maxUses = Some 1, ci_temporary = None\<rparr>
      (\<lambda>n. (''i'', ''c'')) demo_guild = (Inr demo_invite, ?g1)"
    by (simp add: invite_create_def invite_attempts.simps [of _ _ _ _ 2] demo_defs Let_def)
  then have 1: "invite_flow (demo_guild, {#}, []) (?g1, {#}, [] @ [demo_invite])"
    by (rule invite_flow.create) simp_all
  have "accept_check id 5 0 ''c'' demo_user ?g1 = (Inr (Proceed demo_invite None), ?g1)"
    by (simp add: accept_check_def find_invite_def find_workspace_def find_guild_member_def isBanned_def
        assertWorkspaceEntryAllowed_def assertNotIpBlocked_def invite_expired_def outbox_add_def demo_defs)
  then have 2: "invite_flow (?g1, {#}, [demo_invite]) (?g1, {#demo_request#}, [demo_invite])"
    unfolding demo_request_def by (rule invite_flow.check)
  have "accept_cas 0 ''c'' ?g1 = (True, ?g2)"
    by (simp add: accept_cas_def cas_matches_def update_where_def outbox_add_def demo_defs)
  then have 3: "invite_flow (?g1, {#demo_request#}, [demo_invite])
      (?g2, {#demo_request\<lparr>rq_phase := Seated\<rparr>#}, [demo_invite])"
    by (intro invite_flow.seat [where now = 0]) (simp_all add: demo_request_def demo_invite_def new_invite_def)
  obtain g3 where g3: "accept_tx role_literal demo_invite ''u'' None ?g2 = Some g3"
    by (simp add: accept_tx_def join_commit_def join_commit_as_def insert_member_def outbox_add_def demo_defs)
  then have 4: "invite_flow (?g2, {#demo_request\<lparr>rq_phase := Seated\<rparr>#}, [demo_invite]) (g3, {#}, [demo_invite])"
    by (intro invite_flow.join [where gen = role_literal]) (simp_all add: demo_request_def demo_user_def)
  from accept_tx_keeps(2) [OF g3, of "''i''"] have "acceptances ''i'' g3 = 1"
    by (simp add: demo_defs acceptances_def outbox_add_def)
  moreover have "invite_reach (demo_guild, {#}, []) (g3, {#}, [demo_invite])"
    using 1 2 3 4 by (metis (no_types, lifting) append_Nil converse_rtranclp_into_rtranclp rtranclp.rtrancl_refl)
  ultimately show thesis by (rule that [rotated])
qed

theorem invite_limit_holds_witness:
  "\<exists>g. invite_reach (demo_guild, {#}, []) (g, {#}, [demo_invite]) \<and> acceptances ''i'' g = 1
    \<and> acceptances ''i'' g + seats ''i'' {#} \<le> 1"
proof -
  obtain g where g: "invite_reach (demo_guild, {#}, []) (g, {#}, [demo_invite])" "acceptances ''i'' g = 1"
    by (rule demo_flow)
  have "acceptances (inv_id demo_invite) g + seats (inv_id demo_invite) {#} \<le> 1"
    using invite_limit_holds [OF _ _ g(1), of demo_invite 1] by (simp add: demo_defs)
  with g show ?thesis by (auto simp: demo_defs)
qed

end
