(* ===== verification/Pending_Invites.thy ===== *)
theory Pending_Invites
  imports Applications Invites
begin

text \<open>
  \<open>workspaces/pending-invites\<close>: invitations by mail. The token is only in the mail; the row holds
  its hash. \<open>hash\<close> (SHA-256), the generated ids and tokens and \<open>toLowerCase\<close> (\<open>lc\<close>) are arguments,
  the mails an operation sends are part of its result. \<open>opaque_store\<close> is the part of Redis that
  exchanges a token for a short-lived code while the invited person signs up.
\<close>

section \<open>Tokens\<close>

definition normalizeEmail :: "(js_string \<Rightarrow> js_string) \<Rightarrow> js_string \<Rightarrow> js_string" where
  "normalizeEmail lc email = lc (js_trim email)"

datatype accept_branch = UNREGISTERED | SELF_MATCH | OTHER_ACCOUNT

definition decideAcceptBranch ::
  "(js_string \<Rightarrow> js_string) \<Rightarrow> js_string \<Rightarrow> js_string option \<Rightarrow> bool \<Rightarrow> accept_branch" where
  "decideAcceptBranch lc inviteEmail currentUserEmail inviteEmailHasAccount =
     (case currentUserEmail of
        Some e \<Rightarrow> (if normalizeEmail lc e = normalizeEmail lc inviteEmail then SELF_MATCH else OTHER_ACCOUNT)
      | None \<Rightarrow> (if inviteEmailHasAccount then OTHER_ACCOUNT else UNREGISTERED))"

definition EMAIL_INVITE_TTL :: msec where "EMAIL_INVITE_TTL = 30 * 24 * 60 * 60 * 1000"

definition EMAIL_INVITE_OPAQUE_TTL :: msec where "EMAIL_INVITE_OPAQUE_TTL = 10 * 60 * 1000"

type_synonym invite_mail = "js_string \<times> id"  \<comment> \<open>address and token\<close>

record opaque_entry =
  oe_code :: id
  oe_pending :: id
  oe_expires :: msec

type_synonym opaque_store = "opaque_entry list"

definition find_pending :: "guild_db \<Rightarrow> (pending_invite_row \<Rightarrow> bool) \<Rightarrow> pending_invite_row option" where
  "find_pending g p = find p (gd_pendings g)"

definition pending_active :: "pending_invite_row \<Rightarrow> bool" where
  "pending_active p \<longleftrightarrow> pi_acceptedAt p = None \<and> pi_canceledAt p = None"

section \<open>Inviting\<close>

datatype invite_outcome = SENT_PENDING | ADDED_MEMBER | ALREADY_MEMBER | ALREADY_PENDING | FAILED

text \<open>\<open>upsert\<close> on (workspaceId, email); the hash of a token is unique.\<close>

definition upsert_pending :: "pending_invite_row \<Rightarrow> guild_db \<Rightarrow> guild_db option" where
  "upsert_pending p g =
     (let same = (\<lambda>q. pi_ws q = pi_ws p \<and> pi_email q = pi_email p) in
      if \<exists>q \<in> set (gd_pendings g). \<not> same q \<and> pi_tokenHash q = pi_tokenHash p then None
      else if list_ex same (gd_pendings g)
      then Some (g\<lparr>gd_pendings := update_where same
             (\<lambda>q. q\<lparr>pi_role := pi_role p, pi_tokenHash := pi_tokenHash p, pi_invitedBy := pi_invitedBy p,
                   pi_expiresAt := pi_expiresAt p, pi_acceptedAt := None, pi_canceledAt := None,
                   pi_lastSentAt := pi_lastSentAt p\<rparr>) (gd_pendings g)\<rparr>)
      else Some (g\<lparr>gd_pendings := gd_pendings g @ [p]\<rparr>))"

definition direct_add ::
  "(workspace_role \<Rightarrow> id) \<Rightarrow> id \<Rightarrow> id \<Rightarrow> id \<Rightarrow> workspace_role \<Rightarrow> invite_outcome guild_op" where
  "direct_add gen ws by user role g =
     (if find_guild_member g ws user \<noteq> None then (Inr ALREADY_MEMBER, g)
      else if isBanned g ws user then (Inr ALREADY_MEMBER, g)
      else case join_commit_as role (if role = GUEST then GUEST else MEMBER) gen ws user False (Some by) None g of
        None \<Rightarrow> (Inl Uncaught_P2002, g)
      | Some g1 \<Rightarrow> (Inr ADDED_MEMBER, outbox_add (MEMBER_JOINED ws user by) g1))"

text \<open>\<open>user\<close> and \<open>pend\<close> are what the two queries before the loop found for the address.\<close>

definition processOne ::
  "(workspace_role \<Rightarrow> id) \<Rightarrow> (id \<Rightarrow> id) \<Rightarrow> msec \<Rightarrow> id \<Rightarrow> id \<Rightarrow> workspace_role \<Rightarrow> msec \<Rightarrow> id \<times> id \<Rightarrow> js_string
    \<Rightarrow> id option \<Rightarrow> pending_invite_row option \<Rightarrow> guild_db \<Rightarrow> (failure + invite_outcome) \<times> guild_db \<times> invite_mail list"
where
  "processOne gen hash now ws by role expiresAt draw email user pend g =
     (case user of
        Some u \<Rightarrow> (case direct_add gen ws by u role g of (r, g1) \<Rightarrow> (r, g1, []))
      | None \<Rightarrow>
          (if (case pend of None \<Rightarrow> False | Some p \<Rightarrow> pending_active p) then (Inr ALREADY_PENDING, g, [])
           else case upsert_pending \<lparr>pi_id = fst draw, pi_ws = ws, pi_email = email, pi_role = role,
                     pi_tokenHash = hash (snd draw), pi_invitedBy = by, pi_expiresAt = expiresAt,
                     pi_acceptedAt = None, pi_canceledAt = None, pi_lastSentAt = now\<rparr> g of
             None \<Rightarrow> (Inl Uncaught_P2002, g, [])
           | Some g1 \<Rightarrow> (Inr SENT_PENDING, g1, [(email, snd draw)])))"

primrec invite_loop ::
  "(js_string \<Rightarrow> guild_db \<Rightarrow> (failure + invite_outcome) \<times> guild_db \<times> invite_mail list) \<Rightarrow> js_string list \<Rightarrow> guild_db
    \<Rightarrow> (js_string \<times> invite_outcome) list \<times> guild_db \<times> invite_mail list" where
  "invite_loop one [] g = ([], g, [])"
| "invite_loop one (e # es) g =
     (case one e g of (r, g1, ms) \<Rightarrow>
        (case invite_loop one es g1 of (rs, g2, ms2) \<Rightarrow>
           ((e, case r of Inl _ \<Rightarrow> FAILED | Inr out \<Rightarrow> out) # rs, g2, ms @ ms2)))"

definition inviteByEmail ::
  "(js_string \<Rightarrow> js_string) \<Rightarrow> (workspace_role \<Rightarrow> id) \<Rightarrow> (id \<Rightarrow> id) \<Rightarrow> (js_string \<Rightarrow> id option) \<Rightarrow> msec \<Rightarrow> id \<Rightarrow> id
    \<Rightarrow> js_string list \<Rightarrow> workspace_role \<Rightarrow> (js_string \<Rightarrow> id \<times> id) \<Rightarrow> guild_db
    \<Rightarrow> (error_code + (js_string \<times> invite_outcome) list) \<times> guild_db \<times> invite_mail list" where
  "inviteByEmail lc gen hash user_of now ws by emailsRaw role draw g =
     (case find_workspace g ws of
        None \<Rightarrow> (Inl WORKSPACE_NOT_FOUND, g, [])
      | Some w \<Rightarrow>
          (if w_deletedAt w \<noteq> None then (Inl WORKSPACE_NOT_FOUND, g, [])
           else let emails = rev (remdups (rev (map (normalizeEmail lc) emailsRaw)));
                    pend_of = (\<lambda>e. find_pending g (\<lambda>p. pi_ws p = ws \<and> pi_email p = e)) in
             (case invite_loop (\<lambda>e h. processOne gen hash now ws by role (now + EMAIL_INVITE_TTL) (draw e) e
                                       (user_of e) (pend_of e) h) emails g of
                (rs, g1, ms) \<Rightarrow> (Inr rs, g1, ms))))"

section \<open>Accepting\<close>

definition loadActiveByToken :: "(id \<Rightarrow> id) \<Rightarrow> id \<Rightarrow> msec \<Rightarrow> guild_db \<Rightarrow> error_code + pending_invite_row" where
  "loadActiveByToken hash rawToken now g =
     (case find_pending g (\<lambda>p. pi_tokenHash p = hash rawToken) of
        None \<Rightarrow> Inl EMAIL_INVITE_TOKEN_INVALID
      | Some p \<Rightarrow>
          (if pi_canceledAt p \<noteq> None then Inl EMAIL_INVITE_TOKEN_INVALID
           else if pi_acceptedAt p \<noteq> None then Inl EMAIL_INVITE_ALREADY_ACCEPTED
           else if pi_expiresAt p \<le> now then Inl EMAIL_INVITE_EXPIRED else Inr p))"

definition markAccepted :: "id \<Rightarrow> msec \<Rightarrow> guild_db \<Rightarrow> guild_db" where
  "markAccepted pid now g =
     g\<lparr>gd_pendings := update_where (\<lambda>p. pi_id p = pid \<and> pending_active p) (\<lambda>p. p\<lparr>pi_acceptedAt := Some now\<rparr>)
                        (gd_pendings g)\<rparr>"

datatype pending_ready = Pending_Member | Pending_Join "id option"

definition accept_pending_check ::
  "(js_string \<Rightarrow> js_string) \<Rightarrow> nat \<Rightarrow> pending_invite_row \<Rightarrow> joining_user \<Rightarrow> msec \<Rightarrow> guild_db
    \<Rightarrow> (error_code + pending_ready) \<times> guild_db" where
  "accept_pending_check lc threshold p u now g =
     (if normalizeEmail lc (ju_email u) \<noteq> pi_email p then (Inl EMAIL_INVITE_EMAIL_MISMATCH, g)
      else if pi_role p \<noteq> MEMBER \<and> pi_role p \<noteq> GUEST then (Inl EMAIL_INVITE_ROLE_MISMATCH, g)
      else case find_workspace g (pi_ws p) of
        None \<Rightarrow> (Inl WORKSPACE_NOT_FOUND, g)
      | Some w \<Rightarrow>
          (if w_deletedAt w \<noteq> None then (Inl WORKSPACE_NOT_FOUND, g)
           else if find_guild_member g (pi_ws p) (ju_id u) \<noteq> None
           then (Inr Pending_Member, markAccepted (pi_id p) now g)
           else if isBanned g (pi_ws p) (ju_id u) then (Inl EMAIL_INVITE_TOKEN_INVALID, g)
           else case assertWorkspaceEntryAllowed lc (ju_emailVerified u) (ju_email u) (w_emailDomains w) of
             Inl e \<Rightarrow> (Inl e, g)
           | Inr _ \<Rightarrow>
               (case assertNotIpBlocked threshold (pi_ws p) (ju_id u) (ju_ipHash u) VIA_INVITE now g of
                  (Inl e, g1) \<Rightarrow> (Inl e, g1)
                | (Inr ip, g1) \<Rightarrow> (Inr (Pending_Join ip), g1))))"

text \<open>The transaction with its compare-and-swap on \<open>acceptedAt\<close>; a failure rolls it back.\<close>

definition accept_pending_tx ::
  "(workspace_role \<Rightarrow> id) \<Rightarrow> pending_invite_row \<Rightarrow> id \<Rightarrow> id option \<Rightarrow> msec \<Rightarrow> unit guild_op" where
  "accept_pending_tx gen p user ip now g =
     (if \<not> list_ex (\<lambda>q. pi_id q = pi_id p \<and> pending_active q) (gd_pendings g)
      then refused EMAIL_INVITE_ALREADY_ACCEPTED g
      else case join_commit_as (pi_role p) (if pi_role p = GUEST then GUEST else MEMBER) gen (pi_ws p) user False
                  (Some (pi_invitedBy p)) ip (markAccepted (pi_id p) now g) of
        None \<Rightarrow> (Inl Uncaught_P2002, g)
      | Some g1 \<Rightarrow> (Inr (), outbox_add (MEMBER_JOINED (pi_ws p) user user) g1))"

definition acceptPending ::
  "(js_string \<Rightarrow> js_string) \<Rightarrow> (workspace_role \<Rightarrow> id) \<Rightarrow> nat \<Rightarrow> pending_invite_row \<Rightarrow> joining_user \<Rightarrow> msec \<Rightarrow> bool guild_op"
where
  "acceptPending lc gen threshold p u now g =
     (case accept_pending_check lc threshold p u now g of
        (Inl e, g1) \<Rightarrow> refused e g1
      | (Inr Pending_Member, g1) \<Rightarrow> (Inr True, g1)
      | (Inr (Pending_Join ip), g1) \<Rightarrow>
          (case accept_pending_tx gen p (ju_id u) ip now g1 of
             (Inl Uncaught_P2002, g2) \<Rightarrow> (Inr True, markAccepted (pi_id p) now g2)
           | (Inl e, g2) \<Rightarrow> (Inl e, g2)
           | (Inr _, g2) \<Rightarrow> (Inr False, g2)))"

definition acceptByToken ::
  "(js_string \<Rightarrow> js_string) \<Rightarrow> (workspace_role \<Rightarrow> id) \<Rightarrow> (id \<Rightarrow> id) \<Rightarrow> nat \<Rightarrow> id \<Rightarrow> joining_user \<Rightarrow> msec \<Rightarrow> bool guild_op"
where
  "acceptByToken lc gen hash threshold rawToken u now g =
     (case loadActiveByToken hash rawToken now g of
        Inl e \<Rightarrow> refused e g | Inr p \<Rightarrow> acceptPending lc gen threshold p u now g)"

definition exchangeToken ::
  "(id \<Rightarrow> id) \<Rightarrow> id \<Rightarrow> id \<Rightarrow> msec \<Rightarrow> guild_db \<Rightarrow> opaque_store \<Rightarrow> (error_code + id \<times> js_string \<times> msec) \<times> opaque_store"
where
  "exchangeToken hash rawToken opaqueCode now g r =
     (case loadActiveByToken hash rawToken now g of
        Inl e \<Rightarrow> (Inl e, r)
      | Inr p \<Rightarrow> (Inr (opaqueCode, pi_email p, now + EMAIL_INVITE_OPAQUE_TTL),
          \<lparr>oe_code = opaqueCode, oe_pending = pi_id p, oe_expires = now + EMAIL_INVITE_OPAQUE_TTL\<rparr>
            # delete_where (\<lambda>e. oe_code e = opaqueCode) r))"

definition acceptByOpaque ::
  "(js_string \<Rightarrow> js_string) \<Rightarrow> (workspace_role \<Rightarrow> id) \<Rightarrow> nat \<Rightarrow> id \<Rightarrow> joining_user \<Rightarrow> msec \<Rightarrow> guild_db \<times> opaque_store
    \<Rightarrow> (failure + bool) \<times> guild_db \<times> opaque_store" where
  "acceptByOpaque lc gen threshold opaqueCode u now = (\<lambda>(g, r).
     (case find (\<lambda>x. oe_code x = opaqueCode \<and> now < oe_expires x) r of
        None \<Rightarrow> (Inl (Domain EMAIL_INVITE_EXPIRED), g, r)
      | Some e \<Rightarrow>
          (let spent = delete_where (\<lambda>e. oe_code e = opaqueCode) r in
           case find_pending g (\<lambda>p. pi_id p = oe_pending e) of
             None \<Rightarrow> (Inl (Domain EMAIL_INVITE_TOKEN_INVALID), g, spent)
           | Some p \<Rightarrow>
               (if pi_canceledAt p \<noteq> None then (Inl (Domain EMAIL_INVITE_TOKEN_INVALID), g, spent)
                else if pi_acceptedAt p \<noteq> None then (Inl (Domain EMAIL_INVITE_ALREADY_ACCEPTED), g, spent)
                else if pi_expiresAt p \<le> now then (Inl (Domain EMAIL_INVITE_EXPIRED), g, spent)
                else case acceptPending lc gen threshold p u now g of (res, g1) \<Rightarrow> (res, g1, spent)))))"

section \<open>Managing\<close>

definition listPending :: "id \<Rightarrow> msec \<Rightarrow> guild_db \<Rightarrow> (pending_invite_row \<times> bool) list" where
  "listPending ws now g =
     map (\<lambda>p. (p, pi_expiresAt p \<le> now)) (rev (filter (\<lambda>p. pi_ws p = ws \<and> pending_active p) (gd_pendings g)))"

definition active_in :: "id \<Rightarrow> id \<Rightarrow> pending_invite_row \<Rightarrow> bool" where
  "active_in ws pid p \<longleftrightarrow> pi_id p = pid \<and> pi_ws p = ws \<and> pending_active p"

definition update_active ::
  "id \<Rightarrow> id \<Rightarrow> (pending_invite_row \<Rightarrow> pending_invite_row) \<Rightarrow> unit guild_op" where
  "update_active ws pid f g =
     (if \<not> list_ex (active_in ws pid) (gd_pendings g) then refused EMAIL_INVITE_NOT_FOUND g
      else (Inr (), g\<lparr>gd_pendings := update_where (active_in ws pid) f (gd_pendings g)\<rparr>))"

definition extendPending :: "id \<Rightarrow> id \<Rightarrow> msec \<Rightarrow> unit guild_op" where
  "extendPending ws pid now = update_active ws pid (\<lambda>p. p\<lparr>pi_expiresAt := now + EMAIL_INVITE_TTL\<rparr>)"

definition cancelPending :: "id \<Rightarrow> id \<Rightarrow> msec \<Rightarrow> unit guild_op" where
  "cancelPending ws pid now = update_active ws pid (\<lambda>p. p\<lparr>pi_canceledAt := Some now\<rparr>)"

definition resendPending ::
  "(id \<Rightarrow> id) \<Rightarrow> id \<Rightarrow> id \<Rightarrow> msec \<Rightarrow> id \<Rightarrow> guild_db \<Rightarrow> (failure + unit) \<times> guild_db \<times> invite_mail list" where
  "resendPending hash ws pid now rawToken g =
     (case find_pending g (active_in ws pid) of
        None \<Rightarrow> (Inl (Domain EMAIL_INVITE_NOT_FOUND), g, [])
      | Some p \<Rightarrow>
          (if \<exists>q \<in> set (gd_pendings g). pi_id q \<noteq> pi_id p \<and> pi_tokenHash q = hash rawToken
           then (Inl Uncaught_P2002, g, [])
           else (Inr (), g\<lparr>gd_pendings := update_where (\<lambda>q. pi_id q = pi_id p)
                    (\<lambda>q. q\<lparr>pi_tokenHash := hash rawToken, pi_expiresAt := now + EMAIL_INVITE_TTL, pi_lastSentAt := now\<rparr>)
                    (gd_pendings g)\<rparr>, [(pi_email p, rawToken)])))"

section \<open>Histories\<close>

text \<open>
  Everything that may happen to the invitations, the parts of an acceptance interleaved; \<open>h\<close> is
  the hash of a token that is not generated again (256 random bits).
\<close>

inductive mail_flow :: "(id \<Rightarrow> id) \<Rightarrow> id \<Rightarrow> guild_db \<Rightarrow> guild_db \<Rightarrow> bool" for hash h where
  other: "gd_pendings g' = gd_pendings g \<Longrightarrow> mail_flow hash h g g'"
| invite: "hash (snd draw) \<noteq> h \<Longrightarrow>
    mail_flow hash h g (fst (snd (processOne gen hash now ws by role due draw email user pend g)))"
| mark: "mail_flow hash h g (markAccepted pid now g)"
| accept: "mail_flow hash h g (snd (accept_pending_tx gen p user ip now g))"
| extend: "mail_flow hash h g (snd (extendPending ws pid now g))"
| cancel: "mail_flow hash h g (snd (cancelPending ws pid now g))"
| resend: "hash token \<noteq> h \<Longrightarrow> mail_flow hash h g (fst (snd (resendPending hash ws pid now token g)))"

definition spent :: "id \<Rightarrow> guild_db \<Rightarrow> bool" where
  "spent h g \<longleftrightarrow> (\<forall>p \<in> set (gd_pendings g). pi_tokenHash p = h \<longrightarrow> \<not> pending_active p)"

text \<open>The keys of the table: ids and hashes.\<close>

definition pendings_keyed :: "guild_db \<Rightarrow> bool" where
  "pendings_keyed g \<longleftrightarrow> distinct (map pi_id (gd_pendings g)) \<and> distinct (map pi_tokenHash (gd_pendings g))"

lemma gd_pendings_simps [simp]:
  "gd_pendings (outbox_add e g) = gd_pendings g"
  by (simp add: outbox_add_def)

lemma join_as_pendings: "join_commit_as r s gen ws u tmp by ip g = Some g' \<Longrightarrow> gd_pendings g' = gd_pendings g"
  by (auto simp: join_commit_as_def insert_member_def sync_member_role_def Let_def split: if_splits)

lemma spent_update:
  assumes "spent h g" "gd_pendings g' = update_where s f (gd_pendings g)"
    and "\<And>p. p \<in> set (gd_pendings g) \<Longrightarrow> s p \<Longrightarrow> pi_tokenHash (f p) = h \<Longrightarrow>
      pi_tokenHash p = h \<and> (pending_active (f p) \<longrightarrow> pending_active p)"
  shows "spent h g'"
  using assms by (fastforce simp: spent_def set_update_where)

lemma spent_cong: "gd_pendings g' = gd_pendings g \<Longrightarrow> spent h g \<Longrightarrow> spent h g'"
  by (simp add: spent_def)

lemma pending_active_simps [simp]:
  "pending_active (p\<lparr>pi_acceptedAt := Some t\<rparr>) \<longleftrightarrow> False"
  "pending_active (p\<lparr>pi_canceledAt := Some t\<rparr>) \<longleftrightarrow> False"
  "pending_active (p\<lparr>pi_expiresAt := x\<rparr>) \<longleftrightarrow> pending_active p"
  by (simp_all add: pending_active_def)

lemma spent_mark: "spent h g \<Longrightarrow> spent h (markAccepted pid now g)"
  by (auto simp: markAccepted_def spent_def set_update_where)

lemma spent_tx:
  assumes "spent h g"
  shows "spent h (snd (accept_pending_tx gen p user ip now g))"
proof (cases "join_commit_as (pi_role p) (if pi_role p = GUEST then GUEST else MEMBER) gen (pi_ws p) user False
    (Some (pi_invitedBy p)) ip (markAccepted (pi_id p) now g)")
  case None
  with assms show ?thesis unfolding accept_pending_tx_def by (simp add: refused_def)
next
  case (Some g1)
  from join_as_pendings [OF Some] have "spent h (outbox_add (MEMBER_JOINED (pi_ws p) user user) g1)"
    by (intro spent_cong [OF _ spent_mark [OF assms]]) simp
  with Some assms show ?thesis unfolding accept_pending_tx_def by (simp add: refused_def)
qed

lemma spent_invite:
  assumes "spent h g" "hash (snd draw) \<noteq> h"
  shows "spent h (fst (snd (processOne gen hash now ws by role due draw email user pend g)))"
proof (cases user)
  case (Some u)
  have "gd_pendings (snd (direct_add gen ws by u role g)) = gd_pendings g"
    by (auto simp: direct_add_def dest: join_as_pendings split: option.split)
  with Some assms(1) show ?thesis by (auto simp: processOne_def split: prod.split intro: spent_cong)
next
  case None
  have "spent h g'" if "upsert_pending p g = Some g'" "pi_tokenHash p \<noteq> h" for p g'
    using that assms(1)
    by (auto simp: upsert_pending_def Let_def spent_def set_update_where split: if_splits)
  with None assms show ?thesis by (auto simp: processOne_def split: option.split)
qed

lemma spent_flow: "mail_flow hash h g g' \<Longrightarrow> spent h g \<Longrightarrow> spent h g'"
proof (induction rule: mail_flow.induct)
  case (other g' g)
  then show ?case by (rule spent_cong)
next
  case (invite draw g gen now ws "by" role due email user pend)
  then show ?case by (simp add: spent_invite)
next
  case (mark g pid now)
  then show ?case by (rule spent_mark)
next
  case (accept g gen p user ip now)
  then show ?case by (rule spent_tx)
next
  case (extend g ws pid now)
  then show ?case
    by (auto simp: extendPending_def update_active_def refused_def intro: spent_update)
next
  case (cancel g ws pid now)
  then show ?case
    by (auto simp: cancelPending_def update_active_def refused_def intro: spent_update)
next
  case (resend token g ws pid now)
  then show ?case
    by (auto simp: resendPending_def intro: spent_update split: option.split)
qed

lemma spent_reach: "(mail_flow hash h)\<^sup>*\<^sup>* g g' \<Longrightarrow> spent h g \<Longrightarrow> spent h g'"
  by (induction rule: rtranclp_induct) (auto intro: spent_flow)

lemma spent_refuses:
  assumes "spent (hash tok) g"
  shows "acceptByToken lc gen hash th tok u now g
      \<in> {(Inl (Domain EMAIL_INVITE_ALREADY_ACCEPTED), g), (Inl (Domain EMAIL_INVITE_TOKEN_INVALID), g)}"
  using assms
  by (auto simp: acceptByToken_def loadActiveByToken_def find_pending_def spent_def pending_active_def refused_def
      dest: find_Some_in split: option.splits)

lemma load_row:
  assumes "loadActiveByToken hash tok now g = Inr p"
  shows "p \<in> set (gd_pendings g)" "pi_tokenHash p = hash tok" "pending_active p" "now < pi_expiresAt p"
  using assms
  by (auto simp: loadActiveByToken_def find_pending_def pending_active_def dest: find_Some_in split: option.splits if_splits)

lemma suspicious_pendings: "gd_pendings (recordSuspiciousJoin t ws u h n g) = gd_pendings g"
  by (simp add: recordSuspiciousJoin_def audit_record_def Let_def)

lemma entry_verified: "assertWorkspaceEntryAllowed lc v e ds = Inr x \<Longrightarrow> v"
  by (auto simp: assertWorkspaceEntryAllowed_def split: if_splits)

lemma check_join:
  assumes "accept_pending_check lc th p u now g = (Inr (Pending_Join ip), g')"
  shows "normalizeEmail lc (ju_email u) = pi_email p" "pi_role p = MEMBER \<or> pi_role p = GUEST"
    "\<not> isBanned g (pi_ws p) (ju_id u)" "ju_emailVerified u" "gd_pendings g' = gd_pendings g"
  using assms
  by (auto simp: accept_pending_check_def assertNotIpBlocked_def suspicious_pendings dest: entry_verified
      split: if_splits option.splits sum.splits prod.splits)

lemma acceptPending_joins:
  assumes "acceptPending lc gen th p u now g = (Inr False, g1)"
  obtains ip g0 where "accept_pending_check lc th p u now g = (Inr (Pending_Join ip), g0)"
    "accept_pending_tx gen p (ju_id u) ip now g0 = (Inr (), g1)"
  using assms
  by (auto simp: acceptPending_def refused_def split: sum.splits prod.splits pending_ready.splits failure.splits)

lemma tx_effect:
  assumes "accept_pending_tx gen p user ip now g = (Inr (), g1)"
  shows "gd_pendings g1 = gd_pendings (markAccepted (pi_id p) now g)"
    "\<exists>m \<in> set (gd_members g1). wm_ws m = pi_ws p \<and> wm_user m = user \<and> wm_role m = pi_role p \<and> gm_invitedBy m = Some (pi_invitedBy p)"
proof -
  obtain g2 where g2: "join_commit_as (pi_role p) (if pi_role p = GUEST then GUEST else MEMBER) gen (pi_ws p) user False
      (Some (pi_invitedBy p)) ip (markAccepted (pi_id p) now g) = Some g2"
    "g1 = outbox_add (MEMBER_JOINED (pi_ws p) user user) g2"
    using assms unfolding accept_pending_tx_def refused_def by (auto split: if_splits option.splits)
  show "gd_pendings g1 = gd_pendings (markAccepted (pi_id p) now g)"
    using join_as_pendings [OF g2(1)] g2(2) by simp
  show "\<exists>m \<in> set (gd_members g1). wm_ws m = pi_ws p \<and> wm_user m = user \<and> wm_role m = pi_role p
      \<and> gm_invitedBy m = Some (pi_invitedBy p)"
    using g2 by (auto simp: join_commit_as_def insert_member_def split: if_splits)
qed

section \<open>Properties\<close>

text \<open>C21: A mailed invitation is personal and is used once. Whoever joins with a token has the verified
  address the mail was sent to, is not banned, holds the token of an active, unexpired row and
  becomes a member with the role of that row, MEMBER or GUEST. And whatever happens to the
  invitations afterwards, acceptances of others interleaved, renewals and new invitations with new
  tokens included, that token is refused to everyone from then on.
\<close>

theorem mailed_invitation_is_personal:
  assumes keyed: "pendings_keyed g" and acc: "acceptByToken lc gen hash th tok u now g = (Inr False, g1)"
  shows "(\<exists>p \<in> set (gd_pendings g). pi_tokenHash p = hash tok \<and> pending_active p \<and> now < pi_expiresAt p
      \<and> normalizeEmail lc (ju_email u) = pi_email p \<and> ju_emailVerified u \<and> \<not> isBanned g (pi_ws p) (ju_id u)
      \<and> (pi_role p = MEMBER \<or> pi_role p = GUEST)
      \<and> (\<exists>m \<in> set (gd_members g1). wm_ws m = pi_ws p \<and> wm_user m = ju_id u \<and> wm_role m = pi_role p))
    \<and> (\<forall>g2 gen2 u2 now2. (mail_flow hash (hash tok))\<^sup>*\<^sup>* g1 g2 \<longrightarrow>
         fst (acceptByToken lc gen2 hash th tok u2 now2 g2)
           \<in> {Inl (Domain EMAIL_INVITE_ALREADY_ACCEPTED), Inl (Domain EMAIL_INVITE_TOKEN_INVALID)})"
proof -
  from acc obtain p where load: "loadActiveByToken hash tok now g = Inr p"
    and pend: "acceptPending lc gen th p u now g = (Inr False, g1)"
    by (auto simp: acceptByToken_def refused_def split: sum.splits)
  note row = load_row [OF load]
  from acceptPending_joins [OF pend] obtain ip g0
    where check: "accept_pending_check lc th p u now g = (Inr (Pending_Join ip), g0)"
    and tx: "accept_pending_tx gen p (ju_id u) ip now g0 = (Inr (), g1)" .
  note c = check_join [OF check] and t = tx_effect [OF tx]
  have "spent (hash tok) (markAccepted (pi_id p) now g0)"
  proof -
    have "q = p" if "q \<in> set (gd_pendings g)" "pi_tokenHash q = hash tok" for q
      using keyed that row(1,2) distinct_map_unique [of pi_tokenHash "gd_pendings g" q p] by (simp add: pendings_keyed_def)
    then show ?thesis by (auto simp: spent_def markAccepted_def set_update_where c(5) row(3))
  qed
  then have "spent (hash tok) g1" using t(1) by (rule spent_cong [rotated])
  then have later: "fst (acceptByToken lc gen2 hash th tok u2 now2 g2)
      \<in> {Inl (Domain EMAIL_INVITE_ALREADY_ACCEPTED), Inl (Domain EMAIL_INVITE_TOKEN_INVALID)}"
    if "(mail_flow hash (hash tok))\<^sup>*\<^sup>* g1 g2" for g2 gen2 u2 now2
    using spent_refuses [of hash tok g2 lc gen2 th u2 now2] spent_reach [OF that] by auto
  from t(2) have "\<exists>m \<in> set (gd_members g1). wm_ws m = pi_ws p \<and> wm_user m = ju_id u \<and> wm_role m = pi_role p"
    by blast
  with row c(1-4) have "pi_tokenHash p = hash tok \<and> pending_active p \<and> now < pi_expiresAt p
      \<and> normalizeEmail lc (ju_email u) = pi_email p \<and> ju_emailVerified u \<and> \<not> isBanned g (pi_ws p) (ju_id u)
      \<and> (pi_role p = MEMBER \<or> pi_role p = GUEST)
      \<and> (\<exists>m \<in> set (gd_members g1). wm_ws m = pi_ws p \<and> wm_user m = ju_id u \<and> wm_role m = pi_role p)"
    by simp
  then have "\<exists>p \<in> set (gd_pendings g). pi_tokenHash p = hash tok \<and> pending_active p \<and> now < pi_expiresAt p
      \<and> normalizeEmail lc (ju_email u) = pi_email p \<and> ju_emailVerified u \<and> \<not> isBanned g (pi_ws p) (ju_id u)
      \<and> (pi_role p = MEMBER \<or> pi_role p = GUEST)
      \<and> (\<exists>m \<in> set (gd_members g1). wm_ws m = pi_ws p \<and> wm_user m = ju_id u \<and> wm_role m = pi_role p)"
    using row(1) by (rule bexI)
  then show ?thesis by (rule conjI) (intro allI impI later)
qed

definition mail_guild :: guild_db where
  "mail_guild = \<lparr>gd_workspaces = [\<lparr>w_id = ''w'', w_name = [], w_slug = [119], w_description = None,
       w_ownerId = ''o'', w_visibility = VIS_PRIVATE, w_category = None, w_joinMode = JOIN_PRIVATE,
       w_emailDomains = [], w_defaultChannelId = None, w_deletedAt = None, w_deleteAt = None\<rparr>],
     gd_members = [], gd_roles = [], gd_memberRoles = [], gd_channels = [], gd_bans = [], gd_invites = [],
     gd_applications = [],
     gd_pendings = [\<lparr>pi_id = ''p'', pi_ws = ''w'', pi_email = [97], pi_role = GUEST, pi_tokenHash = ''t'',
       pi_invitedBy = ''o'', pi_expiresAt = 9, pi_acceptedAt = None, pi_canceledAt = None, pi_lastSentAt = 0\<rparr>],
     gd_outbox = [], gd_audit = []\<rparr>"

definition mail_user :: joining_user where
  "mail_user = \<lparr>ju_id = ''u'', ju_emailVerified = True, ju_email = [32, 97], ju_ipHash = None\<rparr>"

lemma mail_accepted: "fst (acceptByToken (\<lambda>s. s) role_literal (\<lambda>t. t) 5 ''t'' mail_user 1 mail_guild) = Inr False"
  by (simp add: acceptByToken_def loadActiveByToken_def acceptPending_def accept_pending_check_def accept_pending_tx_def
      find_pending_def find_workspace_def find_guild_member_def isBanned_def assertWorkspaceEntryAllowed_def
      assertNotIpBlocked_def join_commit_as_def insert_member_def markAccepted_def update_where_def pending_active_def
      normalizeEmail_def js_trim_def is_js_space_def mail_guild_def mail_user_def)

theorem mailed_invitation_is_personal_witness:
  "\<exists>g1. acceptByToken (\<lambda>s. s) role_literal (\<lambda>t. t) 5 ''t'' mail_user 1 mail_guild = (Inr False, g1)
     \<and> (\<exists>p \<in> set (gd_pendings mail_guild). pi_role p = GUEST
          \<and> (\<exists>m \<in> set (gd_members g1). wm_ws m = pi_ws p \<and> wm_user m = ''u'' \<and> wm_role m = pi_role p))"
proof -
  obtain g1 where g1: "acceptByToken (\<lambda>s. s) role_literal (\<lambda>t. t) 5 ''t'' mail_user 1 mail_guild = (Inr False, g1)"
    using mail_accepted by (cases "acceptByToken (\<lambda>s. s) role_literal (\<lambda>t. t) 5 ''t'' mail_user 1 mail_guild") auto
  have "pendings_keyed mail_guild" by (simp add: pendings_keyed_def mail_guild_def)
  from mailed_invitation_is_personal [OF this g1] g1 show ?thesis
    by (auto simp: mail_guild_def mail_user_def)
qed

end
