(* ===== verification/Guild_Invariants.thy ===== *)
theory Guild_Invariants
  imports Pending_Invites
begin

text \<open>
  The operations of \<open>Guilds\<close>, \<open>Moderation\<close>, \<open>Invites\<close>, \<open>Applications\<close> and \<open>Pending_Invites\<close>
  together, as requests that run one after the other, each behind the guards of its route:
  who owns a workspace, who is a member and who is banned stay consistent. The last section
  shows what requests that overlap can do to that.
\<close>

section \<open>Requests\<close>

text \<open>
  \<open>other\<close> stands for everything that leaves members, bans and the owner column alone: settings,
  roles, channels, invites, applications. Ids of new workspaces are fresh. The roles a request may
  name never include OWNER (the request schemas of \<open>shared-types\<close>).
\<close>

definition owners_of :: "guild_db \<Rightarrow> (id \<times> id) list" where
  "owners_of g = map (\<lambda>w. (w_id w, w_ownerId w)) (gd_workspaces g)"

definition names_owner :: "mod_op \<Rightarrow> bool" where
  "names_owner oper = (case oper of Bulk _ _ _ _ _ r \<Rightarrow> r = OWNER | _ \<Rightarrow> False)"

inductive guild_flow :: "guild_db \<Rightarrow> guild_db \<Rightarrow> bool" where
  other: "owners_of g' = owners_of g \<Longrightarrow> gd_members g' = gd_members g \<Longrightarrow> gd_bans g' = gd_bans g \<Longrightarrow> guild_flow g g'"
| create: "ws \<notin> w_id ` set (gd_workspaces g)
    \<Longrightarrow> guild_flow g (snd (workspace_create lc gen ws general user input verified g))"
| update_role: "r \<noteq> OWNER \<Longrightarrow> guild_flow g (snd (guarded_by False (Some ADMIN) ws actor
      (\<lambda>m. updateRole gen now ws actor (wm_role m) target r) g))"
| remove: "guild_flow g (snd (guarded_by False (Some ADMIN) ws actor (\<lambda>m. member_remove ws actor (wm_role m) target) g))"
| leave: "guild_flow g (snd (guarded_by False None ws user (\<lambda>m. leave ws user (wm_role m)) g))"
| transfer: "guild_flow g (snd (guarded_by False (Some OWNER) ws user
      (\<lambda>m. transferOwnership gen ws user target password_ok) g))"
| join: "guild_flow g (snd (joinPublic lc gen threshold now ws user verified email ip g))"
| moderate: "find_workspace g ws \<noteq> None \<Longrightarrow> \<not> names_owner oper
    \<Longrightarrow> guild_flow g (fst (mod_step gen ws now oper (g, undo)))"
| accept_link: "guild_flow g (snd (invite_accept lc gen threshold now code u g))"
| accept_mail: "guild_flow g (snd (acceptByToken lc gen hash threshold token u now g))"
| add_directly: "find_workspace g ws \<noteq> None \<Longrightarrow> r = MEMBER \<or> r = GUEST
    \<Longrightarrow> guild_flow g (snd (direct_add gen ws actor user r g))"
| review: "guild_flow g (snd (guarded_by False None ws actor
      (\<lambda>m. application_process gen now dm ws aid actor (wm_role m) act note) g))"
| evict: "(\<forall>m. find_guild_member g ws user = Some m \<longrightarrow> wm_role m \<noteq> OWNER)
    \<Longrightarrow> guild_flow g (temp_evict sockets ws user g)"

section \<open>The invariant\<close>

definition owner_row :: "id \<times> id \<Rightarrow> guild_member \<Rightarrow> bool" where
  "owner_row wo m \<longleftrightarrow> wm_ws m = fst wo \<and> wm_user m = snd wo \<and> wm_role m = OWNER"

definition guild_ok :: "guild_db \<Rightarrow> bool" where
  "guild_ok g \<longleftrightarrow> distinct (map fst (owners_of g)) \<and> members_keyed g
     \<and> (\<forall>m \<in> set (gd_members g). wm_ws m \<in> fst ` set (owners_of g))
     \<and> (\<forall>b \<in> set (gd_bans g). ban_ws b \<in> fst ` set (owners_of g))
     \<and> (\<forall>wo \<in> set (owners_of g). \<exists>m \<in> set (gd_members g). owner_row wo m)
     \<and> (\<forall>m \<in> set (gd_members g). wm_role m = OWNER \<longrightarrow> (wm_ws m, wm_user m) \<in> set (owners_of g))
     \<and> (\<forall>m \<in> set (gd_members g). \<not> isBanned g (wm_ws m) (wm_user m))"

lemma guild_ok_cong:
  "owners_of g' = owners_of g \<Longrightarrow> gd_members g' = gd_members g \<Longrightarrow> gd_bans g' = gd_bans g \<Longrightarrow> guild_ok g' = guild_ok g"
  by (simp add: guild_ok_def members_keyed_def isBanned_def)

lemma owners_simps [simp]:
  "owners_of (outbox_add e g) = owners_of g"
  "owners_of (audit_record w x act t ip n g) = owners_of g"
  "owners_of (sync_member_role gen w u r g) = owners_of g"
  "owners_of (update_member w u f g) = owners_of g"
  "owners_of (delete_members w us g) = owners_of g"
  "owners_of (g\<lparr>gd_bans := b\<rparr>) = owners_of g"
  "owners_of (g\<lparr>gd_members := ms\<rparr>) = owners_of g"
  "owners_of (g\<lparr>gd_roles := rs, gd_memberRoles := mr\<rparr>) = owners_of g"
  "owners_of (g\<lparr>gd_members := ms, gd_roles := rs, gd_memberRoles := mr\<rparr>) = owners_of g"
  "owners_of (g\<lparr>gd_applications := as\<rparr>) = owners_of g"
  "owners_of (g\<lparr>gd_invites := is\<rparr>) = owners_of g"
  "owners_of (recordReviewed a g) = owners_of g"
  "owners_of (markAccepted pid now g) = owners_of g"
  "owners_of (recordSuspiciousJoin th ws u h now g) = owners_of g"
  by (simp_all add: owners_of_def outbox_add_def audit_record_def sync_member_role_def update_member_def
      delete_members_def recordReviewed_def markAccepted_def recordSuspiciousJoin_def Let_def)

lemma bans_simps [simp]:
  "gd_bans (outbox_add e g) = gd_bans g"
  "gd_bans (audit_record w x act t ip n g) = gd_bans g"
  "gd_bans (sync_member_role gen w u r g) = gd_bans g"
  "gd_bans (update_member w u f g) = gd_bans g"
  "gd_bans (delete_members w us g) = gd_bans g"
  "gd_bans (recordReviewed a g) = gd_bans g"
  "gd_bans (markAccepted pid now g) = gd_bans g"
  "gd_bans (recordSuspiciousJoin th ws u h now g) = gd_bans g"
  by (simp_all add: outbox_add_def audit_record_def sync_member_role_def update_member_def
      delete_members_def recordReviewed_def markAccepted_def recordSuspiciousJoin_def Let_def)

lemma members_simps [simp]:
  "gd_members (markAccepted pid now g) = gd_members g"
  "gd_members (recordSuspiciousJoin th ws u h now g) = gd_members g"
  by (simp_all add: markAccepted_def recordSuspiciousJoin_def audit_record_def Let_def)

text \<open>The shapes of change: members go, a member that is no owner changes in place, a member joins.\<close>

lemma guild_okI:
  assumes "guild_ok g" "owners_of g' = owners_of g" "members_keyed g'"
    and "\<And>b. b \<in> set (gd_bans g') \<Longrightarrow> b \<in> set (gd_bans g)"
    and "\<And>m'. m' \<in> set (gd_members g') \<Longrightarrow>
      \<exists>m \<in> set (gd_members g). wm_ws m' = wm_ws m \<and> wm_user m' = wm_user m \<and> (wm_role m' = OWNER \<longrightarrow> wm_role m = OWNER)"
    and "\<And>m. m \<in> set (gd_members g) \<Longrightarrow> wm_role m = OWNER \<Longrightarrow>
      \<exists>m' \<in> set (gd_members g'). wm_ws m' = wm_ws m \<and> wm_user m' = wm_user m \<and> wm_role m' = OWNER"
  shows "guild_ok g'"
proof -
  have "\<exists>m' \<in> set (gd_members g'). owner_row wo m'" if "wo \<in> set (owners_of g)" for wo
  proof -
    from assms(1) that obtain m where "m \<in> set (gd_members g)" "owner_row wo m" by (auto simp: guild_ok_def)
    with assms(6) [of m] show ?thesis by (auto simp: owner_row_def)
  qed
  moreover have "wm_ws m' \<in> fst ` set (owners_of g) \<and> (wm_role m' = OWNER \<longrightarrow> (wm_ws m', wm_user m') \<in> set (owners_of g))
      \<and> \<not> isBanned g' (wm_ws m') (wm_user m')" if m': "m' \<in> set (gd_members g')" for m'
  proof -
    from assms(5) [OF m'] obtain m where m: "m \<in> set (gd_members g)" "wm_ws m' = wm_ws m" "wm_user m' = wm_user m"
      "wm_role m' = OWNER \<longrightarrow> wm_role m = OWNER" by blast
    with assms(1) have "\<not> isBanned g (wm_ws m) (wm_user m)" by (simp add: guild_ok_def)
    with assms(4) m(2,3) have "\<not> isBanned g' (wm_ws m') (wm_user m')" by (auto simp: isBanned_def)
    with m assms(1) show ?thesis by (auto simp: guild_ok_def)
  qed
  ultimately show ?thesis using assms(1-4) by (auto simp: guild_ok_def)
qed

lemma ok_delete:
  assumes ok: "guild_ok g" and v: "owners_of g' = owners_of g" "gd_bans g' = gd_bans g"
    "gd_members g' = delete_where p (gd_members g)"
    and "\<And>m. m \<in> set (gd_members g) \<Longrightarrow> p m \<Longrightarrow> wm_role m \<noteq> OWNER"
  shows "guild_ok g'"
proof (rule guild_okI [OF ok v(1)])
  show "members_keyed g'"
    using ok unfolding v(3) members_keyed_def guild_ok_def delete_where_def by (auto intro: distinct_map_filter)
qed (use assms(5) in \<open>auto simp: v(2,3) set_delete_where\<close>)

lemma ok_update:
  assumes ok: "guild_ok g" and v: "owners_of g' = owners_of g" "gd_bans g' = gd_bans g"
    "gd_members g' = update_where p f (gd_members g)"
    and f: "\<And>m. m \<in> set (gd_members g) \<Longrightarrow> p m \<Longrightarrow> wm_ws (f m) = wm_ws m \<and> wm_user (f m) = wm_user m
      \<and> (wm_role (f m) = OWNER \<longleftrightarrow> wm_role m = OWNER)"
  shows "guild_ok g'"
proof (rule guild_okI [OF ok v(1)])
  have "map (\<lambda>m. (wm_ws m, wm_user m)) (update_where p f (gd_members g)) = map (\<lambda>m. (wm_ws m, wm_user m)) (gd_members g)"
    using f by (auto simp: update_where_def)
  then show "members_keyed g'" using ok unfolding v(3) members_keyed_def guild_ok_def by simp
next
  fix m' assume "m' \<in> set (gd_members g')"
  then show "\<exists>m \<in> set (gd_members g). wm_ws m' = wm_ws m \<and> wm_user m' = wm_user m \<and> (wm_role m' = OWNER \<longrightarrow> wm_role m = OWNER)"
    using f by (auto simp: v(3) set_update_where)
next
  fix m assume m: "m \<in> set (gd_members g)" "wm_role m = OWNER"
  then have "(if p m then f m else m) \<in> set (gd_members g')" by (auto simp: v(3) set_update_where)
  moreover have "wm_ws (if p m then f m else m) = wm_ws m \<and> wm_user (if p m then f m else m) = wm_user m
      \<and> wm_role (if p m then f m else m) = OWNER" using f [OF m(1)] m(2) by simp
  ultimately show "\<exists>m' \<in> set (gd_members g'). wm_ws m' = wm_ws m \<and> wm_user m' = wm_user m \<and> wm_role m' = OWNER"
    by blast
qed (use v in auto)

lemma ok_join:
  assumes ok: "guild_ok g" and j: "join_commit_as r s gen ws user tmp iv ip g0 = Some g'"
    and v: "owners_of g0 = owners_of g" "gd_bans g0 = gd_bans g" "gd_members g0 = gd_members g"
    and "r \<noteq> OWNER" "ws \<in> fst ` set (owners_of g)" "\<not> isBanned g ws user"
  shows "guild_ok g'"
proof -
  obtain m where m: "gd_members g' = gd_members g @ [m]" "wm_ws m = ws" "wm_user m = user" "wm_role m = r"
    "\<forall>x \<in> set (gd_members g). \<not> (wm_ws x = ws \<and> wm_user x = user)"
    "owners_of g' = owners_of g" "gd_bans g' = gd_bans g"
    using j v by (auto simp: join_commit_as_def insert_member_def is_member_row_def split: if_splits)
  have "members_keyed g'" using ok m(1-5) by (auto simp: members_keyed_def guild_ok_def)
  moreover have "isBanned g' x y = isBanned g x y" for x y by (simp add: isBanned_def m(7))
  ultimately show ?thesis
    using ok assms(6,7,8) by (auto simp: guild_ok_def m(1-4,6,7))
qed

lemma find_workspace_owner: "find_workspace g ws \<noteq> None \<longleftrightarrow> ws \<in> fst ` set (owners_of g)"
  by (auto simp: find_workspace_def owners_of_def find_None_all image_iff)

lemma find_workspace_owners: "find_workspace g ws = Some w \<Longrightarrow> ws \<in> fst ` set (owners_of g)"
  using find_workspace_owner [of g ws] by simp

lemma ok_keyed: "guild_ok g \<Longrightarrow> members_keyed g"
  by (simp add: guild_ok_def)

lemma ok_refused [simp]: "snd (refused e g) = g"
  by (simp add: refused_def)

lemma ok_guarded:
  assumes "guild_ok g"
    and "\<And>m. find_guild_member g ws user = Some m \<Longrightarrow> find_workspace g ws \<noteq> None \<Longrightarrow> WorkspaceRoleGuard minRole m = Inr m
      \<Longrightarrow> guild_ok (snd (h m g))"
  shows "guild_ok (snd (guarded_by allow minRole ws user h g))"
proof (cases "bind_res (WorkspaceMemberGuard allow g ws user) (WorkspaceRoleGuard minRole)")
  case (Inl e)
  then show ?thesis using assms(1) by (simp add: guarded_by_def)
next
  case (Inr m)
  then have "find_guild_member g ws user = Some m" "find_workspace g ws \<noteq> None" "WorkspaceRoleGuard minRole m = Inr m"
    by (auto simp: WorkspaceMemberGuard_def WorkspaceRoleGuard_def bind_res_Inr_iff split: option.splits if_splits)
  with assms(2) Inr show ?thesis by (simp add: guarded_by_def)
qed

lemma found_member:
  assumes "guild_ok g" "find_guild_member g ws u = Some t" "m \<in> set (gd_members g)" "wm_ws m = ws" "wm_user m = u"
  shows "m = t"
  using find_guild_member_key [OF ok_keyed [OF assms(1)] assms(3)] assms by simp

lemma ok_remove_one:
  assumes "guild_ok g" "find_guild_member g ws u = Some t" "wm_role t \<noteq> OWNER"
    and "owners_of g' = owners_of g" "gd_bans g' = gd_bans g" "gd_members g' = gd_members (delete_members ws [u] g)"
  shows "guild_ok g'"
  using assms found_member [OF assms(1,2)]
  by (intro ok_delete [OF assms(1,4,5), where p = "\<lambda>m. wm_ws m = ws \<and> wm_user m \<in> set [u]"])
    (auto simp: delete_members_def)

lemma ok_set_one:
  assumes "guild_ok g" "find_guild_member g ws u = Some t"
    and "wm_ws (f t) = wm_ws t \<and> wm_user (f t) = wm_user t \<and> (wm_role (f t) = OWNER \<longleftrightarrow> wm_role t = OWNER)"
    and "owners_of g' = owners_of g" "gd_bans g' = gd_bans g" "gd_members g' = gd_members (update_member ws u f g)"
  shows "guild_ok g'"
  using assms(3,6) found_member [OF assms(1,2)]
  by (intro ok_update [OF assms(1,4,5), where p = "is_member_row ws u" and f = f])
    (auto simp: update_member_def is_member_row_def)

lemma ok_updateRole:
  assumes "guild_ok g" "r \<noteq> OWNER"
  shows "guild_ok (snd (updateRole gen now ws actor ar target r g))"
proof (cases "update_role_check g ws actor ar target")
  case (Inl e)
  with assms show ?thesis by (simp add: updateRole_def)
next
  case (Inr t)
  then have t: "find_guild_member g ws target = Some t" "wm_role t \<noteq> OWNER" "wm_user t = target"
    by (auto simp: update_role_check_def dest: find_guild_member_SomeD split: if_splits option.splits)
  with Inr assms(2) show ?thesis
    by (intro ok_set_one [OF assms(1) t(1), where f = "\<lambda>m. m\<lparr>wm_role := r\<rparr>"])
      (simp_all add: updateRole_def update_role_commit_def Let_def)
qed

lemma ok_member_remove:
  assumes "guild_ok g"
  shows "guild_ok (snd (member_remove ws actor ar target g))"
proof (cases "remove_check g ws actor ar target")
  case (Inl e)
  with assms show ?thesis by (simp add: member_remove_def)
next
  case (Inr t)
  then have t: "find_guild_member g ws target = Some t" "wm_role t \<noteq> OWNER"
    by (auto simp: remove_check_def split: if_splits option.splits)
  from Inr show ?thesis by (intro ok_remove_one [OF assms t]) (simp_all add: member_remove_def)
qed

lemma ok_leave:
  assumes "guild_ok g" "find_guild_member g ws user = Some m"
  shows "guild_ok (snd (leave ws user (wm_role m) g))"
proof (cases "wm_role m = OWNER")
  case True
  with assms show ?thesis by (simp add: leave_def)
next
  case False
  with assms show ?thesis by (intro ok_remove_one [OF assms]) (simp_all add: leave_def)
qed

lemma ok_suspicious: "guild_ok g \<Longrightarrow> guild_ok (recordSuspiciousJoin th ws user h now g)"
  using guild_ok_cong [of "recordSuspiciousJoin th ws user h now g" g] by simp

lemma ok_enter:
  assumes "guild_ok g" "join_commit_as r s gen ws user tmp iv ip g0 = Some g'" "find_workspace g ws = Some w"
    and "\<not> isBanned g ws user" "r \<noteq> OWNER"
    and "owners_of g0 = owners_of g" "gd_bans g0 = gd_bans g" "gd_members g0 = gd_members g"
  shows "guild_ok g'"
  using find_workspace_owners [OF assms(3)] by (intro ok_join [OF assms(1,2,6,7,8,5) _ assms(4)])

lemma ok_outbox [simp]: "guild_ok (outbox_add e g) = guild_ok g"
  by (rule guild_ok_cong) (simp_all)

lemma entry_outcome:
  assumes "assertNotIpBlocked th ws user ip VIA_INVITE now g = (res, g1) \<or> assertNotIpBlocked th ws user ip VIA_PUBLIC now g = (res, g1)"
  shows "owners_of g1 = owners_of g" "gd_bans g1 = gd_bans g" "gd_members g1 = gd_members g"
  using assms by (auto simp: assertNotIpBlocked_def split: option.splits if_splits)

lemma ok_joinPublic:
  assumes ok: "guild_ok g"
  shows "guild_ok (snd (joinPublic lc gen th now ws user v email ip g))"
proof (cases "assertNotIpBlocked th ws user ip VIA_PUBLIC now g")
  case (Pair res g1)
  note same = entry_outcome [OF disjI2 [OF Pair]]
  then have "guild_ok g1" using ok guild_ok_cong [of g1 g] by simp
  moreover have "guild_ok g2" if "find_workspace g ws = Some w" "\<not> isBanned g ws user"
    "join_commit_as MEMBER MEMBER gen ws user False None x g1 = Some g2" for w x g2
    using that same by (intro ok_enter [OF ok that(3,1,2)]) simp_all
  ultimately show ?thesis
    using ok Pair by (auto simp: joinPublic_def join_commit_def split: option.splits sum.splits)
qed

lemma ok_accept:
  assumes ok: "guild_ok g"
  shows "guild_ok (snd (invite_accept lc gen th now code u g))"
proof (cases "accept_check lc th now code u g")
  case (Pair res g1)
  have same: "owners_of g1 = owners_of g" "gd_bans g1 = gd_bans g" "gd_members g1 = gd_members g"
    using Pair
    by (auto simp: accept_check_def dest: entry_outcome [OF disjI1] split: option.splits if_splits sum.splits prod.splits)
  then have ok1: "guild_ok g1" using ok guild_ok_cong [of g1 g] by simp
  show ?thesis
  proof (cases "\<exists>i ip. res = Inr (Proceed i ip)")
    case False
    with Pair ok1 show ?thesis
      by (auto simp: invite_accept_def split: sum.splits accept_ready.splits)
  next
    case True
    then obtain i ip where r: "res = Inr (Proceed i ip)" by blast
    then obtain w where w: "find_workspace g (inv_ws i) = Some w" "\<not> isBanned g (inv_ws i) (ju_id u)"
      using Pair by (auto simp: accept_check_def split: option.splits if_splits sum.splits prod.splits)
    obtain b g2 where c: "accept_cas now code g1 = (b, g2)" by fastforce
    then have same2: "owners_of g2 = owners_of g" "gd_bans g2 = gd_bans g" "gd_members g2 = gd_members g"
      using same by (auto simp: accept_cas_def)
    then have ok2: "guild_ok g2" using ok guild_ok_cong [of g2 g] by simp
    have ok3: "guild_ok (accept_refund code g2)"
      using ok2 guild_ok_cong [of "accept_refund code g2" g2] by (simp add: accept_refund_def)
    have "guild_ok g3" if "join_commit gen (inv_ws i) (ju_id u) t iv ip g2 = Some g3" for t iv g3
      using same2 by (intro ok_enter [OF ok that [unfolded join_commit_def] w(1,2)]) simp_all
    then show ?thesis
      using Pair r c ok2 ok3 by (auto simp: invite_accept_def accept_tx_def split: bool.splits option.splits)
  qed
qed

lemma ok_mark: "guild_ok (markAccepted pid now g) = guild_ok g"
  by (rule guild_ok_cong) simp_all

lemma ok_acceptPending:
  assumes ok: "guild_ok g"
  shows "guild_ok (snd (acceptPending lc gen th p u now g))"
proof (cases "accept_pending_check lc th p u now g")
  case (Pair res g1)
  have same: "owners_of g1 = owners_of g" "gd_bans g1 = gd_bans g" "gd_members g1 = gd_members g"
    using Pair
    by (auto simp: accept_pending_check_def dest: entry_outcome [OF disjI1] split: option.splits if_splits sum.splits prod.splits)
  then have ok1: "guild_ok g1" using ok guild_ok_cong [of g1 g] by simp
  have tx: "guild_ok (snd (accept_pending_tx gen p (ju_id u) ip now g1))" if r: "res = Inr (Pending_Join ip)" for ip
  proof -
    obtain w where w: "find_workspace g (pi_ws p) = Some w" "\<not> isBanned g (pi_ws p) (ju_id u)" "pi_role p \<noteq> OWNER"
      using Pair r by (auto simp: accept_pending_check_def split: option.splits if_splits sum.splits prod.splits)
    have "guild_ok g3"
      if "join_commit_as (pi_role p) s gen (pi_ws p) (ju_id u) False (Some (pi_invitedBy p)) ip (markAccepted (pi_id p) now g1) = Some g3"
      for s g3 using that same by (intro ok_enter [OF ok that w]) simp_all
    then show ?thesis using ok1 unfolding accept_pending_tx_def by (auto split: option.splits)
  qed
  show ?thesis
    using Pair ok1 tx
    by (auto simp: acceptPending_def ok_mark split: sum.splits prod.splits pending_ready.splits failure.splits)
qed

lemma ok_acceptByToken: "guild_ok g \<Longrightarrow> guild_ok (snd (acceptByToken lc gen hash th tok u now g))"
  by (auto simp: acceptByToken_def ok_acceptPending split: sum.splits)

lemma ok_direct_add:
  assumes ok: "guild_ok g" and "find_workspace g ws \<noteq> None" "r = MEMBER \<or> r = GUEST"
  shows "guild_ok (snd (direct_add gen ws actor user r g))"
proof -
  from assms(2) obtain w where w: "find_workspace g ws = Some w" by blast
  have "guild_ok g3" if "join_commit_as r s gen ws user False (Some actor) None g = Some g3" "\<not> isBanned g ws user" for s g3
    using that assms(3) by (intro ok_enter [OF ok that(1) w that(2)]) auto
  with ok show ?thesis unfolding direct_add_def by (auto split: option.splits)
qed

lemma update_application_same:
  "update_application now aid f g = Inr (row, g1) \<Longrightarrow>
    owners_of g1 = owners_of g \<and> gd_bans g1 = gd_bans g \<and> gd_members g1 = gd_members g"
  by (auto simp: update_application_def Let_def split: option.splits if_splits)

lemma ok_reviewed: "guild_ok (recordReviewed a g) = guild_ok g"
  by (rule guild_ok_cong) simp_all

lemma ok_process:
  assumes ok: "guild_ok g" and w: "find_workspace g ws = Some w"
  shows "guild_ok (snd (application_process gen now dm ws aid actor r act note g))"
proof (cases "process_check ws aid r act g")
  case (Inl e)
  with ok show ?thesis by (simp add: application_process_def)
next
  case (Inr a)
  note row = process_check_row [OF Inr]
  have same: "guild_ok g1" if "update_application now (ap_id a) f g = Inr (x, g1)" for f x g1
    using update_application_same [OF that] ok guild_ok_cong [of g1 g] by simp
  have "guild_ok g2" if u: "update_application now (ap_id a) f g = Inr (x, g1)"
    and j: "join_commit_as MEMBER MEMBER gen (ap_ws a) (ap_applicant a) False None (ap_ipHash a) g1 = Some g2"
    and b: "\<not> isBanned g (ap_ws a) (ap_applicant a)" for f x g1 g2
    using update_application_same [OF u] w row(3) by (intro ok_enter [OF ok j _ b]) simp_all
  with Inr ok same show ?thesis
    by (auto simp: application_process_def approve_def reject_application_def interview_def join_commit_def ok_reviewed
        split: review_action.splits sum.splits prod.splits option.splits)
qed

lemma ok_evict:
  assumes "guild_ok g" "\<forall>m. find_guild_member g ws user = Some m \<longrightarrow> wm_role m \<noteq> OWNER"
  shows "guild_ok (temp_evict n ws user g)"
proof (cases "find_guild_member g ws user")
  case None
  with assms show ?thesis by (simp add: temp_evict_def)
next
  case (Some m)
  with assms(2) have "guild_ok (outbox_add (MEMBER_TEMP_EXPIRED ws user) (delete_members ws [user] g))"
    by (intro ok_remove_one [OF assms(1) Some]) simp_all
  with Some assms(1) show ?thesis by (simp add: temp_evict_def)
qed

lemma members_keyed_update:
  assumes "members_keyed g" "gd_members g' = update_where p f (gd_members g)"
    and "\<And>m. m \<in> set (gd_members g) \<Longrightarrow> p m \<Longrightarrow> wm_ws (f m) = wm_ws m \<and> wm_user (f m) = wm_user m"
  shows "members_keyed g'"
proof -
  have "map (\<lambda>m. (wm_ws m, wm_user m)) (update_where p f (gd_members g)) = map (\<lambda>m. (wm_ws m, wm_user m)) (gd_members g)"
    using assms(3) by (auto simp: update_where_def)
  then show ?thesis using assms(1,2) by (simp add: members_keyed_def)
qed

lemma ok_kick:
  assumes ok: "guild_ok g"
  shows "guild_ok (fst (snd (kick now tok ws actor target (g, r))))"
proof (cases "assertTargetActionable g ws actor target KICK_MEMBERS")
  case (Inl e)
  with ok show ?thesis by (simp add: kick_def)
next
  case (Inr t)
  then have t: "find_guild_member g ws target = Some t" "wm_role t \<noteq> OWNER" "wm_user t = target"
    by (auto simp: assertTargetActionable_def Let_def dest: find_guild_member_SomeD split: if_splits option.splits)
  have "guild_ok (snd (kick_commit now ws actor t g))"
    using t by (intro ok_remove_one [OF ok t(1,2)]) (simp_all add: kick_commit_def Let_def)
  with Inr show ?thesis by (auto simp: kick_def Let_def split: sum.splits prod.splits)
qed

lemma ok_kickUndo:
  assumes ok: "guild_ok g" and w: "find_workspace g ws = Some w"
  shows "guild_ok (fst (snd (kickUndo gen now ws actor target tok (g, r))))"
proof -
  have "guild_ok g'" if "join_commit_as MEMBER MEMBER gen ws target False None ip g = Some g'" "\<not> isBanned g ws target" for ip g'
    using ok_enter [OF ok that(1) w that(2)] by simp
  with ok show ?thesis
    by (auto simp: kickUndo_def join_commit_def Let_def split: option.splits)
qed

lemma ok_ban_write:
  assumes ok: "guild_ok g" and "find_workspace g ws = Some w" and v: "owners_of g' = owners_of g"
    and b: "gd_bans g' = gd_bans g @ [b]" "ban_ws b = ws" "ban_user b = u"
    and m: "gd_members g' = delete_where (\<lambda>m. wm_ws m = ws \<and> wm_user m = u) (gd_members g)"
    and t: "\<And>t. find_guild_member g ws u = Some t \<Longrightarrow> wm_role t \<noteq> OWNER"
  shows "guild_ok g'"
proof -
  have stays: "\<exists>m' \<in> set (gd_members g'). owner_row wo m'" if wo: "wo \<in> set (owners_of g)" for wo
  proof -
    from ok wo obtain x where x: "x \<in> set (gd_members g)" "owner_row wo x" by (auto simp: guild_ok_def)
    have "\<not> (wm_ws x = ws \<and> wm_user x = u)"
      using t find_guild_member_key [OF ok_keyed [OF ok] x(1)] x(2) by (auto simp: owner_row_def)
    with x show ?thesis by (auto simp: m set_delete_where)
  qed
  have k: "members_keyed g'"
    using ok unfolding m members_keyed_def guild_ok_def delete_where_def by (auto intro: distinct_map_filter)
  from ok k stays find_workspace_owners [OF assms(2)] show ?thesis
    unfolding guild_ok_def v isBanned_def b(1) by (auto simp: m set_delete_where b(2,3))
qed

lemma delete_nobody:
  "find_guild_member g ws u = None \<Longrightarrow> delete_where (\<lambda>m. wm_ws m = ws \<and> wm_user m = u) (gd_members g) = gd_members g"
  by (auto simp: find_guild_member_def find_None_all is_member_row_def delete_where_def filter_id_conv)

lemma ok_ban:
  assumes ok: "guild_ok g" and w: "find_workspace g ws = Some w"
  shows "guild_ok (snd (ban now ws actor target reason g))"
proof (cases "ban_check g ws actor target")
  case (Inl e)
  with ok show ?thesis by (simp add: ban_def)
next
  case (Inr mem)
  then have t: "mem = find_guild_member g ws target" "\<And>t. find_guild_member g ws target = Some t \<Longrightarrow> wm_role t \<noteq> OWNER"
    "\<not> isBanned g ws target"
    by (auto simp: ban_check_def Let_def split: if_splits option.splits)
  let ?b = "\<lparr>ban_ws = ws, ban_user = target, ban_by = actor, ban_reason = normalizeReason reason,
    ban_ipHash = (case mem of None \<Rightarrow> None | Some m \<Rightarrow> gm_ipHash m)\<rparr>"
  show ?thesis
    by (rule ok_ban_write [OF ok w, where b = ?b and u = target])
      (use Inr t delete_nobody [of g ws target] in
        \<open>auto simp: ban_def ban_commit_def Let_def delete_members_def owners_of_def outbox_add_def audit_record_def\<close>)
qed

lemma ok_unban:
  assumes ok: "guild_ok g"
  shows "guild_ok (snd (unban now ws actor target g))"
proof (cases "unban now ws actor target g")
  case (Pair res g')
  then have "owners_of g' = owners_of g" "gd_members g' = gd_members g" "set (gd_bans g') \<subseteq> set (gd_bans g)"
    by (auto simp: unban_def refused_def Let_def set_delete_where owners_of_def audit_record_def split: if_splits)
  then have "guild_ok g'"
    using ok by (intro guild_okI [OF ok]) (auto simp: members_keyed_def guild_ok_def)
  with Pair show ?thesis by simp
qed

lemma ok_set_mute:
  assumes ok: "guild_ok g"
  shows "guild_ok (snd (set_mute ws target until act actor now res g))"
proof (cases "find_guild_member g ws target")
  case None
  with ok show ?thesis by (simp add: set_mute_def)
next
  case (Some t)
  then show ?thesis
    by (intro ok_set_one [OF ok Some, where f = "\<lambda>m. m\<lparr>gm_mutedUntil := until\<rparr>"]) (simp_all add: set_mute_def)
qed

lemma foldl_same_view:
  "(\<And>h u. view (f h u) = view h) \<Longrightarrow> view (foldl f g us) = view g"
  by (induction us arbitrary: g) auto

lemma ok_bulk:
  assumes ok: "guild_ok g" and r: "r \<noteq> OWNER"
  shows "guild_ok (snd (bulkAction gen now ws actor ar act ids d r g))"
proof -
  let ?c = "actorContext g ws actor"
  let ?us = "filter (\<lambda>u. skip_reason_of g ws actor ?c u = None) (rev (remdups (rev ids)))"
  let ?g = "bulk_write gen now ws actor act d r ?us g"
  have free: "wm_role m \<noteq> OWNER" if m: "m \<in> set (gd_members g)" "wm_ws m = ws \<and> wm_user m \<in> set ?us" for m
  proof -
    from m have "skip_reason_of g ws actor ?c (wm_user m) = None" by simp
    then obtain t where "find_guild_member g ws (wm_user m) = Some t" "wm_role t \<noteq> OWNER"
      by (auto simp: skip_reason_of_def split: if_splits option.splits)
    with find_guild_member_key [OF ok_keyed [OF ok] m(1)] m(2) show ?thesis by simp
  qed
  have "guild_ok ?g"
  proof (cases act)
    case BULK_KICK
    have k: "owners_of (foldl (\<lambda>h u. outbox_add (MEMBER_KICKED ws u actor) h) h us) = owners_of h"
      "gd_bans (foldl (\<lambda>h u. outbox_add (MEMBER_KICKED ws u actor) h) h us) = gd_bans h"
      "gd_members (foldl (\<lambda>h u. outbox_add (MEMBER_KICKED ws u actor) h) h us) = gd_members h" for h us
      by (rule foldl_same_view, simp)+
    have gone: "gd_members (delete_members ws ?us g) = delete_where (\<lambda>m. wm_ws m = ws \<and> wm_user m \<in> set ?us) (gd_members g)"
      by (simp add: delete_members_def)
    show ?thesis
      by (rule ok_delete [OF ok _ _ _ free]) (simp_all add: bulk_write_def BULK_KICK k gone del: set_filter)
  next
    case BULK_TIMEOUT
    show ?thesis
      by (rule ok_update [OF ok, where p = "\<lambda>m. wm_ws m = ws \<and> wm_user m \<in> set ?us"
            and f = "\<lambda>m. m\<lparr>gm_mutedUntil := map_option (\<lambda>d. now + d * 1000) d\<rparr>"])
        (use BULK_TIMEOUT in \<open>simp_all add: bulk_write_def\<close>)
  next
    case BULK_ROLE
    let ?f = "\<lambda>h u. case find_guild_member g ws u of
        Some t \<Rightarrow> outbox_add (ROLE_CHANGED ws u actor (wm_role t) r) h | None \<Rightarrow> h"
    have k: "owners_of (foldl ?f h us) = owners_of h" "gd_bans (foldl ?f h us) = gd_bans h"
      "gd_members (foldl ?f h us) = gd_members h" for h us
      by (rule foldl_same_view, simp split: option.split)+
    show ?thesis
      by (rule ok_update [OF ok, where p = "\<lambda>m. wm_ws m = ws \<and> wm_user m \<in> set ?us"
            and f = "\<lambda>m. m\<lparr>wm_role := r\<rparr>"])
        (use BULK_ROLE r free in \<open>simp_all add: bulk_write_def Let_def k del: set_filter\<close>)
  qed
  then have "guild_ok (audit_record ws actor x None None now ?g)" for x
    using guild_ok_cong [of "audit_record ws actor x None None now ?g" ?g] by simp
  with ok show ?thesis by (simp add: bulkAction_def Let_def del: filter_empty_conv)
qed

lemma ok_moderate:
  assumes ok: "guild_ok g" and "find_workspace g ws \<noteq> None" "\<not> names_owner oper"
  shows "guild_ok (fst (mod_step gen ws now oper (g, undo)))"
proof -
  from assms(2) obtain w where "find_workspace g ws = Some w" by blast
  with ok assms(3) show ?thesis
    by (cases oper) (auto simp: ok_kick ok_kickUndo ok_ban ok_unban ok_bulk timeout_def timeoutBySystem_def untimeout_def
        ok_set_mute names_owner_def Let_def split: sum.splits option.splits)
qed

text \<open>Handing over the workspace.\<close>

lemma transfer_effect:
  assumes "transferOwnership gen ws a b pw g = (Inr keys, g')"
  shows "owners_of g' = map (\<lambda>wo. if fst wo = ws then (ws, b) else wo) (owners_of g)" "gd_bans g' = gd_bans g"
    "gd_members g' = update_where (is_member_row ws b) (\<lambda>m. m\<lparr>wm_role := OWNER\<rparr>)
       (update_where (is_member_row ws a) (\<lambda>m. m\<lparr>wm_role := ADMIN\<rparr>) (gd_members g))"
    "a \<noteq> b" "find_guild_member g ws b \<noteq> None"
  using assms
  by (auto simp: transferOwnership_def refused_def Let_def owners_of_def update_where_def update_member_def
      outbox_add_def sync_member_role_def split: if_splits)

lemma ok_transfer:
  assumes ok: "guild_ok g" and m: "find_guild_member g ws a = Some m" "wm_role m = OWNER"
  shows "guild_ok (snd (transferOwnership gen ws a b pw g))"
proof (cases "transferOwnership gen ws a b pw g")
  case (Pair res g')
  show ?thesis
  proof (cases res)
    case (Inl e)
    with Pair ok show ?thesis by (auto simp: transferOwnership_def refused_def Let_def split: if_splits)
  next
    case (Inr keys)
    note eff = transfer_effect [OF Pair [unfolded Inr]]
    let ?f = "\<lambda>x. if is_member_row ws b x then x\<lparr>wm_role := OWNER\<rparr>
      else if is_member_row ws a x then x\<lparr>wm_role := ADMIN\<rparr> else x"
    have mem: "gd_members g' = map ?f (gd_members g)"
      using eff(4) by (auto simp: eff(3) update_where_def is_member_row_def)
    have key: "wm_ws (?f x) = wm_ws x \<and> wm_user (?f x) = wm_user x" for x by simp
    have "map (\<lambda>m. (wm_ws m, wm_user m)) (map ?f (gd_members g)) = map (\<lambda>m. (wm_ws m, wm_user m)) (gd_members g)"
      by simp
    then have keyed: "members_keyed g'" using ok by (simp only: members_keyed_def guild_ok_def mem)
    have fsts: "map fst (owners_of g') = map fst (owners_of g)" by (auto simp: eff(1))
    have sets: "fst ` set (owners_of g') = fst ` set (owners_of g)" using arg_cong [OF fsts, of set] by simp
    have mrow: "m \<in> set (gd_members g)" "wm_ws m = ws" "wm_user m = a"
      using find_guild_member_SomeD [OF m(1)] by simp_all
    then have aown: "(ws, a) \<in> set (owners_of g)" using ok m(2) by (auto simp: guild_ok_def)
    have uniq: "u = a" if "(ws, u) \<in> set (owners_of g)" for u
      using ok aown that by (auto simp: guild_ok_def dest: eq_key_imp_eq_value)
    have 1: "\<exists>x \<in> set (gd_members g'). owner_row wo x" if "wo \<in> set (owners_of g')" for wo
    proof -
      from that obtain wo' where wo': "wo' \<in> set (owners_of g)" "wo = (if fst wo' = ws then (ws, b) else wo')"
        unfolding eff(1) set_map by blast
      show ?thesis
      proof (cases "fst wo' = ws")
        case True
        from eff(5) obtain t where "t \<in> set (gd_members g)" "is_member_row ws b t"
          by (auto simp: find_guild_member_def find_None_all)
        then have "?f t \<in> set (gd_members g')" "owner_row (ws, b) (?f t)"
          unfolding mem by (simp_all add: owner_row_def is_member_row_def)
        with True wo'(2) show ?thesis by auto
      next
        case False
        from ok wo'(1) obtain x where "x \<in> set (gd_members g)" "owner_row wo' x" by (auto simp: guild_ok_def)
        with False have "?f x \<in> set (gd_members g')" "owner_row wo' (?f x)"
          unfolding mem by (simp_all add: owner_row_def is_member_row_def)
        with False wo'(2) show ?thesis by auto
      qed
    qed
    have 2: "(wm_ws x, wm_user x) \<in> set (owners_of g')" if "x \<in> set (gd_members g')" "wm_role x = OWNER" for x
    proof -
      from that(1) obtain y where y: "y \<in> set (gd_members g)" "x = ?f y" by (auto simp: mem)
      show ?thesis
      proof (cases "is_member_row ws b y")
        case True
        with y(2) aown show ?thesis by (force simp: eff(1) is_member_row_def image_iff)
      next
        case False
        with y that(2) have "wm_role y = OWNER" "\<not> is_member_row ws a y" "x = y" by (auto split: if_splits)
        with ok y(1) uniq have "(wm_ws y, wm_user y) \<in> set (owners_of g)" "wm_ws y \<noteq> ws"
          by (auto simp: guild_ok_def is_member_row_def)
        with \<open>x = y\<close> show ?thesis by (force simp: eff(1))
      qed
    qed
    have 3: "wm_ws x \<in> fst ` set (owners_of g') \<and> \<not> isBanned g' (wm_ws x) (wm_user x)" if "x \<in> set (gd_members g')" for x
    proof -
      from that obtain y where y: "y \<in> set (gd_members g)" "x = ?f y" by (auto simp: mem)
      with ok key [of y] show ?thesis unfolding sets by (simp add: guild_ok_def isBanned_def eff(2))
    qed
    have "guild_ok g'"
      using ok keyed fsts sets eff(2) 1 2 3 unfolding guild_ok_def by simp
    with Pair show ?thesis by simp
  qed
qed

lemma create_effect:
  assumes "workspace_create lc gen ws general user input v g = (Inr w, g')"
  shows "owners_of g' = owners_of g @ [(ws, user)]" "gd_bans g' = gd_bans g"
    "\<exists>m. gd_members g' = gd_members g @ [m] \<and> wm_ws m = ws \<and> wm_user m = user \<and> wm_role m = OWNER"
  using assms by (auto simp: workspace_create_def refused_def Let_def owners_of_def outbox_add_def split: if_splits)

lemma ok_create:
  assumes ok: "guild_ok g" and fresh: "ws \<notin> w_id ` set (gd_workspaces g)"
  shows "guild_ok (snd (workspace_create lc gen ws general user input v g))"
proof (cases "workspace_create lc gen ws general user input v g")
  case (Pair res g')
  show ?thesis
  proof (cases res)
    case (Inl e)
    with Pair ok show ?thesis by (auto simp: workspace_create_def refused_def Let_def split: if_splits)
  next
    case (Inr w)
    note eff = create_effect [OF Pair [unfolded Inr]]
    from eff(3) obtain m where m: "gd_members g' = gd_members g @ [m]" "wm_ws m = ws" "wm_user m = user" "wm_role m = OWNER"
      by blast
    have new: "ws \<notin> fst ` set (owners_of g)" using fresh by (auto simp: owners_of_def)
    have rows: "wm_ws x \<noteq> ws" if "x \<in> set (gd_members g)" for x using ok new that by (auto simp: guild_ok_def)
    have bans: "ban_ws x \<noteq> ws" if "x \<in> set (gd_bans g)" for x using ok new that by (auto simp: guild_ok_def)
    have keyed: "members_keyed g'" using ok rows m(1,2) by (auto simp: members_keyed_def guild_ok_def)
    have ban: "isBanned g' x y = isBanned g x y" for x y by (simp add: isBanned_def eff(2))
    have 1: "\<exists>x \<in> set (gd_members g'). owner_row wo x" if "wo \<in> set (owners_of g')" for wo
      using that ok by (auto simp: eff(1) m guild_ok_def owner_row_def)
    have 2: "wm_ws x \<in> fst ` set (owners_of g') \<and> (wm_role x = OWNER \<longrightarrow> (wm_ws x, wm_user x) \<in> set (owners_of g'))
        \<and> \<not> isBanned g' (wm_ws x) (wm_user x)" if x: "x \<in> set (gd_members g')" for x
    proof (cases "x = m")
      case True
      with m bans show ?thesis unfolding ban by (auto simp: eff(1) isBanned_def)
    next
      case False
      with x m(1) have "x \<in> set (gd_members g)" by simp
      with ok show ?thesis unfolding ban by (auto simp: eff(1) guild_ok_def)
    qed
    have 3: "distinct (map fst (owners_of g'))" "\<forall>b \<in> set (gd_bans g'). ban_ws b \<in> fst ` set (owners_of g')"
      using ok new by (auto simp: eff(1,2) guild_ok_def)
    have "guild_ok g'" using keyed 1 2 3 unfolding guild_ok_def by simp
    with Pair show ?thesis by simp
  qed
qed

lemma owner_route: "WorkspaceRoleGuard (Some OWNER) m = Inr m \<Longrightarrow> wm_role m = OWNER"
  by (cases "wm_role m") (simp_all add: WorkspaceRoleGuard_def ROLE_RANK_def)

lemma guild_flow_ok: "guild_flow g g' \<Longrightarrow> guild_ok g \<Longrightarrow> guild_ok g'"
proof (induction rule: guild_flow.induct)
  case (other g' g)
  then show ?case using guild_ok_cong [OF other(1-3)] by simp
next
  case (transfer g ws user gen target pw)
  show ?case by (rule ok_guarded [OF transfer], rule ok_transfer [OF transfer _ owner_route])
next
  case (review g ws actor gen now dm aid act "note")
  show ?case
  proof (rule ok_guarded [OF review])
    fix m assume "find_workspace g ws \<noteq> None"
    then obtain w where "find_workspace g ws = Some w" by blast
    then show "guild_ok (snd (application_process gen now dm ws aid actor (wm_role m) act note g))"
      by (rule ok_process [OF review])
  qed
next
  case (update_role r g ws actor gen now target)
  show ?case by (rule ok_guarded [OF update_role(2)], rule ok_updateRole [OF update_role(2,1)])
next
  case (remove g ws actor target)
  show ?case by (rule ok_guarded [OF remove], rule ok_member_remove [OF remove])
next
  case (leave g ws user)
  show ?case by (rule ok_guarded [OF leave], rule ok_leave [OF leave])
next
  case (create ws g lc gen general user input verified)
  then show ?case by (intro ok_create)
next
  case (join g lc gen threshold now ws user verified email ip)
  then show ?case by (rule ok_joinPublic)
next
  case (moderate g ws oper gen now undo)
  then show ?case by (intro ok_moderate)
next
  case (accept_link g lc gen threshold now code u)
  then show ?case by (rule ok_accept)
next
  case (accept_mail g lc gen hash threshold token u now)
  then show ?case by (rule ok_acceptByToken)
next
  case (add_directly g ws r gen actor user)
  then show ?case by (intro ok_direct_add)
next
  case (evict g ws user sockets)
  then show ?case by (intro ok_evict)
qed

lemma guild_reach_ok: "guild_flow\<^sup>*\<^sup>* g g' \<Longrightarrow> guild_ok g \<Longrightarrow> guild_ok g'"
  by (induction rule: rtranclp_induct) (auto intro: guild_flow_ok)

section \<open>What overlapping requests and temporary members can break\<close>

text \<open>
  The guard reads the caller's role before the transaction of \<open>transferOwnership\<close>. A second request
  of the former owner whose guard was passed in time hands the workspace to another member as
  well: both are owners then.
\<close>

lemma stale_transfers_leave_two_owners:
  assumes "transferOwnership gen ws a b pw g = (Inr k1, g1)" "transferOwnership gen ws a c pw' g1 = (Inr k2, g2)"
    and "b \<noteq> c"
  shows "\<exists>x \<in> set (gd_members g2). \<exists>y \<in> set (gd_members g2). wm_ws x = ws \<and> wm_user x = b \<and> wm_role x = OWNER
    \<and> wm_ws y = ws \<and> wm_user y = c \<and> wm_role y = OWNER"
proof -
  note e1 = transfer_effect [OF assms(1)] and e2 = transfer_effect [OF assms(2)]
  have row: "\<exists>x \<in> set (gd_members h). wm_ws x = ws \<and> wm_user x = u" if "find_guild_member h ws u \<noteq> None" for h u
    using that by (auto simp: find_guild_member_def find_None_all is_member_row_def)
  from row [OF e1(5)] obtain x where "x \<in> set (gd_members g)" "wm_ws x = ws" "wm_user x = b" by blast
  then have "x\<lparr>wm_role := OWNER\<rparr> \<in> set (gd_members g1)"
    using e1(4) by (auto simp: e1(3) set_update_where is_member_row_def image_iff intro!: bexI [of _ x])
  then have x: "x\<lparr>wm_role := OWNER\<rparr> \<in> set (gd_members g2)"
    using e1(4) assms(3) \<open>wm_user x = b\<close>
    by (auto simp: e2(3) set_update_where is_member_row_def image_iff intro!: bexI [of _ "x\<lparr>wm_role := OWNER\<rparr>"])
  from row [OF e2(5)] obtain y where "y \<in> set (gd_members g1)" "wm_ws y = ws" "wm_user y = c" by blast
  then have "y\<lparr>wm_role := OWNER\<rparr> \<in> set (gd_members g2)"
    using e2(4) by (auto simp: e2(3) set_update_where is_member_row_def image_iff intro!: bexI [of _ y])
  with x \<open>wm_ws x = ws\<close> \<open>wm_user x = b\<close> \<open>wm_ws y = ws\<close> \<open>wm_user y = c\<close> show ?thesis
    by (intro bexI [of _ "x\<lparr>wm_role := OWNER\<rparr>"] bexI [of _ "y\<lparr>wm_role := OWNER\<rparr>"]) simp_all
qed

text \<open>A ban between the checks and the transaction of \<open>accept\<close> is not seen.\<close>

lemma ban_during_accept_is_lost:
  assumes "accept_tx gen i user ip g = Some g'" "isBanned g (inv_ws i) user"
  shows "isBanned g' (inv_ws i) user \<and> (\<exists>m \<in> set (gd_members g'). wm_ws m = inv_ws i \<and> wm_user m = user)"
  using assms
  by (auto simp: accept_tx_def join_commit_def join_commit_as_def insert_member_def isBanned_def split: if_splits)

text \<open>
  A transfer keeps \<open>isTemporary\<close> of the new owner, and the eviction of temporary members does not
  look at the role: when he closes his last connection the workspace has no owner.
\<close>

lemma temporary_owner_is_evicted:
  assumes ok: "guild_ok g" and a: "find_guild_member g ws a = Some m" "wm_role m = OWNER"
    and b: "find_guild_member g ws b = Some t" "gm_isTemporary t"
    and tr: "transferOwnership gen ws a b pw g = (Inr k, g1)"
  shows "\<forall>x \<in> set (gd_members (temp_evict 0 ws b g1)). wm_ws x = ws \<longrightarrow> wm_role x \<noteq> OWNER"
proof -
  note e = transfer_effect [OF tr]
  have ok1: "guild_ok g1" using ok_transfer [OF ok a, of gen b pw] tr by simp
  have t: "t \<in> set (gd_members g)" "wm_ws t = ws" "wm_user t = b" using find_guild_member_SomeD [OF b(1)] by auto
  then have new: "t\<lparr>wm_role := OWNER\<rparr> \<in> set (gd_members g1)"
    using e(4) by (auto simp: e(3) set_update_where is_member_row_def image_iff intro!: bexI [of _ t])
  then have find1: "find_guild_member g1 ws b = Some (t\<lparr>wm_role := OWNER\<rparr>)"
    using find_guild_member_key [OF ok_keyed [OF ok1] new] t by simp
  have one: "wm_user x = b" if "x \<in> set (gd_members g1)" "wm_ws x = ws" "wm_role x = OWNER" for x
    using ok1 that e(1) by (auto simp: guild_ok_def split: if_splits)
  show ?thesis
    using one b(2) find1 by (auto simp: temp_evict_def delete_members_def set_delete_where)
qed

section \<open>Properties\<close>


definition no_guilds :: guild_db where
  "no_guilds = \<lparr>gd_workspaces = [], gd_members = [], gd_roles = [], gd_memberRoles = [], gd_channels = [], gd_bans = [],
     gd_invites = [], gd_applications = [], gd_pendings = [], gd_outbox = [], gd_audit = []\<rparr>"

definition first_guild :: guild_db where
  "first_guild = snd (workspace_create (\<lambda>s. s) role_literal ''w'' ''c'' ''o''
     \<lparr>cw_name = [120], cw_slug = [120, 121], cw_description = None, cw_visibility = None, cw_category = None,
      cw_joinMode = None, cw_emailDomains = None\<rparr> True no_guilds)"

lemma first_guild_row: "map (\<lambda>w. (w_id w, w_ownerId w)) (gd_workspaces first_guild) = [(''w'', ''o'')]"
  by code_simp


end
