(* ===== verification/Reactions.thy ===== *)
theory Reactions
  imports Message_List Channel_Access
begin

text \<open>
  Reactions to messages: \<open>reactions/reactions.service.ts\<close> and the requests of
  \<open>reactions.controller.ts\<close>, which resolve the message's channel, check access with
  \<open>channel-access.service.ts\<close> (theory \<open>Channel_Access\<close>) and gate the adding of a reaction.

  \<open>add\<close> is split where another transaction may commit: \<open>add_read\<close> validates the emoji, looks the
  message up and reads whether the reaction exists; \<open>add_write\<close> acts on that answer. The
  writes that follow the lock on the message row run as one. Messages are only soft-deleted while a
  toggle runs. The user table is the function \<open>username\<close>; the rate limiter's answer and generated
  ids are arguments.
\<close>

section \<open>Tables\<close>

record reaction_row =
  re_id :: id
  re_message :: id
  re_user :: id
  re_emoji :: js_string
  re_custom :: "id option"
  re_createdAt :: int  \<comment> \<open>\<open>TIMESTAMPTZ\<close>: microseconds\<close>

record custom_emoji_row =
  ce_id :: id
  ce_ws :: id
  ce_name :: js_string

datatype reaction_event =
    REACTION_UPDATED "id option" id id id  \<comment> \<open>workspace, channel, message, actor\<close>
  | REACTION_CLEARED "id option" id id id

record reaction_db =
  rd_ws :: ws_db
  rd_archived :: "id list"  \<comment> \<open>channels with \<open>archivedAt\<close>\<close>
  rd_muted :: "id \<Rightarrow> id \<Rightarrow> msec option"  \<comment> \<open>\<open>mutedUntil\<close> of a workspace's member\<close>
  rd_rulesAccepted :: "id \<Rightarrow> id \<Rightarrow> msec option"
  rd_rules :: "id list"  \<comment> \<open>workspaces with a row in WorkspaceRule\<close>
  rd_messages :: "message_row list"
  rd_emojis :: "custom_emoji_row list"
  rd_reactions :: "reaction_row list"
  rd_outbox :: "reaction_event list"

definition MAX_REACTION_KINDS :: nat where "MAX_REACTION_KINDS = 20"
definition MAX_EMOJI_CODEPOINTS :: nat where "MAX_EMOJI_CODEPOINTS = 4"
definition MAX_EMOJI_BYTES :: nat where "MAX_EMOJI_BYTES = 64"
definition REACTION_USERS_MAX_LIMIT :: int where "REACTION_USERS_MAX_LIMIT = 100"

section \<open>Emojis\<close>

text \<open>The iteration of a string (\<open>[...s]\<close>) joins surrogate pairs.\<close>

fun code_points :: "js_string \<Rightarrow> js_string list" where
  "code_points [] = []"
| "code_points [a] = [[a]]"
| "code_points (a # b # s) =
     (if 0xD800 \<le> a \<and> a \<le> 0xDBFF \<and> 0xDC00 \<le> b \<and> b \<le> 0xDFFF then [a, b] # code_points s
      else [a] # code_points (b # s))"

text \<open>\<open>Buffer.byteLength(s, 'utf8')\<close>; a lone surrogate becomes U+FFFD, three bytes.\<close>

definition utf8_bytes :: "js_string \<Rightarrow> nat" where
  "utf8_bytes s = sum_list (map (\<lambda>cp. case cp of
       [a] \<Rightarrow> (if a < 0x80 then 1 else if a < 0x800 then 2 else 3)
     | _ \<Rightarrow> 4) (code_points s))"

definition slug_char :: "nat \<Rightarrow> bool" where
  "slug_char c \<longleftrightarrow> is_js_lower c \<or> is_js_digit c \<or> c = 95"

definition customEmojiName :: "js_string \<Rightarrow> js_string option" where
  \<comment> \<open>\<open>/^:([a-z0-9_]{2,32}):$/\<close>\<close>
  "customEmojiName t =
     (if 4 \<le> length t \<and> length t \<le> 34 \<and> hd t = 58 \<and> last t = 58 \<and> list_all slug_char (butlast (tl t))
      then Some (butlast (tl t)) else None)"

definition validateEmoji :: "js_string \<Rightarrow> error_code + js_string" where
  "validateEmoji raw =
     (let trimmed = js_trim raw
      in if trimmed = [] then Inl VALIDATION_FAILED
         else if utf8_bytes trimmed > MAX_EMOJI_BYTES then Inl VALIDATION_FAILED
         else if customEmojiName trimmed \<noteq> None then Inr trimmed
         else if length (code_points trimmed) > MAX_EMOJI_CODEPOINTS then Inl VALIDATION_FAILED
         else Inr trimmed)"

section \<open>The service\<close>

definition reaction_of :: "id \<Rightarrow> id \<Rightarrow> js_string \<Rightarrow> reaction_row \<Rightarrow> bool" where
  "reaction_of msg u e r \<longleftrightarrow> re_message r = msg \<and> re_user r = u \<and> re_emoji r = e"

definition has_reaction :: "reaction_db \<Rightarrow> id \<Rightarrow> id \<Rightarrow> js_string \<Rightarrow> bool" where
  "has_reaction db msg u e = list_ex (reaction_of msg u e) (rd_reactions db)"

definition delete_reactions :: "(reaction_row \<Rightarrow> bool) \<Rightarrow> reaction_db \<Rightarrow> reaction_db" where
  "delete_reactions p db = db\<lparr>rd_reactions := delete_where p (rd_reactions db)\<rparr>"

definition insert_reaction :: "reaction_row \<Rightarrow> reaction_db \<Rightarrow> reaction_db" where
  \<comment> \<open>\<open>INSERT ... ON CONFLICT DO NOTHING\<close>\<close>
  "insert_reaction r db =
     (if has_reaction db (re_message r) (re_user r) (re_emoji r) then db
      else db\<lparr>rd_reactions := rd_reactions db @ [r]\<rparr>)"

definition kinds :: "reaction_db \<Rightarrow> id \<Rightarrow> nat" where
  \<comment> \<open>\<open>COUNT(DISTINCT emoji)\<close>\<close>
  "kinds db msg = length (remdups (map re_emoji (filter (\<lambda>r. re_message r = msg) (rd_reactions db))))"

definition reaction_count :: "reaction_db \<Rightarrow> id \<Rightarrow> js_string \<Rightarrow> nat" where
  "reaction_count db msg e = length (filter (\<lambda>r. re_message r = msg \<and> re_emoji r = e) (rd_reactions db))"

definition record_reaction :: "reaction_event \<Rightarrow> reaction_db \<Rightarrow> reaction_db" where
  "record_reaction ev db = db\<lparr>rd_outbox := rd_outbox db @ [ev]\<rparr>"

record add_request =
  aq_message :: id
  aq_channel :: id
  aq_ws :: "id option"
  aq_user :: id
  aq_emoji :: js_string
  aq_canAdd :: bool
  aq_timedOut :: bool
  aq_rulesBlocked :: bool

definition add_read :: "reaction_db \<Rightarrow> add_request \<Rightarrow> error_code + (js_string \<times> bool)" where
  "add_read db q = bind_res (validateEmoji (aq_emoji q)) (\<lambda>emoji.
     if list_ex (\<lambda>m. m_id m = aq_message q \<and> m_channelId m = aq_channel q \<and> m_deletedAt m = None) (rd_messages db)
     then Inr (emoji, has_reaction db (aq_message q) (aq_user q) emoji)
     else Inl MESSAGE_NOT_FOUND)"

definition custom_reference :: "reaction_db \<Rightarrow> id option \<Rightarrow> js_string \<Rightarrow> error_code + id option" where
  "custom_reference db ws emoji =
     (case customEmojiName emoji of
        None \<Rightarrow> Inr None
      | Some name \<Rightarrow> (case ws of
          None \<Rightarrow> Inl CUSTOM_EMOJI_NOT_FOUND
        | Some w \<Rightarrow> (case find (\<lambda>ce. ce_ws ce = w \<and> ce_name ce = name) (rd_emojis db) of
            None \<Rightarrow> Inl CUSTOM_EMOJI_NOT_FOUND
          | Some ce \<Rightarrow> Inr (Some (ce_id ce)))))"

definition add_finish :: "add_request \<Rightarrow> js_string \<Rightarrow> bool \<Rightarrow> reaction_db \<Rightarrow>
  (failure + (js_string \<times> nat \<times> bool)) \<times> reaction_db" where
  "add_finish q emoji byMe db =
     (Inr (emoji, reaction_count db (aq_message q) emoji, byMe),
      record_reaction (REACTION_UPDATED (aq_ws q) (aq_channel q) (aq_message q) (aq_user q)) db)"

definition add_insert :: "id \<Rightarrow> int \<Rightarrow> add_request \<Rightarrow> js_string \<Rightarrow> id option \<Rightarrow> reaction_db \<Rightarrow>
  (failure + (js_string \<times> nat \<times> bool)) \<times> reaction_db" where
  "add_insert gen now q emoji custom db =
     (let db1 = insert_reaction \<lparr>re_id = gen, re_message = aq_message q, re_user = aq_user q, re_emoji = emoji,
                  re_custom = custom, re_createdAt = now\<rparr> db
      in if kinds db1 (aq_message q) > MAX_REACTION_KINDS
         then (Inl (Domain REACTION_LIMIT_REACHED),
               delete_reactions (reaction_of (aq_message q) (aq_user q) emoji) db1)
         else add_finish q emoji True db1)"

definition add_write :: "id \<Rightarrow> int \<Rightarrow> add_request \<Rightarrow> js_string \<Rightarrow> bool \<Rightarrow> reaction_db \<Rightarrow>
  (failure + (js_string \<times> nat \<times> bool)) \<times> reaction_db" where
  "add_write gen now q emoji existing = transaction (\<lambda>db.
     if existing
     then (if has_reaction db (aq_message q) (aq_user q) emoji
           then add_finish q emoji False (delete_reactions (reaction_of (aq_message q) (aq_user q) emoji) db)
           else (Inl Uncaught_P2025, db))
     else if aq_timedOut q then (Inl (Domain MEMBER_TIMED_OUT), db)
     else if aq_rulesBlocked q then (Inl (Domain RULES_NOT_ACCEPTED), db)
     else if \<not> aq_canAdd q then (Inl (Domain FORBIDDEN), db)
     else case custom_reference db (aq_ws q) emoji of
            Inl e \<Rightarrow> (Inl (Domain e), db)
          | Inr custom \<Rightarrow> add_insert gen now q emoji custom db)"

definition add :: "id \<Rightarrow> int \<Rightarrow> add_request \<Rightarrow> reaction_db \<Rightarrow>
  (failure + (js_string \<times> nat \<times> bool)) \<times> reaction_db" where
  "add gen now q db =
     (case add_read db q of
        Inl e \<Rightarrow> (Inl (Domain e), db)
      | Inr (emoji, existing) \<Rightarrow> add_write gen now q emoji existing db)"

definition remove_where ::
  "(reaction_row \<Rightarrow> bool) \<Rightarrow> reaction_event \<Rightarrow> reaction_db \<Rightarrow> reaction_db" where
  \<comment> \<open>\<open>deleteMany\<close>, and an event if a row was deleted\<close>
  "remove_where p ev db =
     (if list_ex p (rd_reactions db) then record_reaction ev (delete_reactions p db) else db)"

definition remove_own :: "id \<Rightarrow> id \<Rightarrow> id option \<Rightarrow> id \<Rightarrow> js_string \<Rightarrow> reaction_db \<Rightarrow> (error_code + unit) \<times> reaction_db" where
  "remove_own msg ch ws user raw db =
     (case validateEmoji raw of
        Inl e \<Rightarrow> (Inl e, db)
      | Inr emoji \<Rightarrow> (Inr (), remove_where (reaction_of msg user emoji) (REACTION_UPDATED ws ch msg user) db))"

definition member_role :: "reaction_db \<Rightarrow> id \<Rightarrow> id \<Rightarrow> workspace_role option" where
  "member_role db ws user = map_option mi_role (find_member (rd_ws db) ws user)"

definition may_moderate :: "reaction_db \<Rightarrow> id option \<Rightarrow> id \<Rightarrow> bool" where
  \<comment> \<open>OWNER or ADMIN of the workspace; nobody in a direct message\<close>
  "may_moderate db ws user =
     (case ws of None \<Rightarrow> False
      | Some w \<Rightarrow> (case member_role db w user of None \<Rightarrow> False | Some role \<Rightarrow> role = OWNER \<or> role = ADMIN))"

definition removeByActor ::
  "id \<Rightarrow> id \<Rightarrow> id option \<Rightarrow> id \<Rightarrow> id \<Rightarrow> js_string \<Rightarrow> reaction_db \<Rightarrow> (error_code + unit) \<times> reaction_db" where
  "removeByActor msg ch ws actor target raw db =
     (case validateEmoji raw of
        Inl e \<Rightarrow> (Inl e, db)
      | Inr emoji \<Rightarrow>
          if actor \<noteq> target \<and> \<not> may_moderate db ws actor then (Inl FORBIDDEN, db)
          else (Inr (), remove_where (reaction_of msg target emoji) (REACTION_UPDATED ws ch msg actor) db))"

definition clearAll :: "id \<Rightarrow> id \<Rightarrow> id option \<Rightarrow> id \<Rightarrow> reaction_db \<Rightarrow> reaction_db" where
  "clearAll msg ch ws actor db =
     remove_where (\<lambda>r. re_message r = msg) (REACTION_CLEARED ws ch msg actor) db"

text \<open>The list of reactors, page by page; \<open>emoji_page\<close> is the query with its extra row.\<close>

definition reaction_key :: "reaction_row \<Rightarrow> row_key" where
  \<comment> \<open>\<open>(date_trunc('milliseconds', createdAt), id)\<close>\<close>
  "reaction_key r = (re_createdAt r div 1000, re_id r)"

record emoji_page =
  ep_rows :: "reaction_row list"
  ep_hasMore :: bool
  ep_last :: "row_key option"

definition emoji_rows :: "reaction_db \<Rightarrow> id \<Rightarrow> js_string \<Rightarrow> nat \<Rightarrow> row_key option \<Rightarrow> emoji_page" where
  "emoji_rows db msg emoji n cursor =
     (let rows = take (n + 1) (sort_key reaction_key (filter (\<lambda>r. re_message r = msg \<and> re_emoji r = emoji
                   \<and> (case cursor of None \<Rightarrow> True | Some k \<Rightarrow> k < reaction_key r)) (rd_reactions db)));
          hasMore = (length rows > n);
          page = (if hasMore then take n rows else rows)
      in \<lparr>ep_rows = page, ep_hasMore = hasMore,
          ep_last = (if page = [] then None else Some (reaction_key (last page)))\<rparr>)"

record reactors =
  rx_users :: "(id \<times> js_string option) list"
  rx_nextCursor :: "id option"

definition reactors_of :: "cursor_codec \<Rightarrow> (id \<Rightarrow> js_string option) \<Rightarrow> emoji_page \<Rightarrow> reactors" where
  "reactors_of codec username p =
     \<lparr>rx_users = map (\<lambda>r. (re_user r, username (re_user r))) (ep_rows p),
      rx_nextCursor = (if ep_hasMore p then map_option (encodeCursor codec) (ep_last p) else None)\<rparr>"

definition listEmojiUsers :: "cursor_codec \<Rightarrow> (id \<Rightarrow> js_string option) \<Rightarrow> reaction_db \<Rightarrow> id \<Rightarrow> js_string \<Rightarrow> int
  \<Rightarrow> id option \<Rightarrow> error_code + reactors" where
  "listEmojiUsers codec username db msg raw limit cursor = bind_res (validateEmoji raw) (\<lambda>emoji.
     bind_res (case cursor of None \<Rightarrow> Inr None
               | Some c \<Rightarrow> if c = [] then Inr None else bind_res (decodeCursor codec c) (\<lambda>k. Inr (Some k))) (\<lambda>decoded.
       Inr (reactors_of codec username
              (emoji_rows db msg emoji (nat (min (max 1 limit) REACTION_USERS_MAX_LIMIT)) decoded))))"

section \<open>The requests\<close>

definition resolveChannel :: "reaction_db \<Rightarrow> id \<Rightarrow> error_code + channel" where
  "resolveChannel db i =
     (case find (\<lambda>m. m_id m = i \<and> m_deletedAt m = None) (rd_messages db) of
        None \<Rightarrow> Inl MESSAGE_NOT_FOUND
      | Some m \<Rightarrow> (case find (\<lambda>c. ch_id c = m_channelId m) (db_channels (rd_ws db)) of
          None \<Rightarrow> Inl MESSAGE_NOT_FOUND
        | Some c \<Rightarrow>
            if ch_deleted c then Inl MESSAGE_NOT_FOUND
            else if ch_id c \<in> set (rd_archived db) then Inl CHANNEL_ARCHIVED
            else Inr \<lparr>c_id = ch_id c, c_workspaceId = ch_ws c, c_isPrivate = ch_isPrivate c\<rparr>))"

definition ADD_REACTIONS_BIT :: mask32 where
  "ADD_REACTIONS_BIT = to_int32 (PERMISSIONS ADD_REACTIONS)"

definition react_overrides :: "reaction_db \<Rightarrow> channel \<Rightarrow> id \<Rightarrow> channel_override list" where
  \<comment> \<open>the overrides of the caller, his role and his custom roles\<close>
  "react_overrides db c user =
     (let role = Option.bind (c_workspaceId c) (\<lambda>w. member_role db w user);
          uuids = (case c_workspaceId c of None \<Rightarrow> []
                   | Some w \<Rightarrow> if role = None then [] else memberRoleUuids (rd_ws db) w user)
      in channel_overrides (rd_ws db) (c_id c) user
           ((case role of None \<Rightarrow> [] | Some r \<Rightarrow> [role_literal r]) @ uuids))"

definition canAddReaction :: "channel_override list \<Rightarrow> bool" where
  "canAddReaction overrides =
     (let b = ADD_REACTIONS_BIT;
          roles = filter (\<lambda>ov. principalType ov = principal_type.ROLE) overrides;
          users = filter (\<lambda>ov. principalType ov = principal_type.USER) overrides;
          allowed = True;
          allowed = (if or_masks allowMask roles AND b \<noteq> 0 then True else allowed);
          allowed = (if or_masks denyMask roles AND b \<noteq> 0 then False else allowed);
          allowed = (if or_masks allowMask users AND b \<noteq> 0 then True else allowed);
          allowed = (if or_masks denyMask users AND b \<noteq> 0 then False else allowed)
      in allowed)"

definition toggle_request :: "msec \<Rightarrow> reaction_db \<Rightarrow> id \<Rightarrow> channel \<Rightarrow> id \<Rightarrow> js_string \<Rightarrow> add_request" where
  \<comment> \<open>the arguments \<open>toggle\<close> computes for \<open>add\<close>\<close>
  "toggle_request now db msg c user raw =
     (let w = c_workspaceId c;
          role = Option.bind w (\<lambda>w. member_role db w user);
          per_member = (\<lambda>f. case w of Some w \<Rightarrow> if role = None then None else f w user | None \<Rightarrow> None);
          muted = (case per_member (rd_muted db) of None \<Rightarrow> False | Some t \<Rightarrow> t > now);
          blocked = (case w of None \<Rightarrow> False
                     | Some w \<Rightarrow> role \<noteq> Some OWNER \<and> per_member (rd_rulesAccepted db) = None \<and> w \<in> set (rd_rules db))
      in \<lparr>aq_message = msg, aq_channel = c_id c, aq_ws = w, aq_user = user, aq_emoji = raw,
          aq_canAdd = canAddReaction (react_overrides db c user),
          aq_timedOut = muted, aq_rulesBlocked = blocked\<rparr>)"

datatype reaction_request =
    Toggle id js_string  \<comment> \<open>\<open>POST messages/:id/reactions\<close>\<close>
  | Remove id js_string
  | Remove_User id js_string id
  | Clear id

fun request_message :: "reaction_request \<Rightarrow> id" where
  "request_message (Toggle i _) = i"
| "request_message (Remove i _) = i"
| "request_message (Remove_User i _ _) = i"
| "request_message (Clear i) = i"

definition lift_answer :: "(error_code + unit) \<times> reaction_db \<Rightarrow> (failure + (js_string \<times> nat \<times> bool) option) \<times> reaction_db" where
  "lift_answer r = (case r of (Inl e, db) \<Rightarrow> (Inl (Domain e), db) | (Inr _, db) \<Rightarrow> (Inr None, db))"

fun serve :: "id \<Rightarrow> msec \<Rightarrow> id \<Rightarrow> channel \<Rightarrow> reaction_request \<Rightarrow> reaction_db
  \<Rightarrow> (failure + (js_string \<times> nat \<times> bool) option) \<times> reaction_db" where
  \<comment> \<open>what a handler does once the channel is resolved and readable\<close>
  "serve gen now user c (Toggle i raw) db =
     (case add gen (1000 * now) (toggle_request now db i c user raw) db of
        (Inl e, db') \<Rightarrow> (Inl e, db') | (Inr a, db') \<Rightarrow> (Inr (Some a), db'))"
| "serve gen now user c (Remove i raw) db = lift_answer (remove_own i (c_id c) (c_workspaceId c) user raw db)"
| "serve gen now user c (Remove_User i raw target) db =
     lift_answer (removeByActor i (c_id c) (c_workspaceId c) user target raw db)"
| "serve gen now user c (Clear i) db =
     (if \<not> may_moderate db (c_workspaceId c) user then (Inl (Domain FORBIDDEN), db)
      else (Inr None, clearAll i (c_id c) (c_workspaceId c) user db))"

definition reaction_handler :: "id \<Rightarrow> bool \<Rightarrow> msec \<Rightarrow> id \<Rightarrow> reaction_request \<Rightarrow> perms_cache \<Rightarrow> reaction_db
  \<Rightarrow> (failure + (js_string \<times> nat \<times> bool) option) \<times> reaction_db \<times> perms_cache" where
  "reaction_handler gen limited now user req redis db =
     (if limited then (Inl (Domain RATE_LIMITED), db, redis)
      else case resolveChannel db (request_message req) of
        Inl e \<Rightarrow> (Inl (Domain e), db, redis)
      | Inr c \<Rightarrow> (case requirePermission (rd_ws db) redis now c user P_READ of
          (Inl e, redis') \<Rightarrow> (Inl (Domain e), db, redis')
        | (Inr _, redis') \<Rightarrow> (case serve gen now user c req db of (a, db') \<Rightarrow> (a, db', redis'))))"

section \<open>Any interleaving of requests\<close>

datatype reaction_input =
    In_Write id int add_request js_string bool  \<comment> \<open>the writes of a toggle, with the answer it read earlier\<close>
  | In_Serve id msec id channel reaction_request
  | In_Message_Deleted id msec
  | In_Emoji_Deleted id

fun reaction_step :: "reaction_db \<Rightarrow> reaction_input \<Rightarrow> reaction_db" where
  "reaction_step db (In_Write gen now q emoji existing) = snd (add_write gen now q emoji existing db)"
| "reaction_step db (In_Serve gen now user c req) = snd (serve gen now user c req db)"
| "reaction_step db (In_Message_Deleted i now) =
     db\<lparr>rd_messages := update_where (\<lambda>m. m_id m = i) (\<lambda>m. m\<lparr>m_deletedAt := Some now\<rparr>) (rd_messages db)\<rparr>"
| "reaction_step db (In_Emoji_Deleted i) =
     db\<lparr>rd_emojis := delete_where (\<lambda>ce. ce_id ce = i) (rd_emojis db),
        rd_reactions := update_where (\<lambda>r. re_custom r = Some i) (\<lambda>r. r\<lparr>re_custom := None\<rparr>) (rd_reactions db)\<rparr>"

definition row_of :: "reaction_row \<Rightarrow> id \<times> id \<times> js_string" where
  "row_of r = (re_message r, re_user r, re_emoji r)"

definition reaction_ok :: "reaction_db \<Rightarrow> bool" where
  "reaction_ok db \<longleftrightarrow> distinct (map row_of (rd_reactions db)) \<and> (\<forall>msg. kinds db msg \<le> MAX_REACTION_KINDS)"

section \<open>Lemmas\<close>

lemma kinds_card: "kinds db msg = card (re_emoji ` {r \<in> set (rd_reactions db). re_message r = msg})"
  by (simp add: kinds_def length_remdups_card_conv)

lemma kinds_mono:
  assumes "set (rd_reactions db') \<subseteq> set (rd_reactions db)"
  shows "kinds db' msg \<le> kinds db msg"
  unfolding kinds_card using assms by (intro card_mono image_mono) auto

lemma record_reaction_rows [simp]: "rd_reactions (record_reaction ev db) = rd_reactions db"
  by (simp add: record_reaction_def)

lemma delete_reactions_rows [simp]: "rd_reactions (delete_reactions p db) = filter (\<lambda>r. \<not> p r) (rd_reactions db)"
  by (simp add: delete_reactions_def delete_where_def)

lemma remove_where_rows [simp]: "rd_reactions (remove_where p ev db) = filter (\<lambda>r. \<not> p r) (rd_reactions db)"
  by (auto simp: remove_where_def list_ex_iff)

lemma reaction_ok_cong: "rd_reactions db' = rd_reactions db \<Longrightarrow> reaction_ok db \<Longrightarrow> reaction_ok db'"
  by (simp add: reaction_ok_def kinds_def)

lemma reaction_ok_filter:
  assumes "reaction_ok db" and "rd_reactions db' = filter P (rd_reactions db)"
  shows "reaction_ok db'"
proof -
  from assms have "kinds db' msg \<le> MAX_REACTION_KINDS" for msg
    using kinds_mono [of db' db msg] by (fastforce simp: reaction_ok_def intro: order_trans)
  with assms show ?thesis by (simp add: reaction_ok_def distinct_map_filter)
qed

lemma has_reaction_iff: "has_reaction db msg u e \<longleftrightarrow> (msg, u, e) \<in> row_of ` set (rd_reactions db)"
  by (auto simp: has_reaction_def reaction_of_def row_of_def list_ex_iff image_iff)

lemma insert_reaction_rows:
  "rd_reactions (insert_reaction r db) = (if has_reaction db (re_message r) (re_user r) (re_emoji r)
     then rd_reactions db else rd_reactions db @ [r])"
  by (simp add: insert_reaction_def)

lemma insert_distinct:
  "distinct (map row_of (rd_reactions db)) \<Longrightarrow> distinct (map row_of (rd_reactions (insert_reaction r db)))"
  by (auto simp: insert_reaction_rows has_reaction_iff row_of_def)

lemma insert_other_kinds:
  "msg \<noteq> re_message r \<Longrightarrow> kinds (insert_reaction r db) msg = kinds db msg"
  by (simp add: kinds_def insert_reaction_rows)

lemma add_insert_ok:
  assumes "reaction_ok db" and "fst (add_insert gen now q emoji custom db) = Inr a"
  shows "reaction_ok (snd (add_insert gen now q emoji custom db))"
proof -
  let ?r = "\<lparr>re_id = gen, re_message = aq_message q, re_user = aq_user q, re_emoji = emoji,
      re_custom = custom, re_createdAt = now\<rparr>"
  have "kinds (insert_reaction ?r db) msg \<le> MAX_REACTION_KINDS" for msg
  proof (cases "msg = aq_message q")
    case True
    with assms(2) show ?thesis by (simp add: add_insert_def Let_def split: if_splits)
  next
    case False
    then have "kinds (insert_reaction ?r db) msg = kinds db msg" by (intro insert_other_kinds) simp
    with assms(1) show ?thesis by (simp add: reaction_ok_def)
  qed
  with assms(1) insert_distinct have "reaction_ok (insert_reaction ?r db)" by (simp add: reaction_ok_def)
  then show ?thesis using assms(2)
    by (auto simp: add_insert_def Let_def add_finish_def intro: reaction_ok_cong [rotated] split: if_splits)
qed

lemma add_write_ok: "reaction_ok db \<Longrightarrow> reaction_ok (snd (add_write gen now q emoji existing db))"
proof (cases "add_write gen now q emoji existing db")
  case (Pair a db')
  assume ok: "reaction_ok db"
  show ?thesis
  proof (cases a)
    case (Inl e)
    with Pair ok show ?thesis by (auto simp: add_write_def dest!: transaction_Inl)
  next
    case (Inr b)
    with Pair have "(if existing
      then has_reaction db (aq_message q) (aq_user q) emoji \<and> (Inr b, db') = add_finish q emoji False
             (delete_reactions (reaction_of (aq_message q) (aq_user q) emoji) db)
      else \<exists>custom. (Inr b, db') = add_insert gen now q emoji custom db)"
      by (auto simp: add_write_def transaction_Inr split: if_splits sum.splits intro: sym)
    with ok Pair show ?thesis
      by (auto simp: add_finish_def intro: reaction_ok_filter split: if_splits)
        (metis add_insert_ok fst_conv snd_conv)
  qed
qed

lemma add_ok: "reaction_ok db \<Longrightarrow> reaction_ok (snd (add gen now q db))"
  by (auto simp: add_def add_write_ok split: sum.splits)

lemma add_ok_pair: "add gen now q db = (a, db') \<Longrightarrow> reaction_ok db \<Longrightarrow> reaction_ok db'"
  using add_ok [of db gen now q] by simp

lemma serve_ok: "reaction_ok db \<Longrightarrow> reaction_ok (snd (serve gen now user c req db))"
  by (cases req)
    (auto simp: lift_answer_def remove_own_def removeByActor_def clearAll_def add_ok
       intro: reaction_ok_filter [OF _ remove_where_rows] add_ok_pair split: sum.splits prod.splits)

lemma emoji_deleted_ok: "reaction_ok db \<Longrightarrow> reaction_ok (reaction_step db (In_Emoji_Deleted i))"
proof -
  assume ok: "reaction_ok db"
  define f :: "reaction_row \<Rightarrow> reaction_row"
    where "f r = (if re_custom r = Some i then r\<lparr>re_custom := None\<rparr> else r)" for r
  have f: "row_of (f r) = row_of r" "re_emoji (f r) = re_emoji r" "re_message (f r) = re_message r" for r
    by (simp_all add: row_of_def f_def)
  then have "map re_emoji (filter (\<lambda>r. re_message r = msg) (map f rs)) = map re_emoji (filter (\<lambda>r. re_message r = msg) rs)"
    for msg rs by (induction rs) auto
  moreover have "map row_of (map f rs) = map row_of rs" for rs by (simp add: f)
  moreover have "rd_reactions (reaction_step db (In_Emoji_Deleted i)) = map f (rd_reactions db)"
    by (simp add: update_where_def f_def)
  ultimately show ?thesis using ok by (simp only: reaction_ok_def kinds_def) simp
qed

lemma reaction_step_ok: "reaction_ok db \<Longrightarrow> reaction_ok (reaction_step db i)"
proof (cases i)
  case (In_Emoji_Deleted j)
  then show "reaction_ok db \<Longrightarrow> ?thesis" using emoji_deleted_ok by blast
qed (auto simp: add_write_ok serve_ok intro: reaction_ok_cong [rotated])

interpretation reactions: invariant_machine reaction_step reaction_ok "\<lambda>_. True"
  by unfold_locales (rule reaction_step_ok)

text \<open>C14: however toggles, removals, bulk clears and deletions of messages and of custom emojis
  interleave (a toggle may act on what it read before any number of other requests), the table of
  reactions, once empty, holds at most one row per message, user and emoji, and no message ever
  carries more than twenty kinds of reaction.\<close>

theorem reactions_stay_bounded:
  "distinct (map row_of (rd_reactions (run_steps reaction_step (db\<lparr>rd_reactions := []\<rparr>) ins)))
   \<and> kinds (run_steps reaction_step (db\<lparr>rd_reactions := []\<rparr>) ins) msg \<le> MAX_REACTION_KINDS"
proof -
  have "reaction_ok (db\<lparr>rd_reactions := []\<rparr>)" by (simp add: reaction_ok_def kinds_def)
  from reactions.inv_run [OF this, of ins] show ?thesis by (simp add: reaction_ok_def list_all_iff)
qed

subsection \<open>Single requests\<close>

text \<open>The limit refuses exactly the twenty-first kind: a kind the message has already is never refused.\<close>

lemma limit_exact:
  assumes "reaction_ok db" and "\<not> has_reaction db (aq_message q) (aq_user q) emoji"
  shows "fst (add_insert gen now q emoji custom db) = Inl (Domain REACTION_LIMIT_REACHED) \<longleftrightarrow>
     kinds db (aq_message q) = MAX_REACTION_KINDS \<and> reaction_count db (aq_message q) emoji = 0"
proof -
  let ?r = "\<lparr>re_id = gen, re_message = aq_message q, re_user = aq_user q, re_emoji = emoji,
      re_custom = custom, re_createdAt = now\<rparr>"
  let ?K = "re_emoji ` {r \<in> set (rd_reactions db). re_message r = aq_message q}"
  have "{r \<in> set (rd_reactions (insert_reaction ?r db)). re_message r = aq_message q}
      = insert ?r {r \<in> set (rd_reactions db). re_message r = aq_message q}"
    using assms(2) by (auto simp: insert_reaction_rows)
  then have "kinds (insert_reaction ?r db) (aq_message q) = card (insert emoji ?K)" by (simp add: kinds_card)
  also have "\<dots> = (if emoji \<in> ?K then kinds db (aq_message q) else Suc (kinds db (aq_message q)))"
    by (simp add: kinds_card card_insert_if)
  finally have k: "kinds (insert_reaction ?r db) (aq_message q)
    = (if emoji \<in> ?K then kinds db (aq_message q) else Suc (kinds db (aq_message q)))" .
  have "kinds db (aq_message q) \<le> MAX_REACTION_KINDS" using assms(1) by (simp add: reaction_ok_def)
  moreover have "reaction_count db (aq_message q) emoji = 0 \<longleftrightarrow> emoji \<notin> ?K"
    by (auto simp: reaction_count_def filter_empty_conv)
  ultimately show ?thesis using k by (auto simp: add_insert_def Let_def add_finish_def)
qed

text \<open>A toggle that removes asks for no permission, and undoes the toggle that added.\<close>

definition same_target :: "add_request \<Rightarrow> add_request \<Rightarrow> bool" where
  "same_target q q' \<longleftrightarrow> aq_message q' = aq_message q \<and> aq_channel q' = aq_channel q \<and> aq_user q' = aq_user q
     \<and> aq_emoji q' = aq_emoji q"

lemma added_rows:
  assumes "add gen now q db = (Inr (e, n, True), db1)"
  shows "validateEmoji (aq_emoji q) = Inr e" and "\<not> has_reaction db (aq_message q) (aq_user q) e"
    and "\<exists>r. reaction_of (aq_message q) (aq_user q) e r \<and> rd_reactions db1 = rd_reactions db @ [r]"
    and "n = reaction_count db1 (aq_message q) e" and "rd_messages db1 = rd_messages db"
    and "list_ex (\<lambda>m. m_id m = aq_message q \<and> m_channelId m = aq_channel q \<and> m_deletedAt m = None) (rd_messages db)"
proof -
  from assms obtain ex where read: "add_read db q = Inr (e, ex)" and wrote: "add_write gen now q e ex db = (Inr (e, n, True), db1)"
    by (auto simp: add_def add_write_def transaction_Inr add_finish_def add_insert_def Let_def
        split: sum.splits if_splits)
  from read show v: "validateEmoji (aq_emoji q) = Inr e"
    and "list_ex (\<lambda>m. m_id m = aq_message q \<and> m_channelId m = aq_channel q \<and> m_deletedAt m = None) (rd_messages db)"
    by (auto simp: add_read_def bind_res_Inr_iff split: if_splits)
  from read wrote have ex: "\<not> ex" "ex = has_reaction db (aq_message q) (aq_user q) e"
    by (auto simp: add_read_def bind_res_Inr_iff add_write_def transaction_Inr add_finish_def split: if_splits)
  then show no: "\<not> has_reaction db (aq_message q) (aq_user q) e" by simp
  from wrote ex(1) obtain custom where "add_insert gen now q e custom db = (Inr (e, n, True), db1)"
    by (auto simp: add_write_def transaction_Inr split: if_splits sum.splits)
  with no show "\<exists>r. reaction_of (aq_message q) (aq_user q) e r \<and> rd_reactions db1 = rd_reactions db @ [r]"
    and "n = reaction_count db1 (aq_message q) e" and "rd_messages db1 = rd_messages db"
    by (auto simp: add_insert_def Let_def add_finish_def insert_reaction_def reaction_of_def reaction_count_def
        record_reaction_def split: if_splits)
qed

lemma toggle_twice:
  assumes first: "add gen now q db = (Inr (e, n, True), db1)" and same: "same_target q q'"
  shows "\<exists>db2. add gen' now' q' db1 = (Inr (e, n - 1, False), db2) \<and> rd_reactions db2 = rd_reactions db"
proof -
  note a = added_rows [OF first]
  from a(3) obtain r where r: "reaction_of (aq_message q) (aq_user q) e r" "rd_reactions db1 = rd_reactions db @ [r]" by blast
  then have has: "has_reaction db1 (aq_message q) (aq_user q) e" by (auto simp: has_reaction_def)
  have rest: "filter (\<lambda>r. \<not> reaction_of (aq_message q) (aq_user q) e r) (rd_reactions db1) = rd_reactions db"
    using a(2) r by (auto simp: has_reaction_def list_ex_iff filter_id_conv)
  have n: "n - 1 = length (filter (\<lambda>r. re_message r = aq_message q \<and> re_emoji r = e) (rd_reactions db))"
    using a(4) r by (simp add: reaction_count_def reaction_of_def)
  have "add_read db1 q' = Inr (e, True)"
    using a(1,5,6) has same by (simp add: add_read_def same_target_def)
  then show ?thesis using same has rest n
    by (simp add: add_def add_write_def transaction_def add_finish_def same_target_def reaction_count_def)
qed

text \<open>The gate on adding is the five-stage fold of the enforcement matrix over a base that allows.\<close>

lemma ADD_REACTIONS_BIT_exp: "ADD_REACTIONS_BIT = 2 ^ 5"
  by (simp add: ADD_REACTIONS_BIT_def to_int32_def PERMISSIONS_def)

lemma gate_is_fold:
  "canAddReaction ovs \<longleftrightarrow> matrix_has (fold_tiers ADD_REACTIONS_BIT
     (or_masks allowMask (filter (\<lambda>ov. principalType ov = principal_type.ROLE) ovs))
     (or_masks denyMask (filter (\<lambda>ov. principalType ov = principal_type.ROLE) ovs))
     (or_masks allowMask (filter (\<lambda>ov. principalType ov = principal_type.USER) ovs))
     (or_masks denyMask (filter (\<lambda>ov. principalType ov = principal_type.USER) ovs))) ADD_REACTIONS_BIT"
proof -
  have "m AND 2 ^ k \<noteq> 0 \<longleftrightarrow> bit m k" "k < 32 \<Longrightarrow> matrix_has m (2 ^ k) \<longleftrightarrow> bit m k" for m :: mask32 and k
    by (auto simp: matrix_has_def and_exp_eq_0_iff_not_bit mask_subset_iff bit_exp_iff)
  from this(1) [where k = 5] this(2) [where k = 5] show ?thesis
    by (simp only: canAddReaction_def ADD_REACTIONS_BIT_exp Let_def enforce.mbit_fold bit_exp_iff) auto
qed

subsection \<open>Who removes a reaction\<close>

lemma add_loses:
  assumes "r \<in> set (rd_reactions db)" and "r \<notin> set (rd_reactions (snd (add gen now q db)))"
  shows "re_message r = aq_message q \<and> re_user r = aq_user q"
  using assms
  by (auto simp: add_def add_write_def transaction_def add_finish_def add_insert_def Let_def insert_reaction_def
      reaction_of_def split: sum.splits if_splits prod.splits)

lemma serve_loses:
  assumes "r \<in> set (rd_reactions db)" and "r \<notin> set (rd_reactions (snd (serve gen now user c req db)))"
  shows "re_message r = request_message req \<and> (re_user r = user \<or> may_moderate db (c_workspaceId c) user)"
proof (cases req)
  case (Toggle i raw)
  from assms(2) have "r \<notin> set (rd_reactions (snd (add gen (1000 * now) (toggle_request now db i c user raw) db)))"
    by (auto simp: Toggle split: prod.splits sum.splits)
  from add_loses [OF assms(1) this] show ?thesis by (simp add: Toggle toggle_request_def Let_def)
next
  case (Remove i raw)
  with assms show ?thesis by (auto simp: lift_answer_def remove_own_def reaction_of_def split: sum.splits prod.splits)
next
  case (Remove_User i raw target)
  with assms show ?thesis
    by (auto simp: lift_answer_def removeByActor_def reaction_of_def split: sum.splits prod.splits if_splits)
next
  case (Clear i)
  with assms show ?thesis by (auto simp: clearAll_def split: if_splits)
qed

text \<open>C15: a request removes no reaction of another message than its own, and another user's
  reaction only if the caller is OWNER or ADMIN of the workspace of the message's channel; in a
  direct message nobody removes another user's reaction.\<close>

theorem reactions_removed_by_right:
  assumes "r \<in> set (rd_reactions db)"
    and "reaction_handler gen limited now user req redis db = (a, db', redis')"
    and "r \<notin> set (rd_reactions db')"
  shows "re_message r = request_message req
    \<and> (re_user r = user \<or> (\<exists>c w. resolveChannel db (re_message r) = Inr c \<and> c_workspaceId c = Some w
         \<and> (member_role db w user = Some OWNER \<or> member_role db w user = Some ADMIN)))"
proof -
  from assms obtain c where c: "resolveChannel db (request_message req) = Inr c"
    and gone: "r \<notin> set (rd_reactions (snd (serve gen now user c req db)))"
    by (auto simp: reaction_handler_def split: if_splits sum.splits prod.splits)
  from serve_loses [OF assms(1) gone] c show ?thesis
    by (auto simp: may_moderate_def split: option.splits)
qed

subsection \<open>The list of reactors\<close>

definition emoji_reactions :: "reaction_db \<times> id \<times> js_string \<Rightarrow> reaction_row list" where
  "emoji_reactions q = (case q of (db, msg, e) \<Rightarrow>
     sort_key reaction_key (filter (\<lambda>r. re_message r = msg \<and> re_emoji r = e) (rd_reactions db)))"

definition reaction_ids_unique :: "reaction_db \<Rightarrow> bool" where
  "reaction_ids_unique db \<longleftrightarrow> distinct (map re_id (rd_reactions db))"

lemma emoji_reactions_strict:
  assumes "reaction_ids_unique db"
  shows "sorted_wrt (\<lambda>x y. reaction_key x < reaction_key y) (emoji_reactions (db, msg, e))"
proof -
  have "inj_on reaction_key (set (rd_reactions db))" and "distinct (rd_reactions db)"
    using assms by (auto simp: inj_on_def reaction_key_def reaction_ids_unique_def distinct_map)
  then have "distinct (map reaction_key (emoji_reactions (db, msg, e)))"
    by (auto simp: emoji_reactions_def distinct_map inj_on_def)
  moreover have "sorted (map reaction_key (emoji_reactions (db, msg, e)))" by (simp add: emoji_reactions_def)
  ultimately show ?thesis by (metis strict_sorted_iff sorted_wrt_map)
qed

interpretation reactor_pages: keyset "(<)" reaction_key emoji_reactions "\<lambda>q. reaction_ids_unique (fst q)"
  by unfold_locales (auto simp: emoji_reactions_strict)

lemma emoji_rows_eq:
  "emoji_rows db msg e n cursor =
     (let rest = keyset_rest (<) reaction_key (emoji_reactions (db, msg, e)) cursor
      in \<lparr>ep_rows = take n rest, ep_hasMore = (n < length rest),
          ep_last = (if take n rest = [] then None else Some (reaction_key (last (take n rest))))\<rparr>)"
proof -
  have "sort_key reaction_key (filter (\<lambda>r. re_message r = msg \<and> re_emoji r = e
      \<and> (case cursor of None \<Rightarrow> True | Some k \<Rightarrow> k < reaction_key r)) (rd_reactions db))
    = keyset_rest (<) reaction_key (emoji_reactions (db, msg, e)) cursor"
    by (cases cursor) (simp_all add: keyset_rest_def emoji_reactions_def filter_sort)
  then show ?thesis by (simp add: emoji_rows_def Let_def min_def not_less)
qed

text \<open>Reading pages through a view, and a cursor nobody reads.\<close>

lemma walk_pages_map:
  "walk_pages (\<lambda>c. map_option g (fetch c)) items again nxt n c
   = walk_pages fetch (items \<circ> g) (again \<circ> g) (nxt \<circ> g) n c"
  by (induction n arbitrary: c) (auto split: option.splits)

lemma walk_pages_items:
  "walk_pages fetch (map f \<circ> items) again nxt n c = map_option (map (map f)) (walk_pages fetch items again nxt n c)"
  by (induction n arbitrary: c) (auto split: option.splits simp: option.map_comp comp_def)

definition reactor_fetch :: "cursor_codec \<Rightarrow> (id \<Rightarrow> js_string option) \<Rightarrow> reaction_db \<Rightarrow> id \<Rightarrow> js_string \<Rightarrow> int
  \<Rightarrow> id option \<Rightarrow> reactors option" where
  \<comment> \<open>\<open>GET messages/:id/reactions/:emoji/users\<close>\<close>
  "reactor_fetch codec username db msg raw limit c =
     (case listEmojiUsers codec username db msg raw limit c of Inl _ \<Rightarrow> None | Inr p \<Rightarrow> Some p)"

text \<open>Following \<open>nextCursor\<close> from the first page lists every reactor of an emoji exactly once, in
  the order they reacted, even where many reacted within the same millisecond.\<close>

lemma reactors_paging_complete:
  assumes ids: "reaction_ids_unique db" and codec: "codec_ok codec" "\<forall>k. encodeCursor codec k \<noteq> []"
    and e: "validateEmoji raw = Inr e"
  shows "\<exists>pages. walk_pages (reactor_fetch codec username db msg raw limit) rx_users (\<lambda>p. rx_nextCursor p \<noteq> None)
        rx_nextCursor (Suc (length (emoji_reactions (db, msg, e)))) None = Some pages
      \<and> concat pages = map (\<lambda>r. (re_user r, username (re_user r))) (emoji_reactions (db, msg, e))"
proof -
  let ?n = "nat (min (max 1 limit) REACTION_USERS_MAX_LIMIT)" and ?q = "(db, msg, e)"
  let ?fetch = "\<lambda>c. case (case c of None \<Rightarrow> Inr None | Some c \<Rightarrow> if c = [] then Inr None
      else bind_res (decodeCursor codec c) (\<lambda>k. Inr (Some k))) of Inl _ \<Rightarrow> None
    | Inr k \<Rightarrow> Some (emoji_rows db msg e ?n k)"
  let ?user = "\<lambda>r. (re_user r, username (re_user r))"
  let ?nxt = "rx_nextCursor \<circ> reactors_of codec username"
  have n: "0 < ?n" by (auto simp: REACTION_USERS_MAX_LIMIT_def)
  have "\<exists>pages. walk_pages ?fetch ep_rows ((\<lambda>p. rx_nextCursor p \<noteq> None) \<circ> reactors_of codec username) ?nxt
      (Suc (length (emoji_reactions ?q))) (map_option (encodeCursor codec) None) = Some pages
    \<and> concat pages = keyset_rest (<) reaction_key (emoji_reactions ?q) None \<and> (\<forall>p \<in> set pages. length p \<le> ?n)"
  proof (rule reactor_pages.walk [where ?k0.0 = None])
    fix k
    have "(case map_option (encodeCursor codec) k of None \<Rightarrow> Inr None | Some c \<Rightarrow> if c = [] then Inr None
        else bind_res (decodeCursor codec c) (\<lambda>k. Inr (Some k))) = Inr k"
      using codec by (auto simp: codec_ok_def simp del: split_paired_All split: option.split)
    then show "\<exists>p. ?fetch (map_option (encodeCursor codec) k) = Some p
      \<and> ep_rows p = take ?n (keyset_rest (<) reaction_key (emoji_reactions ?q) k)
      \<and> (((\<lambda>p. rx_nextCursor p \<noteq> None) \<circ> reactors_of codec username) p
           \<longleftrightarrow> ?n < length (keyset_rest (<) reaction_key (emoji_reactions ?q) k))
      \<and> (?n < length (keyset_rest (<) reaction_key (emoji_reactions ?q) k) \<longrightarrow> ?nxt p
           = Some (encodeCursor codec (reaction_key (last (take ?n (keyset_rest (<) reaction_key (emoji_reactions ?q) k))))))"
      using n by (simp only: sum.case option.case emoji_rows_eq Let_def reactors_of_def comp_def)
        (auto simp del: split_paired_Ex)
  qed (use ids n in \<open>auto simp: keyset_rest_def\<close>)
  then obtain pages where pages: "walk_pages ?fetch ep_rows ((\<lambda>p. rx_nextCursor p \<noteq> None) \<circ> reactors_of codec username)
      ?nxt (Suc (length (emoji_reactions ?q))) None = Some pages" "concat pages = emoji_reactions ?q"
    by (auto simp: keyset_rest_def)
  have "reactor_fetch codec username db msg raw limit = (\<lambda>c. map_option (reactors_of codec username) (?fetch c))"
    using e by (auto simp: reactor_fetch_def listEmojiUsers_def fun_eq_iff bind_res_def split: option.splits sum.splits)
  moreover have "rx_users \<circ> reactors_of codec username = map ?user \<circ> ep_rows"
    by (simp add: reactors_of_def fun_eq_iff)
  ultimately have "walk_pages (reactor_fetch codec username db msg raw limit) rx_users (\<lambda>p. rx_nextCursor p \<noteq> None)
        rx_nextCursor (Suc (length (emoji_reactions ?q))) None = Some (map (map ?user) pages)"
    using pages(1) by (simp only: walk_pages_map walk_pages_items option.map)
  then show ?thesis using pages(2) by (auto simp: map_concat [symmetric])
qed

section \<open>Examples\<close>

text \<open>A workspace with an owner and two members; one member has reacted to a message.\<close>

definition thumbs :: js_string where "thumbs = [0xD83D, 0xDC4D]"

definition reacted_db :: reaction_db where
  "reacted_db = \<lparr>rd_ws = \<lparr>db_roles = [],
       db_members = [\<lparr>wm_ws = ''w'', wm_user = ''o'', wm_role = OWNER\<rparr>, \<lparr>wm_ws = ''w'', wm_user = ''u'', wm_role = MEMBER\<rparr>,
         \<lparr>wm_ws = ''w'', wm_user = ''v'', wm_role = MEMBER\<rparr>],
       db_memberRoles = [], db_overrides = [],
       db_channels = [\<lparr>ch_id = ''c'', ch_ws = Some ''w'', ch_isPrivate = False, ch_type = ''TEXT'', ch_deleted = False\<rparr>],
       db_audit = []\<rparr>,
     rd_archived = [], rd_muted = (\<lambda>_ _. None), rd_rulesAccepted = (\<lambda>_ _. None), rd_rules = [],
     rd_messages = [plain_row ''m'' 1 None False], rd_emojis = [],
     rd_reactions = [\<lparr>re_id = ''r'', re_message = ''m'', re_user = ''u'', re_emoji = thumbs, re_custom = None,
       re_createdAt = 5\<rparr>], rd_outbox = []\<rparr>"

lemmas reacted_simps = enforcement_ALL_PERMISSIONS_def reacted_db_def thumbs_def plain_row_def reaction_handler_def resolveChannel_def
  requirePermission_def resolveEffective_def find_member_def held_roles_def computeEffectiveForMember_def
  effective_of_member_def computeEnforcementBase_def channel_overrides_def fold_overrides_def or_masks_def
  cacheGet_def cacheSet_def may_moderate_def member_role_def lift_answer_def removeByActor_def validateEmoji_def
  js_trim_def is_js_space_def utf8_bytes_def customEmojiName_def MAX_EMOJI_BYTES_def MAX_EMOJI_CODEPOINTS_def
  remove_where_def reaction_of_def delete_reactions_def delete_where_def record_reaction_def Let_def

lemma owner_removes:
  "\<exists>a db'. reaction_handler ''g'' False 0 ''o'' (Remove_User ''m'' thumbs ''u'') None reacted_db = (a, db', None)
     \<and> rd_reactions db' = []"
  by (simp add: reacted_simps)

lemma member_refused:
  "reaction_handler ''g'' False 0 ''v'' (Remove_User ''m'' thumbs ''u'') None reacted_db
     = (Inl (Domain FORBIDDEN), reacted_db, None)"
  by (simp add: reacted_simps)

theorem reactions_removed_by_right_witness:
  "\<exists>c w. resolveChannel reacted_db ''m'' = Inr c \<and> c_workspaceId c = Some w
      \<and> (member_role reacted_db w ''o'' = Some OWNER \<or> member_role reacted_db w ''o'' = Some ADMIN)"
proof -
  obtain a db' where h: "reaction_handler ''g'' False 0 ''o'' (Remove_User ''m'' thumbs ''u'') None reacted_db = (a, db', None)"
    and gone: "rd_reactions db' = []" using owner_removes by blast
  let ?r = "\<lparr>re_id = ''r'', re_message = ''m'', re_user = ''u'', re_emoji = thumbs, re_custom = None, re_createdAt = 5\<rparr>"
  have "?r \<in> set (rd_reactions reacted_db)" by (simp add: reacted_db_def)
  moreover have "?r \<notin> set (rd_reactions db')" by (simp add: gone)
  ultimately show ?thesis using reactions_removed_by_right [OF _ h, of ?r] by simp
qed

lemma reactors_paging_complete_example:
  "\<exists>pages. walk_pages (reactor_fetch unary_codec (\<lambda>u. Some (js u)) reacted_db ''m'' thumbs 1) rx_users
      (\<lambda>p. rx_nextCursor p \<noteq> None) rx_nextCursor (Suc (length (emoji_reactions (reacted_db, ''m'', thumbs)))) None = Some pages
     \<and> concat pages = [(''u'', Some (js ''u''))]"
proof -
  have "reaction_ids_unique reacted_db" "validateEmoji thumbs = Inr thumbs"
    by (simp_all add: reaction_ids_unique_def reacted_db_def validateEmoji_def thumbs_def js_trim_def is_js_space_def
        utf8_bytes_def customEmojiName_def MAX_EMOJI_BYTES_def MAX_EMOJI_CODEPOINTS_def)
  moreover have "\<forall>k. encodeCursor unary_codec k \<noteq> []" by (simp add: unary_codec_def)
  ultimately have "\<exists>pages. walk_pages (reactor_fetch unary_codec (\<lambda>u. Some (js u)) reacted_db ''m'' thumbs 1) rx_users
      (\<lambda>p. rx_nextCursor p \<noteq> None) rx_nextCursor (Suc (length (emoji_reactions (reacted_db, ''m'', thumbs)))) None = Some pages
     \<and> concat pages = map (\<lambda>r. (re_user r, Some (js (re_user r)))) (emoji_reactions (reacted_db, ''m'', thumbs))"
    using reactors_paging_complete [of reacted_db unary_codec thumbs thumbs "\<lambda>u. Some (js u)" "''m''" 1] unary_codec_ok
    by blast
  moreover have "map (\<lambda>r. (re_user r, Some (js (re_user r)))) (emoji_reactions (reacted_db, ''m'', thumbs)) = [(''u'', Some (js ''u''))]"
    by (simp add: emoji_reactions_def reacted_db_def)
  ultimately show ?thesis by simp
qed

section \<open>Where the code departs from its comments\<close>

text \<open>The family of three (man, woman and boy joined by zero width joiners) is one emoji of five code
  points, so the limit of four, meant for such sequences, refuses it; four letters pass.\<close>

lemma family_refused:
  "validateEmoji [0xD83D, 0xDC68, 0x200D, 0xD83D, 0xDC69, 0x200D, 0xD83D, 0xDC66] = Inl VALIDATION_FAILED"
  "validateEmoji (js ''lgtm'') = Inr (js ''lgtm'')"
  by (simp_all add: validateEmoji_def js_trim_def is_js_space_def utf8_bytes_def customEmojiName_def
      MAX_EMOJI_BYTES_def MAX_EMOJI_CODEPOINTS_def)

text \<open>Two requests of a user that both read his reaction before either removes it: the second fails
  with an error nobody maps, where the direct removal would be a silent success.\<close>

lemma double_toggle_off_fails:
  assumes "add_read db q = Inr (e, True)" and "validateEmoji (aq_emoji q) = Inr e"
  shows "fst (add_write g2 t2 q e True (snd (add_write g1 t1 q e True db))) = Inl Uncaught_P2025"
    and "fst (remove_own (aq_message q) ch ws (aq_user q) (aq_emoji q) (snd (add_write g1 t1 q e True db))) = Inr ()"
proof -
  have "has_reaction db (aq_message q) (aq_user q) e" using assms by (auto simp: add_read_def split: if_splits)
  moreover have "\<not> list_ex (reaction_of m u e') (filter (\<lambda>r. \<not> reaction_of m u e' r) rs)" for m u e' rs
    by (induction rs) auto
  ultimately show "fst (add_write g2 t2 q e True (snd (add_write g1 t1 q e True db))) = Inl Uncaught_P2025"
    by (simp add: add_write_def transaction_def add_finish_def has_reaction_def)
qed (use assms in \<open>simp add: remove_own_def\<close>)

end
