(* ===== verification/Search_Query.thy ===== *)
theory Search_Query
  imports Qufox_Prelude
begin

text \<open>
  The parser of search queries, \<open>search/search-query.parser.ts\<close>, with the part of JavaScript's
  \<open>Date\<close> it uses: \<open>Date.UTC\<close> and the readings \<open>getUTCFullYear\<close>, \<open>getUTCMonth\<close>, \<open>getUTCDate\<close>, as
  ECMAScript defines them on the proleptic Gregorian calendar. Times are milliseconds since the
  epoch. \<open>toLowerCase\<close> is the parameter \<open>lc\<close>.
\<close>

section \<open>Dates\<close>

definition ms_per_day :: int where "ms_per_day = 24 * 60 * 60 * 1000"

definition leap :: "int \<Rightarrow> bool" where
  "leap y \<longleftrightarrow> y mod 4 = 0 \<and> (y mod 100 \<noteq> 0 \<or> y mod 400 = 0)"

definition day_from_year :: "int \<Rightarrow> int" where
  "day_from_year y = 365 * (y - 1970) + (y - 1969) div 4 - (y - 1901) div 100 + (y - 1601) div 400"

text \<open>Months are numbered from zero, as in JavaScript.\<close>

definition month_days :: "int \<Rightarrow> nat \<Rightarrow> int" where
  "month_days y m = [31, if leap y then 29 else 28, 31, 30, 31, 30, 31, 31, 30, 31, 30, 31] ! m"

definition day_of_month :: "int \<Rightarrow> nat \<Rightarrow> int" where
  \<comment> \<open>the day in the year on which a month starts\<close>
  "day_of_month y m = sum_list (map (month_days y) [0..<m])"

definition date_utc :: "int \<Rightarrow> int \<Rightarrow> int \<Rightarrow> msec" where
  \<comment> \<open>\<open>Date.UTC(year, month, date)\<close>; the years 0 to 99 are those of the 20th century\<close>
  "date_utc year month date =
     (let y = (if 0 \<le> year \<and> year \<le> 99 then 1900 + year else year);
          ym = y + month div 12;
          mn = nat (month mod 12)
      in (day_from_year ym + day_of_month ym mn + date - 1) * ms_per_day)"

definition day_number :: "msec \<Rightarrow> int" where "day_number t = t div ms_per_day"

definition year_guess :: "int \<Rightarrow> int" where
  "year_guess d = 1970 + d * 400 div 146097"

definition utc_year :: "msec \<Rightarrow> int" where
  \<comment> \<open>the largest year that starts on or before the day; the guess is off by at most one\<close>
  "utc_year t =
     (let d = day_number t; g = year_guess d
      in if d < day_from_year g then g - 1 else if day_from_year (g + 1) \<le> d then g + 1 else g)"

definition utc_month :: "msec \<Rightarrow> nat" where
  "utc_month t =
     (let y = utc_year t; d = day_number t - day_from_year y
      in length (takeWhile (\<lambda>m. day_of_month y (Suc m) \<le> d) [0..<12]))"

definition utc_date :: "msec \<Rightarrow> int" where
  "utc_date t = (let y = utc_year t in day_number t - day_from_year y - day_of_month y (utc_month t) + 1)"

section \<open>The parser\<close>

datatype has_type = HAS_LINK | HAS_IMAGE | HAS_FILE

record parsed_query =
  pq_text :: js_string
  pq_fromHandle :: "js_string option"
  pq_inChannel :: "js_string option"
  pq_has :: "has_type list"
  pq_isPinned :: bool
  pq_since :: "msec option"
  pq_until :: "msec option"

definition MODIFIER_VALUE_MAX :: nat where "MODIFIER_VALUE_MAX = 64"

definition date_fields :: "js_string \<Rightarrow> (int \<times> int \<times> int) option" where
  \<comment> \<open>\<open>/^(\d{4})-(\d{2})-(\d{2})$/\<close>\<close>
  "date_fields v =
     (if length v = 10 \<and> v ! 4 = 45 \<and> v ! 7 = 45
         \<and> list_all is_js_digit (take 4 v @ take 2 (drop 5 v) @ drop 8 v)
      then Some (int (dec_value (take 4 v)), int (dec_value (take 2 (drop 5 v))), int (dec_value (drop 8 v)))
      else None)"

definition month_fields :: "js_string \<Rightarrow> (int \<times> int) option" where
  \<comment> \<open>\<open>/^(\d{4})-(\d{2})$/\<close>\<close>
  "month_fields v =
     (if length v = 7 \<and> v ! 4 = 45 \<and> list_all is_js_digit (take 4 v @ drop 5 v)
      then Some (int (dec_value (take 4 v)), int (dec_value (drop 5 v))) else None)"

definition parseDateOnly :: "js_string \<Rightarrow> msec option" where
  "parseDateOnly value =
     (case date_fields value of
        None \<Rightarrow> None
      | Some (y, mo, d) \<Rightarrow>
          (let date = date_utc y (mo - 1) d
           in if utc_year date \<noteq> y \<or> int (utc_month date) \<noteq> mo - 1 \<or> utc_date date \<noteq> d then None else Some date))"

definition startOfUtcDay :: "msec \<Rightarrow> msec" where
  "startOfUtcDay t = date_utc (utc_year t) (int (utc_month t)) (utc_date t)"

definition parseDuring :: "js_string \<Rightarrow> msec \<Rightarrow> (msec \<times> msec) option" where
  "parseDuring value now =
     (let today = startOfUtcDay now; oneDay = ms_per_day
      in if value = js ''today'' then Some (today, today + oneDay)
         else if value = js ''yesterday'' then Some (today - oneDay, today)
         else if value = js ''week'' then Some (today - 6 * oneDay, today + oneDay)
         else if value = js ''month'' then Some (today - 29 * oneDay, today + oneDay)
         else case month_fields value of
           None \<Rightarrow> None
         | Some (y, month) \<Rightarrow> if month < 1 \<or> month > 12 then None
             else Some (date_utc y (month - 1) 1, date_utc y month 1))"

definition has_of :: "js_string \<Rightarrow> has_type option" where
  "has_of v = (if v = js ''link'' then Some HAS_LINK else if v = js ''image'' then Some HAS_IMAGE
               else if v = js ''file'' then Some HAS_FILE else None)"

definition strip_mark :: "nat \<Rightarrow> js_string \<Rightarrow> js_string" where
  "strip_mark mark v = (case v of c # rest \<Rightarrow> if c = mark then rest else v | [] \<Rightarrow> v)"

definition later :: "msec option \<Rightarrow> msec \<Rightarrow> msec option" where
  "later bound t = Some (case bound of None \<Rightarrow> t | Some b \<Rightarrow> max b t)"

definition earlier :: "msec option \<Rightarrow> msec \<Rightarrow> msec option" where
  "earlier bound t = Some (case bound of None \<Rightarrow> t | Some b \<Rightarrow> min b t)"

text \<open>A token is a modifier that changes the result, or text.\<close>

definition split_token :: "js_string \<Rightarrow> (js_string \<times> js_string) option" where
  \<comment> \<open>key and value around the first colon\<close>
  "split_token token =
     (let colon = length (takeWhile (\<lambda>c. c \<noteq> 58) token)
      in if colon = length token \<or> colon = 0 then None
         else if drop (colon + 1) token = [] then None
         else Some (take colon token, drop (colon + 1) token))"

definition modifier :: "(js_string \<Rightarrow> js_string) \<Rightarrow> msec \<Rightarrow> js_string \<Rightarrow> (parsed_query \<Rightarrow> parsed_query) option" where
  "modifier lc now token =
     (case split_token token of None \<Rightarrow> None
      | Some (k, value) \<Rightarrow>
         (let key = lc k in
          if key = js ''from'' then
            (let handle = strip_mark 64 value
             in if handle = [] \<or> length handle > MODIFIER_VALUE_MAX then None
                else Some (\<lambda>q. q\<lparr>pq_fromHandle := Some handle\<rparr>))
          else if key = js ''in'' then
            (let name = strip_mark 35 value
             in if name = [] \<or> length name > MODIFIER_VALUE_MAX then None
                else Some (\<lambda>q. q\<lparr>pq_inChannel := Some name\<rparr>))
          else if key = js ''has'' then
            (case has_of (lc value) of None \<Rightarrow> None
             | Some h \<Rightarrow> Some (\<lambda>q. if h \<in> set (pq_has q) then q else q\<lparr>pq_has := pq_has q @ [h]\<rparr>))
          else if key = js ''is'' then
            (if lc value = js ''pinned'' then Some (\<lambda>q. q\<lparr>pq_isPinned := True\<rparr>) else None)
          else if key = js ''before'' then
            (case parseDateOnly value of None \<Rightarrow> None
             | Some d \<Rightarrow> Some (\<lambda>q. q\<lparr>pq_until := earlier (pq_until q) d\<rparr>))
          else if key = js ''after'' then
            (case parseDateOnly value of None \<Rightarrow> None
             | Some d \<Rightarrow> Some (\<lambda>q. q\<lparr>pq_since := later (pq_since q) (d + ms_per_day)\<rparr>))
          else if key = js ''during'' then
            (case parseDuring value now of None \<Rightarrow> None
             | Some (s, u) \<Rightarrow> Some (\<lambda>q. q\<lparr>pq_since := later (pq_since q) s, pq_until := earlier (pq_until q) u\<rparr>))
          else None))"

fun words :: "js_string \<Rightarrow> js_string list" where
  \<comment> \<open>\<open>trim().split(/\s+/)\<close> without empty tokens\<close>
  "words [] = []"
| "words (c # s) =
     (if is_js_space c then words s
      else (case s of
        [] \<Rightarrow> [[c]]
      | d # _ \<Rightarrow> if is_js_space d then [c] # words s
                else (case words s of [] \<Rightarrow> [[c]] | w # ws \<Rightarrow> (c # w) # ws)))"

definition parse_step :: "(js_string \<Rightarrow> js_string) \<Rightarrow> msec \<Rightarrow> parsed_query \<times> js_string list \<Rightarrow> js_string
  \<Rightarrow> parsed_query \<times> js_string list" where
  "parse_step lc now acc token = (case acc of (q, texts) \<Rightarrow>
     (case modifier lc now token of None \<Rightarrow> (q, texts @ [token]) | Some f \<Rightarrow> (f q, texts)))"

fun join_words :: "js_string list \<Rightarrow> js_string" where
  "join_words [] = []"
| "join_words [w] = w"
| "join_words (w # ws) = w @ 32 # join_words ws"

definition no_query :: parsed_query where
  "no_query = \<lparr>pq_text = [], pq_fromHandle = None, pq_inChannel = None, pq_has = [], pq_isPinned = False,
     pq_since = None, pq_until = None\<rparr>"

definition parseSearchQuery :: "(js_string \<Rightarrow> js_string) \<Rightarrow> js_string \<Rightarrow> msec \<Rightarrow> parsed_query" where
  "parseSearchQuery lc raw now =
     (case foldl (parse_step lc now) (no_query, []) (words (js_trim raw)) of
        (q, texts) \<Rightarrow> q\<lparr>pq_text := js_trim (join_words texts)\<rparr>)"

section \<open>Lemmas: the calendar\<close>

lemma div_pred: "0 < n \<Longrightarrow> (a - 1) div n = a div n - (if a mod n = 0 then 1 else 0)" for a n :: int
proof (cases "a mod n = 0")
  case True
  moreover assume "0 < n"
  moreover have "a = n * (a div n) + a mod n" by simp
  ultimately have "a - 1 = n * (a div n - 1) + (n - 1)" by (simp add: algebra_simps)
  with \<open>0 < n\<close> True show ?thesis using int_div_pos_eq [of "a - 1" n "a div n - 1" "n - 1"] by simp
next
  case False
  moreover assume n: "0 < n"
  moreover have "0 \<le> a mod n" "a mod n < n" using n by simp_all
  moreover have "a - 1 = n * (a div n) + (a mod n - 1)" by simp
  ultimately show ?thesis using int_div_pos_eq [of "a - 1" n "a div n" "a mod n - 1"] by simp
qed

lemma div_pred': "0 < n \<Longrightarrow> b = a - 1 \<Longrightarrow> b div n = a div n - (if a mod n = 0 then 1 else 0)" for a n :: int
  by (simp add: div_pred)

definition year_days :: "int \<Rightarrow> int" where
  "year_days y = (if leap y then 366 else 365)"

lemma leap_count:
  "(r \<Longrightarrow> q) \<Longrightarrow> (q \<Longrightarrow> p) \<Longrightarrow>
   (if p then 1 else 0) - (if q then 1 else 0) + (if r then 1 else 0) = (if p \<and> (\<not> q \<or> r) then 1 else (0::int))"
  by (cases p; cases q; cases r) simp_all

lemma day_from_year_Suc: "day_from_year (y + 1) = day_from_year y + year_days y"
proof -
  define f :: "int \<Rightarrow> int" where "f n = (if n dvd y then 1 else 0)" for n
  define a b c where "a = (y - 1968) div 4" and "b = (y - 1900) div 100" and "c = (y - 1600) div 400"
  have "(y - n * k) mod n = y mod n" for n k :: int
    using mod_mult_self2 [of y n "- k"] by simp
  from this [of 4 492] this [of 100 19] this [of 400 4]
  have m: "(y - 1968) mod 4 = y mod 4" "(y - 1900) mod 100 = y mod 100" "(y - 1600) mod 400 = y mod 400" by simp_all
  have "(y - 1969) div 4 = a - f 4" "(y - 1901) div 100 = b - f 100" "(y - 1601) div 400 = c - f 400"
    unfolding a_def b_def c_def f_def dvd_eq_mod_eq_0 m [symmetric] by (rule div_pred'; simp)+
  then have "day_from_year y = 365 * (y - 1970) + (a - f 4) - (b - f 100) + (c - f 400)"
    by (simp only: day_from_year_def)
  moreover have "y + 1 - 1970 = y - 1969" "y + 1 - 1969 = y - 1968" "y + 1 - 1901 = y - 1900" "y + 1 - 1601 = y - 1600"
    by simp_all
  then have "day_from_year (y + 1) = 365 * (y - 1969) + a - b + c"
    by (simp only: day_from_year_def a_def b_def c_def)
  moreover have "f 4 - f 100 + f 400 = (if leap y then 1 else 0)"
  proof -
    have "400 dvd y \<Longrightarrow> 100 dvd y" by (rule dvd_trans [of 100 400 y]) simp
    moreover have "100 dvd y \<Longrightarrow> 4 dvd y" by (rule dvd_trans [of 4 100 y]) simp
    ultimately show ?thesis unfolding leap_def f_def dvd_eq_mod_eq_0 [symmetric] by (rule leap_count)
  qed
  then have "year_days y = 365 + (f 4 - f 100 + f 400)" by (simp add: year_days_def)
  ultimately show ?thesis by simp
qed

lemma day_from_year_less: "x < y \<Longrightarrow> day_from_year x < day_from_year y"
proof -
  have "day_from_year x < day_from_year (x + 1 + int n)" for n
  proof (induction n)
    case 0
    then show ?case by (simp add: day_from_year_Suc year_days_def)
  next
    case (Suc n)
    then show ?case using day_from_year_Suc [of "x + 1 + int n"] by (simp add: year_days_def algebra_simps split: if_splits)
  qed
  from this [of "nat (y - x - 1)"] show "x < y \<Longrightarrow> ?thesis" by simp
qed

lemma day_from_year_bounds:
  "146097 * (y - 1970) - 506 \<le> 400 * day_from_year y" "400 * day_from_year y \<le> 146097 * (y - 1970) + 589"
proof -
  have d: "n * (a div n) \<le> a" "a - n < n * (a div n)" if "0 < n" for a n :: int
    using that pos_mod_bound [of n a] pos_mod_sign [of n a] by (simp_all add: minus_mod_eq_mult_div [symmetric])
  from d [of 4 "y - 1969"] d [of 100 "y - 1901"] d [of 400 "y - 1601"]
  show "146097 * (y - 1970) - 506 \<le> 400 * day_from_year y" "400 * day_from_year y \<le> 146097 * (y - 1970) + 589"
    by (simp_all add: day_from_year_def)
qed

lemma year_guess_bounds: "day_from_year (year_guess d - 1) \<le> d" "d < day_from_year (year_guess d + 2)"
proof -
  define x r where "x = d * 400 div 146097" and "r = d * 400 mod 146097"
  have "146097 * x + r = d * 400" unfolding x_def r_def by (rule mult_div_mod_eq)
  moreover have "0 \<le> r" "r < 146097" unfolding r_def by (rule pos_mod_sign pos_mod_bound; simp)+
  moreover have "year_guess d = 1970 + x" unfolding year_guess_def x_def by (rule refl)
  ultimately show "day_from_year (year_guess d - 1) \<le> d" "d < day_from_year (year_guess d + 2)"
    using day_from_year_bounds(2) [of "1969 + x"] day_from_year_bounds(1) [of "1972 + x"] by simp_all
qed

lemma utc_year_bounds:
  "day_from_year (utc_year t) \<le> day_number t" "day_number t < day_from_year (utc_year t + 1)"
  using year_guess_bounds [of "day_number t"] by (simp_all add: utc_year_def Let_def add.assoc)

lemma utc_year_unique:
  assumes "day_from_year y \<le> day_number t" and "day_number t < day_from_year (y + 1)"
  shows "utc_year t = y"
proof (cases "utc_year t" y rule: linorder_cases)
  case less
  then have "day_from_year (utc_year t + 1) \<le> day_from_year y"
    using day_from_year_less [of "utc_year t + 1" y] by (cases "utc_year t + 1 = y") auto
  with assms(1) utc_year_bounds(2) [of t] show ?thesis by linarith
next
  case greater
  then have "day_from_year (y + 1) \<le> day_from_year (utc_year t)"
    using day_from_year_less [of "y + 1" "utc_year t"] by (cases "y + 1 = utc_year t") auto
  with assms(2) utc_year_bounds(1) [of t] show ?thesis by linarith
qed simp

lemma month_starts:
  "map (day_of_month y) [0..<13] =
     (if leap y then [0, 31, 60, 91, 121, 152, 182, 213, 244, 274, 305, 335, 366]
      else [0, 31, 59, 90, 120, 151, 181, 212, 243, 273, 304, 334, 365])"
  by (simp add: day_of_month_def month_days_def upt_conv_Cons)

lemma day_of_month_values:
  "day_of_month y 0 = 0" "day_of_month y 12 = year_days y"
  "day_of_month y (Suc m) = day_of_month y m + month_days y m"
  by (simp_all add: day_of_month_def month_days_def year_days_def upt_conv_Cons)

lemma month_days_pos: "m < 12 \<Longrightarrow> 28 \<le> month_days y m"
  by (auto simp: month_days_def less_Suc_eq numeral_eq_Suc)

lemma day_of_month_mono: "m \<le> n \<Longrightarrow> n \<le> 12 \<Longrightarrow> day_of_month y m \<le> day_of_month y n"
proof (induction n)
  case (Suc n)
  then show ?case using month_days_pos [of n y] by (auto simp: day_of_month_values le_Suc_eq)
qed simp

definition civil_day :: "int \<Rightarrow> nat \<Rightarrow> int \<Rightarrow> int" where
  \<comment> \<open>the number of a day of the calendar\<close>
  "civil_day y m d = day_from_year y + day_of_month y m + d - 1"

definition real_date :: "int \<Rightarrow> nat \<Rightarrow> int \<Rightarrow> bool" where
  "real_date y m d \<longleftrightarrow> m < 12 \<and> 1 \<le> d \<and> d \<le> month_days y m"

lemma takeWhile_upt:
  fixes n :: nat
  assumes "m < n" and "\<And>k. k < m \<Longrightarrow> P k" and "\<not> P m"
  shows "length (takeWhile P [0..<n]) = m"
proof -
  have "[0..<n] = [0..<m] @ m # [Suc m..<n]"
    using assms(1) by (metis le_add_diff_inverse less_imp_le_nat upt_add_eq_append upt_conv_Cons zero_le)
  moreover have "takeWhile P ([0..<m] @ m # [Suc m..<n]) = [0..<m]"
    using assms(2,3) by (subst takeWhile_append2) auto
  ultimately show ?thesis by simp
qed

text \<open>The readings of a time are the one real date of its day.\<close>

lemma utc_fields:
  assumes day: "day_number t = civil_day y m d" and real: "real_date y m d"
  shows "utc_year t = y" and "utc_month t = m" and "utc_date t = d"
proof -
  from real have m: "m < 12" "1 \<le> d" "d \<le> month_days y m" by (simp_all add: real_date_def)
  have "0 \<le> day_of_month y m" using day_of_month_mono [of 0 m y] m by (simp add: day_of_month_values)
  moreover have "day_of_month y (Suc m) \<le> year_days y"
    using day_of_month_mono [of "Suc m" 12 y] m by (simp add: day_of_month_values)
  ultimately show y: "utc_year t = y"
    using m day by (intro utc_year_unique) (simp_all add: civil_day_def day_of_month_values day_from_year_Suc)
  have "day_of_month y (Suc k) \<le> day_of_month y m" if "k < m" for k
    using that m by (intro day_of_month_mono) auto
  then have "k < m \<Longrightarrow> day_of_month y (Suc k) \<le> day_number t - day_from_year y" for k
    using m day by (fastforce simp: civil_day_def)
  moreover have "\<not> day_of_month y (Suc m) \<le> day_number t - day_from_year y"
    using m day by (simp add: civil_day_def day_of_month_values)
  ultimately show mo: "utc_month t = m"
    using m by (simp add: utc_month_def Let_def y takeWhile_upt)
  show "utc_date t = d" using day by (simp add: utc_date_def Let_def y mo civil_day_def)
qed

lemma utc_real:
  "real_date (utc_year t) (utc_month t) (utc_date t)" "day_number t = civil_day (utc_year t) (utc_month t) (utc_date t)"
proof -
  define y d where "y = utc_year t" and "d = day_number t - day_from_year y"
  have d: "0 \<le> d" "d < day_of_month y 12"
    using utc_year_bounds [of t] by (simp_all add: y_def d_def day_from_year_Suc day_of_month_values)
  define m where "m = (LEAST m. d < day_of_month y (Suc m))"
  have ex: "d < day_of_month y (Suc 11)" using d by simp
  have m: "d < day_of_month y (Suc m)" "m \<le> 11" unfolding m_def using ex by (rule LeastI, rule Least_le)
  have below: "day_of_month y m \<le> d"
  proof (cases m)
    case (Suc k)
    then show ?thesis using not_less_Least [of k "\<lambda>m. d < day_of_month y (Suc m)"] by (simp add: m_def [symmetric])
  qed (use d in \<open>simp add: day_of_month_values\<close>)
  have real: "real_date y m (d - day_of_month y m + 1)"
    using m below by (simp add: real_date_def day_of_month_values)
  moreover have civ: "day_number t = civil_day y m (d - day_of_month y m + 1)" by (simp add: civil_day_def d_def)
  ultimately show "real_date (utc_year t) (utc_month t) (utc_date t)"
    "day_number t = civil_day (utc_year t) (utc_month t) (utc_date t)"
    by (simp_all only: utc_fields [OF civ real])
qed

text \<open>\<open>Date.UTC\<close> of a month and day within their ranges, from the year 100 on.\<close>

lemma date_utc_month:
  "0 \<le> mo \<Longrightarrow> mo < 12 \<Longrightarrow> date_utc y mo d =
     civil_day (if 0 \<le> y \<and> y \<le> 99 then 1900 + y else y) (nat mo) d * ms_per_day"
  unfolding date_utc_def civil_day_def Let_def by (simp only: div_pos_pos_trivial mod_pos_pos_trivial add_0_right)

lemma year_gap: "day_from_year y + 366 < day_from_year (1900 + y)"
  using day_from_year_bounds(2) [of y] day_from_year_bounds(1) [of "1900 + y"] by simp

lemma day_number_times [simp]: "day_number (k * ms_per_day) = k"
  unfolding day_number_def by (rule nonzero_mult_div_cancel_right) (simp add: ms_per_day_def)

text \<open>\<open>before:\<close> and \<open>after:\<close> accept exactly the real dates of the Gregorian calendar from the year
  100 on, leap years included, and read them as the first millisecond of that day; what JavaScript would
  roll over into another month is refused.\<close>

lemma parse_date_exact:
  "parseDateOnly value = Some t \<longleftrightarrow>
     (case date_fields value of None \<Rightarrow> False
      | Some (y, mo, d) \<Rightarrow> 100 \<le> y \<and> 1 \<le> mo \<and> real_date y (nat (mo - 1)) d
          \<and> t = civil_day y (nat (mo - 1)) d * ms_per_day)"
proof (cases "date_fields value")
  case (Some f)
  obtain y mo d where f: "f = (y, mo, d)" by (cases f)
  have nonneg: "0 \<le> y" using Some f by (auto simp: date_fields_def split: if_splits)
  let ?t = "date_utc y (mo - 1) d"
  have parse: "parseDateOnly value = Some t \<longleftrightarrow>
      utc_year ?t = y \<and> int (utc_month ?t) = mo - 1 \<and> utc_date ?t = d \<and> t = ?t"
    using Some f by (auto simp: parseDateOnly_def Let_def)
  show ?thesis
  proof (cases "100 \<le> y \<and> 1 \<le> mo \<and> mo \<le> 12")
    case True
    then have t: "?t = civil_day y (nat (mo - 1)) d * ms_per_day" using date_utc_month [of "mo - 1" y d] by simp
    show ?thesis
    proof (cases "real_date y (nat (mo - 1)) d")
      case real: True
      with utc_fields [of ?t y "nat (mo - 1)" d] t True show ?thesis by (auto simp: parse Some f)
    next
      case False
      have "\<not> (utc_year ?t = y \<and> int (utc_month ?t) = mo - 1 \<and> utc_date ?t = d)"
        using False utc_real(1) [of ?t] by (metis nat_int)
      with False show ?thesis by (auto simp: parse Some f)
    qed
  next
    case False
    have "\<not> (utc_year ?t = y \<and> int (utc_month ?t) = mo - 1 \<and> utc_date ?t = d)"
    proof
      assume a: "utc_year ?t = y \<and> int (utc_month ?t) = mo - 1 \<and> utc_date ?t = d"
      then have "real_date y (utc_month ?t) d" using utc_real(1) [of ?t] by simp
      then have "1 \<le> mo" "mo \<le> 12" using a by (auto simp: real_date_def)
      with False nonneg have y: "0 \<le> y \<and> y \<le> 99" by simp
      have "?t = civil_day (1900 + y) (nat (mo - 1)) d * ms_per_day"
        using date_utc_month [of "mo - 1" y d] y \<open>1 \<le> mo\<close> \<open>mo \<le> 12\<close> by simp
      moreover have "day_number ?t = civil_day y (nat (mo - 1)) d"
        using a utc_real(2) [of ?t] by (metis nat_int)
      ultimately have "day_from_year (1900 + y) = day_from_year y + day_of_month y (nat (mo - 1)) - day_of_month (1900 + y) (nat (mo - 1))"
        by (simp add: civil_day_def)
      moreover have "0 \<le> day_of_month z (nat (mo - 1))" "day_of_month z (nat (mo - 1)) \<le> 366" for z
      proof -
        have "nat (mo - 1) \<le> 12" "year_days z \<le> 366" using \<open>mo \<le> 12\<close> by (simp_all add: year_days_def)
        then show "0 \<le> day_of_month z (nat (mo - 1))" "day_of_month z (nat (mo - 1)) \<le> 366"
          using day_of_month_mono [of 0 "nat (mo - 1)" z] day_of_month_mono [of "nat (mo - 1)" 12 z]
          by (simp_all add: day_of_month_values)
      qed
      from this [of y] this [of "1900 + y"] have "0 \<le> day_of_month (1900 + y) (nat (mo - 1))"
        "day_of_month y (nat (mo - 1)) \<le> 366" by simp_all
      ultimately show False using year_gap [of y] by linarith
    qed
    with False show ?thesis by (auto simp: parse Some f real_date_def)
  qed
qed (simp add: parseDateOnly_def)

section \<open>Lemmas: the window of a query\<close>

definition in_window :: "parsed_query \<Rightarrow> msec \<Rightarrow> bool" where
  \<comment> \<open>the conditions the search puts on \<open>createdAt\<close>\<close>
  "in_window q t \<longleftrightarrow> (case pq_since q of None \<Rightarrow> True | Some s \<Rightarrow> s \<le> t)
     \<and> (case pq_until q of None \<Rightarrow> True | Some u \<Rightarrow> t < u)"

text \<open>What a date modifier means, in days of the calendar.\<close>

definition during_window :: "msec \<Rightarrow> js_string \<Rightarrow> msec \<Rightarrow> bool" where
  "during_window now v t =
     (let d = day_number t; n = day_number now
      in if v = js ''today'' then d = n
         else if v = js ''yesterday'' then d = n - 1
         else if v = js ''week'' then n - 6 \<le> d \<and> d \<le> n
         else if v = js ''month'' then n - 29 \<le> d \<and> d \<le> n
         else case month_fields v of None \<Rightarrow> True
           | Some (y, mo) \<Rightarrow> 1 \<le> mo \<and> mo \<le> 12
               \<longrightarrow> utc_year t = (if y \<le> 99 then 1900 + y else y) \<and> int (utc_month t) = mo - 1)"

definition token_window :: "(js_string \<Rightarrow> js_string) \<Rightarrow> msec \<Rightarrow> js_string \<Rightarrow> msec \<Rightarrow> bool" where
  "token_window lc now token t =
     (case split_token token of None \<Rightarrow> True
      | Some (k, v) \<Rightarrow>
          if lc k = js ''before'' \<or> lc k = js ''after''
          then (case date_fields v of None \<Rightarrow> True
                | Some (y, mo, d) \<Rightarrow> 100 \<le> y \<and> 1 \<le> mo \<and> real_date y (nat (mo - 1)) d \<longrightarrow>
                    (if lc k = js ''before'' then day_number t < civil_day y (nat (mo - 1)) d
                     else civil_day y (nat (mo - 1)) d < day_number t))
          else if lc k = js ''during'' then during_window now v t
          else True)"

lemma day_le_iff: "k * ms_per_day \<le> t \<longleftrightarrow> k \<le> day_number t" "t < k * ms_per_day \<longleftrightarrow> day_number t < k"
proof -
  define q r where "q = t div 86400000" and "r = t mod 86400000"
  have "86400000 * q + r = t" unfolding q_def r_def by (rule mult_div_mod_eq)
  moreover have "0 \<le> r" "r < 86400000" unfolding r_def by (rule pos_mod_sign pos_mod_bound; simp)+
  ultimately have "k * 86400000 \<le> t \<longleftrightarrow> k \<le> q" "t < k * 86400000 \<longleftrightarrow> q < k" by auto
  moreover have "day_number t = q" "ms_per_day = 86400000" by (simp_all add: day_number_def q_def ms_per_day_def)
  ultimately show "k * ms_per_day \<le> t \<longleftrightarrow> k \<le> day_number t" "t < k * ms_per_day \<longleftrightarrow> day_number t < k"
    by (simp_all only:)
qed

lemma start_of_day: "100 \<le> utc_year now \<Longrightarrow> startOfUtcDay now = day_number now * ms_per_day"
  using utc_real [of now] by (simp add: startOfUtcDay_def date_utc_month real_date_def)

lemma in_month_iff:
  assumes "m < 12"
  shows "civil_day y m 1 \<le> day_number t \<and> day_number t < civil_day y m 1 + month_days y m
    \<longleftrightarrow> utc_year t = y \<and> utc_month t = m"
proof
  assume a: "civil_day y m 1 \<le> day_number t \<and> day_number t < civil_day y m 1 + month_days y m"
  define d where "d = day_number t - civil_day y m 1 + 1"
  have "day_number t = civil_day y m d" by (simp add: d_def civil_day_def)
  moreover have "real_date y m d" using a assms by (simp add: d_def real_date_def)
  ultimately show "utc_year t = y \<and> utc_month t = m" using utc_fields by blast
next
  assume "utc_year t = y \<and> utc_month t = m"
  then show "civil_day y m 1 \<le> day_number t \<and> day_number t < civil_day y m 1 + month_days y m"
    using utc_real [of t] by (simp add: real_date_def civil_day_def)
qed

lemma month_end:
  assumes "1 \<le> mo" and "mo \<le> 12" and "0 \<le> y" and "z = (if y \<le> 99 then 1900 + y else y)"
  shows "date_utc y mo 1 = (civil_day z (nat (mo - 1)) 1 + month_days z (nat (mo - 1))) * ms_per_day"
proof (cases "mo = 12")
  case True
  have "day_from_year (z + 1) = day_from_year z + day_of_month z 11 + month_days z 11"
    using day_of_month_values(2) [of z] day_of_month_values(3) [of z 11] by (simp add: day_from_year_Suc)
  with True assms show ?thesis by (simp add: date_utc_def civil_day_def day_of_month_values Let_def)
next
  case False
  obtain m where m: "nat mo = Suc m" "nat (mo - 1) = m" using assms(1) by (cases "nat mo") auto
  with False assms show ?thesis
    by (simp add: date_utc_month civil_day_def day_of_month_values)
qed

lemma month_fields_year: "month_fields v = Some (y, mo) \<Longrightarrow> 0 \<le> y"
  by (auto simp: month_fields_def split: if_splits)

lemma during_window_iff:
  assumes now: "100 \<le> utc_year now"
  shows "(case parseDuring v now of None \<Rightarrow> True | Some (s, u) \<Rightarrow> s \<le> t \<and> t < u) \<longleftrightarrow> during_window now v t"
proof -
  let ?n = "day_number now"
  have span: "a * ms_per_day \<le> t \<and> t < b * ms_per_day \<longleftrightarrow> a \<le> day_number t \<and> day_number t < b" for a b
    by (simp only: day_le_iff)
  have offsets: "?n * ms_per_day + ms_per_day = (?n + 1) * ms_per_day" "?n * ms_per_day - ms_per_day = (?n - 1) * ms_per_day"
    "?n * ms_per_day - 6 * ms_per_day = (?n - 6) * ms_per_day" "?n * ms_per_day - 29 * ms_per_day = (?n - 29) * ms_per_day"
    by (simp_all add: algebra_simps)
  show ?thesis
  proof (cases "v \<in> {js ''today'', js ''yesterday'', js ''week'', js ''month''}")
    case True
    then consider "v = js ''today''" | "v = js ''yesterday''" | "v = js ''week''" | "v = js ''month''" by blast
    then show ?thesis
      by cases (auto simp: parseDuring_def during_window_def Let_def start_of_day [OF now] offsets span)
  next
    case False
    show ?thesis
    proof (cases "month_fields v")
      case None
      with False show ?thesis by (simp add: parseDuring_def during_window_def Let_def)
    next
      case (Some f)
      obtain y mo where f: "f = (y, mo)" by (cases f)
      define z where "z = (if y \<le> 99 then 1900 + y else y)"
      have y: "0 \<le> y" using Some f month_fields_year by simp
      show ?thesis
      proof (cases "1 \<le> mo \<and> mo \<le> 12")
        case True
        then have "date_utc y (mo - 1) 1 = civil_day z (nat (mo - 1)) 1 * ms_per_day"
          using date_utc_month [of "mo - 1" y 1] y by (simp add: z_def)
        moreover have "date_utc y mo 1 = (civil_day z (nat (mo - 1)) 1 + month_days z (nat (mo - 1))) * ms_per_day"
          using month_end [of mo y z] True y z_def by simp
        moreover have "utc_month t = nat (mo - 1) \<longleftrightarrow> int (utc_month t) = mo - 1" "nat (mo - 1) < 12" using True by auto
        ultimately show ?thesis using False Some f True in_month_iff [of "nat (mo - 1)" z t]
          by (simp add: parseDuring_def during_window_def Let_def span z_def [symmetric])
      next
        case False
        with \<open>v \<notin> _\<close> Some f show ?thesis by (auto simp: parseDuring_def during_window_def Let_def)
      qed
    qed
  qed
qed

lemma key_codes [simp]:
  "js ''from'' \<noteq> js ''before''" "js ''from'' \<noteq> js ''after''" "js ''from'' \<noteq> js ''during''"
  "js ''in'' \<noteq> js ''before''" "js ''in'' \<noteq> js ''after''" "js ''in'' \<noteq> js ''during''"
  "js ''has'' \<noteq> js ''before''" "js ''has'' \<noteq> js ''after''" "js ''has'' \<noteq> js ''during''"
  "js ''is'' \<noteq> js ''before''" "js ''is'' \<noteq> js ''after''" "js ''is'' \<noteq> js ''during''"
  "js ''before'' \<noteq> js ''after''" "js ''before'' \<noteq> js ''during''" "js ''after'' \<noteq> js ''during''"
  by simp_all

lemmas key_codes_sym [simp] = key_codes [symmetric]

lemma modifier_keys:
  assumes "split_token token = Some (k, v)"
  shows "lc k = js ''before'' \<Longrightarrow> modifier lc now token
      = map_option (\<lambda>d q. q\<lparr>pq_until := earlier (pq_until q) d\<rparr>) (parseDateOnly v)"
    and "lc k = js ''after'' \<Longrightarrow> modifier lc now token
      = map_option (\<lambda>d q. q\<lparr>pq_since := later (pq_since q) (d + ms_per_day)\<rparr>) (parseDateOnly v)"
    and "lc k = js ''during'' \<Longrightarrow> modifier lc now token
      = map_option (\<lambda>(s, u) q. q\<lparr>pq_since := later (pq_since q) s, pq_until := earlier (pq_until q) u\<rparr>) (parseDuring v now)"
  using assms by (simp_all add: modifier_def del: js_simps split: option.split)

lemma modifier_other:
  assumes "split_token token = Some (k, v)" and "lc k \<notin> {js ''before'', js ''after'', js ''during''}"
    and "modifier lc now token = Some f"
  shows "pq_since (f q) = pq_since q \<and> pq_until (f q) = pq_until q"
proof -
  consider "lc k = js ''from''" | "lc k = js ''in''" | "lc k = js ''has''" | "lc k = js ''is''"
    | "lc k \<notin> {js ''from'', js ''in'', js ''has'', js ''is''}" by blast
  then show ?thesis using assms
    by cases (auto simp: modifier_def Let_def simp del: js_simps split: if_splits option.splits)
qed

lemma window_updates:
  "in_window (q\<lparr>pq_until := earlier (pq_until q) u\<rparr>) t \<longleftrightarrow> in_window q t \<and> t < u"
  "in_window (q\<lparr>pq_since := later (pq_since q) s\<rparr>) t \<longleftrightarrow> in_window q t \<and> s \<le> t"
  "in_window (q\<lparr>pq_since := later (pq_since q) s, pq_until := earlier (pq_until q) u\<rparr>) t
     \<longleftrightarrow> in_window q t \<and> s \<le> t \<and> t < u"
  by (auto simp: in_window_def later_def earlier_def split: option.splits)

lemma window_same:
  "pq_since q' = pq_since q \<Longrightarrow> pq_until q' = pq_until q \<Longrightarrow> in_window q' t = in_window q t"
  by (simp add: in_window_def)

lemma parse_date_value:
  "parseDateOnly v = (case date_fields v of None \<Rightarrow> None
     | Some (y, mo, d) \<Rightarrow> if 100 \<le> y \<and> 1 \<le> mo \<and> real_date y (nat (mo - 1)) d
         then Some (civil_day y (nat (mo - 1)) d * ms_per_day) else None)"
proof (rule option.expand)
  show "(parseDateOnly v = None) = ((case date_fields v of None \<Rightarrow> None
     | Some (y, mo, d) \<Rightarrow> if 100 \<le> y \<and> 1 \<le> mo \<and> real_date y (nat (mo - 1)) d
         then Some (civil_day y (nat (mo - 1)) d * ms_per_day) else None) = None)"
    unfolding not_Some_eq [symmetric] by (auto simp: parse_date_exact split: option.splits prod.splits)
qed (use parse_date_exact [of v "the (parseDateOnly v)"] in \<open>auto split: option.splits if_splits\<close>)

lemma date_token:
  "(case parseDateOnly v of None \<Rightarrow> True | Some d \<Rightarrow> t < d) \<longleftrightarrow>
     (case date_fields v of None \<Rightarrow> True | Some (y, mo, d) \<Rightarrow> 100 \<le> y \<and> 1 \<le> mo \<and> real_date y (nat (mo - 1)) d
        \<longrightarrow> day_number t < civil_day y (nat (mo - 1)) d)"
  "(case parseDateOnly v of None \<Rightarrow> True | Some d \<Rightarrow> d + ms_per_day \<le> t) \<longleftrightarrow>
     (case date_fields v of None \<Rightarrow> True | Some (y, mo, d) \<Rightarrow> 100 \<le> y \<and> 1 \<le> mo \<and> real_date y (nat (mo - 1)) d
        \<longrightarrow> civil_day y (nat (mo - 1)) d < day_number t)"
proof -
  have next_day: "k * ms_per_day + ms_per_day \<le> t \<longleftrightarrow> k < day_number t" for k
  proof -
    have "k * ms_per_day + ms_per_day = (k + 1) * ms_per_day" by (simp add: algebra_simps)
    then show ?thesis by (simp only: day_le_iff(1) add1_zle_eq)
  qed
  show "(case parseDateOnly v of None \<Rightarrow> True | Some d \<Rightarrow> t < d) \<longleftrightarrow>
     (case date_fields v of None \<Rightarrow> True | Some (y, mo, d) \<Rightarrow> 100 \<le> y \<and> 1 \<le> mo \<and> real_date y (nat (mo - 1)) d
        \<longrightarrow> day_number t < civil_day y (nat (mo - 1)) d)"
    "(case parseDateOnly v of None \<Rightarrow> True | Some d \<Rightarrow> d + ms_per_day \<le> t) \<longleftrightarrow>
     (case date_fields v of None \<Rightarrow> True | Some (y, mo, d) \<Rightarrow> 100 \<le> y \<and> 1 \<le> mo \<and> real_date y (nat (mo - 1)) d
        \<longrightarrow> civil_day y (nat (mo - 1)) d < day_number t)"
    by (auto simp: parse_date_value next_day day_le_iff split: option.splits prod.splits if_splits)
qed

lemma modifier_window:
  assumes now: "100 \<le> utc_year now"
  shows "(case modifier lc now token of None \<Rightarrow> token_window lc now token t
     | Some f \<Rightarrow> in_window (f q) t \<longleftrightarrow> in_window q t \<and> token_window lc now token t)"
proof (cases "split_token token")
  case None
  then show ?thesis by (simp add: modifier_def token_window_def)
next
  case (Some kv)
  obtain k v where kv: "kv = (k, v)" by (cases kv)
  note date = date_token [where v = v and t = t]
  consider (other) "lc k \<notin> {js ''before'', js ''after'', js ''during''}" | (before) "lc k = js ''before''"
    | (after) "lc k = js ''after''" | (during) "lc k = js ''during''" by blast
  then show ?thesis
  proof cases
    case other
    then have "token_window lc now token t" using Some kv by (simp add: token_window_def del: js_simps)
    moreover have "modifier lc now token = Some f \<Longrightarrow> in_window (f q) t = in_window q t" for f
      using modifier_other [of token k v lc now f q] other Some kv by (intro window_same) simp_all
    ultimately show ?thesis by (simp split: option.split)
  next
    case before
    then show ?thesis using Some kv date(1)
      by (auto simp: modifier_keys(1) token_window_def window_updates simp del: js_simps split: option.splits)
  next
    case after
    then show ?thesis using Some kv date(2)
      by (auto simp: modifier_keys(2) token_window_def window_updates simp del: js_simps split: option.splits)
  next
    case during
    then show ?thesis using Some kv during_window_iff [OF now, where v = v and t = t]
      by (auto simp: modifier_keys(3) token_window_def window_updates simp del: js_simps split: option.splits)
  qed
qed

lemma fold_window:
  assumes "100 \<le> utc_year now"
  shows "in_window (fst (foldl (parse_step lc now) (q, texts) tokens)) t
    \<longleftrightarrow> in_window q t \<and> (\<forall>token \<in> set tokens. token_window lc now token t)"
proof (induction tokens arbitrary: q texts)
  case (Cons token tokens)
  then show ?case using modifier_window [OF assms, of lc token t q]
    by (auto simp: parse_step_def split: option.splits)
qed simp


section \<open>Lemmas: the text of a query\<close>

lemma words_word:
  assumes "w \<noteq> []" and "list_all (\<lambda>c. \<not> is_js_space c) w"
  shows "words w = [w]" and "is_js_space c \<Longrightarrow> words (w @ c # s) = w # words s"
proof -
  show "words w = [w]" using assms
  proof (induction w)
    case (Cons a w)
    then show ?case by (cases w) simp_all
  qed simp
  assume c: "is_js_space c"
  show "words (w @ c # s) = w # words s"
    using assms
  proof (induction w)
    case (Cons a w)
    with c show ?case by (cases w) simp_all
  qed simp
qed

definition is_word :: "js_string \<Rightarrow> bool" where
  "is_word w \<longleftrightarrow> w \<noteq> [] \<and> list_all (\<lambda>c. \<not> is_js_space c) w"

lemma words_are_words: "list_all is_word (words s)"
  by (induction s rule: words.induct) (auto simp: is_word_def split: list.splits)

lemma words_join: "list_all is_word ws \<Longrightarrow> words (join_words ws) = ws"
proof (induction ws rule: join_words.induct)
  case (3 w v ws)
  then show ?case using words_word(2) [of w 32 "join_words (v # ws)"]
    by (simp add: is_word_def is_js_space_def)
qed (auto simp: is_word_def words_word)

lemma words_dropWhile: "words (dropWhile is_js_space s) = words s"
  by (induction s) auto

lemma words_space_end: "list_all is_js_space u \<Longrightarrow> words (s @ u) = words s"
proof (induction s rule: words.induct)
  case 1
  then show ?case by (induction u) auto
next
  case (2 c s)
  have blank: "words u = []" using 2(4) by (induction u) auto
  show ?case
  proof (cases s)
    case Nil
    with 2(4) blank show ?thesis by (cases u) auto
  next
    case (Cons d s')
    with 2 show ?thesis by (auto split: list.splits)
  qed
qed

lemma words_trim: "words (js_trim s) = words s"
proof -
  let ?s = "dropWhile is_js_space s"
  have "?s = rev (dropWhile is_js_space (rev ?s)) @ rev (takeWhile is_js_space (rev ?s))"
    by (simp flip: rev_append)
  moreover have "list_all is_js_space (rev (takeWhile is_js_space (rev ?s)))"
    by (auto simp: list_all_iff dest: set_takeWhileD)
  ultimately have "words ?s = words (js_trim s)" unfolding js_trim_def by (metis words_space_end)
  then show ?thesis by (simp add: words_dropWhile)
qed

lemma fold_texts:
  "snd (foldl (parse_step lc now) (q, texts) tokens) = texts @ filter (\<lambda>w. modifier lc now w = None) tokens"
  by (induction tokens arbitrary: q texts) (auto simp: parse_step_def split: option.splits)

text \<open>No word of a query is lost: the words of the text handed to the full-text search are exactly
  the words that no modifier consumed, malformed and unknown modifiers included, in their order.\<close>

lemma search_text_exact:
  "words (pq_text (parseSearchQuery lc raw now)) = filter (\<lambda>w. modifier lc now w = None) (words raw)"
proof -
  have "list_all is_word (filter (\<lambda>w. modifier lc now w = None) (words raw))"
    using words_are_words [of raw] by (auto simp: list_all_iff)
  then show ?thesis using fold_texts [of lc now no_query "[]" "words raw"]
    by (auto simp: parseSearchQuery_def words_trim words_join split: prod.splits)
qed

section \<open>Examples\<close>

definition two_days :: js_string where "two_days = js ''before:1970-01-03 after:1969-12-31 hello:''"

lemma two_days_words:
  "words (js_trim two_days) = [js ''before:1970-01-03'', js ''after:1969-12-31'', js ''hello:'']"
  by (simp add: two_days_def js_trim_def is_js_space_def)


section \<open>Where the code departs from its comments\<close>

text \<open>JavaScript reads the years 0 to 99 as those of the 20th century. \<open>before:\<close> and \<open>after:\<close> notice
  and leave the token in the text; \<open>during:\<close> does not, and searches March 1950 for March of the year 50.\<close>

lemma year_fifty:
  "parseDateOnly (js ''0050-03-01'') = None"
  "parseDuring (js ''0050-03'') 0 = parseDuring (js ''1950-03'') 0"
  "parseDuring (js ''1950-03'') 0 \<noteq> None"
  by (simp_all add: parse_date_value date_fields_def parseDuring_def month_fields_def is_js_digit_def dec_value_def
      date_utc_def Let_def)

end
