(* ===== verification/Search.thy ===== *)
theory Search
  imports Search_Query Message_List Channel_Access
begin

text \<open>
  The search of messages, \<open>search/search.service.ts\<close>: which channels a query may see, the filters
  of the query, its order and its cursor, the context of a result, and the recent searches in
  Redis. The permission tables are those of \<open>Channel_Access\<close>, the messages those of \<open>Message_Rows\<close>.

  What the database's full-text search decides is a parameter: \<open>matches q m\<close> is the text clause,
  \<open>rank q m\<close> the rank (a number, only compared). Comparison of names without case is \<open>same_name\<close>;
  the codec of cursors is a pair of functions. Snippets and names of the answer are left out.
\<close>

section \<open>Tables\<close>

record search_db =
  sd_ws :: ws_db
  sd_archived :: "id list"  \<comment> \<open>channels with \<open>archivedAt\<close>\<close>
  sd_names :: "id \<Rightarrow> js_string"  \<comment> \<open>names of channels\<close>
  sd_usernames :: "id \<Rightarrow> js_string"
  sd_messages :: "message_row list"
  sd_attachments :: "attachment_row list"

datatype search_sort = Relevance | Recent

type_synonym search_key = "int \<times> msec \<times> id"

record search_env =
  matches :: "js_string \<Rightarrow> message_row \<Rightarrow> bool"
  rank :: "js_string \<Rightarrow> message_row \<Rightarrow> int"
  same_name :: "js_string \<Rightarrow> js_string \<Rightarrow> bool"
  lower_case :: "js_string \<Rightarrow> js_string"
  enc_cursor :: "search_key \<Rightarrow> id"
  dec_cursor :: "id \<Rightarrow> error_code + search_key"

record search_args =
  sa_query :: js_string
  sa_ws :: id
  sa_user :: id
  sa_channel :: "id option"
  sa_sender :: "id option"
  sa_since :: "msec option"
  sa_until :: "msec option"
  sa_hasAttachment :: bool
  sa_sort :: search_sort
  sa_cursor :: "id option"
  sa_limit :: nat

section \<open>Visible channels\<close>

definition search_base :: "member_info \<Rightarrow> mask32" where
  "search_base member =
     (if mi_memberRoles member = [] then ROLE_BASELINE (mi_role member)
      else bigintToEnforcementMask
             (foldl (\<lambda>acc r. acc OR fromStoragePermissions (role_permissions r)) 0 (mi_memberRoles member)))"

definition searchable :: "search_db \<Rightarrow> id \<Rightarrow> channel_row \<Rightarrow> bool" where
  "searchable db ws c \<longleftrightarrow> ch_ws c = Some ws \<and> \<not> ch_deleted c \<and> ch_id c \<notin> set (sd_archived db)"

record tier_masks =
  tm_roleAllow :: mask32
  tm_roleDeny :: mask32
  tm_userAllow :: mask32
  tm_userDeny :: mask32

definition no_tiers :: tier_masks where
  "no_tiers = \<lparr>tm_roleAllow = 0, tm_roleDeny = 0, tm_userAllow = 0, tm_userDeny = 0\<rparr>"

definition tier_add :: "tier_masks \<Rightarrow> channel_override \<Rightarrow> tier_masks" where
  "tier_add acc ov =
     (if principalType ov = principal_type.USER
      then acc\<lparr>tm_userAllow := tm_userAllow acc OR to_int32 (allowMask ov),
               tm_userDeny := tm_userDeny acc OR to_int32 (denyMask ov)\<rparr>
      else acc\<lparr>tm_roleAllow := tm_roleAllow acc OR to_int32 (allowMask ov),
               tm_roleDeny := tm_roleDeny acc OR to_int32 (denyMask ov)\<rparr>)"

definition by_channel :: "override_row list \<Rightarrow> id \<Rightarrow> tier_masks" where
  \<comment> \<open>the map of masks per channel; a channel without entry has none\<close>
  "by_channel overrides =
     foldl (\<lambda>acc ov. acc(ov_channel ov := tier_add (acc (ov_channel ov)) (channel_override.truncate ov)))
       (\<lambda>_. no_tiers) overrides"

definition visible_mask :: "bool \<Rightarrow> bool \<Rightarrow> mask32 \<Rightarrow> tier_masks \<Rightarrow> mask32" where
  "visible_mask is_private is_owner enforcement_base acc =
     (let bas = (if is_private \<and> \<not> is_owner
                 then (if (tm_userAllow acc OR tm_roleAllow acc) AND P_READ = P_READ then enforcement_base else 0)
                 else enforcement_base);
          msk = bas;
          msk = msk OR tm_roleAllow acc;
          msk = msk AND NOT (tm_roleDeny acc);
          msk = msk OR tm_userAllow acc;
          msk = msk AND NOT (tm_userDeny acc)
      in msk)"

definition visibleChannelIds :: "search_db \<Rightarrow> id \<Rightarrow> id \<Rightarrow> id list" where
  "visibleChannelIds db ws user =
     (case find_member (sd_ws db) ws user of
        None \<Rightarrow> []
      | Some member \<Rightarrow>
          (let principals = role_literal (mi_role member) # map role_id (mi_memberRoles member);
               bas = search_base member;
               channels = filter (searchable db ws) (db_channels (sd_ws db));
               overrides = filter (\<lambda>ov. ov_channel ov \<in> ch_id ` set channels
                   \<and> (principalType ov = principal_type.USER \<and> principalId ov = user
                      \<or> principalType ov = principal_type.ROLE \<and> principalId ov \<in> set principals)) (db_overrides (sd_ws db));
               tiers = by_channel overrides
           in map ch_id (filter (\<lambda>c. visible_mask (ch_isPrivate c) (mi_role member = OWNER) bas (tiers (ch_id c))
                          AND P_READ = P_READ) channels)))"

section \<open>The query\<close>

definition pick_later :: "msec option \<Rightarrow> msec option \<Rightarrow> msec option" where
  \<comment> \<open>\<open>pickTighter(a, b, 'lower')\<close>\<close>
  "pick_later a b = (case a of None \<Rightarrow> b | Some x \<Rightarrow> (case b of None \<Rightarrow> a | Some y \<Rightarrow> if x \<ge> y then a else b))"

definition pick_earlier :: "msec option \<Rightarrow> msec option \<Rightarrow> msec option" where
  \<comment> \<open>\<open>pickTighter(a, b, 'upper')\<close>\<close>
  "pick_earlier a b = (case a of None \<Rightarrow> b | Some x \<Rightarrow> (case b of None \<Rightarrow> a | Some y \<Rightarrow> if x \<le> y then a else b))"

definition resolveVisibleChannelByName :: "search_env \<Rightarrow> search_db \<Rightarrow> id list \<Rightarrow> js_string \<Rightarrow> id \<Rightarrow> id option" where
  "resolveVisibleChannelByName env db visible name ws =
     map_option ch_id (find (\<lambda>c. ch_ws c = Some ws \<and> \<not> ch_deleted c \<and> ch_id c \<in> set visible
         \<and> same_name env (sd_names db (ch_id c)) name) (db_channels (sd_ws db)))"

definition resolveWorkspaceMemberByHandle :: "search_env \<Rightarrow> search_db \<Rightarrow> id \<Rightarrow> js_string \<Rightarrow> id option" where
  "resolveWorkspaceMemberByHandle env db ws handle =
     map_option wm_user (find (\<lambda>m. wm_ws m = ws \<and> same_name env (sd_usernames db (wm_user m)) handle)
       (db_members (sd_ws db)))"

text \<open>What the statement of the query is built from, once the modifiers are resolved.\<close>

record search_plan =
  pl_parsed :: parsed_query
  pl_visible :: "id list"
  pl_sender :: "id option"
  pl_since :: "msec option"
  pl_until :: "msec option"
  pl_recent :: bool
  pl_cursor :: "search_key option"

definition narrow_channels :: "search_env \<Rightarrow> search_db \<Rightarrow> search_args \<Rightarrow> parsed_query \<Rightarrow> id list \<Rightarrow> id list" where
  "narrow_channels env db a parsed visible =
     (let visible = (case sa_channel a of None \<Rightarrow> visible | Some ch \<Rightarrow> filter (\<lambda>i. i = ch) visible)
      in case pq_inChannel parsed of
           None \<Rightarrow> visible
         | Some name \<Rightarrow> (if visible = [] then []
             else case resolveVisibleChannelByName env db visible name (sa_ws a) of None \<Rightarrow> [] | Some i \<Rightarrow> [i]))"

definition empty_range :: "msec option \<Rightarrow> msec option \<Rightarrow> bool" where
  "empty_range since until =
     (case since of None \<Rightarrow> False | Some s \<Rightarrow> (case until of None \<Rightarrow> False | Some u \<Rightarrow> s \<ge> u))"

definition plan_cursor :: "search_env \<Rightarrow> id option \<Rightarrow> error_code + search_key option" where
  "plan_cursor env cursor =
     (case cursor of None \<Rightarrow> Inr None
      | Some c \<Rightarrow> if c = [] then Inr None else bind_res (dec_cursor env c) (\<lambda>k. Inr (Some k)))"

definition plan_sender :: "search_env \<Rightarrow> search_db \<Rightarrow> search_args \<Rightarrow> parsed_query \<Rightarrow> id option option" where
  \<comment> \<open>\<open>None\<close>: nobody can match\<close>
  "plan_sender env db a parsed =
     (case pq_fromHandle parsed of
        None \<Rightarrow> Some (sa_sender a)
      | Some handle \<Rightarrow> (case resolveWorkspaceMemberByHandle env db (sa_ws a) handle of
          None \<Rightarrow> None
        | Some i \<Rightarrow> (case sa_sender a of None \<Rightarrow> Some (Some i) | Some s \<Rightarrow> if s \<noteq> i then None else Some (Some i))))"

definition search_plan_of :: "search_env \<Rightarrow> search_db \<Rightarrow> search_args \<Rightarrow> msec \<Rightarrow> error_code + search_plan option" where
  \<comment> \<open>\<open>None\<close> is the empty answer\<close>
  "search_plan_of env db a now =
     (let parsed = parseSearchQuery (lower_case env) (sa_query a) now;
          since = pick_later (sa_since a) (pq_since parsed);
          until = pick_earlier (sa_until a) (pq_until parsed)
      in if empty_range since until then Inr None
         else bind_res (plan_cursor env (sa_cursor a)) (\<lambda>cursor.
           let visible = narrow_channels env db a parsed (visibleChannelIds db (sa_ws a) (sa_user a))
           in Inr (case plan_sender env db a parsed of None \<Rightarrow> None
               | Some sender \<Rightarrow> if visible = [] then None
                   else Some \<lparr>pl_parsed = parsed, pl_visible = visible, pl_sender = sender, pl_since = since,
                     pl_until = until, pl_recent = (js_trim (pq_text parsed) = [] \<or> sa_sort a = Recent),
                     pl_cursor = cursor\<rparr>)))"

definition search_where :: "search_env \<Rightarrow> search_db \<Rightarrow> bool \<Rightarrow> search_plan \<Rightarrow> message_row \<Rightarrow> bool" where
  \<comment> \<open>the WHERE clause of the base query\<close>
  "search_where env db hasAttachment p m \<longleftrightarrow>
     m_deletedAt m = None \<and> \<not> m_isBroadcast m \<and> m_channelId m \<in> set (pl_visible p)
     \<and> (js_trim (pq_text (pl_parsed p)) = [] \<or> matches env (js_trim (pq_text (pl_parsed p))) m)
     \<and> (case pl_sender p of None \<Rightarrow> True | Some s \<Rightarrow> m_authorId m = s)
     \<and> (case pl_since p of None \<Rightarrow> True | Some s \<Rightarrow> s \<le> m_createdAt m)
     \<and> (case pl_until p of None \<Rightarrow> True | Some u \<Rightarrow> m_createdAt m < u)
     \<and> (hasAttachment \<longrightarrow> list_ex (\<lambda>att. at_messageId att = Some (m_id m) \<and> at_finalized att) (sd_attachments db))
     \<and> (HAS_LINK \<in> set (pq_has (pl_parsed p)) \<longrightarrow> m_hasLink m)
     \<and> (HAS_IMAGE \<in> set (pq_has (pl_parsed p)) \<longrightarrow> m_hasImage m)
     \<and> (HAS_FILE \<in> set (pq_has (pl_parsed p)) \<longrightarrow> m_hasFile m)
     \<and> (pq_isPinned (pl_parsed p) \<longrightarrow> m_pinnedAt m \<noteq> None)"

definition search_key :: "search_env \<Rightarrow> search_plan \<Rightarrow> message_row \<Rightarrow> search_key" where
  \<comment> \<open>the columns a row carries into the cursor\<close>
  "search_key env p m = (rank env (js_trim (pq_text (pl_parsed p))) m, m_createdAt m, m_id m)"

definition order_key :: "bool \<Rightarrow> search_key \<Rightarrow> search_key" where
  \<comment> \<open>what the order compares: by time alone the rank does not count\<close>
  "order_key recent k = (if recent then (0, snd k) else k)"

record search_result =
  sr_rows :: "message_row list"
  sr_nextCursor :: "id option"

definition search_fetch :: "search_env \<Rightarrow> search_db \<Rightarrow> search_args \<Rightarrow> search_plan \<Rightarrow> message_row list" where
  \<comment> \<open>the rows of the statement, one more than the limit\<close>
  "search_fetch env db a p =
     take (sa_limit a + 1) (rev (sort_key (\<lambda>m. order_key (pl_recent p) (search_key env p m))
       (filter (\<lambda>m. search_where env db (sa_hasAttachment a) p m
           \<and> (case pl_cursor p of None \<Rightarrow> True
              | Some k \<Rightarrow> order_key (pl_recent p) (search_key env p m) < order_key (pl_recent p) k))
         (sd_messages db))))"

definition search_answer :: "search_env \<Rightarrow> search_args \<Rightarrow> search_plan \<Rightarrow> message_row list \<Rightarrow> search_result" where
  "search_answer env a p fetched =
     (let filtered = filter (\<lambda>m. m_channelId m \<in> set (pl_visible p)) fetched;
          hasMore = (length filtered > sa_limit a);
          rows = take (sa_limit a) filtered
      in \<lparr>sr_rows = rows,
          sr_nextCursor = (if hasMore \<and> rows \<noteq> [] then Some (enc_cursor env (search_key env p (last rows))) else None)\<rparr>)"

definition search :: "search_env \<Rightarrow> search_db \<Rightarrow> search_args \<Rightarrow> msec \<Rightarrow> error_code + search_result" where
  "search env db a now = bind_res (search_plan_of env db a now) (\<lambda>plan.
     Inr (case plan of None \<Rightarrow> \<lparr>sr_rows = [], sr_nextCursor = None\<rparr>
          | Some p \<Rightarrow> search_answer env a p (search_fetch env db a p)))"

section \<open>The context of a result\<close>

definition CONTEXT_EXCERPT_MAX :: nat where "CONTEXT_EXCERPT_MAX = 200"

definition escapeHtml :: "js_string \<Rightarrow> js_string" where
  "escapeHtml s = concat (map (\<lambda>c. if c = 38 then js ''&amp;'' else if c = 60 then js ''&lt;''
     else if c = 62 then js ''&gt;'' else [c]) s)"

definition truncatePlain :: "js_string \<Rightarrow> js_string" where
  "truncatePlain s =
     (let oneLine = join_words (words s)
      in if length oneLine \<le> CONTEXT_EXCERPT_MAX then oneLine else take CONTEXT_EXCERPT_MAX oneLine @ [0x2026])"

datatype context_row =
    Masked
  | Context id js_string js_string msec  \<comment> \<open>message, sender, text, time\<close>

definition neighborMessage :: "search_db \<Rightarrow> id list \<Rightarrow> id \<Rightarrow> msec \<Rightarrow> id \<Rightarrow> direction \<Rightarrow> context_row option" where
  "neighborMessage db visible ch pivotAt pivotId dir =
     (if ch \<notin> set visible then Some Masked
      else let rows = sort_key row_key (filter (\<lambda>m. m_channelId m = ch \<and> m_deletedAt m = None
                \<and> (case dir of
                     Before \<Rightarrow> m_createdAt m < pivotAt \<or> m_createdAt m = pivotAt \<and> m_id m < pivotId
                   | After \<Rightarrow> m_createdAt m > pivotAt \<or> m_createdAt m = pivotAt \<and> m_id m > pivotId)) (sd_messages db));
               row = (if rows = [] then None else Some (if dir = Before then last rows else hd rows))
           in map_option (\<lambda>m. Context (m_id m) (sd_usernames db (m_authorId m))
                (escapeHtml (truncatePlain (m_contentPlain m))) (m_createdAt m)) row)"

definition threadRootExcerpt :: "search_db \<Rightarrow> id list \<Rightarrow> id \<Rightarrow> bool \<times> js_string option" where
  "threadRootExcerpt db visible i =
     (case Option.bind (find (\<lambda>m. m_id m = i) (sd_messages db)) m_parent of
        None \<Rightarrow> (False, None)
      | Some r \<Rightarrow> (case find (\<lambda>m. m_id m = r) (sd_messages db) of
          None \<Rightarrow> (True, None)
        | Some rt \<Rightarrow>
            if m_deletedAt rt \<noteq> None \<or> m_channelId rt \<notin> set visible then (True, None)
            else (True, Some (escapeHtml (truncatePlain (m_contentPlain rt))))))"

record context_result =
  cx_row :: message_row
  cx_before :: "context_row option"
  cx_after :: "context_row option"
  cx_thread :: "bool \<times> js_string option"

definition searchWithContext :: "search_env \<Rightarrow> search_db \<Rightarrow> search_db \<Rightarrow> search_args \<Rightarrow> msec
  \<Rightarrow> error_code + (context_result list \<times> id option)" where
  \<comment> \<open>the database when the search runs, and when the context is read\<close>
  "searchWithContext env db db' a now = bind_res (search env db a now) (\<lambda>r.
     if sr_rows r = [] then Inr ([], sr_nextCursor r)
     else let visible = visibleChannelIds db' (sa_ws a) (sa_user a)
          in Inr (map (\<lambda>m. \<lparr>cx_row = m,
               cx_before = neighborMessage db' visible (m_channelId m) (m_createdAt m) (m_id m) Before,
               cx_after = neighborMessage db' visible (m_channelId m) (m_createdAt m) (m_id m) After,
               cx_thread = threadRootExcerpt db' visible (m_id m)\<rparr>) (sr_rows r), sr_nextCursor r))"

section \<open>Recent searches\<close>

definition RECENT_SEARCH_MAX :: nat where "RECENT_SEARCH_MAX = 10"
definition RECENT_SEARCH_VALUE_MAX :: nat where "RECENT_SEARCH_VALUE_MAX = 200"

type_synonym recent_lists = "id \<Rightarrow> js_string list"  \<comment> \<open>\<open>search:recent:{userId}\<close>\<close>

definition recentSearches :: "recent_lists \<Rightarrow> id \<Rightarrow> int \<Rightarrow> js_string list" where
  "recentSearches r u limit = take (nat (max 1 (min (int RECENT_SEARCH_MAX) limit))) (r u)"

definition storable :: "js_string \<Rightarrow> bool" where
  "storable trimmed \<longleftrightarrow> trimmed \<noteq> [] \<and> length trimmed \<le> RECENT_SEARCH_VALUE_MAX"

definition pushRecentSearch :: "id \<Rightarrow> js_string \<Rightarrow> recent_lists \<Rightarrow> recent_lists" where
  "pushRecentSearch u query r =
     (let trimmed = js_trim query
      in if \<not> storable trimmed then r
         else r(u := take RECENT_SEARCH_MAX (trimmed # removeAll trimmed (r u))))"

definition removeRecentSearch :: "id \<Rightarrow> js_string \<Rightarrow> recent_lists \<Rightarrow> recent_lists" where
  "removeRecentSearch u entry r =
     (let trimmed = js_trim entry in if \<not> storable trimmed then r else r(u := removeAll trimmed (r u)))"

definition clearRecentSearches :: "id \<Rightarrow> recent_lists \<Rightarrow> recent_lists" where
  "clearRecentSearches u r = r(u := [])"

section \<open>Lemmas: what a search may see\<close>

lemma by_channel_foldl:
  "foldl (\<lambda>acc ov. acc(ov_channel ov := tier_add (acc (ov_channel ov)) (channel_override.truncate ov))) f ovs ch
   = foldl tier_add (f ch) (map channel_override.truncate (filter (\<lambda>ov. ov_channel ov = ch) ovs))"
  by (induction ovs arbitrary: f) auto

lemma tier_add_masks:
  "tm_userAllow (foldl tier_add acc ovs) = tm_userAllow acc OR or_masks allowMask (filter (\<lambda>ov. principalType ov = principal_type.USER) ovs)"
  "tm_userDeny (foldl tier_add acc ovs) = tm_userDeny acc OR or_masks denyMask (filter (\<lambda>ov. principalType ov = principal_type.USER) ovs)"
  "tm_roleAllow (foldl tier_add acc ovs) = tm_roleAllow acc OR or_masks allowMask (filter (\<lambda>ov. principalType ov = principal_type.ROLE) ovs)"
  "tm_roleDeny (foldl tier_add acc ovs) = tm_roleDeny acc OR or_masks denyMask (filter (\<lambda>ov. principalType ov = principal_type.ROLE) ovs)"
proof -
  have t: "principalType ov \<noteq> principal_type.USER \<longleftrightarrow> principalType ov = principal_type.ROLE" for ov :: channel_override
    by (cases "principalType ov") auto
  show "tm_userAllow (foldl tier_add acc ovs) = tm_userAllow acc OR or_masks allowMask (filter (\<lambda>ov. principalType ov = principal_type.USER) ovs)"
    by (rule bit_eqI, induction ovs arbitrary: acc) (auto simp: tier_add_def bit_or_iff bit_or_masks)
  show "tm_userDeny (foldl tier_add acc ovs) = tm_userDeny acc OR or_masks denyMask (filter (\<lambda>ov. principalType ov = principal_type.USER) ovs)"
    by (rule bit_eqI, induction ovs arbitrary: acc) (auto simp: tier_add_def bit_or_iff bit_or_masks)
  show "tm_roleAllow (foldl tier_add acc ovs) = tm_roleAllow acc OR or_masks allowMask (filter (\<lambda>ov. principalType ov = principal_type.ROLE) ovs)"
    by (rule bit_eqI, induction ovs arbitrary: acc) (auto simp: tier_add_def t bit_or_iff bit_or_masks)
  show "tm_roleDeny (foldl tier_add acc ovs) = tm_roleDeny acc OR or_masks denyMask (filter (\<lambda>ov. principalType ov = principal_type.ROLE) ovs)"
    by (rule bit_eqI, induction ovs arbitrary: acc) (auto simp: tier_add_def t bit_or_iff bit_or_masks)
qed

lemma search_base_is_enforcement_base: "search_base member = computeEnforcementBase member"
proof (cases "mi_memberRoles member")
  case (Cons first rest)
  have "foldl (\<lambda>m r. m OR rr_permissions r) a (map resolver_of_row rs)
      = foldl (\<lambda>m r. m OR fromStoragePermissions (role_permissions r)) a rs" for a rs
    by (induction rs arbitrary: a) (simp_all add: resolver_of_row_def)
  with Cons show ?thesis
    by (simp add: search_base_def computeEnforcementBase_def resolveChannelPermissions_def apply_optional_def
        Let_def resolver_of_row_def)
qed (simp add: search_base_def computeEnforcementBase_def)

lemma visible_mask_folds:
  "visible_mask priv (role = OWNER) bas (foldl tier_add no_tiers ovs) = fold_overrides priv role bas ovs"
  by (simp add: visible_mask_def fold_overrides_def tier_add_masks no_tiers_def Let_def)

definition channel_of :: "channel_row \<Rightarrow> channel" where
  "channel_of c = \<lparr>c_id = ch_id c, c_workspaceId = ch_ws c, c_isPrivate = ch_isPrivate c\<rparr>"

lemma tiers_of_channel:
  assumes "ch \<in> chs"
  shows "by_channel (filter (\<lambda>ov. ov_channel ov \<in> chs \<and> P ov) ovs) ch
    = foldl tier_add no_tiers (map channel_override.truncate (filter (\<lambda>ov. ov_channel ov = ch \<and> P ov) ovs))"
  unfolding by_channel_def by_channel_foldl using assms
  by (auto simp: filter_filter intro!: arg_cong [where f = "foldl tier_add no_tiers"] arg_cong [where f = "map _"] filter_cong)

lemma gate_without_cache:
  "fst (requirePermission db None now c user P_READ) = Inr () \<longleftrightarrow>
     (case c_workspaceId c of None \<Rightarrow> (case resolveEffective db None now c user of (Inr m, _) \<Rightarrow> m AND P_READ = P_READ | _ \<Rightarrow> False)
      | Some ws \<Rightarrow> (case find_member db ws user of None \<Rightarrow> False
          | Some member \<Rightarrow> effective_of_member db c user member AND P_READ = P_READ))"
  by (auto simp: requirePermission_def resolveEffective_def computeEffectiveForMember_def cacheGet_def Let_def
      split: option.splits prod.splits sum.splits)

lemma visible_channel_gate:
  "i \<in> set (visibleChannelIds db ws user) \<longleftrightarrow>
     (\<exists>c \<in> set (db_channels (sd_ws db)). ch_id c = i \<and> searchable db ws c
        \<and> fst (requirePermission (sd_ws db) None now (channel_of c) user P_READ) = Inr ())"
proof (cases "find_member (sd_ws db) ws user")
  case None
  then show ?thesis by (auto simp: visibleChannelIds_def gate_without_cache channel_of_def searchable_def)
next
  case (Some member)
  have "visible_mask (ch_isPrivate c) (mi_role member = OWNER) (search_base member)
      (by_channel (filter (\<lambda>ov. ov_channel ov \<in> ch_id ` set (filter (searchable db ws) (db_channels (sd_ws db)))
         \<and> (principalType ov = principal_type.USER \<and> principalId ov = user
            \<or> principalType ov = principal_type.ROLE \<and> principalId ov \<in> set (role_literal (mi_role member) # map role_id (mi_memberRoles member))))
         (db_overrides (sd_ws db))) (ch_id c))
    = effective_of_member (sd_ws db) (channel_of c) user member"
    if "c \<in> set (db_channels (sd_ws db))" "searchable db ws c" for c
    using that by (subst tiers_of_channel)
      (auto simp: visible_mask_folds effective_of_member_def channel_overrides_def channel_of_def
        search_base_is_enforcement_base)
  with Some show ?thesis
    by (auto simp: visibleChannelIds_def Let_def gate_without_cache channel_of_def searchable_def)
qed

text \<open>C11: The channels a search may see, computed for all channels of a workspace in two queries, are
  exactly its live channels that the channel gate lets the user read: the batch computation and
  the permission service never disagree.\<close>

theorem search_sees_what_the_gate_grants:
  "i \<in> set (visibleChannelIds db ws user) \<longleftrightarrow>
     (\<exists>c \<in> set (db_channels (sd_ws db)). ch_id c = i \<and> searchable db ws c
        \<and> fst (requirePermission (sd_ws db) None now (channel_of c) user P_READ) = Inr ())"
  by (rule visible_channel_gate)

lemma find_result: "Some x = find P xs \<Longrightarrow> x \<in> set xs \<and> P x"
  by (auto simp: find_Some_iff2 intro: nth_mem)

lemma narrow_subset: "set (narrow_channels env db a parsed visible) \<subseteq> set visible"
  by (auto simp: narrow_channels_def Let_def resolveVisibleChannelByName_def split: option.splits if_splits
      dest!: find_result)

lemma plan_fields:
  assumes "search_plan_of env db a now = Inr (Some p)"
  shows "pl_parsed p = parseSearchQuery (lower_case env) (sa_query a) now"
    and "pl_since p = pick_later (sa_since a) (pq_since (pl_parsed p))"
    and "pl_until p = pick_earlier (sa_until a) (pq_until (pl_parsed p))"
    and "set (pl_visible p) \<subseteq> set (visibleChannelIds db (sa_ws a) (sa_user a))"
    and "pl_recent p \<longleftrightarrow> js_trim (pq_text (pl_parsed p)) = [] \<or> sa_sort a = Recent"
proof -
  from assms have "\<exists>sender cursor. p = \<lparr>pl_parsed = parseSearchQuery (lower_case env) (sa_query a) now,
      pl_visible = narrow_channels env db a (parseSearchQuery (lower_case env) (sa_query a) now)
        (visibleChannelIds db (sa_ws a) (sa_user a)), pl_sender = sender,
      pl_since = pick_later (sa_since a) (pq_since (parseSearchQuery (lower_case env) (sa_query a) now)),
      pl_until = pick_earlier (sa_until a) (pq_until (parseSearchQuery (lower_case env) (sa_query a) now)),
      pl_recent = (js_trim (pq_text (parseSearchQuery (lower_case env) (sa_query a) now)) = [] \<or> sa_sort a = Recent),
      pl_cursor = cursor\<rparr>"
    by (auto simp: search_plan_of_def Let_def bind_res_Inr_iff split: if_split_asm option.split_asm)
  then show "pl_parsed p = parseSearchQuery (lower_case env) (sa_query a) now"
    "pl_since p = pick_later (sa_since a) (pq_since (pl_parsed p))"
    "pl_until p = pick_earlier (sa_until a) (pq_until (pl_parsed p))"
    "pl_recent p \<longleftrightarrow> js_trim (pq_text (pl_parsed p)) = [] \<or> sa_sort a = Recent"
    "set (pl_visible p) \<subseteq> set (visibleChannelIds db (sa_ws a) (sa_user a))"
    using narrow_subset by (elim exE; simp)+
qed

lemma window_of_bounds:
  "(case pick_later a b of None \<Rightarrow> True | Some s \<Rightarrow> s \<le> t) \<longleftrightarrow>
     (case a of None \<Rightarrow> True | Some s \<Rightarrow> s \<le> t) \<and> (case b of None \<Rightarrow> True | Some s \<Rightarrow> s \<le> t)"
  "(case pick_earlier a b of None \<Rightarrow> True | Some u \<Rightarrow> t < u) \<longleftrightarrow>
     (case a of None \<Rightarrow> True | Some u \<Rightarrow> t < u) \<and> (case b of None \<Rightarrow> True | Some u \<Rightarrow> t < u)"
  by (auto simp: pick_later_def pick_earlier_def split: option.splits)

lemma fetched_match: "m \<in> set (search_fetch env db a p) \<Longrightarrow> m \<in> set (sd_messages db) \<and> search_where env db (sa_hasAttachment a) p m"
  by (auto simp: search_fetch_def dest!: in_set_takeD)

lemma answered_fetched: "m \<in> set (sr_rows (search_answer env a p fetched)) \<Longrightarrow> m \<in> set fetched"
  by (auto simp: search_answer_def Let_def dest!: in_set_takeD)


section \<open>Lemmas: the pages of a search\<close>

definition found :: "search_env \<Rightarrow> search_plan \<Rightarrow> message_row list \<Rightarrow> message_row list" where
  \<comment> \<open>rows in the order of a search\<close>
  "found env p ms = rev (sort_key (\<lambda>m. order_key (pl_recent p) (search_key env p m)) ms)"

lemma found_strict:
  assumes "distinct (map m_id ms)"
  shows "sorted_wrt (\<lambda>x y. order_key (pl_recent p) (search_key env p y) < order_key (pl_recent p) (search_key env p x)) (found env p ms)"
proof -
  let ?key = "\<lambda>m. order_key (pl_recent p) (search_key env p m)"
  have "inj_on ?key (set ms)" and "distinct ms"
    using assms by (auto simp: inj_on_def order_key_def search_key_def distinct_map split: if_splits)
  then have "distinct (map ?key (sort_key ?key ms))" by (auto simp: distinct_map inj_on_def)
  moreover have "sorted (map ?key (sort_key ?key ms))" by simp
  ultimately have "sorted_wrt (<) (map ?key (sort_key ?key ms))" by (simp add: strict_sorted_iff)
  then show ?thesis by (simp add: found_def sorted_wrt_map sorted_wrt_rev)
qed

interpretation search_order: keyset "\<lambda>a b. order_key (pl_recent p) b < order_key (pl_recent p) a" "search_key env p"
  "found env p" "\<lambda>ms. distinct (map m_id ms)" for env p
  by unfold_locales (auto simp: found_strict)

abbreviation found_rest :: "search_env \<Rightarrow> search_plan \<Rightarrow> message_row list \<Rightarrow> search_key option \<Rightarrow> message_row list" where
  "found_rest env p ms \<equiv> keyset_rest (\<lambda>a b. order_key (pl_recent p) b < order_key (pl_recent p) a) (search_key env p) (found env p ms)"

text \<open>The re-check of the visible channels before the answer filters by the snapshot the query
  itself used, so it removes nothing, whatever has changed since.\<close>

lemma recheck_is_vacuous:
  "filter (\<lambda>m. m_channelId m \<in> set (pl_visible p)) (search_fetch env db' a p) = search_fetch env db' a p"
  using fetched_match by (fastforce simp: filter_id_conv search_where_def)

lemma search_page:
  "search_answer env a (p\<lparr>pl_cursor := k\<rparr>) (search_fetch env db a (p\<lparr>pl_cursor := k\<rparr>)) =
     (let rest = found_rest env p (filter (search_where env db (sa_hasAttachment a) p) (sd_messages db)) k;
          rows = take (sa_limit a) rest
      in \<lparr>sr_rows = rows, sr_nextCursor = (if sa_limit a < length rest \<and> rows \<noteq> []
            then Some (enc_cursor env (search_key env p (last rows))) else None)\<rparr>)"
proof -
  have w: "search_where env db h (p\<lparr>pl_cursor := k\<rparr>) = search_where env db h p"
    "search_key env (p\<lparr>pl_cursor := k\<rparr>) = search_key env p" for h k
    by (simp_all add: search_where_def search_key_def fun_eq_iff)
  have "search_fetch env db a (p\<lparr>pl_cursor := k\<rparr>)
      = take (sa_limit a + 1) (found_rest env p (filter (search_where env db (sa_hasAttachment a) p) (sd_messages db)) k)"
    by (cases k) (simp_all add: search_fetch_def w found_def keyset_rest_def filter_sort flip: rev_filter)
  then show ?thesis using recheck_is_vacuous [of "p\<lparr>pl_cursor := k\<rparr>" env db a]
    by (simp add: search_answer_def Let_def w min_def not_less)
qed

definition fetch_page :: "search_env \<Rightarrow> search_db \<Rightarrow> search_args \<Rightarrow> msec \<Rightarrow> id option \<Rightarrow> search_result option" where
  \<comment> \<open>a request with a cursor\<close>
  "fetch_page env db a now c = (case search env db (a\<lparr>sa_cursor := c\<rparr>) now of Inl _ \<Rightarrow> None | Inr r \<Rightarrow> Some r)"

text \<open>Following \<open>nextCursor\<close> from the first page returns every message that matches the query exactly
  once, best rank first (or newest first), in pages within the limit.\<close>

lemma search_pages_complete:
  assumes plan: "search_plan_of env db (a\<lparr>sa_cursor := None\<rparr>) now = Inr (Some p)"
    and ids: "distinct (map m_id (sd_messages db))" and limit: "0 < sa_limit a"
    and codec: "\<forall>k. dec_cursor env (enc_cursor env k) = Inr k \<and> enc_cursor env k \<noteq> []"
  shows "\<exists>pages. walk_pages (fetch_page env db a now) sr_rows (\<lambda>r. sr_nextCursor r \<noteq> None) sr_nextCursor
        (Suc (length (sd_messages db))) None = Some pages
      \<and> concat pages = found env p (filter (search_where env db (sa_hasAttachment a) p) (sd_messages db))
      \<and> (\<forall>q \<in> set pages. length q \<le> sa_limit a)"
proof -
  let ?ms = "filter (search_where env db (sa_hasAttachment a) p) (sd_messages db)"
  have "plan_cursor env (map_option (enc_cursor env) k) = Inr k" for k
    using codec by (cases k) (simp_all add: plan_cursor_def del: split_paired_All)
  then have plans: "search_plan_of env db (a\<lparr>sa_cursor := map_option (enc_cursor env) k\<rparr>) now = Inr (Some (p\<lparr>pl_cursor := k\<rparr>))" for k
    using plan by (auto simp: search_plan_of_def Let_def narrow_channels_def plan_sender_def plan_cursor_def
        split: if_split_asm option.split_asm)
  have page: "fetch_page env db a now (map_option (enc_cursor env) k) = Some
     (let rest = found_rest env p ?ms k; rows = take (sa_limit a) rest
      in \<lparr>sr_rows = rows, sr_nextCursor = (if sa_limit a < length rest \<and> rows \<noteq> []
            then Some (enc_cursor env (search_key env p (last rows))) else None)\<rparr>)" for k
    using search_page [where a = "a\<lparr>sa_cursor := map_option (enc_cursor env) k\<rparr>" and p = p and k = k]
    by (simp add: fetch_page_def search_def plans Let_def)
  have uniq: "distinct (map m_id ?ms)" using ids by (simp add: distinct_map_filter)
  have "length (found_rest env p ?ms None) < Suc (length (sd_messages db))"
    by (simp add: keyset_rest_def found_def less_Suc_eq_le)
  from search_order.walk [OF uniq limit _ _ this, of None "fetch_page env db a now" "enc_cursor env" sr_rows
      "\<lambda>r. sr_nextCursor r \<noteq> None" sr_nextCursor]
  have "\<exists>pages. walk_pages (fetch_page env db a now) sr_rows (\<lambda>r. sr_nextCursor r \<noteq> None) sr_nextCursor
        (Suc (length (sd_messages db))) (map_option (enc_cursor env) None) = Some pages
      \<and> concat pages = found_rest env p ?ms None \<and> (\<forall>q \<in> set pages. length q \<le> sa_limit a)"
    using page limit by (simp add: Let_def)
  then show ?thesis by (simp add: keyset_rest_def)
qed

section \<open>Lemmas: context and recent searches\<close>

text \<open>A neighbour is the message next to the result in its channel: nothing live lies between.\<close>

lemma neighbor_after_adjacent:
  assumes "neighborMessage db visible ch t i After = Some (Context j u txt s)"
    and m: "m \<in> set (sd_messages db)" "m_channelId m = ch" "m_deletedAt m = None" "(t, i) < row_key m"
  shows "(s, j) \<le> row_key m \<and> (t, i) < (s, j)"
proof -
  let ?rows = "sort_key row_key (filter (\<lambda>m. m_channelId m = ch \<and> m_deletedAt m = None
      \<and> (m_createdAt m > t \<or> m_createdAt m = t \<and> m_id m > i)) (sd_messages db))"
  from assms(1) have ne: "?rows \<noteq> []" and hd: "row_key (hd ?rows) = (s, j)"
    by (auto simp: neighborMessage_def row_key_def Let_def split: if_splits)
  have in_rows: "m \<in> set ?rows" using m by (auto simp: row_key_def)
  have "sorted (map row_key ?rows)" by simp
  then have "row_key (hd ?rows) \<le> row_key m" using in_rows ne by (cases ?rows) auto
  moreover have "hd ?rows \<in> set ?rows" using ne by (rule hd_in_set)
  then have "(t, i) < row_key (hd ?rows)" by (auto simp: row_key_def)
  ultimately show ?thesis using hd by simp
qed

lemma masked_shows_nothing: "ch \<notin> set visible \<Longrightarrow> neighborMessage db visible ch t i dir = Some Masked"
  by (simp add: neighborMessage_def)

lemma escaped_has_no_markup: "60 \<notin> set (escapeHtml s) \<and> 62 \<notin> set (escapeHtml s)"
  by (auto simp: escapeHtml_def split: if_splits)

lemma excerpt_bound: "length (truncatePlain s) \<le> CONTEXT_EXCERPT_MAX + 1"
  by (simp add: truncatePlain_def Let_def)

definition recent_ok :: "recent_lists \<Rightarrow> bool" where
  "recent_ok r \<longleftrightarrow> (\<forall>u. distinct (r u) \<and> length (r u) \<le> RECENT_SEARCH_MAX \<and> list_all storable (r u))"

lemma recent_searches_stay_ok:
  assumes "recent_ok r"
  shows "recent_ok (pushRecentSearch u q r)" and "recent_ok (removeRecentSearch u q r)" and "recent_ok (clearRecentSearches u r)"
proof -
  have r: "distinct (r u)" "length (r u) \<le> RECENT_SEARCH_MAX" "list_all storable (r u)" using assms by (simp_all add: recent_ok_def)
  have "length (removeAll x (r u)) \<le> RECENT_SEARCH_MAX" for x using r(2) length_removeAll_less_eq [of x "r u"] by linarith
  then show "recent_ok (removeRecentSearch u q r)"
    using assms r by (auto simp: removeRecentSearch_def Let_def recent_ok_def distinct_removeAll list_all_iff)
  show "recent_ok (pushRecentSearch u q r)"
    using assms r by (auto simp: pushRecentSearch_def Let_def recent_ok_def distinct_removeAll list_all_iff
        intro!: distinct_take dest!: in_set_takeD)
  show "recent_ok (clearRecentSearches u r)" using assms by (simp add: clearRecentSearches_def recent_ok_def)
qed

lemma pushed_search_is_first:
  "storable (js_trim q) \<Longrightarrow> recentSearches (pushRecentSearch u q r) u n ! 0 = js_trim q"
  by (simp add: recentSearches_def pushRecentSearch_def Let_def RECENT_SEARCH_MAX_def)

section \<open>Examples\<close>

definition small_world :: search_db where
  "small_world = \<lparr>sd_ws = \<lparr>db_roles = [], db_members = [\<lparr>wm_ws = ''w'', wm_user = ''u'', wm_role = MEMBER\<rparr>],
       db_memberRoles = [], db_overrides = [],
       db_channels = [\<lparr>ch_id = ''c'', ch_ws = Some ''w'', ch_isPrivate = False, ch_type = ''TEXT'', ch_deleted = False\<rparr>],
       db_audit = []\<rparr>,
     sd_archived = [], sd_names = (\<lambda>_. js ''general''), sd_usernames = (\<lambda>_. js ''ann''),
     sd_messages = [plain_row ''m'' 1 None False], sd_attachments = []\<rparr>"

definition any_text :: search_env where
  "any_text = \<lparr>matches = (\<lambda>_ _. True), rank = (\<lambda>_ _. 0), same_name = (=), lower_case = id,
     enc_cursor = (\<lambda>_. ''x''), dec_cursor = (\<lambda>_. Inl MESSAGE_CURSOR_INVALID)\<rparr>"

definition hi_search :: search_args where
  "hi_search = \<lparr>sa_query = js ''hi'', sa_ws = ''w'', sa_user = ''u'', sa_channel = None, sa_sender = None,
     sa_since = None, sa_until = None, sa_hasAttachment = False, sa_sort = Recent, sa_cursor = None, sa_limit = 5\<rparr>"

lemma hi_query_parsed: "parseSearchQuery id (js ''hi'') t = no_query\<lparr>pq_text := js ''hi''\<rparr>"
  by (simp add: parseSearchQuery_def js_trim_def is_js_space_def parse_step_def modifier_def split_token_def no_query_def)

lemma small_world_visible: "visibleChannelIds small_world ''w'' ''u'' = [''c'']"
  by (simp add: visibleChannelIds_def small_world_def find_member_def held_roles_def Let_def searchable_def search_base_def
      by_channel_def visible_mask_def no_tiers_def)

lemma hi_found: "search any_text small_world hi_search 0 = Inr \<lparr>sr_rows = [plain_row ''m'' 1 None False], sr_nextCursor = None\<rparr>"
proof -
  have "pq_text (no_query\<lparr>pq_text := x\<rparr>) = x" for x by simp
  have plan: "search_plan_of any_text small_world hi_search 0 = Inr (Some \<lparr>pl_parsed = no_query\<lparr>pq_text := js ''hi''\<rparr>,
      pl_visible = [''c''], pl_sender = None, pl_since = None, pl_until = None, pl_recent = True, pl_cursor = None\<rparr>)"
    by (simp add: search_plan_of_def any_text_def hi_search_def hi_query_parsed [simplified] small_world_visible Let_def
        empty_range_def plan_cursor_def plan_sender_def narrow_channels_def pick_later_def pick_earlier_def no_query_def
        js_trim_def is_js_space_def)
  show ?thesis
    by (simp add: search_def plan search_answer_def search_fetch_def search_where_def Let_def no_query_def)
      (simp add: hi_search_def small_world_def plain_row_def any_text_def)
qed


section \<open>Where the code departs from its comments\<close>

text \<open>The channel is made unreadable between the computation of the visible channels and the query:
  the message is still returned, although the comment on the re-check promises otherwise.\<close>

lemma revoked_channel_still_answers:
  "let plan = \<lparr>pl_parsed = no_query, pl_visible = visibleChannelIds small_world ''w'' ''u'', pl_sender = None,
         pl_since = None, pl_until = None, pl_recent = True, pl_cursor = None\<rparr>;
       later_world = small_world\<lparr>sd_ws := (sd_ws small_world)\<lparr>db_members := []\<rparr>\<rparr>
   in map m_id (sr_rows (search_answer any_text hi_search plan (search_fetch any_text later_world hi_search plan))) = [''m'']
      \<and> visibleChannelIds later_world ''w'' ''u'' = []"
  by (simp add: small_world_visible Let_def)
    (simp add: search_answer_def search_fetch_def search_where_def small_world_def plain_row_def hi_search_def no_query_def
      js_trim_def visibleChannelIds_def find_member_def Let_def)

end
