(* ===== verification/Positions.thy ===== *)
theory Positions
  imports Qufox_Prelude
begin

text \<open>
  \<open>apps/api/src/channels/positioning/fractional-position.ts\<close>: the positions by which channels,
  categories and favourites are ordered, and the anchor rule their \<open>move\<close> operations share.

  \<open>Prisma.Decimal\<close> and the DECIMAL(20, 10) columns are not code of the repository: they are
  the parameter \<open>decimal_ops\<close>, over exact rationals. \<open>decimals_documented\<close> is what their
  documentation promises: each operation of the decimal type keeps 20 significant digits, and a
  column rounds to its 10 fractional digits and refuses what has more than 10 integer digits.
\<close>

section \<open>Decimals\<close>

record decimal_ops =
  d_plus :: "rat \<Rightarrow> rat \<Rightarrow> rat"
  d_minus :: "rat \<Rightarrow> rat \<Rightarrow> rat"
  d_half :: "rat \<Rightarrow> rat"  \<comment> \<open>\<open>dividedBy(2)\<close>\<close>
  d_times :: "rat \<Rightarrow> nat \<Rightarrow> rat"
  d_column :: "rat \<Rightarrow> rat option"  \<comment> \<open>the value the column keeps, or numeric overflow\<close>

definition fits20 :: "rat \<Rightarrow> bool" where
  "fits20 x \<longleftrightarrow> (\<exists>m e. x * 10 ^ e = of_int m \<and> \<bar>m\<bar> < 10 ^ 20)"

definition rounds20 :: "rat \<Rightarrow> rat \<Rightarrow> bool" where
  \<comment> \<open>\<open>r\<close> is \<open>x\<close> at 20 significant digits\<close>
  "rounds20 x r \<longleftrightarrow> (fits20 x \<longrightarrow> r = x) \<and> (\<forall>k. \<bar>x\<bar> < 10 ^ k \<longrightarrow> \<bar>r - x\<bar> \<le> 5 * 10 ^ k / 10 ^ 21)"

definition unit10 :: rat where "unit10 = 1 / 10 ^ 10"

definition on_grid :: "rat \<Rightarrow> bool" where
  \<comment> \<open>a value of a DECIMAL(20, 10) column\<close>
  "on_grid x \<longleftrightarrow> \<bar>x\<bar> < 10 ^ 10 \<and> (\<exists>m. x = of_int m * unit10)"

definition decimals_documented :: "decimal_ops \<Rightarrow> bool" where
  "decimals_documented D \<longleftrightarrow>
     (\<forall>x y. rounds20 (x + y) (d_plus D x y)) \<and> (\<forall>x y. rounds20 (x - y) (d_minus D x y)) \<and>
     (\<forall>x. rounds20 (x / 2) (d_half D x)) \<and> (\<forall>x n. rounds20 (x * of_nat n) (d_times D x n)) \<and>
     (\<forall>x. case d_column D x of
        None \<Rightarrow> 10 ^ 10 \<le> \<bar>x\<bar> + unit10 / 2
      | Some y \<Rightarrow> on_grid y \<and> \<bar>y - x\<bar> \<le> unit10 / 2)"

section \<open>Positions\<close>

definition MIN_GAP :: rat where "MIN_GAP = 1 / 10 ^ 9"
definition POSITION_STRIDE :: rat where "POSITION_STRIDE = 10 ^ 9"
definition RENORMALIZE_STRIDE :: rat where "RENORMALIZE_STRIDE = 1000"

definition calcBetween :: "decimal_ops \<Rightarrow> rat option \<Rightarrow> rat option \<Rightarrow> error_code + rat" where
  "calcBetween D prev succ =
     (case (prev, succ) of
        (None, None) \<Rightarrow> Inr POSITION_STRIDE
      | (None, Some n) \<Rightarrow> Inr (d_minus D n POSITION_STRIDE)
      | (Some p, None) \<Rightarrow> Inr (d_plus D p POSITION_STRIDE)
      | (Some p, Some n) \<Rightarrow>
          (let gap = d_minus D n p
           in if gap \<le> MIN_GAP then Inl CHANNEL_POSITION_INVALID
              else Inr (d_half D (d_plus D p n))))"

text \<open>\<open>findFirst\<close> ordered by descending position, of which only the position is selected.\<close>

definition last_position :: "rat list \<Rightarrow> rat option" where
  "last_position ps = (case ps of [] \<Rightarrow> None | p # ps \<Rightarrow> Some (foldl max p ps))"

text \<open>The anchors of a \<open>move\<close>: \<open>after\<close> and \<open>before\<close> when one was found, else the end of the list.\<close>

definition anchored_position ::
  "decimal_ops \<Rightarrow> rat option \<Rightarrow> rat option \<Rightarrow> rat list \<Rightarrow> error_code + rat" where
  "anchored_position D after before others =
     (let (prev, succ) = (if after = None \<and> before = None then (last_position others, None)
                          else (after, before))
      in calcBetween D prev succ)"

text \<open>
  A batch reorder renumbers the rows the client sent: the \<open>n\<close>-th one of its group gets \<open>1000 n\<close>.
  The groups are the categories of the channels; categories themselves are one group.
\<close>

fun numbered :: "('c \<Rightarrow> nat) \<Rightarrow> (id \<times> 'c) list \<Rightarrow> (id \<times> 'c \<times> nat) list" where
  "numbered seq [] = []"
| "numbered seq ((i, c) # items) = (let n = seq c + 1 in (i, c, n) # numbered (seq(c := n)) items)"

definition renumbered :: "decimal_ops \<Rightarrow> nat \<Rightarrow> rat option" where
  "renumbered D n = d_column D (d_times D RENORMALIZE_STRIDE n)"

fun placed :: "decimal_ops \<Rightarrow> (id \<times> 'c \<times> nat) list \<Rightarrow> (id \<times> 'c \<times> rat) list option" where
  \<comment> \<open>\<open>None\<close>: a write overflowed its column\<close>
  "placed D [] = Some []"
| "placed D ((i, c, n) # items) =
     (case (renumbered D n, placed D items) of
        (Some p, Some rest) \<Rightarrow> Some ((i, c, p) # rest)
      | _ \<Rightarrow> None)"

definition write_places :: "('r \<Rightarrow> id) \<Rightarrow> ('p \<Rightarrow> 'r \<Rightarrow> 'r) \<Rightarrow> (id \<times> 'p) list \<Rightarrow> 'r list \<Rightarrow> 'r list" where
  \<comment> \<open>one update by id after the other\<close>
  "write_places key put asg rows =
     foldl (\<lambda>rs (i, p). update_where (\<lambda>r. key r = i) (put p) rs) rows asg"

section \<open>Rows with a place\<close>

text \<open>
  What the batch reorders of channels and of categories share: rows with a key that an update of
  their place keeps.
\<close>

locale placed_rows =
  fixes key :: "'r \<Rightarrow> id" and place :: "'r \<Rightarrow> 'p" and put :: "'p \<Rightarrow> 'r \<Rightarrow> 'r"
  assumes place_put: "place (put p r) = p"
    and key_put: "key (put p r) = key r"
begin

lemma write_places_map:
  "distinct (map fst asg) \<Longrightarrow>
   write_places key put asg rows =
     map (\<lambda>r. case map_of asg (key r) of None \<Rightarrow> r | Some p \<Rightarrow> put p r) rows"
proof (induction asg arbitrary: rows)
  case Nil
  then show ?case by (simp add: write_places_def)
next
  case (Cons ip asg)
  obtain i p where [simp]: "ip = (i, p)" by (cases ip)
  have i: "map_of asg i = None" using Cons.prems by (simp add: map_of_eq_None_iff)
  have "write_places key put (ip # asg) rows
      = write_places key put asg (update_where (\<lambda>r. key r = i) (put p) rows)"
    by (simp add: write_places_def)
  also have "\<dots> = map (\<lambda>r. case map_of asg (key r) of None \<Rightarrow> r | Some q \<Rightarrow> put q r)
      (update_where (\<lambda>r. key r = i) (put p) rows)"
    using Cons by simp
  finally show ?case using i by (auto simp: update_where_def key_put)
qed

lemma keys_kept: "distinct (map fst asg) \<Longrightarrow> map key (write_places key put asg rows) = map key rows"
  by (auto simp: write_places_map key_put split: option.split)

text \<open>Sorted by position, the rows that were written stand in the order they were written in.\<close>

lemma order_written:
  fixes pos :: "'p \<Rightarrow> rat"
  assumes rows: "distinct (map key rows)" and asg: "distinct (map fst asg)"
    and known: "fst ` set asg \<subseteq> key ` set rows"
    and order: "sorted_wrt (<) (map (\<lambda>ip. pos (snd ip)) (filter (\<lambda>ip. Q (snd ip)) asg))"
  shows "map key (sort_key (\<lambda>r. pos (place r))
      (filter (\<lambda>r. key r \<in> fst ` set asg \<and> Q (place r)) (write_places key put asg rows)))
    = map fst (filter (\<lambda>ip. Q (snd ip)) asg)"
proof -
  let ?sub = "filter (\<lambda>ip. Q (snd ip)) asg"
  let ?W = "write_places key put asg rows"
  let ?F = "filter (\<lambda>r. key r \<in> fst ` set asg \<and> Q (place r)) ?W"
  let ?f = "\<lambda>r. pos (place r)"
  define row where "row i = (SOME r. r \<in> set rows \<and> key r = i)" for i
  have row: "row i \<in> set rows \<and> key (row i) = i" if "i \<in> fst ` set asg" for i
  proof -
    from that known have "i \<in> key ` set rows" by (rule rev_subsetD)
    then have "\<exists>r. r \<in> set rows \<and> key r = i" unfolding image_iff by metis
    then show ?thesis unfolding row_def by (rule someI_ex)
  qed
  have row_key: "row (key r) = r" if "r \<in> set rows" "key r \<in> fst ` set asg" for r
    using row [OF that(2)] that(1) rows by (metis distinct_map inj_onD)
  let ?R = "map (\<lambda>ip. put (snd ip) (row (fst ip))) ?sub"
  have W: "?W = map (\<lambda>r. case map_of asg (key r) of None \<Rightarrow> r | Some p \<Rightarrow> put p r) rows"
    by (rule write_places_map [OF asg])
  have "set ?F = set ?R"
  proof (rule set_eqI, rule iffI)
    fix x assume "x \<in> set ?F"
    then obtain r where r: "r \<in> set rows" "x = (case map_of asg (key r) of None \<Rightarrow> r | Some p \<Rightarrow> put p r)"
      and x: "key x \<in> fst ` set asg" "Q (place x)" by (auto simp: W)
    have "key x = key r" using r(2) by (auto simp: key_put split: option.splits)
    with x obtain p where p: "map_of asg (key r) = Some p"
      by (cases "map_of asg (key r)") (auto simp: map_of_eq_None_iff)
    with r have "x = put p r" by simp
    moreover have "row (key r) = r" using row_key r x \<open>key x = key r\<close> by simp
    moreover have "(key r, p) \<in> set ?sub" using map_of_SomeD [OF p] x \<open>x = put p r\<close> by (simp add: place_put)
    ultimately show "x \<in> set ?R" by force
  next
    fix x assume "x \<in> set ?R"
    then obtain i p where ip: "(i, p) \<in> set asg" "Q p" "x = put p (row i)" by auto
    then have r: "row i \<in> set rows" "key (row i) = i" using row [of i] by force+
    have "map_of asg i = Some p" using ip asg by simp
    with r ip show "x \<in> set ?F" by (force simp: W place_put key_put)
  qed
  have mR: "map ?f ?R = map (\<lambda>ip. pos (snd ip)) ?sub" by (simp add: place_put)
  have R: "sorted (map ?f ?R)" "distinct (map ?f ?R)"
    using order unfolding mR strict_sorted_iff by blast+
  then have inj: "inj_on ?f (set ?R)" using distinct_map by blast
  have "distinct (map key ?F)"
    using rows keys_kept [OF asg, of rows] by (metis distinct_map_filter)
  then have "distinct (map ?f (sort_key ?f ?F))"
    using inj \<open>set ?F = set ?R\<close> by (simp add: distinct_map)
  then have "sort_key ?f ?F = ?R"
    using R inj \<open>set ?F = set ?R\<close> by (intro map_sorted_distinct_set_unique [where f = ?f]) simp_all
  moreover have "map key ?R = map fst ?sub"
    using row by (auto simp: key_put)
  ultimately show ?thesis by simp
qed

end

section \<open>Lemmas: rounding\<close>

lemma unit10_pos [simp]: "0 < unit10"
  by (simp add: unit10_def)

lemma rounds20_fits: "rounds20 x r \<Longrightarrow> fits20 x \<Longrightarrow> r = x"
  by (simp add: rounds20_def)

lemma rounds20_near: "rounds20 x r \<Longrightarrow> \<bar>x\<bar> < 10 ^ k \<Longrightarrow> \<bar>r - x\<bar> \<le> 5 * 10 ^ k / 10 ^ 21"
  by (simp add: rounds20_def)

lemma rounds20_11: "rounds20 x r \<Longrightarrow> \<bar>x\<bar> < 10 ^ 11 \<Longrightarrow> \<bar>r - x\<bar> \<le> 5 * unit10"
  using rounds20_near [of x r 11] by (simp add: unit10_def)

lemma rounds20_10: "rounds20 x r \<Longrightarrow> \<bar>x\<bar> < 10 ^ 10 \<Longrightarrow> \<bar>r - x\<bar> \<le> unit10 / 2"
  using rounds20_near [of x r 10] by (simp add: unit10_def)

lemma fits20_grid: "\<bar>x\<bar> < 10 ^ 10 \<Longrightarrow> x = of_int m * unit10 \<Longrightarrow> fits20 x"
proof -
  assume x: "\<bar>x\<bar> < 10 ^ 10" "x = of_int m * unit10"
  then have "x * 10 ^ 10 = of_int m" by (simp add: unit10_def)
  moreover from x have "\<bar>of_int m :: rat\<bar> < 10 ^ 20" by (simp add: unit10_def)
  then have "\<bar>m\<bar> < 10 ^ 20" by (metis of_int_abs of_int_less_iff of_int_numeral of_int_power)
  ultimately show ?thesis unfolding fits20_def by blast
qed

lemma on_grid_fits: "on_grid x \<Longrightarrow> fits20 x"
  unfolding on_grid_def using fits20_grid by blast

text \<open>Values of a column are whole numbers of units: they differ by nothing or by a unit.\<close>

lemma grid_gap: "on_grid p \<Longrightarrow> on_grid q \<Longrightarrow> p < q \<Longrightarrow> p + unit10 \<le> q"
  unfolding on_grid_def
proof clarify
  fix m n :: int
  assume "of_int m * unit10 < of_int n * unit10"
  then have "m + 1 \<le> n" by simp
  then have "of_int m + 1 \<le> (of_int n :: rat)" by (metis of_int_1 of_int_add of_int_le_iff)
  then have "(of_int m + 1) * unit10 \<le> of_int n * unit10" by (simp add: mult_right_mono)
  then show "of_int m * unit10 + unit10 \<le> of_int n * unit10" by (simp add: algebra_simps)
qed

lemma grid_top:
  assumes "on_grid x"
  shows "\<bar>x\<bar> + unit10 \<le> 10 ^ 10"
proof -
  obtain m where m: "x = of_int m * unit10" "\<bar>x\<bar> < 10 ^ 10" using assms by (auto simp: on_grid_def)
  then have "\<bar>of_int m :: rat\<bar> < 10 ^ 20" by (simp add: unit10_def)
  then have "\<bar>m\<bar> < 10 ^ 20" by (metis of_int_abs of_int_less_iff of_int_numeral of_int_power)
  then have "\<bar>m\<bar> + 1 \<le> 10 ^ 20" by linarith
  then have "of_int (\<bar>m\<bar> + 1) \<le> (of_int (10 ^ 20) :: rat)" by (simp only: of_int_le_iff)
  then have "\<bar>of_int m\<bar> + 1 \<le> (10 ^ 20 :: rat)" by simp
  then have "(\<bar>of_int m\<bar> + 1) * unit10 \<le> 10 ^ 10" by (simp add: unit10_def)
  then show ?thesis using m(1) by (simp add: algebra_simps abs_mult abs_of_pos)
qed

lemma column_cases:
  assumes "decimals_documented D"
  shows "d_column D x = None \<Longrightarrow> 10 ^ 10 \<le> \<bar>x\<bar> + unit10 / 2"
    and "d_column D x = Some y \<Longrightarrow> on_grid y \<and> \<bar>y - x\<bar> \<le> unit10 / 2"
  using assms unfolding decimals_documented_def by (metis (no_types, lifting) option.simps(4,5))+

lemma column_fits:
  assumes D: "decimals_documented D" and x: "on_grid x"
  shows "d_column D x = Some x"
proof (cases "d_column D x")
  case None
  then show ?thesis using column_cases(1) [OF D None] grid_top [OF x] unit10_pos by linarith
next
  case (Some y)
  then have "y = x"
    using column_cases(2) [OF D Some] grid_gap [of x y] grid_gap [of y x] x unit10_pos by linarith
  with Some show ?thesis by simp
qed

lemma half_near:
  fixes s t h u :: rat
  assumes "\<bar>s - t\<bar> \<le> 5 * u" and "\<bar>h - s / 2\<bar> \<le> u / 2"
  shows "\<bar>h - t / 2\<bar> \<le> 3 * u"
proof -
  have "s - t \<le> 5 * u" "t - s \<le> 5 * u" "h - s / 2 \<le> u / 2" "s / 2 - h \<le> u / 2"
    using assms [THEN abs_le_D1] assms [THEN abs_le_D2] by simp_all
  then have "h - t / 2 \<le> 3 * u" "t / 2 - h \<le> 3 * u" by linarith+
  then show ?thesis by (simp only: abs_le_iff minus_diff_eq)
qed

text \<open>The midpoint of two positions of the column, as the column keeps it.\<close>

lemma midpoint_kept:
  assumes D: "decimals_documented D" and p: "on_grid p" and q: "on_grid q"
    and gap: "10 * unit10 \<le> q - p"
  shows "\<exists>y. d_column D (d_half D (d_plus D p q)) = Some y \<and> p < y \<and> y < q"
proof -
  define u where "u = unit10"
  have u: "0 < u" "u < 1" by (simp_all add: u_def unit10_def)
  have top: "\<bar>p\<bar> \<le> 10 ^ 10 - u" "\<bar>q\<bar> \<le> 10 ^ 10 - u"
    using grid_top [OF p] grid_top [OF q] by (simp_all add: u_def)
  let ?s = "d_plus D p q"
  have "\<bar>p + q\<bar> < 10 ^ 11" using top u by (simp add: abs_le_iff abs_less_iff)
  moreover have "rounds20 (p + q) ?s" using D by (simp add: decimals_documented_def)
  ultimately have s: "\<bar>?s - (p + q)\<bar> \<le> 5 * u" using rounds20_11 unfolding u_def by blast
  have "\<bar>?s / 2\<bar> < 10 ^ 10" using s top gap u unfolding u_def [symmetric]
    by (simp add: abs_le_iff abs_less_iff)
  moreover have "rounds20 (?s / 2) (d_half D ?s)" using D by (simp add: decimals_documented_def)
  ultimately have h: "\<bar>d_half D ?s - ?s / 2\<bar> \<le> u / 2" using rounds20_10 unfolding u_def by blast
  let ?h = "d_half D ?s"
  have near: "\<bar>?h - (p + q) / 2\<bar> \<le> 3 * u" by (rule half_near [OF s h])
  have sides: "?h \<le> (p + q) / 2 + 3 * u" "(p + q) / 2 \<le> ?h + 3 * u"
    using abs_le_D1 [OF near] abs_le_D2 [OF near] by linarith+
  have ends: "p \<le> 10 ^ 10 - u" "- p \<le> 10 ^ 10 - u" "q \<le> 10 ^ 10 - u" "- q \<le> 10 ^ 10 - u"
    using abs_le_D1 [OF top(1)] abs_le_D2 [OF top(1)] abs_le_D1 [OF top(2)] abs_le_D2 [OF top(2)] .
  have wide: "10 * u \<le> q - p" using gap by (simp add: u_def)
  have mid: "(p + q) / 2 \<le> q - 5 * u" "p + 5 * u \<le> (p + q) / 2" using wide by simp_all
  have "?h < 10 ^ 10 - u / 2" using sides(1) mid(1) ends(3) u(1) by linarith
  moreover have "- ?h < 10 ^ 10 - u / 2" using sides(2) mid(2) ends(2) u(1) by linarith
  ultimately have "\<bar>?h\<bar> < 10 ^ 10 - u / 2" by (simp only: abs_less_iff)
  then have "\<bar>?h\<bar> + u / 2 < 10 ^ 10" by simp
  then obtain y where y: "d_column D ?h = Some y" "\<bar>y - ?h\<bar> \<le> u / 2"
    using column_cases [OF D, of ?h] by (cases "d_column D ?h") (auto simp: u_def)
  have "y \<le> ?h + u / 2" "?h \<le> y + u / 2"
    using abs_le_D1 [OF y(2)] abs_le_D2 [OF y(2)] by simp_all
  with sides mid u(1) have "p < y" "y < q" by linarith+
  with y show ?thesis by blast
qed

text \<open>The gap is compared exactly: a gap of fewer than 20 digits is not rounded, a wider one is
  far above the bound.\<close>

lemma gap_exact:
  assumes D: "decimals_documented D" and p: "on_grid p" and q: "on_grid q"
  shows "d_minus D q p \<le> MIN_GAP \<longleftrightarrow> q - p \<le> MIN_GAP"
proof -
  obtain m n where "p = of_int m * unit10" "q = of_int n * unit10"
    using p q by (auto simp: on_grid_def)
  then have grid: "q - p = of_int (n - m) * unit10" by (simp add: algebra_simps)
  have r: "rounds20 (q - p) (d_minus D q p)" using D by (simp add: decimals_documented_def)
  show ?thesis
  proof (cases "\<bar>q - p\<bar> < 10 ^ 10")
    case True
    from fits20_grid [OF True grid] r show ?thesis by (simp add: rounds20_def)
  next
    case False
    have "\<bar>q - p\<bar> < 10 ^ 11"
      using grid_top [OF p] grid_top [OF q] unit10_pos abs_triangle_ineq4 [of q p] by (simp del: unit10_pos)
    then have "\<bar>d_minus D q p - (q - p)\<bar> \<le> 5 * unit10" by (rule rounds20_11 [OF r])
    then show ?thesis using False by (auto simp: MIN_GAP_def unit10_def abs_le_iff abs_if split: if_splits)
  qed
qed

lemma calcBetween_anchors:
  assumes D: "decimals_documented D" and p: "on_grid p" and q: "on_grid q"
  shows "calcBetween D (Some p) (Some q) =
    (if q - p \<le> MIN_GAP then Inl CHANNEL_POSITION_INVALID else Inr (d_half D (d_plus D p q)))"
  using gap_exact [OF assms] by (simp add: calcBetween_def Let_def)

text \<open>One anchor: the stride is added or taken away, as long as the column has room.\<close>

lemma calcBetween_end:
  assumes D: "decimals_documented D" and p: "on_grid p"
  shows "on_grid (p + POSITION_STRIDE) \<Longrightarrow> calcBetween D (Some p) None = Inr (p + POSITION_STRIDE)"
    and "on_grid (p - POSITION_STRIDE) \<Longrightarrow> calcBetween D None (Some p) = Inr (p - POSITION_STRIDE)"
proof -
  have r: "rounds20 (p + POSITION_STRIDE) (d_plus D p POSITION_STRIDE)"
    "rounds20 (p - POSITION_STRIDE) (d_minus D p POSITION_STRIDE)"
    using D by (simp_all add: decimals_documented_def)
  show "on_grid (p + POSITION_STRIDE) \<Longrightarrow> calcBetween D (Some p) None = Inr (p + POSITION_STRIDE)"
    "on_grid (p - POSITION_STRIDE) \<Longrightarrow> calcBetween D None (Some p) = Inr (p - POSITION_STRIDE)"
    using r [THEN rounds20_fits] on_grid_fits by (simp_all add: calcBetween_def)
qed

lemma last_position_max: "last_position ps = Some m \<Longrightarrow> m \<in> set ps \<and> (\<forall>p \<in> set ps. p \<le> m)"
proof -
  have "foldl max p qs \<in> set (p # qs) \<and> (\<forall>x \<in> set (p # qs). x \<le> foldl max p qs)" for p :: rat and qs
  proof (induction qs arbitrary: p)
    case (Cons q qs)
    from Cons.IH [of "max p q"] show ?case by (auto simp: max_def split: if_splits)
  qed simp
  then show "last_position ps = Some m \<Longrightarrow> m \<in> set ps \<and> (\<forall>p \<in> set ps. p \<le> m)"
    by (cases ps) (auto simp: last_position_def)
qed

lemma last_position_None [simp]: "last_position ps = None \<longleftrightarrow> ps = []"
  by (cases ps) (auto simp: last_position_def)

section \<open>Lemmas: renumbering\<close>

lemma numbered_items: "map (\<lambda>(i, c, n). (i, c)) (numbered seq items) = items"
  by (induction items arbitrary: seq) (auto simp: Let_def)

lemma numbered_group:
  "sorted_wrt (<) (map (snd \<circ> snd) (filter (\<lambda>x. fst (snd x) = c) (numbered seq items)))
   \<and> (\<forall>x \<in> set (numbered seq items). fst (snd x) = c \<longrightarrow>
        seq c < snd (snd x) \<and> snd (snd x) \<le> seq c + length items)"
proof (induction items arbitrary: seq)
  case (Cons x items)
  obtain i d where [simp]: "x = (i, d)" by (cases x)
  define later where "later = numbered (seq(d := seq d + 1)) items"
  have now: "numbered seq (x # items) = (i, d, seq d + 1) # later" by (simp add: later_def Let_def)
  from Cons [of "seq(d := seq d + 1)"] show ?case
    unfolding now later_def [symmetric] by (cases "d = c") auto
qed simp

lemma renumbered_exact:
  assumes D: "decimals_documented D" and n: "n < 10 ^ 6"
  shows "renumbered D n = Some (1000 * of_nat n)"
proof -
  have "(of_nat n :: rat) < of_nat (10 ^ 6)" using n by (simp only: of_nat_less_iff)
  then have small: "1000 * (of_nat n :: rat) < 10 ^ 10" by simp
  have "1000 * of_nat n = of_int (int n * 10 ^ 13) * unit10" by (simp add: unit10_def)
  then have "\<exists>m. 1000 * (of_nat n :: rat) = of_int m * unit10" by blast
  with small have grid: "on_grid (1000 * of_nat n)" unfolding on_grid_def by (simp add: abs_mult)
  have "rounds20 (1000 * of_nat n) (d_times D 1000 n)" using D by (simp add: decimals_documented_def)
  then have "d_times D 1000 n = 1000 * of_nat n" by (rule rounds20_fits [OF _ on_grid_fits [OF grid]])
  with column_fits [OF D grid] show ?thesis by (simp add: renumbered_def RENORMALIZE_STRIDE_def)
qed

lemma placed_exact:
  assumes "decimals_documented D"
  shows "(\<forall>x \<in> set xs. snd (snd x) < 10 ^ 6) \<Longrightarrow>
    placed D xs = Some (map (\<lambda>(i, c, n). (i, c, 1000 * of_nat n)) xs)"
  by (induction xs) (auto simp: renumbered_exact [OF assms, simplified])

section \<open>An exact instance\<close>

definition exact_decimals :: decimal_ops where
  \<comment> \<open>decimals without rounding, over a column that rounds to the nearest unit\<close>
  "exact_decimals = \<lparr>d_plus = (+), d_minus = (-), d_half = (\<lambda>x. x / 2), d_times = (\<lambda>x n. x * of_nat n),
     d_column = (\<lambda>x. let y = of_int (round (x * 10 ^ 10)) / 10 ^ 10
                    in if \<bar>y\<bar> < 10 ^ 10 then Some y else None)\<rparr>"

lemma rounds20_refl [simp]: "rounds20 x x"
  by (simp add: rounds20_def)

lemma exact_documented: "decimals_documented exact_decimals"
proof -
  have near: "\<bar>of_int (round (x * 10 ^ 10)) / 10 ^ 10 - x\<bar> \<le> unit10 / 2" for x :: rat
  proof -
    have "\<bar>of_int (round (x * 10 ^ 10)) - x * 10 ^ 10\<bar> \<le> 1 / 2" by (rule of_int_round_abs_le)
    then have "\<bar>of_int (round (x * 10 ^ 10)) - x * 10 ^ 10\<bar> / 10 ^ 10 \<le> 1 / 2 / 10 ^ 10"
      by (rule divide_right_mono) simp
    moreover have "of_int (round (x * 10 ^ 10)) / 10 ^ 10 - x = (of_int (round (x * 10 ^ 10)) - x * 10 ^ 10) / 10 ^ 10"
      by (simp add: diff_divide_distrib)
    then have "\<bar>of_int (round (x * 10 ^ 10)) / 10 ^ 10 - x\<bar> = \<bar>of_int (round (x * 10 ^ 10)) - x * 10 ^ 10\<bar> / 10 ^ 10"
      by (simp only: abs_divide) simp
    ultimately show ?thesis by (simp only: unit10_def) simp
  qed
  have "10 ^ 10 \<le> \<bar>x\<bar> + unit10 / 2" if "\<not> \<bar>of_int (round (x * 10 ^ 10)) / 10 ^ 10\<bar> < (10 ^ 10 :: rat)" for x
    using near [of x] that abs_triangle_ineq2 [of "of_int (round (x * 10 ^ 10)) / 10 ^ 10" x] by linarith
  moreover have "\<exists>m. of_int (round (x * 10 ^ 10)) / 10 ^ 10 = (of_int m * unit10 :: rat)" for x :: rat
    by (rule exI [of _ "round (x * 10 ^ 10)"]) (simp add: unit10_def)
  ultimately show ?thesis
    using near unfolding decimals_documented_def exact_decimals_def on_grid_def
    by (simp add: Let_def)
qed

section \<open>Properties\<close>



text \<open>Nine rows appended to an empty list fill the column: the position of the tenth does not fit.\<close>

lemma tenth_append_overflows:
  assumes D: "decimals_documented D"
  shows "1 \<le> n \<Longrightarrow> n < 9 \<Longrightarrow> calcBetween D (Some (of_nat n * POSITION_STRIDE)) None = Inr (of_nat (n + 1) * POSITION_STRIDE)"
    and "calcBetween D (Some (9 * POSITION_STRIDE)) None = Inr (10 ^ 10)"
    and "d_column D (10 ^ 10) = None"
proof -
  have grid: "on_grid (of_nat n * POSITION_STRIDE)" if "n < 10" for n
  proof -
    have "of_nat n < (10 :: rat)" using that by (metis of_nat_less_iff of_nat_numeral)
    then show ?thesis unfolding on_grid_def unit10_def POSITION_STRIDE_def
      by (auto simp: abs_mult intro!: exI [of _ "int n * 10 ^ 19"])
  qed
  show "1 \<le> n \<Longrightarrow> n < 9 \<Longrightarrow> calcBetween D (Some (of_nat n * POSITION_STRIDE)) None = Inr (of_nat (n + 1) * POSITION_STRIDE)"
    using calcBetween_end(1) [OF D grid [of n]] grid [of "n + 1"] by (simp add: algebra_simps)
  have "fits20 (10 ^ 10)" unfolding fits20_def by (rule exI [of _ "10 ^ 10"], rule exI [of _ 0]) simp
  moreover have "rounds20 (9 * POSITION_STRIDE + POSITION_STRIDE) (d_plus D (9 * POSITION_STRIDE) POSITION_STRIDE)"
    using D unfolding decimals_documented_def by blast
  moreover have "9 * POSITION_STRIDE + POSITION_STRIDE = 10 ^ 10" by (simp add: POSITION_STRIDE_def)
  ultimately show "calcBetween D (Some (9 * POSITION_STRIDE)) None = Inr (10 ^ 10)"
    using rounds20_fits by (simp add: calcBetween_def)
  show "d_column D (10 ^ 10) = None"
  proof (cases "d_column D (10 ^ 10)")
    case (Some y)
    then have y: "on_grid y" "\<bar>y - 10 ^ 10\<bar> \<le> unit10 / 2" using column_cases(2) [OF D] by blast+
    have "y + unit10 \<le> 10 ^ 10" using grid_top [OF y(1)] by linarith
    moreover have "10 ^ 10 - y \<le> unit10 / 2" using abs_le_D2 [OF y(2)] by simp
    ultimately show ?thesis using unit10_pos by linarith
  qed
qed

end
