(* ===== verification/Channels.thy ===== *)
theory Channels
  imports Positions Channel_Access
begin

text \<open>
  \<open>apps/api/src/channels/channels.service.ts\<close>: the channels of a workspace, their permission
  overrides, joining and leaving, moving and reordering, the sidebar and the browser.

  The rows of Channel, Category and ChannelPermissionOverride are lists; \<open>chan_tables\<close> is the view of
  them the permission gates of \<open>Channel_Access\<close> read. Ids that the database generates and the current
  time are arguments. The partial unique index on live names is \<open>name_clash\<close>, a violated foreign key,
  a numeric overflow and an update of a missing row are failures of their own. The outbox and the
  audit log are lists; \<open>cd_posts\<close> lists the calls of \<open>createSystemMessage\<close>, which is modelled with the
  messages. \<open>perms_cache\<close> is the permission cache that override changes invalidate.
\<close>

section \<open>Rows\<close>

record chan_row =
  cn_id :: id
  cn_workspaceId :: "id option"
  cn_categoryId :: "id option"
  cn_name :: string
  cn_type :: id
  cn_topic :: "string option"
  cn_description :: "string option"
  cn_position :: rat
  cn_slowmodeSeconds :: int
  cn_memberCanPin :: bool
  cn_fileUploadEnabled :: bool
  cn_maxFileSizeBytes :: "int option"
  cn_isPrivate :: bool
  cn_isDefault :: bool
  cn_archivedAt :: "msec option"
  cn_deletedAt :: "msec option"
  cn_createdAt :: msec

record cat_row =
  ct_id :: id
  ct_workspaceId :: id
  ct_name :: string
  ct_description :: "string option"
  ct_position :: rat
  ct_deletedAt :: "msec option"
  ct_createdAt :: msec

record grant_row = override_row +
  gr_id :: id
  gr_leftAt :: "msec option"

record channel_dto =
  dto_id :: id
  dto_workspaceId :: "id option"
  dto_categoryId :: "id option"
  dto_name :: string
  dto_type :: id
  dto_topic :: "string option"
  dto_description :: "string option"
  dto_position :: rat
  dto_slowmodeSeconds :: int
  dto_memberCanPin :: bool
  dto_fileUploadEnabled :: bool
  dto_maxFileSizeBytes :: "int option"
  dto_isPrivate :: bool
  dto_archivedAt :: "msec option"
  dto_deletedAt :: "msec option"
  dto_createdAt :: msec

definition toDto :: "chan_row \<Rightarrow> channel_dto" where
  "toDto c = \<lparr>dto_id = cn_id c, dto_workspaceId = cn_workspaceId c, dto_categoryId = cn_categoryId c,
     dto_name = cn_name c, dto_type = cn_type c, dto_topic = cn_topic c,
     dto_description = cn_description c, dto_position = cn_position c,
     dto_slowmodeSeconds = cn_slowmodeSeconds c, dto_memberCanPin = cn_memberCanPin c,
     dto_fileUploadEnabled = cn_fileUploadEnabled c, dto_maxFileSizeBytes = cn_maxFileSizeBytes c,
     dto_isPrivate = cn_isPrivate c, dto_archivedAt = cn_archivedAt c,
     dto_deletedAt = cn_deletedAt c, dto_createdAt = cn_createdAt c\<rparr>"

datatype chan_event =
    Chan_created id id channel_dto
  | Chan_updated id id channel_dto
  | Chan_deleted id id id
  | Chan_restored id id id channel_dto
  | Chan_archived id id id
  | Chan_unarchived id id id
  | Chan_permission_changed id id principal_type id int int int bool
      \<comment> \<open>workspace, channel, principal, allow, deny and effective mask, removed\<close>
  | Chan_member_added id id id
  | Chan_member_removed id id id
  | Chan_moved id id channel_dto
  | Chan_reordered id id "(id \<times> id option \<times> rat) list"
  | Cat_created id id cat_row
  | Cat_updated id id cat_row
  | Cat_deleted id id id
  | Cat_moved id id cat_row
  | Cat_reordered id id "(id \<times> rat) list"

datatype chan_audit =
    Slowmode_update id id id int int
  | Override_set id id "id option" id principal_type id int int
  | Override_remove id id "id option" id principal_type id int int

datatype db_failure =
    Rejected error_code
  | Unique_violation       \<comment> \<open>P2002 that no handler maps\<close>
  | Foreign_key_violation
  | Numeric_overflow
  | Record_missing         \<comment> \<open>P2025\<close>

record chan_db =
  cd_roles :: "role_row list"
  cd_members :: "member_row list"
  cd_memberRoles :: "member_role_row list"
  cd_usernames :: "id \<Rightarrow> string option"
  cd_channels :: "chan_row list"
  cd_categories :: "cat_row list"
  cd_grants :: "grant_row list"
  cd_outbox :: "chan_event list"
  cd_audit :: "chan_audit list"
  cd_posts :: "(id \<times> id \<times> string \<times> (string \<times> string) list) list"

definition channel_view :: "chan_row \<Rightarrow> channel_row" where
  "channel_view c = \<lparr>ch_id = cn_id c, ch_ws = cn_workspaceId c, ch_isPrivate = cn_isPrivate c,
     ch_type = cn_type c, ch_deleted = (cn_deletedAt c \<noteq> None)\<rparr>"

definition chan_tables :: "chan_db \<Rightarrow> ws_db" where
  "chan_tables db = \<lparr>db_roles = cd_roles db, db_members = cd_members db,
     db_memberRoles = cd_memberRoles db, db_overrides = map override_row.truncate (cd_grants db),
     db_channels = map channel_view (cd_channels db), db_audit = []\<rparr>"

abbreviation live_row :: "chan_row \<Rightarrow> bool" where
  "live_row r \<equiv> cn_deletedAt r = None"

definition live_in :: "id \<Rightarrow> id \<Rightarrow> chan_row \<Rightarrow> bool" where
  \<comment> \<open>\<open>where: { id, workspaceId, deletedAt: null }\<close>\<close>
  "live_in ws ch r \<longleftrightarrow> cn_id r = ch \<and> cn_workspaceId r = Some ws \<and> live_row r"

definition name_clash :: "chan_row list \<Rightarrow> chan_row \<Rightarrow> bool" where
  \<comment> \<open>the partial unique index \<open>(workspaceId, name) WHERE "deletedAt" IS NULL\<close>\<close>
  "name_clash rows row \<longleftrightarrow> live_row row \<and>
     list_ex (\<lambda>r. cn_id r \<noteq> cn_id row \<and> live_row r \<and> cn_workspaceId r = cn_workspaceId row
       \<and> cn_name r = cn_name row) rows"

section \<open>Checks\<close>

definition CHANNEL_RESERVED_NAMES :: "string list" where
  "CHANNEL_RESERVED_NAMES = [''everyone'', ''here'']"

definition CREATABLE_TYPES :: "id list" where
  "CREATABLE_TYPES = [''TEXT'', ''ANNOUNCEMENT'', ''FORUM'']"

definition assertTypeImplemented :: "id \<Rightarrow> error_code + unit" where
  "assertTypeImplemented t =
     (if t \<notin> set CREATABLE_TYPES then Inl CHANNEL_TYPE_NOT_IMPLEMENTED else Inr ())"

definition assertNameAllowed :: "string \<Rightarrow> error_code + unit" where
  "assertNameAllowed nm = (if nm \<in> set CHANNEL_RESERVED_NAMES then Inl CHANNEL_NAME_INVALID else Inr ())"

definition requireCategory :: "chan_db \<Rightarrow> id \<Rightarrow> id \<Rightarrow> error_code + unit" where
  "requireCategory db ws cat =
     (if list_ex (\<lambda>c. ct_id c = cat \<and> ct_workspaceId c = ws \<and> ct_deletedAt c = None) (cd_categories db)
      then Inr () else Inl CATEGORY_NOT_FOUND)"

definition optionalCategory :: "chan_db \<Rightarrow> id \<Rightarrow> id option \<Rightarrow> error_code + unit" where
  "optionalCategory db ws cat = (case cat of None \<Rightarrow> Inr () | Some c \<Rightarrow> requireCategory db ws c)"

section \<open>Overrides of a channel\<close>

definition is_grant :: "id \<Rightarrow> principal_type \<Rightarrow> id \<Rightarrow> grant_row \<Rightarrow> bool" where
  "is_grant ch pt pid g \<longleftrightarrow> ov_channel g = ch \<and> principalType g = pt \<and> principalId g = pid"

definition new_grant :: "id \<Rightarrow> id \<Rightarrow> principal_type \<Rightarrow> id \<Rightarrow> int \<Rightarrow> int \<Rightarrow> grant_row" where
  "new_grant gid ch pt pid allow deny =
     \<lparr>principalType = pt, principalId = pid, allowMask = allow, denyMask = deny, ov_channel = ch,
      gr_id = gid, gr_leftAt = None\<rparr>"

definition seed_grant :: "id \<Rightarrow> id \<Rightarrow> principal_type \<Rightarrow> id \<Rightarrow> int \<Rightarrow> int \<Rightarrow> grant_row list \<Rightarrow> grant_row list" where
  \<comment> \<open>\<open>upsert\<close> with an empty \<open>update\<close>\<close>
  "seed_grant gid ch pt pid allow deny gs =
     (if list_ex (is_grant ch pt pid) gs then gs else gs @ [new_grant gid ch pt pid allow deny])"

definition set_grant :: "id \<Rightarrow> id \<Rightarrow> principal_type \<Rightarrow> id \<Rightarrow> int \<Rightarrow> int \<Rightarrow> grant_row list \<Rightarrow> grant_row list" where
  \<comment> \<open>\<open>upsert\<close> that writes both masks\<close>
  "set_grant gid ch pt pid allow deny gs =
     (if list_ex (is_grant ch pt pid) gs
      then update_where (is_grant ch pt pid) (\<lambda>g. g\<lparr>allowMask := allow, denyMask := deny\<rparr>) gs
      else gs @ [new_grant gid ch pt pid allow deny])"

section \<open>Creating a channel\<close>

record create_request =
  cr_name :: string
  cr_type :: id
  cr_topic :: "string option"
  cr_description :: "string option"
  cr_categoryId :: "id option"
  cr_isPrivate :: "bool option"

definition create_checks :: "chan_db \<Rightarrow> id \<Rightarrow> create_request \<Rightarrow> error_code + unit" where
  "create_checks db ws input =
     bind_res (assertNameAllowed (cr_name input)) (\<lambda>_.
     bind_res (assertTypeImplemented (cr_type input)) (\<lambda>_.
     optionalCategory db ws (cr_categoryId input)))"

definition bucket_positions :: "chan_db \<Rightarrow> id \<Rightarrow> id option \<Rightarrow> (chan_row \<Rightarrow> bool) \<Rightarrow> rat list" where
  \<comment> \<open>positions of the live channels of a category, or of those without one\<close>
  "bucket_positions db ws cat keep = map cn_position
     (filter (\<lambda>r. cn_workspaceId r = Some ws \<and> cn_categoryId r = cat \<and> live_row r \<and> keep r)
       (cd_channels db))"

definition new_channel :: "id \<Rightarrow> msec \<Rightarrow> id \<Rightarrow> create_request \<Rightarrow> rat \<Rightarrow> chan_row" where
  "new_channel cid now ws input pos =
     \<lparr>cn_id = cid, cn_workspaceId = Some ws, cn_categoryId = cr_categoryId input,
      cn_name = cr_name input, cn_type = cr_type input, cn_topic = cr_topic input,
      cn_description = cr_description input, cn_position = pos, cn_slowmodeSeconds = 0,
      cn_memberCanPin = True, cn_fileUploadEnabled = True, cn_maxFileSizeBytes = None,
      cn_isPrivate = (cr_isPrivate input = Some True), cn_isDefault = False,
      cn_archivedAt = None, cn_deletedAt = None, cn_createdAt = now\<rparr>"

definition insert_channel :: "id \<Rightarrow> id \<Rightarrow> id \<Rightarrow> chan_row \<Rightarrow> chan_db \<Rightarrow> chan_db" where
  "insert_channel gid ws actor row db =
     db\<lparr>cd_channels := cd_channels db @ [row],
        cd_grants := (if cn_isPrivate row then seed_grant gid (cn_id row) USER actor 255 0 (cd_grants db)
                      else cd_grants db),
        cd_outbox := cd_outbox db @ [Chan_created ws actor (toDto row)]\<rparr>"

definition store_position :: "decimal_ops \<Rightarrow> error_code + rat \<Rightarrow> db_failure + rat" where
  \<comment> \<open>the computed position as the column keeps it\<close>
  "store_position D p =
     (case p of Inl e \<Rightarrow> Inl (Rejected e)
      | Inr x \<Rightarrow> (case d_column D x of None \<Rightarrow> Inl Numeric_overflow | Some y \<Rightarrow> Inr y))"

definition createChannel ::
  "decimal_ops \<Rightarrow> msec \<Rightarrow> id \<Rightarrow> id \<Rightarrow> id \<Rightarrow> id \<Rightarrow> create_request \<Rightarrow> chan_db \<Rightarrow> (db_failure + chan_row) \<times> chan_db" where
  "createChannel D now cid gid ws actor input db =
     (case create_checks db ws input of
        Inl e \<Rightarrow> (Inl (Rejected e), db)
      | Inr _ \<Rightarrow>
          (let prev = last_position (bucket_positions db ws (cr_categoryId input) (\<lambda>_. True))
           in case store_position D (calcBetween D prev None) of
                Inl e \<Rightarrow> (Inl e, db)
              | Inr pos \<Rightarrow>
                  (let row = new_channel cid now ws input pos
                   in if name_clash (cd_channels db) row then (Inl (Rejected CHANNEL_NAME_TAKEN), db)
                      else (Inr row, insert_channel gid ws actor row db))))"

section \<open>Updating a channel\<close>

text \<open>A field that is \<open>undefined\<close> is \<open>None\<close>; of a nullable field, \<open>null\<close> is \<open>Some None\<close>.\<close>

record update_request =
  up_name :: "string option"
  up_topic :: "string option option"
  up_description :: "string option option"
  up_categoryId :: "id option option"
  up_slowmodeSeconds :: "int option"
  up_memberCanPin :: "bool option"
  up_fileUploadEnabled :: "bool option"
  up_maxFileSizeBytes :: "int option option"
  up_isPrivate :: "bool option"
  up_confirmName :: "string option"

definition given :: "'a option \<Rightarrow> 'a \<Rightarrow> 'a" where
  \<comment> \<open>the field of the request, or the column as it is\<close>
  "given x old = (case x of None \<Rightarrow> old | Some v \<Rightarrow> v)"

definition find_channel :: "chan_db \<Rightarrow> (chan_row \<Rightarrow> bool) \<Rightarrow> chan_row option" where
  "find_channel db p = find p (cd_channels db)"

definition going_public :: "update_request \<Rightarrow> chan_row \<Rightarrow> bool" where
  "going_public input before \<longleftrightarrow> up_isPrivate input = Some False \<and> cn_isPrivate before"

definition update_checks :: "chan_db \<Rightarrow> id \<Rightarrow> id \<Rightarrow> update_request \<Rightarrow> error_code + chan_row" where
  "update_checks db ws ch input =
     bind_res (case up_name input of None \<Rightarrow> Inr () | Some nm \<Rightarrow> assertNameAllowed nm) (\<lambda>_.
     bind_res (case up_categoryId input of Some cat \<Rightarrow> optionalCategory db ws cat | None \<Rightarrow> Inr ()) (\<lambda>_.
     case find_channel db (\<lambda>r. cn_id r = ch) of
       None \<Rightarrow> Inl CHANNEL_NOT_FOUND
     | Some before \<Rightarrow>
         if going_public input before \<and> up_confirmName input \<noteq> Some (cn_name before)
         then Inl CHANNEL_CONFIRM_REQUIRED else Inr before))"

definition updated_channel :: "update_request \<Rightarrow> chan_row \<Rightarrow> chan_row" where
  "updated_channel input r =
     r\<lparr>cn_name := given (up_name input) (cn_name r), cn_topic := given (up_topic input) (cn_topic r),
       cn_description := given (up_description input) (cn_description r),
       cn_slowmodeSeconds := given (up_slowmodeSeconds input) (cn_slowmodeSeconds r),
       cn_memberCanPin := given (up_memberCanPin input) (cn_memberCanPin r),
       cn_fileUploadEnabled := given (up_fileUploadEnabled input) (cn_fileUploadEnabled r),
       cn_maxFileSizeBytes := given (up_maxFileSizeBytes input) (cn_maxFileSizeBytes r),
       cn_categoryId := given (up_categoryId input) (cn_categoryId r),
       cn_isPrivate := given (up_isPrivate input) (cn_isPrivate r)\<rparr>"

definition emitChannelSystemMessage ::
  "id \<Rightarrow> id \<Rightarrow> string \<Rightarrow> (string \<times> string) list \<Rightarrow> chan_db \<Rightarrow> chan_db" where
  "emitChannelSystemMessage ch actor ty vars db =
     (let username = given (cd_usernames db actor) []
      in db\<lparr>cd_posts := cd_posts db @ [(ch, actor, ty, (''username'', username) # vars)]\<rparr>)"

definition put_channel :: "chan_row \<Rightarrow> chan_event \<Rightarrow> chan_db \<Rightarrow> chan_db" where
  \<comment> \<open>\<open>channel.update\<close> by id and the outbox row of the same transaction\<close>
  "put_channel row ev db =
     db\<lparr>cd_channels := update_where (\<lambda>r. cn_id r = cn_id row) (\<lambda>_. row) (cd_channels db),
        cd_outbox := cd_outbox db @ [ev]\<rparr>"

definition audit_slowmode :: "id \<Rightarrow> id \<Rightarrow> chan_row \<Rightarrow> update_request \<Rightarrow> chan_db \<Rightarrow> chan_db" where
  "audit_slowmode ws actor before input db =
     (case up_slowmodeSeconds input of
        Some s \<Rightarrow> if s \<noteq> cn_slowmodeSeconds before
                  then db\<lparr>cd_audit := cd_audit db @
                         [Slowmode_update ws actor (cn_id before) (cn_slowmodeSeconds before) s]\<rparr>
                  else db
      | None \<Rightarrow> db)"

definition announce_topic :: "id \<Rightarrow> chan_row \<Rightarrow> update_request \<Rightarrow> chan_db \<Rightarrow> chan_db" where
  "announce_topic actor before input db =
     (case up_topic input of
        Some t \<Rightarrow> if cn_topic before \<noteq> t
                  then emitChannelSystemMessage (cn_id before) actor ''SYSTEM_CHANNEL_TOPIC_CHANGED''
                         [(''topic'', given t [])] db
                  else db
      | None \<Rightarrow> db)"

definition updateChannel ::
  "id \<Rightarrow> id \<Rightarrow> id \<Rightarrow> update_request \<Rightarrow> chan_db \<Rightarrow> (db_failure + chan_row) \<times> chan_db" where
  "updateChannel ws ch actor input db =
     (case update_checks db ws ch input of
        Inl e \<Rightarrow> (Inl (Rejected e), db)
      | Inr before \<Rightarrow>
          (let row = updated_channel input before
           in if name_clash (cd_channels db) row then (Inl (Rejected CHANNEL_NAME_TAKEN), db)
              else (Inr row, announce_topic actor before input
                     (audit_slowmode ws actor before input
                       (put_channel row (Chan_updated ws actor (toDto row)) db)))))"

section \<open>Deleting, restoring, archiving\<close>

text \<open>The lookup the handlers share: by id and workspace, deleted rows included.\<close>

definition in_workspace :: "id \<Rightarrow> id \<Rightarrow> chan_row \<Rightarrow> bool" where
  "in_workspace ws ch r \<longleftrightarrow> cn_id r = ch \<and> cn_workspaceId r = Some ws"

definition unprotected_channel :: "chan_db \<Rightarrow> id \<Rightarrow> id \<Rightarrow> error_code + chan_row" where
  "unprotected_channel db ws ch =
     (case find_channel db (in_workspace ws ch) of
        None \<Rightarrow> Inl CHANNEL_NOT_FOUND
      | Some r \<Rightarrow> if cn_isDefault r then Inl DEFAULT_CHANNEL_PROTECTED else Inr r)"

definition softDeleteChannel ::
  "msec \<Rightarrow> id \<Rightarrow> id \<Rightarrow> id \<Rightarrow> chan_db \<Rightarrow> (db_failure + chan_row) \<times> chan_db" where
  "softDeleteChannel now ws ch actor db =
     (case unprotected_channel db ws ch of
        Inl e \<Rightarrow> (Inl (Rejected e), db)
      | Inr r \<Rightarrow> (let row = r\<lparr>cn_deletedAt := Some now\<rparr>
                 in (Inr row, put_channel row (Chan_deleted ws actor ch) db)))"

definition restoreChannel ::
  "id \<Rightarrow> id \<Rightarrow> id \<Rightarrow> chan_db \<Rightarrow> (db_failure + chan_row) \<times> chan_db" where
  "restoreChannel ws ch actor db =
     (case find_channel db (in_workspace ws ch) of
        None \<Rightarrow> (Inl (Rejected CHANNEL_NOT_FOUND), db)
      | Some r \<Rightarrow>
          if live_row r then (Inl (Rejected CHANNEL_NOT_FOUND), db)
          else (let row = r\<lparr>cn_deletedAt := None\<rparr>
                in if name_clash (cd_channels db) row then (Inl Unique_violation, db)
                   else (Inr row, put_channel row (Chan_restored ws actor ch (toDto row)) db)))"

definition archiveChannel ::
  "msec \<Rightarrow> id \<Rightarrow> id \<Rightarrow> id \<Rightarrow> chan_db \<Rightarrow> (db_failure + chan_row) \<times> chan_db" where
  "archiveChannel now ws ch actor db =
     (case unprotected_channel db ws ch of
        Inl e \<Rightarrow> (Inl (Rejected e), db)
      | Inr r \<Rightarrow>
          (let row = r\<lparr>cn_archivedAt := Some now\<rparr>;
               db' = put_channel row (Chan_archived ws actor ch) db
           in (Inr row, if cn_archivedAt r = None
                        then emitChannelSystemMessage ch actor ''SYSTEM_CHANNEL_ARCHIVED'' [] db'
                        else db')))"

definition unarchiveChannel ::
  "id \<Rightarrow> id \<Rightarrow> id \<Rightarrow> chan_db \<Rightarrow> (db_failure + chan_row) \<times> chan_db" where
  "unarchiveChannel ws ch actor db =
     (case find_channel db (\<lambda>r. cn_id r = ch) of
        None \<Rightarrow> (Inl Record_missing, db)
      | Some r \<Rightarrow> (let row = r\<lparr>cn_archivedAt := None\<rparr>
                  in (Inr row, put_channel row (Chan_unarchived ws actor ch) db)))"

section \<open>Permission overrides\<close>

definition invalidateChannelPermsCache :: "id \<Rightarrow> perms_cache \<Rightarrow> perms_cache" where
  \<comment> \<open>SCAN and DEL of \<open>perms:{channelId}:*\<close>\<close>
  "invalidateChannelPermsCache ch redis = map_option (\<lambda>r k. if fst k = ch then None else r k) redis"

definition effective_mask :: "int \<Rightarrow> int \<Rightarrow> int" where
  \<comment> \<open>\<open>(allowMask & ~denyMask) >>> 0\<close>\<close>
  "effective_mask allow deny = uint (to_int32 allow AND NOT (to_int32 deny))"

definition channel_in_workspace :: "chan_db \<Rightarrow> id \<Rightarrow> id \<Rightarrow> error_code + chan_row" where
  "channel_in_workspace db ws ch =
     (case find_channel db (live_in ws ch) of None \<Rightarrow> Inl CHANNEL_NOT_FOUND | Some r \<Rightarrow> Inr r)"

definition audit_of_override :: "id option \<Rightarrow> (id \<Rightarrow> chan_audit) \<Rightarrow> chan_db \<Rightarrow> chan_db" where
  "audit_of_override actor entry db =
     (case actor of None \<Rightarrow> db | Some a \<Rightarrow> db\<lparr>cd_audit := cd_audit db @ [entry a]\<rparr>)"

definition write_override ::
  "id \<Rightarrow> id \<Rightarrow> id \<Rightarrow> principal_type \<Rightarrow> id \<Rightarrow> int \<Rightarrow> int \<Rightarrow> id option \<Rightarrow> chan_db \<Rightarrow> chan_db" where
  \<comment> \<open>the transaction of both \<open>add\<close> operations\<close>
  "write_override gid ws ch pt pid allow deny actor db =
     audit_of_override actor
       (\<lambda>a. Override_set ws a (if pt = USER then Some pid else None) ch pt pid allow deny)
       (db\<lparr>cd_grants := set_grant gid ch pt pid allow deny (cd_grants db),
           cd_outbox := cd_outbox db @
             [Chan_permission_changed ws ch pt pid allow deny (effective_mask allow deny) False]\<rparr>)"

definition addChannelMemberOverride ::
  "id \<Rightarrow> id \<Rightarrow> id \<Rightarrow> id \<Rightarrow> int \<Rightarrow> int \<Rightarrow> id option \<Rightarrow> chan_db \<Rightarrow> perms_cache
     \<Rightarrow> (db_failure + unit) \<times> chan_db \<times> perms_cache" where
  "addChannelMemberOverride gid ws ch target allow deny actor db redis =
     (if \<not> list_ex (\<lambda>m. wm_ws m = ws \<and> wm_user m = target) (cd_members db)
      then (Inl (Rejected WORKSPACE_TARGET_NOT_MEMBER), db, redis)
      else case channel_in_workspace db ws ch of
        Inl e \<Rightarrow> (Inl (Rejected e), db, redis)
      | Inr _ \<Rightarrow> (Inr (), write_override gid ws ch USER target allow deny actor db,
                   invalidateChannelPermsCache ch redis))"

definition addChannelRoleOverride ::
  "id \<Rightarrow> id \<Rightarrow> id \<Rightarrow> workspace_role \<Rightarrow> int \<Rightarrow> int \<Rightarrow> id option \<Rightarrow> chan_db \<Rightarrow> perms_cache
     \<Rightarrow> (db_failure + unit) \<times> chan_db \<times> perms_cache" where
  "addChannelRoleOverride gid ws ch role allow deny actor db redis =
     (case channel_in_workspace db ws ch of
        Inl e \<Rightarrow> (Inl (Rejected e), db, redis)
      | Inr _ \<Rightarrow> (Inr (), write_override gid ws ch ROLE (role_literal role) allow deny actor db,
                   invalidateChannelPermsCache ch redis))"

definition listChannelOverrides ::
  "(principal_type \<times> id \<Rightarrow> nat) \<Rightarrow> id \<Rightarrow> id \<Rightarrow> chan_db \<Rightarrow> error_code + grant_row list" where
  \<comment> \<open>\<open>rank\<close>: the order of the database on \<open>(principalType, principalId)\<close>\<close>
  "listChannelOverrides rank ws ch db =
     (case channel_in_workspace db ws ch of
        Inl e \<Rightarrow> Inl e
      | Inr _ \<Rightarrow> Inr (sort_key (\<lambda>g. rank (principalType g, principalId g))
                   (filter (\<lambda>g. ov_channel g = ch) (cd_grants db))))"

definition removal_event :: "id \<Rightarrow> id \<Rightarrow> grant_row \<Rightarrow> chan_event" where
  "removal_event ws ch g = Chan_permission_changed ws ch (principalType g) (principalId g) 0 0 0 True"

definition removeChannelOverride ::
  "id \<Rightarrow> id \<Rightarrow> id \<Rightarrow> id option \<Rightarrow> chan_db \<Rightarrow> perms_cache \<Rightarrow> (db_failure + id) \<times> chan_db \<times> perms_cache" where
  "removeChannelOverride ws ch ovid actor db redis =
     (case channel_in_workspace db ws ch of
        Inl e \<Rightarrow> (Inl (Rejected e), db, redis)
      | Inr _ \<Rightarrow>
          (case find (\<lambda>g. gr_id g = ovid \<and> ov_channel g = ch) (cd_grants db) of
             None \<Rightarrow> (Inl (Rejected (Error_Code ''CHANNEL_OVERRIDE_NOT_FOUND'')), db, redis)
           | Some g \<Rightarrow>
               (Inr (gr_id g),
                audit_of_override actor
                  (\<lambda>a. Override_remove ws a (if principalType g = USER then Some (principalId g) else None)
                     ch (principalType g) (principalId g) (allowMask g) (denyMask g))
                  (db\<lparr>cd_grants := delete_where (\<lambda>h. gr_id h = gr_id g \<and> ov_channel h = ch) (cd_grants db),
                      cd_outbox := cd_outbox db @ [removal_event ws ch g]\<rparr>),
                invalidateChannelPermsCache ch redis)))"

section \<open>Joining and leaving\<close>

definition joinChannel :: "id \<Rightarrow> id \<Rightarrow> id \<Rightarrow> id \<Rightarrow> chan_db \<Rightarrow> (db_failure + unit) \<times> chan_db" where
  "joinChannel gid ws ch user db =
     (case channel_in_workspace db ws ch of
        Inl e \<Rightarrow> (Inl (Rejected e), db)
      | Inr r \<Rightarrow>
          if cn_isPrivate r then (Inl (Rejected (Error_Code ''CHANNEL_PRIVATE_INVITE_ONLY'')), db)
          else (Inr (), db\<lparr>cd_grants := seed_grant gid ch USER user 0 0 (cd_grants db),
                           cd_outbox := cd_outbox db @ [Chan_member_added ws ch user]\<rparr>))"

definition leaveChannel :: "id \<Rightarrow> id \<Rightarrow> id \<Rightarrow> chan_db \<Rightarrow> (db_failure + unit) \<times> chan_db" where
  "leaveChannel ws ch user db =
     (case channel_in_workspace db ws ch of
        Inl e \<Rightarrow> (Inl (Rejected e), db)
      | Inr _ \<Rightarrow>
          if \<not> list_ex (is_grant ch USER user) (cd_grants db)
          then (Inl (Rejected (Error_Code ''CHANNEL_NOT_MEMBER'')), db)
          else (Inr (), db\<lparr>cd_grants := delete_where (is_grant ch USER user) (cd_grants db),
                           cd_outbox := cd_outbox db @ [Chan_member_removed ws ch user]\<rparr>))"

section \<open>Moving and reordering\<close>

record move_request =
  mv_categoryId :: "id option option"
  mv_beforeId :: "id option"
  mv_afterId :: "id option"

definition anchor_position :: "chan_db \<Rightarrow> id \<Rightarrow> id option \<Rightarrow> rat option" where
  "anchor_position db ws a =
     (case a of None \<Rightarrow> None | Some i \<Rightarrow> map_option cn_position (find_channel db (live_in ws i)))"

definition move_target :: "chan_db \<Rightarrow> id \<Rightarrow> id \<Rightarrow> move_request \<Rightarrow> error_code + chan_row" where
  \<comment> \<open>the channel, in the category it moves to\<close>
  "move_target db ws ch input =
     bind_res (channel_in_workspace db ws ch) (\<lambda>r.
     let cat = given (mv_categoryId input) (cn_categoryId r)
     in bind_res (optionalCategory db ws cat) (\<lambda>_. Inr (r\<lparr>cn_categoryId := cat\<rparr>)))"

definition moveChannel ::
  "decimal_ops \<Rightarrow> id \<Rightarrow> id \<Rightarrow> id \<Rightarrow> move_request \<Rightarrow> chan_db \<Rightarrow> (db_failure + chan_row) \<times> chan_db" where
  "moveChannel D ws ch actor input db =
     (case move_target db ws ch input of
        Inl e \<Rightarrow> (Inl (Rejected e), db)
      | Inr r \<Rightarrow>
          (case store_position D
                  (anchored_position D (anchor_position db ws (mv_afterId input))
                    (anchor_position db ws (mv_beforeId input))
                    (bucket_positions db ws (cn_categoryId r) (\<lambda>other. cn_id other \<noteq> ch))) of
             Inl e \<Rightarrow> (Inl e, db)
           | Inr pos \<Rightarrow> (let row = r\<lparr>cn_position := pos\<rparr>
                        in (Inr row, put_channel row (Chan_moved ws actor (toDto row)) db))))"

definition put_place :: "id option \<times> rat \<Rightarrow> chan_row \<Rightarrow> chan_row" where
  "put_place p r = r\<lparr>cn_categoryId := fst p, cn_position := snd p\<rparr>"

definition order_rows :: "(id option \<Rightarrow> nat) \<Rightarrow> chan_row list \<Rightarrow> chan_row list" where
  \<comment> \<open>\<open>orderBy: [{ categoryId }, { position }]\<close>; \<open>rank\<close> is the order of the database on category ids\<close>
  "order_rows rank rows = sort_key (\<lambda>r. rank (cn_categoryId r)) (sort_key cn_position rows)"

definition listed_rows :: "chan_db \<Rightarrow> id \<Rightarrow> chan_row list" where
  "listed_rows db ws =
     filter (\<lambda>r. cn_workspaceId r = Some ws \<and> live_row r \<and> cn_type r \<noteq> ''DIRECT'') (cd_channels db)"

definition applicable_items :: "chan_db \<Rightarrow> id \<Rightarrow> (id \<times> id option) list \<Rightarrow> (id \<times> id option) list" where
  \<comment> \<open>the items whose channels were locked\<close>
  "applicable_items db ws items =
     filter (\<lambda>i. list_ex (live_in ws (fst i)) (cd_channels db)) items"

definition category_rows_exist :: "chan_db \<Rightarrow> (id \<times> id option) list \<Rightarrow> bool" where
  \<comment> \<open>the foreign key of \<open>categoryId\<close>\<close>
  "category_rows_exist db items = list_all (\<lambda>i. case snd i of None \<Rightarrow> True
     | Some cat \<Rightarrow> list_ex (\<lambda>c. ct_id c = cat) (cd_categories db)) items"

definition reorderChannels ::
  "decimal_ops \<Rightarrow> (id option \<Rightarrow> nat) \<Rightarrow> id \<Rightarrow> id \<Rightarrow> (id \<times> id option) list \<Rightarrow> chan_db
     \<Rightarrow> (db_failure + channel_dto list) \<times> chan_db" where
  "reorderChannels D rank ws actor items db =
     (case applicable_items db ws items of
        [] \<Rightarrow> (Inl (Rejected CHANNEL_NOT_FOUND), db)
      | applicable \<Rightarrow>
          if \<not> category_rows_exist db applicable then (Inl Foreign_key_violation, db)
          else (case placed D (numbered (\<lambda>_. 0) applicable) of
                  None \<Rightarrow> (Inl Numeric_overflow, db)
                | Some asg \<Rightarrow>
                    (let db' = db\<lparr>cd_channels := write_places cn_id put_place asg (cd_channels db)\<rparr>;
                         rows = order_rows rank (listed_rows db' ws)
                     in (Inr (map toDto rows),
                         db'\<lparr>cd_outbox := cd_outbox db' @ [Chan_reordered ws actor
                               (map (\<lambda>r. (cn_id r, cn_categoryId r, cn_position r)) rows)]\<rparr>))))"

interpretation channel_places: placed_rows cn_id "\<lambda>r. (cn_categoryId r, cn_position r)" put_place
  by unfold_locales (simp_all add: put_place_def)

section \<open>The sidebar and the browser\<close>

definition sidebar_hit :: "ws_db \<Rightarrow> id \<Rightarrow> id \<Rightarrow> member_row option \<Rightarrow> id \<Rightarrow> bool" where
  \<comment> \<open>some override that applies to the caller allows anything\<close>
  "sidebar_hit t ws caller member ch = list_ex (\<lambda>ov. ov_channel ov = ch \<and> 0 < allowMask ov \<and>
     (principalType ov = USER \<and> principalId ov = caller \<or>
      (case member of None \<Rightarrow> False
       | Some m \<Rightarrow> principalType ov = ROLE \<and>
           principalId ov \<in> set (role_literal (wm_role m) # memberRoleUuids t ws caller))))
     (db_overrides t)"

definition sidebar_shows :: "ws_db \<Rightarrow> id \<Rightarrow> id \<Rightarrow> chan_row \<Rightarrow> bool" where
  "sidebar_shows t ws caller r \<longleftrightarrow>
     (let member = find (\<lambda>m. wm_ws m = ws \<and> wm_user m = caller) (db_members t)
      in \<not> cn_isPrivate r \<or> map_option wm_role member = Some OWNER \<or>
         sidebar_hit t ws caller member (cn_id r))"

definition visible_rows :: "(id option \<Rightarrow> nat) \<Rightarrow> id \<Rightarrow> id option \<Rightarrow> chan_db \<Rightarrow> chan_row list" where
  "visible_rows rank ws caller db =
     (let channels = order_rows rank (listed_rows db ws)
      in case caller of None \<Rightarrow> channels
         | Some u \<Rightarrow> filter (sidebar_shows (chan_tables db) ws u) channels)"

definition live_categories :: "chan_db \<Rightarrow> id \<Rightarrow> cat_row list" where
  "live_categories db ws = sort_key ct_position
     (filter (\<lambda>c. ct_workspaceId c = ws \<and> ct_deletedAt c = None) (cd_categories db))"

definition in_category :: "id option \<Rightarrow> chan_row list \<Rightarrow> channel_dto list" where
  "in_category cat rows = map toDto (filter (\<lambda>r. cn_categoryId r = cat) rows)"

definition listByWorkspace ::
  "(id option \<Rightarrow> nat) \<Rightarrow> id \<Rightarrow> id option \<Rightarrow> chan_db
     \<Rightarrow> (cat_row \<times> channel_dto list) list \<times> channel_dto list" where
  "listByWorkspace rank ws caller db =
     (let rows = visible_rows rank ws caller db
      in (map (\<lambda>c. (c, in_category (Some (ct_id c)) rows)) (live_categories db ws),
          in_category None rows))"

definition membership_row :: "grant_row \<Rightarrow> bool" where
  "membership_row g \<longleftrightarrow> principalType g = USER \<and> gr_leftAt g = None \<and>
     \<not> (allowMask g = 0 \<and> 0 < denyMask g)"

definition listBrowsable ::
  "(string \<Rightarrow> nat) \<Rightarrow> id \<Rightarrow> id \<Rightarrow> chan_db \<Rightarrow> (channel_dto \<times> nat \<times> bool) list" where
  \<comment> \<open>each with \<open>memberCount\<close> and \<open>isMember\<close>; \<open>collate\<close> is the order of the database on names\<close>
  "listBrowsable collate ws caller db =
     map (\<lambda>c. let rows = filter (\<lambda>g. ov_channel g = cn_id c \<and> membership_row g) (cd_grants db)
              in (toDto c, length rows, list_ex (\<lambda>g. principalId g = caller) rows))
       (sort_key (\<lambda>c. collate (cn_name c))
         (filter (\<lambda>c. cn_archivedAt c = None \<and> \<not> cn_isPrivate c) (listed_rows db ws)))"

end
