(* ===== verification/Sidebar.thy ===== *)
theory Sidebar
  imports Channels
begin

text \<open>
  What orders the sidebar besides the channels: the categories of a workspace
  (\<open>categories/categories.service.ts\<close>), a user's favourite channels
  (\<open>favorites/favorites.service.ts\<close>) and his own sections
  (\<open>sidebar-sections/sidebar-sections.service.ts\<close>). All of them place their rows with
  \<open>calcBetween\<close>; a category row is returned and sent out as it is.
\<close>

section \<open>Categories\<close>

definition category_clash :: "cat_row list \<Rightarrow> cat_row \<Rightarrow> bool" where
  \<comment> \<open>the partial unique index \<open>(workspaceId, name) WHERE "deletedAt" IS NULL\<close>\<close>
  "category_clash rows row \<longleftrightarrow> ct_deletedAt row = None \<and>
     list_ex (\<lambda>r. ct_id r \<noteq> ct_id row \<and> ct_deletedAt r = None
       \<and> ct_workspaceId r = ct_workspaceId row \<and> ct_name r = ct_name row) rows"

definition live_category :: "id \<Rightarrow> id \<Rightarrow> cat_row \<Rightarrow> bool" where
  "live_category ws cat c \<longleftrightarrow> ct_id c = cat \<and> ct_workspaceId c = ws \<and> ct_deletedAt c = None"

definition category_positions :: "chan_db \<Rightarrow> id \<Rightarrow> (cat_row \<Rightarrow> bool) \<Rightarrow> rat list" where
  "category_positions db ws keep = map ct_position
     (filter (\<lambda>c. ct_workspaceId c = ws \<and> ct_deletedAt c = None \<and> keep c) (cd_categories db))"

definition createCategory ::
  "decimal_ops \<Rightarrow> msec \<Rightarrow> id \<Rightarrow> id \<Rightarrow> id \<Rightarrow> string \<Rightarrow> string option \<Rightarrow> chan_db
     \<Rightarrow> (db_failure + cat_row) \<times> chan_db" where
  "createCategory D now cid ws actor nm description db =
     (case store_position D (calcBetween D (last_position (category_positions db ws (\<lambda>_. True))) None) of
        Inl e \<Rightarrow> (Inl e, db)
      | Inr pos \<Rightarrow>
          (let row = \<lparr>ct_id = cid, ct_workspaceId = ws, ct_name = nm, ct_description = description,
                      ct_position = pos, ct_deletedAt = None, ct_createdAt = now\<rparr>
           in if category_clash (cd_categories db) row then (Inl (Rejected CATEGORY_NAME_TAKEN), db)
              else (Inr row, db\<lparr>cd_categories := cd_categories db @ [row],
                                cd_outbox := cd_outbox db @ [Cat_created ws actor row]\<rparr>)))"

definition put_category :: "cat_row \<Rightarrow> chan_event \<Rightarrow> chan_db \<Rightarrow> chan_db" where
  "put_category row ev db =
     db\<lparr>cd_categories := update_where (\<lambda>c. ct_id c = ct_id row) (\<lambda>_. row) (cd_categories db),
        cd_outbox := cd_outbox db @ [ev]\<rparr>"

definition updateCategory ::
  "id \<Rightarrow> id \<Rightarrow> id \<Rightarrow> string option \<Rightarrow> string option option \<Rightarrow> chan_db
     \<Rightarrow> (db_failure + cat_row) \<times> chan_db" where
  "updateCategory ws cat actor nm description db =
     (case find (live_category ws cat) (cd_categories db) of
        None \<Rightarrow> (Inl (Rejected CATEGORY_NOT_FOUND), db)
      | Some c \<Rightarrow>
          (let row = c\<lparr>ct_name := given nm (ct_name c),
                       ct_description := given description (ct_description c)\<rparr>
           in if category_clash (cd_categories db) row then (Inl (Rejected CATEGORY_NAME_TAKEN), db)
              else (Inr row, put_category row (Cat_updated ws actor row) db)))"

definition removeCategory ::
  "msec \<Rightarrow> id \<Rightarrow> id \<Rightarrow> id \<Rightarrow> chan_db \<Rightarrow> (db_failure + unit) \<times> chan_db" where
  "removeCategory now ws cat actor db =
     (case find (live_category ws cat) (cd_categories db) of
        None \<Rightarrow> (Inl (Rejected CATEGORY_NOT_FOUND), db)
      | Some c \<Rightarrow>
          (Inr (), put_category (c\<lparr>ct_deletedAt := Some now\<rparr>) (Cat_deleted ws actor cat)
             (db\<lparr>cd_channels := update_where
                  (\<lambda>r. cn_workspaceId r = Some ws \<and> cn_categoryId r = Some cat)
                  (\<lambda>r. r\<lparr>cn_categoryId := None\<rparr>) (cd_channels db)\<rparr>)))"

definition put_position :: "unit \<times> rat \<Rightarrow> cat_row \<Rightarrow> cat_row" where
  "put_position p c = c\<lparr>ct_position := snd p\<rparr>"

definition reorderCategories ::
  "decimal_ops \<Rightarrow> id \<Rightarrow> id \<Rightarrow> id list \<Rightarrow> chan_db \<Rightarrow> (db_failure + cat_row list) \<times> chan_db" where
  "reorderCategories D ws actor ids db =
     (case filter (\<lambda>i. list_ex (live_category ws i) (cd_categories db)) ids of
        [] \<Rightarrow> (Inl (Rejected CATEGORY_NOT_FOUND), db)
      | applicable \<Rightarrow>
          (case placed D (numbered (\<lambda>_. 0) (map (\<lambda>i. (i, ())) applicable)) of
             None \<Rightarrow> (Inl Numeric_overflow, db)
           | Some asg \<Rightarrow>
               (let db' = db\<lparr>cd_categories := write_places ct_id put_position asg (cd_categories db)\<rparr>;
                    rows = live_categories db' ws
                in (Inr rows, db'\<lparr>cd_outbox := cd_outbox db' @
                     [Cat_reordered ws actor (map (\<lambda>c. (ct_id c, ct_position c)) rows)]\<rparr>))))"

interpretation category_places: placed_rows ct_id "\<lambda>c. ((), ct_position c)" put_position
  by unfold_locales (simp_all add: put_position_def prod_eq_iff)

record anchor_request =
  an_beforeId :: "id option"
  an_afterId :: "id option"

definition category_anchor :: "chan_db \<Rightarrow> id \<Rightarrow> id option \<Rightarrow> rat option" where
  "category_anchor db ws a = (case a of None \<Rightarrow> None
     | Some i \<Rightarrow> map_option ct_position (find (live_category ws i) (cd_categories db)))"

definition moveCategory ::
  "decimal_ops \<Rightarrow> id \<Rightarrow> id \<Rightarrow> id \<Rightarrow> anchor_request \<Rightarrow> chan_db \<Rightarrow> (db_failure + cat_row) \<times> chan_db" where
  "moveCategory D ws cat actor input db =
     (case find (live_category ws cat) (cd_categories db) of
        None \<Rightarrow> (Inl (Rejected CATEGORY_NOT_FOUND), db)
      | Some c \<Rightarrow>
          (case store_position D
                  (anchored_position D (category_anchor db ws (an_afterId input))
                    (category_anchor db ws (an_beforeId input))
                    (category_positions db ws (\<lambda>other. ct_id other \<noteq> cat))) of
             Inl e \<Rightarrow> (Inl e, db)
           | Inr pos \<Rightarrow> (let row = c\<lparr>ct_position := pos\<rparr>
                        in (Inr row, put_category row (Cat_moved ws actor row) db))))"

section \<open>Anchors that must exist\<close>

text \<open>Favourites and sections refuse an anchor that is not in their list, where channels and
  categories ignore it.\<close>

definition strict_anchor :: "error_code \<Rightarrow> (id \<Rightarrow> rat option) \<Rightarrow> id option \<Rightarrow> error_code + rat option" where
  "strict_anchor missing position_of a =
     (case a of None \<Rightarrow> Inr None
      | Some i \<Rightarrow> (case position_of i of None \<Rightarrow> Inl missing | Some p \<Rightarrow> Inr (Some p)))"

definition strict_position ::
  "decimal_ops \<Rightarrow> error_code \<Rightarrow> (id \<Rightarrow> rat option) \<Rightarrow> anchor_request \<Rightarrow> rat list \<Rightarrow> db_failure + rat" where
  "strict_position D missing position_of input others =
     store_position D
       (bind_res (strict_anchor missing position_of (an_afterId input)) (\<lambda>after.
        bind_res (strict_anchor missing position_of (an_beforeId input)) (\<lambda>before.
        anchored_position D after before others)))"

definition self_anchored :: "id \<Rightarrow> anchor_request \<Rightarrow> bool" where
  "self_anchored i input \<longleftrightarrow> an_afterId input = Some i \<or> an_beforeId input = Some i"

section \<open>Favourites\<close>

record favorite_row =
  fv_userId :: id
  fv_channelId :: id
  fv_position :: rat
  fv_createdAt :: msec

abbreviation FAVORITE_NOT_FOUND :: error_code where
  "FAVORITE_NOT_FOUND \<equiv> Error_Code ''FAVORITE_NOT_FOUND''"

definition favorite_of :: "favorite_row list \<Rightarrow> id \<Rightarrow> id \<Rightarrow> favorite_row option" where
  "favorite_of t user ch = find (\<lambda>f. fv_userId f = user \<and> fv_channelId f = ch) t"

definition favorite_positions :: "favorite_row list \<Rightarrow> id \<Rightarrow> (favorite_row \<Rightarrow> bool) \<Rightarrow> rat list" where
  "favorite_positions t user keep = map fv_position (filter (\<lambda>f. fv_userId f = user \<and> keep f) t)"

text \<open>
  The reads of \<open>addFavorite\<close> see the table \<open>seen\<close>; its insert meets the table \<open>t\<close>, to which a
  concurrent request may have committed. The unique violation is caught inside the transaction, where
  PostgreSQL refuses the query of the handler: the transaction is aborted.
\<close>

datatype favorite_result = Favorite favorite_row | Favorite_failed db_failure | Transaction_aborted

definition addFavorite ::
  "decimal_ops \<Rightarrow> msec \<Rightarrow> id \<Rightarrow> id \<Rightarrow> favorite_row list \<Rightarrow> favorite_row list
     \<Rightarrow> favorite_result \<times> favorite_row list" where
  "addFavorite D now user ch seen t =
     (case favorite_of seen user ch of
        Some f \<Rightarrow> (Favorite f, t)
      | None \<Rightarrow>
          (case store_position D (calcBetween D (last_position (favorite_positions seen user (\<lambda>_. True))) None) of
             Inl e \<Rightarrow> (Favorite_failed e, t)
           | Inr pos \<Rightarrow>
               if favorite_of t user ch \<noteq> None then (Transaction_aborted, t)
               else (let row = \<lparr>fv_userId = user, fv_channelId = ch, fv_position = pos, fv_createdAt = now\<rparr>
                     in (Favorite row, t @ [row]))))"

definition removeFavorite :: "id \<Rightarrow> id \<Rightarrow> favorite_row list \<Rightarrow> favorite_row list" where
  "removeFavorite user ch t = delete_where (\<lambda>f. fv_userId f = user \<and> fv_channelId f = ch) t"

definition listFavorites :: "id \<Rightarrow> favorite_row list \<Rightarrow> favorite_row list" where
  "listFavorites user t = sort_key fv_position (filter (\<lambda>f. fv_userId f = user) t)"

definition moveFavorite ::
  "decimal_ops \<Rightarrow> id \<Rightarrow> id \<Rightarrow> anchor_request \<Rightarrow> favorite_row list
     \<Rightarrow> (db_failure + favorite_row) \<times> favorite_row list" where
  "moveFavorite D user ch input t =
     (if self_anchored ch input then (Inl (Rejected VALIDATION_FAILED), t)
      else case favorite_of t user ch of
        None \<Rightarrow> (Inl (Rejected FAVORITE_NOT_FOUND), t)
      | Some f \<Rightarrow>
          (case strict_position D FAVORITE_NOT_FOUND (\<lambda>i. map_option fv_position (favorite_of t user i))
                  input (favorite_positions t user (\<lambda>other. fv_channelId other \<noteq> ch)) of
             Inl e \<Rightarrow> (Inl e, t)
           | Inr pos \<Rightarrow> (Inr (f\<lparr>fv_position := pos\<rparr>),
               update_where (\<lambda>g. fv_userId g = user \<and> fv_channelId g = ch) (\<lambda>g. g\<lparr>fv_position := pos\<rparr>) t)))"

section \<open>Sections of a user's sidebar\<close>

record section_row =
  se_id :: id
  se_userId :: id
  se_workspaceId :: id
  se_name :: string
  se_emoji :: "string option"
  se_sortMode :: string
  se_position :: rat
  se_createdAt :: msec

record assignment_row =
  as_userId :: id
  as_channelId :: id
  as_sectionId :: id
  as_position :: rat

record section_db =
  sd_sections :: "section_row list"
  sd_assignments :: "assignment_row list"

abbreviation SIDEBAR_SECTION_NOT_FOUND :: error_code where
  "SIDEBAR_SECTION_NOT_FOUND \<equiv> Error_Code ''SIDEBAR_SECTION_NOT_FOUND''"

abbreviation SIDEBAR_ASSIGNMENT_NOT_FOUND :: error_code where
  "SIDEBAR_ASSIGNMENT_NOT_FOUND \<equiv> Error_Code ''SIDEBAR_ASSIGNMENT_NOT_FOUND''"

definition own_section :: "id \<Rightarrow> id \<Rightarrow> id \<Rightarrow> section_row \<Rightarrow> bool" where
  "own_section user ws i s \<longleftrightarrow> se_id s = i \<and> se_userId s = user \<and> se_workspaceId s = ws"

definition section_channels :: "section_db \<Rightarrow> section_row \<Rightarrow> id list" where
  "section_channels sd s = map as_channelId
     (sort_key as_position (filter (\<lambda>a. as_sectionId a = se_id s) (sd_assignments sd)))"

definition listSections :: "id \<Rightarrow> id \<Rightarrow> section_db \<Rightarrow> (section_row \<times> id list) list" where
  "listSections user ws sd = map (\<lambda>s. (s, section_channels sd s))
     (sort_key se_position (filter (\<lambda>s. se_userId s = user \<and> se_workspaceId s = ws) (sd_sections sd)))"

definition requireSection :: "id \<Rightarrow> id \<Rightarrow> id \<Rightarrow> section_db \<Rightarrow> error_code + section_row" where
  "requireSection user ws i sd =
     (case find (own_section user ws i) (sd_sections sd) of
        None \<Rightarrow> Inl SIDEBAR_SECTION_NOT_FOUND | Some s \<Rightarrow> Inr s)"

definition getSection :: "id \<Rightarrow> id \<Rightarrow> id \<Rightarrow> section_db \<Rightarrow> db_failure + (section_row \<times> id list)" where
  "getSection user ws i sd =
     (case find (\<lambda>s. se_id (fst s) = i) (listSections user ws sd) of
        None \<Rightarrow> Inl (Rejected SIDEBAR_SECTION_NOT_FOUND) | Some s \<Rightarrow> Inr s)"

definition section_positions :: "section_db \<Rightarrow> id \<Rightarrow> id \<Rightarrow> (section_row \<Rightarrow> bool) \<Rightarrow> rat list" where
  "section_positions sd user ws keep = map se_position
     (filter (\<lambda>s. se_userId s = user \<and> se_workspaceId s = ws \<and> keep s) (sd_sections sd))"

definition createSection ::
  "decimal_ops \<Rightarrow> msec \<Rightarrow> id \<Rightarrow> id \<Rightarrow> id \<Rightarrow> string \<Rightarrow> string option \<Rightarrow> string option \<Rightarrow> section_db
     \<Rightarrow> (db_failure + (section_row \<times> id list)) \<times> section_db" where
  "createSection D now i user ws nm emoji sortMode sd =
     (case store_position D (calcBetween D (last_position (section_positions sd user ws (\<lambda>_. True))) None) of
        Inl e \<Rightarrow> (Inl e, sd)
      | Inr pos \<Rightarrow>
          (let row = \<lparr>se_id = i, se_userId = user, se_workspaceId = ws, se_name = nm, se_emoji = emoji,
                      se_sortMode = given sortMode ''MANUAL'', se_position = pos, se_createdAt = now\<rparr>
           in (Inr (row, []), sd\<lparr>sd_sections := sd_sections sd @ [row]\<rparr>)))"

definition put_section :: "id \<Rightarrow> (section_row \<Rightarrow> section_row) \<Rightarrow> section_db \<Rightarrow> section_db" where
  \<comment> \<open>\<open>userSidebarSection.update\<close> by id\<close>
  "put_section i f sd = sd\<lparr>sd_sections := update_where (\<lambda>s. se_id s = i) f (sd_sections sd)\<rparr>"

definition updateSection ::
  "id \<Rightarrow> id \<Rightarrow> id \<Rightarrow> string option \<Rightarrow> string option option \<Rightarrow> string option \<Rightarrow> section_db
     \<Rightarrow> (db_failure + (section_row \<times> id list)) \<times> section_db" where
  "updateSection user ws i nm emoji sortMode sd =
     (case requireSection user ws i sd of
        Inl e \<Rightarrow> (Inl (Rejected e), sd)
      | Inr _ \<Rightarrow>
          (let sd' = put_section i (\<lambda>s. s\<lparr>se_name := given nm (se_name s), se_emoji := given emoji (se_emoji s),
                       se_sortMode := given sortMode (se_sortMode s)\<rparr>) sd
           in (getSection user ws i sd', sd')))"

definition removeSection ::
  "id \<Rightarrow> id \<Rightarrow> id \<Rightarrow> section_db \<Rightarrow> (db_failure + unit) \<times> section_db" where
  \<comment> \<open>the assignments of the section go with it (ON DELETE CASCADE)\<close>
  "removeSection user ws i sd =
     (case requireSection user ws i sd of
        Inl e \<Rightarrow> (Inl (Rejected e), sd)
      | Inr _ \<Rightarrow> (Inr (), sd\<lparr>sd_sections := delete_where (\<lambda>s. se_id s = i) (sd_sections sd),
                           sd_assignments := delete_where (\<lambda>a. as_sectionId a = i) (sd_assignments sd)\<rparr>))"

definition moveSection ::
  "decimal_ops \<Rightarrow> id \<Rightarrow> id \<Rightarrow> id \<Rightarrow> anchor_request \<Rightarrow> section_db
     \<Rightarrow> (db_failure + (section_row \<times> id list)) \<times> section_db" where
  "moveSection D user ws i input sd =
     (if self_anchored i input then (Inl (Rejected VALIDATION_FAILED), sd)
      else case requireSection user ws i sd of
        Inl e \<Rightarrow> (Inl (Rejected e), sd)
      | Inr _ \<Rightarrow>
          (case strict_position D SIDEBAR_SECTION_NOT_FOUND
                  (\<lambda>a. map_option se_position (find (own_section user ws a) (sd_sections sd)))
                  input (section_positions sd user ws (\<lambda>s. se_id s \<noteq> i)) of
             Inl e \<Rightarrow> (Inl e, sd)
           | Inr pos \<Rightarrow> (let sd' = put_section i (\<lambda>s. s\<lparr>se_position := pos\<rparr>) sd
                        in (getSection user ws i sd', sd'))))"

definition assignment_positions :: "section_db \<Rightarrow> id \<Rightarrow> id \<Rightarrow> (assignment_row \<Rightarrow> bool) \<Rightarrow> rat list" where
  "assignment_positions sd user i keep = map as_position
     (filter (\<lambda>a. as_userId a = user \<and> as_sectionId a = i \<and> keep a) (sd_assignments sd))"

definition assignment_of :: "id \<Rightarrow> id \<Rightarrow> assignment_row \<Rightarrow> bool" where
  "assignment_of user ch a \<longleftrightarrow> as_userId a = user \<and> as_channelId a = ch"

definition put_assignment :: "id \<Rightarrow> id \<Rightarrow> id \<Rightarrow> rat \<Rightarrow> section_db \<Rightarrow> section_db" where
  \<comment> \<open>\<open>upsert\<close> on the unique \<open>(userId, channelId)\<close>\<close>
  "put_assignment user ch i pos sd =
     sd\<lparr>sd_assignments :=
       (if list_ex (assignment_of user ch) (sd_assignments sd)
        then update_where (assignment_of user ch) (\<lambda>a. a\<lparr>as_sectionId := i, as_position := pos\<rparr>) (sd_assignments sd)
        else sd_assignments sd @
          [\<lparr>as_userId = user, as_channelId = ch, as_sectionId = i, as_position = pos\<rparr>])\<rparr>"

definition assignChannel ::
  "decimal_ops \<Rightarrow> id \<Rightarrow> id \<Rightarrow> id \<Rightarrow> id \<Rightarrow> chan_db \<Rightarrow> section_db
     \<Rightarrow> (db_failure + (section_row \<times> id list)) \<times> section_db" where
  "assignChannel D user ws i ch db sd =
     (case requireSection user ws i sd of
        Inl e \<Rightarrow> (Inl (Rejected e), sd)
      | Inr _ \<Rightarrow>
          (case channel_in_workspace db ws ch of
             Inl e \<Rightarrow> (Inl (Rejected e), sd)
           | Inr _ \<Rightarrow>
               (case store_position D (calcBetween D
                       (last_position (assignment_positions sd user i (\<lambda>_. True))) None) of
                  Inl e \<Rightarrow> (Inl e, sd)
                | Inr pos \<Rightarrow> (let sd' = put_assignment user ch i pos sd
                             in (getSection user ws i sd', sd')))))"

definition unassignChannel ::
  "id \<Rightarrow> id \<Rightarrow> id \<Rightarrow> id \<Rightarrow> section_db \<Rightarrow> (db_failure + (section_row \<times> id list)) \<times> section_db" where
  "unassignChannel user ws i ch sd =
     (case requireSection user ws i sd of
        Inl e \<Rightarrow> (Inl (Rejected e), sd)
      | Inr _ \<Rightarrow>
          (let sd' = sd\<lparr>sd_assignments :=
                 delete_where (\<lambda>a. assignment_of user ch a \<and> as_sectionId a = i) (sd_assignments sd)\<rparr>
           in (getSection user ws i sd', sd')))"

definition assignment_target ::
  "id \<Rightarrow> id \<Rightarrow> id \<Rightarrow> id option \<Rightarrow> section_db \<Rightarrow> error_code + id" where
  \<comment> \<open>the section the channel goes to\<close>
  "assignment_target user ws ch dest sd =
     (case find (assignment_of user ch) (sd_assignments sd) of
        None \<Rightarrow> Inl SIDEBAR_ASSIGNMENT_NOT_FOUND
      | Some a \<Rightarrow>
          bind_res (requireSection user ws (as_sectionId a) sd) (\<lambda>_.
          case dest of None \<Rightarrow> Inr (as_sectionId a)
          | Some i \<Rightarrow> if i = as_sectionId a then Inr i
                     else bind_res (requireSection user ws i sd) (\<lambda>_. Inr i)))"

definition moveAssignment ::
  "decimal_ops \<Rightarrow> id \<Rightarrow> id \<Rightarrow> id \<Rightarrow> id option \<Rightarrow> anchor_request \<Rightarrow> section_db
     \<Rightarrow> (db_failure + (section_row \<times> id list)) \<times> section_db" where
  "moveAssignment D user ws ch dest input sd =
     (if self_anchored ch input then (Inl (Rejected VALIDATION_FAILED), sd)
      else case assignment_target user ws ch dest sd of
        Inl e \<Rightarrow> (Inl (Rejected e), sd)
      | Inr i \<Rightarrow>
          (case strict_position D SIDEBAR_ASSIGNMENT_NOT_FOUND
                  (\<lambda>o'. map_option as_position (find (\<lambda>a. assignment_of user o' a \<and> as_sectionId a = i) (sd_assignments sd)))
                  input (assignment_positions sd user i (\<lambda>a. as_channelId a \<noteq> ch)) of
             Inl e \<Rightarrow> (Inl e, sd)
           | Inr pos \<Rightarrow> (let sd' = put_assignment user ch i pos sd
                        in (getSection user ws i sd', sd'))))"

end
