(* ===== verification/Channel_Invariants.thy ===== *)
theory Channel_Invariants
  imports Sidebar
begin

text \<open>
  What the operations of \<open>Channels\<close> and \<open>Sidebar\<close> keep and promise: overrides and the effective
  masks the gates compute from them, the permission cache, the order a reorder leaves, and the
  invariant of the channel tables over every sequence of operations.
\<close>

section \<open>Overrides and effective masks\<close>

lemma grant_truncate_simps [simp]:
  "ov_channel (override_row.truncate g) = ov_channel g"
  "principalType (override_row.truncate g) = principalType g"
  "principalId (override_row.truncate g) = principalId g"
  "allowMask (override_row.truncate g) = allowMask g"
  "denyMask (override_row.truncate g) = denyMask g"
  by (simp_all add: override_row.defs)

lemma chan_tables_simps [simp]:
  "db_roles (chan_tables db) = cd_roles db" "db_members (chan_tables db) = cd_members db"
  "db_memberRoles (chan_tables db) = cd_memberRoles db"
  "db_overrides (chan_tables db) = map override_row.truncate (cd_grants db)"
  "db_channels (chan_tables db) = map channel_view (cd_channels db)"
  by (simp_all add: chan_tables_def)

text \<open>A mask depends on the overrides that apply, and not on rows that set no bit.\<close>

definition applies_to :: "id \<Rightarrow> id \<Rightarrow> id set \<Rightarrow> grant_row \<Rightarrow> bool" where
  "applies_to ch user ids g \<longleftrightarrow> ov_channel g = ch \<and>
     (principalType g = USER \<and> principalId g = user \<or> principalType g = ROLE \<and> principalId g \<in> ids)"

definition member_ids :: "member_info \<Rightarrow> id set" where
  "member_ids member = set (role_literal (mi_role member) # map role_id (mi_memberRoles member))"

definition grant_bit :: "(grant_row \<Rightarrow> int) \<Rightarrow> grant_row set \<Rightarrow> principal_type \<Rightarrow> nat \<Rightarrow> bool" where
  "grant_bit sel gs t n \<longleftrightarrow> (\<exists>g \<in> gs. principalType g = t \<and> bit (to_int32 (sel g)) n)"

lemma effective_bit:
  fixes db c u member
  defines "gs \<equiv> {g \<in> set (cd_grants db). applies_to (c_id c) u (member_ids member) g}"
  shows "bit (effective_of_member (chan_tables db) c u member) n \<longleftrightarrow>
     \<not> grant_bit denyMask gs USER n \<and>
     (grant_bit allowMask gs USER n \<or>
      \<not> grant_bit denyMask gs ROLE n \<and>
      (grant_bit allowMask gs ROLE n \<or>
       bit (computeEnforcementBase member) n \<and> (mi_role member = OWNER \<or> \<not> c_isPrivate c \<or>
         grant_bit allowMask gs USER 0 \<or> grant_bit allowMask gs ROLE 0)))"
proof -
  let ?ovs = "channel_overrides (chan_tables db) (c_id c) u
    (role_literal (mi_role member) # map role_id (mi_memberRoles member))"
  have tier: "tier t ?ovs = (channel_override.truncate \<circ> override_row.truncate) ` {g \<in> gs. principalType g = t}" for t
    unfolding tier_def channel_overrides_set gs_def applies_to_def member_ids_def by auto
  have "ov_bit allowMask (tier t ?ovs) k \<longleftrightarrow> grant_bit allowMask gs t k"
    "ov_bit denyMask (tier t ?ovs) k \<longleftrightarrow> grant_bit denyMask gs t k" for t k
    unfolding ov_bit_def grant_bit_def tier by auto
  then show ?thesis by (simp only: effective_of_member_def fold_overrides_bit)
qed

lemma bit_zero_mask [simp]: "\<not> bit (to_int32 0) n"
  by (simp add: to_int32_def)

text \<open>Rows that set no bit change no mask.\<close>

lemma effective_same_bits:
  assumes "\<And>g. g \<in> set (cd_grants db') - set (cd_grants db) \<Longrightarrow> allowMask g = 0 \<and> denyMask g = 0"
    and "set (cd_grants db) \<subseteq> set (cd_grants db')"
  shows "effective_of_member (chan_tables db') c u member = effective_of_member (chan_tables db) c u member"
proof (rule bit_eqI)
  fix n
  have same: "grant_bit sel {g \<in> set (cd_grants db'). P g} t k
      \<longleftrightarrow> grant_bit sel {g \<in> set (cd_grants db). P g} t k"
    if "sel = allowMask \<or> sel = denyMask" for sel P t k
    using assms that unfolding grant_bit_def by (auto simp: subset_iff) (metis Diff_iff bit_zero_mask)+
  show "bit (effective_of_member (chan_tables db') c u member) n
      \<longleftrightarrow> bit (effective_of_member (chan_tables db) c u member) n"
    unfolding effective_bit by (simp add: same)
qed

lemma effective_other_channel:
  assumes "\<And>g. ov_channel g = c_id c \<Longrightarrow> g \<in> set (cd_grants db') \<longleftrightarrow> g \<in> set (cd_grants db)"
  shows "effective_of_member (chan_tables db') c u member = effective_of_member (chan_tables db) c u member"
proof -
  have "{g \<in> set (cd_grants db'). applies_to (c_id c) u ids g}
      = {g \<in> set (cd_grants db). applies_to (c_id c) u ids g}" for ids
    using assms by (auto simp: applies_to_def)
  then show ?thesis by (intro bit_eqI) (simp only: effective_bit)
qed

lemma join_keeps_masks:
  assumes "joinChannel gid ws ch user db = (res, db')"
  shows "effective_of_member (chan_tables db') c u member = effective_of_member (chan_tables db) c u member"
  using assms
  by (intro effective_same_bits)
    (auto simp: joinChannel_def seed_grant_def new_grant_def split: sum.splits if_splits)

section \<open>The permission cache\<close>

lemma cacheGet_invalidated:
  "cacheGet (invalidateChannelPermsCache ch redis) now k = (if fst k = ch then None else cacheGet redis now k)"
  by (auto simp: cacheGet_def invalidateChannelPermsCache_def split: option.splits)

lemma find_member_tables:
  assumes "cd_roles db' = cd_roles db" "cd_members db' = cd_members db" "cd_memberRoles db' = cd_memberRoles db"
  shows "find_member (chan_tables db') = find_member (chan_tables db)"
  by (intro ext) (simp only: find_member_def held_roles_def chan_tables_simps assms)

lemma coherent_after_override:
  assumes coh: "cache_coherent (chan_tables db) chan redis now" and ids: "\<forall>i. c_id (chan i) = i"
    and same: "cd_roles db' = cd_roles db" "cd_members db' = cd_members db" "cd_memberRoles db' = cd_memberRoles db"
    and other: "\<And>g. ov_channel g \<noteq> ch \<Longrightarrow> g \<in> set (cd_grants db') \<longleftrightarrow> g \<in> set (cd_grants db)"
  shows "cache_coherent (chan_tables db') chan (invalidateChannelPermsCache ch redis) now"
  unfolding cache_coherent_def cacheGet_invalidated
proof (intro allI impI)
  fix i u m w member
  assume hit: "(if fst (i, u) = ch then None else cacheGet redis now (i, u)) = Some m"
    and ws: "c_workspaceId (chan i) = Some w" and member: "find_member (chan_tables db') w u = Some member"
  from hit have "i \<noteq> ch" "cacheGet redis now (i, u) = Some m" by (auto split: if_splits)
  with coh ws member have "m = effective_of_member (chan_tables db) (chan i) u member"
    unfolding cache_coherent_def find_member_tables [OF same] by blast
  also have "\<dots> = effective_of_member (chan_tables db') (chan i) u member"
    using other ids \<open>i \<noteq> ch\<close> by (intro effective_other_channel [symmetric]) auto
  finally show "m = effective_of_member (chan_tables db') (chan i) u member" .
qed

lemma write_override_simps [simp]:
  "cd_roles (write_override gid ws ch pt pid a d actor db) = cd_roles db"
  "cd_members (write_override gid ws ch pt pid a d actor db) = cd_members db"
  "cd_memberRoles (write_override gid ws ch pt pid a d actor db) = cd_memberRoles db"
  "cd_channels (write_override gid ws ch pt pid a d actor db) = cd_channels db"
  "cd_categories (write_override gid ws ch pt pid a d actor db) = cd_categories db"
  "cd_grants (write_override gid ws ch pt pid a d actor db) = set_grant gid ch pt pid a d (cd_grants db)"
  by (auto simp: write_override_def audit_of_override_def split: option.split)

lemma set_grant_other:
  "ov_channel g \<noteq> ch \<Longrightarrow> g \<in> set (set_grant gid ch pt pid a d gs) \<longleftrightarrow> g \<in> set gs"
  by (auto simp: set_grant_def new_grant_def set_update_where is_grant_def image_iff split: if_splits)

text \<open>No stale permissions after an override changes: whatever the three operations answer, a coherent
  cache stays coherent with the new tables.\<close>

lemma override_changes_keep_cache_coherent:
  assumes "cache_coherent (chan_tables db) chan redis now" and "\<forall>i. c_id (chan i) = i"
    and "addChannelMemberOverride gid ws ch target a d actor db redis = (r1, db', redis')
       \<or> addChannelRoleOverride gid ws ch role a d actor db redis = (r1, db', redis')
       \<or> removeChannelOverride ws ch ovid actor db redis = (r2, db', redis')"
  shows "cache_coherent (chan_tables db') chan redis' now"
  using assms(3,1)
  by (auto simp: addChannelMemberOverride_def addChannelRoleOverride_def removeChannelOverride_def
      audit_of_override_def set_grant_other set_delete_where
      intro!: coherent_after_override [OF assms(1,2)] split: if_splits sum.splits option.splits)

section \<open>A new private channel\<close>

lemma createChannel_cases:
  assumes "createChannel D now cid gid ws actor input db = (res, db')"
  obtains e where "res = Inl e" and "db' = db"
  | pos where "res = Inr (new_channel cid now ws input pos)"
      and "db' = insert_channel gid ws actor (new_channel cid now ws input pos) db"
      and "\<not> name_clash (cd_channels db) (new_channel cid now ws input pos)"
      and "create_checks db ws input = Inr ()"
  using assms by (auto simp: createChannel_def Let_def split: sum.splits if_splits)

lemma new_channel_simps [simp]:
  "cn_id (new_channel cid now ws input pos) = cid"
  "cn_workspaceId (new_channel cid now ws input pos) = Some ws"
  "cn_isPrivate (new_channel cid now ws input pos) \<longleftrightarrow> cr_isPrivate input = Some True"
  "cn_isDefault (new_channel cid now ws input pos) = False"
  "cn_deletedAt (new_channel cid now ws input pos) = None"
  "cn_archivedAt (new_channel cid now ws input pos) = None"
  "cn_categoryId (new_channel cid now ws input pos) = cr_categoryId input"
  "cn_name (new_channel cid now ws input pos) = cr_name input"
  by (simp_all add: new_channel_def)

lemma bit_255: "bit (to_int32 255) n \<longleftrightarrow> n < 8"
proof -
  have m: "(255 :: int) = mask 8" by (simp add: mask_eq_exp_minus_1)
  have "bit (255 :: int) n \<longleftrightarrow> n < 8" unfolding m bit_mask_iff by simp
  then show ?thesis by (auto simp: to_int32_def bit_word_of_int_iff)
qed

lemma private_channel_masks:
  assumes made: "createChannel D now cid gid ws actor input db = (Inr row, db')"
    and priv: "cr_isPrivate input = Some True"
    and fresh: "\<forall>g \<in> set (cd_grants db). ov_channel g \<noteq> cid"
    and c: "c_id c = cid" "c_isPrivate c"
  shows "user \<noteq> actor \<Longrightarrow> mi_role member \<noteq> OWNER \<Longrightarrow>
      effective_of_member (chan_tables db') c user member = 0"
    and "n < 8 \<Longrightarrow> bit (effective_of_member (chan_tables db') c actor member) n"
proof -
  obtain pos where "db' = insert_channel gid ws actor (new_channel cid now ws input pos) db"
    using made by (rule createChannel_cases) auto
  then have grants: "cd_grants db' = cd_grants db @ [new_grant gid cid USER actor 255 0]"
    using fresh priv by (auto simp: insert_channel_def seed_grant_def is_grant_def list_ex_iff)
  have only: "{g \<in> set (cd_grants db'). applies_to (c_id c) u ids g} =
      (if u = actor then {new_grant gid cid USER actor 255 0} else {})" for u ids
    using fresh c by (auto simp: grants applies_to_def new_grant_def)
  show "effective_of_member (chan_tables db') c user member = 0"
    if "user \<noteq> actor" "mi_role member \<noteq> OWNER"
    using that c(2) by (intro bit_eqI) (simp only: effective_bit only, simp add: grant_bit_def)
  show "bit (effective_of_member (chan_tables db') c actor member) n" if "n < 8"
    using that by (simp only: effective_bit only) (simp add: grant_bit_def new_grant_def bit_255)
qed

section \<open>The sidebar against the gate\<close>

lemma nonneg_mask_positive: "0 \<le> m \<Longrightarrow> bit (to_int32 m) n \<Longrightarrow> 0 < m"
  by (cases "m = 0") auto

text \<open>Whoever the gate lets read a channel sees it in the sidebar.\<close>

lemma sidebar_misses_nothing:
  assumes member: "find_member (chan_tables db) ws u = Some member" and fk: "fk_ok (chan_tables db)"
    and masks: "\<forall>g \<in> set (cd_grants db). 0 \<le> allowMask g"
    and reads: "bit (effective_of_member (chan_tables db)
        \<lparr>c_id = cn_id r, c_workspaceId = Some ws, c_isPrivate = cn_isPrivate r\<rparr> u member) 0"
  shows "sidebar_shows (chan_tables db) ws u r"
proof -
  let ?t = "chan_tables db"
  from member obtain m where m: "find (\<lambda>m. wm_ws m = ws \<and> wm_user m = u) (db_members ?t) = Some m"
    and role: "mi_role member = wm_role m" and roles: "mi_memberRoles member = held_roles ?t ws u"
    by (auto simp: find_member_def)
  have ids: "member_ids member = set (role_literal (wm_role m) # memberRoleUuids ?t ws u)"
    using held_role_ids [OF fk, of ws u] by (simp add: member_ids_def role roles)
  have "cn_isPrivate r \<Longrightarrow> wm_role m \<noteq> OWNER \<Longrightarrow>
      \<exists>g \<in> set (cd_grants db). applies_to (cn_id r) u (member_ids member) g \<and> bit (to_int32 (allowMask g)) 0"
    using reads unfolding effective_bit grant_bit_def by (auto simp: role)
  then have "cn_isPrivate r \<Longrightarrow> wm_role m \<noteq> OWNER \<Longrightarrow> sidebar_hit ?t ws u (Some m) (cn_id r)"
    using masks nonneg_mask_positive unfolding sidebar_hit_def list_ex_iff ids applies_to_def
    by fastforce
  then show ?thesis using m by (auto simp: sidebar_shows_def)
qed

section \<open>Reordering\<close>

lemma filter_order_rows:
  "filter (\<lambda>r. cn_categoryId r = cat) (order_rows rank rows)
   = sort_key cn_position (filter (\<lambda>r. cn_categoryId r = cat) rows)"
proof -
  have "filter (\<lambda>r. cn_categoryId r = cat) (order_rows rank rows)
      = sort_key (\<lambda>r. rank (cn_categoryId r)) (sort_key cn_position (filter (\<lambda>r. cn_categoryId r = cat) rows))"
    by (simp add: order_rows_def filter_sort)
  also have "\<dots> = sort_key cn_position (filter (\<lambda>r. cn_categoryId r = cat) rows)" (is "sort_key ?f ?xs = _")
  proof (rule sort_key_id_if_sorted)
    have "map ?f ?xs = map (\<lambda>_. rank cat) ?xs" by simp
    then show "sorted (map ?f ?xs)" by (simp add: map_replicate_const)
  qed
  finally show ?thesis .
qed

lemma placed_shape: "placed D xs = Some asg \<Longrightarrow> map fst asg = map fst xs"
  by (induction D xs arbitrary: asg rule: placed.induct) (auto split: option.splits)

definition renumbering :: "(id \<times> id option) list \<Rightarrow> (id \<times> id option \<times> rat) list" where
  "renumbering items = map (\<lambda>(i, c, n). (i, c, 1000 * of_nat n)) (numbered (\<lambda>_. 0) items)"

lemma renumbering_items: "map (\<lambda>a. (fst a, fst (snd a))) (renumbering items) = items"
proof -
  have "map (\<lambda>a. (fst a, fst (snd a))) (renumbering items) = map (\<lambda>(i, c, n). (i, c)) (numbered (\<lambda>_. 0) items)"
    by (simp add: renumbering_def case_prod_beta)
  then show ?thesis by (simp add: numbered_items)
qed

lemma renumbering_fst: "map fst (renumbering items) = map fst items"
  using arg_cong [OF renumbering_items, of "map fst" items] by (simp add: comp_def)

lemma renumbering_group:
  "sorted_wrt (<) (map (\<lambda>a. snd (snd a)) (filter (\<lambda>a. fst (snd a) = c) (renumbering items)))"
proof -
  have "map (\<lambda>a. snd (snd a)) (filter (\<lambda>a. fst (snd a) = c) (renumbering items))
      = map (\<lambda>n. 1000 * of_nat n) (map (snd \<circ> snd) (filter (\<lambda>x. fst (snd x) = c) (numbered (\<lambda>_. 0) items)))"
    by (simp add: renumbering_def filter_map comp_def case_prod_beta)
  then show ?thesis
    using numbered_group [of c "\<lambda>_. 0" items] by (simp add: sorted_wrt_map)
qed

lemma renumbering_names:
  "map fst (filter (\<lambda>a. fst (snd a) = c) (renumbering items)) = map fst (filter (\<lambda>i. snd i = c) items)"
proof -
  have "filter (\<lambda>i. snd i = c) items
      = map (\<lambda>a. (fst a, fst (snd a))) (filter (\<lambda>a. fst (snd a) = c) (renumbering items))"
    by (subst renumbering_items [symmetric]) (simp only: filter_map comp_def snd_conv)
  then show ?thesis by (simp add: comp_def)
qed

lemma placed_renumbering:
  assumes "decimals_documented D" and "length items < 10 ^ 6"
  shows "placed D (numbered (\<lambda>_. 0) items) = Some (renumbering items)"
  unfolding renumbering_def
proof (rule placed_exact [OF assms(1)], rule ballI)
  fix x assume "x \<in> set (numbered (\<lambda>_. 0) items)"
  then have "snd (snd x) \<le> length items"
    using numbered_group [of "fst (snd x)" "\<lambda>_. 0" items] by auto
  then show "snd (snd x) < 10 ^ 6" using assms(2) by simp
qed

lemma put_place_simps [simp]:
  "cn_id (put_place p r) = cn_id r" "cn_workspaceId (put_place p r) = cn_workspaceId r"
  "cn_deletedAt (put_place p r) = cn_deletedAt r" "cn_type (put_place p r) = cn_type r"
  "cn_name (put_place p r) = cn_name r" "cn_isDefault (put_place p r) = cn_isDefault r"
  "cn_archivedAt (put_place p r) = cn_archivedAt r" "cn_isPrivate (put_place p r) = cn_isPrivate r"
  by (simp_all add: put_place_def)

lemma reorderChannels_cases:
  assumes "reorderChannels D rank ws actor items db = (res, db')"
  obtains e where "res = Inl e" and "db' = db"
  | asg where "placed D (numbered (\<lambda>_. 0) (applicable_items db ws items)) = Some asg"
      and "cd_channels db' = write_places cn_id put_place asg (cd_channels db)"
      and "cd_grants db' = cd_grants db" and "cd_categories db' = cd_categories db"
      and "res = Inr (map toDto (order_rows rank (listed_rows db' ws)))"
  using assms
  by (auto simp: reorderChannels_def Let_def listed_rows_def split: list.splits if_splits option.splits)

lemma distinct_applicable: "distinct (map fst items) \<Longrightarrow> distinct (map fst (applicable_items db ws items))"
  by (simp add: applicable_items_def distinct_map_filter)

lemma reordered_ids:
  assumes made: "reorderChannels D rank ws actor items db = (Inr dtos, db')"
    and D: "decimals_documented D" and size: "length items < 10 ^ 6"
    and ids: "distinct (map cn_id (cd_channels db))" and once: "distinct (map fst items)"
    and shown: "\<forall>r \<in> set (cd_channels db). cn_id r \<in> fst ` set items \<longrightarrow> cn_type r \<noteq> ''DIRECT''"
  defines "sent \<equiv> applicable_items db ws items"
  shows "map dto_id (filter (\<lambda>d. dto_categoryId d = cat \<and> dto_id d \<in> fst ` set sent) dtos)
    = map fst (filter (\<lambda>i. snd i = cat) sent)"
proof -
  let ?asg = "renumbering sent" and ?I = "fst ` set sent" and ?Q = "\<lambda>p. fst p = cat"
  let ?W = "write_places cn_id put_place ?asg (cd_channels db)"
  have "length sent < 10 ^ 6" 
    using size length_filter_le le_less_trans unfolding sent_def applicable_items_def by blast
  then have asg: "placed D (numbered (\<lambda>_. 0) sent) = Some ?asg" by (rule placed_renumbering [OF D])
  then have W: "cd_channels db' = ?W"
    and dtos: "dtos = map toDto (order_rows rank (listed_rows db' ws))"
    using made by (auto elim!: reorderChannels_cases simp: sent_def)
  have names: "distinct (map fst ?asg)" "fst ` set ?asg = ?I"
    using distinct_applicable [OF once] renumbering_fst [of sent] by (simp_all add: sent_def) (metis list.set_map)
  have known: "?I \<subseteq> cn_id ` set (cd_channels db)"
    by (auto simp: sent_def applicable_items_def list_ex_iff live_in_def)
  have listed: "cn_workspaceId r = Some ws \<and> live_row r \<and> cn_type r \<noteq> ''DIRECT''"
    if r: "r \<in> set ?W" "cn_id r \<in> ?I" for r
  proof -
    obtain r0 where r0: "r0 \<in> set (cd_channels db)" "cn_id r = cn_id r0"
      "cn_workspaceId r = cn_workspaceId r0" "cn_deletedAt r = cn_deletedAt r0" "cn_type r = cn_type r0"
      using r(1) by (auto simp: channel_places.write_places_map [OF names(1)] split: option.splits)
    obtain i where "i \<in> set items" "fst i = cn_id r0" "list_ex (live_in ws (cn_id r0)) (cd_channels db)"
      using r(2) by (auto simp: sent_def applicable_items_def r0(2))
    then obtain r1 where "r1 \<in> set (cd_channels db)" "live_in ws (cn_id r0) r1"
      by (auto simp: list_ex_iff)
    moreover from this have "r1 = r0"
      using ids r0(1) by (simp add: live_in_def) (metis distinct_map inj_onD)
    moreover have "cn_type r0 \<noteq> ''DIRECT''"
      using shown r0(1) \<open>i \<in> set items\<close> \<open>fst i = cn_id r0\<close> by (metis image_eqI)
    ultimately show ?thesis using r0 by (simp add: live_in_def)
  qed
  let ?rows = "order_rows rank (listed_rows db' ws)"
  have "map dto_id (filter (\<lambda>d. dto_categoryId d = cat \<and> dto_id d \<in> ?I) dtos)
      = map cn_id (filter (\<lambda>r. cn_id r \<in> ?I) (filter (\<lambda>r. cn_categoryId r = cat) ?rows))"
    by (simp add: dtos filter_map comp_def toDto_def conj_commute)
  also have "\<dots> = map cn_id (sort_key cn_position
      (filter (\<lambda>r. cn_id r \<in> ?I) (filter (\<lambda>r. cn_categoryId r = cat) (listed_rows db' ws))))"
    by (simp only: filter_order_rows filter_sort)
  also have "filter (\<lambda>r. cn_id r \<in> ?I) (filter (\<lambda>r. cn_categoryId r = cat) (listed_rows db' ws))
      = filter (\<lambda>r. cn_id r \<in> fst ` set ?asg \<and> ?Q (cn_categoryId r, cn_position r)) ?W"
    using listed by (auto simp: listed_rows_def W names(2) intro!: filter_cong)
  also have "map cn_id (sort_key cn_position \<dots>) = map fst (filter (\<lambda>a. ?Q (snd a)) ?asg)"
    using channel_places.order_written [OF ids names(1), of snd ?Q] known renumbering_group [of cat sent]
    by (simp add: names(2))
  also have "\<dots> = map fst (filter (\<lambda>i. snd i = cat) sent)" by (rule renumbering_names)
  finally show ?thesis .
qed

section \<open>The invariant of the tables\<close>

definition rows_ok :: "chan_row list \<Rightarrow> bool" where
  \<comment> \<open>unique ids, unique names among the live channels of a workspace, default channels in place\<close>
  "rows_ok rows \<longleftrightarrow> distinct (map cn_id rows) \<and>
     (\<forall>r \<in> set rows. \<not> name_clash rows r) \<and>
     (\<forall>r \<in> set rows. cn_isDefault r \<longrightarrow> live_row r \<and> cn_archivedAt r = None)"

definition grant_key :: "grant_row \<Rightarrow> id \<times> principal_type \<times> id" where
  "grant_key g = (ov_channel g, principalType g, principalId g)"

definition categories_ok :: "cat_row list \<Rightarrow> bool" where
  "categories_ok cats \<longleftrightarrow> distinct (map ct_id cats) \<and> (\<forall>c \<in> set cats. \<not> category_clash cats c)"

definition channels_ok :: "chan_db \<Rightarrow> bool" where
  "channels_ok db \<longleftrightarrow> rows_ok (cd_channels db) \<and> distinct (map grant_key (cd_grants db)) \<and>
     categories_ok (cd_categories db)"

inductive chan_step :: "decimal_ops \<Rightarrow> chan_db \<Rightarrow> chan_db \<Rightarrow> bool" for D where
  create: "createChannel D now cid gid ws actor input db = (res, db') \<Longrightarrow>
    cid \<notin> cn_id ` set (cd_channels db) \<Longrightarrow> chan_step D db db'"
| update: "updateChannel ws ch actor req db = (res, db') \<Longrightarrow> chan_step D db db'"
| delete: "softDeleteChannel now ws ch actor db = (res, db') \<Longrightarrow> chan_step D db db'"
| restore: "restoreChannel ws ch actor db = (res, db') \<Longrightarrow> chan_step D db db'"
| archive: "archiveChannel now ws ch actor db = (res, db') \<Longrightarrow> chan_step D db db'"
| unarchive: "unarchiveChannel ws ch actor db = (res, db') \<Longrightarrow> chan_step D db db'"
| member_override: "addChannelMemberOverride gid ws ch target a d who db redis = (done1, db', redis') \<Longrightarrow>
    chan_step D db db'"
| role_override: "addChannelRoleOverride gid ws ch role a d who db redis = (done1, db', redis') \<Longrightarrow>
    chan_step D db db'"
| override_removal: "removeChannelOverride ws ch ovid who db redis = (done2, db', redis') \<Longrightarrow>
    chan_step D db db'"
| join: "joinChannel gid ws ch user db = (done1, db') \<Longrightarrow> chan_step D db db'"
| leave: "leaveChannel ws ch user db = (done1, db') \<Longrightarrow> chan_step D db db'"
| move: "moveChannel D ws ch actor mreq db = (res, db') \<Longrightarrow> chan_step D db db'"
| reorder: "reorderChannels D rank ws actor items db = (dtos, db') \<Longrightarrow> chan_step D db db'"
| category_create: "createCategory D now cid ws actor nm description db = (cres, db') \<Longrightarrow>
    cid \<notin> ct_id ` set (cd_categories db) \<Longrightarrow> chan_step D db db'"
| category_update: "updateCategory ws cat actor nmo desco db = (cres, db') \<Longrightarrow> chan_step D db db'"
| category_remove: "removeCategory now ws cat actor db = (done1, db') \<Longrightarrow> chan_step D db db'"
| category_reorder: "reorderCategories D ws actor ids db = (cress, db') \<Longrightarrow> chan_step D db db'"
| category_move: "moveCategory D ws cat actor areq db = (cres, db') \<Longrightarrow> chan_step D db db'"

text \<open>Rows rewritten in the fields the invariant does not read.\<close>

lemma rows_ok_map:
  assumes ok: "rows_ok rows"
    and f: "\<And>r. cn_id (f r) = cn_id r \<and> cn_workspaceId (f r) = cn_workspaceId r \<and> cn_name (f r) = cn_name r
      \<and> cn_deletedAt (f r) = cn_deletedAt r \<and> cn_isDefault (f r) = cn_isDefault r
      \<and> cn_archivedAt (f r) = cn_archivedAt r"
  shows "rows_ok (map f rows)"
  using assms by (auto simp: rows_ok_def name_clash_def list_ex_iff comp_def)

text \<open>One row rewritten by its id.\<close>

lemma rows_ok_put:
  assumes ok: "rows_ok rows" and free: "\<not> name_clash rows row"
    and place: "cn_isDefault row \<Longrightarrow> live_row row \<and> cn_archivedAt row = None"
  shows "rows_ok (update_where (\<lambda>r. cn_id r = cn_id row) (\<lambda>_. row) rows)"
proof -
  let ?W = "update_where (\<lambda>r. cn_id r = cn_id row) (\<lambda>_. row) rows"
  have "map cn_id ?W = map cn_id rows" by (auto simp: update_where_def)
  moreover have W: "x = row \<or> x \<in> set rows \<and> cn_id x \<noteq> cn_id row" if "x \<in> set ?W" for x
    using that by (auto simp: set_update_where)
  have "\<not> name_clash ?W x" if "x \<in> set ?W" for x
  proof (cases "cn_id x = cn_id row")
    case True
    then have "x = row" using W [OF that] by auto
    then show ?thesis using free W unfolding name_clash_def list_ex_iff by blast
  next
    case False
    then have x: "x \<in> set rows" using W [OF that] by auto
    then have "\<not> name_clash rows x" using ok by (simp add: rows_ok_def)
    moreover have "live_row x \<Longrightarrow> live_row row \<Longrightarrow> cn_workspaceId row = cn_workspaceId x \<Longrightarrow>
        cn_name row = cn_name x \<Longrightarrow> False"
      using free x False unfolding name_clash_def list_ex_iff by metis
    ultimately show ?thesis using W unfolding name_clash_def list_ex_iff by metis
  qed
  moreover have "\<forall>x \<in> set ?W. cn_isDefault x \<longrightarrow> live_row x \<and> cn_archivedAt x = None"
    using W place ok unfolding rows_ok_def by blast
  ultimately show ?thesis using ok by (simp add: rows_ok_def)
qed

lemma name_clash_same:
  assumes "cn_id r' = cn_id r" "cn_workspaceId r' = cn_workspaceId r" "cn_name r' = cn_name r"
    "live_row r' \<Longrightarrow> live_row r"
  shows "\<not> name_clash rows r \<Longrightarrow> \<not> name_clash rows r'"
  using assms by (auto simp: name_clash_def)

lemma rows_ok_insert:
  assumes ok: "rows_ok rows" and free: "\<not> name_clash rows row" and id: "cn_id row \<notin> cn_id ` set rows"
    and place: "\<not> cn_isDefault row"
  shows "rows_ok (rows @ [row])"
proof -
  have "\<not> name_clash (rows @ [row]) r" if "r \<in> set rows" for r
    using ok free id that unfolding rows_ok_def name_clash_def list_ex_iff
    by (fastforce simp: image_iff)
  moreover have "\<not> name_clash (rows @ [row]) row" using free by (auto simp: name_clash_def)
  ultimately show ?thesis using ok id place by (auto simp: rows_ok_def)
qed

lemma find_channel_row: "find_channel db p = Some r \<Longrightarrow> r \<in> set (cd_channels db) \<and> p r"
  unfolding find_channel_def by (rule find_Some_in)

lemma put_channel_simps [simp]:
  "cd_channels (put_channel row ev db) = update_where (\<lambda>r. cn_id r = cn_id row) (\<lambda>_. row) (cd_channels db)"
  "cd_grants (put_channel row ev db) = cd_grants db"
  "cd_categories (put_channel row ev db) = cd_categories db"
  by (simp_all add: put_channel_def)

lemma side_effects_simps [simp]:
  "cd_channels (emitChannelSystemMessage ch actor ty vars db) = cd_channels db"
  "cd_grants (emitChannelSystemMessage ch actor ty vars db) = cd_grants db"
  "cd_categories (emitChannelSystemMessage ch actor ty vars db) = cd_categories db"
  "cd_channels (announce_topic actor before input db) = cd_channels db"
  "cd_grants (announce_topic actor before input db) = cd_grants db"
  "cd_categories (announce_topic actor before input db) = cd_categories db"
  "cd_channels (audit_slowmode ws actor before input db) = cd_channels db"
  "cd_grants (audit_slowmode ws actor before input db) = cd_grants db"
  "cd_categories (audit_slowmode ws actor before input db) = cd_categories db"
  "cd_channels (audit_of_override who entry db) = cd_channels db"
  "cd_grants (audit_of_override who entry db) = cd_grants db"
  "cd_categories (audit_of_override who entry db) = cd_categories db"
  by (auto simp: emitChannelSystemMessage_def announce_topic_def audit_slowmode_def audit_of_override_def
      Let_def split: option.split)

lemma rows_ok_update:
  assumes "updateChannel ws ch actor req db = (res, db')" and "rows_ok (cd_channels db)"
  shows "rows_ok (cd_channels db')"
proof (cases "update_checks db ws ch req")
  case (Inr before)
  then have before: "before \<in> set (cd_channels db)"
    unfolding update_checks_def by (auto simp: bind_res_Inr_iff split: option.splits if_splits dest: find_channel_row)
  let ?row = "updated_channel req before"
  have "cn_isDefault ?row \<Longrightarrow> live_row ?row \<and> cn_archivedAt ?row = None"
    using assms(2) before by (simp add: updated_channel_def rows_ok_def)
  then have "\<not> name_clash (cd_channels db) ?row \<Longrightarrow>
      rows_ok (update_where (\<lambda>r. cn_id r = cn_id ?row) (\<lambda>_. ?row) (cd_channels db))"
    using rows_ok_put [OF assms(2)] by blast
  then show ?thesis
    using assms Inr by (auto simp: updateChannel_def Let_def split: if_splits)
qed (use assms in \<open>simp add: updateChannel_def\<close>)

lemma unprotected_channel_row:
  "unprotected_channel db ws ch = Inr r \<Longrightarrow> r \<in> set (cd_channels db) \<and> cn_id r = ch \<and> \<not> cn_isDefault r"
  unfolding unprotected_channel_def
  by (auto split: option.splits if_splits dest!: find_channel_row simp: in_workspace_def)

lemma rows_ok_lifecycle:
  assumes ok: "rows_ok (cd_channels db)"
    and op: "softDeleteChannel now ws ch actor db = (res, db') \<or> restoreChannel ws ch actor db = (res, db')
      \<or> archiveChannel now ws ch actor db = (res, db') \<or> unarchiveChannel ws ch actor db = (res, db')"
  shows "rows_ok (cd_channels db')"
proof -
  have row: "rows_ok (update_where (\<lambda>x. cn_id x = cn_id r) (\<lambda>_. r') (cd_channels db))"
    if "r \<in> set (cd_channels db)" "cn_id r' = cn_id r" "\<not> name_clash (cd_channels db) r'"
      "cn_isDefault r' \<Longrightarrow> live_row r' \<and> cn_archivedAt r' = None" for r r'
    using rows_ok_put [OF ok, of r'] that by simp
  have clash: "\<not> name_clash (cd_channels db) (r\<lparr>cn_archivedAt := t\<rparr>)"
    and default: "cn_isDefault r \<Longrightarrow> live_row r \<and> cn_archivedAt r = None"
    if "r \<in> set (cd_channels db)" for r t
    using ok that name_clash_same [of "r\<lparr>cn_archivedAt := t\<rparr>" r] by (simp_all add: rows_ok_def)
  have gone: "\<not> name_clash (cd_channels db) (r\<lparr>cn_deletedAt := Some t\<rparr>)" for r t
    by (simp add: name_clash_def)
  from op show ?thesis
  proof (elim disjE)
    assume r: "softDeleteChannel now ws ch actor db = (res, db')"
    show ?thesis
    proof (cases "unprotected_channel db ws ch")
      case (Inr x)
      have "rows_ok (update_where (\<lambda>y. cn_id y = cn_id x) (\<lambda>_. x\<lparr>cn_deletedAt := Some now\<rparr>) (cd_channels db))"
        using row [of x "x\<lparr>cn_deletedAt := Some now\<rparr>"] gone [of now x] unprotected_channel_row [OF Inr] by auto
      then show ?thesis using r Inr by (auto simp: softDeleteChannel_def Let_def)
    qed (use r ok in \<open>simp add: softDeleteChannel_def\<close>)
  next
    assume r: "restoreChannel ws ch actor db = (res, db')"
    show ?thesis
    proof (cases "find_channel db (in_workspace ws ch)")
      case (Some x)
      have "\<not> name_clash (cd_channels db) (x\<lparr>cn_deletedAt := None\<rparr>) \<Longrightarrow> \<not> live_row x \<Longrightarrow> rows_ok
          (update_where (\<lambda>y. cn_id y = cn_id x) (\<lambda>_. x\<lparr>cn_deletedAt := None\<rparr>) (cd_channels db))"
        using row [of x "x\<lparr>cn_deletedAt := None\<rparr>"] default [of x] find_channel_row [OF Some] by auto
      then show ?thesis using r ok Some by (auto simp: restoreChannel_def Let_def split: if_splits)
    qed (use r ok in \<open>simp add: restoreChannel_def\<close>)
  next
    assume r: "archiveChannel now ws ch actor db = (res, db')"
    show ?thesis
    proof (cases "unprotected_channel db ws ch")
      case (Inr x)
      have "rows_ok (update_where (\<lambda>y. cn_id y = cn_id x) (\<lambda>_. x\<lparr>cn_archivedAt := Some now\<rparr>) (cd_channels db))"
        using row [of x "x\<lparr>cn_archivedAt := Some now\<rparr>"] clash [of x "Some now"] unprotected_channel_row [OF Inr] by auto
      then show ?thesis using r Inr by (auto simp: archiveChannel_def Let_def)
    qed (use r ok in \<open>simp add: archiveChannel_def\<close>)
  next
    assume r: "unarchiveChannel ws ch actor db = (res, db')"
    show ?thesis
    proof (cases "find_channel db (\<lambda>r. cn_id r = ch)")
      case (Some x)
      have "rows_ok (update_where (\<lambda>y. cn_id y = cn_id x) (\<lambda>_. x\<lparr>cn_archivedAt := None\<rparr>) (cd_channels db))"
        using row [of x "x\<lparr>cn_archivedAt := None\<rparr>"] default [of x] clash [of x None] find_channel_row [OF Some]
        by auto
      then show ?thesis using r Some by (auto simp: unarchiveChannel_def Let_def)
    qed (use r ok in \<open>simp add: unarchiveChannel_def\<close>)
  qed
qed

lemma rows_ok_move:
  assumes "moveChannel D ws ch actor mreq db = (res, db')" and ok: "rows_ok (cd_channels db)"
  shows "rows_ok (cd_channels db')"
proof (cases "move_target db ws ch mreq")
  case (Inr r)
  then obtain r0 where r0: "r0 \<in> set (cd_channels db)" and r: "r = r0\<lparr>cn_categoryId := cn_categoryId r\<rparr>"
    unfolding move_target_def channel_in_workspace_def Let_def
    by (auto simp: bind_res_Inr_iff split: option.splits dest: find_channel_row)
  have same: "cn_id r = cn_id r0" "cn_workspaceId r = cn_workspaceId r0" "cn_name r = cn_name r0"
    "cn_deletedAt r = cn_deletedAt r0" "cn_isDefault r = cn_isDefault r0" "cn_archivedAt r = cn_archivedAt r0"
    by (subst r, simp)+
  have "rows_ok (update_where (\<lambda>x. cn_id x = cn_id r) (\<lambda>_. r\<lparr>cn_position := p\<rparr>) (cd_channels db))" for p
    using rows_ok_put [OF ok, of "r\<lparr>cn_position := p\<rparr>"] name_clash_same [of "r\<lparr>cn_position := p\<rparr>" r0] ok r0
    by (simp add: same rows_ok_def)
  then show ?thesis
    using assms Inr by (auto simp: moveChannel_def Let_def split: sum.splits)
qed (use assms in \<open>simp add: moveChannel_def\<close>)

lemma rows_ok_write_places: "rows_ok rows \<Longrightarrow> rows_ok (write_places cn_id put_place asg rows)"
proof (induction asg arbitrary: rows)
  case (Cons a asg)
  have "rows_ok (update_where (\<lambda>r. cn_id r = fst a) (put_place (snd a)) rows)"
    unfolding update_where_def by (rule rows_ok_map [OF Cons.prems]) simp
  from Cons.IH [OF this] show ?case by (simp add: write_places_def case_prod_beta)
qed (simp add: write_places_def)

lemma grants_ok_seed:
  "distinct (map grant_key gs) \<Longrightarrow> distinct (map grant_key (seed_grant gid ch pt pid a d gs))"
  by (auto simp: seed_grant_def new_grant_def grant_key_def is_grant_def list_ex_iff)

lemma grants_ok_set:
  "distinct (map grant_key gs) \<Longrightarrow> distinct (map grant_key (set_grant gid ch pt pid a d gs))"
proof (cases "list_ex (is_grant ch pt pid) gs")
  case True
  have "map grant_key (update_where (is_grant ch pt pid) (\<lambda>g. g\<lparr>allowMask := a, denyMask := d\<rparr>) gs)
      = map grant_key gs"
    by (rule map_update_where) (simp add: grant_key_def)
  then show "distinct (map grant_key gs) \<Longrightarrow> ?thesis" using True by (simp add: set_grant_def)
next
  case False
  then show "distinct (map grant_key gs) \<Longrightarrow> ?thesis"
    by (auto simp: set_grant_def new_grant_def grant_key_def is_grant_def list_ex_iff)
qed

lemma removeCategory_channels:
  assumes "removeCategory now ws cat actor db = (res, db')"
  shows "cd_grants db' = cd_grants db \<and> (cd_channels db' = cd_channels db \<or> cd_channels db' =
    update_where (\<lambda>r. cn_workspaceId r = Some ws \<and> cn_categoryId r = Some cat)
      (\<lambda>r. r\<lparr>cn_categoryId := None\<rparr>) (cd_channels db))"
  using assms by (auto simp: removeCategory_def put_category_def split: option.splits)

text \<open>The categories, in the same way.\<close>

lemma categories_ok_put:
  assumes ok: "categories_ok cats" and free: "\<not> category_clash cats row"
  shows "categories_ok (update_where (\<lambda>c. ct_id c = ct_id row) (\<lambda>_. row) cats)"
proof -
  let ?W = "update_where (\<lambda>c. ct_id c = ct_id row) (\<lambda>_. row) cats"
  have "map ct_id ?W = map ct_id cats" by (auto simp: update_where_def)
  moreover have W: "x = row \<or> x \<in> set cats \<and> ct_id x \<noteq> ct_id row" if "x \<in> set ?W" for x
    using that by (auto simp: set_update_where)
  have "\<not> category_clash ?W x" if "x \<in> set ?W" for x
  proof (cases "ct_id x = ct_id row")
    case True
    then have "x = row" using W [OF that] by auto
    then show ?thesis using free W unfolding category_clash_def list_ex_iff by blast
  next
    case False
    then have x: "x \<in> set cats" using W [OF that] by auto
    then have "\<not> category_clash cats x" using ok by (simp add: categories_ok_def)
    moreover have "ct_deletedAt x = None \<Longrightarrow> ct_deletedAt row = None \<Longrightarrow>
        ct_workspaceId row = ct_workspaceId x \<Longrightarrow> ct_name row = ct_name x \<Longrightarrow> False"
      using free x False unfolding category_clash_def list_ex_iff by metis
    ultimately show ?thesis using W unfolding category_clash_def list_ex_iff by metis
  qed
  ultimately show ?thesis using ok by (simp add: categories_ok_def)
qed

lemma categories_ok_map:
  assumes "categories_ok cats"
    and "\<And>c. ct_id (f c) = ct_id c \<and> ct_workspaceId (f c) = ct_workspaceId c \<and> ct_name (f c) = ct_name c
      \<and> ct_deletedAt (f c) = ct_deletedAt c"
  shows "categories_ok (map f cats)"
  using assms by (auto simp: categories_ok_def category_clash_def list_ex_iff comp_def)

lemma categories_ok_position: "categories_ok cats \<Longrightarrow> categories_ok (write_places ct_id put_position asg cats)"
proof (induction asg arbitrary: cats)
  case (Cons a asg)
  have "categories_ok (update_where (\<lambda>c. ct_id c = fst a) (put_position (snd a)) cats)"
    unfolding update_where_def
    by (rule categories_ok_map [OF Cons.prems]) (simp add: put_position_def)
  from Cons.IH [OF this] show ?case by (simp add: write_places_def case_prod_beta)
qed (simp add: write_places_def)

lemma categories_ok_insert:
  assumes "categories_ok cats" "\<not> category_clash cats row" "ct_id row \<notin> ct_id ` set cats"
  shows "categories_ok (cats @ [row])"
proof -
  have "\<not> category_clash (cats @ [row]) c" if "c \<in> set cats" for c
    using assms that unfolding categories_ok_def category_clash_def list_ex_iff by (fastforce simp: image_iff)
  moreover have "\<not> category_clash (cats @ [row]) row" using assms(2) by (auto simp: category_clash_def)
  ultimately show ?thesis using assms by (auto simp: categories_ok_def)
qed

lemma put_category_simps [simp]:
  "cd_categories (put_category row ev db) =
     update_where (\<lambda>c. ct_id c = ct_id row) (\<lambda>_. row) (cd_categories db)"
  "cd_channels (put_category row ev db) = cd_channels db"
  "cd_grants (put_category row ev db) = cd_grants db"
  by (simp_all add: put_category_def)

lemma found_category:
  assumes ok: "categories_ok (cd_categories db)" and found: "find (live_category ws cat) (cd_categories db) = Some c"
    and row: "ct_id row = ct_id c" "ct_workspaceId row = ct_workspaceId c" "ct_name row = ct_name c"
  shows "categories_ok (update_where (\<lambda>x. ct_id x = ct_id c) (\<lambda>_. row) (cd_categories db))"
proof -
  have "\<not> category_clash (cd_categories db) c" "ct_deletedAt c = None"
    using ok find_Some_in [OF found] by (auto simp: categories_ok_def live_category_def)
  then have "\<not> category_clash (cd_categories db) row" using row by (auto simp: category_clash_def)
  from categories_ok_put [OF ok this] show ?thesis by (simp add: row)
qed

lemma categories_ok_ops:
  assumes ok: "categories_ok (cd_categories db)"
  shows "createCategory D now cid ws actor nm description db = (r1, db') \<Longrightarrow>
      cid \<notin> ct_id ` set (cd_categories db) \<Longrightarrow> categories_ok (cd_categories db')"
    and "updateCategory ws cat actor nmo desco db = (r1, db') \<Longrightarrow> categories_ok (cd_categories db')"
    and "removeCategory now ws cat actor db = (r2, db') \<Longrightarrow> categories_ok (cd_categories db')"
    and "reorderCategories D ws actor ids db = (r3, db') \<Longrightarrow> categories_ok (cd_categories db')"
    and "moveCategory D ws cat actor areq db = (r1, db') \<Longrightarrow> categories_ok (cd_categories db')"
proof -
  show "createCategory D now cid ws actor nm description db = (r1, db') \<Longrightarrow>
      cid \<notin> ct_id ` set (cd_categories db) \<Longrightarrow> categories_ok (cd_categories db')"
    using ok by (auto simp: createCategory_def Let_def split: sum.splits if_splits intro!: categories_ok_insert)
  show "updateCategory ws cat actor nmo desco db = (r1, db') \<Longrightarrow> categories_ok (cd_categories db')"
  proof (cases "find (live_category ws cat) (cd_categories db)")
    case (Some c)
    let ?row = "c\<lparr>ct_name := given nmo (ct_name c), ct_description := given desco (ct_description c)\<rparr>"
    have "\<not> category_clash (cd_categories db) ?row \<Longrightarrow>
        categories_ok (update_where (\<lambda>x. ct_id x = ct_id ?row) (\<lambda>_. ?row) (cd_categories db))"
      by (rule categories_ok_put [OF ok])
    then show "updateCategory ws cat actor nmo desco db = (r1, db') \<Longrightarrow> ?thesis"
      using ok Some by (auto simp: updateCategory_def Let_def split: if_splits)
  qed (use ok in \<open>simp add: updateCategory_def\<close>)
  show "removeCategory now ws cat actor db = (r2, db') \<Longrightarrow> categories_ok (cd_categories db')"
    using ok found_category [OF ok, of ws cat]
    by (auto simp: removeCategory_def split: option.splits)
  show "reorderCategories D ws actor ids db = (r3, db') \<Longrightarrow> categories_ok (cd_categories db')"
    using ok categories_ok_position
    by (auto simp: reorderCategories_def Let_def split: list.splits option.splits)
  show "moveCategory D ws cat actor areq db = (r1, db') \<Longrightarrow> categories_ok (cd_categories db')"
    using ok found_category [OF ok, of ws cat]
    by (auto simp: moveCategory_def Let_def split: option.splits sum.splits)
qed

text \<open>Every operation keeps the invariant, whatever it answers.\<close>

lemma channels_ok_step:
  assumes "chan_step D db db'" and "channels_ok db"
  shows "channels_ok db'"
  using assms
proof (induction rule: chan_step.induct)
  case (create now cid gid ws actor input db res db')
  show ?case
    by (rule createChannel_cases [OF create.hyps(1)])
      (use create in \<open>auto simp: channels_ok_def insert_channel_def intro!: rows_ok_insert grants_ok_seed\<close>)
next
  case (update ws ch actor req db res db')
  then show ?case using rows_ok_update [OF update.hyps(1)]
    by (auto simp: channels_ok_def updateChannel_def Let_def split: sum.splits if_splits)
next
  case (delete now ws ch actor db res db')
  then show ?case using rows_ok_lifecycle [of db now ws ch actor res db']
    by (auto simp: channels_ok_def softDeleteChannel_def Let_def split: sum.splits)
next
  case (restore ws ch actor db res db')
  then show ?case using rows_ok_lifecycle [of db _ ws ch actor res db']
    by (auto simp: channels_ok_def restoreChannel_def Let_def split: option.splits if_splits)
next
  case (archive now ws ch actor db res db')
  then show ?case using rows_ok_lifecycle [of db now ws ch actor res db']
    by (auto simp: channels_ok_def archiveChannel_def Let_def split: sum.splits if_splits)
next
  case (unarchive ws ch actor db res db')
  then show ?case using rows_ok_lifecycle [of db _ ws ch actor res db']
    by (auto simp: channels_ok_def unarchiveChannel_def Let_def split: option.splits)
next
  case (move ws ch actor mreq db res db')
  then show ?case using rows_ok_move [OF move.hyps(1)]
    by (auto simp: channels_ok_def moveChannel_def Let_def split: sum.splits)
next
  case (reorder rank ws actor items db dtos db')
  show ?case
    by (rule reorderChannels_cases [OF reorder.hyps(1)])
      (use reorder in \<open>auto simp: channels_ok_def rows_ok_write_places\<close>)
next
  case (category_remove now ws cat actor db done1 db')
  have "rows_ok (update_where p (\<lambda>r. r\<lparr>cn_categoryId := None\<rparr>) (cd_channels db))" for p
    using category_remove.prems unfolding channels_ok_def update_where_def by (intro rows_ok_map) auto
  then show ?case
    using category_remove.prems categories_ok_ops(3) [OF _ category_remove.hyps(1)]
      removeCategory_channels [OF category_remove.hyps(1)]
    by (auto simp: channels_ok_def)
next
  case (category_create now cid ws actor nm description db cres db')
  then show ?case using categories_ok_ops(1) [OF _ category_create.hyps]
    by (auto simp: channels_ok_def createCategory_def Let_def split: sum.splits if_splits)
next
  case (category_update ws cat actor nmo desco db cres db')
  then show ?case using categories_ok_ops(2) [OF _ category_update.hyps(1)]
    by (auto simp: channels_ok_def updateCategory_def Let_def split: option.splits if_splits)
next
  case (category_reorder ws actor ids db cress db')
  then show ?case using categories_ok_ops(4) [OF _ category_reorder.hyps(1)]
    by (auto simp: channels_ok_def reorderCategories_def Let_def split: list.splits option.splits)
next
  case (category_move ws cat actor areq db cres db')
  then show ?case using categories_ok_ops(5) [OF _ category_move.hyps(1)]
    by (auto simp: channels_ok_def moveCategory_def Let_def split: option.splits sum.splits)
qed (auto simp: channels_ok_def addChannelMemberOverride_def addChannelRoleOverride_def
      removeChannelOverride_def joinChannel_def leaveChannel_def grants_ok_set grants_ok_seed
      distinct_map_delete_where split: if_splits sum.splits option.splits)

section \<open>An example\<close>

definition example_row :: "id \<Rightarrow> string \<Rightarrow> rat \<Rightarrow> chan_row" where
  "example_row i nm pos =
     \<lparr>cn_id = i, cn_workspaceId = Some ''w'', cn_categoryId = None, cn_name = nm, cn_type = ''TEXT'',
      cn_topic = None, cn_description = None, cn_position = pos, cn_slowmodeSeconds = 0,
      cn_memberCanPin = True, cn_fileUploadEnabled = True, cn_maxFileSizeBytes = None,
      cn_isPrivate = False, cn_isDefault = (nm = ''general''), cn_archivedAt = None,
      cn_deletedAt = None, cn_createdAt = 0\<rparr>"

definition example_channels_db :: chan_db where
  "example_channels_db =
     \<lparr>cd_roles = [], cd_members = [\<lparr>wm_ws = ''w'', wm_user = ''ann'', wm_role = ADMIN\<rparr>,
                                 \<lparr>wm_ws = ''w'', wm_user = ''bob'', wm_role = MEMBER\<rparr>],
      cd_memberRoles = [], cd_usernames = (\<lambda>_. Some ''ann''),
      cd_channels = [example_row ''a'' ''general'' (10 ^ 9), example_row ''b'' ''random'' (2 * 10 ^ 9),
                     example_row ''c'' ''news'' (3 * 10 ^ 9)],
      cd_categories = [], cd_grants = [], cd_outbox = [], cd_audit = [], cd_posts = []\<rparr>"

lemmas example_simps = example_channels_db_def example_row_def

lemma example_channels_ok: "channels_ok example_channels_db"
  by (simp add: channels_ok_def rows_ok_def categories_ok_def name_clash_def example_simps)

section \<open>Properties\<close>

text \<open>C5: Joining a public channel grants nothing: it leaves the effective mask of every member on
  every channel as it was (a role's deny is not overridden, whatever overrides exist), and a join
  that succeeds leaves a row of the user on a live public channel of the workspace.\<close>

theorem joining_grants_nothing:
  assumes "joinChannel gid ws ch user db = (res, db')"
  shows "effective_of_member (chan_tables db') c u member = effective_of_member (chan_tables db) c u member
    \<and> (res = Inr () \<longrightarrow> list_ex (is_grant ch USER user) (cd_grants db')
        \<and> list_ex (\<lambda>r. live_in ws ch r \<and> \<not> cn_isPrivate r) (cd_channels db))"
  using join_keeps_masks [OF assms] assms
  by (auto simp: joinChannel_def channel_in_workspace_def seed_grant_def new_grant_def is_grant_def list_ex_iff
      split: option.splits if_splits dest!: find_channel_row)

theorem joining_grants_nothing_witness:
  "\<exists>db'. joinChannel ''g'' ''w'' ''b'' ''bob'' example_channels_db = (Inr (), db')
     \<and> list_ex (is_grant ''b'' USER ''bob'') (cd_grants db')
     \<and> effective_of_member (chan_tables db') example_channel ''bob'' bob_info
        = effective_of_member (chan_tables example_channels_db) example_channel ''bob'' bob_info"
proof -
  have "fst (joinChannel ''g'' ''w'' ''b'' ''bob'' example_channels_db) = Inr ()"
    by (simp add: joinChannel_def channel_in_workspace_def find_channel_def live_in_def example_simps)
  then have "joinChannel ''g'' ''w'' ''b'' ''bob'' example_channels_db
      = (Inr (), snd (joinChannel ''g'' ''w'' ''b'' ''bob'' example_channels_db))" by (metis prod.collapse)
  from joining_grants_nothing [OF this] this show ?thesis by blast
qed

text \<open>C10: A private channel starts closed: right after its creation the effective mask of every
  member who is neither its creator nor the OWNER is zero, whatever roles he holds, and the creator
  has the eight lower enforcement bits.\<close>

theorem private_channel_starts_closed:
  assumes "createChannel D now cid gid ws actor input db = (Inr row, db')"
    and "cr_isPrivate input = Some True" and "\<forall>g \<in> set (cd_grants db). ov_channel g \<noteq> cid"
    and "c_id c = cid" and "c_isPrivate c"
  shows "(user \<noteq> actor \<and> mi_role member \<noteq> OWNER \<longrightarrow>
      effective_of_member (chan_tables db') c user member = 0)
    \<and> effective_of_member (chan_tables db') c actor member AND 255 = 255"
proof -
  have "bit (255 :: mask32) n \<longleftrightarrow> n < 8" for n
    using bit_255 [of n] by (simp add: to_int32_def)
  then have "effective_of_member (chan_tables db') c actor member AND 255 = 255"
    unfolding mask_subset_iff using private_channel_masks(2) [OF assms] by metis
  then show ?thesis using private_channel_masks(1) [OF assms] by blast
qed

abbreviation example_private :: create_request where
  "example_private \<equiv> \<lparr>cr_name = ''staff'', cr_type = ''TEXT'', cr_topic = None, cr_description = None,
     cr_categoryId = None, cr_isPrivate = Some True\<rparr>"

lemma example_column: "d_column exact_decimals (4000000000) = Some 4000000000"
  by (simp add: exact_decimals_def Let_def)

theorem private_channel_starts_closed_witness:
  "\<exists>row db'. createChannel exact_decimals 0 ''d'' ''g'' ''w'' ''ann'' example_private example_channels_db
       = (Inr row, db')
     \<and> effective_of_member (chan_tables db') \<lparr>c_id = ''d'', c_workspaceId = Some ''w'', c_isPrivate = True\<rparr>
         ''bob'' bob_info = 0"
proof -
  let ?r = "createChannel exact_decimals 0 ''d'' ''g'' ''w'' ''ann'' example_private example_channels_db"
  have "calcBetween exact_decimals (Some 3000000000) None = Inr 4000000000"
    by (simp add: calcBetween_def POSITION_STRIDE_def exact_decimals_def)
  then have "\<exists>row. fst ?r = Inr row"
    by (simp add: createChannel_def create_checks_def assertNameAllowed_def CHANNEL_RESERVED_NAMES_def
        assertTypeImplemented_def CREATABLE_TYPES_def optionalCategory_def bucket_positions_def
        last_position_def store_position_def example_column name_clash_def new_channel_def Let_def example_simps)
  then obtain row where "?r = (Inr row, snd ?r)" by (metis prod.collapse)
  moreover have "\<forall>g \<in> set (cd_grants example_channels_db). ov_channel g \<noteq> ''d''" by (simp add: example_simps)
  ultimately show ?thesis
    using private_channel_starts_closed [where row = row and db' = "snd ?r" and user = "''bob''" and member = bob_info
        and c = "\<lparr>c_id = ''d'', c_workspaceId = Some ''w'', c_isPrivate = True\<rparr>"]
    by fastforce
qed

text \<open>C8: A reorder leaves exactly the order the client sent: for every category, the channels of
  the request in the list the server returns are the ones the request put there, in its order,
  provided no channel is named twice. Ids that are not live channels of the workspace are ignored.\<close>

theorem reorder_gives_requested_order:
  assumes "reorderChannels D rank ws actor items db = (Inr dtos, db')"
    and "decimals_documented D" and "length items < 10 ^ 6"
    and "distinct (map cn_id (cd_channels db))" and "distinct (map fst items)"
    and "\<forall>r \<in> set (cd_channels db). cn_id r \<in> fst ` set items \<longrightarrow> cn_type r \<noteq> ''DIRECT''"
  shows "map dto_id (filter (\<lambda>d. dto_categoryId d = cat
        \<and> dto_id d \<in> fst ` set (applicable_items db ws items)) dtos)
    = map fst (filter (\<lambda>i. snd i = cat) (applicable_items db ws items))"
  by (rule reordered_ids [OF assms])

theorem reorder_gives_requested_order_witness:
  "\<exists>dtos db'. reorderChannels exact_decimals (\<lambda>_. 0) ''w'' ''ann'' [(''c'', None), (''x'', None), (''a'', None)]
       example_channels_db = (Inr dtos, db')
     \<and> map dto_id (filter (\<lambda>d. dto_categoryId d = None \<and> dto_id d \<in> {''c'', ''a''}) dtos) = [''c'', ''a'']"
proof -
  let ?items = "[(''c'', None), (''x'', None), (''a'', None)] :: (id \<times> id option) list"
  let ?r = "reorderChannels exact_decimals (\<lambda>_. 0) ''w'' ''ann'' ?items example_channels_db"
  have sent: "applicable_items example_channels_db ''w'' ?items = [(''c'', None), (''a'', None)]"
    by (simp add: applicable_items_def live_in_def example_simps)
  have "placed exact_decimals (numbered (\<lambda>_. 0) [(''c'', None), (''a'', None :: id option)])
      = Some (renumbering [(''c'', None), (''a'', None)])"
    by (rule placed_renumbering [OF exact_documented]) simp
  then have "\<exists>dtos. fst ?r = Inr dtos"
    by (simp add: reorderChannels_def sent category_rows_exist_def Let_def del: numbered.simps placed.simps)
  then obtain dtos where r: "?r = (Inr dtos, snd ?r)" by (metis prod.collapse)
  have "map dto_id (filter (\<lambda>d. dto_categoryId d = None \<and> dto_id d \<in> {''c'', ''a''}) dtos) = [''c'', ''a'']"
    using reorder_gives_requested_order [OF r exact_documented, of None]
    by (simp add: sent) (simp add: example_simps)
  with r show ?thesis by (intro exI conjI)
qed

text \<open>C6: Whatever sequence of channel and category operations a workspace goes through, with
  whatever answers, its tables stay well formed: ids are unique, no two live channels of a
  workspace (nor two live categories) share a name, a channel has at most one override per
  principal, and a default channel is neither deleted nor archived.\<close>

theorem channel_tables_well_formed:
  assumes "(chan_step D)\<^sup>*\<^sup>* db db'" and "channels_ok db"
  shows "channels_ok db'"
  using assms by (induction rule: rtranclp_induct) (auto intro: channels_ok_step)

theorem channel_tables_well_formed_witness:
  "\<exists>db'. joinChannel ''g'' ''w'' ''b'' ''bob'' example_channels_db = (Inr (), db')
     \<and> cd_grants db' \<noteq> [] \<and> channels_ok db'"
proof -
  let ?r = "joinChannel ''g'' ''w'' ''b'' ''bob'' example_channels_db"
  have "fst ?r = Inr ()" "cd_grants (snd ?r) \<noteq> []"
    by (simp_all add: joinChannel_def channel_in_workspace_def find_channel_def live_in_def seed_grant_def example_simps)
  moreover from this have r: "?r = (Inr (), snd ?r)" by (metis prod.collapse)
  then have "(chan_step exact_decimals)\<^sup>*\<^sup>* example_channels_db (snd ?r)"
    by (intro r_into_rtranclp chan_step.join)
  then have "channels_ok (snd ?r)" by (rule channel_tables_well_formed [OF _ example_channels_ok])
  ultimately show ?thesis using r by blast
qed

section \<open>Errors and exceptions\<close>

text \<open>The default channel is refused by deletion and archiving, and nothing changes.\<close>

lemma default_channel_protected:
  assumes "find_channel db (in_workspace ws ch) = Some r" and "cn_isDefault r"
  shows "softDeleteChannel now ws ch actor db = (Inl (Rejected DEFAULT_CHANNEL_PROTECTED), db)"
    and "archiveChannel now ws ch actor db = (Inl (Rejected DEFAULT_CHANNEL_PROTECTED), db)"
  using assms by (simp_all add: softDeleteChannel_def archiveChannel_def unprotected_channel_def)

text \<open>A private channel goes public only with its current name as the confirmation.\<close>

lemma going_public_is_confirmed:
  assumes "updateChannel ws ch actor req db = (Inr row, db')" and "\<not> cn_isPrivate row"
    and "find_channel db (\<lambda>r. cn_id r = ch) = Some before" and "cn_isPrivate before"
  shows "up_confirmName req = Some (cn_name before)"
proof -
  obtain b where b: "update_checks db ws ch req = Inr b" and row: "row = updated_channel req b"
    using assms(1) by (auto simp: updateChannel_def Let_def split: sum.splits if_splits)
  from b assms(3) have eq: "b = before" and confirm: "going_public req before \<longrightarrow> up_confirmName req = Some (cn_name before)"
    by (auto simp: update_checks_def bind_res_Inr_iff split: if_splits)
  have "up_isPrivate req = Some False"
    using assms(2,4) by (auto simp: row eq updated_channel_def given_def split: option.splits)
  with confirm assms(4) show ?thesis by (simp add: going_public_def)
qed

text \<open>\<open>update\<close> does not look at \<open>isDefault\<close>: the default channel, which every newcomer lands in, can be
  made private.\<close>

lemma default_channel_can_go_private:
  assumes "find_channel db (\<lambda>r. cn_id r = ch) = Some before" and "cn_isDefault before"
    and "\<not> name_clash (cd_channels db) before"
  defines "req \<equiv> \<lparr>up_name = None, up_topic = None, up_description = None, up_categoryId = None,
     up_slowmodeSeconds = None, up_memberCanPin = None, up_fileUploadEnabled = None,
     up_maxFileSizeBytes = None, up_isPrivate = Some True, up_confirmName = None\<rparr>"
  shows "\<exists>row. fst (updateChannel ws ch actor req db) = Inr row \<and> cn_isDefault row \<and> cn_isPrivate row"
proof -
  have "updated_channel req before = before\<lparr>cn_isPrivate := True\<rparr>"
    by (simp add: updated_channel_def req_def given_def)
  moreover have "\<not> name_clash (cd_channels db) (before\<lparr>cn_isPrivate := True\<rparr>)"
    using assms(3) by (simp add: name_clash_def)
  ultimately show ?thesis
    using assms(1,2)
    by (simp add: updateChannel_def update_checks_def going_public_def req_def Let_def)
qed

text \<open>Restoring a channel whose name was taken meanwhile violates the unique index, and \<open>restore\<close> does
  not map the violation as \<open>create\<close> and \<open>update\<close> do.\<close>

lemma restore_of_taken_name_fails:
  assumes "find_channel db (in_workspace ws ch) = Some r" and "\<not> live_row r"
    and "s \<in> set (cd_channels db)" "live_in ws (cn_id s) s" "cn_id s \<noteq> ch" "cn_name s = cn_name r"
  shows "restoreChannel ws ch actor db = (Inl Unique_violation, db)"
proof -
  have r: "cn_id r = ch" "cn_workspaceId r = Some ws"
    using find_channel_row [OF assms(1)] by (auto simp: in_workspace_def)
  have "name_clash (cd_channels db) (r\<lparr>cn_deletedAt := None\<rparr>)"
    using assms(3-6) r by (auto simp: name_clash_def list_ex_iff live_in_def)
  then show ?thesis using assms(1,2) by (auto simp: restoreChannel_def Let_def)
qed

text \<open>Nine channels fill a category: the tenth cannot be created, although none of the code's errors
  is raised.\<close>

lemma tenth_channel_overflows:
  assumes D: "decimals_documented D" and ok: "create_checks db ws input = Inr ()"
    and nine: "last_position (bucket_positions db ws (cr_categoryId input) (\<lambda>_. True)) = Some (9 * POSITION_STRIDE)"
  shows "createChannel D now cid gid ws actor input db = (Inl Numeric_overflow, db)"
  using tenth_append_overflows(2,3) [OF D] by (simp add: createChannel_def ok nine store_position_def Let_def)

text \<open>An anchor is placed against with the stride, not against its neighbour: moving \<open>c\<close> right behind
  \<open>a\<close> puts it on the position of \<open>b\<close>.\<close>

lemma move_after_collides:
  "\<exists>row. fst (moveChannel exact_decimals ''w'' ''c'' ''ann''
       \<lparr>mv_categoryId = None, mv_beforeId = None, mv_afterId = Some ''a''\<rparr> example_channels_db) = Inr row
     \<and> cn_position row = cn_position (example_row ''b'' ''random'' (2 * 10 ^ 9))"
proof -
  have "d_column exact_decimals 2000000000 = Some 2000000000" by (simp add: exact_decimals_def Let_def)
  moreover have "calcBetween exact_decimals (Some 1000000000) None = Inr 2000000000"
    by (simp add: calcBetween_def POSITION_STRIDE_def exact_decimals_def)
  ultimately show ?thesis
    by (simp add: moveChannel_def move_target_def channel_in_workspace_def find_channel_def live_in_def
        optionalCategory_def anchor_position_def anchored_position_def store_position_def given_def
        Let_def example_simps)
qed

text \<open>A reorder does not check the categories it writes: a deleted one, or one of another workspace, is
  accepted as long as its row exists, and no category of the list then shows the channel.\<close>

lemma reorder_into_foreign_category:
  assumes D: "decimals_documented D" and ch: "r \<in> set (cd_channels db)" "live_in ws (cn_id r) r"
    and cat: "c \<in> set (cd_categories db)"
  shows "\<exists>dtos. fst (reorderChannels D rank ws actor [(cn_id r, Some (ct_id c))] db) = Inr dtos"
proof -
  let ?items = "[(cn_id r, Some (ct_id c))]"
  have sent: "applicable_items db ws ?items = ?items"
    using ch by (auto simp: applicable_items_def list_ex_iff)
  have "category_rows_exist db ?items" using cat by (auto simp: category_rows_exist_def list_ex_iff)
  moreover have "placed D (numbered (\<lambda>_. 0) ?items) = Some (renumbering ?items)"
    by (rule placed_renumbering [OF D]) simp
  ultimately show ?thesis
    by (simp add: reorderChannels_def sent Let_def del: numbered.simps placed.simps)
qed

text \<open>Leaving deletes the row of the user whatever it holds: a restriction that an administrator set
  on him is gone.\<close>

lemma leaving_lifts_restriction:
  "\<exists>db db'. example_channels_db\<lparr>cd_grants := [new_grant ''g'' ''b'' USER ''bob'' 0 3]\<rparr> = db
     \<and> leaveChannel ''w'' ''b'' ''bob'' db = (Inr (), db')
     \<and> \<not> bit (effective_of_member (chan_tables db) \<lparr>c_id = ''b'', c_workspaceId = Some ''w'', c_isPrivate = False\<rparr>
           ''bob'' \<lparr>mi_role = MEMBER, mi_memberRoles = []\<rparr>) 1
     \<and> bit (effective_of_member (chan_tables db') \<lparr>c_id = ''b'', c_workspaceId = Some ''w'', c_isPrivate = False\<rparr>
           ''bob'' \<lparr>mi_role = MEMBER, mi_memberRoles = []\<rparr>) 1"
proof -
  let ?db = "example_channels_db\<lparr>cd_grants := [new_grant ''g'' ''b'' USER ''bob'' 0 3]\<rparr>"
  let ?r = "leaveChannel ''w'' ''b'' ''bob'' ?db"
  have r: "?r = (Inr (), snd ?r)" and gone: "cd_grants (snd ?r) = []"
    by (simp_all add: leaveChannel_def channel_in_workspace_def find_channel_def live_in_def is_grant_def
        new_grant_def delete_where_def example_simps)
  have "bit (computeEnforcementBase \<lparr>mi_role = MEMBER, mi_memberRoles = []\<rparr>) 1"
    by (simp add: computeEnforcementBase_def)
  moreover have "bit (to_int32 3) 1" by (simp add: to_int32_def)
  ultimately show ?thesis
    using r gone by (auto simp: effective_bit grant_bit_def applies_to_def new_grant_def)
qed

text \<open>The sidebar lists a private channel for any allowed bit, also where the gate refuses READ.\<close>

lemma sidebar_shows_unreadable:
  "\<exists>db r. cn_isPrivate r \<and> cd_grants db = [new_grant ''g'' ''p'' USER ''bob'' 2 0]
     \<and> sidebar_shows (chan_tables db) ''w'' ''bob'' r
     \<and> \<not> bit (effective_of_member (chan_tables db)
           \<lparr>c_id = cn_id r, c_workspaceId = Some ''w'', c_isPrivate = True\<rparr>
           ''bob'' \<lparr>mi_role = MEMBER, mi_memberRoles = []\<rparr>) 0"
proof -
  let ?db = "example_channels_db\<lparr>cd_grants := [new_grant ''g'' ''p'' USER ''bob'' 2 0]\<rparr>"
  let ?r = "(example_row ''p'' ''staff'' 1)\<lparr>cn_isPrivate := True\<rparr>"
  have "sidebar_shows (chan_tables ?db) ''w'' ''bob'' ?r"
    by (simp add: sidebar_shows_def sidebar_hit_def new_grant_def example_simps Let_def)
  moreover have "\<not> bit (to_int32 2) 0" by (simp add: to_int32_def bit_0)
  then have "\<not> bit (effective_of_member (chan_tables ?db)
      \<lparr>c_id = ''p'', c_workspaceId = Some ''w'', c_isPrivate = True\<rparr>
      ''bob'' \<lparr>mi_role = MEMBER, mi_memberRoles = []\<rparr>) 0"
    by (auto simp: effective_bit grant_bit_def applies_to_def new_grant_def)
  ultimately show ?thesis by (intro exI [of _ ?db] exI [of _ ?r]) (simp add: example_simps)
qed

section \<open>Favourites and sections\<close>

text \<open>Adding a favourite twice in a row changes nothing; but of two concurrent first additions the
  second fails, although its handler means to return the row of the first.\<close>

lemma find_appended: "\<forall>x \<in> set t. \<not> p x \<Longrightarrow> p f \<Longrightarrow> find p (t @ [f]) = Some f"
  by (induction t) auto

lemma favorite_added_twice:
  assumes "addFavorite D now user ch t t = (Favorite f, t')"
  shows "addFavorite D now' user ch t' t' = (Favorite f, t')"
proof (cases "favorite_of t user ch")
  case None
  then have none: "\<forall>g \<in> set t. \<not> (fv_userId g = user \<and> fv_channelId g = ch)"
    by (simp add: favorite_of_def find_None_iff)
  have "t' = t @ [f] \<and> fv_userId f = user \<and> fv_channelId f = ch"
    using assms None by (auto simp: addFavorite_def Let_def split: sum.splits)
  moreover from this none have "find (\<lambda>g. fv_userId g = user \<and> fv_channelId g = ch) (t @ [f]) = Some f"
    by (intro find_appended) auto
  ultimately show ?thesis by (simp add: addFavorite_def favorite_of_def)
qed (use assms in \<open>auto simp: addFavorite_def\<close>)

lemma concurrent_favorite_aborts:
  assumes "favorite_of seen user ch = None" and "favorite_of t user ch \<noteq> None"
    and "store_position D (calcBetween D (last_position (favorite_positions seen user (\<lambda>_. True))) None) = Inr p"
  shows "addFavorite D now user ch seen t = (Transaction_aborted, t)"
  using assms by (auto simp: addFavorite_def)

text \<open>A channel stands in at most one section of a user, and only in a section that exists.\<close>

definition sections_ok :: "section_db \<Rightarrow> bool" where
  "sections_ok sd \<longleftrightarrow>
     distinct (map (\<lambda>a. (as_userId a, as_channelId a)) (sd_assignments sd)) \<and>
     (\<forall>a \<in> set (sd_assignments sd). as_sectionId a \<in> se_id ` set (sd_sections sd))"

lemma put_assignment_ok:
  assumes "sections_ok sd" and "i \<in> se_id ` set (sd_sections sd)"
  shows "sections_ok (put_assignment user ch i pos sd)"
proof (cases "list_ex (assignment_of user ch) (sd_assignments sd)")
  case True
  have "map (\<lambda>a. (as_userId a, as_channelId a))
      (update_where (assignment_of user ch) (\<lambda>a. a\<lparr>as_sectionId := i, as_position := pos\<rparr>) (sd_assignments sd))
    = map (\<lambda>a. (as_userId a, as_channelId a)) (sd_assignments sd)"
    by (rule map_update_where) simp
  then show ?thesis
    using assms True by (auto simp: sections_ok_def put_assignment_def set_update_where)
next
  case False
  then show ?thesis
    using assms by (auto simp: sections_ok_def put_assignment_def assignment_of_def list_ex_iff)
qed

lemma requireSection_known: "requireSection user ws i sd = Inr s \<Longrightarrow> i \<in> se_id ` set (sd_sections sd)"
  by (auto simp: requireSection_def own_section_def split: option.splits dest!: find_Some_in)

lemma put_section_ok:
  assumes "\<And>s. se_id (f s) = se_id s" and "sections_ok sd"
  shows "sections_ok (put_section i f sd)"
proof -
  have "se_id ` set (update_where (\<lambda>s. se_id s = i) f (sd_sections sd)) = se_id ` set (sd_sections sd)"
    using map_update_where [of se_id f, OF assms(1)] by (metis set_map)
  then show ?thesis using assms(2) by (simp add: sections_ok_def put_section_def)
qed

lemma sections_ok_ops:
  assumes ok: "sections_ok sd"
  shows "sections_ok (snd (createSection D now i user ws nm emoji sortMode sd))"
    and "sections_ok (snd (updateSection user ws i nmo emojo sorto sd))"
    and "sections_ok (snd (removeSection user ws i sd))"
    and "sections_ok (snd (moveSection D user ws i input sd))"
    and "sections_ok (snd (assignChannel D user ws i ch db sd))"
    and "sections_ok (snd (unassignChannel user ws i ch sd))"
proof -
  show "sections_ok (snd (createSection D now i user ws nm emoji sortMode sd))"
    using ok by (auto simp: createSection_def sections_ok_def Let_def split: sum.splits)
  show "sections_ok (snd (updateSection user ws i nmo emojo sorto sd))"
    using ok by (auto simp: updateSection_def Let_def intro!: put_section_ok split: sum.splits)
  show "sections_ok (snd (removeSection user ws i sd))"
    using ok by (auto simp: removeSection_def sections_ok_def set_delete_where image_iff
        distinct_map_delete_where split: sum.splits)
  show "sections_ok (snd (moveSection D user ws i input sd))"
    using ok by (auto simp: moveSection_def Let_def intro!: put_section_ok split: sum.splits)
  show "sections_ok (snd (assignChannel D user ws i ch db sd))"
    using ok by (auto simp: assignChannel_def Let_def dest: requireSection_known intro!: put_assignment_ok
        split: sum.splits)
  show "sections_ok (snd (unassignChannel user ws i ch sd))"
    using ok by (auto simp: unassignChannel_def sections_ok_def Let_def set_delete_where
        distinct_map_delete_where split: sum.splits)
qed

lemma sections_ok_moveAssignment:
  assumes ok: "sections_ok sd"
  shows "sections_ok (snd (moveAssignment D user ws ch dest input sd))"
proof -
  have "i \<in> se_id ` set (sd_sections sd)" if "assignment_target user ws ch dest sd = Inr i" for i
    using that unfolding assignment_target_def
    by (auto simp: bind_res_Inr_iff split: option.splits if_splits dest: requireSection_known)
  then show ?thesis
    using ok by (auto simp: moveAssignment_def Let_def intro!: put_assignment_ok split: sum.splits)
qed

end
