(* ===== verification/Slowmode.thy ===== *)
theory Slowmode
  imports Qufox_Prelude
begin

text \<open>
  \<open>apps/api/src/channels/slowmode/slowmode.service.ts\<close>: the gate that \<open>send\<close> passes in a channel with
  slow mode.

  Redis is the map from keys to the time they expire at, with the two commands the service uses;
  each command may throw, whereupon the gate falls back to the time of the sender's latest message.
  A call is a sequence of commands, between which the commands of other calls may run:
  \<open>slow_step\<close> is one command of one call, on one clock that is shared. Redis keeps its keys; a
  restart that loses them is outside the model.
\<close>

type_synonym slow_key = "id \<times> id"  \<comment> \<open>\<open>slowmode:{channelId}:{userId}\<close>\<close>
type_synonym slow_store = "slow_key \<Rightarrow> msec option"

datatype slow_result =
    Sent               \<comment> \<open>the cooldown was started\<close>
  | Sent_degraded      \<comment> \<open>let through by the fallback\<close>
  | Slowmode_active msec  \<comment> \<open>CHANNEL_SLOWMODE_ACTIVE with \<open>retryAfterMs\<close>\<close>

datatype slow_phase = Before_read | Before_set | Before_reread | Done slow_result

section \<open>The commands\<close>

definition pttl :: "msec \<Rightarrow> slow_store \<Rightarrow> slow_key \<Rightarrow> int" where
  \<comment> \<open>milliseconds left, or -2 without the key\<close>
  "pttl now st k = (case st k of None \<Rightarrow> -2 | Some e \<Rightarrow> if e \<le> now then -2 else e - now)"

definition set_nx :: "msec \<Rightarrow> int \<Rightarrow> slow_store \<Rightarrow> slow_key \<Rightarrow> slow_store option" where
  \<comment> \<open>\<open>SET key 1 EX secs NX\<close>; \<open>None\<close> when the key is there\<close>
  "set_nx now secs st k = (if 0 < pttl now st k then None else Some (st(k \<mapsto> now + secs * 1000)))"

definition enforceViaDbFallback :: "msec option \<Rightarrow> msec \<Rightarrow> int \<Rightarrow> slow_result" where
  \<comment> \<open>\<open>latest\<close>: \<open>createdAt\<close> of the sender's most recent message in the channel\<close>
  "enforceViaDbFallback latest now secs =
     (case latest of None \<Rightarrow> Sent_degraded
      | Some created \<Rightarrow>
          (let elapsed = now - created; window = secs * 1000
           in if elapsed < window then Slowmode_active (window - elapsed) else Sent_degraded))"

definition read_phase :: "msec \<Rightarrow> slow_store \<Rightarrow> slow_key \<Rightarrow> slow_phase" where
  "read_phase now st k = (let left = pttl now st k in if 0 < left then Done (Slowmode_active left) else Before_set)"

definition reread_phase :: "msec \<Rightarrow> int \<Rightarrow> slow_store \<Rightarrow> slow_key \<Rightarrow> slow_phase" where
  "reread_phase now secs st k =
     (let left = pttl now st k in Done (Slowmode_active (if 0 < left then left else secs * 1000)))"

definition enforce_command ::
  "bool \<Rightarrow> msec option \<Rightarrow> msec \<Rightarrow> slow_key \<Rightarrow> int \<Rightarrow> slow_phase \<Rightarrow> slow_store \<Rightarrow> slow_phase \<times> slow_store" where
  \<comment> \<open>the next command of a call; \<open>up\<close>: it does not throw\<close>
  "enforce_command up latest now k secs ph st =
     (case ph of
        Done r \<Rightarrow> (Done r, st)
      | _ \<Rightarrow>
          if \<not> up then (Done (enforceViaDbFallback latest now secs), st)
          else (case ph of
                  Before_read \<Rightarrow> (read_phase now st k, st)
                | Before_set \<Rightarrow> (case set_nx now secs st k of None \<Rightarrow> (Before_reread, st)
                                  | Some st' \<Rightarrow> (Done Sent, st'))
                | _ \<Rightarrow> (reread_phase now secs st k, st)))"

definition gated :: "int \<Rightarrow> bool \<Rightarrow> bool" where
  \<comment> \<open>the early returns of \<open>enforce\<close>\<close>
  "gated slowmodeSeconds hasBypass \<longleftrightarrow> 0 < slowmodeSeconds \<and> \<not> hasBypass"

definition enforceSlowmode ::
  "bool \<Rightarrow> msec option \<Rightarrow> msec \<Rightarrow> slow_key \<Rightarrow> int \<Rightarrow> bool \<Rightarrow> slow_store \<Rightarrow> slow_result option \<times> slow_store" where
  \<comment> \<open>a call that no other interrupts; \<open>None\<close> for a call that is not gated\<close>
  "enforceSlowmode up latest now k secs bypass st =
     (if \<not> gated secs bypass then (None, st)
      else (let (ph1, st1) = enforce_command up latest now k secs Before_read st;
                (ph2, st2) = enforce_command up latest now k secs ph1 st1;
                (ph3, st3) = enforce_command up latest now k secs ph2 st2
            in case ph3 of Done r \<Rightarrow> (Some r, st3) | _ \<Rightarrow> (None, st3)))"

section \<open>Interleaved calls\<close>

record slow_call =
  sc_key :: slow_key
  sc_secs :: int
  sc_phase :: slow_phase

record slow_state =
  sw_now :: msec
  sw_store :: slow_store
  sw_calls :: "slow_call list"
  sw_log :: "(slow_key \<times> int \<times> msec) list"  \<comment> \<open>the sends that started a cooldown\<close>

definition slow_init :: slow_state where
  "slow_init = \<lparr>sw_now = 0, sw_store = Map.empty, sw_calls = [], sw_log = []\<rparr>"

definition run_call :: "bool \<Rightarrow> msec option \<Rightarrow> nat \<Rightarrow> slow_state \<Rightarrow> slow_state" where
  "run_call up latest i s =
     (let c = sw_calls s ! i;
          (ph, st) = enforce_command up latest (sw_now s) (sc_key c) (sc_secs c) (sc_phase c) (sw_store s)
      in s\<lparr>sw_store := st, sw_calls := (sw_calls s)[i := c\<lparr>sc_phase := ph\<rparr>],
           sw_log := (if ph = Done Sent \<and> sc_phase c \<noteq> Done Sent
                      then sw_log s @ [(sc_key c, sc_secs c, sw_now s)] else sw_log s)\<rparr>)"

inductive slow_step :: "slow_state \<Rightarrow> slow_state \<Rightarrow> bool" where
  arrive: "gated secs bypass \<Longrightarrow>
    slow_step s (s\<lparr>sw_calls := sw_calls s @ [\<lparr>sc_key = k, sc_secs = secs, sc_phase = Before_read\<rparr>]\<rparr>)"
| tick: "sw_now s \<le> t \<Longrightarrow> slow_step s (s\<lparr>sw_now := t\<rparr>)"
| run: "i < length (sw_calls s) \<Longrightarrow> slow_step s (run_call up latest i s)"

section \<open>Lemmas\<close>

definition spaced :: "slow_key \<times> int \<times> msec \<Rightarrow> slow_key \<times> int \<times> msec \<Rightarrow> bool" where
  \<comment> \<open>the second of two sends keeps the interval of the first\<close>
  "spaced p q \<longleftrightarrow> fst p = fst q \<longrightarrow> snd (snd p) + fst (snd p) * 1000 \<le> snd (snd q)"

definition guarded :: "slow_state \<Rightarrow> slow_key \<times> int \<times> msec \<Rightarrow> bool" where
  \<comment> \<open>the interval of a send is over, or its key is still there to guard it\<close>
  "guarded s p \<longleftrightarrow> snd (snd p) + fst (snd p) * 1000 \<le> sw_now s \<or>
     (\<exists>e. sw_store s (fst p) = Some e \<and> snd (snd p) + fst (snd p) * 1000 \<le> e)"

definition slow_inv :: "slow_state \<Rightarrow> bool" where
  "slow_inv s \<longleftrightarrow> sorted_wrt spaced (sw_log s) \<and> (\<forall>p \<in> set (sw_log s). guarded s p)"

lemma enforce_command_store:
  "enforce_command up latest now k secs ph st = (ph', st') \<Longrightarrow>
   st' = st \<and> (ph' = Done Sent \<longrightarrow> ph = Done Sent)
   \<or> ph = Before_set \<and> ph' = Done Sent \<and> \<not> 0 < pttl now st k \<and> st' = st(k \<mapsto> now + secs * 1000)"
  by (auto simp: enforce_command_def set_nx_def read_phase_def reread_phase_def enforceViaDbFallback_def Let_def
      split: slow_phase.splits if_splits option.splits)

lemma slow_inv_run:
  assumes "slow_inv s"
  shows "slow_inv (run_call up latest i s)"
proof -
  let ?c = "sw_calls s ! i"
  obtain ph st where step: "enforce_command up latest (sw_now s) (sc_key ?c) (sc_secs ?c) (sc_phase ?c) (sw_store s)
      = (ph, st)" by force
  from enforce_command_store [OF step] show ?thesis
  proof (elim disjE conjE)
    assume "st = sw_store s" "ph = Done Sent \<longrightarrow> sc_phase ?c = Done Sent"
    with assms step show ?thesis by (auto simp: slow_inv_def run_call_def guarded_def Let_def)
  next
    assume set: "sc_phase ?c = Before_set" "ph = Done Sent" "\<not> 0 < pttl (sw_now s) (sw_store s) (sc_key ?c)"
      "st = (sw_store s)(sc_key ?c \<mapsto> sw_now s + sc_secs ?c * 1000)"
    let ?new = "(sc_key ?c, sc_secs ?c, sw_now s)"
    have expired: "sw_store s (sc_key ?c) = Some e \<Longrightarrow> e \<le> sw_now s" for e
      using set(3) by (auto simp: pttl_def split: if_splits)
    have over: "snd (snd p) + fst (snd p) * 1000 \<le> sw_now s"
      if "p \<in> set (sw_log s)" "fst p = sc_key ?c" for p
    proof -
      have "guarded s p" using assms that(1) by (simp add: slow_inv_def)
      then show ?thesis using expired that(2) unfolding guarded_def by fastforce
    qed
    have log: "sw_log (run_call up latest i s) = sw_log s @ [?new]"
      and store: "sw_store (run_call up latest i s) = st" and now: "sw_now (run_call up latest i s) = sw_now s"
      using step set by (simp_all add: run_call_def Let_def)
    have "sorted_wrt spaced (sw_log s @ [?new])"
      using assms over by (auto simp: slow_inv_def sorted_wrt_append spaced_def)
    moreover have "guarded (run_call up latest i s) p" if "p \<in> set (sw_log s @ [?new])" for p
    proof (cases "fst p = sc_key ?c")
      case True
      show ?thesis
      proof (cases "p = ?new")
        case False
        then have "snd (snd p) + fst (snd p) * 1000 \<le> sw_now s" using over [OF _ True] that by auto
        then show ?thesis by (simp add: guarded_def now)
      qed (simp add: guarded_def store now set(4))
    next
      case False
      then have "p \<in> set (sw_log s)" using that by auto
      then have "guarded s p" using assms by (simp add: slow_inv_def)
      then show ?thesis using False by (simp add: guarded_def store now set(4))
    qed
    ultimately show ?thesis by (simp add: slow_inv_def log)
  qed
qed

lemma slow_inv_step: "slow_step s s' \<Longrightarrow> slow_inv s \<Longrightarrow> slow_inv s'"
proof (induction rule: slow_step.induct)
  case (tick s t)
  then show ?case by (fastforce simp: slow_inv_def guarded_def)
next
  case (run i s up latest)
  show ?case by (rule slow_inv_run [OF run.prems])
qed (simp add: slow_inv_def guarded_def)

lemma slow_inv_reachable: "slow_step\<^sup>*\<^sup>* slow_init s \<Longrightarrow> slow_inv s"
proof (induction rule: rtranclp_induct)
  case base
  show ?case by (simp add: slow_inv_def slow_init_def)
qed (rule slow_inv_step)

text \<open>A call of its own: it passes exactly when no cooldown runs, and starts one.\<close>

lemma enforce_alone:
  assumes "gated secs bypass"
  shows "enforceSlowmode True latest now k secs bypass st =
    (if 0 < pttl now st k then (Some (Slowmode_active (pttl now st k)), st)
     else (Some Sent, st(k \<mapsto> now + secs * 1000)))"
  using assms by (simp add: enforceSlowmode_def enforce_command_def read_phase_def set_nx_def Let_def)

text \<open>Without Redis the interval is measured from the last message.\<close>

lemma enforce_degraded:
  assumes "gated secs bypass"
  shows "enforceSlowmode False latest now k secs bypass st = (Some (enforceViaDbFallback latest now secs), st)"
    and "enforceViaDbFallback (Some created) now secs = Sent_degraded \<longleftrightarrow> created + secs * 1000 \<le> now"
  using assms by (auto simp: enforceSlowmode_def enforce_command_def enforceViaDbFallback_def Let_def)

section \<open>Properties\<close>

text \<open>C7: Slow mode holds under concurrency: in every interleaving of the commands of any number of
  calls, with Redis failing at any of them, two sends of a user in a channel that started a cooldown
  are at least the interval of the first apart. The check and the set are two commands; the set,
  which only succeeds without the key, decides.\<close>

theorem sends_respect_slowmode:
  assumes "slow_step\<^sup>*\<^sup>* slow_init s"
  shows "sorted_wrt (\<lambda>(k, secs, t) (k', _, t'). k = k' \<longrightarrow> t + secs * 1000 \<le> t') (sw_log s)"
proof -
  have "(\<lambda>(k, secs, t) (k', _, t'). k = k' \<longrightarrow> t + secs * 1000 \<le> t') = spaced"
    by (intro ext) (auto simp: spaced_def)
  then show ?thesis using slow_inv_reachable [OF assms] by (simp add: slow_inv_def)
qed

definition example_call :: "slow_state \<Rightarrow> slow_state" where
  \<comment> \<open>two calls of the same user read before either sets\<close>
  "example_call s = run_call True None 1 (run_call True None 1 (run_call True None 0
     (run_call True None 1 (run_call True None 0 s))))"

definition example_arrivals :: slow_state where
  "example_arrivals = slow_init\<lparr>sw_calls :=
     [\<lparr>sc_key = (''c'', ''u''), sc_secs = 5, sc_phase = Before_read\<rparr>,
      \<lparr>sc_key = (''c'', ''u''), sc_secs = 5, sc_phase = Before_read\<rparr>]\<rparr>"

lemma reach_run:
  "slow_step\<^sup>*\<^sup>* a s \<Longrightarrow> i < length (sw_calls s) \<Longrightarrow> slow_step\<^sup>*\<^sup>* a (run_call up latest i s)"
  by (erule rtranclp.rtrancl_into_rtrancl) (rule slow_step.run)

lemma length_run_call [simp]: "length (sw_calls (run_call up latest i s)) = length (sw_calls s)"
  by (simp add: run_call_def Let_def case_prod_beta)

lemma example_call_results:
  "sw_log (example_call example_arrivals) = [((''c'', ''u''), 5, 0)]"
  "map sc_phase (sw_calls (example_call example_arrivals)) = [Done Sent, Done (Slowmode_active 5000)]"
  by (simp_all add: example_call_def example_arrivals_def slow_init_def run_call_def enforce_command_def
      read_phase_def reread_phase_def set_nx_def pttl_def Let_def)

theorem sends_respect_slowmode_witness:
  "\<exists>s. slow_step\<^sup>*\<^sup>* slow_init s \<and> sw_log s = [((''c'', ''u''), 5, 0)] \<and>
     sorted_wrt (\<lambda>(k, secs, t) (k', _, t'). k = k' \<longrightarrow> t + secs * 1000 \<le> t') (sw_log s)"
proof -
  have g: "gated 5 False" by (simp add: gated_def)
  have "slow_step\<^sup>*\<^sup>* slow_init example_arrivals"
    using slow_step.arrive [OF g, of slow_init "(''c'', ''u'')"]
      slow_step.arrive [OF g, of "slow_init\<lparr>sw_calls := [\<lparr>sc_key = (''c'', ''u''), sc_secs = 5, sc_phase = Before_read\<rparr>]\<rparr>" "(''c'', ''u'')"]
    by (simp add: example_arrivals_def slow_init_def)
  moreover have "length (sw_calls example_arrivals) = 2" by (simp add: example_arrivals_def)
  then have "slow_step\<^sup>*\<^sup>* example_arrivals (example_call example_arrivals)"
    unfolding example_call_def
    by (intro reach_run rtranclp.rtrancl_refl) simp_all
  ultimately have reach: "slow_step\<^sup>*\<^sup>* slow_init (example_call example_arrivals)" by (rule rtranclp_trans)
  then show ?thesis using sends_respect_slowmode [OF reach] example_call_results(1) by blast
qed

end
