(* ===== verification/Spec2Isabelle.thy ===== *)
theory Spec2Isabelle
  imports Channel_Access Viewport_Lru Auth_Tokens Message_Counts Message_History Message_Replay Gap_Sync Link_Fetch Guild_Invariants Reactions Search Channel_Invariants Slowmode
begin

text \<open>
  A model of the core logic of qufox, a workspace chat: a NestJS API over PostgreSQL and Redis
  (\<open>apps/api\<close>), a React client (\<open>apps/web\<close>) and the contracts both share
  (\<open>packages/shared-types\<close>). The API decides who may do what in which channel, keeps sessions and
  friendships, numbers the events of a channel and replays them; the client tracks those numbers,
  repairs what it missed after a reconnect, and keeps its caches and subscriptions small. A message
  passes the mention scanner, the gates on who may mention whom and the shared parser on its way
  into the database; its transaction also maintains its thread, notifies and records events.

  \<^bold>\<open>Parts and theories.\<close>

  \<^item> \<^verbatim>\<open>Qufox_Prelude\<close>: names of the basic types (ids, times, 32 bit masks, JavaScript strings as
    lists of UTF-16 code units), error codes (an \<open>error_code\<close> holds the code's string), results as
    sums, transactions that roll back,
    tables as lists with \<open>update_where\<close> and \<open>delete_where\<close>, decimal notation of BigInt, and two
    contracts as locales. \<open>five_stage\<close>: a mask folded through base, role allow, role deny, user
    allow, user deny decides each bit by a fixed precedence; the 32 bit matrix and the unbounded
    BigInt fold both provide it. \<open>invariant_machine\<close>: a step function whose steps keep an
    invariant, so runs do; the role operations, the sync orchestrator (twice), the viewport
    tracker and the friend operations provide it.
  \<^item> \<^verbatim>\<open>Permissions\<close>: \<open>shared-types/src/permissions.ts\<close> and the tables of \<open>roles.ts\<close> (the BigInt
    catalogue, storage in a signed column, strings), \<open>api/src/auth/permissions.ts\<close> (the 32 bit
    enforcement matrix), \<open>roles/role-permission-resolver.ts\<close> and
    \<open>channels/permission/bigint-to-enforcement.ts\<close>. BigInt is \<open>int\<close>, a number under bit operations
    is a \<open>32 word\<close> reached by \<open>to_int32\<close>.
  \<^item> \<^verbatim>\<open>Roles\<close>: \<open>roles.service.ts\<close>, \<open>member-role.service.ts\<close>, \<open>system-role-seed.ts\<close> over the record
    \<open>ws_db\<close> of the tables they read and write. An operation returns its result or failure and the
    tables after it; \<open>role_step\<close> makes the operations events of a run.
  \<^item> \<^verbatim>\<open>Channel_Access\<close>: \<open>channel-access.service.ts\<close>, on top of the two theories above: effective
    masks, the cache in Redis with its time to live (\<open>None\<close> is an absent Redis), the gates, mention
    scopes, visibility filters, audit.
  \<^item> \<^verbatim>\<open>Channel_Sync\<close>: \<open>channel-seq.service.ts\<close>, \<open>replay-buffer.service.ts\<close> and the client's
    \<open>seqTracker.ts\<close>, \<open>channelSyncFsm.ts\<close>, \<open>gapFetch.ts\<close>, \<open>gapMerge.ts\<close>.
  \<^item> \<^verbatim>\<open>Sync_Orchestrator\<close>: \<open>useChannelSync.ts\<close>, \<open>gapFetchQueue.ts\<close>, \<open>channelSyncStore.ts\<close> composed as
    one step function \<open>sync_step\<close> over the record \<open>sync_sys\<close>: socket events, timers that fire, REST
    calls that return or fail, evictions and the detach are its inputs, in any order.
  \<^item> \<^verbatim>\<open>Viewport_Lru\<close>: \<open>channelLruCache.ts\<close>, the store of \<open>channelLru.ts\<close>, \<open>viewportPresence.ts\<close>.
  \<^item> \<^verbatim>\<open>Auth_Tokens\<close>: the refresh tokens of \<open>token.service.ts\<close>; the inductive relation \<open>token_step\<close>
    has one rule per operation.
  \<^item> \<^verbatim>\<open>Friends\<close>: \<open>friends.service.ts\<close> over the table of friendships and the outbox.
  \<^item> \<^verbatim>\<open>Mrkdwn\<close>: \<open>mrkdwn-parser.ts\<close> with the limits and expressions of \<open>mrkdwn.ts\<close> and the link and
    size rules of \<open>mrkdwn-ast.ts\<close>.
  \<^item> \<^verbatim>\<open>Mentions\<close>: \<open>messages/mentions/\<close> (extraction, role scanner, normaliser, gates), the content
    pipeline \<open>mrkdwn-pipeline.ts\<close> and the search flags of \<open>message-flags.ts\<close>.
  \<^item> \<^verbatim>\<open>Notify_Gate\<close>: \<open>dnd-schedule.service.ts\<close>, \<open>dnd-gate.ts\<close>, \<open>notif-level.ts\<close> with its batch loader
    and \<open>mention-gate.service.ts\<close>.
  \<^item> \<^verbatim>\<open>Message_Rows\<close>, \<^verbatim>\<open>Message_List\<close>, \<^verbatim>\<open>Message_Ops\<close>, \<^verbatim>\<open>Message_Edits\<close>: \<open>messages.service.ts\<close> over the record
    \<open>store\<close> of its tables: reading (the contract of keyset paging is the locale \<open>keyset\<close>, provided
    by the timeline in both directions and by the replies of a thread), \<open>send\<close> with its checks and
    its transaction apart, and every other write; \<open>subscribe\<close> of \<open>thread-subscriptions.service.ts\<close>
    and \<open>reconcile\<close> of \<open>thread-reply-count-reconciler.service.ts\<close>.
  \<^item> \<^verbatim>\<open>Message_Invariants\<close>, \<^verbatim>\<open>Message_Counts\<close>, \<^verbatim>\<open>Message_History\<close>, \<^verbatim>\<open>Message_Replay\<close>: the writes as the
    inductive relation \<open>message_step\<close>, and what holds of the tables in every reachable state.
  \<^item> \<^verbatim>\<open>Reactions\<close>: \<open>reactions.service.ts\<close> and the requests of \<open>reactions.controller.ts\<close>; a toggle is
    split into \<open>add_read\<close> and \<open>add_write\<close>. The list of reactors is a third provider of \<open>keyset\<close>.
  \<^item> \<^verbatim>\<open>Search_Query\<close>: \<open>search/search-query.parser.ts\<close> with the calendar of JavaScript's \<open>Date\<close>;
    \<^verbatim>\<open>Search\<close>: \<open>search/search.service.ts\<close> over the tables of \<open>Channel_Access\<close> and \<open>Message_Rows\<close>.
  \<^item> \<^verbatim>\<open>Gap_Sync\<close>: the client's gap fetch over the server's paging.
  \<^item> \<^verbatim>\<open>Guilds\<close>: the tables of a workspace's people (workspaces, members, bans, channels' count,
    outbox, users) as the record \<open>guild\<close>; \<open>workspaces.service.ts\<close> (create, update, transfer, delete,
    restore, settings), \<open>members.service.ts\<close>, \<open>workspace-entry-gate.ts\<close>, the two guards and
    \<open>ip-soft-block.service.ts\<close>.
  \<^item> \<^verbatim>\<open>Moderation\<close>: \<open>moderation.service.ts\<close>: kick, ban, timeout, their reversals, the bulk form with its
    isolated failures, and undo tokens.
  \<^item> \<^verbatim>\<open>Invites\<close>: \<open>invites.service.ts\<close> and \<open>temp-evict.processor.ts\<close>. \<open>accept\<close> is split where another
    request may run: \<open>accept_check\<close>, \<open>accept_cas\<close>, \<open>accept_tx\<close>, \<open>accept_refund\<close>.
  \<^item> \<^verbatim>\<open>Applications\<close>: \<open>applications.service.ts\<close>; \<^verbatim>\<open>Pending_Invites\<close>: the mailed invitations of
    \<open>pending-invites/\<close>.
  \<^item> \<^verbatim>\<open>Guild_Invariants\<close>: all of these as one relation \<open>guild_step\<close>, and what holds of ownership.
  \<^item> \<^verbatim>\<open>Positions\<close>: \<open>channels/positioning/fractional-position.ts\<close> and the numbering of the batch
    reorders; the locale \<open>placed_rows\<close> is their contract, provided by channels and by categories.
    \<^verbatim>\<open>Channels\<close>: \<open>channels.service.ts\<close> over the record \<open>chan_db\<close>, whose view \<open>chan_tables\<close> the gates of
    \<open>Channel_Access\<close> read; \<^verbatim>\<open>Sidebar\<close>: \<open>categories.service.ts\<close>, \<open>favorites.service.ts\<close>,
    \<open>sidebar-sections.service.ts\<close>; \<^verbatim>\<open>Channel_Invariants\<close>: the operations as the inductive relation
    \<open>chan_step\<close>, and what they keep. \<^verbatim>\<open>Slowmode\<close>: \<open>slowmode.service.ts\<close>, one Redis command per step.
  \<^item> \<^verbatim>\<open>Ssrf_Guard\<close>, \<^verbatim>\<open>Link_Fetch\<close>: \<open>links/ssrf-guard.ts\<close>, \<open>pinned-http.ts\<close> and
    \<open>og-image-fetcher.ts\<close> over a network whose answers change with every operation; the locale
    \<open>pinned_hops\<close> is the contract of the two redirect loops.

  \<^bold>\<open>What the lemmas show.\<close> Authorisation: the two permission systems agree on the system roles, the
  resolvers refine precedence specifications bit by bit, the gates compute the matrix for members
  without custom roles, the cache changes no answer and is coherent again after grants change, and no
  sequence of role operations gives a group of users a permission none of them had. Sessions: a
  session has one live token, a replayed token ends it for good, rotation hands over. Friends: one
  row per pair, no friendship without consent, blocks hold. Synchronisation: missing numbers are
  reported, the gap fetch returns and is complete up to its limit, merging is idempotent, fetches are
  bounded and none is forgotten. Parser: every returned tree obeys the limits and the link rule, code
  blocks are literal, the plain text is in collapsed form. Mentions: only roles the sender may
  mention become tokens, code is left alone, and nobody behind a block, a mute or do-not-disturb is
  notified. Messages: the tables stay well-formed under any interleaving, keys make sends
  idempotent, no edit is lost and the history is a ring, counters follow the replies, and paging
  in either direction reads everything once, so that the client's gap fetch catches up. Link
  previews: the address checks decide exactly the reserved ranges, and no request leaves for an
  address that was not checked. Workspaces: a live workspace has exactly one owner after any sequence
  of operations, no moderator acts on an equal or higher role, an invite is never used more often
  than its limit, an application is decided once, and a mailed invitation serves only its address. Reactions: at most twenty kinds per message, removed
  by their author or an administrator only. Search: the channels a search sees are those the gate grants, only
  readable messages are returned, paging is complete, the window of a query is the conjunction of its
  date modifiers as calendar days, and no word is lost. Channels: their tables stay well-formed under
  any sequence of operations, a midpoint survives the rounding of its column, a reorder gives the
  order that was asked for, joining grants nothing, a new private channel is closed, override changes
  leave no stale mask in the cache, and slow mode holds between concurrent sends. Lemmas after the properties of a
  theory record where the code departs from its comments or from what it means to do.

  \<^bold>\<open>Bounds and fuel.\<close> The paging loop of the gap fetch runs on the code's own limit of ten pages, which
  is the fuel; \<open>gap_fetch_complete\<close> shows that it returns. The parser's scanners and loops recurse on
  what is left of the text, with termination proofs by its length; the deadline is a parameter that
  says of each reading of the clock whether it is late, so nothing is assumed about time. A reader
  of pages (\<open>walk_pages\<close>) has fuel for one page more than there are messages, and the paging
  properties show that it ends.

  \<^bold>\<open>Parameters.\<close> Redis commands, the hash of tokens, REST pages, the collation of ids, generated ids,
  user lookup and privacy settings, the check of a password, undo tokens kept in Redis, the codec of cursors (its round trip is the hypothesis
  \<open>codec_ok\<close>, with an instance), decimals and their columns (\<open>decimals_documented\<close>, with the exact
  instance \<open>exact_decimals\<close>), the order of the database on ids and names, \<open>Intl\<close>, the answers of AutoMod and of the rate limiter are
  arguments of the definitions that use them. Services run one
  request at a time except where a theory splits an operation at a point where another request may
  run (\<open>rotate_read\<close> and \<open>rotate_commit\<close>, \<open>send_check\<close> and \<open>send_commit\<close>, the parts of \<open>accept\<close>).

  \<^bold>\<open>Not modelled.\<close> Controllers and request validation, direct messages, unread counters, AutoMod's rules, reports, presence on the server, uploads, mail, the queue processors and the user interface. Most
  are queries and I/O; they would be modelled as parameters only.
\<close>

end
